(* ===== verification/Prelude.thy ===== *)
theory Prelude
  imports Main "HOL-Library.Word" "HOL-Library.Char_ord" "HOL-Library.List_Lexorder"
begin

text \<open>
  Shared vocabulary of the development: the machine-integer and result types, the checked
  and saturating arithmetic of Rust's standard library, byte readers, the little-endian codec
  of \<^verbatim>\<open>to_le_bytes\<close> and \<^verbatim>\<open>from_le_bytes\<close>, and the generic lemmas on lists, options and
  maps the components share. Strings are lists of bytes (\<^typ>\<open>string\<close>), as Rust's
  \<^verbatim>\<open>String\<close> is a vector of UTF-8 bytes; the lexicographic order on them is Rust's \<^verbatim>\<open>Ord\<close>
  on \<^verbatim>\<open>str\<close>.
\<close>

named_theorems rust_arith \<open>definitions of the checked and saturating operations\<close>
named_theorems codec \<open>length and round-trip laws of the byte codecs\<close>

type_synonym u8 = "8 word"
type_synonym u16 = "16 word"
type_synonym u32 = "32 word"
type_synonym u64 = "64 word"
type_synonym u128 = "128 word"
type_synonym bytes = "u8 list"

section \<open>Errors as values\<close>

text \<open>
  \<^verbatim>\<open>vmond/src/error.rs\<close>: \<^verbatim>\<open>ErrorCode\<close> and \<^verbatim>\<open>EngineError\<close>. The stable code is what callers
  dispatch on; the human-readable message is kept out of the model.
\<close>

datatype error_code =
  NotFound | NotRunning | Busy | Invalid | Unsupported | Unauthorized | Forbidden | Engine

type_synonym 'a result = "error_code + 'a"

definition error_code_as_str :: "error_code \<Rightarrow> string" where
  "error_code_as_str c = (case c of
     NotFound \<Rightarrow> ''not_found''
   | NotRunning \<Rightarrow> ''not_running''
   | Busy \<Rightarrow> ''busy''
   | Invalid \<Rightarrow> ''invalid''
   | Unsupported \<Rightarrow> ''unsupported''
   | Unauthorized \<Rightarrow> ''unauthorized''
   | Forbidden \<Rightarrow> ''forbidden''
   | Engine \<Rightarrow> ''engine_error'')"

text \<open>The \<^verbatim>\<open>?\<close> operator: stop at the first error.\<close>

definition rbind :: "'e + 'a \<Rightarrow> ('a \<Rightarrow> 'e + 'b) \<Rightarrow> 'e + 'b" where
  "rbind r f = (case r of Inl e \<Rightarrow> Inl e | Inr a \<Rightarrow> f a)"

section \<open>Integers\<close>

abbreviation i64_max :: int where "i64_max \<equiv> 9223372036854775807"
abbreviation i64_min :: int where "i64_min \<equiv> -9223372036854775808"
abbreviation usize_max :: nat where "usize_max \<equiv> 18446744073709551615"
abbreviation u64_max :: nat where "u64_max \<equiv> 18446744073709551615"

definition checked_add_i64 :: "int \<Rightarrow> int \<Rightarrow> int option" where
  [rust_arith]: "checked_add_i64 a b = (if i64_min \<le> a + b \<and> a + b \<le> i64_max then Some (a + b) else None)"

definition sat_add_usize :: "nat \<Rightarrow> nat \<Rightarrow> nat" where
  [rust_arith]: "sat_add_usize a b = min (a + b) usize_max"

definition sat_mul_usize :: "nat \<Rightarrow> nat \<Rightarrow> nat" where
  [rust_arith]: "sat_mul_usize a b = min (a * b) usize_max"

definition sat_add_u64 :: "nat \<Rightarrow> nat \<Rightarrow> nat" where
  [rust_arith]: "sat_add_u64 a b = min (a + b) u64_max"

definition checked_add_u64 :: "nat \<Rightarrow> nat \<Rightarrow> nat option" where
  [rust_arith]: "checked_add_u64 a b = (if a + b \<le> u64_max then Some (a + b) else None)"

definition div_ceil :: "nat \<Rightarrow> nat \<Rightarrow> nat" where
  [rust_arith]: "div_ceil a b = (if a mod b = 0 then a div b else a div b + 1)"

section \<open>Byte readers and the little-endian codec\<close>

text \<open>\<^verbatim>\<open>Read::read_exact\<close> on a byte source: all \<open>n\<close> bytes and the rest, or end of file.\<close>

definition read_exact :: "nat \<Rightarrow> bytes \<Rightarrow> (bytes \<times> bytes) option" where
  "read_exact n s = (if n \<le> length s then Some (take n s, drop n s) else None)"

primrec le_bytes :: "nat \<Rightarrow> nat \<Rightarrow> bytes" where
  "le_bytes 0 v = []"
| "le_bytes (Suc k) v = word_of_nat (v mod 256) # le_bytes k (v div 256)"

primrec le_val :: "bytes \<Rightarrow> nat" where
  "le_val [] = 0"
| "le_val (b # bs) = unat b + 256 * le_val bs"

lemma length_le_bytes [simp, codec]: "length (le_bytes k v) = k"
  by (induction k arbitrary: v) auto

lemma unat_u8_less: "unat (b :: u8) < 256"
  using unsigned_less [of b] by simp

lemma le_val_less: "le_val bs < 256 ^ length bs"
proof (induction bs)
  case Nil
  then show ?case by simp
next
  case (Cons b bs)
  have "unat b + 256 * le_val bs < 256 * (1 + le_val bs)"
    using unat_u8_less [of b] by simp
  also have "\<dots> \<le> 256 * 256 ^ length bs"
    using Cons.IH by (intro mult_le_mono) auto
  finally show ?case by simp
qed

lemma le_val_le_bytes [codec]: "le_val (le_bytes k v) = v mod 256 ^ k"
proof (induction k arbitrary: v)
  case 0
  then show ?case by simp
next
  case (Suc k)
  have "unat (word_of_nat (v mod 256) :: u8) = v mod 256"
    by (simp add: unat_of_nat)
  then show ?case
    using Suc.IH [of "v div 256"] by (simp add: mod_mult2_eq)
qed

lemma le_val_le_bytes_id: "v < 256 ^ k \<Longrightarrow> le_val (le_bytes k v) = v"
  by (simp add: le_val_le_bytes)

lemma le_bytes_le_val: "length bs = k \<Longrightarrow> le_bytes k (le_val bs) = bs"
proof (induction bs arbitrary: k)
  case Nil
  then show ?case by simp
next
  case (Cons b bs)
  have "(unat b + 256 * le_val bs) div 256 = le_val bs"
    using unat_u8_less [of b] by simp
  moreover have "(word_of_nat ((unat b + 256 * le_val bs) mod 256) :: u8) = b"
    using unat_u8_less [of b] by simp
  ultimately show ?case
    using Cons by auto
qed

lemma le_bytes_mod: "le_bytes k (v mod 256 ^ k) = le_bytes k v"
proof -
  have "le_bytes k (le_val (le_bytes k v)) = le_bytes k v"
    by (rule le_bytes_le_val) simp
  then show ?thesis by (simp add: le_val_le_bytes)
qed

lemma read_exact_append [simp]: "length a = n \<Longrightarrow> read_exact n (a @ b) = Some (a, b)"
  by (simp add: read_exact_def)

lemma read_exact_Some: "read_exact n s = Some (a, r) \<Longrightarrow> s = a @ r \<and> length a = n"
  by (auto simp: read_exact_def split: if_splits)

lemma read_exact_None [simp]: "read_exact n s = None \<longleftrightarrow> length s < n"
  by (auto simp: read_exact_def)

section \<open>Results, options and maps\<close>

lemma rbind_Inr [simp]: "rbind (Inr a) f = f a"
  by (simp add: rbind_def)

lemma rbind_Inl [simp]: "rbind (Inl e) f = Inl e"
  by (simp add: rbind_def)

lemma rbind_eq_Inr: "rbind r f = Inr b \<longleftrightarrow> (\<exists>a. r = Inr a \<and> f a = Inr b)"
  by (cases r) auto

lemma error_code_as_str_inj: "error_code_as_str c = error_code_as_str d \<longleftrightarrow> c = d"
  by (cases c; cases d) (simp_all add: error_code_as_str_def)

lemma div_ceil_le:
  assumes "0 < b"
  shows "a \<le> div_ceil a b * b"
proof -
  have "a = a div b * b + a mod b" by simp
  moreover have "a mod b < b" using assms by simp
  ultimately have "a \<le> a div b * b + (if a mod b = 0 then 0 else b)"
    by (metis add.right_neutral add_left_mono less_imp_le order_refl)
  then show ?thesis
    by (cases "a mod b = 0") (simp_all add: div_ceil_def)
qed

lemma div_ceil_least:
  assumes "0 < b" and "a \<le> n * b"
  shows "div_ceil a b \<le> n"
proof (cases "a mod b = 0")
  case True
  then show ?thesis
    using assms div_le_mono [OF assms(2), of b] by (simp add: div_ceil_def)
next
  case False
  have "a div b < n"
  proof (rule ccontr)
    assume "\<not> a div b < n"
    then have "n * b \<le> a div b * b" by (intro mult_le_mono1) simp
    moreover have "a div b * b < a"
      using False div_mult_mod_eq [of a b] by linarith
    ultimately show False using assms(2) by linarith
  qed
  then show ?thesis using False by (simp add: div_ceil_def)
qed

end
