(* ===== verification/F64.thy ===== *)
theory F64
  imports Prelude "HOL-Library.Log_Nat"
begin

text \<open>
  The \<^verbatim>\<open>f64\<close> of Rust: IEEE-754 binary64 values and the operations the sources use, with the
  exact result rounded to nearest, ties to even, and overflow to infinity. A finite nonzero
  value is its rational; the two zeros are \<open>F_Fin 0\<close> and \<open>F_NegZero\<close>. NaN payloads and the
  sign of NaN are not distinguished. Clocks, lease times and placement scores are of this type.
\<close>

datatype f64 = F_NaN | F_Inf bool | F_NegZero | F_Fin rat

text \<open>\<open>F_Inf True\<close> is minus infinity.\<close>

definition pow2 :: "int \<Rightarrow> rat" where
  "pow2 e = (if 0 \<le> e then 2 ^ nat e else 1 / 2 ^ nat (- e))"

definition floor_log2 :: "rat \<Rightarrow> int" where
  "floor_log2 x = (let (p, q) = quotient_of x;
       n = int (floorlog 2 (nat p)) - int (floorlog 2 (nat q))
     in if pow2 n \<le> x then n else n - 1)"

definition round_half_even :: "rat \<Rightarrow> int" where
  "round_half_even y = (let f = floor y; r = y - rat_of_int f
     in if r < 1 / 2 then f else if 1 / 2 < r then f + 1 else if even f then f else f + 1)"

text \<open>Rounding of a magnitude \<open>x \<ge> 0\<close> with the sign \<open>s\<close> of the exact result.\<close>

definition f64_round :: "bool \<Rightarrow> rat \<Rightarrow> f64" where
  "f64_round s x =
     (if x = 0 then (if s then F_NegZero else F_Fin 0)
      else let e = max (floor_log2 x - 52) (-1074);
               v = rat_of_int (round_half_even (x / pow2 e)) * pow2 e
           in if pow2 1024 \<le> v then F_Inf s
              else if v = 0 then (if s then F_NegZero else F_Fin 0)
              else F_Fin (if s then - v else v))"

fun f64_neg :: "f64 \<Rightarrow> bool" where
  "f64_neg F_NaN = False"
| "f64_neg (F_Inf s) = s"
| "f64_neg F_NegZero = True"
| "f64_neg (F_Fin r) = (r < 0)"

fun f64_rat :: "f64 \<Rightarrow> rat option" where
  "f64_rat F_NegZero = Some 0"
| "f64_rat (F_Fin r) = Some r"
| "f64_rat _ = None"

definition f64_is_finite :: "f64 \<Rightarrow> bool" where
  "f64_is_finite a = (f64_rat a \<noteq> None)"

fun f64_uminus :: "f64 \<Rightarrow> f64" where
  "f64_uminus F_NaN = F_NaN"
| "f64_uminus (F_Inf s) = F_Inf (\<not> s)"
| "f64_uminus F_NegZero = F_Fin 0"
| "f64_uminus (F_Fin r) = (if r = 0 then F_NegZero else F_Fin (- r))"

definition f64_add :: "f64 \<Rightarrow> f64 \<Rightarrow> f64" where
  "f64_add a b = (case (a, b) of
      (F_NaN, _) \<Rightarrow> F_NaN
    | (_, F_NaN) \<Rightarrow> F_NaN
    | (F_Inf s, F_Inf t) \<Rightarrow> if s = t then F_Inf s else F_NaN
    | (F_Inf s, _) \<Rightarrow> F_Inf s
    | (_, F_Inf t) \<Rightarrow> F_Inf t
    | _ \<Rightarrow> let x = the (f64_rat a) + the (f64_rat b)
           in f64_round (if x = 0 then f64_neg a \<and> f64_neg b else x < 0) \<bar>x\<bar>)"

definition f64_sub :: "f64 \<Rightarrow> f64 \<Rightarrow> f64" where
  "f64_sub a b = f64_add a (f64_uminus b)"

definition f64_mul :: "f64 \<Rightarrow> f64 \<Rightarrow> f64" where
  "f64_mul a b = (let s = (f64_neg a \<noteq> f64_neg b) in
     case (a, b) of
      (F_NaN, _) \<Rightarrow> F_NaN
    | (_, F_NaN) \<Rightarrow> F_NaN
    | (F_Inf _, _) \<Rightarrow> if f64_rat b = Some 0 then F_NaN else F_Inf s
    | (_, F_Inf _) \<Rightarrow> if f64_rat a = Some 0 then F_NaN else F_Inf s
    | _ \<Rightarrow> f64_round s \<bar>the (f64_rat a) * the (f64_rat b)\<bar>)"

definition f64_div :: "f64 \<Rightarrow> f64 \<Rightarrow> f64" where
  "f64_div a b = (let s = (f64_neg a \<noteq> f64_neg b) in
     case (a, b) of
      (F_NaN, _) \<Rightarrow> F_NaN
    | (_, F_NaN) \<Rightarrow> F_NaN
    | (F_Inf _, F_Inf _) \<Rightarrow> F_NaN
    | (F_Inf _, _) \<Rightarrow> F_Inf s
    | (_, F_Inf _) \<Rightarrow> f64_round s 0
    | _ \<Rightarrow> if f64_rat b = Some 0 then (if f64_rat a = Some 0 then F_NaN else F_Inf s)
           else f64_round s \<bar>the (f64_rat a) / the (f64_rat b)\<bar>)"

text \<open>\<^verbatim>\<open><\<close>, \<^verbatim>\<open><=\<close> and \<^verbatim>\<open>==\<close>: false on NaN, the zeros equal.\<close>

fun f64_lt :: "f64 \<Rightarrow> f64 \<Rightarrow> bool" where
  "f64_lt F_NaN _ = False"
| "f64_lt _ F_NaN = False"
| "f64_lt (F_Inf s) (F_Inf t) = (s \<and> \<not> t)"
| "f64_lt (F_Inf s) _ = s"
| "f64_lt _ (F_Inf t) = (\<not> t)"
| "f64_lt a b = (the (f64_rat a) < the (f64_rat b))"

fun f64_eq :: "f64 \<Rightarrow> f64 \<Rightarrow> bool" where
  "f64_eq F_NaN _ = False"
| "f64_eq _ F_NaN = False"
| "f64_eq (F_Inf s) (F_Inf t) = (s = t)"
| "f64_eq (F_Inf s) _ = False"
| "f64_eq _ (F_Inf t) = False"
| "f64_eq a b = (the (f64_rat a) = the (f64_rat b))"

definition f64_le :: "f64 \<Rightarrow> f64 \<Rightarrow> bool" where
  "f64_le a b = (f64_lt a b \<or> f64_eq a b)"

text \<open>\<^verbatim>\<open>f64::max\<close> and \<^verbatim>\<open>f64::min\<close> ignore one NaN; \<^verbatim>\<open>f64::total_cmp\<close> orders minus zero below zero.\<close>

definition f64_max :: "f64 \<Rightarrow> f64 \<Rightarrow> f64" where
  "f64_max a b = (if a = F_NaN then b else if b = F_NaN then a else if f64_lt a b then b else a)"

definition f64_min :: "f64 \<Rightarrow> f64 \<Rightarrow> f64" where
  "f64_min a b = (if a = F_NaN then b else if b = F_NaN then a else if f64_lt b a then b else a)"

fun f64_key :: "f64 \<Rightarrow> int \<times> rat \<times> int" where
  "f64_key F_NaN = (2, 0, 0)"
| "f64_key (F_Inf s) = (if s then -1 else 1, 0, 0)"
| "f64_key F_NegZero = (0, 0, -1)"
| "f64_key (F_Fin r) = (0, r, 0)"

definition f64_total_lt :: "f64 \<Rightarrow> f64 \<Rightarrow> bool" where
  "f64_total_lt a b = (let (i, r, z) = f64_key a; (j, q, y) = f64_key b
     in i < j \<or> i = j \<and> (r < q \<or> r = q \<and> z < y))"

text \<open>Integer-to-float casts (\<^verbatim>\<open>as f64\<close>) and the saturating cast \<^verbatim>\<open>as u64\<close>.\<close>

definition f64_of_nat :: "nat \<Rightarrow> f64" where
  "f64_of_nat n = f64_round False (rat_of_nat n)"

definition f64_of_bool :: "bool \<Rightarrow> f64" where
  "f64_of_bool b = (if b then F_Fin 1 else F_Fin 0)"

fun f64_as_u64 :: "f64 \<Rightarrow> nat" where
  "f64_as_u64 F_NaN = 0"
| "f64_as_u64 (F_Inf s) = (if s then 0 else u64_max)"
| "f64_as_u64 F_NegZero = 0"
| "f64_as_u64 (F_Fin r) = min (nat (floor r)) u64_max"

lemma f64_lt_irrefl [simp]: "\<not> f64_lt a a"
  by (cases a) auto

lemma f64_lt_trans: "f64_lt a b \<Longrightarrow> f64_lt b c \<Longrightarrow> f64_lt a c"
  by (cases a; cases b; cases c) auto

lemma f64_lt_asym: "f64_lt a b \<Longrightarrow> \<not> f64_lt b a"
  using f64_lt_trans f64_lt_irrefl by blast

lemma f64_le_lt_trans: "f64_le a b \<Longrightarrow> f64_lt b c \<Longrightarrow> f64_lt a c"
  by (cases a; cases b; cases c) (auto simp: f64_le_def)

lemma f64_le_trans: "f64_le a b \<Longrightarrow> f64_le b c \<Longrightarrow> f64_le a c"
  by (cases a; cases b; cases c) (auto simp: f64_le_def)

lemma f64_total_lt_irrefl [simp]: "\<not> f64_total_lt a a"
  by (auto simp: f64_total_lt_def Let_def split: prod.splits)

lemma f64_total_lt_trans: "f64_total_lt a b \<Longrightarrow> f64_total_lt b c \<Longrightarrow> f64_total_lt a c"
  by (auto simp: f64_total_lt_def Let_def split: prod.splits)

lemma f64_key_inj: "f64_key a = f64_key b \<Longrightarrow> a = b"
  by (cases a; cases b) (auto split: if_splits)

lemma f64_total_lt_linear: "f64_total_lt a b \<or> a = b \<or> f64_total_lt b a"
proof -
  obtain i r z where a: "f64_key a = (i, r, z)" by (metis prod_cases3)
  obtain j q y where b: "f64_key b = (j, q, y)" by (metis prod_cases3)
  show ?thesis
    using f64_key_inj [of a b] a b linorder_less_linear [of z y]
    unfolding f64_total_lt_def Let_def by auto
qed

end
