(* ===== verification/Lease.thy ===== *)
theory Lease
  imports F64
begin

text \<open>
  Writable-volume leases, \<^verbatim>\<open>vmond/src/mesh/lease.rs\<close>: the vote one node persists per volume
  (\<^verbatim>\<open>LeaseManager\<close>) and the strict-majority grant, renew and release over the mesh. A node's
  state is its lease directory, a map from volume to file content of a type \<open>'t\<close>; the JSON
  codec that writes and reads a file is the argument \<open>'t lease_codec\<close>, the clock reading is an
  argument of every operation that reads the clock, and a \<open>lease_io\<close> value says which
  file-system calls of the operation succeed. Operations return the new directory and a
  result.
\<close>

section \<open>Records and requests\<close>

record lease_record =
  lr_volume :: string
  lr_holder :: string
  lr_epoch :: u64
  lr_granted_at :: f64
  lr_ttl :: f64

record lease_disk_record =
  ld_holder :: string
  ld_epoch :: u64
  ld_granted_at :: f64
  ld_ttl :: f64

record lease_wire_record =
  lw_volume :: string
  lw_holder :: string
  lw_epoch :: u64
  lw_granted_at :: f64
  lw_ttl :: f64
  lw_expires_at :: f64
  lw_renew_deadline :: f64

record lease_decision =
  dec_granted :: bool
  dec_record :: "lease_record option"
  dec_reason :: "string option"

record lease_vote_request =
  vq_volume :: string
  vq_holder_node :: string
  vq_epoch :: u64
  vq_ttl :: f64

record lease_release_request =
  rq_volume :: string
  rq_holder_node :: string
  rq_epoch :: u64

record lease_unavailable =
  lu_votes :: nat
  lu_needed :: nat

record lease_request_args =
  la_volume :: string
  la_holder_node :: string
  la_epoch :: u64
  la_ttl :: f64
  la_self_node :: string
  la_peer_urls :: "(string \<times> string) list"
  la_expected_members :: nat

record lease_release_args =
  ra_volume :: string
  ra_holder_node :: string
  ra_epoch :: u64
  ra_self_node :: string
  ra_peer_urls :: "(string \<times> string) list"

section \<open>Validation\<close>

definition is_volume_name_start :: "char \<Rightarrow> bool" where
  "is_volume_name_start c \<longleftrightarrow>
     CHR ''a'' \<le> c \<and> c \<le> CHR ''z'' \<or> CHR ''0'' \<le> c \<and> c \<le> CHR ''9'' \<or> c = CHR ''_''"

definition is_volume_name_rest :: "char \<Rightarrow> bool" where
  "is_volume_name_rest c \<longleftrightarrow> is_volume_name_start c \<or> c = CHR ''.'' \<or> c = CHR ''-''"

fun is_valid_volume_name :: "string \<Rightarrow> bool" where
  "is_valid_volume_name [] = False"
| "is_valid_volume_name (c # cs) =
     (length (c # cs) \<le> 64 \<and> is_volume_name_start c \<and> list_all is_volume_name_rest cs)"

definition validate_volume :: "string \<Rightarrow> string result" where
  "validate_volume v = (if is_valid_volume_name v then Inr v else Inl Invalid)"

definition validate_holder :: "string \<Rightarrow> string result" where
  "validate_holder h = (if h = [] then Inl Invalid else Inr h)"

definition validate_ttl :: "f64 \<Rightarrow> unit result" where
  "validate_ttl t = (if \<not> f64_is_finite t \<or> f64_le t (F_Fin 0) then Inl Invalid else Inr ())"

definition majority_needed :: "nat \<Rightarrow> nat result" where
  "majority_needed expected_members =
     (if expected_members < 1 then Inl Invalid else Inr (expected_members div 2 + 1))"

definition quorum_reached :: "nat \<Rightarrow> nat \<Rightarrow> bool result" where
  "quorum_reached votes expected_members =
     rbind (majority_needed expected_members) (\<lambda>needed. Inr (needed \<le> votes))"

definition lease_record_new ::
  "string \<Rightarrow> string \<Rightarrow> u64 \<Rightarrow> f64 \<Rightarrow> f64 \<Rightarrow> lease_record result" where
  "lease_record_new volume holder epoch granted_at ttl =
     rbind (validate_volume volume) (\<lambda>volume.
     rbind (validate_holder holder) (\<lambda>holder.
     rbind (validate_ttl ttl) (\<lambda>_.
       Inr \<lparr>lr_volume = volume, lr_holder = holder, lr_epoch = epoch,
            lr_granted_at = granted_at, lr_ttl = ttl\<rparr>)))"

definition expires_at :: "lease_record \<Rightarrow> f64" where
  "expires_at r = f64_add (lr_granted_at r) (lr_ttl r)"

definition renew_deadline :: "lease_record \<Rightarrow> f64" where
  "renew_deadline r = f64_add (lr_granted_at r) (f64_div (lr_ttl r) (F_Fin 2))"

definition lease_to_disk :: "lease_record \<Rightarrow> lease_disk_record" where
  "lease_to_disk r = \<lparr>ld_holder = lr_holder r, ld_epoch = lr_epoch r,
     ld_granted_at = lr_granted_at r, ld_ttl = lr_ttl r\<rparr>"

definition lease_to_wire :: "lease_record \<Rightarrow> lease_wire_record" where
  "lease_to_wire r = \<lparr>lw_volume = lr_volume r, lw_holder = lr_holder r, lw_epoch = lr_epoch r,
     lw_granted_at = lr_granted_at r, lw_ttl = lr_ttl r,
     lw_expires_at = expires_at r, lw_renew_deadline = renew_deadline r\<rparr>"

definition lease_from_disk :: "string \<Rightarrow> lease_disk_record \<Rightarrow> lease_record result" where
  "lease_from_disk volume d =
     lease_record_new volume (ld_holder d) (ld_epoch d) (ld_granted_at d) (ld_ttl d)"

definition lease_from_wire :: "lease_wire_record \<Rightarrow> lease_record result" where
  "lease_from_wire w =
     lease_record_new (lw_volume w) (lw_holder w) (lw_epoch w) (lw_granted_at w) (lw_ttl w)"

definition decision_granted :: "lease_record \<Rightarrow> lease_decision" where
  "decision_granted r = \<lparr>dec_granted = True, dec_record = Some r, dec_reason = None\<rparr>"

definition decision_denied :: "lease_record option \<Rightarrow> string \<Rightarrow> lease_decision" where
  "decision_denied r why = \<lparr>dec_granted = False, dec_record = r, dec_reason = Some why\<rparr>"

definition decision_released :: lease_decision where
  "decision_released = \<lparr>dec_granted = True, dec_record = None, dec_reason = None\<rparr>"

section \<open>One node's votes\<close>

text \<open>
  \<^verbatim>\<open>serde_json\<close> writes and reads a lease file; reading may fail on a corrupt file. The flags of
  \<open>lease_io\<close> are the outcomes of the read, the write-then-rename and the removal.
\<close>

record 't lease_codec =
  lc_ser :: "lease_disk_record \<Rightarrow> 't"
  lc_de :: "'t \<Rightarrow> lease_disk_record option"

record lease_io =
  io_read_ok :: bool
  io_write_ok :: bool
  io_remove_ok :: bool

type_synonym 't lease_dir = "string \<Rightarrow> 't option"

definition load_unlocked ::
  "'t lease_codec \<Rightarrow> lease_io \<Rightarrow> 't lease_dir \<Rightarrow> string \<Rightarrow> lease_record option result" where
  "load_unlocked c io d volume =
     (if \<not> io_read_ok io then Inl Engine
      else case d volume of
        None \<Rightarrow> Inr None
      | Some text \<Rightarrow> (case lc_de c text of
          None \<Rightarrow> Inl Invalid
        | Some disk \<Rightarrow> rbind (lease_from_disk volume disk) (\<lambda>r. Inr (Some r))))"

definition store_unlocked ::
  "'t lease_codec \<Rightarrow> lease_io \<Rightarrow> 't lease_dir \<Rightarrow> lease_record \<Rightarrow> 't lease_dir result" where
  "store_unlocked c io d r =
     (if io_write_ok io then Inr (d(lr_volume r \<mapsto> lc_ser c (lease_to_disk r))) else Inl Engine)"

definition lease_current ::
  "'t lease_codec \<Rightarrow> lease_io \<Rightarrow> 't lease_dir \<Rightarrow> string \<Rightarrow> lease_record option result" where
  "lease_current c io d volume = rbind (validate_volume volume) (load_unlocked c io d)"

text \<open>
  \<^verbatim>\<open>active_votes\<close> scans the directory (an empty answer when it cannot be listed) and skips
  files it cannot read; \<open>readable\<close> says which reads succeed. The result is in volume order.
\<close>

definition active_votes ::
  "'t lease_codec \<Rightarrow> bool \<Rightarrow> (string \<Rightarrow> bool) \<Rightarrow> 't lease_dir \<Rightarrow> f64 \<Rightarrow> lease_record list" where
  "active_votes c listed readable d now =
     (if \<not> listed then []
      else List.map_filter (\<lambda>volume.
        case load_unlocked c \<lparr>io_read_ok = readable volume, io_write_ok = True, io_remove_ok = True\<rparr> d volume of
          Inr (Some r) \<Rightarrow> if f64_lt now (expires_at r) then Some r else None
        | _ \<Rightarrow> None) (sorted_list_of_set (dom d)))"

definition store_vote ::
  "'t lease_codec \<Rightarrow> lease_io \<Rightarrow> f64 \<Rightarrow> 't lease_dir \<Rightarrow> string \<Rightarrow> string \<Rightarrow> u64 \<Rightarrow> f64
     \<Rightarrow> 't lease_dir \<times> lease_decision result" where
  "store_vote c io now d volume holder epoch ttl =
     (case lease_record_new volume holder epoch now ttl of
        Inl e \<Rightarrow> (d, Inl e)
      | Inr r \<Rightarrow> (case store_unlocked c io d r of
          Inl e \<Rightarrow> (d, Inl e)
        | Inr d' \<Rightarrow> (d', Inr (decision_granted r))))"

definition vote_grant ::
  "'t lease_codec \<Rightarrow> lease_io \<Rightarrow> f64 \<Rightarrow> 't lease_dir \<Rightarrow> string \<Rightarrow> string \<Rightarrow> u64 \<Rightarrow> f64
     \<Rightarrow> 't lease_dir \<times> lease_decision result" where
  "vote_grant c io now d volume holder_node epoch ttl =
     (case validate_volume volume of Inl e \<Rightarrow> (d, Inl e) | Inr volume \<Rightarrow>
     (case validate_holder holder_node of Inl e \<Rightarrow> (d, Inl e) | Inr holder \<Rightarrow>
     (case validate_ttl ttl of Inl e \<Rightarrow> (d, Inl e) | Inr _ \<Rightarrow>
     (case load_unlocked c io d volume of Inl e \<Rightarrow> (d, Inl e) | Inr existing \<Rightarrow>
       (case existing of
          None \<Rightarrow> store_vote c io now d volume holder epoch ttl
        | Some ex \<Rightarrow>
            if f64_lt now (expires_at ex) \<and> epoch < lr_epoch ex
            then (d, Inr (decision_denied (Some ex) ''stale_epoch''))
            else if f64_lt now (expires_at ex) \<and> lr_holder ex \<noteq> holder
            then (d, Inr (decision_denied (Some ex) ''conflict''))
            else store_vote c io now d volume holder epoch ttl)))))"

definition vote_renew ::
  "'t lease_codec \<Rightarrow> lease_io \<Rightarrow> f64 \<Rightarrow> 't lease_dir \<Rightarrow> string \<Rightarrow> string \<Rightarrow> u64 \<Rightarrow> f64
     \<Rightarrow> 't lease_dir \<times> lease_decision result" where
  "vote_renew c io now d volume holder_node epoch ttl =
     (case validate_volume volume of Inl e \<Rightarrow> (d, Inl e) | Inr volume \<Rightarrow>
     (case validate_holder holder_node of Inl e \<Rightarrow> (d, Inl e) | Inr holder \<Rightarrow>
     (case validate_ttl ttl of Inl e \<Rightarrow> (d, Inl e) | Inr _ \<Rightarrow>
     (case load_unlocked c io d volume of Inl e \<Rightarrow> (d, Inl e) | Inr existing \<Rightarrow>
       (case existing of
          None \<Rightarrow> (d, Inr (decision_denied None ''missing''))
        | Some ex \<Rightarrow>
            if lr_holder ex \<noteq> holder \<or> lr_epoch ex \<noteq> epoch
            then (d, Inr (decision_denied (Some ex)
                    (if epoch < lr_epoch ex then ''stale_epoch'' else ''mismatch'')))
            else if f64_le (expires_at ex) now
            then (d, Inr (decision_denied (Some ex) ''expired''))
            else if f64_lt (renew_deadline ex) now
            then (d, Inr (decision_denied (Some ex) ''renew_deadline''))
            else store_vote c io now d volume holder epoch ttl)))))"

definition vote_release ::
  "'t lease_codec \<Rightarrow> lease_io \<Rightarrow> 't lease_dir \<Rightarrow> string \<Rightarrow> string \<Rightarrow> u64
     \<Rightarrow> 't lease_dir \<times> lease_decision result" where
  "vote_release c io d volume holder_node epoch =
     (case validate_volume volume of Inl e \<Rightarrow> (d, Inl e) | Inr volume \<Rightarrow>
     (case validate_holder holder_node of Inl e \<Rightarrow> (d, Inl e) | Inr holder \<Rightarrow>
     (case load_unlocked c io d volume of Inl e \<Rightarrow> (d, Inl e) | Inr existing \<Rightarrow>
       (case existing of
          None \<Rightarrow> (d, Inr decision_released)
        | Some ex \<Rightarrow>
            if lr_holder ex = holder \<and> lr_epoch ex = epoch
            then (if io_remove_ok io then (d(volume := None), Inr decision_released) else (d, Inl Engine))
            else (d, Inr (decision_denied (Some ex)
                    (if epoch < lr_epoch ex then ''stale_epoch'' else ''mismatch'')))))))"

section \<open>Majority requests\<close>

text \<open>
  \<open>post\<close> stands for the HTTP call to a peer: it takes the state of the rest of the mesh, a
  URL and a message, and returns the new state and the peer's decision, or \<open>None\<close> when the
  call fails.
\<close>

datatype lease_op = OpGrant | OpRenew

datatype lease_message =
    MsgGrant lease_vote_request
  | MsgRenew lease_vote_request
  | MsgRelease lease_release_request

type_synonym 's lease_post = "'s \<Rightarrow> string \<Rightarrow> lease_message \<Rightarrow> 's \<times> lease_decision option"

definition lease_vote_message :: "lease_op \<Rightarrow> lease_vote_request \<Rightarrow> lease_message" where
  "lease_vote_message op q = (case op of OpGrant \<Rightarrow> MsgGrant q | OpRenew \<Rightarrow> MsgRenew q)"

text \<open>The vote loop over the peers: votes, record and granting nodes so far.\<close>

record majority_acc =
  ma_votes :: nat
  ma_record :: "lease_record option"
  ma_granted :: "string list"

fun collect_votes ::
  "'s lease_post \<Rightarrow> lease_message \<Rightarrow> string \<Rightarrow> (string \<times> string) list \<Rightarrow> 's \<Rightarrow> majority_acc \<Rightarrow> 's \<times> majority_acc" where
  "collect_votes post msg self [] s acc = (s, acc)"
| "collect_votes post msg self ((node, url) # peers) s acc =
     (if node = self then collect_votes post msg self peers s acc
      else case post s url msg of
        (s', None) \<Rightarrow> collect_votes post msg self peers s' acc
      | (s', Some dec) \<Rightarrow>
          if dec_granted dec
          then collect_votes post msg self peers s'
                 \<lparr>ma_votes = ma_votes acc + 1,
                  ma_record = (if ma_record acc = None then dec_record dec else ma_record acc),
                  ma_granted = node # ma_granted acc\<rparr>
          else collect_votes post msg self peers s' acc)"

fun post_releases ::
  "'s lease_post \<Rightarrow> lease_release_request \<Rightarrow> (string \<Rightarrow> bool) \<Rightarrow> (string \<times> string) list \<Rightarrow> 's \<Rightarrow> 's" where
  "post_releases post q wanted [] s = s"
| "post_releases post q wanted ((node, url) # peers) s =
     (if wanted node then post_releases post q wanted peers (fst (post s url (MsgRelease q)))
      else post_releases post q wanted peers s)"

definition local_vote ::
  "'t lease_codec \<Rightarrow> lease_io \<Rightarrow> f64 \<Rightarrow> lease_op \<Rightarrow> lease_request_args \<Rightarrow> 't lease_dir
     \<Rightarrow> 't lease_dir \<times> lease_decision result" where
  "local_vote c io now op a d =
     (case op of
        OpGrant \<Rightarrow> vote_grant c io now d (la_volume a) (la_holder_node a) (la_epoch a) (la_ttl a)
      | OpRenew \<Rightarrow> vote_renew c io now d (la_volume a) (la_holder_node a) (la_epoch a) (la_ttl a))"

definition validate_request :: "lease_request_args \<Rightarrow> nat result" where
  "validate_request a =
     rbind (validate_volume (la_volume a)) (\<lambda>_.
     rbind (validate_holder (la_holder_node a)) (\<lambda>_.
     rbind (validate_ttl (la_ttl a)) (\<lambda>_.
       majority_needed (la_expected_members a))))"

definition request_majority ::
  "'t lease_codec \<Rightarrow> lease_io \<Rightarrow> lease_io \<Rightarrow> f64 \<Rightarrow> 's lease_post \<Rightarrow> lease_op \<Rightarrow> bool \<Rightarrow> lease_request_args
     \<Rightarrow> 't lease_dir \<Rightarrow> 's \<Rightarrow> 't lease_dir \<times> 's \<times> (lease_unavailable + lease_record)" where
  "request_majority c io io_cleanup now post op cleanup_on_failure a d s =
     (case validate_request a of
        Inl _ \<Rightarrow> (d, s, Inl \<lparr>lu_votes = 0, lu_needed = 0\<rparr>)
      | Inr needed \<Rightarrow>
     (case local_vote c io now op a d of
        (d1, Inl _) \<Rightarrow> (d1, s, Inl \<lparr>lu_votes = 0, lu_needed = 0\<rparr>)
      | (d1, Inr ldec) \<Rightarrow>
          let q = \<lparr>vq_volume = la_volume a, vq_holder_node = la_holder_node a,
                   vq_epoch = la_epoch a, vq_ttl = la_ttl a\<rparr>;
              acc0 = \<lparr>ma_votes = (if dec_granted ldec then 1 else 0),
                      ma_record = (if dec_granted ldec then dec_record ldec else None),
                      ma_granted = (if dec_granted ldec then [la_self_node a] else [])\<rparr>;
              (s1, acc) = collect_votes post (lease_vote_message op q) (la_self_node a) (la_peer_urls a) s acc0;
              failed = \<lparr>lu_votes = ma_votes acc, lu_needed = needed\<rparr>
          in case (needed \<le> ma_votes acc \<and> dec_granted ldec, ma_record acc) of
               (True, Some r) \<Rightarrow> (d1, s1, Inr r)
             | _ \<Rightarrow>
                if cleanup_on_failure \<and> ma_granted acc \<noteq> []
                then (fst (vote_release c io_cleanup d1 (la_volume a) (la_holder_node a) (la_epoch a)),
                      post_releases post
                        \<lparr>rq_volume = la_volume a, rq_holder_node = la_holder_node a, rq_epoch = la_epoch a\<rparr>
                        (\<lambda>node. node \<noteq> la_self_node a \<and> node \<in> set (ma_granted acc))
                        (la_peer_urls a) s1,
                      Inl failed)
                else (d1, s1, Inl failed)))"

definition request_grant ::
  "'t lease_codec \<Rightarrow> lease_io \<Rightarrow> lease_io \<Rightarrow> f64 \<Rightarrow> 's lease_post \<Rightarrow> lease_request_args
     \<Rightarrow> 't lease_dir \<Rightarrow> 's \<Rightarrow> 't lease_dir \<times> 's \<times> (lease_unavailable + lease_record)" where
  "request_grant c io io_cleanup now post a d s =
     request_majority c io io_cleanup now post OpGrant True a d s"

definition request_renew ::
  "'t lease_codec \<Rightarrow> lease_io \<Rightarrow> lease_io \<Rightarrow> f64 \<Rightarrow> 's lease_post \<Rightarrow> lease_request_args
     \<Rightarrow> 't lease_dir \<Rightarrow> 's \<Rightarrow> 't lease_dir \<times> 's \<times> (lease_unavailable + lease_record)" where
  "request_renew c io io_cleanup now post a d s =
     request_majority c io io_cleanup now post OpRenew False a d s"

definition request_release ::
  "'t lease_codec \<Rightarrow> lease_io \<Rightarrow> 's lease_post \<Rightarrow> lease_release_args \<Rightarrow> 't lease_dir \<Rightarrow> 's
     \<Rightarrow> 't lease_dir \<times> 's \<times> unit result" where
  "request_release c io post a d s =
     (case validate_volume (ra_volume a) of Inl e \<Rightarrow> (d, s, Inl e) | Inr volume \<Rightarrow>
     (case validate_holder (ra_holder_node a) of Inl e \<Rightarrow> (d, s, Inl e) | Inr holder \<Rightarrow>
     (case vote_release c io d volume holder (ra_epoch a) of
        (d1, Inl e) \<Rightarrow> (d1, s, Inl e)
      | (d1, Inr _) \<Rightarrow>
          (d1, post_releases post
                 \<lparr>rq_volume = volume, rq_holder_node = holder, rq_epoch = ra_epoch a\<rparr>
                 (\<lambda>node. node \<noteq> ra_self_node a) (ra_peer_urls a) s, Inr ()))))"

section \<open>Lemmas on one node\<close>

text \<open>
  The vote a directory holds for a volume, read with no I/O failure: what \<^const>\<open>load_unlocked\<close>
  returns when it returns a record.
\<close>

definition vote_of :: "'t lease_codec \<Rightarrow> 't lease_dir \<Rightarrow> string \<Rightarrow> lease_record option" where
  "vote_of c d volume = (case d volume of
     None \<Rightarrow> None
   | Some text \<Rightarrow> (case lc_de c text of
       None \<Rightarrow> None
     | Some disk \<Rightarrow> (case lease_from_disk volume disk of Inl _ \<Rightarrow> None | Inr r \<Rightarrow> Some r)))"

lemma load_unlocked_Some:
  "load_unlocked c io d v = Inr (Some r) \<longleftrightarrow> io_read_ok io \<and> vote_of c d v = Some r"
  by (auto simp: load_unlocked_def vote_of_def rbind_def split: option.splits sum.splits)

lemma load_unlocked_None: "load_unlocked c io d v = Inr None \<longleftrightarrow> io_read_ok io \<and> d v = None"
  by (auto simp: load_unlocked_def rbind_def split: option.splits sum.splits)

lemma vote_of_load:
  "vote_of c d v = Some r \<Longrightarrow>
   load_unlocked c io d v = (if io_read_ok io then Inr (Some r) else Inl Engine)"
  by (auto simp: load_unlocked_Some) (simp add: load_unlocked_def)

lemma load_unlocked_entry: "d v = d' v \<Longrightarrow> load_unlocked c io d v = load_unlocked c io d' v"
  by (simp add: load_unlocked_def)

lemma vote_of_entry: "d v = d' v \<Longrightarrow> vote_of c d v = vote_of c d' v"
  by (simp add: vote_of_def)

lemma lease_record_new_Inr:
  "lease_record_new v h e g t = Inr r \<longleftrightarrow>
     is_valid_volume_name v \<and> h \<noteq> [] \<and> f64_is_finite t \<and> \<not> f64_le t (F_Fin 0) \<and>
     r = \<lparr>lr_volume = v, lr_holder = h, lr_epoch = e, lr_granted_at = g, lr_ttl = t\<rparr>"
  by (auto simp: lease_record_new_def validate_volume_def validate_holder_def validate_ttl_def
      rbind_def split: if_splits)

lemma vote_of_wf: "vote_of c d v = Some r \<Longrightarrow> lr_volume r = v \<and> lr_holder r \<noteq> []"
  by (auto simp: vote_of_def lease_from_disk_def lease_record_new_Inr split: option.splits sum.splits)

lemma store_vote_frame: "v \<noteq> w \<Longrightarrow> fst (store_vote c io now d v h e t) w = d w"
  by (auto simp: store_vote_def store_unlocked_def lease_record_new_Inr split: sum.splits if_splits)

lemma store_vote_granted:
  assumes "snd (store_vote c io now d v h e t) = Inr dec"
  shows "dec_granted dec \<and>
   dec_record dec = Some \<lparr>lr_volume = v, lr_holder = h, lr_epoch = e, lr_granted_at = now, lr_ttl = t\<rparr> \<and>
   fst (store_vote c io now d v h e t) =
     d(v \<mapsto> lc_ser c \<lparr>ld_holder = h, ld_epoch = e, ld_granted_at = now, ld_ttl = t\<rparr>)"
proof (cases "lease_record_new v h e now t")
  case (Inl a)
  then show ?thesis using assms by (simp add: store_vote_def)
next
  case (Inr r)
  have "r = \<lparr>lr_volume = v, lr_holder = h, lr_epoch = e, lr_granted_at = now, lr_ttl = t\<rparr>"
    using Inr by (simp add: lease_record_new_Inr)
  then show ?thesis
    using assms Inr
    by (auto simp: store_vote_def store_unlocked_def decision_granted_def lease_to_disk_def
        split: if_splits)
qed

lemmas lease_splits = sum.splits option.splits if_splits

lemmas validate_defs = validate_volume_def validate_holder_def validate_ttl_def

lemma vote_grant_frame: "v \<noteq> w \<Longrightarrow> fst (vote_grant c io now d v h e t) w = d w"
  by (auto simp: vote_grant_def store_vote_frame validate_defs split: lease_splits)

lemma vote_renew_frame: "v \<noteq> w \<Longrightarrow> fst (vote_renew c io now d v h e t) w = d w"
  by (auto simp: vote_renew_def store_vote_frame validate_defs split: lease_splits)

lemma vote_release_frame: "v \<noteq> w \<Longrightarrow> fst (vote_release c io d v h e) w = d w"
  by (auto simp: vote_release_def validate_defs split: lease_splits)

lemma vote_grant_exclusive:
  assumes "vote_of c d v = Some ex" "f64_lt now (expires_at ex)" "h \<noteq> lr_holder ex"
  shows "fst (vote_grant c io now d v h e t) = d"
    and "snd (vote_grant c io now d v h e t) = Inr dec \<Longrightarrow> \<not> dec_granted dec"
  using assms
  by (auto simp: vote_grant_def vote_of_load decision_denied_def validate_defs split: lease_splits)

lemma vote_renew_exclusive:
  assumes "vote_of c d v = Some ex" "h \<noteq> lr_holder ex"
  shows "fst (vote_renew c io now d v h e t) = d"
    and "snd (vote_renew c io now d v h e t) = Inr dec \<Longrightarrow> \<not> dec_granted dec"
  using assms
  by (auto simp: vote_renew_def vote_of_load decision_denied_def validate_defs split: lease_splits)

lemma vote_release_exclusive:
  assumes "vote_of c d v = Some ex" "h \<noteq> lr_holder ex \<or> e \<noteq> lr_epoch ex"
  shows "fst (vote_release c io d v h e) = d"
    and "snd (vote_release c io d v h e) = Inr dec \<Longrightarrow> \<not> dec_granted dec"
  using assms
  by (auto simp: vote_release_def vote_of_load decision_denied_def validate_defs split: lease_splits)

lemma vote_grant_granted:
  assumes "snd (vote_grant c io now d v h e t) = Inr dec" "dec_granted dec"
  shows "fst (vote_grant c io now d v h e t) =
           d(v \<mapsto> lc_ser c \<lparr>ld_holder = h, ld_epoch = e, ld_granted_at = now, ld_ttl = t\<rparr>)"
    and "dec_record dec =
           Some \<lparr>lr_volume = v, lr_holder = h, lr_epoch = e, lr_granted_at = now, lr_ttl = t\<rparr>"
  using assms
  by (auto simp: vote_grant_def decision_denied_def validate_defs dest: store_vote_granted split: lease_splits)

end
