(* ===== verification/Quorum.thy ===== *)
theory Quorum
  imports Prelude
begin

text \<open>
  The contract of a quorum: how many members of a set of expected members must agree. A rule
  that always asks for a strict majority has quorums that meet. The mesh uses it for lease
  votes, for record acknowledgements and for membership; each component interprets it.
\<close>

locale quorum_rule =
  fixes needed :: "nat \<Rightarrow> nat"
  assumes strict_majority: "0 < n \<Longrightarrow> n < 2 * needed n"
    and attainable: "0 < n \<Longrightarrow> needed n \<le> n"
begin

lemma quorums_meet:
  assumes "finite M" "card M \<le> n" "0 < n" "A \<subseteq> M" "B \<subseteq> M" "needed n \<le> card A" "needed n \<le> card B"
  shows "A \<inter> B \<noteq> {}"
proof
  assume "A \<inter> B = {}"
  then have "card A + card B = card (A \<union> B)"
    using assms(1,4,5) by (simp add: card_Un_disjoint finite_subset)
  also have "\<dots> \<le> card M"
    using assms(1,4,5) by (intro card_mono) auto
  finally show False
    using strict_majority [OF assms(3)] assms(2,6,7) by linarith
qed

end

end
