(* ===== verification/LeaseMesh.thy ===== *)
theory LeaseMesh
  imports Lease Quorum
begin

text \<open>
  Leases across the mesh. The peer side of a lease request is the route handler
  \<^verbatim>\<open>lease_vote\<close> of \<^verbatim>\<open>vmond/src/mesh/routes.rs\<close>, which casts one vote in the directory of the
  node that receives it; a mesh state gives every node its directory. Mutual
  exclusion of writers rests on two contracts stated as locales: the quorum rule, whose
  quorums meet, and a vote store, whose unexpired votes nobody but their holder can replace.
\<close>

section \<open>The lease majority\<close>

text \<open>The size \<^const>\<open>majority_needed\<close> computes, 0 where it rejects its argument.\<close>

definition majority_size :: "nat \<Rightarrow> nat" where
  "majority_size n = (case majority_needed n of Inl _ \<Rightarrow> 0 | Inr k \<Rightarrow> k)"

interpretation lease_quorum: quorum_rule majority_size
  by unfold_locales (auto simp: majority_size_def majority_needed_def)

section \<open>Vote stores\<close>

text \<open>
  \<open>entry\<close> is the stored state of a volume, \<open>vote\<close> the record it holds, and an operation is
  attributed to a volume, a holder and, when it depends on the clock, a time.
\<close>

locale vote_store =
  fixes entry :: "'d \<Rightarrow> string \<Rightarrow> 'e"
    and vote :: "'d \<Rightarrow> string \<Rightarrow> lease_record option"
    and step :: "'o \<Rightarrow> 'd \<Rightarrow> 'd"
    and grants :: "'o \<Rightarrow> 'd \<Rightarrow> bool"
    and op_volume :: "'o \<Rightarrow> string"
    and op_holder :: "'o \<Rightarrow> string"
    and op_time :: "'o \<Rightarrow> f64"
  assumes vote_entry: "entry d v = entry d' v \<Longrightarrow> vote d v = vote d' v"
    and frame: "op_volume x \<noteq> v \<Longrightarrow> entry (step x d) v = entry d v"
    and exclusive: "vote d (op_volume x) = Some r \<Longrightarrow> op_holder x \<noteq> lr_holder r \<Longrightarrow>
        f64_lt (op_time x) (expires_at r) \<Longrightarrow>
        entry (step x d) (op_volume x) = entry d (op_volume x) \<and> \<not> grants x d"
begin

fun run :: "'o list \<Rightarrow> 'd \<Rightarrow> 'd" where
  "run [] d = d"
| "run (x # xs) d = run xs (step x d)"

lemma run_stable:
  assumes "vote d v = Some r"
    and "\<forall>x \<in> set xs. op_volume x = v \<longrightarrow>
           op_holder x \<noteq> lr_holder r \<and> f64_lt (op_time x) (expires_at r)"
  shows "entry (run xs d) v = entry d v"
  using assms
proof (induction xs arbitrary: d)
  case Nil
  then show ?case by simp
next
  case (Cons x xs)
  have "entry (step x d) v = entry d v"
    using Cons.prems frame exclusive by (cases "op_volume x = v") auto
  moreover from this have "vote (step x d) v = Some r"
    using Cons.prems(1) vote_entry by metis
  ultimately show ?case
    using Cons.IH Cons.prems(2) by simp
qed

lemma run_excludes:
  assumes "vote d v = Some r"
    and "\<forall>x \<in> set xs. op_volume x = v \<longrightarrow>
           op_holder x \<noteq> lr_holder r \<and> f64_lt (op_time x) (expires_at r)"
    and "op_volume y = v" "op_holder y \<noteq> lr_holder r" "f64_lt (op_time y) (expires_at r)"
  shows "\<not> grants y (run xs d)"
proof -
  have "vote (run xs d) v = Some r"
    using run_stable [OF assms(1,2)] assms(1) vote_entry by metis
  then show ?thesis
    using assms(3-5) exclusive by blast
qed

end

section \<open>The lease route\<close>

text \<open>
  The route reads the epoch through \<^verbatim>\<open>to_i64\<close> with default 0, so an epoch of \<open>2 ^ 63\<close> or more
  arrives as 0.
\<close>

definition wire_epoch :: "u64 \<Rightarrow> u64" where
  "wire_epoch e = (if int (unat e) \<le> i64_max then e else 0)"

definition lease_vote_route ::
  "'t lease_codec \<Rightarrow> lease_io \<Rightarrow> f64 \<Rightarrow> 't lease_dir \<Rightarrow> lease_message \<Rightarrow> 't lease_dir \<times> lease_decision result" where
  "lease_vote_route c io now d msg = (case msg of
     MsgGrant q \<Rightarrow> vote_grant c io now d (vq_volume q) (vq_holder_node q) (wire_epoch (vq_epoch q)) (vq_ttl q)
   | MsgRenew q \<Rightarrow> vote_renew c io now d (vq_volume q) (vq_holder_node q) (wire_epoch (vq_epoch q)) (vq_ttl q)
   | MsgRelease q \<Rightarrow> vote_release c io d (rq_volume q) (rq_holder_node q) (wire_epoch (rq_epoch q)))"

fun msg_volume :: "lease_message \<Rightarrow> string" where
  "msg_volume (MsgGrant q) = vq_volume q"
| "msg_volume (MsgRenew q) = vq_volume q"
| "msg_volume (MsgRelease q) = rq_volume q"

fun msg_holder :: "lease_message \<Rightarrow> string" where
  "msg_holder (MsgGrant q) = vq_holder_node q"
| "msg_holder (MsgRenew q) = vq_holder_node q"
| "msg_holder (MsgRelease q) = rq_holder_node q"

type_synonym node_event = "lease_io \<times> f64 \<times> lease_message"

definition node_step :: "'t lease_codec \<Rightarrow> node_event \<Rightarrow> 't lease_dir \<Rightarrow> 't lease_dir" where
  "node_step c = (\<lambda>(io, now, msg) d. fst (lease_vote_route c io now d msg))"

definition node_grants :: "'t lease_codec \<Rightarrow> node_event \<Rightarrow> 't lease_dir \<Rightarrow> bool" where
  "node_grants c = (\<lambda>(io, now, msg) d. case snd (lease_vote_route c io now d msg) of
     Inl _ \<Rightarrow> False | Inr dec \<Rightarrow> dec_granted dec)"

fun node_run :: "'t lease_codec \<Rightarrow> node_event list \<Rightarrow> 't lease_dir \<Rightarrow> 't lease_dir" where
  "node_run c [] d = d"
| "node_run c (x # xs) d = node_run c xs (node_step c x d)"

lemma lease_vote_route_frame:
  "msg_volume msg \<noteq> v \<Longrightarrow> fst (lease_vote_route c io now d msg) v = d v"
  by (cases msg)
     (simp_all add: lease_vote_route_def vote_grant_frame vote_renew_frame vote_release_frame)

lemma lease_vote_route_keeps:
  assumes "vote_of c d (msg_volume msg) = Some r" "msg_holder msg \<noteq> lr_holder r"
    "f64_lt now (expires_at r)"
  shows "fst (lease_vote_route c io now d msg) = d"
  using assms
  by (cases msg)
     (simp_all add: lease_vote_route_def vote_grant_exclusive(1) vote_renew_exclusive(1)
       vote_release_exclusive(1))

lemma lease_vote_route_denies:
  assumes "vote_of c d (msg_volume msg) = Some r" "msg_holder msg \<noteq> lr_holder r"
    "f64_lt now (expires_at r)" "snd (lease_vote_route c io now d msg) = Inr dec"
  shows "\<not> dec_granted dec"
proof (cases msg)
  case (MsgGrant q)
  with assms show ?thesis
    by (simp add: lease_vote_route_def) (erule (3) vote_grant_exclusive(2))
next
  case (MsgRenew q)
  with assms show ?thesis
    by (simp add: lease_vote_route_def) (erule (2) vote_renew_exclusive(2))
next
  case (MsgRelease q)
  with assms show ?thesis
    by (simp add: lease_vote_route_def) (erule vote_release_exclusive(2); simp)
qed

interpretation node_votes: vote_store
  "\<lambda>d v. d v" "vote_of c" "node_step c" "node_grants c"
  "\<lambda>(io, now, msg). msg_volume msg" "\<lambda>(io, now, msg). msg_holder msg" "\<lambda>(io, now, msg). now"
  for c :: "'t lease_codec"
proof (unfold_locales, goal_cases)
  case (1 d v d')
  then show ?case by (rule vote_of_entry)
next
  case (2 x v d)
  then show ?case by (cases x) (simp add: node_step_def lease_vote_route_frame)
next
  case (3 d x r)
  obtain io now msg where x: "x = (io, now, msg)" by (cases x)
  have "fst (lease_vote_route c io now d msg) = d"
    using 3 x by (intro lease_vote_route_keeps) auto
  moreover have "\<not> node_grants c x d"
    using 3 x lease_vote_route_denies [of c d msg r now io]
    by (auto simp: node_grants_def split: sum.splits)
  ultimately show ?case
    using x by (simp add: node_step_def)
qed

lemma node_votes_run: "node_votes.run c xs d = node_run c xs d"
  by (induction xs arbitrary: d) simp_all

section \<open>Requests over the mesh\<close>

text \<open>
  A mesh state gives each node its directory. A request reaches the node a URL resolves to, or
  nobody; a rejected request (the route answers 422) is a failed call.
\<close>

type_synonym 't lease_mesh = "string \<Rightarrow> 't lease_dir"

definition mesh_post ::
  "'t lease_codec \<Rightarrow> (string \<Rightarrow> f64) \<Rightarrow> (string \<Rightarrow> lease_io) \<Rightarrow> (string \<Rightarrow> string option) \<Rightarrow> 't lease_mesh lease_post" where
  "mesh_post c clk io resolve s url msg = (case resolve url of
     None \<Rightarrow> (s, None)
   | Some n \<Rightarrow> (case lease_vote_route c (io n) (clk n) (s n) msg of
       (d, Inl _) \<Rightarrow> (s(n := d), None)
     | (d, Inr dec) \<Rightarrow> (s(n := d), Some dec)))"

definition mesh_request ::
  "'t lease_codec \<Rightarrow> (string \<Rightarrow> f64) \<Rightarrow> (string \<Rightarrow> lease_io) \<Rightarrow> (string \<Rightarrow> string option) \<Rightarrow> lease_op \<Rightarrow> bool
     \<Rightarrow> lease_request_args \<Rightarrow> 't lease_mesh \<Rightarrow> 't lease_mesh \<times> (lease_unavailable + lease_record)" where
  "mesh_request c clk io resolve op cleanup a s = (let self = la_self_node a in
     case request_majority c (io self) (io self) (clk self) (mesh_post c clk io resolve) op cleanup a (s self) s of
       (d, s', r) \<Rightarrow> (s'(self := d), r))"

text \<open>
  The peer table of a request: node ids are distinct and a URL resolves to its node or to
  nobody.
\<close>

definition wf_peers :: "(string \<Rightarrow> string option) \<Rightarrow> (string \<times> string) list \<Rightarrow> bool" where
  "wf_peers resolve peers \<longleftrightarrow> distinct (map fst peers) \<and>
     (\<forall>(node, url) \<in> set peers. resolve url = None \<or> resolve url = Some node)"

text \<open>Every node of \<open>Q\<close> stores an unexpired vote on \<open>v\<close> for somebody other than \<open>h\<close>.\<close>

definition blocked :: "'t lease_codec \<Rightarrow> (string \<Rightarrow> f64) \<Rightarrow> 't lease_mesh \<Rightarrow> string set \<Rightarrow> string \<Rightarrow> string \<Rightarrow> bool" where
  "blocked c clk s Q v h \<longleftrightarrow> (\<forall>n \<in> Q. \<exists>r. vote_of c (s n) v = Some r \<and> h \<noteq> lr_holder r \<and>
     f64_lt (clk n) (expires_at r))"

lemma blocked_cong: "(\<And>n. n \<in> Q \<Longrightarrow> s' n v = s n v) \<Longrightarrow> blocked c clk s Q v h \<Longrightarrow> blocked c clk s' Q v h"
  unfolding blocked_def by (metis vote_of_entry)

lemma mesh_post_blocked:
  assumes "blocked c clk s Q (msg_volume msg) (msg_holder msg)"
    and "mesh_post c clk io resolve s url msg = (s', dec)"
  shows "n \<in> Q \<Longrightarrow> s' n (msg_volume msg) = s n (msg_volume msg)"
    and "resolve url = Some n \<Longrightarrow> n \<in> Q \<Longrightarrow> dec = Some dd \<Longrightarrow> \<not> dec_granted dd"
proof -
  have keeps: "fst (lease_vote_route c (io m) (clk m) (s m) msg) = s m"
    and denies: "snd (lease_vote_route c (io m) (clk m) (s m) msg) = Inr dd \<Longrightarrow> \<not> dec_granted dd"
    if "m \<in> Q" for m dd
    using that assms(1) lease_vote_route_keeps lease_vote_route_denies
    unfolding blocked_def by blast+
  show "s' n (msg_volume msg) = s n (msg_volume msg)" if "n \<in> Q"
    using that assms(2) keeps [OF that]
    by (auto simp: mesh_post_def split: option.splits prod.splits sum.splits)
  show "\<not> dec_granted dd" if "resolve url = Some n" "n \<in> Q" "dec = Some dd"
    using that assms(2) denies [OF that(2), of dd]
    by (auto simp: mesh_post_def split: prod.splits sum.splits)
qed

lemma collect_votes_blocked:
  assumes "wf_peers resolve peers" "blocked c clk s Q (msg_volume msg) (msg_holder msg)"
    and "collect_votes (mesh_post c clk io resolve) msg self peers s acc = (s', acc')"
  shows "(\<forall>n \<in> Q. s' n (msg_volume msg) = s n (msg_volume msg)) \<and>
    (\<exists>G. ma_granted acc' = G @ ma_granted acc \<and> ma_votes acc' = ma_votes acc + length G \<and>
       distinct G \<and> set G \<subseteq> fst ` set peers - Q - {self})"
  using assms
proof (induction peers arbitrary: s acc)
  case Nil
  then show ?case by simp
next
  case (Cons p peers)
  obtain node url where p: "p = (node, url)" by (cases p)
  have wf: "wf_peers resolve peers" "node \<notin> fst ` set peers" "resolve url = None \<or> resolve url = Some node"
    using Cons.prems(1) p by (auto simp: wf_peers_def)
  show ?case
  proof (cases "node = self")
    case True
    then show ?thesis
      using Cons.IH [OF wf(1) Cons.prems(2)] Cons.prems(3) p by fastforce
  next
    case False
    obtain s1 dec where post: "mesh_post c clk io resolve s url msg = (s1, dec)"
      by fastforce
    note kept = mesh_post_blocked [OF Cons.prems(2) post]
    have b1: "blocked c clk s1 Q (msg_volume msg) (msg_holder msg)"
      using blocked_cong [OF _ Cons.prems(2)] kept(1) by blast
    show ?thesis
    proof (cases "\<exists>dd. dec = Some dd \<and> dec_granted dd")
      case True
      then obtain dd where dd: "dec = Some dd" "dec_granted dd" by blast
      have "resolve url = Some node"
        using post dd wf(3) by (auto simp: mesh_post_def)
      then have nq: "node \<notin> Q" using kept(2) dd by blast
      let ?acc = "\<lparr>ma_votes = ma_votes acc + 1,
                  ma_record = (if ma_record acc = None then dec_record dd else ma_record acc),
                  ma_granted = node # ma_granted acc\<rparr>"
      have "collect_votes (mesh_post c clk io resolve) msg self peers s1 ?acc = (s', acc')"
        using Cons.prems(3) p False post dd by simp
      from Cons.IH [OF wf(1) b1 this] obtain G where
        G: "ma_granted acc' = G @ node # ma_granted acc" "ma_votes acc' = ma_votes acc + 1 + length G"
          "distinct G" "set G \<subseteq> fst ` set peers - Q - {self}"
        and s': "\<forall>n \<in> Q. s' n (msg_volume msg) = s1 n (msg_volume msg)"
        by auto
      have "ma_granted acc' = (G @ [node]) @ ma_granted acc" "distinct (G @ [node])"
        "set (G @ [node]) \<subseteq> fst ` set (p # peers) - Q - {self}"
        "ma_votes acc' = ma_votes acc + length (G @ [node])"
        using G nq False wf(2) p by auto
      then show ?thesis using s' kept(1) by metis
    next
      case notgranted: False
      then have "collect_votes (mesh_post c clk io resolve) msg self peers s1 acc = (s', acc')"
        using Cons.prems(3) p False post by (auto split: option.splits)
      from Cons.IH [OF wf(1) b1 this] show ?thesis
        using kept(1) p by fastforce
    qed
  qed
qed

lemma post_releases_blocked:
  assumes "blocked c clk s Q (rq_volume q) (rq_holder_node q)" "n \<in> Q"
  shows "post_releases (mesh_post c clk io resolve) q wanted peers s n (rq_volume q) = s n (rq_volume q)"
  using assms
proof (induction peers arbitrary: s)
  case Nil
  then show ?case by simp
next
  case (Cons p peers)
  obtain node url where p: "p = (node, url)" by (cases p)
  let ?s = "fst (mesh_post c clk io resolve s url (MsgRelease q))"
  have kept: "?s m (rq_volume q) = s m (rq_volume q)" if "m \<in> Q" for m
    using mesh_post_blocked(1) [of c clk s Q "MsgRelease q" io resolve url ?s _ m] Cons.prems(1) that
    by (metis msg_holder.simps(3) msg_volume.simps(3) prod.collapse)
  then have "blocked c clk ?s Q (rq_volume q) (rq_holder_node q)"
    using blocked_cong [OF _ Cons.prems(1)] by blast
  then show ?case
    using Cons.IH kept Cons.prems p by auto
qed

lemma local_vote_blocked:
  assumes "vote_of c d (la_volume a) = Some r" "la_holder_node a \<noteq> lr_holder r" "f64_lt now (expires_at r)"
  shows "fst (local_vote c io now op a d) = d"
    and "snd (local_vote c io now op a d) = Inr dec \<Longrightarrow> \<not> dec_granted dec"
proof -
  show "fst (local_vote c io now op a d) = d"
    using assms by (cases op) (simp_all add: local_vote_def vote_grant_exclusive(1) vote_renew_exclusive(1))
  show "\<not> dec_granted dec" if "snd (local_vote c io now op a d) = Inr dec"
    using that assms vote_grant_exclusive(2) vote_renew_exclusive(2)
    by (cases op) (fastforce simp: local_vote_def)+
qed

lemma request_majority_cases:
  assumes "request_majority c io io_cl now post op cleanup a d s = (d', s', res)"
  obtains (invalid) "d' = d" "s' = s" "\<exists>u. res = Inl u"
  | (local_error) needed e where "validate_request a = Inr needed"
      "local_vote c io now op a d = (d', Inl e)" "s' = s" "\<exists>u. res = Inl u"
  | (voted) needed d1 ldec q acc0 s1 acc where
      "validate_request a = Inr needed" "local_vote c io now op a d = (d1, Inr ldec)"
      "q = \<lparr>vq_volume = la_volume a, vq_holder_node = la_holder_node a,
            vq_epoch = la_epoch a, vq_ttl = la_ttl a\<rparr>"
      "acc0 = \<lparr>ma_votes = (if dec_granted ldec then 1 else 0),
               ma_record = (if dec_granted ldec then dec_record ldec else None),
               ma_granted = (if dec_granted ldec then [la_self_node a] else [])\<rparr>"
      "collect_votes post (lease_vote_message op q) (la_self_node a) (la_peer_urls a) s acc0 = (s1, acc)"
      "(\<exists>r. res = Inr r \<and> needed \<le> ma_votes acc \<and> dec_granted ldec \<and> ma_record acc = Some r \<and> d' = d1 \<and> s' = s1)
       \<or> ((\<exists>u. res = Inl u) \<and>
          (d' = d1 \<or> d' = fst (vote_release c io_cl d1 (la_volume a) (la_holder_node a) (la_epoch a))) \<and>
          (s' = s1 \<or> (\<exists>wanted. s' = post_releases post
             \<lparr>rq_volume = la_volume a, rq_holder_node = la_holder_node a, rq_epoch = la_epoch a\<rparr>
             wanted (la_peer_urls a) s1)))"
proof (cases "validate_request a")
  case (Inl e)
  then show ?thesis
    using assms by (intro invalid) (auto simp: request_majority_def)
next
  case (Inr needed)
  obtain d1 lres where lv: "local_vote c io now op a d = (d1, lres)" by fastforce
  show ?thesis
  proof (cases lres)
    case (Inl e)
    then show ?thesis
      using assms Inr lv by (intro local_error) (auto simp: request_majority_def)
  next
    case ldec: (Inr ldec)
    define q where "q = \<lparr>vq_volume = la_volume a, vq_holder_node = la_holder_node a,
      vq_epoch = la_epoch a, vq_ttl = la_ttl a\<rparr>"
    define acc0 where "acc0 = \<lparr>ma_votes = (if dec_granted ldec then 1 else 0),
      ma_record = (if dec_granted ldec then dec_record ldec else None),
      ma_granted = (if dec_granted ldec then [la_self_node a] else [])\<rparr>"
    obtain s1 acc where cv: "collect_votes post (lease_vote_message op q) (la_self_node a)
      (la_peer_urls a) s acc0 = (s1, acc)" by fastforce
    show ?thesis
      using assms unfolding request_majority_def Inr lv ldec sum.case prod.case Let_def
        q_def [symmetric] acc0_def [symmetric] cv
      by (intro voted [OF Inr lv [unfolded ldec] q_def acc0_def cv])
         (auto split: bool.splits option.splits if_splits)
  qed
qed

lemma msg_of_lease_vote_message [simp]:
  "msg_volume (lease_vote_message op q) = vq_volume q"
  "msg_holder (lease_vote_message op q) = vq_holder_node q"
  by (cases op; simp add: lease_vote_message_def)+

text \<open>
  The directories of a blocked quorum stay as they are and the request fails, whatever its
  operation.
\<close>

lemma mesh_request_blocked:
  assumes peers: "wf_peers resolve (la_peer_urls a)"
    and M: "finite M" "card M \<le> la_expected_members a" "la_self_node a \<in> M"
      "fst ` set (la_peer_urls a) \<subseteq> M"
    and Q: "Q \<subseteq> M" "majority_size (la_expected_members a) \<le> card Q"
    and b: "blocked c clk s Q (la_volume a) (la_holder_node a)"
    and req: "mesh_request c clk io resolve op cleanup a s = (s', res)"
  shows "(\<exists>u. res = Inl u) \<and> (\<forall>n \<in> Q. s' n (la_volume a) = s n (la_volume a))"
proof -
  let ?self = "la_self_node a" and ?v = "la_volume a" and ?h = "la_holder_node a"
  obtain d' s2 where rm: "request_majority c (io ?self) (io ?self) (clk ?self)
      (mesh_post c clk io resolve) op cleanup a (s ?self) s = (d', s2, res)"
    and s': "s' = s2(?self := d')"
    using req by (auto simp: mesh_request_def Let_def split: prod.splits)
  have n0: "0 < la_expected_members a" using M by (metis card_0_eq empty_iff gr0I le_zero_eq)
  have ldeny: "\<not> dec_granted ldec"
    if "local_vote c (io ?self) (clk ?self) op a (s ?self) = (d1, Inr ldec)" "?self \<in> Q" for d1 ldec
    using that b local_vote_blocked(2) [of c "s ?self" a] unfolding blocked_def by (metis snd_conv)
  have lkeep: "d1 = s ?self"
    if "local_vote c (io ?self) (clk ?self) op a (s ?self) = (d1, r)" "?self \<in> Q" for d1 r
    using that b local_vote_blocked(1) [of c "s ?self" a] unfolding blocked_def by (metis fst_conv)
  from rm show ?thesis
  proof (cases rule: request_majority_cases)
    case invalid
    then show ?thesis using s' by auto
  next
    case (local_error needed e)
    then show ?thesis using s' lkeep by auto
  next
    case (voted needed d1 ldec q acc0 s1 acc)
    have bq: "blocked c clk s Q (msg_volume (lease_vote_message op q)) (msg_holder (lease_vote_message op q))"
      using b voted(3) by simp
    from collect_votes_blocked [OF peers bq voted(5)] obtain G where
      kept: "\<forall>n \<in> Q. s1 n ?v = s n ?v"
      and G: "ma_votes acc = ma_votes acc0 + length G" "distinct G"
        "set G \<subseteq> fst ` set (la_peer_urls a) - Q - {?self}"
      using voted(3) by auto
    have b1: "blocked c clk s1 Q ?v ?h" using blocked_cong [OF _ b] kept by blast
    have "\<not> (needed \<le> ma_votes acc \<and> dec_granted ldec)"
    proof
      assume won: "needed \<le> ma_votes acc \<and> dec_granted ldec"
      then have "?self \<notin> Q" using ldeny voted(2) by blast
      let ?A = "insert ?self (set G)"
      have "card ?A = ma_votes acc"
        using G won voted(4) by (simp add: distinct_card card_insert_if subset_iff)
          (metis (no_types, lifting) DiffE distinct_card insertI1 subset_iff)
      moreover have "needed = majority_size (la_expected_members a)"
        using voted(1) by (auto simp: validate_request_def rbind_def majority_size_def split: sum.splits)
      moreover have "set G \<subseteq> M" using G(3) M(4) by blast
      ultimately have "?A \<inter> Q \<noteq> {}"
        using lease_quorum.quorums_meet [OF M(1,2) n0, of ?A Q] M(3,4) Q G(3) won by auto
      then show False using G(3) \<open>?self \<notin> Q\<close> by auto
    qed
    then have inl: "\<exists>u. res = Inl u"
      and dd: "d' = d1 \<or> d' = fst (vote_release c (io ?self) d1 ?v ?h (la_epoch a))"
      and ss: "s2 = s1 \<or> (\<exists>wanted. s2 = post_releases (mesh_post c clk io resolve)
             \<lparr>rq_volume = ?v, rq_holder_node = ?h, rq_epoch = la_epoch a\<rparr> wanted (la_peer_urls a) s1)"
      using voted(6) by auto
    have "s2 n ?v = s n ?v" if "n \<in> Q" for n
      using ss post_releases_blocked [of c clk s1 Q "\<lparr>rq_volume = ?v, rq_holder_node = ?h, rq_epoch = la_epoch a\<rparr>" n]
        b1 kept that by auto
    moreover have "d' ?v = s ?self ?v" if self: "?self \<in> Q"
    proof -
      have d1: "d1 = s ?self" using lkeep [OF voted(2) self] .
      obtain r where "vote_of c (s ?self) ?v = Some r" "?h \<noteq> lr_holder r"
        using b self unfolding blocked_def by blast
      then show ?thesis using dd d1 vote_release_exclusive(1) [of c "s ?self" ?v r ?h] by auto
    qed
    ultimately show ?thesis using inl s' by auto
  qed
qed

text \<open>A vote that was granted is stored at the node that granted it.\<close>

definition vote_file :: "'t lease_codec \<Rightarrow> string \<Rightarrow> u64 \<Rightarrow> f64 \<Rightarrow> f64 \<Rightarrow> 't" where
  "vote_file c h e now t = lc_ser c \<lparr>ld_holder = h, ld_epoch = e, ld_granted_at = now, ld_ttl = t\<rparr>"

lemma mesh_post_grants:
  assumes "mesh_post c clk io resolve s url (MsgGrant q) = (s', Some dec)" "dec_granted dec"
  obtains n where "resolve url = Some n"
    "s' = s(n := (s n)(vq_volume q \<mapsto> vote_file c (vq_holder_node q) (wire_epoch (vq_epoch q)) (clk n) (vq_ttl q)))"
proof -
  obtain n where n: "resolve url = Some n"
    using assms(1) by (auto simp: mesh_post_def split: option.splits)
  let ?v = "vote_grant c (io n) (clk n) (s n) (vq_volume q) (vq_holder_node q) (wire_epoch (vq_epoch q)) (vq_ttl q)"
  have "snd ?v = Inr dec" "s' = s(n := fst ?v)"
    using assms(1) n by (auto simp: mesh_post_def lease_vote_route_def split: prod.splits sum.splits)
  then show ?thesis
    using that [OF n] vote_grant_granted(1) assms(2) unfolding vote_file_def by metis
qed

lemma mesh_post_other: "resolve url = None \<or> resolve url = Some m \<Longrightarrow> n \<noteq> m \<Longrightarrow>
   fst (mesh_post c clk io resolve s url msg) n = s n"
  by (auto simp: mesh_post_def split: option.splits prod.splits sum.splits)

lemma collect_votes_grants:
  assumes "wf_peers resolve peers"
    and "collect_votes (mesh_post c clk io resolve) (MsgGrant q) self peers s acc = (s', acc')"
  shows "\<exists>G. ma_granted acc' = G @ ma_granted acc \<and> ma_votes acc' = ma_votes acc + length G \<and>
      distinct G \<and> set G \<subseteq> fst ` set peers - {self} \<and>
      (\<forall>n. n \<notin> fst ` set peers - {self} \<longrightarrow> s' n = s n) \<and>
      (\<forall>n \<in> set G. s' n (vq_volume q) =
         Some (vote_file c (vq_holder_node q) (wire_epoch (vq_epoch q)) (clk n) (vq_ttl q))) \<and>
      (ma_record acc \<noteq> None \<longrightarrow> ma_record acc' = ma_record acc)"
  using assms
proof (induction peers arbitrary: s acc)
  case Nil
  then show ?case by simp
next
  case (Cons p peers)
  obtain node url where p: "p = (node, url)" by (cases p)
  have wf: "wf_peers resolve peers" "node \<notin> fst ` set peers" "resolve url = None \<or> resolve url = Some node"
    using Cons.prems(1) p by (auto simp: wf_peers_def)
  show ?case
  proof (cases "node = self")
    case True
    then have same: "fst ` set (p # peers) - {self} = fst ` set peers - {self}"
      using p by auto
    have "collect_votes (mesh_post c clk io resolve) (MsgGrant q) self peers s acc = (s', acc')"
      using Cons.prems(2) p True by simp
    then show ?thesis
      unfolding same by (rule Cons.IH [OF wf(1)])
  next
    case False
    obtain s1 dec where post: "mesh_post c clk io resolve s url (MsgGrant q) = (s1, dec)"
      by fastforce
    have other: "s1 n = s n" if "n \<noteq> node" for n
      using mesh_post_other [of resolve url node n c clk io s "MsgGrant q"] wf(3) that post by simp
    show ?thesis
    proof (cases "\<exists>dd. dec = Some dd \<and> dec_granted dd")
      case True
      then obtain dd where dd: "dec = Some dd" "dec_granted dd" by blast
      have stored: "s1 node (vq_volume q) =
          Some (vote_file c (vq_holder_node q) (wire_epoch (vq_epoch q)) (clk node) (vq_ttl q))"
      proof (rule mesh_post_grants [OF post [unfolded dd(1)] dd(2)])
        fix n
        assume "resolve url = Some n"
          and s1: "s1 = s(n := (s n)(vq_volume q \<mapsto>
            vote_file c (vq_holder_node q) (wire_epoch (vq_epoch q)) (clk n) (vq_ttl q)))"
        then have "n = node" using wf(3) by simp
        then show ?thesis unfolding s1 by simp
      qed
      let ?acc = "\<lparr>ma_votes = ma_votes acc + 1,
                  ma_record = (if ma_record acc = None then dec_record dd else ma_record acc),
                  ma_granted = node # ma_granted acc\<rparr>"
      have "collect_votes (mesh_post c clk io resolve) (MsgGrant q) self peers s1 ?acc = (s', acc')"
        using Cons.prems(2) p False post dd by simp
      from Cons.IH [OF wf(1) this] obtain G where
        G: "ma_granted acc' = G @ node # ma_granted acc" "ma_votes acc' = ma_votes acc + 1 + length G"
          "distinct G" "set G \<subseteq> fst ` set peers - {self}"
        and frame: "\<forall>n. n \<notin> fst ` set peers - {self} \<longrightarrow> s' n = s1 n"
        and files: "\<forall>n \<in> set G. s' n (vq_volume q) =
          Some (vote_file c (vq_holder_node q) (wire_epoch (vq_epoch q)) (clk n) (vq_ttl q))"
        and rec: "ma_record acc \<noteq> None \<longrightarrow> ma_record acc' = ma_record acc"
        by (auto split: if_splits)
      have "s' node = s1 node" using frame wf(2) by simp
      then have "\<forall>n \<in> set (G @ [node]). s' n (vq_volume q) =
          Some (vote_file c (vq_holder_node q) (wire_epoch (vq_epoch q)) (clk n) (vq_ttl q))"
        using files stored by auto
      moreover have "\<forall>n. n \<notin> fst ` set (p # peers) - {self} \<longrightarrow> s' n = s n"
        using frame other p False by auto
      moreover have "distinct (G @ [node])" "set (G @ [node]) \<subseteq> fst ` set (p # peers) - {self}"
        using G(3,4) wf(2) p False by auto
      ultimately show ?thesis
        using G(1,2) rec by (intro exI [of _ "G @ [node]"]) simp
    next
      case notgranted: False
      then have "collect_votes (mesh_post c clk io resolve) (MsgGrant q) self peers s1 acc = (s', acc')"
        using Cons.prems(2) p False post by (auto split: option.splits)
      from Cons.IH [OF wf(1) this] obtain G where
        G: "ma_granted acc' = G @ ma_granted acc" "ma_votes acc' = ma_votes acc + length G"
          "distinct G" "set G \<subseteq> fst ` set peers - {self}"
        and frame: "\<forall>n. n \<notin> fst ` set peers - {self} \<longrightarrow> s' n = s1 n"
        and files: "\<forall>n \<in> set G. s' n (vq_volume q) =
          Some (vote_file c (vq_holder_node q) (wire_epoch (vq_epoch q)) (clk n) (vq_ttl q))"
        and rec: "ma_record acc \<noteq> None \<longrightarrow> ma_record acc' = ma_record acc"
        by auto
      have "\<forall>n. n \<notin> fst ` set (p # peers) - {self} \<longrightarrow> s' n = s n"
        using frame other p False by auto
      moreover have "set G \<subseteq> fst ` set (p # peers) - {self}"
        using G(4) by auto
      ultimately show ?thesis
        using G(1-3) files rec by (intro exI [of _ G]) simp
    qed
  qed
qed

lemma mesh_grant_quorum:
  assumes peers: "wf_peers resolve (la_peer_urls a)"
    and req: "mesh_request c clk io resolve OpGrant cleanup a s = (s', Inr r)"
  obtains Q where "Q \<subseteq> insert (la_self_node a) (fst ` set (la_peer_urls a))" "finite Q"
    "majority_size (la_expected_members a) \<le> card Q" "0 < la_expected_members a"
    "\<forall>n \<in> Q. s' n (la_volume a) = Some (vote_file c (la_holder_node a)
       (if n = la_self_node a then la_epoch a else wire_epoch (la_epoch a)) (clk n) (la_ttl a))"
    "r = \<lparr>lr_volume = la_volume a, lr_holder = la_holder_node a, lr_epoch = la_epoch a,
          lr_granted_at = clk (la_self_node a), lr_ttl = la_ttl a\<rparr>"
proof -
  let ?self = "la_self_node a" and ?v = "la_volume a" and ?h = "la_holder_node a"
  obtain d' s2 where rm: "request_majority c (io ?self) (io ?self) (clk ?self)
      (mesh_post c clk io resolve) OpGrant cleanup a (s ?self) s = (d', s2, Inr r)"
    and s': "s' = s2(?self := d')"
    using req by (auto simp: mesh_request_def Let_def split: prod.splits)
  from rm show ?thesis
  proof (cases rule: request_majority_cases)
    case (voted needed d1 ldec q acc0 s1 acc)
    have won: "needed \<le> ma_votes acc" "dec_granted ldec" "ma_record acc = Some r" "d' = d1" "s2 = s1"
      using voted(6) by auto
    have lv: "vote_grant c (io ?self) (clk ?self) (s ?self) ?v ?h (la_epoch a) (la_ttl a) = (d1, Inr ldec)"
      using voted(2) by (simp add: local_vote_def)
    have d1: "d1 ?v = Some (vote_file c ?h (la_epoch a) (clk ?self) (la_ttl a))"
      and lrec: "dec_record ldec = Some \<lparr>lr_volume = ?v, lr_holder = ?h, lr_epoch = la_epoch a,
          lr_granted_at = clk ?self, lr_ttl = la_ttl a\<rparr>"
      using vote_grant_granted [of c "io ?self" "clk ?self" "s ?self" ?v ?h "la_epoch a" "la_ttl a" ldec]
        lv won(2) by (auto simp: vote_file_def)
    from collect_votes_grants [OF peers, of c clk io q ?self s acc0 s1 acc] voted(5) obtain G where
      G: "ma_votes acc = ma_votes acc0 + length G" "distinct G" "set G \<subseteq> fst ` set (la_peer_urls a) - {?self}"
      and files: "\<forall>n \<in> set G. s1 n (vq_volume q) =
         Some (vote_file c (vq_holder_node q) (wire_epoch (vq_epoch q)) (clk n) (vq_ttl q))"
      and rec: "ma_record acc0 \<noteq> None \<longrightarrow> ma_record acc = ma_record acc0"
      by (auto simp: lease_vote_message_def)
    let ?Q = "insert ?self (set G)"
    have "majority_size (la_expected_members a) = needed \<and> 0 < la_expected_members a"
      using voted(1) by (auto simp: validate_request_def rbind_def majority_size_def
          majority_needed_def split: sum.splits if_splits)
    moreover have "card ?Q = ma_votes acc"
      using G won(2) voted(4) by (subst card_insert_disjoint) (auto simp: distinct_card)
    moreover have "r = \<lparr>lr_volume = ?v, lr_holder = ?h, lr_epoch = la_epoch a,
          lr_granted_at = clk ?self, lr_ttl = la_ttl a\<rparr>"
      using rec won(2,3) voted(4) lrec by simp
    moreover have "\<forall>n \<in> ?Q. s' n ?v = Some (vote_file c ?h
        (if n = ?self then la_epoch a else wire_epoch (la_epoch a)) (clk n) (la_ttl a))"
      using files d1 G(3) s' won(4,5) voted(3) by auto
    ultimately show ?thesis
      using that [of ?Q] G(3) won(1) by auto
  qed auto
qed

section \<open>Histories of requests\<close>

text \<open>
  Requests one after the other: a request runs to its end before the next begins. Of each, where the clocks stand, which messages and file operations fail, and what is asked.
\<close>

record mesh_req =
  mr_clk :: "string \<Rightarrow> f64"
  mr_io :: "string \<Rightarrow> lease_io"
  mr_resolve :: "string \<Rightarrow> string option"
  mr_op :: lease_op
  mr_cleanup :: bool
  mr_args :: lease_request_args

fun mesh_history :: "'t lease_codec \<Rightarrow> mesh_req list \<Rightarrow> 't lease_mesh \<Rightarrow> (lease_unavailable + lease_record) list" where
  "mesh_history c [] s = []"
| "mesh_history c (q # qs) s =
     (case mesh_request c (mr_clk q) (mr_io q) (mr_resolve q) (mr_op q) (mr_cleanup q) (mr_args q) s of
        (s', r) \<Rightarrow> r # mesh_history c qs s')"

text \<open>A request of another holder, in the same membership, before the votes run out.\<close>

definition rival :: "string set \<Rightarrow> nat \<Rightarrow> string \<Rightarrow> string \<Rightarrow> (string \<Rightarrow> f64) \<Rightarrow> mesh_req \<Rightarrow> bool" where
  "rival M n v h expiry q \<longleftrightarrow>
     wf_peers (mr_resolve q) (la_peer_urls (mr_args q)) \<and>
     la_self_node (mr_args q) \<in> M \<and> fst ` set (la_peer_urls (mr_args q)) \<subseteq> M \<and>
     la_expected_members (mr_args q) = n \<and> la_volume (mr_args q) = v \<and>
     la_holder_node (mr_args q) \<noteq> h \<and> (\<forall>m \<in> M. f64_lt (mr_clk q m) (expiry m))"

text \<open>Every node of \<open>Q\<close> stores a vote of \<open>h\<close> that runs until the node's expiry.\<close>

definition holds_quorum :: "'t lease_codec \<Rightarrow> 't lease_mesh \<Rightarrow> string set \<Rightarrow> string \<Rightarrow> string \<Rightarrow> (string \<Rightarrow> f64) \<Rightarrow> bool" where
  "holds_quorum c s Q v h expiry \<longleftrightarrow>
     (\<forall>m \<in> Q. \<exists>r. vote_of c (s m) v = Some r \<and> lr_holder r = h \<and> expires_at r = expiry m)"

lemma holds_quorum_blocks:
  "holds_quorum c s Q v h expiry \<Longrightarrow> h' \<noteq> h \<Longrightarrow> \<forall>m \<in> Q. f64_lt (clk m) (expiry m) \<Longrightarrow> blocked c clk s Q v h'"
  unfolding holds_quorum_def blocked_def by metis

lemma mesh_history_excludes:
  assumes "finite M" "card M \<le> n" "Q \<subseteq> M" "majority_size n \<le> card Q"
    and "holds_quorum c s Q v h expiry" "\<forall>q \<in> set qs. rival M n v h expiry q"
  shows "\<forall>r \<in> set (mesh_history c qs s). \<exists>u. r = Inl u"
  using assms(5,6)
proof (induction qs arbitrary: s)
  case Nil
  then show ?case by simp
next
  case (Cons q qs)
  obtain s' r where req: "mesh_request c (mr_clk q) (mr_io q) (mr_resolve q) (mr_op q) (mr_cleanup q) (mr_args q) s = (s', r)"
    by fastforce
  have riv: "rival M n v h expiry q" using Cons.prems(2) by simp
  have "blocked c (mr_clk q) s Q (la_volume (mr_args q)) (la_holder_node (mr_args q))"
    using holds_quorum_blocks [OF Cons.prems(1)] riv assms(3) unfolding rival_def by blast
  with mesh_request_blocked [OF _ assms(1) _ _ _ assms(3) _ _ req] riv assms(2,4)
  have "(\<exists>u. r = Inl u) \<and> (\<forall>m \<in> Q. s' m v = s m v)"
    unfolding rival_def by auto
  moreover from this have "holds_quorum c s' Q v h expiry"
    using Cons.prems(1) unfolding holds_quorum_def by (metis vote_of_entry)
  ultimately show ?case
    using Cons.IH Cons.prems(2) req by auto
qed

lemma mesh_request_valid:
  assumes "mesh_request c clk io resolve op cleanup a s = (s', Inr r)"
  shows "is_valid_volume_name (la_volume a) \<and> la_holder_node a \<noteq> [] \<and>
    f64_is_finite (la_ttl a) \<and> \<not> f64_le (la_ttl a) (F_Fin 0)"
proof -
  have "\<exists>k. validate_request a = Inr k"
    using assms by (auto simp: mesh_request_def request_majority_def Let_def split: prod.splits sum.splits)
  then show ?thesis
    by (auto simp: validate_request_def rbind_def validate_defs split: sum.splits if_splits)
qed

text \<open>
  What the JSON text of a vote gives back. \<^verbatim>\<open>serde_json\<close> keeps strings and integers; without its
  \<^verbatim>\<open>float_roundtrip\<close> feature a finite number may come back in its last digits different, which is
  the function \<open>rd\<close>, and numbers that are not finite have no text. The predicate says so of one vote.
\<close>

definition rereads :: "'t lease_codec \<Rightarrow> (f64 \<Rightarrow> f64) \<Rightarrow> string \<Rightarrow> u64 \<Rightarrow> f64 \<Rightarrow> f64 \<Rightarrow> bool" where
  "rereads c rd h e now t \<longleftrightarrow> lc_de c (vote_file c h e now t) =
     Some \<lparr>ld_holder = h, ld_epoch = e, ld_granted_at = rd now, ld_ttl = rd t\<rparr>"

lemma vote_of_vote_file:
  assumes "rereads c rd h e now t" "d v = Some (vote_file c h e now t)"
    and "is_valid_volume_name v \<and> h \<noteq> []" "f64_is_finite (rd t)" "\<not> f64_le (rd t) (F_Fin 0)"
  shows "vote_of c d v = Some \<lparr>lr_volume = v, lr_holder = h, lr_epoch = e, lr_granted_at = rd now, lr_ttl = rd t\<rparr>"
  using assms
  by (simp add: vote_of_def rereads_def lease_from_disk_def lease_record_new_def validate_defs)

text \<open>Sample mesh of three nodes, for the witnesses.\<close>

definition sample_codec :: "lease_disk_record lease_codec" where
  "sample_codec = \<lparr>lc_ser = (\<lambda>r. r), lc_de = Some\<rparr>"

definition sample_io :: "string \<Rightarrow> lease_io" where
  "sample_io n = \<lparr>io_read_ok = True, io_write_ok = True, io_remove_ok = True\<rparr>"

definition sample_peers :: "(string \<times> string) list" where
  "sample_peers = [(''a'', ''a''), (''b'', ''b''), (''c'', ''c'')]"

definition sample_args :: "string \<Rightarrow> lease_request_args" where
  "sample_args n = \<lparr>la_volume = ''vol'', la_holder_node = n, la_epoch = 4, la_ttl = F_Fin 30,
     la_self_node = n, la_peer_urls = sample_peers, la_expected_members = 3\<rparr>"

definition sample_clk :: "rat \<Rightarrow> string \<Rightarrow> f64" where
  "sample_clk t n = F_Fin t"

definition sample_rival :: mesh_req where
  "sample_rival = \<lparr>mr_clk = sample_clk 1010, mr_io = sample_io, mr_resolve = Some, mr_op = OpGrant,
     mr_cleanup = True, mr_args = sample_args ''b''\<rparr>"

definition sample_grant :: "lease_disk_record lease_mesh \<times> (lease_unavailable + lease_record)" where
  "sample_grant = mesh_request sample_codec (sample_clk 1000) sample_io Some OpGrant True (sample_args ''a'') (\<lambda>_ _. None)"

text \<open>A codec that has no text for what is not finite and reads numbers back rounded to quarters.\<close>

fun quarters :: "f64 \<Rightarrow> f64" where
  "quarters (F_Fin x) = F_Fin (of_int \<lfloor>4 * x\<rfloor> / 4)"
| "quarters x = x"

definition coarse_codec :: "lease_disk_record option lease_codec" where
  "coarse_codec = \<lparr>
     lc_ser = (\<lambda>r. if f64_is_finite (ld_granted_at r) \<and> f64_is_finite (ld_ttl r) then Some r else None),
     lc_de = map_option (\<lambda>r. r\<lparr>ld_granted_at := quarters (ld_granted_at r), ld_ttl := quarters (ld_ttl r)\<rparr>)\<rparr>"

definition coarse_grant :: "lease_disk_record option lease_mesh \<times> (lease_unavailable + lease_record)" where
  "coarse_grant = mesh_request coarse_codec (sample_clk (8001 / 8)) sample_io Some OpGrant True (sample_args ''a'') (\<lambda>_ _. None)"

lemma coarse_grant_ok: "snd coarse_grant = Inr \<lparr>lr_volume = ''vol'', lr_holder = ''a'', lr_epoch = 4,
    lr_granted_at = F_Fin (8001 / 8), lr_ttl = F_Fin 30\<rparr>"
  by code_simp

lemma sample_grant_ok: "snd sample_grant = Inr \<lparr>lr_volume = ''vol'', lr_holder = ''a'', lr_epoch = 4,
    lr_granted_at = F_Fin 1000, lr_ttl = F_Fin 30\<rparr>"
  by code_simp

lemma sample_wf_peers: "wf_peers Some sample_peers"
  by (simp add: wf_peers_def sample_peers_def)

section \<open>Properties\<close>

text \<open>
  C1: Mutual exclusion of volume writers. Once a majority grant succeeded, every later majority
  request of another holder on that volume fails, grant or renew, in any number and any order, one
  after the other and with any messages lost, as long as the members are the same and the nodes'
  clocks have not reached the expiry of the votes as the nodes read it from their lease files: the
  file gives holder and epoch back exactly and its two numbers as \<open>rd\<close> makes them, where the time to
  live that is read back must still be finite and positive.
\<close>

theorem lease_mutual_exclusion:
  assumes stored: "\<forall>m \<in> M. \<forall>e \<in> {la_epoch a, wire_epoch (la_epoch a)}.
      rereads c rd (la_holder_node a) e (clk m) (la_ttl a)"
      "f64_is_finite (rd (la_ttl a))" "\<not> f64_le (rd (la_ttl a)) (F_Fin 0)"
    and peers: "wf_peers resolve (la_peer_urls a)"
    and granted: "mesh_request c clk io resolve OpGrant True a s = (s1, Inr r)"
    and members: "finite M" "card M \<le> la_expected_members a"
      "insert (la_self_node a) (fst ` set (la_peer_urls a)) \<subseteq> M"
    and rivals: "\<forall>q \<in> set qs. rival M (la_expected_members a) (la_volume a) (la_holder_node a)
      (\<lambda>m. f64_add (rd (clk m)) (rd (la_ttl a))) q"
  shows "\<forall>x \<in> set (mesh_history c qs s1). \<exists>u. x = Inl u"
proof -
  from mesh_grant_quorum [OF peers granted] obtain Q where
    Q: "Q \<subseteq> insert (la_self_node a) (fst ` set (la_peer_urls a))"
      "majority_size (la_expected_members a) \<le> card Q"
    and files: "\<forall>n \<in> Q. s1 n (la_volume a) = Some (vote_file c (la_holder_node a)
       (if n = la_self_node a then la_epoch a else wire_epoch (la_epoch a)) (clk n) (la_ttl a))"
    by blast
  have QM: "Q \<subseteq> M" using Q(1) members(3) by blast
  have "\<exists>r. vote_of c (s1 n) (la_volume a) = Some r \<and> lr_holder r = la_holder_node a \<and>
      expires_at r = f64_add (rd (clk n)) (rd (la_ttl a))" if n: "n \<in> Q" for n
  proof -
    let ?e = "if n = la_self_node a then la_epoch a else wire_epoch (la_epoch a)"
    have "rereads c rd (la_holder_node a) ?e (clk n) (la_ttl a)" using stored(1) n QM by auto
    from vote_of_vote_file [OF this, of "s1 n" "la_volume a"] show ?thesis
      using files n stored(2,3) mesh_request_valid [OF granted] by (simp add: expires_at_def)
  qed
  then have "holds_quorum c s1 Q (la_volume a) (la_holder_node a) (\<lambda>m. f64_add (rd (clk m)) (rd (la_ttl a)))"
    by (simp add: holds_quorum_def)
  then show ?thesis
    using mesh_history_excludes [OF members(1,2) QM Q(2) _ rivals] by blast
qed

theorem lease_mutual_exclusion_witness:
  "\<exists>u v. mesh_history coarse_codec [sample_rival, sample_rival] (fst coarse_grant) = [Inl u, Inl v]"
proof -
  have grant: "mesh_request coarse_codec (sample_clk (8001 / 8)) sample_io Some OpGrant True (sample_args ''a'') (\<lambda>_ _. None)
      = (fst coarse_grant, Inr \<lparr>lr_volume = ''vol'', lr_holder = ''a'', lr_epoch = 4,
    lr_granted_at = F_Fin (8001 / 8), lr_ttl = F_Fin 30\<rparr>)"
    using coarse_grant_ok by (metis prod.collapse coarse_grant_def)
  have "f64_lt (F_Fin 1010) (f64_add (quarters (F_Fin (8001 / 8))) (quarters (F_Fin 30)))"
    by code_simp
  then have rivals: "\<forall>q \<in> set [sample_rival, sample_rival]. rival {''a'', ''b'', ''c''} (la_expected_members (sample_args ''a''))
      (la_volume (sample_args ''a'')) (la_holder_node (sample_args ''a''))
      (\<lambda>m. f64_add (quarters (sample_clk (8001 / 8) m)) (quarters (la_ttl (sample_args ''a'')))) q"
    by (simp add: rival_def sample_rival_def sample_args_def sample_clk_def sample_wf_peers del: quarters.simps)
       (simp add: sample_peers_def)
  have "\<forall>x \<in> set (mesh_history coarse_codec [sample_rival, sample_rival] (fst coarse_grant)). \<exists>u. x = Inl u"
  proof (rule lease_mutual_exclusion [OF _ _ _ _ grant _ _ _ rivals])
    show "f64_is_finite (quarters (la_ttl (sample_args ''a'')))" by code_simp
    show "\<not> f64_le (quarters (la_ttl (sample_args ''a''))) (F_Fin 0)" by code_simp
    show "\<forall>m \<in> {''a'', ''b'', ''c''}. \<forall>e \<in> {la_epoch (sample_args ''a''), wire_epoch (la_epoch (sample_args ''a''))}.
        rereads coarse_codec quarters (la_holder_node (sample_args ''a'')) e (sample_clk (8001 / 8) m) (la_ttl (sample_args ''a''))"
      by (simp add: coarse_codec_def rereads_def vote_file_def sample_clk_def sample_args_def f64_is_finite_def del: not_None_eq)
  qed (simp_all add: sample_args_def sample_wf_peers, simp add: sample_peers_def)
  then show ?thesis by (auto split: prod.splits)
qed

text \<open>
  C2: A successful majority grant is backed by a strict majority of the expected members, each of
  which has the requester's vote, stamped with its own clock, in its lease directory; the record
  returned is the requester's own.
\<close>

theorem request_grant_stored_by_majority:
  assumes "wf_peers resolve (la_peer_urls a)"
    and "mesh_request c clk io resolve OpGrant cleanup a s = (s', Inr r)"
  shows "\<exists>Q. Q \<subseteq> insert (la_self_node a) (fst ` set (la_peer_urls a)) \<and>
    la_expected_members a < 2 * card Q \<and>
    (\<forall>n \<in> Q. s' n (la_volume a) = Some (vote_file c (la_holder_node a)
       (if n = la_self_node a then la_epoch a else wire_epoch (la_epoch a)) (clk n) (la_ttl a))) \<and>
    r = \<lparr>lr_volume = la_volume a, lr_holder = la_holder_node a, lr_epoch = la_epoch a,
         lr_granted_at = clk (la_self_node a), lr_ttl = la_ttl a\<rparr>"
proof -
  from mesh_grant_quorum [OF assms] obtain Q where
    Q: "Q \<subseteq> insert (la_self_node a) (fst ` set (la_peer_urls a))"
      "majority_size (la_expected_members a) \<le> card Q" "0 < la_expected_members a"
      "\<forall>n \<in> Q. s' n (la_volume a) = Some (vote_file c (la_holder_node a)
       (if n = la_self_node a then la_epoch a else wire_epoch (la_epoch a)) (clk n) (la_ttl a))"
      "r = \<lparr>lr_volume = la_volume a, lr_holder = la_holder_node a, lr_epoch = la_epoch a,
          lr_granted_at = clk (la_self_node a), lr_ttl = la_ttl a\<rparr>"
    by blast
  then show ?thesis
    using lease_quorum.strict_majority [OF Q(3)] by (intro exI [of _ Q]) simp
qed

theorem request_grant_stored_by_majority_witness:
  "\<exists>Q. Q \<subseteq> {''a'', ''b'', ''c''} \<and> 3 < 2 * card Q"
proof -
  have "mesh_request sample_codec (sample_clk 1000) sample_io Some OpGrant True (sample_args ''a'') (\<lambda>_ _. None)
      = (fst sample_grant, Inr \<lparr>lr_volume = ''vol'', lr_holder = ''a'', lr_epoch = 4,
    lr_granted_at = F_Fin 1000, lr_ttl = F_Fin 30\<rparr>)"
    using sample_grant_ok by (metis prod.collapse sample_grant_def)
  from request_grant_stored_by_majority [OF _ this] show ?thesis
    using sample_wf_peers by (auto simp: sample_args_def sample_peers_def insert_absorb)
qed

text \<open>
  One node, any sequence of lease requests from the network: while a stored vote is
  unexpired, no request of another holder on that volume changes the file, and none is granted.
\<close>

theorem node_vote_stable:
  assumes "vote_of c d v = Some r"
    and "\<forall>(io, now, msg) \<in> set (x # xs). msg_volume msg = v \<longrightarrow>
      msg_holder msg \<noteq> lr_holder r \<and> f64_lt now (expires_at r)"
    and "x = (io, now, msg)" "msg_volume msg = v"
  shows "node_run c xs d v = d v \<and> \<not> node_grants c x (node_run c xs d)"
proof -
  have xs: "\<forall>y \<in> set xs. (case y of (io, now, msg) \<Rightarrow> msg_volume msg) = v \<longrightarrow>
      (case y of (io, now, msg) \<Rightarrow> msg_holder msg) \<noteq> lr_holder r \<and>
      f64_lt (case y of (io, now, msg) \<Rightarrow> now) (expires_at r)"
    using assms(2) by (auto split: prod.splits)
  show ?thesis
    using node_votes.run_stable [OF assms(1) xs] node_votes.run_excludes [OF assms(1) xs, of x] assms(2-4)
    unfolding node_votes_run by auto
qed

theorem node_vote_stable_witness:
  "let x = (sample_io ''b'', F_Fin 1010, MsgGrant \<lparr>vq_volume = ''vol'', vq_holder_node = ''b'', vq_epoch = 9, vq_ttl = F_Fin 30\<rparr>);
       d = [''vol'' \<mapsto> \<lparr>ld_holder = ''a'', ld_epoch = 4, ld_granted_at = F_Fin 1000, ld_ttl = F_Fin 30\<rparr>]
   in node_run sample_codec [x, x] d ''vol'' = d ''vol'' \<and> \<not> node_grants sample_codec x (node_run sample_codec [x, x] d)"
proof -
  let ?x = "(sample_io ''b'', F_Fin 1010, MsgGrant \<lparr>vq_volume = ''vol'', vq_holder_node = ''b'', vq_epoch = 9, vq_ttl = F_Fin 30\<rparr>)"
  let ?d = "[''vol'' \<mapsto> \<lparr>ld_holder = ''a'', ld_epoch = 4, ld_granted_at = F_Fin 1000, ld_ttl = F_Fin 30\<rparr>]"
  let ?r = "\<lparr>lr_volume = ''vol'', lr_holder = ''a'', lr_epoch = 4, lr_granted_at = F_Fin 1000, lr_ttl = F_Fin 30\<rparr>"
  have "vote_of sample_codec ?d ''vol'' = Some ?r" by code_simp
  moreover have "f64_lt (F_Fin 1010) (expires_at ?r)" by code_simp
  ultimately show ?thesis
    unfolding Let_def by (intro node_vote_stable [where r = ?r]) auto
qed

text \<open>
  \<^verbatim>\<open>vote_renew\<close> extends a vote exactly when the request is valid, the file can be read and
  written, the stored vote has the same holder and epoch, has not expired and its renew deadline
  (half the TTL) has not passed; in every other case the directory is unchanged.
\<close>

theorem vote_renew_granted_iff:
  "(\<exists>dec. snd (vote_renew c io now d v h e t) = Inr dec \<and> dec_granted dec) \<longleftrightarrow>
     is_valid_volume_name v \<and> h \<noteq> [] \<and> f64_is_finite t \<and> \<not> f64_le t (F_Fin 0) \<and>
     io_read_ok io \<and> io_write_ok io \<and>
     (case vote_of c d v of None \<Rightarrow> False
      | Some ex \<Rightarrow> lr_holder ex = h \<and> lr_epoch ex = e \<and> \<not> f64_le (expires_at ex) now \<and>
                    \<not> f64_lt (renew_deadline ex) now)"
  (is "?granted \<longleftrightarrow> ?valid")
proof (cases "is_valid_volume_name v \<and> h \<noteq> [] \<and> f64_is_finite t \<and> \<not> f64_le t (F_Fin 0)")
  case False
  then show ?thesis by (auto simp: vote_renew_def validate_defs)
next
  case True
  have new: "lease_record_new v h e now t =
      Inr \<lparr>lr_volume = v, lr_holder = h, lr_epoch = e, lr_granted_at = now, lr_ttl = t\<rparr>"
    using True by (simp add: lease_record_new_Inr)
  show ?thesis
  proof (cases "load_unlocked c io d v")
    case (Inl err)
    then have "\<not> io_read_ok io \<or> vote_of c d v = None"
      by (metis load_unlocked_Some not_None_eq sum.distinct(1))
    then show ?thesis using True Inl by (auto simp: vote_renew_def validate_defs)
  next
    case (Inr existing)
    then show ?thesis
    proof (cases existing)
      case None
      then show ?thesis
        using True Inr load_unlocked_None [of c io d v]
        by (auto simp: vote_renew_def validate_defs decision_denied_def vote_of_def)
    next
      case (Some ex)
      then show ?thesis
        using True Inr new load_unlocked_Some [of c io d v ex]
        by (auto simp: vote_renew_def validate_defs decision_denied_def store_vote_def
            store_unlocked_def decision_granted_def)
    qed
  qed
qed

end
