(* ===== verification/Json.thy ===== *)
theory Json
  imports F64
begin

text \<open>
  The JSON values the mesh exchanges and persists: \<^verbatim>\<open>serde_json::Value\<close> with its three number
  forms, and the accessors the sources call. Objects are finite maps keyed by strings
  (\<^verbatim>\<open>serde_json::Map\<close>, an ordered map). Printing and parsing of text belong to the library and
  are arguments of the definitions that use them.
\<close>

datatype json_number = PosInt nat | NegInt int | Float f64

datatype json =
    JNull
  | JBool bool
  | JNumber json_number
  | JString string
  | JArray "json list"
  | JObject "string \<Rightarrow> json option"

type_synonym params = "string \<Rightarrow> json option"

fun as_str :: "json \<Rightarrow> string option" where
  "as_str (JString s) = Some s"
| "as_str _ = None"

fun as_bool :: "json \<Rightarrow> bool option" where
  "as_bool (JBool b) = Some b"
| "as_bool _ = None"

fun as_object :: "json \<Rightarrow> params option" where
  "as_object (JObject m) = Some m"
| "as_object _ = None"

fun as_array :: "json \<Rightarrow> json list option" where
  "as_array (JArray xs) = Some xs"
| "as_array _ = None"

fun number_as_i64 :: "json_number \<Rightarrow> int option" where
  "number_as_i64 (PosInt n) = (if int n \<le> i64_max then Some (int n) else None)"
| "number_as_i64 (NegInt i) = Some i"
| "number_as_i64 (Float _) = None"

fun number_as_u64 :: "json_number \<Rightarrow> nat option" where
  "number_as_u64 (PosInt n) = Some n"
| "number_as_u64 _ = None"

fun number_as_f64 :: "json_number \<Rightarrow> f64 option" where
  "number_as_f64 (PosInt n) = Some (f64_of_nat n)"
| "number_as_f64 (NegInt i) = Some (f64_uminus (f64_of_nat (nat (- i))))"
| "number_as_f64 (Float f) = Some f"

fun as_i64 :: "json \<Rightarrow> int option" where
  "as_i64 (JNumber n) = number_as_i64 n"
| "as_i64 _ = None"

fun as_u64 :: "json \<Rightarrow> nat option" where
  "as_u64 (JNumber n) = number_as_u64 n"
| "as_u64 _ = None"

text \<open>\<^verbatim>\<open>Value::get\<close> with a key.\<close>

definition json_get :: "json \<Rightarrow> string \<Rightarrow> json option" where
  "json_get v key = Option.bind (as_object v) (\<lambda>m. m key)"

fun as_f64 :: "json \<Rightarrow> f64 option" where
  "as_f64 (JNumber n) = number_as_f64 n"
| "as_f64 _ = None"

text \<open>
  \<^verbatim>\<open>Number::from(i64)\<close> is \<open>PosInt\<close> for a non-negative value; \<^verbatim>\<open>Number::from_f64\<close> is \<open>None\<close> on a
  value that is not finite.
\<close>

definition number_of_i64 :: "int \<Rightarrow> json_number" where
  "number_of_i64 i = (if 0 \<le> i then PosInt (nat i) else NegInt i)"

definition number_of_f64 :: "f64 \<Rightarrow> json_number option" where
  "number_of_f64 f = (if f64_is_finite f then Some (Float f) else None)"

lemma as_i64_of_i64: "i \<le> i64_max \<Longrightarrow> as_i64 (JNumber (number_of_i64 i)) = Some i"
  by (simp add: number_of_i64_def)

lemma as_str_Some: "as_str j = Some s \<longleftrightarrow> j = JString s"
  by (cases j) auto

lemma as_bool_Some: "as_bool j = Some b \<longleftrightarrow> j = JBool b"
  by (cases j) auto

lemma as_object_Some: "as_object j = Some m \<longleftrightarrow> j = JObject m"
  by (cases j) auto

end
