(* ===== verification/RecordStore.thy ===== *)
theory RecordStore
  imports Json
begin

text \<open>
  Durable create records, \<^verbatim>\<open>vmond/src/mesh/record.rs\<close>: the record a node keeps for every
  acknowledged sandbox create, its validation and wire form, and \<^verbatim>\<open>RecordStore\<close> with its
  ownership transitions (restore claims and migration handoffs). The store is the record map,
  the process-local secrets and the JSON value of every file under the records directory.
  Operations return the new store and a result; the flag \<open>wr\<close> (\<open>rm\<close>) is the outcome of the
  atomic file replacement (removal) the operation performs, and \<open>num_str\<close> is the library's
  printing of a JSON number.
\<close>

section \<open>Create records\<close>

definition ALLOWED_HA :: "string list" where
  "ALLOWED_HA = [''off'', ''async'', ''rerun'', ''async+rerun'']"

definition HANDOFF_TARGET_FIELD :: string where
  "HANDOFF_TARGET_FIELD = ''_mesh_migration_handoff_target''"
definition HANDOFF_TOKEN_FIELD :: string where
  "HANDOFF_TOKEN_FIELD = ''_mesh_migration_handoff_token''"
definition HANDOFF_STATE_FIELD :: string where
  "HANDOFF_STATE_FIELD = ''_mesh_migration_handoff_state''"
definition HANDOFF_SOURCE_FIELD :: string where
  "HANDOFF_SOURCE_FIELD = ''_mesh_migration_handoff_source''"
definition HANDOFF_CLAIMED_FIELD :: string where
  "HANDOFF_CLAIMED_FIELD = ''_mesh_migration_handoff_claimed''"
definition MIGRATION_COMMITTED_FIELD :: string where
  "MIGRATION_COMMITTED_FIELD = ''_mesh_migration_committed''"

fun str_contains :: "string \<Rightarrow> string \<Rightarrow> bool" where
  "str_contains pat [] = (pat = [])"
| "str_contains pat (c # cs) = (take (length pat) (c # cs) = pat \<or> str_contains pat cs)"

definition restart_policy_for_ha :: "string \<Rightarrow> string" where
  "restart_policy_for_ha ha = (if str_contains ''rerun'' ha then ''rerun'' else ''none'')"

definition required_record_acks :: "nat \<Rightarrow> nat \<Rightarrow> nat" where
  "required_record_acks expected_members live_peer_count =
     (if expected_members \<le> 2 then 1 + live_peer_count else expected_members div 2 + 1)"

record create_record =
  cr_sid :: string
  cr_params :: params
  cr_owner :: string
  cr_epoch :: int
  cr_incarnation_epoch :: int
  cr_idempotency_key :: string
  cr_ha :: string
  cr_restart_policy :: string
  cr_created_at :: f64

definition non_empty_string :: "string \<Rightarrow> string result" where
  "non_empty_string v = (if v = [] then Inl Invalid else Inr v)"

definition required_string :: "params \<Rightarrow> string \<Rightarrow> string result" where
  "required_string data key = non_empty_string (case Option.bind (data key) as_str of
     None \<Rightarrow> [] | Some s \<Rightarrow> s)"

definition optional_string :: "(json_number \<Rightarrow> string) \<Rightarrow> json option \<Rightarrow> string \<Rightarrow> string" where
  "optional_string num_str v dflt = (case v of
     Some (JString text) \<Rightarrow> if text \<noteq> [] then text else dflt
   | Some (JNumber n) \<Rightarrow> num_str n
   | Some (JBool flag) \<Rightarrow> if flag then ''true'' else dflt
   | _ \<Rightarrow> dflt)"

definition json_f64 :: "f64 \<Rightarrow> json" where
  "json_f64 v = JNumber (case number_of_f64 v of None \<Rightarrow> PosInt 0 | Some n \<Rightarrow> n)"

text \<open>\<^verbatim>\<open>CreateRecord::new\<close>; \<open>now\<close> is the clock reading used when \<open>created_at\<close> is not finite.\<close>

definition create_record_new ::
  "f64 \<Rightarrow> string \<Rightarrow> params \<Rightarrow> string \<Rightarrow> int \<Rightarrow> string \<Rightarrow> string \<Rightarrow> string \<Rightarrow> f64 \<Rightarrow> create_record result" where
  "create_record_new now sid params owner epoch idempotency_key ha restart_policy created_at =
     rbind (non_empty_string sid) (\<lambda>sid.
     rbind (non_empty_string owner) (\<lambda>owner.
     rbind (non_empty_string idempotency_key) (\<lambda>idempotency_key.
       if ha \<notin> set ALLOWED_HA then Inl Invalid
       else Inr \<lparr>cr_sid = sid, cr_params = params, cr_owner = owner, cr_epoch = epoch,
                 cr_incarnation_epoch = epoch, cr_idempotency_key = idempotency_key, cr_ha = ha,
                 cr_restart_policy = restart_policy,
                 cr_created_at = (if f64_is_finite created_at then created_at else now)\<rparr>)))"

definition to_wire_map :: "create_record \<Rightarrow> params" where
  "to_wire_map r = [
     ''sid'' \<mapsto> JString (cr_sid r),
     ''params'' \<mapsto> JObject (cr_params r),
     ''owner'' \<mapsto> JString (cr_owner r),
     ''epoch'' \<mapsto> JNumber (number_of_i64 (cr_epoch r)),
     ''incarnation_epoch'' \<mapsto> JNumber (number_of_i64 (cr_incarnation_epoch r)),
     ''idempotency_key'' \<mapsto> JString (cr_idempotency_key r),
     ''ha'' \<mapsto> JString (cr_ha r),
     ''restart_policy'' \<mapsto> JString (cr_restart_policy r),
     ''created_at'' \<mapsto> json_f64 (cr_created_at r)]"

definition to_wire :: "create_record \<Rightarrow> json" where
  "to_wire r = JObject (to_wire_map r)"

definition from_wire_map :: "(json_number \<Rightarrow> string) \<Rightarrow> f64 \<Rightarrow> params \<Rightarrow> create_record result" where
  "from_wire_map num_str now data =
     rbind (required_string data ''sid'') (\<lambda>sid.
     rbind (case Option.bind (data ''params'') as_object of None \<Rightarrow> Inl Invalid | Some p \<Rightarrow> Inr p) (\<lambda>params.
     rbind (required_string data ''owner'') (\<lambda>owner.
     rbind (required_string data ''idempotency_key'') (\<lambda>idempotency_key.
       let ha = optional_string num_str (data ''ha'') ''off'';
           restart_policy = optional_string num_str (data ''restart_policy'') (restart_policy_for_ha ha);
           epoch = (case Option.bind (data ''epoch'') as_i64 of None \<Rightarrow> 0 | Some e \<Rightarrow> e);
           created_at = (case Option.bind (data ''created_at'') as_f64 of None \<Rightarrow> F_Fin 0 | Some t \<Rightarrow> t);
           incarnation = (case Option.bind (data ''incarnation_epoch'') as_i64 of None \<Rightarrow> epoch | Some e \<Rightarrow> e)
       in rbind (create_record_new now sid params owner epoch idempotency_key ha restart_policy created_at)
            (\<lambda>r. Inr (r\<lparr>cr_incarnation_epoch := incarnation\<rparr>))))))"

definition from_wire :: "(json_number \<Rightarrow> string) \<Rightarrow> f64 \<Rightarrow> json \<Rightarrow> create_record result" where
  "from_wire num_str now data = (case as_object data of
     None \<Rightarrow> Inl Invalid
   | Some obj \<Rightarrow> from_wire_map num_str now obj)"

definition make_create_record ::
  "(json_number \<Rightarrow> string) \<Rightarrow> f64 \<Rightarrow> string \<Rightarrow> string \<Rightarrow> int \<Rightarrow> string \<Rightarrow> params \<Rightarrow> string \<Rightarrow> create_record result" where
  "make_create_record num_str now sid owner epoch idempotency_key params kind =
     (let p = params(''idempotency_key'' := None, ''_kind'' \<mapsto> JString kind);
          ha = optional_string num_str (p ''ha'') ''off'';
          restart_policy = optional_string num_str (p ''restart_policy'') (restart_policy_for_ha ha);
          p' = p(''restart_policy'' \<mapsto> JString restart_policy)
      in create_record_new now sid p' owner epoch idempotency_key ha restart_policy now)"

section \<open>Handoff and secret fields\<close>

definition validate_handoff :: "string \<Rightarrow> string \<Rightarrow> int \<Rightarrow> string \<Rightarrow> string \<Rightarrow> bool" where
  "validate_handoff sid source epoch target token \<longleftrightarrow>
     \<not> (sid = [] \<or> source = [] \<or> target = [] \<or> token = [] \<or> epoch < 0)"

definition handoff_fields :: "string list" where
  "handoff_fields = [HANDOFF_TARGET_FIELD, HANDOFF_TOKEN_FIELD, HANDOFF_STATE_FIELD,
     HANDOFF_SOURCE_FIELD, HANDOFF_CLAIMED_FIELD]"

definition migration_committed :: "params \<Rightarrow> bool" where
  "migration_committed p \<longleftrightarrow> Option.bind (p MIGRATION_COMMITTED_FIELD) as_bool = Some True"

definition handoff_present :: "params \<Rightarrow> bool" where
  "handoff_present p \<longleftrightarrow> list_ex (\<lambda>key. p key \<noteq> None) handoff_fields"

definition handoff_matches :: "params \<Rightarrow> string \<Rightarrow> string \<Rightarrow> string \<Rightarrow> bool" where
  "handoff_matches p source target token \<longleftrightarrow>
     Option.bind (p HANDOFF_SOURCE_FIELD) as_str = Some source \<and>
     Option.bind (p HANDOFF_TARGET_FIELD) as_str = Some target \<and>
     Option.bind (p HANDOFF_TOKEN_FIELD) as_str = Some token"

definition handoff_state :: "params \<Rightarrow> string option" where
  "handoff_state p = Option.bind (p HANDOFF_STATE_FIELD) as_str"

definition handoff_claimed :: "params \<Rightarrow> bool" where
  "handoff_claimed p \<longleftrightarrow> Option.bind (p HANDOFF_CLAIMED_FIELD) as_bool = Some True"

definition set_handoff :: "params \<Rightarrow> string \<Rightarrow> string \<Rightarrow> string \<Rightarrow> string \<Rightarrow> bool \<Rightarrow> params" where
  "set_handoff p source target token state claimed = p(
     HANDOFF_SOURCE_FIELD \<mapsto> JString source,
     HANDOFF_TARGET_FIELD \<mapsto> JString target,
     HANDOFF_TOKEN_FIELD \<mapsto> JString token,
     HANDOFF_STATE_FIELD \<mapsto> JString state,
     HANDOFF_CLAIMED_FIELD \<mapsto> JBool claimed)"

definition clear_handoff :: "params \<Rightarrow> params" where
  "clear_handoff p = fold (\<lambda>key p. p(key := None)) handoff_fields p"

definition split_secrets :: "params \<Rightarrow> params \<times> json option" where
  "split_secrets p = (p(''secrets'' := None),
     (case p ''secrets'' of None \<Rightarrow> None | Some JNull \<Rightarrow> None | Some v \<Rightarrow> Some v))"

record cached_secrets =
  cs_incarnation_epoch :: int
  cs_value :: json

record record_store =
  rs_disk :: "string \<Rightarrow> json option"
  rs_meta :: "string \<Rightarrow> create_record option"
  rs_secrets :: "string \<Rightarrow> cached_secrets option"

definition secret_values :: "record_store \<Rightarrow> create_record \<Rightarrow> json option" where
  "secret_values st r = (case rs_secrets st (cr_sid r) of
     None \<Rightarrow> None
   | Some cached \<Rightarrow> if cs_incarnation_epoch cached = cr_incarnation_epoch r then Some (cs_value cached) else None)"

definition with_secrets :: "record_store \<Rightarrow> create_record \<Rightarrow> create_record" where
  "with_secrets st r = (case secret_values st r of
     None \<Rightarrow> r
   | Some v \<Rightarrow> r\<lparr>cr_params := (cr_params r)(''secrets'' \<mapsto> v)\<rparr>)"

definition store_secrets :: "record_store \<Rightarrow> create_record \<Rightarrow> json option \<Rightarrow> record_store" where
  "store_secrets st r secrets = (case secrets of
     Some v \<Rightarrow> st\<lparr>rs_secrets := (rs_secrets st)(cr_sid r \<mapsto>
       \<lparr>cs_incarnation_epoch = cr_incarnation_epoch r, cs_value = v\<rparr>)\<rparr>
   | None \<Rightarrow> (case rs_secrets st (cr_sid r) of
       None \<Rightarrow> st
     | Some cached \<Rightarrow>
         if cs_incarnation_epoch cached \<noteq> cr_incarnation_epoch r
         then st\<lparr>rs_secrets := (rs_secrets st)(cr_sid r := None)\<rparr> else st))"

text \<open>\<^verbatim>\<open>write_record\<close> replaces the file atomically; \<^verbatim>\<open>persist_meta\<close> writes it, then the map.\<close>

definition write_record :: "bool \<Rightarrow> record_store \<Rightarrow> string \<Rightarrow> json \<Rightarrow> record_store result" where
  "write_record wr st sid v = (if wr then Inr (st\<lparr>rs_disk := (rs_disk st)(sid \<mapsto> v)\<rparr>) else Inl Engine)"

definition persist_meta :: "bool \<Rightarrow> record_store \<Rightarrow> create_record \<Rightarrow> record_store result" where
  "persist_meta wr st r = rbind (write_record wr st (cr_sid r) (to_wire r))
     (\<lambda>st. Inr (st\<lparr>rs_meta := (rs_meta st)(cr_sid r \<mapsto> r)\<rparr>))"

section \<open>The store\<close>

definition record_store_new :: record_store where
  "record_store_new = \<lparr>rs_disk = (\<lambda>_. None), rs_meta = (\<lambda>_. None), rs_secrets = (\<lambda>_. None)\<rparr>"

text \<open>
  \<^verbatim>\<open>load\<close>: \<open>entries\<close> are the values of the readable and parsable files of the directory, in
  directory order, or \<open>None\<close> when the directory cannot be read.
\<close>

definition load_one :: "(json_number \<Rightarrow> string) \<Rightarrow> f64 \<Rightarrow> json \<Rightarrow> record_store \<Rightarrow> record_store" where
  "load_one num_str now v st = (case from_wire num_str now v of
     Inl _ \<Rightarrow> st
   | Inr r \<Rightarrow> let r' = r\<lparr>cr_params := fst (split_secrets (cr_params r))\<rparr>
              in st\<lparr>rs_meta := (rs_meta st)(cr_sid r' \<mapsto> r')\<rparr>)"

definition record_load ::
  "(json_number \<Rightarrow> string) \<Rightarrow> f64 \<Rightarrow> json list option \<Rightarrow> record_store \<Rightarrow> record_store" where
  "record_load num_str now entries st =
     (let st' = st\<lparr>rs_meta := (\<lambda>_. None), rs_secrets := (\<lambda>_. None)\<rparr>
      in case entries of None \<Rightarrow> st' | Some vs \<Rightarrow> fold (load_one num_str now) vs st')"

definition record_put :: "bool \<Rightarrow> create_record \<Rightarrow> record_store \<Rightarrow> record_store \<times> unit result" where
  "record_put wr r st =
     (let (clean, secrets) = split_secrets (cr_params r); r = r\<lparr>cr_params := clean\<rparr>
      in case write_record wr st (cr_sid r) (to_wire r) of
           Inl e \<Rightarrow> (st, Inl e)
         | Inr st1 \<Rightarrow> let st2 = store_secrets st1 r secrets
             in (st2\<lparr>rs_meta := (rs_meta st2)(cr_sid r \<mapsto> r)\<rparr>, Inr ()))"

definition copy_handoff :: "params \<Rightarrow> params \<Rightarrow> params" where
  "copy_handoff from to = fold (\<lambda>key p. case from key of None \<Rightarrow> p | Some v \<Rightarrow> p(key \<mapsto> v)) handoff_fields to"

definition put_if_newer :: "bool \<Rightarrow> create_record \<Rightarrow> record_store \<Rightarrow> record_store \<times> bool result" where
  "put_if_newer wr r st =
     (let existing = rs_meta st (cr_sid r) in
      if (case existing of None \<Rightarrow> False | Some ex \<Rightarrow> cr_epoch r < cr_epoch ex) then (st, Inr False)
      else
        let p = clear_handoff (cr_params r);
            p' = (case existing of
                None \<Rightarrow> p
              | Some ex \<Rightarrow>
                  if cr_owner r = cr_owner ex \<and> cr_epoch r = cr_epoch ex
                  then (if migration_committed (cr_params ex) \<and> \<not> migration_committed p
                        then cr_params ex else copy_handoff (cr_params ex) p)
                  else p);
            (clean, secrets) = split_secrets p';
            r' = r\<lparr>cr_params := clean\<rparr>
        in case persist_meta wr st r' of
             Inl e \<Rightarrow> (st, Inl e)
           | Inr st1 \<Rightarrow> (store_secrets st1 r' secrets, Inr True))"

definition record_get :: "string \<Rightarrow> record_store \<Rightarrow> create_record option" where
  "record_get sid st = map_option (with_secrets st) (rs_meta st sid)"

definition remember_secrets :: "create_record \<Rightarrow> json option \<Rightarrow> record_store \<Rightarrow> record_store" where
  "remember_secrets r secrets st = store_secrets st r secrets"

definition attach_secrets :: "create_record \<Rightarrow> record_store \<Rightarrow> create_record" where
  "attach_secrets r st = with_secrets st r"

definition forget_secrets :: "string \<Rightarrow> record_store \<Rightarrow> record_store" where
  "forget_secrets sid st = st\<lparr>rs_secrets := (rs_secrets st)(sid := None)\<rparr>"

definition update_owner ::
  "bool \<Rightarrow> string \<Rightarrow> string \<Rightarrow> int \<Rightarrow> record_store \<Rightarrow> record_store \<times> create_record option result" where
  "update_owner wr sid owner epoch st = (case record_get sid st of
     None \<Rightarrow> (st, Inr None)
   | Some r \<Rightarrow> let r' = r\<lparr>cr_owner := owner, cr_epoch := epoch\<rparr> in
       (case record_put wr r' st of (st', Inl e) \<Rightarrow> (st', Inl e) | (st', Inr _) \<Rightarrow> (st', Inr (Some r'))))"

fun is_object :: "json \<Rightarrow> bool" where
  "is_object (JObject _) = True"
| "is_object _ = False"

definition persist_returning :: "bool \<Rightarrow> create_record \<Rightarrow> record_store \<Rightarrow> record_store \<times> create_record result" where
  "persist_returning wr r st = (case persist_meta wr st r of
     Inl e \<Rightarrow> (st, Inl e)
   | Inr st' \<Rightarrow> (st', Inr (with_secrets st' r)))"

definition claim_restore_pending ::
  "bool \<Rightarrow> string \<Rightarrow> string \<Rightarrow> int \<Rightarrow> string \<Rightarrow> json \<Rightarrow> record_store \<Rightarrow> record_store \<times> create_record result" where
  "claim_restore_pending wr sid expected_owner expected_epoch new_owner pending st =
     (if sid = [] \<or> expected_owner = [] \<or> new_owner = [] \<or> expected_epoch < 0 \<or> \<not> is_object pending
      then (st, Inl Invalid)
      else case rs_meta st sid of
        None \<Rightarrow> (st, Inl NotFound)
      | Some r \<Rightarrow>
          if cr_owner r = new_owner \<and> cr_params r ''_mesh_restore_pending'' = Some pending
          then (st, Inr (with_secrets st r))
          else if cr_owner r \<noteq> expected_owner \<or> cr_epoch r \<noteq> expected_epoch then (st, Inl Busy)
          else if (case cr_params r ''_mesh_restore_pending'' of None \<Rightarrow> False | Some ex \<Rightarrow> ex \<noteq> pending)
          then (st, Inl Invalid)
          else case checked_add_i64 (cr_epoch r) 1 of
            None \<Rightarrow> (st, Inl Invalid)
          | Some e \<Rightarrow> persist_returning wr
              (r\<lparr>cr_epoch := e, cr_owner := new_owner,
                 cr_params := (cr_params r)(''_mesh_restore_pending'' \<mapsto> pending)\<rparr>) st)"

definition renew_restore_pending :: "string \<Rightarrow> string \<Rightarrow> int \<Rightarrow> record_store \<Rightarrow> bool" where
  "renew_restore_pending sid owner epoch st = (case rs_meta st sid of
     None \<Rightarrow> False
   | Some r \<Rightarrow> cr_owner r = owner \<and> cr_epoch r = epoch \<and> cr_params r ''_mesh_restore_pending'' \<noteq> None)"

definition commit_restore_pending ::
  "bool \<Rightarrow> string \<Rightarrow> string \<Rightarrow> int \<Rightarrow> params \<Rightarrow> string \<Rightarrow> string \<Rightarrow> record_store \<Rightarrow> record_store \<times> create_record result" where
  "commit_restore_pending wr sid owner epoch params ha restart_policy st =
     (let (p0, secrets) = split_secrets params;
          p = fold (\<lambda>field p. p(field := None))
                [''_mesh_restore_pending'', ''_mesh_rollback_pending'', ''restore_pending'',
                 ''rollback_pending'', ''_mesh_lifecycle_operation''] p0
      in case rs_meta st sid of
           None \<Rightarrow> (st, Inl NotFound)
         | Some r \<Rightarrow>
             if cr_owner r \<noteq> owner \<or> cr_epoch r \<noteq> epoch then (st, Inl Busy)
             else let r' = r\<lparr>cr_params := p, cr_ha := ha, cr_restart_policy := restart_policy\<rparr>
               in case persist_meta wr st r' of
                    Inl e \<Rightarrow> (st, Inl e)
                  | Inr st1 \<Rightarrow> let st2 = store_secrets st1 r' secrets in (st2, Inr (with_secrets st2 r')))"

definition release_restore_claim ::
  "bool \<Rightarrow> string \<Rightarrow> string \<Rightarrow> int \<Rightarrow> string \<Rightarrow> int \<Rightarrow> record_store \<Rightarrow> record_store \<times> create_record option result" where
  "release_restore_claim wr sid owner epoch previous_owner previous_epoch st =
     (if owner = [] \<or> previous_owner = [] \<or> epoch < 0 \<or> previous_epoch < 0 then (st, Inl Invalid)
      else case checked_add_i64 (max previous_epoch epoch) 1 of
        None \<Rightarrow> (st, Inl Invalid)
      | Some restored_epoch \<Rightarrow> (case rs_meta st sid of
          None \<Rightarrow> (st, Inr None)
        | Some r \<Rightarrow>
            if cr_owner r \<noteq> owner \<or> cr_epoch r \<noteq> epoch \<or> cr_params r ''_mesh_restore_pending'' = None
            then (st, Inr None)
            else (case persist_returning wr
                    (r\<lparr>cr_params := (cr_params r)(''_mesh_restore_pending'' := None),
                       cr_owner := previous_owner, cr_epoch := restored_epoch\<rparr>) st of
                    (st', Inl e) \<Rightarrow> (st', Inl e)
                  | (st', Inr r') \<Rightarrow> (st', Inr (Some r')))))"

section \<open>Migration handoffs\<close>

definition begin_migration_handoff ::
  "bool \<Rightarrow> string \<Rightarrow> string \<Rightarrow> int \<Rightarrow> string \<Rightarrow> string \<Rightarrow> record_store \<Rightarrow> record_store \<times> unit result" where
  "begin_migration_handoff wr sid source epoch target token st =
     (if \<not> validate_handoff sid source epoch target token then (st, Inl Invalid)
      else case rs_meta st sid of
        None \<Rightarrow> (st, Inl NotFound)
      | Some r \<Rightarrow> (case checked_add_i64 epoch 1 of
          None \<Rightarrow> (st, Inl Invalid)
        | Some target_epoch \<Rightarrow>
            if cr_owner r = target \<and> cr_epoch r = target_epoch \<and>
               handoff_matches (cr_params r) source target token \<and>
               handoff_state (cr_params r) = Some ''active'' \<and> handoff_claimed (cr_params r)
            then (st, Inr ())
            else if cr_owner r \<noteq> source \<or> cr_epoch r \<noteq> epoch then (st, Inl Invalid)
            else if handoff_present (cr_params r)
            then (if handoff_matches (cr_params r) source target token \<and>
                     handoff_state (cr_params r) = Some ''active''
                  then (st, Inr ()) else (st, Inl Busy))
            else case persist_meta wr st
                   (r\<lparr>cr_params := set_handoff (cr_params r) source target token ''active'' False\<rparr>) of
                 Inl e \<Rightarrow> (st, Inl e) | Inr st' \<Rightarrow> (st', Inr ())))"

definition confirm_migration_handoff ::
  "bool \<Rightarrow> string \<Rightarrow> string \<Rightarrow> int \<Rightarrow> string \<Rightarrow> int \<Rightarrow> string \<Rightarrow> record_store \<Rightarrow> record_store \<times> unit result" where
  "confirm_migration_handoff wr sid source source_epoch target target_epoch token st =
     (if \<not> validate_handoff sid source source_epoch target token then (st, Inl Invalid)
      else if checked_add_i64 source_epoch 1 \<noteq> Some target_epoch then (st, Inl Invalid)
      else case rs_meta st sid of
        None \<Rightarrow> (st, Inl NotFound)
      | Some r \<Rightarrow>
          if cr_owner r = target \<and> cr_epoch r = target_epoch \<and>
             handoff_matches (cr_params r) source target token \<and> handoff_claimed (cr_params r)
          then (st, Inr ())
          else if cr_owner r \<noteq> source \<or> cr_epoch r \<noteq> source_epoch \<or>
             \<not> handoff_matches (cr_params r) source target token \<or>
             handoff_state (cr_params r) \<noteq> Some ''active''
          then (st, Inl Invalid)
          else case persist_meta wr st
                 (r\<lparr>cr_params := (cr_params r)(HANDOFF_CLAIMED_FIELD \<mapsto> JBool True),
                    cr_owner := target, cr_epoch := target_epoch\<rparr>) of
               Inl e \<Rightarrow> (st, Inl e) | Inr st' \<Rightarrow> (st', Inr ()))"

definition claim_migration_handoff ::
  "bool \<Rightarrow> string \<Rightarrow> int \<Rightarrow> string \<Rightarrow> string \<Rightarrow> create_record \<Rightarrow> record_store \<Rightarrow> record_store \<times> create_record result" where
  "claim_migration_handoff wr source source_epoch target token intent st =
     (if \<not> validate_handoff (cr_sid intent) source source_epoch target token then (st, Inl Invalid)
      else case checked_add_i64 source_epoch 1 of
        None \<Rightarrow> (st, Inl Invalid)
      | Some target_epoch \<Rightarrow>
          if cr_owner intent \<noteq> target \<or> cr_epoch intent \<noteq> target_epoch then (st, Inl Invalid)
          else (case rs_meta st (cr_sid intent) of
            None \<Rightarrow> (st, Inl NotFound)
          | Some current \<Rightarrow>
              if cr_owner current = target \<and> cr_epoch current = target_epoch \<and>
                 handoff_matches (cr_params current) source target token \<and> handoff_claimed (cr_params current)
              then (st, Inr (with_secrets st current))
              else if cr_owner current \<noteq> source \<or> cr_epoch current \<noteq> source_epoch then (st, Inl Invalid)
              else if handoff_present (cr_params current) \<and>
                 (\<not> handoff_matches (cr_params current) source target token \<or>
                  handoff_state (cr_params current) \<noteq> Some ''active'')
              then (st, Inl Invalid)
              else let (clean, secrets) =
                         split_secrets (set_handoff (cr_params intent) source target token ''active'' True);
                       intent' = intent\<lparr>cr_params := clean\<rparr>
                in case persist_meta wr st intent' of
                     Inl e \<Rightarrow> (st, Inl e)
                   | Inr st1 \<Rightarrow> let st2 = store_secrets st1 intent' secrets
                       in (st2, Inr (with_secrets st2 intent'))))"

definition abort_migration_handoff ::
  "bool \<Rightarrow> string \<Rightarrow> string \<Rightarrow> int \<Rightarrow> string \<Rightarrow> string \<Rightarrow> record_store \<Rightarrow> record_store \<times> create_record option result" where
  "abort_migration_handoff wr sid source source_epoch target token st =
     (if \<not> validate_handoff sid source source_epoch target token then (st, Inl Invalid)
      else case checked_add_i64 source_epoch 1 of
        None \<Rightarrow> (st, Inl Invalid)
      | Some fresh_epoch \<Rightarrow> (case rs_meta st sid of
          None \<Rightarrow> (st, Inr None)
        | Some r \<Rightarrow>
            if cr_owner r = source \<and> cr_epoch r = fresh_epoch \<and>
               handoff_matches (cr_params r) source target token \<and> handoff_state (cr_params r) = Some ''aborted''
            then (st, Inr (Some (with_secrets st r)))
            else if cr_owner r \<noteq> source \<or> cr_epoch r \<noteq> source_epoch \<or>
               \<not> handoff_matches (cr_params r) source target token \<or>
               handoff_state (cr_params r) \<noteq> Some ''active'' \<or> handoff_claimed (cr_params r)
            then (st, Inr None)
            else (case persist_returning wr
                    (r\<lparr>cr_epoch := fresh_epoch,
                       cr_params := (cr_params r)(HANDOFF_STATE_FIELD \<mapsto> JString ''aborted'')\<rparr>) st of
                    (st', Inl e) \<Rightarrow> (st', Inl e)
                  | (st', Inr r') \<Rightarrow> (st', Inr (Some r')))))"

definition complete_migration_abort ::
  "bool \<Rightarrow> string \<Rightarrow> string \<Rightarrow> string \<Rightarrow> int \<Rightarrow> record_store \<Rightarrow> record_store \<times> create_record result" where
  "complete_migration_abort wr sid token owner fresh_epoch st = (case rs_meta st sid of
     None \<Rightarrow> (st, Inl Busy)
   | Some r \<Rightarrow>
       if cr_owner r \<noteq> owner \<or> cr_epoch r \<noteq> fresh_epoch \<or>
          handoff_state (cr_params r) \<noteq> Some ''aborted'' \<or>
          Option.bind (cr_params r HANDOFF_TOKEN_FIELD) as_str \<noteq> Some token
       then (st, Inl Busy)
       else persist_returning wr (r\<lparr>cr_params := clear_handoff (cr_params r)\<rparr>) st)"

definition record_list :: "record_store \<Rightarrow> create_record list" where
  "record_list st = List.map_filter (\<lambda>sid. record_get sid st) (sorted_list_of_set (dom (rs_meta st)))"

definition record_remove :: "bool \<Rightarrow> string \<Rightarrow> record_store \<Rightarrow> record_store \<times> unit result" where
  "record_remove rm sid st =
     (if rm then (st\<lparr>rs_disk := (rs_disk st)(sid := None), rs_meta := (rs_meta st)(sid := None),
                     rs_secrets := (rs_secrets st)(sid := None)\<rparr>, Inr ())
      else (st, Inl Engine))"

definition record_contains :: "string \<Rightarrow> record_store \<Rightarrow> bool" where
  "record_contains sid st = (rs_meta st sid \<noteq> None)"

end
