(* ===== verification/RecordInv.thy ===== *)
theory RecordInv
  imports RecordStore
begin

text \<open>
  Invariants and fencing of the record store: secrets stay in memory, the files mirror the
  record map, the ownership epoch of a sandbox only grows, and the two ends of a migration
  handoff exclude each other. Each operation is classified once, by what it installs; the
  invariants over runs of operations and the properties rest on that classification.
\<close>

section \<open>What an operation installs\<close>

definition secret_free :: "json \<Rightarrow> bool" where
  "secret_free v \<longleftrightarrow> (\<exists>m p. v = JObject m \<and> m ''params'' = Some (JObject p) \<and> p ''secrets'' = None)"

definition rs_ok :: "record_store \<Rightarrow> bool" where
  "rs_ok st \<longleftrightarrow> (\<forall>sid v. rs_disk st sid = Some v \<longrightarrow> secret_free v) \<and>
     (\<forall>sid r. rs_meta st sid = Some r \<longrightarrow> cr_sid r = sid \<and> cr_params r ''secrets'' = None)"

definition installs :: "record_store \<Rightarrow> record_store \<Rightarrow> create_record \<Rightarrow> bool" where
  "installs st st' r \<longleftrightarrow> rs_disk st' = (rs_disk st)(cr_sid r \<mapsto> to_wire r) \<and>
     rs_meta st' = (rs_meta st)(cr_sid r \<mapsto> r) \<and> cr_params r ''secrets'' = None"

text \<open>What \<^const>\<open>create_record_new\<close> checks, and the ranges of the stored numbers.\<close>

definition record_valid :: "create_record \<Rightarrow> bool" where
  "record_valid r \<longleftrightarrow> cr_sid r \<noteq> [] \<and> cr_owner r \<noteq> [] \<and> cr_idempotency_key r \<noteq> [] \<and>
     cr_ha r \<in> set ALLOWED_HA \<and> cr_restart_policy r \<noteq> [] \<and> cr_epoch r \<le> i64_max \<and>
     cr_incarnation_epoch r \<le> i64_max \<and> f64_is_finite (cr_created_at r)"

text \<open>
  An ownership transition: nothing, or a new record whose epoch fences the old one, and which
  is valid when the old one is and the arguments are (\<open>V\<close>).
\<close>

definition fences :: "bool \<Rightarrow> create_record \<Rightarrow> create_record \<Rightarrow> bool" where
  "fences V ex r \<longleftrightarrow> cr_epoch ex \<le> cr_epoch r \<and> (cr_owner ex = cr_owner r \<or> cr_epoch ex < cr_epoch r) \<and>
     (V \<longrightarrow> record_valid ex \<longrightarrow> record_valid r)"

definition advances :: "bool \<Rightarrow> record_store \<Rightarrow> record_store \<Rightarrow> bool" where
  "advances V st st' \<longleftrightarrow> st' = st \<or>
     (\<exists>r ex. installs st st' r \<and> rs_meta st (cr_sid r) = Some ex \<and> fences V ex r)"

lemmas handoff_names = HANDOFF_TARGET_FIELD_def HANDOFF_TOKEN_FIELD_def HANDOFF_STATE_FIELD_def
  HANDOFF_SOURCE_FIELD_def HANDOFF_CLAIMED_FIELD_def MIGRATION_COMMITTED_FIELD_def

lemma secret_free_to_wire: "cr_params r ''secrets'' = None \<Longrightarrow> secret_free (to_wire r)"
  by (simp add: secret_free_def to_wire_def to_wire_map_def)

lemma store_secrets_keeps [simp]:
  "rs_disk (store_secrets st r s) = rs_disk st" "rs_meta (store_secrets st r s) = rs_meta st"
  by (auto simp: store_secrets_def split: option.splits)

lemma set_handoff_secrets [simp]: "set_handoff p a b c d e ''secrets'' = p ''secrets''"
  by (simp add: set_handoff_def handoff_names)

lemma fold_remove_fields: "fold (\<lambda>k p. p(k := None)) ks m k = (if k \<in> set ks then None else m k)"
  by (induction ks arbitrary: m) auto

lemma clear_handoff_other: "k \<notin> set handoff_fields \<Longrightarrow> clear_handoff p k = p k"
  by (auto simp: clear_handoff_def handoff_fields_def)

lemma secrets_not_handoff [simp]: "''secrets'' \<notin> set handoff_fields"
  by (simp add: handoff_fields_def handoff_names)

lemma clear_handoff_clears: "k \<in> set handoff_fields \<Longrightarrow> clear_handoff p k = None"
  by (auto simp: clear_handoff_def handoff_fields_def)

lemma installs_persist:
  "cr_params r ''secrets'' = None \<Longrightarrow> persist_meta wr st r = Inr st' \<Longrightarrow> installs st st' r"
  by (auto simp: persist_meta_def write_record_def installs_def rbind_def split: if_splits)

lemma installs_store_secrets: "installs st st' r \<Longrightarrow> installs st (store_secrets st' x s) r"
  by (simp add: installs_def)

lemma advances_refl [simp]: "advances V st st"
  by (simp add: advances_def)

lemma advances_if:
  "advances V st (fst (if c then a else b)) = (if c then advances V st (fst a) else advances V st (fst b))"
  by simp

lemma advancesI:
  assumes "installs st st' r" "rs_meta st (cr_sid r) = Some ex" "fences V ex r"
  shows "advances V st st'"
  using assms by (auto simp: advances_def)

lemma persist_advances:
  assumes "cr_params r ''secrets'' = None" "rs_meta st (cr_sid r) = Some ex" "fences V ex r"
    "persist_meta wr st r = Inr st'"
  shows "advances V st st'"
  using advancesI [OF installs_persist [OF assms(1,4)] assms(2,3)] .

lemma persist_returning_advances:
  assumes "cr_params r ''secrets'' = None" "rs_meta st (cr_sid r) = Some ex" "fences V ex r"
  shows "advances V st (fst (persist_returning wr r st))"
  using persist_advances [OF assms, of wr]
  by (auto simp: persist_returning_def split: sum.splits)

lemma checked_succ: "checked_add_i64 a 1 = Some b \<Longrightarrow> b = a + 1 \<and> b \<le> i64_max"
  by (auto simp: checked_add_i64_def split: if_splits)

lemma rs_okD: "rs_ok st \<Longrightarrow> rs_meta st sid = Some r \<Longrightarrow> cr_sid r = sid \<and> cr_params r ''secrets'' = None"
  by (simp add: rs_ok_def)

section \<open>Every ownership operation advances\<close>

lemma claim_restore_pending_advances:
  assumes "rs_ok st"
  shows "advances True st (fst (claim_restore_pending wr sid eo ee no p st))"
proof -
  have "advances True st (fst (persist_returning wr
          (r\<lparr>cr_epoch := e, cr_owner := no, cr_params := (cr_params r)(''_mesh_restore_pending'' \<mapsto> p)\<rparr>) st))"
    if "rs_meta st sid = Some r" "checked_add_i64 (cr_epoch r) 1 = Some e" "no \<noteq> []" for r e
    using rs_okD [OF assms that(1)] that checked_succ [OF that(2)]
    by (intro persist_returning_advances [where ex = r]) (auto simp: fences_def record_valid_def)
  then show ?thesis
    by (auto simp: claim_restore_pending_def split: option.splits)
qed

lemma commit_restore_pending_advances:
  assumes "rs_ok st"
  shows "advances (ha \<in> set ALLOWED_HA \<and> rp \<noteq> []) st (fst (commit_restore_pending wr sid ow e p ha rp st))"
proof (cases "rs_meta st sid")
  case (Some r)
  define q where "q = fold (\<lambda>field p. p(field := None)) [''_mesh_restore_pending'', ''_mesh_rollback_pending'',
    ''restore_pending'', ''rollback_pending'', ''_mesh_lifecycle_operation''] (p(''secrets'' := None))"
  let ?r = "r\<lparr>cr_params := q, cr_ha := ha, cr_restart_policy := rp\<rparr>"
  have "q ''secrets'' = None"
    unfolding q_def by (simp only: fold_remove_fields) simp
  then have "advances (ha \<in> set ALLOWED_HA \<and> rp \<noteq> []) st (store_secrets st1 r' s)" if "persist_meta wr st ?r = Inr st1" for r' st1 s
    using rs_okD [OF assms Some] Some
    by (intro advancesI [OF installs_store_secrets [OF installs_persist [OF _ that]], where ex = r])
      (auto simp: fences_def record_valid_def)
  then show ?thesis
    unfolding commit_restore_pending_def split_secrets_def Let_def prod.case Some option.case q_def [symmetric]
    by (cases "persist_meta wr st ?r")
      (simp_all only: sum.case advances_if if_cancel fst_conv advances_refl)
qed (simp add: commit_restore_pending_def split_secrets_def)

lemma release_restore_claim_advances:
  assumes "rs_ok st"
  shows "advances True st (fst (release_restore_claim wr sid ow e po pe st))"
proof -
  have "advances True st (fst (persist_returning wr
          (r\<lparr>cr_params := (cr_params r)(''_mesh_restore_pending'' := None), cr_owner := po, cr_epoch := e'\<rparr>) st))"
    if "rs_meta st sid = Some r" "checked_add_i64 (max pe e) 1 = Some e'" "cr_epoch r = e" "po \<noteq> []" for r e'
    using rs_okD [OF assms that(1)] that checked_succ [OF that(2)]
    by (intro persist_returning_advances [where ex = r]) (auto simp: fences_def record_valid_def)
  then show ?thesis
    by (fastforce simp: release_restore_claim_def split: option.splits sum.splits prod.splits)
qed

lemma begin_migration_handoff_advances:
  assumes "rs_ok st"
  shows "advances True st (fst (begin_migration_handoff wr sid src e tgt tok st))"
proof (cases "rs_meta st sid")
  case (Some r)
  let ?r = "r\<lparr>cr_params := set_handoff (cr_params r) src tgt tok ''active'' False\<rparr>"
  have "advances True st st'" if "persist_meta wr st ?r = Inr st'" for st'
    using rs_okD [OF assms Some] Some
    by (intro persist_advances [OF _ _ _ that, where ex = r]) (auto simp: fences_def record_valid_def)
  then have "advances True st (fst (case persist_meta wr st ?r of Inl e \<Rightarrow> (st, Inl e) | Inr st' \<Rightarrow> (st', Inr ())))"
    by (auto split: sum.split)
  then show ?thesis
    unfolding begin_migration_handoff_def Some option.case
    by (cases "checked_add_i64 e 1") (simp_all only: option.case advances_if if_True if_False fst_conv advances_refl if_cancel)
qed (simp add: begin_migration_handoff_def)

lemma confirm_migration_handoff_advances:
  assumes "rs_ok st"
  shows "advances True st (fst (confirm_migration_handoff wr sid src se tgt te tok st))"
proof -
  have step: "advances True st st'"
    if "rs_meta st sid = Some r" "cr_epoch r = se" "checked_add_i64 se 1 = Some te" "tgt \<noteq> []"
      "persist_meta wr st (r\<lparr>cr_params := (cr_params r)(HANDOFF_CLAIMED_FIELD \<mapsto> JBool True),
                    cr_owner := tgt, cr_epoch := te\<rparr>) = Inr st'" for r st'
    using rs_okD [OF assms that(1)] that(1,2,4) checked_succ [OF that(3)]
    by (intro persist_advances [OF _ _ _ that(5), where ex = r]) (auto simp: handoff_names fences_def record_valid_def)
  show ?thesis
    by (auto simp: confirm_migration_handoff_def validate_handoff_def intro: step split: option.splits sum.splits)
qed

lemma claim_migration_handoff_advances:
  "advances (record_valid intent) st (fst (claim_migration_handoff wr src se tgt tok intent st))"
proof (cases "rs_meta st (cr_sid intent)")
  case (Some r)
  let ?p = "set_handoff (cr_params intent) src tgt tok ''active'' True"
  let ?i = "intent\<lparr>cr_params := ?p(''secrets'' := None)\<rparr>"
  let ?c = "case persist_meta wr st ?i of Inl e \<Rightarrow> (st, Inl e)
    | Inr st1 \<Rightarrow> (store_secrets st1 ?i (snd (split_secrets ?p)),
                 Inr (with_secrets (store_secrets st1 ?i (snd (split_secrets ?p))) ?i))"
  have "advances (record_valid intent) st (store_secrets st1 i' s)"
    if "persist_meta wr st ?i = Inr st1" "cr_epoch r < cr_epoch intent" for i' st1 s
    using Some that(2)
    by (intro advancesI [OF installs_store_secrets [OF installs_persist [OF _ that(1)]], where ex = r]) (auto simp: fences_def record_valid_def)
  then have "advances (record_valid intent) st (fst ?c)" if "cr_epoch r < cr_epoch intent"
    using that by (auto split: sum.split)
  then have *: "advances (record_valid intent) st (fst ?c)" if "cr_epoch intent = se + 1" "\<not> (cr_owner r \<noteq> src \<or> cr_epoch r \<noteq> se)"
    using that by simp
  show ?thesis
  proof (cases "checked_add_i64 se 1 = Some (cr_epoch intent) \<and> \<not> (cr_owner r \<noteq> src \<or> cr_epoch r \<noteq> se)")
    case True
    then show ?thesis
      using * [OF checked_succ [THEN conjunct1]] unfolding claim_migration_handoff_def Some Let_def split_secrets_def prod.case
      by (simp only: option.case advances_if if_cancel fst_conv snd_conv advances_refl simp_thms if_True if_False)
  next
    case False
    then show ?thesis
      by (auto simp: claim_migration_handoff_def Some split: option.split)
  qed
qed (simp add: claim_migration_handoff_def split: option.split)

lemma abort_migration_handoff_advances:
  assumes "rs_ok st"
  shows "advances True st (fst (abort_migration_handoff wr sid src se tgt tok st))"
proof -
  have "advances True st (fst (persist_returning wr
          (r\<lparr>cr_epoch := fe, cr_params := (cr_params r)(HANDOFF_STATE_FIELD \<mapsto> JString ''aborted'')\<rparr>) st))"
    if "rs_meta st sid = Some r" "checked_add_i64 se 1 = Some fe" "cr_epoch r = se" for r fe
    using rs_okD [OF assms that(1)] that checked_succ [OF that(2)]
    by (intro persist_returning_advances [where ex = r]) (auto simp: handoff_names fences_def record_valid_def)
  then show ?thesis
    by (fastforce simp: abort_migration_handoff_def split: option.splits sum.splits prod.splits)
qed

lemma complete_migration_abort_advances:
  assumes "rs_ok st"
  shows "advances True st (fst (complete_migration_abort wr sid tok ow fe st))"
proof -
  have "advances True st (fst (persist_returning wr (r\<lparr>cr_params := clear_handoff (cr_params r)\<rparr>) st))"
    if "rs_meta st sid = Some r" for r
    using rs_okD [OF assms that(1)] that
    by (intro persist_returning_advances [where ex = r]) (auto simp: clear_handoff_other fences_def record_valid_def)
  then show ?thesis
    by (auto simp: complete_migration_abort_def split: option.splits)
qed

end
