(* ===== verification/RecordRuns.thy ===== *)
theory RecordRuns
  imports RecordInv
begin

text \<open>
  Runs of the record store. \<open>record_op\<close> names the mutating operations of
  \<^verbatim>\<open>RecordStore\<close>; \<open>record_step\<close> runs one of them. The reachable stores are those the
  operations build from the empty store, with restarts that drop the memory and read the files
  again. The properties are invariants of these runs, by induction over them.
\<close>

section \<open>Operations and runs\<close>

datatype record_op =
    OpPut bool create_record
  | OpPutIfNewer bool create_record
  | OpRemember create_record "json option"
  | OpForget string
  | OpUpdateOwner bool string string int
  | OpClaimRestore bool string string int string json
  | OpCommitRestore bool string string int params string string
  | OpReleaseRestore bool string string int string int
  | OpBegin bool string string int string string
  | OpConfirm bool string string int string int string
  | OpClaim bool string int string string create_record
  | OpAbort bool string string int string string
  | OpCompleteAbort bool string string string int
  | OpRemove bool string

fun record_step :: "record_op \<Rightarrow> record_store \<Rightarrow> record_store" where
  "record_step (OpPut wr r) st = fst (record_put wr r st)"
| "record_step (OpPutIfNewer wr r) st = fst (put_if_newer wr r st)"
| "record_step (OpRemember r s) st = remember_secrets r s st"
| "record_step (OpForget sid) st = forget_secrets sid st"
| "record_step (OpUpdateOwner wr sid ow e) st = fst (update_owner wr sid ow e st)"
| "record_step (OpClaimRestore wr sid eo ee no p) st = fst (claim_restore_pending wr sid eo ee no p st)"
| "record_step (OpCommitRestore wr sid ow e p ha rp) st = fst (commit_restore_pending wr sid ow e p ha rp st)"
| "record_step (OpReleaseRestore wr sid ow e po pe) st = fst (release_restore_claim wr sid ow e po pe st)"
| "record_step (OpBegin wr sid src e tgt tok) st = fst (begin_migration_handoff wr sid src e tgt tok st)"
| "record_step (OpConfirm wr sid src se tgt te tok) st = fst (confirm_migration_handoff wr sid src se tgt te tok st)"
| "record_step (OpClaim wr src se tgt tok i) st = fst (claim_migration_handoff wr src se tgt tok i st)"
| "record_step (OpAbort wr sid src se tgt tok) st = fst (abort_migration_handoff wr sid src se tgt tok st)"
| "record_step (OpCompleteAbort wr sid tok ow fe) st = fst (complete_migration_abort wr sid tok ow fe st)"
| "record_step (OpRemove rm sid) st = fst (record_remove rm sid st)"

text \<open>The operations that overwrite or drop a record without comparing epochs.\<close>

fun unfenced :: "record_op \<Rightarrow> bool" where
  "unfenced (OpPut _ _) = True"
| "unfenced (OpUpdateOwner _ _ _ _) = True"
| "unfenced (OpRemove _ _) = True"
| "unfenced _ = False"

text \<open>What an operation can do to the files and the map.\<close>

definition same_records :: "record_store \<Rightarrow> record_store \<Rightarrow> bool" where
  "same_records st st' \<longleftrightarrow> rs_disk st' = rs_disk st \<and> rs_meta st' = rs_meta st"

definition drops :: "record_store \<Rightarrow> record_store \<Rightarrow> string \<Rightarrow> bool" where
  "drops st st' sid \<longleftrightarrow> rs_disk st' = (rs_disk st)(sid := None) \<and> rs_meta st' = (rs_meta st)(sid := None)"

lemma record_put_installs:
  "same_records st (fst (record_put wr r st)) \<or>
   installs st (fst (record_put wr r st)) (r\<lparr>cr_params := (cr_params r)(''secrets'' := None)\<rparr>)"
  by (cases wr) (auto simp: record_put_def split_secrets_def write_record_def same_records_def installs_def Let_def)

lemma update_owner_installs:
  assumes "rs_ok st"
  shows "same_records st (fst (update_owner wr sid ow e st)) \<or>
    (\<exists>r. rs_meta st sid = Some r \<and> installs st (fst (update_owner wr sid ow e st)) (r\<lparr>cr_owner := ow, cr_epoch := e\<rparr>))"
proof (cases "rs_meta st sid")
  case (Some r)
  define q where "q = with_secrets st r"
  have q: "q\<lparr>cr_params := (cr_params q)(''secrets'' := None)\<rparr> = r"
    using rs_okD [OF assms Some] by (auto simp: q_def with_secrets_def intro!: create_record.equality split: option.splits)
  have "q\<lparr>cr_owner := ow, cr_epoch := e, cr_params := (cr_params q)(''secrets'' := None)\<rparr> = r\<lparr>cr_owner := ow, cr_epoch := e\<rparr>"
    by (simp only: q [symmetric]) simp
  moreover have "fst (update_owner wr sid ow e st) = fst (record_put wr (q\<lparr>cr_owner := ow, cr_epoch := e\<rparr>) st)"
    by (auto simp: update_owner_def record_get_def Some q_def Let_def split: prod.splits sum.splits)
  ultimately show ?thesis
    using record_put_installs [of st wr "q\<lparr>cr_owner := ow, cr_epoch := e\<rparr>"] Some by auto
qed (simp add: update_owner_def record_get_def same_records_def)

lemma put_if_newer_installs:
  "same_records st (fst (put_if_newer wr r st)) \<or>
   (\<exists>p. installs st (fst (put_if_newer wr r st)) (r\<lparr>cr_params := p\<rparr>) \<and>
      (\<forall>ex. rs_meta st (cr_sid r) = Some ex \<longrightarrow> cr_epoch ex \<le> cr_epoch r))"
proof -
  let ?q = "let p = clear_handoff (cr_params r) in case rs_meta st (cr_sid r) of None \<Rightarrow> p
     | Some ex \<Rightarrow> if cr_owner r = cr_owner ex \<and> cr_epoch r = cr_epoch ex
         then (if migration_committed (cr_params ex) \<and> \<not> migration_committed p
               then cr_params ex else copy_handoff (cr_params ex) p) else p"
  define r' where "r' = r\<lparr>cr_params := ?q(''secrets'' := None)\<rparr>"
  consider (older) "(case rs_meta st (cr_sid r) of None \<Rightarrow> False | Some ex \<Rightarrow> cr_epoch r < cr_epoch ex)"
    | (newer) "\<not> (case rs_meta st (cr_sid r) of None \<Rightarrow> False | Some ex \<Rightarrow> cr_epoch r < cr_epoch ex)" by blast
  then show ?thesis
  proof cases
    case older
    then show ?thesis by (simp add: put_if_newer_def same_records_def)
  next
    case newer
    have "fst (put_if_newer wr r st) = (case persist_meta wr st r' of Inl e \<Rightarrow> st
        | Inr st1 \<Rightarrow> store_secrets st1 r' (snd (split_secrets ?q)))"
      unfolding put_if_newer_def Let_def if_not_P [OF newer] r'_def split_secrets_def prod.case
      by (simp only: snd_conv split: sum.split) simp
    moreover have "\<forall>ex. rs_meta st (cr_sid r) = Some ex \<longrightarrow> cr_epoch ex \<le> cr_epoch r"
      using newer by auto
    moreover have "installs st st1 r'" if "persist_meta wr st r' = Inr st1" for st1
      using that by (intro installs_persist) (auto simp: r'_def)
    ultimately show ?thesis
      by (cases "persist_meta wr st r'") (auto simp: same_records_def r'_def dest: installs_store_secrets)
  qed
qed

fun ownership_op :: "record_op \<Rightarrow> bool" where
  "ownership_op (OpClaimRestore _ _ _ _ _ _) = True"
| "ownership_op (OpCommitRestore _ _ _ _ _ _ _) = True"
| "ownership_op (OpReleaseRestore _ _ _ _ _ _) = True"
| "ownership_op (OpBegin _ _ _ _ _ _) = True"
| "ownership_op (OpConfirm _ _ _ _ _ _ _) = True"
| "ownership_op (OpClaim _ _ _ _ _ _) = True"
| "ownership_op (OpAbort _ _ _ _ _ _) = True"
| "ownership_op (OpCompleteAbort _ _ _ _ _) = True"
| "ownership_op _ = False"

lemmas ownership_advances = claim_restore_pending_advances commit_restore_pending_advances
  release_restore_claim_advances begin_migration_handoff_advances confirm_migration_handoff_advances
  claim_migration_handoff_advances abort_migration_handoff_advances complete_migration_abort_advances

text \<open>Arguments the callers build from validated records.\<close>

fun op_valid :: "record_op \<Rightarrow> bool" where
  "op_valid (OpPut wr r) = record_valid r"
| "op_valid (OpPutIfNewer wr r) = record_valid r"
| "op_valid (OpUpdateOwner wr sid ow e) = (ow \<noteq> [] \<and> e \<le> i64_max)"
| "op_valid (OpCommitRestore wr sid ow e p ha rp) = (ha \<in> set ALLOWED_HA \<and> rp \<noteq> [])"
| "op_valid (OpClaim wr src se tgt tok i) = record_valid i"
| "op_valid _ = True"

lemma ownership_step_advances: "rs_ok st \<Longrightarrow> ownership_op x \<Longrightarrow> advances (op_valid x) st (record_step x st)"
  by (cases x) (simp_all add: ownership_advances)

lemma advances_cases:
  "advances V st st' \<Longrightarrow> same_records st st' \<or>
     (\<exists>r ex. installs st st' r \<and> rs_meta st (cr_sid r) = Some ex \<and> fences V ex r)"
  by (auto simp: advances_def same_records_def)

lemma record_valid_params [simp]: "record_valid (r\<lparr>cr_params := p\<rparr>) = record_valid r"
  by (simp add: record_valid_def)

text \<open>One step: nothing, a removal, or one record installed, valid if the arguments are.\<close>

lemma record_step_cases:
  assumes "rs_ok st"
  obtains (same) "same_records st (record_step x st)"
    | (inst) r where "installs st (record_step x st) r"
        "op_valid x \<Longrightarrow> (\<And>ex. rs_meta st (cr_sid r) = Some ex \<Longrightarrow> record_valid ex) \<Longrightarrow> record_valid r"
    | (drop) sid where "drops st (record_step x st) sid"
proof (cases "ownership_op x")
  case True
  then show ?thesis
    using advances_cases [OF ownership_step_advances [OF assms True]] that by (fastforce simp: fences_def)
next
  case False
  then show ?thesis
  proof (cases x)
    case (OpPut wr r)
    then show ?thesis using record_put_installs [of st wr r] that by fastforce
  next
    case (OpPutIfNewer wr r)
    then show ?thesis using put_if_newer_installs [of st wr r] that by fastforce
  next
    case (OpUpdateOwner wr sid ow e)
    have "record_valid (r\<lparr>cr_owner := ow, cr_epoch := e\<rparr>)" if "op_valid x" "record_valid r" for r
      using that OpUpdateOwner by (auto simp: record_valid_def)
    then show ?thesis
      using update_owner_installs [OF assms, of wr sid ow e] that OpUpdateOwner rs_okD [OF assms] by fastforce
  next
    case (OpRemove rm sid)
    then show ?thesis using that by (cases rm) (auto simp: record_remove_def same_records_def drops_def)
  qed (use that in \<open>simp_all add: remember_secrets_def forget_secrets_def same_records_def\<close>)
qed

section \<open>Secrets stay in memory, and the files mirror the map\<close>

text \<open>
  A file's value as the JSON text gives it back: \<open>rd\<close> is what writing and parsing a floating-point number makes of it
  (\<^verbatim>\<open>serde_json\<close> without its \<^verbatim>\<open>float_roundtrip\<close> feature need not give the same one); all else comes back as it is.
\<close>

primrec reread :: "(f64 \<Rightarrow> f64) \<Rightarrow> json \<Rightarrow> json" where
  "reread rd JNull = JNull"
| "reread rd (JBool b) = JBool b"
| "reread rd (JNumber n) = JNumber (case n of Float f \<Rightarrow> Float (rd f) | PosInt i \<Rightarrow> PosInt i | NegInt i \<Rightarrow> NegInt i)"
| "reread rd (JString s) = JString s"
| "reread rd (JArray xs) = JArray (map (reread rd) xs)"
| "reread rd (JObject m) = JObject (map_option (reread rd) \<circ> m)"

text \<open>The files mirror the memory: a record in memory is its file's value, or that value as it was read back at a restart.\<close>

definition mirrored :: "(f64 \<Rightarrow> f64) \<Rightarrow> record_store \<Rightarrow> bool" where
  "mirrored rd st \<longleftrightarrow> (\<forall>sid. rs_meta st sid = None \<longleftrightarrow> rs_disk st sid = None) \<and>
     (\<forall>sid r v. rs_meta st sid = Some r \<and> rs_disk st sid = Some v \<longrightarrow> to_wire r = v \<or> to_wire r = reread rd v)"

lemma record_step_ok:
  assumes "rs_ok st"
  shows "rs_ok (record_step x st)"
  using assms
  by (rule record_step_cases [of st x])
    (use assms in \<open>auto simp: rs_ok_def same_records_def installs_def drops_def secret_free_to_wire split: if_splits\<close>)

lemma record_step_mirrored:
  assumes "rs_ok st" "mirrored rd st"
  shows "mirrored rd (record_step x st)"
  using assms(1)
  by (rule record_step_cases [of st x])
    (use assms(2) in \<open>auto simp: mirrored_def same_records_def installs_def drops_def\<close>)

lemma load_one_ok: "rs_ok st \<Longrightarrow> rs_ok (load_one num_str now v st)"
  by (auto simp: load_one_def rs_ok_def split_secrets_def Let_def split: sum.splits)

lemma fold_load_one_ok: "rs_ok st \<Longrightarrow> rs_ok (fold (load_one num_str now) vs st)"
  by (induction vs arbitrary: st) (auto simp: load_one_ok)

lemma record_load_ok: "rs_ok st \<Longrightarrow> rs_ok (record_load num_str now entries st)"
  by (cases entries) (auto simp: record_load_def rs_ok_def intro!: fold_load_one_ok [unfolded rs_ok_def])

text \<open>A run is a sequence of operations; a restart with any directory content may occur between them.\<close>

datatype record_event = Step record_op | Restart "json_number \<Rightarrow> string" f64 "json list option"

fun record_event_step :: "record_event \<Rightarrow> record_store \<Rightarrow> record_store" where
  "record_event_step (Step x) st = record_step x st"
| "record_event_step (Restart num_str now entries) st = record_load num_str now entries st"

definition record_run :: "record_event list \<Rightarrow> record_store \<Rightarrow> record_store" where
  "record_run = fold record_event_step"

lemma record_event_step_ok: "rs_ok st \<Longrightarrow> rs_ok (record_event_step x st)"
  by (cases x) (auto simp: record_step_ok record_load_ok)

lemma record_run_ok: "rs_ok st \<Longrightarrow> rs_ok (record_run xs st)"
  unfolding record_run_def by (induction xs arbitrary: st) (auto simp: record_event_step_ok)

lemma record_store_new_ok [simp]: "rs_ok record_store_new"
  by (simp add: rs_ok_def record_store_new_def)

section \<open>Epochs fence\<close>

lemma fenced_step_cases:
  assumes "rs_ok st" "\<not> unfenced x"
  obtains (same) "same_records st (record_step x st)"
    | (inst) r where "installs st (record_step x st) r"
        "\<And>ex. rs_meta st (cr_sid r) = Some ex \<Longrightarrow> cr_epoch ex \<le> cr_epoch r"
        "\<And>ex. rs_meta st (cr_sid r) = Some ex \<Longrightarrow> ownership_op x \<Longrightarrow>
          cr_owner ex = cr_owner r \<or> cr_epoch ex < cr_epoch r"
proof (cases "ownership_op x")
  case True
  then show ?thesis
    using advances_cases [OF ownership_step_advances [OF assms(1) True]] that by (fastforce simp: fences_def)
next
  case False
  then show ?thesis
  proof (cases x)
    case (OpPutIfNewer wr r)
    from put_if_newer_installs [of st wr r] show ?thesis
    proof (elim disjE exE conjE)
      fix p assume "installs st (fst (put_if_newer wr r st)) (r\<lparr>cr_params := p\<rparr>)"
        "\<forall>ex. rs_meta st (cr_sid r) = Some ex \<longrightarrow> cr_epoch ex \<le> cr_epoch r"
      then show ?thesis using OpPutIfNewer by (intro that(2) [of "r\<lparr>cr_params := p\<rparr>"]) auto
    qed (use that OpPutIfNewer in auto)
  qed (use that assms(2) in \<open>simp_all add: remember_secrets_def forget_secrets_def same_records_def\<close>)
qed

lemma fenced_step_epoch:
  assumes "rs_ok st" "\<not> unfenced x" "rs_meta st sid = Some r"
  shows "\<exists>r'. rs_meta (record_step x st) sid = Some r' \<and> cr_epoch r \<le> cr_epoch r' \<and>
    (ownership_op x \<and> cr_owner r' \<noteq> cr_owner r \<longrightarrow> cr_epoch r < cr_epoch r')"
  using assms(1,2)
  by (rule fenced_step_cases) (use assms(3) in \<open>auto simp: same_records_def installs_def\<close>)

end
