(* ===== verification/RecordProps.thy ===== *)
theory RecordProps
  imports RecordRuns Quorum
begin

text \<open>
  The properties of the record store: secrets never reach a file, epochs fence owners, a
  migration handoff is either confirmed or aborted, one claimant wins a restore, records
  survive a restart, and acknowledgement quorums meet.
\<close>

section \<open>Runs\<close>

lemma fenced_run_epoch:
  assumes "rs_ok st" "list_all (\<lambda>x. \<not> unfenced x) xs" "rs_meta st sid = Some r"
  shows "\<exists>r'. rs_meta (fold record_step xs st) sid = Some r' \<and> cr_epoch r \<le> cr_epoch r' \<and>
    (list_all ownership_op xs \<and> cr_owner r' \<noteq> cr_owner r \<longrightarrow> cr_epoch r < cr_epoch r')"
  using assms
proof (induction xs arbitrary: st r)
  case (Cons x xs)
  then obtain r1 where r1: "rs_meta (record_step x st) sid = Some r1" "cr_epoch r \<le> cr_epoch r1"
      "ownership_op x \<and> cr_owner r1 \<noteq> cr_owner r \<longrightarrow> cr_epoch r < cr_epoch r1"
    using fenced_step_epoch [of st x sid r] by auto
  then show ?case
    using Cons.IH [OF record_step_ok _ r1(1)] Cons.prems by fastforce
qed simp

lemma ownership_fenced: "ownership_op x \<Longrightarrow> \<not> unfenced x"
  by (cases x) auto

lemma ownership_run_epoch:
  assumes "rs_ok st" "list_all ownership_op xs" "rs_meta st sid = Some r"
  obtains r' where "rs_meta (fold record_step xs st) sid = Some r'" "cr_epoch r \<le> cr_epoch r'"
    "cr_owner r' = cr_owner r \<or> cr_epoch r < cr_epoch r'"
  using fenced_run_epoch [OF assms(1) _ assms(3), of xs] assms(2)
  by (auto simp: list_all_iff ownership_fenced)

section \<open>Handoffs\<close>

lemma confirm_done:
  assumes "rs_ok st" "snd (confirm_migration_handoff wr sid src se tgt te tok st) = Inr ()"
  obtains r where "rs_meta (fst (confirm_migration_handoff wr sid src se tgt te tok st)) sid = Some r"
    "cr_owner r = tgt" "cr_epoch r = se + 1" "validate_handoff sid src se tgt tok" "checked_add_i64 se 1 = Some te"
proof -
  obtain r where r: "rs_meta st sid = Some r" and v: "validate_handoff sid src se tgt tok" "checked_add_i64 se 1 = Some te"
    using assms(2) by (auto simp: confirm_migration_handoff_def split: if_splits option.splits)
  have s: "cr_sid r = sid" using rs_okD [OF assms(1) r] by simp
  show ?thesis
    using assms(2) checked_succ [OF v(2)] s v that
    unfolding confirm_migration_handoff_def r option.case
    by (auto simp: r persist_meta_def write_record_def rbind_def split: if_splits)
qed

lemma abort_done:
  assumes "rs_ok st" "snd (abort_migration_handoff wr sid src se tgt tok st) = Inr (Some q)"
  obtains r where "rs_meta (fst (abort_migration_handoff wr sid src se tgt tok st)) sid = Some r"
    "cr_owner r = src" "cr_epoch r = se + 1" "checked_add_i64 se 1 = Some (se + 1)" "validate_handoff sid src se tgt tok"
proof -
  obtain r fe where r: "rs_meta st sid = Some r" and v: "validate_handoff sid src se tgt tok" "checked_add_i64 se 1 = Some fe"
    using assms(2) by (auto simp: abort_migration_handoff_def split: if_splits option.splits)
  have s: "cr_sid r = sid" using rs_okD [OF assms(1) r] by simp
  show ?thesis
    using assms(2) checked_succ [OF v(2)] s v that
    unfolding abort_migration_handoff_def r option.case
    by (auto simp: r persist_returning_def persist_meta_def write_record_def rbind_def split: if_splits sum.splits prod.splits)
qed

lemma abort_stale:
  assumes "rs_meta st sid = Some r" "validate_handoff sid src se tgt tok" "checked_add_i64 se 1 = Some (se + 1)"
    "cr_epoch r \<noteq> se" "cr_epoch r = se + 1 \<longrightarrow> cr_owner r \<noteq> src"
  shows "snd (abort_migration_handoff wr sid src se tgt tok st) = Inr None"
  using assms by (auto simp: abort_migration_handoff_def)

lemma confirm_stale:
  assumes "rs_meta st sid = Some r" "cr_epoch r \<noteq> se" "cr_epoch r = se + 1 \<longrightarrow> cr_owner r \<noteq> tgt"
  shows "snd (confirm_migration_handoff wr sid src se tgt te tok st) = Inl Invalid"
  using assms by (auto simp: confirm_migration_handoff_def dest: checked_succ)

lemma claim_stale:
  assumes "rs_meta st (cr_sid i) = Some r" "cr_epoch r \<noteq> se" "cr_epoch r = se + 1 \<longrightarrow> cr_owner r \<noteq> tgt"
  shows "snd (claim_migration_handoff wr src se tgt tok i st) = Inl Invalid"
  using assms by (auto simp: claim_migration_handoff_def split: option.split dest: checked_succ)

section \<open>Restore claims\<close>

text \<open>Claimants of one expected lineage, one after the other, and what each is told.\<close>

fun claim_race :: "string \<Rightarrow> string \<Rightarrow> int \<Rightarrow> (bool \<times> string \<times> json) list \<Rightarrow> record_store \<Rightarrow>
    (string \<times> create_record result) list" where
  "claim_race sid eo ee [] st = []"
| "claim_race sid eo ee ((wr, no, p) # cs) st =
     (let (st', res) = claim_restore_pending wr sid eo ee no p st
      in (no, res) # claim_race sid eo ee cs st')"

definition winners :: "(string \<times> create_record result) list \<Rightarrow> string set" where
  "winners rs = {no. \<exists>r. (no, Inr r) \<in> set rs}"

lemma claim_other_busy:
  assumes "rs_meta st sid = Some r" "cr_owner r \<noteq> eo" "cr_owner r \<noteq> no"
  shows "\<exists>e. claim_restore_pending wr sid eo ee no p st = (st, Inl e)"
  using assms by (auto simp: claim_restore_pending_def)

lemma claim_same_keeps:
  assumes "rs_meta st sid = Some r" "cr_owner r \<noteq> eo"
  shows "fst (claim_restore_pending wr sid eo ee no p st) = st"
  using assms by (auto simp: claim_restore_pending_def)

lemma claim_race_decided:
  assumes "rs_meta st sid = Some r" "cr_owner r \<noteq> eo"
  shows "winners (claim_race sid eo ee cs st) \<subseteq> {cr_owner r}"
proof (induction cs)
  case (Cons c cs)
  obtain wr no p where c: "c = (wr, no, p)" by (cases c)
  obtain st' res where res: "claim_restore_pending wr sid eo ee no p st = (st', res)" by fastforce
  have "st' = st" using claim_same_keeps [OF assms, of wr ee no p] res by simp
  moreover have "no = cr_owner r" if "res = Inr x" for x
    using claim_other_busy [OF assms, of no wr ee p] res that by auto
  ultimately show ?case
    using Cons.IH res by (auto simp: c winners_def)
qed (simp add: winners_def)

lemma claim_first:
  assumes "rs_ok st" "rs_meta st sid = Some r" "cr_owner r = eo" "no \<noteq> eo"
    "claim_restore_pending wr sid eo ee no p st = (st', res)"
  shows "(\<exists>e. res = Inl e) \<and> st' = st \<or> (\<exists>r'. rs_meta st' sid = Some r' \<and> cr_owner r' = no)"
  using assms rs_okD [OF assms(1,2)]
  by (auto simp: claim_restore_pending_def persist_returning_def persist_meta_def write_record_def rbind_def
      split: if_splits option.splits sum.splits)

lemma claim_race_one_winner:
  assumes "rs_ok st" "rs_meta st sid = Some r" "cr_owner r = eo" "eo \<notin> fst ` snd ` set cs"
  shows "\<exists>w. winners (claim_race sid eo ee cs st) \<subseteq> {w}"
  using assms
proof (induction cs)
  case (Cons c cs)
  obtain wr no p where c: "c = (wr, no, p)" by (cases c)
  obtain st' res where res: "claim_restore_pending wr sid eo ee no p st = (st', res)" by fastforce
  have no: "no \<noteq> eo" using Cons.prems(4) c by auto
  from claim_first [OF Cons.prems(1-3) no res] show ?case
  proof (elim disjE conjE exE)
    fix e assume "res = Inl e" "st' = st"
    then show ?thesis using Cons res by (auto simp: c winners_def)
  next
    fix r' assume "rs_meta st' sid = Some r'" "cr_owner r' = no"
    then have "winners (claim_race sid eo ee cs st') \<subseteq> {no}"
      using claim_race_decided [of st' sid r' eo ee cs] no by simp
    then have "winners (claim_race sid eo ee (c # cs) st) \<subseteq> {no}"
      using res by (auto simp: c winners_def)
    then show ?thesis by blast
  qed
qed (simp add: winners_def)

section \<open>Wire form and restarts\<close>

lemma optional_string_text: "s \<noteq> [] \<Longrightarrow> optional_string num_str (Some (JString s)) d = s"
  by (simp add: optional_string_def)

lemma from_wire_to_wire:
  assumes "record_valid r"
  shows "from_wire num_str now (to_wire r) = Inr r"
proof -
  have "cr_ha r \<noteq> []" using assms by (auto simp: record_valid_def ALLOWED_HA_def)
  then show ?thesis
    using assms
    by (simp add: from_wire_def to_wire_def to_wire_map_def from_wire_map_def required_string_def non_empty_string_def
        rbind_def optional_string_text as_i64_of_i64 json_f64_def number_of_f64_def create_record_new_def record_valid_def Let_def
        del: as_i64.simps)
qed

lemma to_wire_sid:
  assumes "to_wire r = to_wire q"
  shows "cr_sid r = cr_sid q"
proof -
  have "to_wire_map r ''sid'' = to_wire_map q ''sid''"
    using assms by (simp add: to_wire_def)
  then show ?thesis by (simp add: to_wire_map_def)
qed

text \<open>
  Reachable stores: built by operations with valid arguments from the empty store; a restart
  drops the memory and loads every file, whose numbers come back as \<open>rd\<close> makes them (a creation
  time comes back finite).
\<close>

inductive reachable_store :: "(f64 \<Rightarrow> f64) \<Rightarrow> record_store \<Rightarrow> bool" for rd where
  init: "reachable_store rd record_store_new"
| step: "reachable_store rd st \<Longrightarrow> op_valid x \<Longrightarrow> reachable_store rd (record_step x st)"
| restart: "reachable_store rd st \<Longrightarrow> set vs = ran (rs_disk st) \<Longrightarrow>
    (\<forall>r \<in> ran (rs_meta st). f64_is_finite (rd (cr_created_at r))) \<Longrightarrow>
    reachable_store rd (record_load num_str now (Some (map (reread rd) vs)) st)"

definition reread_record :: "(f64 \<Rightarrow> f64) \<Rightarrow> create_record \<Rightarrow> create_record" where
  "reread_record rd r = r\<lparr>cr_params := map_option (reread rd) \<circ> cr_params r, cr_created_at := rd (cr_created_at r)\<rparr>"

lemma reread_to_wire:
  assumes "f64_is_finite (cr_created_at r)" "f64_is_finite (rd (cr_created_at r))"
  shows "reread rd (to_wire r) = to_wire (reread_record rd r)"
  using assms
  by (simp add: to_wire_def to_wire_map_def reread_record_def json_f64_def number_of_f64_def number_of_i64_def fun_eq_iff)

definition records_valid :: "record_store \<Rightarrow> bool" where
  "records_valid st \<longleftrightarrow> (\<forall>sid r. rs_meta st sid = Some r \<longrightarrow> record_valid r)"

definition durable :: "(f64 \<Rightarrow> f64) \<Rightarrow> record_store \<Rightarrow> bool" where
  "durable rd st \<longleftrightarrow> rs_ok st \<and> mirrored rd st \<and> records_valid st"

lemma record_step_durable: "durable rd st \<Longrightarrow> op_valid x \<Longrightarrow> durable rd (record_step x st)"
  unfolding durable_def
  by (rule record_step_cases [of st x])
    (auto simp: record_step_ok record_step_mirrored records_valid_def same_records_def installs_def drops_def split: if_splits)

lemma load_one_to_wire:
  assumes "record_valid r" "cr_params r ''secrets'' = None"
  shows "load_one num_str now (to_wire r) st = st\<lparr>rs_meta := (rs_meta st)(cr_sid r \<mapsto> r)\<rparr>"
proof -
  have "r\<lparr>cr_params := (cr_params r)(''secrets'' := None)\<rparr> = r"
    using assms(2) by (simp add: fun_upd_idem)
  then show ?thesis
    by (simp add: load_one_def from_wire_to_wire [OF assms(1)] split_secrets_def Let_def)
qed

lemma fold_load_files:
  assumes "\<forall>v\<in>set vs. \<exists>r. v = to_wire r \<and> M (cr_sid r) = Some r \<and> record_valid r \<and> cr_params r ''secrets'' = None"
    "\<forall>k r. M k = Some r \<longrightarrow> cr_sid r = k"
  shows "rs_meta (fold (load_one num_str now) vs st) k =
      (case M k of None \<Rightarrow> rs_meta st k | Some r \<Rightarrow> if to_wire r \<in> set vs then Some r else rs_meta st k) \<and>
    rs_disk (fold (load_one num_str now) vs st) = rs_disk st \<and>
    rs_secrets (fold (load_one num_str now) vs st) = rs_secrets st"
  using assms
proof (induction vs arbitrary: st)
  case Nil
  then show ?case by (simp split: option.split)
next
  case (Cons v vs)
  then obtain r where r: "v = to_wire r" "M (cr_sid r) = Some r" "record_valid r" "cr_params r ''secrets'' = None" by auto
  have inj: "to_wire r' = to_wire r \<longleftrightarrow> r' = r" if "M k' = Some r'" "record_valid r'" for k' r'
    using from_wire_to_wire [OF that(2)] from_wire_to_wire [OF r(3)] by (metis sum.inject(2))
  have valid: "record_valid r'" if M: "M k = Some r'" and mem: "to_wire r' \<in> set (v # vs)" for r'
  proof -
    obtain q where q: "to_wire r' = to_wire q" "M (cr_sid q) = Some q" "record_valid q"
      using Cons.prems(1) mem by metis
    have "cr_sid q = k"
      using to_wire_sid [OF q(1)] Cons.prems(2) M by metis
    then show ?thesis using q(2,3) M by simp
  qed
  have IH: "rs_meta (fold (load_one num_str now) vs (st\<lparr>rs_meta := (rs_meta st)(cr_sid r \<mapsto> r)\<rparr>)) k =
      (case M k of None \<Rightarrow> ((rs_meta st)(cr_sid r \<mapsto> r)) k
       | Some r' \<Rightarrow> if to_wire r' \<in> set vs then Some r' else ((rs_meta st)(cr_sid r \<mapsto> r)) k) \<and>
    rs_disk (fold (load_one num_str now) vs (st\<lparr>rs_meta := (rs_meta st)(cr_sid r \<mapsto> r)\<rparr>)) = rs_disk st \<and>
    rs_secrets (fold (load_one num_str now) vs (st\<lparr>rs_meta := (rs_meta st)(cr_sid r \<mapsto> r)\<rparr>)) = rs_secrets st"
    using Cons.IH [OF _ Cons.prems(2), of "st\<lparr>rs_meta := (rs_meta st)(cr_sid r \<mapsto> r)\<rparr>"] Cons.prems(1) by (cases "M k") simp_all
  show ?case
  proof (cases "M k")
    case None
    then have "k \<noteq> cr_sid r" using r(2) by auto
    then show ?thesis using IH None by (simp add: r(1) load_one_to_wire [OF r(3,4)])
  next
    case (Some r')
    have k: "k = cr_sid r \<longleftrightarrow> r' = r" using r(2) Cons.prems(2) Some by (metis option.inject)
    show ?thesis
    proof (cases "r' = r")
      case True
      then show ?thesis using IH Some k by (simp add: r(1) load_one_to_wire [OF r(3,4)])
    next
      case False
      then have "to_wire r' \<in> set (v # vs) \<longleftrightarrow> to_wire r' \<in> set vs"
        using inj [OF Some] valid [OF Some] r(1) by (metis set_ConsD list.set_intros)
      then show ?thesis using IH Some k False by (simp add: r(1) load_one_to_wire [OF r(3,4)])
    qed
  qed
qed

text \<open>What is in memory after a restart: what was there if it had been read from its file, otherwise that as it is read back.\<close>

definition reloaded :: "(f64 \<Rightarrow> f64) \<Rightarrow> record_store \<Rightarrow> string \<Rightarrow> create_record option" where
  "reloaded rd st sid = map_option (\<lambda>r. if rs_disk st sid = Some (to_wire r) then reread_record rd r else r) (rs_meta st sid)"

lemma reloaded_SomeD:
  assumes "durable rd st" "\<forall>r \<in> ran (rs_meta st). f64_is_finite (rd (cr_created_at r))" "reloaded rd st k = Some r'"
  shows "cr_sid r' = k" "record_valid r'" "cr_params r' ''secrets'' = None" "\<exists>v. rs_disk st k = Some v \<and> to_wire r' = reread rd v"
proof -
  obtain r where r: "rs_meta st k = Some r" "r' = (if rs_disk st k = Some (to_wire r) then reread_record rd r else r)"
    using assms(3) by (auto simp: reloaded_def)
  have valid: "record_valid r" "cr_sid r = k" "cr_params r ''secrets'' = None" and rd: "f64_is_finite (rd (cr_created_at r))"
    using assms(1,2) r(1) by (auto simp: durable_def records_valid_def rs_ok_def ran_def)
  obtain v where v: "rs_disk st k = Some v" "to_wire r = v \<or> to_wire r = reread rd v"
    using assms(1) r(1) unfolding durable_def mirrored_def by (metis not_None_eq)
  have "reread rd (to_wire r) = to_wire (reread_record rd r)"
    using valid(1) rd by (intro reread_to_wire) (simp_all add: record_valid_def)
  then show "\<exists>v. rs_disk st k = Some v \<and> to_wire r' = reread rd v" using r(2) v by auto
  show "record_valid r'" "cr_sid r' = k" "cr_params r' ''secrets'' = None"
    using r(2) valid rd by (auto simp: reread_record_def record_valid_def)
qed

lemma record_load_restores:
  assumes "durable rd st" "set vs = ran (rs_disk st)" "\<forall>r \<in> ran (rs_meta st). f64_is_finite (rd (cr_created_at r))"
  shows "record_load num_str now (Some (map (reread rd) vs)) st = st\<lparr>rs_meta := reloaded rd st, rs_secrets := (\<lambda>_. None)\<rparr>"
proof -
  let ?st = "st\<lparr>rs_meta := (\<lambda>_. None), rs_secrets := (\<lambda>_. None)\<rparr>"
  note origin = reloaded_SomeD [OF assms(1,3)]
  have own: "\<forall>k r. reloaded rd st k = Some r \<longrightarrow> cr_sid r = k" using origin(1) by blast
  have files: "\<forall>v\<in>set (map (reread rd) vs). \<exists>r. v = to_wire r \<and> reloaded rd st (cr_sid r) = Some r \<and> record_valid r \<and> cr_params r ''secrets'' = None"
  proof
    fix w assume "w \<in> set (map (reread rd) vs)"
    then obtain k v where v: "rs_disk st k = Some v" "w = reread rd v" using assms(2) by (auto simp: ran_def)
    then obtain r' where r': "reloaded rd st k = Some r'"
      using assms(1) by (cases "rs_meta st k") (simp_all add: durable_def mirrored_def reloaded_def)
    show "\<exists>r. w = to_wire r \<and> reloaded rd st (cr_sid r) = Some r \<and> record_valid r \<and> cr_params r ''secrets'' = None"
      using origin [OF r'] v r' by (intro exI [of _ r']) auto
  qed
  have all: "to_wire r \<in> set (map (reread rd) vs)" if "reloaded rd st k = Some r" for k r
    using origin(4) [OF that] assms(2) by (auto simp: ran_def)
  note load = fold_load_files [OF files own, of num_str now ?st]
  have "rs_meta (fold (load_one num_str now) (map (reread rd) vs) ?st) = reloaded rd st"
    using load all by (auto split: option.split)
  then show ?thesis
    using load by (simp add: record_load_def)
qed

lemma reachable_durable: "reachable_store rd st \<Longrightarrow> durable rd st"
proof (induction rule: reachable_store.induct)
  case init
  show ?case by (simp add: durable_def mirrored_def records_valid_def record_store_new_def rs_ok_def)
next
  case (restart st vs num_str now)
  let ?st = "st\<lparr>rs_meta := reloaded rd st, rs_secrets := (\<lambda>_. None)\<rparr>"
  note origin = reloaded_SomeD [OF restart.IH restart.hyps(3)]
  have "rs_disk st k = None" if "reloaded rd st k = None" for k
    using that restart.IH by (simp add: durable_def mirrored_def reloaded_def)
  then have "mirrored rd ?st" using restart.IH origin(4) unfolding mirrored_def durable_def by (fastforce simp: reloaded_def)
  moreover have "records_valid ?st" unfolding records_valid_def using origin(2) by simp
  moreover have "rs_ok ?st" using restart.IH origin(1,3) unfolding durable_def rs_ok_def by simp
  ultimately show ?case
    using record_load_restores [OF restart.IH restart.hyps(2,3)] by (simp add: durable_def)
qed (simp add: record_step_durable)

section \<open>Properties\<close>

text \<open>Concrete records for the witnesses.\<close>

definition sample_record :: create_record where
  "sample_record = \<lparr>cr_sid = ''s1'', cr_params = [''secrets'' \<mapsto> JString ''k''], cr_owner = ''a'', cr_epoch = 4,
     cr_incarnation_epoch = 4, cr_idempotency_key = ''i'', cr_ha = ''async'', cr_restart_policy = ''none'',
     cr_created_at = F_Fin 10\<rparr>"

definition sample_store :: record_store where
  "sample_store = record_run [Step (OpPut True sample_record), Step (OpBegin True ''s1'' ''a'' 4 ''b'' ''t'')] record_store_new"

lemmas record_eval = record_put_def split_secrets_def write_record_def store_secrets_def record_store_new_def
  record_run_def persist_meta_def persist_returning_def rbind_def begin_migration_handoff_def validate_handoff_def
  checked_add_i64_def handoff_matches_def handoff_state_def handoff_claimed_def handoff_present_def
  handoff_fields_def handoff_names set_handoff_def sample_record_def Let_def

text \<open>
  C8: Secrets never reach a file. After any sequence of store operations with any arguments and
  any outcome of their file writes, and of restarts, every record file holds a params object
  without a secrets field.
\<close>

theorem record_secrets_never_persisted:
  assumes "rs_disk (record_run xs record_store_new) sid = Some v"
  shows "\<exists>m p. v = JObject m \<and> m ''params'' = Some (JObject p) \<and> p ''secrets'' = None"
  using record_run_ok [OF record_store_new_ok, of xs] assms by (auto simp: rs_ok_def secret_free_def)

theorem record_secrets_never_persisted_witness:
  "\<exists>v m p. rs_disk (record_run [Step (OpPut True sample_record)] record_store_new) ''s1'' = Some v \<and>
     v = JObject m \<and> m ''params'' = Some (JObject p) \<and> p ''secrets'' = None"
proof -
  have "rs_disk (record_run [Step (OpPut True sample_record)] record_store_new) ''s1'' =
      Some (to_wire (sample_record\<lparr>cr_params := (cr_params sample_record)(''secrets'' := None)\<rparr>))"
    by (simp add: record_eval)
  then show ?thesis
    using record_secrets_never_persisted [of "[Step (OpPut True sample_record)]" "''s1''"] by blast
qed

text \<open>
  C4: Epochs fence owners. Whatever sequence of operations runs on a store, a present record
  stays present with an epoch that does not decrease, unless it is put, overwritten by
  update_owner or removed; and under the restore and migration transitions alone an owner
  changes only with a strictly greater epoch.
\<close>

theorem record_epoch_fencing:
  assumes "list_all (\<lambda>x. \<not> unfenced x) xs" "rs_meta (record_run ys record_store_new) sid = Some r"
  shows "\<exists>r'. rs_meta (fold record_step xs (record_run ys record_store_new)) sid = Some r' \<and>
    cr_epoch r \<le> cr_epoch r' \<and>
    (list_all ownership_op xs \<and> cr_owner r' \<noteq> cr_owner r \<longrightarrow> cr_epoch r < cr_epoch r')"
  by (rule fenced_run_epoch [OF record_run_ok [OF record_store_new_ok] assms])

lemma sample_store_meta:
  "rs_meta sample_store ''s1'' = Some (sample_record\<lparr>cr_params := set_handoff (Map.empty) ''a'' ''b'' ''t'' ''active'' False\<rparr>)"
  by (simp add: sample_store_def record_eval)

theorem record_epoch_fencing_witness:
  "\<exists>r r'. rs_meta sample_store ''s1'' = Some r \<and>
     rs_meta (fold record_step [OpConfirm True ''s1'' ''a'' 4 ''b'' 5 ''t''] sample_store) ''s1'' = Some r' \<and>
     cr_owner r' \<noteq> cr_owner r \<and> cr_epoch r < cr_epoch r'"
proof -
  let ?x = "OpConfirm True ''s1'' ''a'' 4 ''b'' 5 ''t''"
  have "\<exists>r'. rs_meta (fold record_step [?x] sample_store) ''s1'' = Some r' \<and> cr_owner r' = ''b''"
    by (simp add: sample_store_meta confirm_migration_handoff_def) (simp add: record_eval)
  then show ?thesis
    using record_epoch_fencing [of "[?x]" "[Step (OpPut True sample_record), Step (OpBegin True ''s1'' ''a'' 4 ''b'' ''t'')]" "''s1''"]
      sample_store_meta
    by (auto simp: sample_store_def [symmetric]) (auto simp: sample_record_def)
qed

text \<open>
  C3: A confirmed migration cannot be aborted. Once a handoff from source to a different target
  is confirmed, then after any sequence of restore and migration transitions an abort of that
  handoff reports that there is nothing to abort.
\<close>

theorem handoff_confirm_excludes_abort:
  assumes "snd (confirm_migration_handoff wr sid src se tgt te tok (record_run ys record_store_new)) = Inr ()"
    "list_all ownership_op xs" "src \<noteq> tgt"
  shows "snd (abort_migration_handoff wr' sid src se tgt tok
    (fold record_step xs (fst (confirm_migration_handoff wr sid src se tgt te tok (record_run ys record_store_new))))) = Inr None"
proof -
  let ?st = "record_run ys record_store_new" and ?x = "OpConfirm wr sid src se tgt te tok"
  have ok: "rs_ok ?st" by (rule record_run_ok [OF record_store_new_ok])
  obtain r where r: "rs_meta (record_step ?x ?st) sid = Some r" "cr_owner r = tgt" "cr_epoch r = se + 1"
      "validate_handoff sid src se tgt tok" "checked_add_i64 se 1 = Some te"
    using confirm_done [OF ok assms(1)] by auto
  obtain r' where "rs_meta (fold record_step xs (record_step ?x ?st)) sid = Some r'" "cr_epoch r \<le> cr_epoch r'"
      "cr_owner r' = cr_owner r \<or> cr_epoch r < cr_epoch r'"
    using ownership_run_epoch [OF record_step_ok [OF ok] assms(2) r(1)] .
  then show ?thesis
    using r checked_succ [OF r(5)] assms(3) by (intro abort_stale [where r = r']) auto
qed

theorem handoff_confirm_excludes_abort_witness:
  "snd (confirm_migration_handoff True ''s1'' ''a'' 4 ''b'' 5 ''t'' sample_store) = Inr () \<and>
   snd (abort_migration_handoff True ''s1'' ''a'' 4 ''b'' ''t''
     (fold record_step [OpBegin True ''s1'' ''b'' 5 ''a'' ''u''] (fst (confirm_migration_handoff True ''s1'' ''a'' 4 ''b'' 5 ''t'' sample_store)))) = Inr None"
proof -
  have "snd (confirm_migration_handoff True ''s1'' ''a'' 4 ''b'' 5 ''t'' sample_store) = Inr ()"
    by (simp add: sample_store_meta confirm_migration_handoff_def) (simp add: record_eval)
  then show ?thesis
    using handoff_confirm_excludes_abort [of True "''s1''" "''a''" 4 "''b''" 5 "''t''"
        "[Step (OpPut True sample_record), Step (OpBegin True ''s1'' ''a'' 4 ''b'' ''t'')]"
        "[OpBegin True ''s1'' ''b'' 5 ''a'' ''u'']"]
    by (simp add: sample_store_def [symmetric])
qed

text \<open>
  An aborted migration can be neither confirmed nor claimed. Once a handoff is aborted, then
  after any sequence of restore and migration transitions both the source-side confirmation
  and the target-side claim of that handoff are rejected as invalid.
\<close>

theorem handoff_abort_excludes_confirm:
  assumes "snd (abort_migration_handoff wr sid src se tgt tok (record_run ys record_store_new)) = Inr (Some q)"
    "list_all ownership_op xs" "src \<noteq> tgt" "cr_sid i = sid"
  shows "snd (confirm_migration_handoff wr' sid src se tgt te tok
      (fold record_step xs (fst (abort_migration_handoff wr sid src se tgt tok (record_run ys record_store_new))))) = Inl Invalid \<and>
    snd (claim_migration_handoff wr' src se tgt tok i
      (fold record_step xs (fst (abort_migration_handoff wr sid src se tgt tok (record_run ys record_store_new))))) = Inl Invalid"
proof -
  let ?st = "record_run ys record_store_new" and ?x = "OpAbort wr sid src se tgt tok"
  have ok: "rs_ok ?st" by (rule record_run_ok [OF record_store_new_ok])
  obtain r where r: "rs_meta (record_step ?x ?st) sid = Some r" "cr_owner r = src" "cr_epoch r = se + 1"
    using abort_done [OF ok assms(1)] by auto
  obtain r' where r': "rs_meta (fold record_step xs (record_step ?x ?st)) sid = Some r'" "cr_epoch r \<le> cr_epoch r'"
      "cr_owner r' = cr_owner r \<or> cr_epoch r < cr_epoch r'"
    using ownership_run_epoch [OF record_step_ok [OF ok] assms(2) r(1)] .
  then have "cr_epoch r' \<noteq> se" "cr_epoch r' = se + 1 \<longrightarrow> cr_owner r' \<noteq> tgt"
    using r assms(3) by auto
  then show ?thesis
    using r'(1) assms(4) by (auto intro: confirm_stale [where r = r'] claim_stale [where r = r'])
qed

theorem handoff_abort_excludes_confirm_witness:
  "\<exists>q. snd (abort_migration_handoff True ''s1'' ''a'' 4 ''b'' ''t'' sample_store) = Inr (Some q) \<and>
    snd (confirm_migration_handoff True ''s1'' ''a'' 4 ''b'' 5 ''t''
      (fst (abort_migration_handoff True ''s1'' ''a'' 4 ''b'' ''t'' sample_store))) = Inl Invalid \<and>
    snd (claim_migration_handoff True ''a'' 4 ''b'' ''t'' sample_record
      (fst (abort_migration_handoff True ''s1'' ''a'' 4 ''b'' ''t'' sample_store))) = Inl Invalid"
proof -
  have "\<exists>q. snd (abort_migration_handoff True ''s1'' ''a'' 4 ''b'' ''t'' sample_store) = Inr (Some q)"
    by (simp add: sample_store_meta abort_migration_handoff_def checked_add_i64_def) (simp add: record_eval)
  moreover have "cr_sid sample_record = ''s1''" by (simp add: sample_record_def)
  ultimately show ?thesis
    using handoff_abort_excludes_confirm [of True "''s1''" "''a''" 4 "''b''" "''t''"
        "[Step (OpPut True sample_record), Step (OpBegin True ''s1'' ''a'' 4 ''b'' ''t'')]" _
        "[]" sample_record True 5]
    by (auto simp: sample_store_def [symmetric])
qed

text \<open>
  C9: One claimant wins a restore. When nodes other than the current owner claim the pending
  restore of one expected owner and epoch, in any order, any number of times and with any
  outcome of the writes, the successful claims are all by the same node.
\<close>

theorem restore_claim_single_winner:
  assumes "rs_meta (record_run ys record_store_new) sid = Some r" "cr_owner r = eo" "eo \<notin> fst ` snd ` set cs"
  shows "\<exists>w. winners (claim_race sid eo ee cs (record_run ys record_store_new)) \<subseteq> {w}"
  by (rule claim_race_one_winner [OF record_run_ok [OF record_store_new_ok] assms])

definition sample_claims :: "(bool \<times> string \<times> json) list" where
  "sample_claims = [(False, ''b'', JObject Map.empty), (True, ''c'', JObject Map.empty), (True, ''b'', JObject Map.empty)]"

theorem restore_claim_single_winner_witness:
  "\<exists>w. winners (claim_race ''s1'' ''a'' 4 sample_claims sample_store) \<subseteq> {w} \<and>
     ''c'' \<in> winners (claim_race ''s1'' ''a'' 4 sample_claims sample_store)"
proof -
  let ?race = "claim_race ''s1'' ''a'' 4 sample_claims sample_store"
  have "\<exists>r. snd (?race ! 1) = Inr r"
    by (simp add: sample_claims_def sample_store_meta claim_restore_pending_def Let_def split_beta checked_add_i64_def
        persist_returning_def persist_meta_def write_record_def rbind_def)
      (simp add: record_eval)
  then obtain r where "?race ! 1 = (''c'', Inr r)"
    by (auto simp: sample_claims_def split_beta prod_eq_iff)
  then have "(''c'', Inr r) \<in> set ?race"
    using nth_mem [of 1 ?race] by (simp add: sample_claims_def split_beta)
  then have "''c'' \<in> winners ?race"
    by (auto simp: winners_def)
  then show ?thesis
    using restore_claim_single_winner [of "[Step (OpPut True sample_record), Step (OpBegin True ''s1'' ''a'' 4 ''b'' ''t'')]"
        "''s1''" _ "''a''" sample_claims 4] sample_store_meta
    by (auto simp: sample_store_def [symmetric] sample_claims_def [symmetric]) (auto simp: sample_record_def sample_claims_def)
qed

text \<open>
  C10: Records survive a restart. In every store that operations and earlier restarts lead to, loading
  the files again loses no record and adds none, leaves the files as they are and drops the secrets;
  each record comes back with its sid, owner, epochs, idempotency key, HA mode and restart policy
  exactly, and with the floating-point numbers in it as the JSON text gives them back (\<open>rd\<close>), unless
  it had already been read from its file, and then it comes back unchanged. Creation times must come back finite.
\<close>

theorem records_survive_restart:
  assumes "reachable_store rd st" "set vs = ran (rs_disk st)"
    and "\<forall>r \<in> ran (rs_meta st). f64_is_finite (rd (cr_created_at r))"
    and "st' = record_load num_str now (Some (map (reread rd) vs)) st"
  shows "(\<forall>sid. case rs_meta st sid of None \<Rightarrow> rs_meta st' sid = None
       | Some r \<Rightarrow> rs_meta st' sid = Some (if rs_disk st sid = Some (to_wire r) then reread_record rd r else r)) \<and>
     rs_disk st' = rs_disk st \<and> rs_secrets st' = (\<lambda>_. None)"
proof -
  have "st' = st\<lparr>rs_meta := reloaded rd st, rs_secrets := (\<lambda>_. None)\<rparr>"
    unfolding assms(4) by (rule record_load_restores [OF reachable_durable [OF assms(1)] assms(2,3)])
  then show ?thesis by (simp add: reloaded_def split: option.split)
qed

text \<open>Numbers that the text cuts to integers, for the witness.\<close>

fun whole :: "f64 \<Rightarrow> f64" where
  "whole (F_Fin x) = F_Fin (of_int \<lfloor>x\<rfloor>)"
| "whole x = x"

definition dated_record :: create_record where
  "dated_record = sample_record\<lparr>cr_created_at := F_Fin (21 / 2)\<rparr>"

lemma sample_reachable: "reachable_store whole (record_step (OpPut True dated_record) record_store_new)"
  by (intro reachable_store.intros) (simp add: record_valid_def sample_record_def dated_record_def ALLOWED_HA_def f64_is_finite_def del: not_None_eq)

theorem records_survive_restart_witness:
  "rs_meta (record_load (\<lambda>_. []) (F_Fin 0)
     (Some (map (reread whole) [to_wire (dated_record\<lparr>cr_params := Map.empty\<rparr>)])) (record_step (OpPut True dated_record) record_store_new)) ''s1'' =
   Some (dated_record\<lparr>cr_params := Map.empty, cr_created_at := F_Fin 10\<rparr>)"
proof -
  let ?st = "record_step (OpPut True dated_record) record_store_new"
  have disk: "rs_disk ?st = [''s1'' \<mapsto> to_wire (dated_record\<lparr>cr_params := Map.empty\<rparr>)]"
    and meta: "rs_meta ?st = [''s1'' \<mapsto> dated_record\<lparr>cr_params := Map.empty\<rparr>]"
    by (simp_all add: record_eval dated_record_def)
  have finite: "\<forall>r \<in> ran (rs_meta ?st). f64_is_finite (whole (cr_created_at r))"
    unfolding meta by (simp add: dated_record_def f64_is_finite_def del: not_None_eq)
  have "rs_meta (record_load (\<lambda>_. []) (F_Fin 0) (Some (map (reread whole) [to_wire (dated_record\<lparr>cr_params := Map.empty\<rparr>)])) ?st) ''s1'' =
      Some (reread_record whole (dated_record\<lparr>cr_params := Map.empty\<rparr>))"
    using records_survive_restart [OF sample_reachable _ finite refl, where vs = "[to_wire (dated_record\<lparr>cr_params := Map.empty\<rparr>)]" and num_str = "\<lambda>_. []" and now = "F_Fin 0"]
    unfolding disk meta by (auto simp del: record_step.simps dest!: spec [of _ "''s1''"])
  moreover have "whole (F_Fin (21 / 2)) = F_Fin 10" by code_simp
  ultimately show ?thesis by (simp add: reread_record_def dated_record_def comp_def del: whole.simps)
qed

text \<open>
  A record's wire form is read back unchanged, for every record that passes the checks of
  its constructor and whose numbers fit an i64.
\<close>

theorem record_wire_roundtrip:
  assumes "record_valid r"
  shows "from_wire num_str now (to_wire r) = Inr r"
  by (rule from_wire_to_wire [OF assms])

theorem record_wire_roundtrip_witness:
  "from_wire (\<lambda>_. []) F_NaN (to_wire sample_record) = Inr sample_record"
  by (rule record_wire_roundtrip) (simp add: record_valid_def sample_record_def ALLOWED_HA_def f64_is_finite_def)

section \<open>Acknowledgements\<close>

text \<open>
  With more than two expected members a create needs a strict majority of acknowledgements; up
  to two, all live peers. In both cases the sets of holders of two acknowledged records meet.
\<close>

definition ack_size :: "nat \<Rightarrow> nat" where
  "ack_size n = required_record_acks n (n - 1)"

interpretation record_quorum: quorum_rule ack_size
  by unfold_locales (auto simp: ack_size_def required_record_acks_def)

text \<open>
  Acknowledged records meet. Two creates acknowledged by at least the required number of
  members out of at least three expected ones, whatever peers were live at each, share a
  member that holds both records.
\<close>

theorem record_acks_meet:
  assumes "finite M" "card M \<le> n" "2 < n" "A \<subseteq> M" "B \<subseteq> M"
    "required_record_acks n live1 \<le> card A" "required_record_acks n live2 \<le> card B"
  shows "A \<inter> B \<noteq> {}"
  using record_quorum.quorums_meet [OF assms(1,2) _ assms(4,5)] assms(3,6,7)
  by (simp add: ack_size_def required_record_acks_def)

theorem record_acks_meet_witness: "{0 :: nat, 1} \<inter> {1, 2} \<noteq> {}"
  using record_acks_meet [of "{0 :: nat, 1, 2}" 3 "{0, 1}" "{1, 2}" 0 1] by (simp add: required_record_acks_def)

end
