(* ===== verification/AgentProto.thy ===== *)
theory AgentProto
  imports Prelude
begin

text \<open>
  The guest agent's console protocol, \<^verbatim>\<open>agent/src/proto.rs\<close>: framing with a resync marker, and the
  bounded PTY history. A reader is the bytes it will deliver and whether it then fails
  instead of reporting end of file; interrupted reads are retried by the code and deliver the
  same bytes. The read loop consumes at least one byte per turn, which is its termination
  measure.
\<close>

section \<open>Frames\<close>

definition MAX_PAYLOAD_LEN :: nat where "MAX_PAYLOAD_LEN = 1048576"
definition HEADER_LEN :: nat where "HEADER_LEN = 9"

definition SYNC :: bytes where
  "SYNC = [0xff, 0xff, 0xff, 0xff, 0xff, 0x76, 0x6d, 0x6f, 0x6e]"

datatype io_error = UnexpectedEof | InvalidInput | ReadFailed

type_synonym reader = "bytes \<times> bool"

record frame =
  fr_ty :: u8
  fr_id :: u32
  fr_payload :: bytes

text \<open>\<^verbatim>\<open>Read::read\<close> into one byte, and \<^verbatim>\<open>Read::read_exact\<close>.\<close>

fun read_first_byte :: "reader \<Rightarrow> io_error + (u8 option \<times> reader)" where
  "read_first_byte (b # bs, br) = Inr (Some b, (bs, br))"
| "read_first_byte ([], br) = (if br then Inl ReadFailed else Inr (None, ([], br)))"

fun reader_exact :: "nat \<Rightarrow> reader \<Rightarrow> io_error + (bytes \<times> reader)" where
  "reader_exact n (bs, br) = (case read_exact n bs of
     Some (a, bs') \<Rightarrow> Inr (a, (bs', br))
   | None \<Rightarrow> Inl (if br then ReadFailed else UnexpectedEof))"

text \<open>The window holds the last \<open>filled\<close> bytes, at most \<^const>\<open>HEADER_LEN\<close> of them.\<close>

fun resync_loop :: "bytes \<Rightarrow> bytes \<Rightarrow> bool \<Rightarrow> io_error + (bool \<times> reader)" where
  "resync_loop window [] br = (if br then Inl ReadFailed else Inr (False, ([], br)))"
| "resync_loop window (b # bs) br =
     (let window' = (if length window < HEADER_LEN then window @ [b] else tl window @ [b])
      in if length window' = HEADER_LEN \<and> window' = SYNC then Inr (True, (bs, br))
         else resync_loop window' bs br)"

definition resync_to_marker :: "reader \<Rightarrow> io_error + (bool \<times> reader)" where
  "resync_to_marker r = resync_loop [] (fst r) (snd r)"

lemma resync_loop_shorter:
  "resync_loop w bs br = Inr (True, (bs', br')) \<Longrightarrow> length bs' < length bs"
  by (induction w bs br rule: resync_loop.induct) (fastforce simp: Let_def split: if_splits)+

function read_frame :: "reader \<Rightarrow> io_error + (frame option \<times> reader)" where
  "read_frame r = (case read_first_byte r of
     Inl e \<Rightarrow> Inl e
   | Inr (None, r1) \<Rightarrow> Inr (None, r1)
   | Inr (Some b, r1) \<Rightarrow> (case reader_exact (HEADER_LEN - 1) r1 of
       Inl e \<Rightarrow> Inl e
     | Inr (hs, r2) \<Rightarrow>
         let header = b # hs in
         if header = SYNC then read_frame r2
         else let payload_len = le_val (take 4 header) in
         if payload_len > MAX_PAYLOAD_LEN
         then (case resync_to_marker r2 of
             Inl e \<Rightarrow> Inl e
           | Inr (False, r3) \<Rightarrow> Inr (None, r3)
           | Inr (True, r3) \<Rightarrow> read_frame r3)
         else let ty = header ! 4; fid = word_of_nat (le_val (take 4 (drop 5 header))) in
         if payload_len \<noteq> 0
         then (case reader_exact payload_len r2 of
             Inl e \<Rightarrow> Inl e
           | Inr (payload, r3) \<Rightarrow> Inr (Some \<lparr>fr_ty = ty, fr_id = fid, fr_payload = payload\<rparr>, r3))
         else Inr (Some \<lparr>fr_ty = ty, fr_id = fid, fr_payload = []\<rparr>, r2)))"
  by pat_completeness auto

lemma read_first_byte_shorter: "read_first_byte r = Inr (Some b, r') \<Longrightarrow> length (fst r') < length (fst r)"
  by (induction r rule: read_first_byte.induct) (auto split: if_splits)

lemma reader_exact_shorter: "reader_exact n r = Inr (a, r') \<Longrightarrow> length (fst r') \<le> length (fst r)"
  by (cases r) (auto simp: read_exact_def split: option.splits if_splits)

lemma resync_shorter: "resync_to_marker r = Inr (True, r') \<Longrightarrow> length (fst r') < length (fst r)"
  by (cases r'; cases r) (auto simp: resync_to_marker_def dest: resync_loop_shorter)

termination read_frame
proof (relation "measure (\<lambda>r. length (fst r))", goal_cases)
  case 1
  show ?case by simp
next
  case prems: 2
  then show ?case
    by (auto dest!: read_first_byte_shorter reader_exact_shorter simp del: reader_exact.simps)
next
  case prems: 3
  then show ?case
    by (auto dest!: read_first_byte_shorter reader_exact_shorter resync_shorter simp del: reader_exact.simps)
qed

declare read_frame.simps [simp del]

definition write_frame :: "u8 \<Rightarrow> u32 \<Rightarrow> bytes \<Rightarrow> io_error + bytes" where
  "write_frame ty fid payload =
     (if length payload > MAX_PAYLOAD_LEN then Inl InvalidInput
      else Inr (le_bytes 4 (length payload) @ [ty] @ le_bytes 4 (unat fid) @ payload))"

section \<open>Scrollback\<close>

record scrollback =
  sb_bytes :: bytes
  sb_limit :: nat

definition scrollback_new :: "nat \<Rightarrow> scrollback" where
  "scrollback_new limit = \<lparr>sb_bytes = [], sb_limit = limit\<rparr>"

definition scrollback_push :: "bytes \<Rightarrow> scrollback \<Rightarrow> scrollback" where
  "scrollback_push chunk sb =
     (if sb_limit sb = 0 then sb\<lparr>sb_bytes := []\<rparr>
      else if length chunk \<ge> sb_limit sb
      then sb\<lparr>sb_bytes := drop (length chunk - sb_limit sb) chunk\<rparr>
      else let overflow = sat_add_usize (length (sb_bytes sb)) (length chunk) - sb_limit sb
           in sb\<lparr>sb_bytes := drop overflow (sb_bytes sb) @ chunk\<rparr>)"

definition snapshot :: "scrollback \<Rightarrow> bytes" where
  "snapshot sb = sb_bytes sb"

section \<open>Reading one header\<close>

lemma read_frame_header:
  assumes "length h = HEADER_LEN"
  shows "read_frame (h @ bs, br) =
    (if h = SYNC then read_frame (bs, br)
     else if le_val (take 4 h) > MAX_PAYLOAD_LEN
     then (case resync_to_marker (bs, br) of Inl e \<Rightarrow> Inl e | Inr (False, r3) \<Rightarrow> Inr (None, r3) | Inr (True, r3) \<Rightarrow> read_frame r3)
     else (case reader_exact (le_val (take 4 h)) (bs, br) of
         Inl e \<Rightarrow> Inl e
       | Inr (p, r3) \<Rightarrow> Inr (Some \<lparr>fr_ty = h ! 4, fr_id = word_of_nat (le_val (take 4 (drop 5 h))), fr_payload = p\<rparr>, r3)))"
proof -
  obtain b hs where h: "h = b # hs" "length hs = HEADER_LEN - 1"
    using assms by (cases h) (auto simp: HEADER_LEN_def)
  have "reader_exact (HEADER_LEN - 1) (hs @ bs, br) = Inr (hs, (bs, br))"
    using h(2) by (simp add: read_exact_def)
  then show ?thesis
    unfolding h(1) by (subst read_frame.simps) (simp add: Let_def read_exact_def del: reader_exact.simps, simp add: read_exact_def)
qed

lemma length_SYNC: "length SYNC = HEADER_LEN"
  by (simp add: SYNC_def HEADER_LEN_def)

lemma read_frame_SYNC: "read_frame (SYNC @ bs, br) = read_frame (bs, br)"
  by (simp add: read_frame_header length_SYNC)

lemma SYNC_len_field: "le_val (take 4 SYNC) = 4294967295"
  by (simp add: SYNC_def)

lemma read_frame_written:
  assumes "write_frame ty fid p = Inr w"
  shows "read_frame (w @ bs, br) = Inr (Some \<lparr>fr_ty = ty, fr_id = fid, fr_payload = p\<rparr>, (bs, br))"
proof -
  let ?h = "le_bytes 4 (length p) @ [ty] @ le_bytes 4 (unat fid)"
  have len: "length p \<le> MAX_PAYLOAD_LEN" and w: "w = ?h @ p"
    using assms by (auto simp: write_frame_def split: if_splits)
  have field: "le_val (take 4 ?h) = length p"
    using len by (simp add: codec MAX_PAYLOAD_LEN_def)
  have "unat fid < 4294967296" using unsigned_less [of fid] by simp
  then have ident: "word_of_nat (le_val (take 4 (drop 5 ?h))) = fid"
    by (simp add: codec)
  have ne: "?h \<noteq> SYNC"
  proof
    assume "?h = SYNC"
    then have "length p = 4294967295" using field SYNC_len_field by simp
    then show False using len by (simp add: MAX_PAYLOAD_LEN_def)
  qed
  have "length ?h = HEADER_LEN" by (simp add: HEADER_LEN_def)
  from read_frame_header [OF this, of "p @ bs" br] show ?thesis
    using len ne field ident by (simp add: w read_exact_def nth_append)
qed

lemma read_frame_short:
  assumes "length bs < HEADER_LEN"
  shows "\<nexists>f r'. read_frame (bs, br) = Inr (Some f, r')"
  using assms by (cases bs) (auto simp: read_frame.simps read_exact_def HEADER_LEN_def)

lemma read_frame_payload_bound:
  "read_frame r = Inr (Some f, r') \<Longrightarrow> length (fr_payload f) \<le> MAX_PAYLOAD_LEN"
proof (induction r rule: measure_induct_rule [where f = "\<lambda>r. length (fst r)"])
  case (less r)
  obtain bs br where r: "r = (bs, br)" by (cases r)
  have len: "HEADER_LEN \<le> length bs"
    using read_frame_short [of bs br] less.prems r not_less by blast
  define h t where "h = take HEADER_LEN bs" and "t = drop HEADER_LEN bs"
  have h: "length h = HEADER_LEN" "bs = h @ t" using len by (auto simp: h_def t_def)
  note step = less.prems [unfolded r h(2) read_frame_header [OF h(1)]]
  have IH: "read_frame r1 = Inr (Some f, r') \<Longrightarrow> length (fst r1) \<le> length t \<Longrightarrow> length (fr_payload f) \<le> MAX_PAYLOAD_LEN" for r1
    using less.IH [of r1] r h by (simp add: HEADER_LEN_def)
  show ?case
  proof (cases "h = SYNC \<or> le_val (take 4 h) \<le> MAX_PAYLOAD_LEN")
    case True
    then show ?thesis
      using step IH [of "(t, br)"]
      by (cases "h = SYNC") (auto simp: read_exact_def split: sum.splits option.splits if_splits)
  next
    case False
    then obtain r3 where "resync_to_marker (t, br) = Inr (True, r3)" "read_frame r3 = Inr (Some f, r')"
      using step by (auto split: sum.splits prod.splits bool.splits)
    then show ?thesis using IH [of r3] resync_shorter [of "(t, br)" r3] by simp
  qed
qed

section \<open>The first marker\<close>

definition ends_sync :: "bytes \<Rightarrow> bool" where
  "ends_sync s \<longleftrightarrow> HEADER_LEN \<le> length s \<and> drop (length s - HEADER_LEN) s = SYNC"

definition last_window :: "bytes \<Rightarrow> bytes" where
  "last_window s = drop (length s - HEADER_LEN) s"

lemma window_step:
  "(if length (last_window s) < HEADER_LEN then last_window s @ [b] else tl (last_window s) @ [b]) = last_window (s @ [b])"
proof (cases "length s < HEADER_LEN")
  case False
  then have "length (s @ [b]) - HEADER_LEN = Suc (length s - HEADER_LEN)" by (simp add: HEADER_LEN_def)
  then show ?thesis
    using False by (simp add: last_window_def HEADER_LEN_def drop_Suc tl_drop)
qed (simp add: last_window_def HEADER_LEN_def)

lemma resync_loop_step:
  "resync_loop (last_window s) (b # bs) br =
     (if ends_sync (s @ [b]) then Inr (True, (bs, br)) else resync_loop (last_window (s @ [b])) bs br)"
proof -
  have "length (last_window (s @ [b])) = HEADER_LEN \<and> last_window (s @ [b]) = SYNC \<longleftrightarrow> ends_sync (s @ [b])"
    by (auto simp: last_window_def ends_sync_def length_SYNC HEADER_LEN_def simp del: drop_append)
  then show ?thesis
    unfolding resync_loop.simps window_step Let_def by simp
qed

lemma resync_loop_found:
  assumes "0 < n" "n \<le> length bs" "ends_sync (s @ take n bs)" "\<forall>k. 0 < k \<and> k < n \<longrightarrow> \<not> ends_sync (s @ take k bs)"
  shows "resync_loop (last_window s) bs br = Inr (True, (drop n bs, br))"
  using assms
proof (induction bs arbitrary: s n)
  case (Cons b bs)
  show ?case
  proof (cases "n = 1")
    case True
    then show ?thesis
      using Cons.prems(3) by (simp add: resync_loop_step del: resync_loop.simps)
  next
    case False
    then obtain m where m: "n = Suc m" "0 < m" using Cons.prems(1) by (cases n) auto
    have "\<not> ends_sync (s @ [b])"
      using Cons.prems(4) m by (auto dest: spec [of _ 1])
    moreover have "\<not> ends_sync ((s @ [b]) @ take k bs)" if "0 < k" "k < m" for k
      using Cons.prems(4) m that by (auto dest: spec [of _ "Suc k"])
    ultimately show ?thesis
      using Cons.IH [of m "s @ [b]"] Cons.prems m by (simp add: resync_loop_step del: resync_loop.simps)
  qed
qed simp

lemma resync_loop_missing:
  assumes "\<forall>k. 0 < k \<and> k \<le> length bs \<longrightarrow> \<not> ends_sync (s @ take k bs)"
  shows "resync_loop (last_window s) bs br = (if br then Inl ReadFailed else Inr (False, ([], br)))"
  using assms
proof (induction bs arbitrary: s)
  case (Cons b bs)
  have "\<not> ends_sync (s @ [b])"
    using Cons.prems by (auto dest: spec [of _ 1])
  moreover have "\<not> ends_sync ((s @ [b]) @ take k bs)" if "0 < k" "k \<le> length bs" for k
    using Cons.prems that by (auto dest: spec [of _ "Suc k"])
  ultimately show ?case
    using Cons.IH [of "s @ [b]"] by (simp add: resync_loop_step del: resync_loop.simps)
qed simp

text \<open>\<open>first_marker pre bs\<close>: the first marker in \<open>bs\<close> comes right after \<open>pre\<close>.\<close>

definition first_marker :: "bytes \<Rightarrow> bytes \<Rightarrow> bool" where
  "first_marker pre bs \<longleftrightarrow> (\<exists>rest. bs = pre @ SYNC @ rest) \<and>
     (\<forall>p q. bs = p @ SYNC @ q \<longrightarrow> length pre \<le> length p)"

lemma ends_sync_iff: "ends_sync s \<longleftrightarrow> (\<exists>p. s = p @ SYNC)"
proof
  assume "ends_sync s"
  then have "s = take (length s - HEADER_LEN) s @ SYNC" by (metis ends_sync_def append_take_drop_id)
  then show "\<exists>p. s = p @ SYNC" by blast
qed (auto simp: ends_sync_def length_SYNC)

lemma ends_sync_take: "ends_sync (take k bs) \<longleftrightarrow> (\<exists>p q. bs = p @ SYNC @ q \<and> length p + HEADER_LEN = min k (length bs))"
proof
  assume "ends_sync (take k bs)"
  then obtain p where p: "take k bs = p @ SYNC" by (auto simp: ends_sync_iff)
  then have "bs = p @ SYNC @ drop k bs" by (metis append.assoc append_take_drop_id)
  moreover have "length p + HEADER_LEN = min k (length bs)"
    using arg_cong [OF p, of length] by (simp add: length_SYNC)
  ultimately show "\<exists>p q. bs = p @ SYNC @ q \<and> length p + HEADER_LEN = min k (length bs)" by blast
next
  assume "\<exists>p q. bs = p @ SYNC @ q \<and> length p + HEADER_LEN = min k (length bs)"
  then obtain p q where b: "bs = p @ SYNC @ q" "length p + HEADER_LEN = min k (length bs)" by blast
  then have "take k bs = take (length p + HEADER_LEN) bs"
    by (cases "k \<le> length bs") (simp_all add: length_SYNC)
  then show "ends_sync (take k bs)"
    using b(1) by (simp add: ends_sync_iff length_SYNC)
qed

lemma resync_first_marker:
  assumes "first_marker pre bs"
  shows "resync_to_marker (bs, br) = Inr (True, (drop (length pre + HEADER_LEN) bs, br))"
proof -
  let ?n = "length pre + HEADER_LEN"
  obtain rest where rest: "bs = pre @ SYNC @ rest" using assms by (auto simp: first_marker_def)
  have "\<not> ends_sync (take k bs)" if "k < ?n" for k
  proof
    assume "ends_sync (take k bs)"
    then obtain p q where "bs = p @ SYNC @ q" "length p + HEADER_LEN \<le> k"
      by (auto simp: ends_sync_take)
    moreover from this assms have "length pre \<le> length p" by (simp only: first_marker_def)
    ultimately show False using that by linarith
  qed
  moreover have "ends_sync (take ?n bs)"
    using rest by (simp add: ends_sync_iff length_SYNC)
  ultimately have "resync_loop (last_window []) bs br = Inr (True, (drop ?n bs, br))"
    using rest by (intro resync_loop_found) (auto simp: HEADER_LEN_def length_SYNC)
  then show ?thesis
    by (simp add: resync_to_marker_def last_window_def)
qed

lemma first_marker_exists:
  assumes "bs = p @ SYNC @ q"
  obtains pre where "first_marker pre bs"
proof -
  let ?P = "\<lambda>n. \<exists>p q. bs = p @ SYNC @ q \<and> length p = n"
  obtain pre q' where b: "bs = pre @ SYNC @ q'" and len: "length pre = (LEAST n. ?P n)"
    using LeastI [of ?P "length p"] assms by blast
  have "length pre \<le> length p'" if "bs = p' @ SYNC @ q''" for p' q''
    unfolding len using that by (intro Least_le) blast
  then have "\<forall>p q. bs = p @ SYNC @ q \<longrightarrow> length pre \<le> length p" by blast
  with b have "first_marker pre bs" unfolding first_marker_def by (intro conjI exI [of _ q'])
  then show ?thesis by (rule that)
qed

lemma resync_no_marker:
  assumes "\<And>p q. bs \<noteq> p @ SYNC @ q"
  shows "resync_to_marker (bs, br) = (if br then Inl ReadFailed else Inr (False, ([], br)))"
  using resync_loop_missing [of bs "[]" br] assms
  by (auto simp: resync_to_marker_def last_window_def ends_sync_take)

section \<open>Properties\<close>

text \<open>A stream of frames, each after any number of markers, and the reader's loop over it.\<close>

fun stream_of :: "(nat \<times> frame) list \<Rightarrow> io_error + bytes" where
  "stream_of [] = Inr []"
| "stream_of ((n, f) # fs) = rbind (write_frame (fr_ty f) (fr_id f) (fr_payload f))
     (\<lambda>w. rbind (stream_of fs) (\<lambda>ws. Inr (concat (replicate n SYNC) @ w @ ws)))"

fun read_frames :: "nat \<Rightarrow> reader \<Rightarrow> io_error + (frame list \<times> reader)" where
  "read_frames 0 r = Inr ([], r)"
| "read_frames (Suc k) r = (case read_frame r of
     Inl e \<Rightarrow> Inl e
   | Inr (None, r') \<Rightarrow> Inr ([], r')
   | Inr (Some f, r') \<Rightarrow> rbind (read_frames k r') (\<lambda>(fs, r''). Inr (f # fs, r'')))"

lemma read_frame_SYNCs: "read_frame (concat (replicate n SYNC) @ bs, br) = read_frame (bs, br)"
  by (induction n) (simp_all add: read_frame_SYNC)

lemma read_frames_stream:
  "stream_of fs = Inr bs \<Longrightarrow> read_frames (length fs) (bs @ rest, br) = Inr (map snd fs, (rest, br))"
proof (induction fs arbitrary: bs)
  case (Cons nf fs)
  obtain n f where nf: "nf = (n, f)" by (cases nf)
  obtain w ws where w: "write_frame (fr_ty f) (fr_id f) (fr_payload f) = Inr w" "stream_of fs = Inr ws"
      "bs = concat (replicate n SYNC) @ w @ ws"
    using Cons.prems nf by (auto simp: rbind_def split: sum.splits)
  show ?case
    using Cons.IH [OF w(2)] read_frame_written [OF w(1), of "ws @ rest" br]
    by (simp add: w(3) nf read_frame_SYNCs rbind_def)
qed simp

text \<open>
  C12: Frames written one after another, with any number of resync markers between them, are read
  back exactly and in order, and the reader stops right after the last frame.
\<close>

theorem frame_stream_roundtrip:
  assumes "stream_of fs = Inr bs"
  shows "read_frames (length fs) (bs @ rest, br) = Inr (map snd fs, (rest, br))"
  by (rule read_frames_stream [OF assms])

theorem frame_stream_roundtrip_witness:
  "\<exists>bs. stream_of [(2, \<lparr>fr_ty = 1, fr_id = 7, fr_payload = [1, 2]\<rparr>), (0, \<lparr>fr_ty = 3, fr_id = 8, fr_payload = []\<rparr>)] = Inr bs \<and>
     read_frames 2 (bs @ [9], False) =
       Inr ([\<lparr>fr_ty = 1, fr_id = 7, fr_payload = [1, 2]\<rparr>, \<lparr>fr_ty = 3, fr_id = 8, fr_payload = []\<rparr>], ([9], False))"
proof -
  let ?fs = "[(2, \<lparr>fr_ty = 1, fr_id = 7, fr_payload = [1, 2]\<rparr>), (0, \<lparr>fr_ty = 3, fr_id = 8, fr_payload = []\<rparr>)] :: (nat \<times> frame) list"
  obtain bs where bs: "stream_of ?fs = Inr bs"
    by (simp add: rbind_def write_frame_def MAX_PAYLOAD_LEN_def)
  then show ?thesis
    using frame_stream_roundtrip [OF bs, of "[9]" False] by (simp add: numeral_2_eq_2)
qed

text \<open>
  Resynchronisation stops right after the first marker. On any input, resync_to_marker consumes
  the bytes up to and including the first occurrence of the marker if there is one, and
  otherwise consumes everything and reports end of file or the read error.
\<close>

theorem resync_first_occurrence:
  "if \<exists>p q. bs = p @ SYNC @ q
   then \<exists>pre rest. bs = pre @ SYNC @ rest \<and> first_marker pre bs \<and> resync_to_marker (bs, br) = Inr (True, (rest, br))
   else resync_to_marker (bs, br) = (if br then Inl ReadFailed else Inr (False, ([], br)))"
proof (cases "\<exists>p q. bs = p @ SYNC @ q")
  case True
  then obtain pre where pre: "first_marker pre bs" using first_marker_exists by blast
  then obtain rest where "bs = pre @ SYNC @ rest" unfolding first_marker_def by blast
  moreover from this have "resync_to_marker (bs, br) = Inr (True, (rest, br))"
    using resync_first_marker [OF pre, of br] by (simp add: length_SYNC)
  ultimately show ?thesis using True pre by auto
next
  case False
  then show ?thesis using resync_no_marker [of bs br] by auto
qed

text \<open>
  Recovery from console noise. When the first nine bytes of noise announce an oversized payload and are
  not the marker, the reader skips to the first marker after them and returns the frame
  that follows it, with the rest of the stream untouched.
\<close>

theorem read_frame_recovers:
  assumes "length h = HEADER_LEN" "h \<noteq> SYNC" "MAX_PAYLOAD_LEN < le_val (take 4 h)"
    "write_frame ty fid p = Inr w" "first_marker junk (junk @ SYNC @ w @ rest)"
  shows "read_frame (h @ junk @ SYNC @ w @ rest, br) =
    Inr (Some \<lparr>fr_ty = ty, fr_id = fid, fr_payload = p\<rparr>, (rest, br))"
proof -
  have "resync_to_marker (junk @ SYNC @ w @ rest, br) = Inr (True, (w @ rest, br))"
    using resync_first_marker [OF assms(5), of br] by (simp add: length_SYNC)
  then show ?thesis
    using assms(2,3) read_frame_written [OF assms(4), of rest br] by (simp add: read_frame_header [OF assms(1)])
qed

theorem read_frame_recovers_witness:
  "\<exists>w. write_frame 6 3 [5] = Inr w \<and>
     read_frame ([0, 0, 0x20, 0, 1, 2, 3, 4, 5] @ [] @ SYNC @ w @ [4], True) =
       Inr (Some \<lparr>fr_ty = 6, fr_id = 3, fr_payload = [5]\<rparr>, ([4], True))"
proof -
  let ?h = "[0, 0, 0x20, 0, 1, 2, 3, 4, 5] :: bytes"
  obtain w where w: "write_frame 6 3 [5] = Inr w" by (simp add: write_frame_def MAX_PAYLOAD_LEN_def)
  have h: "length ?h = HEADER_LEN" "?h \<noteq> SYNC" "MAX_PAYLOAD_LEN < le_val (take 4 ?h)"
    by (simp_all add: HEADER_LEN_def SYNC_def MAX_PAYLOAD_LEN_def)
  have "first_marker [] ([] @ SYNC @ w @ [4])" by (auto simp: first_marker_def)
  from read_frame_recovers [OF h w this, of True] w show ?thesis by blast
qed

text \<open>No frame the reader returns has a payload above the limit, whatever the input.\<close>

theorem read_frame_bounded:
  assumes "read_frame r = Inr (Some f, r')"
  shows "length (fr_payload f) \<le> MAX_PAYLOAD_LEN"
  by (rule read_frame_payload_bound [OF assms])

theorem read_frame_bounded_witness:
  "\<exists>w f r'. write_frame 6 3 [5] = Inr w \<and> read_frame (w, False) = Inr (Some f, r') \<and> length (fr_payload f) \<le> MAX_PAYLOAD_LEN"
proof -
  obtain w where w: "write_frame 6 3 [5] = Inr w" by (simp add: write_frame_def MAX_PAYLOAD_LEN_def)
  from read_frame_written [OF w, of "[]" False] have r:
    "read_frame (w, False) = Inr (Some \<lparr>fr_ty = 6, fr_id = 3, fr_payload = [5]\<rparr>, ([], False))" by simp
  show ?thesis using w r read_frame_bounded [OF r] by blast
qed

lemma scrollback_push_bytes:
  "length (sb_bytes sb) \<le> sb_limit sb \<Longrightarrow> length (sb_bytes sb) + length chunk \<le> usize_max \<Longrightarrow>
   sb_bytes (scrollback_push chunk sb) = drop (length (sb_bytes sb) + length chunk - sb_limit sb) (sb_bytes sb @ chunk)"
  by (auto simp: scrollback_push_def sat_add_usize_def Let_def min_def)

lemma scrollback_limit [simp]: "sb_limit (scrollback_push chunk sb) = sb_limit sb"
  by (simp add: scrollback_push_def Let_def)

lemma last_of_last:
  fixes n :: nat
  shows "drop (length (drop (length ws - n) ws @ ys) - n) (drop (length ws - n) ws @ ys) = drop (length (ws @ ys) - n) (ws @ ys)"
proof (cases "n \<le> length ws")
  case True
  then have "drop (length ws - n) ws @ ys = drop (length ws - n) (ws @ ys)" by simp
  then show ?thesis using True by (simp only: drop_drop length_drop length_append) (simp add: add.commute)
qed simp

text \<open>The lengths of the pushed chunks fit a usize together with the limit.\<close>

lemma scrollback_fold:
  "length (sb_bytes sb) \<le> sb_limit sb \<Longrightarrow> list_all (\<lambda>c. sb_limit sb + length c \<le> usize_max) chunks \<Longrightarrow>
   sb_bytes (fold scrollback_push chunks sb) =
     drop (length (sb_bytes sb @ concat chunks) - sb_limit sb) (sb_bytes sb @ concat chunks)"
proof (induction chunks arbitrary: sb)
  case (Cons c cs)
  have b: "sb_bytes (scrollback_push c sb) = drop (length (sb_bytes sb) + length c - sb_limit sb) (sb_bytes sb @ c)"
    using Cons.prems by (intro scrollback_push_bytes) auto
  then have "length (sb_bytes (scrollback_push c sb)) \<le> sb_limit (scrollback_push c sb)" by simp
  from Cons.IH [OF this] Cons.prems(2)
  have "sb_bytes (fold scrollback_push (c # cs) sb) =
    drop (length (sb_bytes (scrollback_push c sb) @ concat cs) - sb_limit sb) (sb_bytes (scrollback_push c sb) @ concat cs)"
    by simp
  also have "\<dots> = drop (length ((sb_bytes sb @ c) @ concat cs) - sb_limit sb) ((sb_bytes sb @ c) @ concat cs)"
    unfolding b using last_of_last [of "sb_bytes sb @ c" "sb_limit sb" "concat cs"] by (simp only: length_append)
  finally show ?case by simp
qed simp

text \<open>
  The scrollback holds the most recent bytes. After any sequence of chunks, the snapshot is the
  last bytes of their concatenation, as many as the limit allows.
\<close>

theorem scrollback_keeps_latest:
  assumes "list_all (\<lambda>c. limit + length c \<le> usize_max) chunks"
  shows "snapshot (fold scrollback_push chunks (scrollback_new limit)) =
    drop (length (concat chunks) - limit) (concat chunks)"
  using scrollback_fold [of "scrollback_new limit" chunks] assms by (simp add: scrollback_new_def snapshot_def)

theorem scrollback_keeps_latest_witness:
  "snapshot (fold scrollback_push [[1, 2], [3], [4, 5]] (scrollback_new 4)) = [2, 3, 4, 5]"
  using scrollback_keeps_latest [of 4 "[[1, 2], [3], [4, 5]]"] by simp

end
