(* ===== verification/DiskDelta.thy ===== *)
theory DiskDelta
  imports Prelude
begin

text \<open>
  The disk block delta of a live migration, \<^verbatim>\<open>vmond/src/engine/diskdelta.rs\<close>. Images and delta
  files are byte lists, \<open>None\<close> for a file that cannot be opened; \<open>wr\<close> is whether creating and
  writing the output succeeds. Offsets and lengths are numbers below \<open>2 ^ 64\<close>, the sizes a file
  can have. The source reads the images several times while nobody writes them.
\<close>

section \<open>Constants and file access\<close>

definition MAGIC :: bytes where
  "MAGIC = [0x56, 0x4d, 0x4f, 0x4e, 0x44, 0x53, 0x4b, 0x31]"

definition BLOCK_LEN :: nat where "BLOCK_LEN = 65536"
definition MAX_RECORD_LEN :: nat where "MAX_RECORD_LEN = 4194304"
definition MAX_COMPARE_WORKERS :: nat where "MAX_COMPARE_WORKERS = 8"
definition MIN_COMPARE_CHUNK_LEN :: nat where "MIN_COMPARE_CHUNK_LEN = 67108864"
definition COMPARE_BUF_LEN :: nat where "COMPARE_BUF_LEN = 16 * BLOCK_LEN"

type_synonym runs = "(nat \<times> nat) list"

definition open_for_delta :: "bytes option \<Rightarrow> bytes result" where
  "open_for_delta f = (case f of None \<Rightarrow> Inl Engine | Some b \<Rightarrow> Inr b)"

text \<open>A seek followed by \<^verbatim>\<open>read_exact\<close>, or the next read of a file read in sequence.\<close>

definition read_block :: "bytes \<Rightarrow> nat \<Rightarrow> nat \<Rightarrow> bytes result" where
  "read_block file offset n = (if offset + n \<le> length file then Inr (take n (drop offset file)) else Inl Engine)"

section \<open>Comparing\<close>

definition push_run :: "runs \<Rightarrow> nat \<times> nat \<Rightarrow> runs" where
  "push_run runs x = (case x of (offset, len) \<Rightarrow>
     if len = 0 then runs
     else if runs \<noteq> [] \<and> fst (last runs) + snd (last runs) = offset
     then butlast runs @ [(fst (last runs), snd (last runs) + len)]
     else runs @ [(offset, len)])"

function diff_blocks :: "bytes \<Rightarrow> bytes \<Rightarrow> nat \<Rightarrow> nat \<Rightarrow> nat \<Rightarrow> runs \<Rightarrow> runs" where
  "diff_blocks current_buf base_buf offset want pos runs =
     (if pos < want
      then let len = min want (pos + BLOCK_LEN) - pos;
               runs' = (if take len (drop pos current_buf) \<noteq> take len (drop pos base_buf)
                        then push_run runs (offset + pos, len) else runs)
           in diff_blocks current_buf base_buf offset want (pos + BLOCK_LEN) runs'
      else runs)"
  by pat_completeness auto
termination by (relation "measure (\<lambda>(_, _, _, want, pos, _). want - pos)") (auto simp: BLOCK_LEN_def)

function diff_slabs :: "bytes \<Rightarrow> bytes \<Rightarrow> nat \<Rightarrow> nat \<Rightarrow> runs \<Rightarrow> runs result" where
  "diff_slabs base current offset end runs =
     (if offset < end
      then let want = min (end - offset) COMPARE_BUF_LEN in
        rbind (read_block current offset want) (\<lambda>current_buf.
        rbind (read_block base offset want) (\<lambda>base_buf.
          diff_slabs base current (offset + want) end
            (diff_blocks current_buf base_buf offset want 0 runs)))
      else Inr runs)"
  by pat_completeness auto
termination
  by (relation "measure (\<lambda>(_, _, offset, end, _). end - offset)") (auto simp: COMPARE_BUF_LEN_def BLOCK_LEN_def)

declare diff_blocks.simps [simp del] diff_slabs.simps [simp del]

definition diff_chunk :: "bytes \<Rightarrow> bytes \<Rightarrow> nat \<Rightarrow> nat \<Rightarrow> runs result" where
  "diff_chunk base current start end =
     (if start \<ge> end then Inr [] else diff_slabs base current start end [])"

text \<open>\<open>cpus\<close> is the reported parallelism, \<open>None\<close> when it is unknown.\<close>

definition next_multiple_of :: "nat \<Rightarrow> nat \<Rightarrow> nat" where
  "next_multiple_of a b = (if a mod b = 0 then a else a + (b - a mod b))"

definition compare_chunk_len :: "nat option \<Rightarrow> nat \<Rightarrow> nat" where
  "compare_chunk_len cpus compare_end =
     (let workers = min (case cpus of None \<Rightarrow> 1 | Some n \<Rightarrow> n) MAX_COMPARE_WORKERS
      in max (next_multiple_of (div_ceil compare_end workers) BLOCK_LEN) MIN_COMPARE_CHUNK_LEN)"

fun collect_results :: "'a result list \<Rightarrow> 'a list result" where
  "collect_results [] = Inr []"
| "collect_results (r # rs) = rbind r (\<lambda>x. rbind (collect_results rs) (\<lambda>xs. Inr (x # xs)))"

definition compare_chunks :: "bytes \<Rightarrow> bytes \<Rightarrow> nat \<Rightarrow> nat \<Rightarrow> runs result" where
  "compare_chunks base current compare_end chunk_len =
     (let chunk_count = div_ceil compare_end chunk_len in
      if chunk_count \<le> 1 then diff_chunk base current 0 compare_end
      else rbind (collect_results (map (\<lambda>index. let start = index * chunk_len in
                    diff_chunk base current start (min compare_end (start + chunk_len))) [0..<chunk_count]))
             (\<lambda>chunks. Inr (fold (\<lambda>chunk_runs runs. fold (\<lambda>x runs. push_run runs x) chunk_runs runs) chunks [])))"

section \<open>Writing\<close>

definition flush_record :: "nat \<Rightarrow> bytes \<Rightarrow> bytes \<times> nat" where
  "flush_record offset data = (if data = [] then ([], 0)
     else (le_bytes 8 offset @ le_bytes 4 (length data) @ data, length data))"

text \<open>The records of one run, split at the cap, and the data bytes they carry.\<close>

function emit_run :: "bytes \<Rightarrow> nat \<Rightarrow> nat \<Rightarrow> (bytes \<times> nat) result" where
  "emit_run current offset remaining =
     (if remaining > 0
      then let len = min remaining MAX_RECORD_LEN in
        rbind (read_block current offset len) (\<lambda>data.
          let (out, n) = flush_record offset data in
          rbind (emit_run current (offset + len) (remaining - len)) (\<lambda>(out', n').
            Inr (out @ out', n + n')))
      else Inr ([], 0))"
  by pat_completeness auto
termination by (relation "measure (\<lambda>(_, _, remaining). remaining)") (auto simp: MAX_RECORD_LEN_def)

declare emit_run.simps [simp del]

fun emit_runs :: "bytes \<Rightarrow> runs \<Rightarrow> (bytes \<times> nat) result" where
  "emit_runs current [] = Inr ([], 0)"
| "emit_runs current ((offset, len) # runs) =
     rbind (emit_run current offset len) (\<lambda>(out, n).
     rbind (emit_runs current runs) (\<lambda>(out', n'). Inr (out @ out', n + n')))"

definition write_disk_delta_chunked ::
  "bool \<Rightarrow> nat option \<Rightarrow> bytes option \<Rightarrow> bytes option \<Rightarrow> nat option \<Rightarrow> (bytes \<times> nat) result" where
  "write_disk_delta_chunked wr cpus base current chunk_len =
     rbind (open_for_delta base) (\<lambda>base.
     rbind (open_for_delta current) (\<lambda>current.
       if \<not> wr then Inl Engine
       else
         let base_len = length base; current_len = length current;
             header = MAGIC @ le_bytes 8 base_len @ le_bytes 8 current_len;
             compare_end = (if current_len \<le> base_len then current_len else base_len - base_len mod BLOCK_LEN);
             chunk_len = (case chunk_len of None \<Rightarrow> compare_chunk_len cpus compare_end | Some c \<Rightarrow> c)
         in rbind (compare_chunks base current compare_end chunk_len) (\<lambda>runs.
              let runs' = (if current_len > compare_end
                           then push_run runs (compare_end, current_len - compare_end) else runs)
              in rbind (emit_runs current runs') (\<lambda>(out, total). Inr (header @ out, total)))))"

definition write_disk_delta :: "bool \<Rightarrow> nat option \<Rightarrow> bytes option \<Rightarrow> bytes option \<Rightarrow> (bytes \<times> nat) result" where
  "write_disk_delta wr cpus base current = write_disk_delta_chunked wr cpus base current None"

section \<open>Applying\<close>

definition set_len :: "nat \<Rightarrow> bytes \<Rightarrow> bytes" where
  "set_len n file = take n file @ replicate (n - length file) 0"

definition write_at :: "nat \<Rightarrow> bytes \<Rightarrow> bytes \<Rightarrow> bytes" where
  "write_at offset data file = take offset file @ data @ drop (offset + length data) file"

definition read_u64 :: "bytes \<Rightarrow> (nat \<times> bytes) result" where
  "read_u64 s = (case read_exact 8 s of None \<Rightarrow> Inl Invalid | Some (b, s') \<Rightarrow> Inr (le_val b, s'))"

text \<open>
  The record loop: the delta still to read, where the next record may start, and the target,
  which is patched in place and keeps what was written before an error.
\<close>

function apply_records :: "nat \<Rightarrow> nat \<Rightarrow> bytes \<Rightarrow> bytes \<Rightarrow> bytes \<times> unit result" where
  "apply_records current_len next_offset s target =
     (if s = [] then (target, Inr ())
      else case read_exact 8 s of
        None \<Rightarrow> (target, Inl Invalid)
      | Some (ob, s1) \<Rightarrow> (case read_exact 4 s1 of
          None \<Rightarrow> (target, Inl Invalid)
        | Some (lb, s2) \<Rightarrow>
            let offset = le_val ob; len = le_val lb in
            if len = 0 then (target, Inl Invalid)
            else if len > MAX_RECORD_LEN then (target, Inl Invalid)
            else if offset < next_offset then (target, Inl Invalid)
            else case checked_add_u64 offset len of
              None \<Rightarrow> (target, Inl Invalid)
            | Some end \<Rightarrow>
                if \<not> end \<le> current_len then (target, Inl Invalid)
                else case read_exact len s2 of
                  None \<Rightarrow> (target, Inl Invalid)
                | Some (data, s3) \<Rightarrow> apply_records current_len end s3 (write_at offset data target)))"
  by pat_completeness auto
termination
  by (relation "measure (\<lambda>(_, _, s, _). length s)") (auto simp: read_exact_def split: if_splits)

declare apply_records.simps [simp del]

definition apply_disk_delta :: "bool \<Rightarrow> bytes option \<Rightarrow> bytes option \<Rightarrow> bytes option \<times> unit result" where
  "apply_disk_delta resize_ok delta target = (case delta of
     None \<Rightarrow> (target, Inl Engine)
   | Some d \<Rightarrow> (case read_exact 8 d of
       None \<Rightarrow> (target, Inl Invalid)
     | Some (magic, s) \<Rightarrow>
         if magic \<noteq> MAGIC then (target, Inl Invalid)
         else case read_u64 s of
           Inl e \<Rightarrow> (target, Inl e)
         | Inr (base_len, s1) \<Rightarrow> (case read_u64 s1 of
             Inl e \<Rightarrow> (target, Inl e)
           | Inr (current_len, s2) \<Rightarrow> (case target of
               None \<Rightarrow> (target, Inl Engine)
             | Some t \<Rightarrow>
                 if length t \<noteq> base_len then (target, Inl Invalid)
                 else if \<not> resize_ok then (target, Inl Engine)
                 else case apply_records current_len 0 s2 (set_len current_len t) of
                   (t', res) \<Rightarrow> (Some t', res)))))"

end
