(* ===== verification/DiskDeltaProps.thy ===== *)
theory DiskDeltaProps
  imports DiskDelta
begin

text \<open>
  Correctness of the disk delta: the chunked comparison finds the runs of a sequential scan,
  the written records patch a copy of the base into the current image, and a delta that
  does not fit its target leaves it alone.
\<close>

section \<open>Runs\<close>

definition push_all :: "runs \<Rightarrow> runs \<Rightarrow> runs" where
  "push_all xs runs = fold (\<lambda>x runs. push_run runs x) xs runs"

lemma push_all_simps [simp]:
  "push_all [] R = R" "push_all (x # xs) R = push_all xs (push_run R x)"
  "push_all (xs @ ys) R = push_all ys (push_all xs R)"
  by (simp_all add: push_all_def)

definition positive :: "runs \<Rightarrow> bool" where
  "positive R \<longleftrightarrow> (\<forall>x\<in>set R. 0 < snd x)"

lemma push_run_positive: "positive R \<Longrightarrow> positive (push_run R x)"
  by (cases x; cases R rule: rev_cases) (auto simp: push_run_def positive_def)

lemma push_all_positive: "positive R \<Longrightarrow> positive (push_all xs R)"
  by (induction xs arbitrary: R) (auto simp: push_run_positive)

lemma push_run_zero [simp]: "push_run R (a, 0) = R"
  by (simp add: push_run_def)

lemma push_run_split: "0 < n \<Longrightarrow> push_run R (a, n + m) = push_run (push_run R (a, n)) (a + n, m)"
  by (cases "m = 0") (auto simp: push_run_def)

text \<open>Pushing coalesced runs is pushing what they were coalesced from.\<close>

lemma push_all_push_run:
  assumes "positive Q"
  shows "push_all (push_run Q x) R = push_run (push_all Q R) x"
proof -
  obtain a m where x: "x = (a, m)" by (cases x)
  show ?thesis
  proof (cases "m \<noteq> 0 \<and> Q \<noteq> [] \<and> fst (last Q) + snd (last Q) = a")
    case True
    then obtain Q' b n where Q: "Q = Q' @ [(b, n)]" "a = b + n"
      by (metis append_butlast_last_id fst_conv snd_conv surj_pair)
    then have "0 < n" using assms by (auto simp: positive_def)
    then show ?thesis using True by (simp add: x Q push_run_def [of "Q' @ [(b, n)]"] push_run_split)
  next
    case False
    then show ?thesis by (auto simp: x push_run_def [of Q])
  qed
qed

lemma push_all_coalesced: "push_all (push_all xs []) R = push_all xs R"
proof (induction xs rule: rev_induct)
  case (snoc x xs)
  have "positive (push_all xs [])" by (rule push_all_positive) (simp add: positive_def)
  then show ?case using snoc.IH by (simp add: push_all_push_run)
qed simp

section \<open>The block grid\<close>

function blocks :: "nat \<Rightarrow> nat \<Rightarrow> runs" where
  "blocks offset stop = (if offset < stop then (offset, min BLOCK_LEN (stop - offset)) # blocks (offset + BLOCK_LEN) stop else [])"
  by pat_completeness auto
termination by (relation "measure (\<lambda>(offset, stop). stop - offset)") (auto simp: BLOCK_LEN_def)

declare blocks.simps [simp del]

lemma blocks_empty [simp]: "stop \<le> offset \<Longrightarrow> blocks offset stop = []"
  by (subst blocks.simps) simp

lemma blocks_append:
  "o1 + k * BLOCK_LEN \<le> stop \<Longrightarrow> blocks o1 stop = blocks o1 (o1 + k * BLOCK_LEN) @ blocks (o1 + k * BLOCK_LEN) stop"
proof (induction k arbitrary: o1)
  case (Suc k)
  have pos: "0 < BLOCK_LEN" by (simp add: BLOCK_LEN_def)
  have "blocks (o1 + BLOCK_LEN) stop =
      blocks (o1 + BLOCK_LEN) (o1 + BLOCK_LEN + k * BLOCK_LEN) @ blocks (o1 + BLOCK_LEN + k * BLOCK_LEN) stop"
    using Suc.prems by (intro Suc.IH) simp
  then show ?case
    using Suc.prems pos blocks.simps [of o1 stop] blocks.simps [of o1 "o1 + BLOCK_LEN + k * BLOCK_LEN"]
    by (simp add: add.assoc min_def)
qed simp

definition changed :: "bytes \<Rightarrow> bytes \<Rightarrow> nat \<times> nat \<Rightarrow> bool" where
  "changed base current x = (case x of (a, n) \<Rightarrow> take n (drop a current) \<noteq> take n (drop a base))"

lemma slice_slice: "p + n \<le> w \<Longrightarrow> take n (drop p (take w (drop a xs))) = take n (drop (a + p) xs)"
  by (simp add: drop_take min_def add.commute)

lemma diff_blocks_eq:
  assumes "current_buf = take want (drop offset current)" "base_buf = take want (drop offset base)"
  shows "diff_blocks current_buf base_buf offset want pos R =
    push_all (filter (changed base current) (blocks (offset + pos) (offset + want))) R"
  using assms
proof (induction current_buf base_buf offset want pos R rule: diff_blocks.induct)
  case (1 cb bb offset want pos R)
  show ?case
  proof (cases "pos < want")
    case True
    define len where "len = min want (pos + BLOCK_LEN) - pos"
    have len: "pos + len \<le> want" "min BLOCK_LEN (want - pos) = len"
      using True by (auto simp: len_def)
    have "take len (drop pos cb) \<noteq> take len (drop pos bb) \<longleftrightarrow> changed base current (offset + pos, len)"
      using "1.prems" len by (simp add: changed_def slice_slice)
    then show ?thesis
      using "1.IH" [OF True len_def refl "1.prems"] True len(2)
      by (subst diff_blocks.simps, subst blocks.simps) (simp add: Let_def len_def [symmetric] add.assoc)
  qed (simp add: diff_blocks.simps)
qed

text \<open>A comparison of \<open>[offset, stop)\<close> within both images finds the changed blocks of the grid.\<close>

lemma diff_slabs_eq:
  assumes "stop \<le> length base" "stop \<le> length current"
  shows "diff_slabs base current offset stop R = Inr (push_all (filter (changed base current) (blocks offset stop)) R)"
  using assms
proof (induction base current offset stop R rule: diff_slabs.induct)
  case (1 base current offset stop R)
  show ?case
  proof (cases "offset < stop")
    case True
    define want where "want = min (stop - offset) COMPARE_BUF_LEN"
    have want: "offset + want \<le> stop" using True by (simp add: want_def)
    have split: "blocks offset stop = blocks offset (offset + want) @ blocks (offset + want) stop"
    proof (cases "stop - offset \<le> COMPARE_BUF_LEN")
      case False
      then have "want = 16 * BLOCK_LEN" by (simp add: want_def COMPARE_BUF_LEN_def)
      then show ?thesis using blocks_append [of offset 16 stop] want by simp
    qed (use True in \<open>simp add: want_def\<close>)
    have reads: "read_block current offset want = Inr (take want (drop offset current))"
      "read_block base offset want = Inr (take want (drop offset base))"
      using want "1.prems" by (auto simp: read_block_def)
    have "diff_slabs base current offset stop R =
        diff_slabs base current (offset + want) stop
          (push_all (filter (changed base current) (blocks offset (offset + want))) R)"
      using True reads by (subst diff_slabs.simps) (simp add: Let_def want_def [symmetric] diff_blocks_eq)
    also have "\<dots> = Inr (push_all (filter (changed base current) (blocks (offset + want) stop))
        (push_all (filter (changed base current) (blocks offset (offset + want))) R))"
      using "1.IH" [OF True want_def "1.prems", of "take want (drop offset current)" "take want (drop offset base)"] by (simp add: diff_blocks_eq)
    finally show ?thesis by (simp add: split)
  qed (simp add: diff_slabs.simps)
qed

lemma diff_chunk_eq:
  assumes "stop \<le> length base" "stop \<le> length current"
  shows "diff_chunk base current start stop = Inr (push_all (filter (changed base current) (blocks start stop)) [])"
  using diff_slabs_eq [OF assms] by (simp add: diff_chunk_def)

section \<open>Chunks\<close>

lemma collect_results_Inr: "collect_results (map (\<lambda>i. Inr (f i)) xs) = Inr (map f xs)"
  by (induction xs) auto

lemma div_ceil_below:
  assumes "j < div_ceil e c" "0 < c"
  shows "j * c < e"
proof (rule ccontr)
  assume "\<not> j * c < e"
  then have "div_ceil e c \<le> j" using div_ceil_least [of c e j] assms(2) by (simp add: mult.commute)
  then show False using assms(1) by simp
qed

lemma chunk_merge:
  assumes "c = k * BLOCK_LEN" "0 < c" "j \<le> div_ceil e c"
  shows "fold (\<lambda>chunk_runs runs. push_all chunk_runs runs)
      (map (\<lambda>i. push_all (filter P (blocks (i * c) (min e (i * c + c)))) []) [0..<j]) [] =
    push_all (filter P (blocks 0 (min e (j * c)))) []"
  using assms(3)
proof (induction j)
  case (Suc j)
  have below: "j * c < e" using div_ceil_below [of j e c] Suc.prems assms(2) by simp
  have "blocks 0 (min e (Suc j * c)) = blocks 0 (j * c) @ blocks (j * c) (min e (j * c + c))"
    using blocks_append [of 0 "j * k" "min e (Suc j * c)"] below by (simp add: assms(1) mult.assoc add.commute)
  then show ?case
    using Suc below by (simp add: push_all_coalesced)
qed simp

lemma compare_chunks_eq:
  assumes "e \<le> length base" "e \<le> length current" "c = k * BLOCK_LEN" "0 < c"
  shows "compare_chunks base current e c = Inr (push_all (filter (changed base current) (blocks 0 e)) [])"
proof (cases "div_ceil e c \<le> 1")
  case True
  then show ?thesis using diff_chunk_eq [OF assms(1,2), of 0] by (simp add: compare_chunks_def)
next
  case False
  have chunks: "(\<lambda>i. diff_chunk base current (i * c) (min e (i * c + c))) =
      (\<lambda>i. Inr (push_all (filter (changed base current) (blocks (i * c) (min e (i * c + c)))) []))"
    using assms(1,2) by (intro ext) (simp add: diff_chunk_eq)
  have all: "min e (div_ceil e c * c) = e"
    using div_ceil_le [of c e] assms(4) by (simp add: min_def mult.commute)
  show ?thesis
    using False chunk_merge [OF assms(3,4) order_refl, where e = e and P = "changed base current"]
    unfolding compare_chunks_def Let_def chunks collect_results_Inr all push_all_def [symmetric] by simp
qed

section \<open>Run sets\<close>

fun ordered_runs :: "nat \<Rightarrow> runs \<Rightarrow> bool" where
  "ordered_runs b [] = True"
| "ordered_runs b ((a, n) # R) = (b \<le> a \<and> 0 < n \<and> ordered_runs (a + n) R)"

fun runs_end :: "nat \<Rightarrow> runs \<Rightarrow> nat" where
  "runs_end b [] = b"
| "runs_end b ((a, n) # R) = runs_end (a + n) R"

definition run_set :: "runs \<Rightarrow> nat set" where
  "run_set R = (\<Union>(a, n)\<in>set R. {a..<a + n})"

lemma run_set_simps [simp]:
  "run_set [] = {}" "run_set ((a, n) # R) = {a..<a + n} \<union> run_set R" "run_set (R @ S) = run_set R \<union> run_set S"
  by (auto simp: run_set_def)

lemma ordered_runs_append:
  "ordered_runs b (R @ S) \<longleftrightarrow> ordered_runs b R \<and> ordered_runs (runs_end b R) S"
  by (induction b R rule: ordered_runs.induct) auto

lemma runs_end_append [simp]: "runs_end b (R @ S) = runs_end (runs_end b R) S"
  by (induction b R rule: runs_end.induct) auto

lemma push_run_wf:
  assumes "ordered_runs b R" "runs_end b R \<le> a" "0 < n"
  shows "ordered_runs b (push_run R (a, n)) \<and> runs_end b (push_run R (a, n)) = a + n \<and>
    run_set (push_run R (a, n)) = run_set R \<union> {a..<a + n}"
  using assms
  by (cases R rule: rev_cases) (auto simp: push_run_def ordered_runs_append split: if_splits)

lemma push_all_wf:
  assumes "ordered_runs b R" "ordered_runs (runs_end b R) xs"
  shows "ordered_runs b (push_all xs R) \<and> runs_end b (push_all xs R) = runs_end (runs_end b R) xs \<and>
    run_set (push_all xs R) = run_set R \<union> run_set xs"
  using assms
proof (induction xs arbitrary: R)
  case (Cons x xs)
  obtain a n where x: "x = (a, n)" by (cases x)
  from push_run_wf [OF Cons.prems(1), of a n] Cons.prems(2) x
  show ?case using Cons.IH [of "push_run R (a, n)"] by auto
qed simp

lemma ordered_runs_le_end: "ordered_runs b R \<Longrightarrow> b \<le> runs_end b R"
  by (induction b R rule: runs_end.induct) auto

lemma ordered_runs_mono: "ordered_runs b R \<Longrightarrow> c \<le> b \<Longrightarrow> ordered_runs c R"
  by (cases R) auto

lemma blocks_wf: "ordered_runs offset (filter P (blocks offset stop)) \<and>
    runs_end offset (filter P (blocks offset stop)) \<le> max offset stop"
proof (induction offset stop rule: blocks.induct)
  case (1 offset stop)
  show ?case
  proof (cases "offset < stop")
    case True
    then have IH: "ordered_runs (offset + BLOCK_LEN) (filter P (blocks (offset + BLOCK_LEN) stop))"
        "runs_end (offset + BLOCK_LEN) (filter P (blocks (offset + BLOCK_LEN) stop)) \<le> max (offset + BLOCK_LEN) stop"
      using "1.IH" by auto
    show ?thesis
    proof (cases "stop - offset \<le> BLOCK_LEN")
      case True
      then show ?thesis using \<open>offset < stop\<close> by (simp add: blocks.simps [of offset])
    next
      case False
      then show ?thesis
        using \<open>offset < stop\<close> IH ordered_runs_mono [OF IH(1), of offset]
        by (cases "filter P (blocks (offset + BLOCK_LEN) stop)")
          (auto simp: blocks.simps [of offset] BLOCK_LEN_def min_def)
    qed
  qed simp
qed

section \<open>Patching\<close>

text \<open>The target with the positions in \<open>S\<close> taken from the current image.\<close>

definition mix :: "nat set \<Rightarrow> bytes \<Rightarrow> bytes \<Rightarrow> bytes" where
  "mix S current t = map (\<lambda>i. if i \<in> S then current ! i else t ! i) [0..<length t]"

lemma length_mix [simp]: "length (mix S current t) = length t"
  by (simp add: mix_def)

lemma mix_mix: "mix S current (mix T current t) = mix (S \<union> T) current t"
  by (auto simp: mix_def)

lemma mix_empty [simp]: "mix {} current t = t"
  by (simp add: mix_def map_nth)

lemma mix_all:
  assumes "length t = length current" "\<And>i. i < length current \<Longrightarrow> i \<notin> S \<Longrightarrow> t ! i = current ! i"
  shows "mix S current t = current"
  using assms by (auto simp: mix_def intro!: nth_equalityI)

lemma write_at_mix:
  assumes "a + n \<le> length current" "length t = length current"
  shows "write_at a (take n (drop a current)) t = mix {a..<a + n} current t"
  using assms by (intro nth_equalityI) (auto simp: write_at_def mix_def nth_append min_def)

lemma apply_one_record:
  assumes "0 < length d" "length d \<le> MAX_RECORD_LEN" "b \<le> a" "a + length d \<le> L" "L \<le> u64_max"
  shows "apply_records L b (le_bytes 8 a @ le_bytes 4 (length d) @ d @ s) t = apply_records L (a + length d) s (write_at a d t)"
proof -
  have "le_val (le_bytes 8 a) = a" "le_val (le_bytes 4 (length d)) = length d"
    using assms by (auto simp: MAX_RECORD_LEN_def intro!: le_val_le_bytes_id)
  moreover have "le_bytes 8 a @ x \<noteq> []" for x
    by (metis append_is_Nil_conv length_le_bytes list.size(3) zero_neq_numeral)
  ultimately show ?thesis
    using assms by (subst apply_records.simps) (simp add: checked_add_u64_def)
qed

lemma emit_run_apply:
  assumes "a + n \<le> length current" "length current \<le> u64_max"
  shows "\<exists>out. emit_run current a n = Inr (out, n) \<and>
    (\<forall>b s t. b \<le> a \<longrightarrow> length t = length current \<longrightarrow>
      apply_records (length current) b (out @ s) t =
        apply_records (length current) (if n = 0 then b else a + n) s (mix {a..<a + n} current t))"
  using assms
proof (induction current a n rule: emit_run.induct)
  case (1 current a n)
  show ?case
  proof (cases "0 < n")
    case True
    define len where "len = min n MAX_RECORD_LEN"
    define d where "d = take len (drop a current)"
    have len: "0 < len" "len \<le> n" "len \<le> MAX_RECORD_LEN" using True by (auto simp: len_def MAX_RECORD_LEN_def)
    have d: "length d = len" "read_block current a len = Inr d"
      using len "1.prems" by (auto simp: d_def read_block_def)
    obtain out where out: "emit_run current (a + len) (n - len) = Inr (out, n - len)"
      and rest: "\<And>b s t. b \<le> a + len \<Longrightarrow> length t = length current \<Longrightarrow>
        apply_records (length current) b (out @ s) t =
        apply_records (length current) (if n - len = 0 then b else a + len + (n - len)) s (mix {a + len..<a + len + (n - len)} current t)"
      using "1.IH" [OF True len_def refl prod.collapse] "1.prems" len by auto
    let ?rec = "le_bytes 8 a @ le_bytes 4 (length d) @ d"
    have "emit_run current a n = Inr (?rec @ out, n)"
      using True d out len by (subst emit_run.simps) (auto simp: Let_def len_def [symmetric] flush_record_def split: prod.splits)
    moreover have "apply_records (length current) b ((?rec @ out) @ s) t =
        apply_records (length current) (a + n) s (mix {a..<a + n} current t)" if "b \<le> a" "length t = length current" for b s t
    proof -
      have "apply_records (length current) b ((?rec @ out) @ s) t =
          apply_records (length current) (a + len) (out @ s) (mix {a..<a + len} current t)"
        using apply_one_record [of d b a "length current" "out @ s" t] d(1) len "1.prems" that
        by (simp add: d_def [symmetric] write_at_mix [of a len current t, folded d_def])
      moreover have "{a + len..<a + len + (n - len)} \<union> {a..<a + len} = {a..<a + n}" using len(2) by auto
      ultimately show ?thesis
        using rest [of "a + len" "mix {a..<a + len} current t" s] that len(2) by (auto simp: mix_mix)
    qed
    ultimately show ?thesis using True by auto
  qed (simp add: emit_run.simps)
qed

definition run_total :: "runs \<Rightarrow> nat" where
  "run_total R = sum_list (map snd R)"

lemma emit_runs_apply:
  assumes "ordered_runs b R" "runs_end b R \<le> length current" "length current \<le> u64_max" "length t = length current"
  shows "\<exists>out. emit_runs current R = Inr (out, run_total R) \<and>
    apply_records (length current) b out t = (mix (run_set R) current t, Inr ())"
  using assms
proof (induction R arbitrary: b t)
  case Nil
  then show ?case by (simp add: run_total_def apply_records.simps)
next
  case (Cons x R)
  obtain a n where x: "x = (a, n)" by (cases x)
  have ord: "b \<le> a" "0 < n" "ordered_runs (a + n) R" "runs_end (a + n) R \<le> length current"
    using Cons.prems x by auto
  have "a + n \<le> runs_end (a + n) R" using ord(3) by (rule ordered_runs_le_end)
  then obtain out where out: "emit_run current a n = Inr (out, n)"
      "\<And>s. apply_records (length current) b (out @ s) t = apply_records (length current) (a + n) s (mix {a..<a + n} current t)"
    using emit_run_apply [of a n current] Cons.prems(3,4) ord by auto
  obtain out' where out': "emit_runs current R = Inr (out', run_total R)"
      "apply_records (length current) (a + n) out' (mix {a..<a + n} current t) =
        (mix (run_set R) current (mix {a..<a + n} current t), Inr ())"
    using Cons.IH [OF ord(3,4) Cons.prems(3), of "mix {a..<a + n} current t"] Cons.prems(4) by auto
  show ?case using out out' by (simp add: x run_total_def mix_mix Un_commute)
qed

section \<open>The whole delta\<close>

lemma blocks_cover:
  "offset \<le> i \<Longrightarrow> i < stop \<Longrightarrow> \<exists>a n. (a, n) \<in> set (blocks offset stop) \<and> a \<le> i \<and> i < a + n"
proof (induction offset stop rule: blocks.induct)
  case (1 offset stop)
  show ?case
  proof (cases "i < offset + BLOCK_LEN")
    case True
    then show ?thesis
      using "1.prems" by (intro exI [of _ offset] exI [of _ "min BLOCK_LEN (stop - offset)"], subst blocks.simps) auto
  next
    case False
    then show ?thesis using "1.IH" "1.prems" by (subst blocks.simps) auto
  qed
qed

lemma unchanged_nth:
  assumes "\<not> changed base current (a, n)" "a \<le> i" "i < a + n" "i < length base" "i < length current"
  shows "base ! i = current ! i"
proof -
  have "take n (drop a current) ! (i - a) = take n (drop a base) ! (i - a)"
    using assms(1) by (simp add: changed_def)
  then show ?thesis using assms by simp
qed

definition compare_limit :: "nat \<Rightarrow> nat \<Rightarrow> nat" where
  "compare_limit base_len current_len = (if current_len \<le> base_len then current_len else base_len - base_len mod BLOCK_LEN)"

definition delta_runs :: "bytes \<Rightarrow> bytes \<Rightarrow> runs" where
  "delta_runs base current =
     (let e = compare_limit (length base) (length current); R = push_all (filter (changed base current) (blocks 0 e)) []
      in if length current > e then push_run R (e, length current - e) else R)"

definition chunk_ok :: "nat option \<Rightarrow> bool" where
  "chunk_ok c = (case c of None \<Rightarrow> True | Some n \<Rightarrow> 0 < n \<and> BLOCK_LEN dvd n)"

lemma compare_limit_le: "compare_limit n m \<le> n" "compare_limit n m \<le> m"
  by (auto simp: compare_limit_def)

lemma delta_runs_wf:
  "ordered_runs 0 (delta_runs base current) \<and> runs_end 0 (delta_runs base current) \<le> length current"
proof -
  let ?e = "compare_limit (length base) (length current)"
  let ?R = "push_all (filter (changed base current) (blocks 0 ?e)) []"
  have "ordered_runs 0 ?R" "runs_end 0 ?R \<le> ?e"
    using push_all_wf [of 0 "[]" "filter (changed base current) (blocks 0 ?e)"] blocks_wf [of 0 "changed base current" ?e] by auto
  then show ?thesis
    using push_run_wf [of 0 ?R ?e "length current - ?e"] compare_limit_le(2) [of "length base" "length current"]
    by (auto simp: delta_runs_def Let_def)
qed

lemma delta_runs_cover:
  assumes "i < length current" "i \<notin> run_set (delta_runs base current)"
  shows "set_len (length current) base ! i = current ! i"
proof -
  let ?e = "compare_limit (length base) (length current)"
  let ?R = "push_all (filter (changed base current) (blocks 0 ?e)) []"
  note wf = push_all_wf [of 0 "[]" "filter (changed base current) (blocks 0 ?e)"] blocks_wf [of 0 "changed base current" ?e]
  have R: "run_set ?R = run_set (filter (changed base current) (blocks 0 ?e))" "runs_end 0 ?R \<le> ?e" "ordered_runs 0 ?R"
    using wf by auto
  have i: "i < ?e" "i \<notin> run_set ?R"
    using assms push_run_wf [OF R(3,2), of "length current - ?e"]
    by (auto simp: delta_runs_def Let_def split: if_splits)
  then obtain a n where b: "(a, n) \<in> set (blocks 0 ?e)" "a \<le> i" "i < a + n"
    using blocks_cover [of 0 i ?e] by auto
  then have "\<not> changed base current (a, n)"
    using i(2) R(1) by (force simp: run_set_def)
  then have "base ! i = current ! i"
    using unchanged_nth [OF _ b(2,3)] i(1) compare_limit_le [of "length base" "length current"] by auto
  then show ?thesis
    using i(1) compare_limit_le [of "length base" "length current"] by (simp add: set_len_def nth_append)
qed

lemma compare_chunk_len_ok: "0 < compare_chunk_len cpus e \<and> BLOCK_LEN dvd compare_chunk_len cpus e"
proof -
  have "BLOCK_LEN dvd next_multiple_of n BLOCK_LEN" for n
  proof (cases "n mod BLOCK_LEN = 0")
    case False
    have "n + (BLOCK_LEN - n mod BLOCK_LEN) = n div BLOCK_LEN * BLOCK_LEN + BLOCK_LEN"
      using div_mult_mod_eq [of n BLOCK_LEN] mod_less_divisor [of BLOCK_LEN n] unfolding BLOCK_LEN_def by linarith
    then show ?thesis using False by (simp add: next_multiple_of_def)
  qed (auto simp: next_multiple_of_def)
  moreover have "BLOCK_LEN dvd MIN_COMPARE_CHUNK_LEN" "0 < MIN_COMPARE_CHUNK_LEN"
    by (simp_all add: BLOCK_LEN_def MIN_COMPARE_CHUNK_LEN_def)
  ultimately show ?thesis
    by (auto simp: compare_chunk_len_def Let_def max_def)
qed

definition delta_header :: "bytes \<Rightarrow> bytes \<Rightarrow> bytes" where
  "delta_header base current = MAGIC @ le_bytes 8 (length base) @ le_bytes 8 (length current)"

lemma write_disk_delta_eq:
  assumes "chunk_ok chunk"
  shows "write_disk_delta_chunked True cpus (Some base) (Some current) chunk =
    rbind (emit_runs current (delta_runs base current)) (\<lambda>(out, total). Inr (delta_header base current @ out, total))"
proof -
  let ?e = "compare_limit (length base) (length current)"
  let ?c = "case chunk of None \<Rightarrow> compare_chunk_len cpus ?e | Some c \<Rightarrow> c"
  have c: "0 < ?c" "BLOCK_LEN dvd ?c"
    using assms compare_chunk_len_ok [of cpus ?e] by (auto simp: chunk_ok_def split: option.splits)
  obtain k where k: "?c = k * BLOCK_LEN" using c(2) by (metis dvd_def mult.commute)
  have "compare_chunks base current ?e ?c = Inr (push_all (filter (changed base current) (blocks 0 ?e)) [])"
    using compare_limit_le [of "length base" "length current"] by (intro compare_chunks_eq [OF _ _ k c(1)])
  then show ?thesis
    unfolding write_disk_delta_chunked_def open_for_delta_def Let_def compare_limit_def [symmetric]
    by (simp add: delta_runs_def delta_header_def Let_def)
qed

lemma apply_header:
  assumes "length base \<le> u64_max" "length current \<le> u64_max"
  shows "apply_disk_delta True (Some (delta_header base current @ out)) (Some t) =
    (if length t \<noteq> length base then (Some t, Inl Invalid)
     else case apply_records (length current) 0 out (set_len (length current) t) of (t', res) \<Rightarrow> (Some t', res))"
proof -
  have "length MAGIC = 8" by (simp add: MAGIC_def)
  moreover have "le_val (le_bytes 8 (length base)) = length base" "le_val (le_bytes 8 (length current)) = length current"
    using assms by (auto intro!: le_val_le_bytes_id)
  ultimately show ?thesis
    by (simp add: apply_disk_delta_def delta_header_def read_u64_def)
qed

lemma length_set_len [simp]: "length (set_len n t) = n"
  by (simp add: set_len_def)

lemma delta_apply:
  assumes "length base \<le> u64_max" "length current \<le> u64_max"
  shows "\<exists>out. emit_runs current (delta_runs base current) = Inr (out, run_total (delta_runs base current)) \<and>
    apply_disk_delta True (Some (delta_header base current @ out)) (Some base) = (Some current, Inr ())"
proof -
  obtain out where "emit_runs current (delta_runs base current) = Inr (out, run_total (delta_runs base current))"
      "apply_records (length current) 0 out (set_len (length current) base) =
        (mix (run_set (delta_runs base current)) current (set_len (length current) base), Inr ())"
    using emit_runs_apply [of 0 "delta_runs base current" current "set_len (length current) base"] delta_runs_wf [of base current] assms(2)
    by auto
  moreover have "mix (run_set (delta_runs base current)) current (set_len (length current) base) = current"
    by (intro mix_all) (simp_all add: delta_runs_cover)
  ultimately show ?thesis
    using apply_header [OF assms, of out base] by auto
qed

lemma write_at_length: "a + length d \<le> length t \<Longrightarrow> length (write_at a d t) = length t"
  by (simp add: write_at_def)

lemma apply_records_length:
  "length t = L \<Longrightarrow> length (fst (apply_records L b s t)) = L"
proof (induction L b s t rule: apply_records.induct)
  case (1 L b s t)
  show ?case
  proof (cases "\<exists>ob s1 lb s2 data s3. s \<noteq> [] \<and> read_exact 8 s = Some (ob, s1) \<and> read_exact 4 s1 = Some (lb, s2) \<and>
      le_val lb \<noteq> 0 \<and> \<not> le_val lb > MAX_RECORD_LEN \<and> \<not> le_val ob < b \<and>
      checked_add_u64 (le_val ob) (le_val lb) = Some (le_val ob + le_val lb) \<and> le_val ob + le_val lb \<le> L \<and>
      read_exact (le_val lb) s2 = Some (data, s3)")
    case True
    then obtain ob s1 lb s2 data s3 where r: "s \<noteq> []" "read_exact 8 s = Some (ob, s1)" "read_exact 4 s1 = Some (lb, s2)"
      "le_val lb \<noteq> 0" "\<not> le_val lb > MAX_RECORD_LEN" "\<not> le_val ob < b"
      "checked_add_u64 (le_val ob) (le_val lb) = Some (le_val ob + le_val lb)" "le_val ob + le_val lb \<le> L"
      "read_exact (le_val lb) s2 = Some (data, s3)" by blast
    have "length (write_at (le_val ob) data t) = L"
      using read_exact_Some [OF r(9)] r(8) "1.prems" by (simp add: write_at_length)
    from "1.IH" [OF r(1,2) refl r(3) refl refl refl r(4-7) _ r(9) refl this] r show ?thesis
      by (simp add: apply_records.simps [of L b s] Let_def)
  next
    case False
    then have "fst (apply_records L b s t) = t"
      by (subst apply_records.simps)
        (auto simp: Let_def checked_add_u64_def split: option.split)
    then show ?thesis using "1.prems" by simp
  qed
qed

section \<open>Properties\<close>

text \<open>
  C11: A delta carries the base image to the current one. For any two images of file size and any
  whole-block chunking of the comparison, writing the delta succeeds, and applying it to a copy
  of the base gives the current image.
\<close>

theorem disk_delta_roundtrip:
  assumes "length base \<le> u64_max" "length current \<le> u64_max" "chunk_ok chunk"
  shows "\<exists>delta total. write_disk_delta_chunked True cpus (Some base) (Some current) chunk = Inr (delta, total) \<and>
    apply_disk_delta True (Some delta) (Some base) = (Some current, Inr ())"
  using delta_apply [OF assms(1,2)] write_disk_delta_eq [OF assms(3), of cpus base current] by auto

theorem disk_delta_roundtrip_witness:
  "\<exists>delta total. write_disk_delta_chunked True None (Some [1, 2, 3]) (Some [1, 5, 3, 4]) None = Inr (delta, total) \<and>
    apply_disk_delta True (Some delta) (Some [1, 2, 3]) = (Some [1, 5, 3, 4], Inr ())"
  using disk_delta_roundtrip [of "[1, 2, 3]" "[1, 5, 3, 4]" None None] by (simp add: chunk_ok_def)

text \<open>
  The parallel comparison changes nothing. The delta file and the reported byte count do not depend
  on the chunk length or the number of processors: they are those of a single sequential scan.
\<close>

theorem disk_delta_chunking_invisible:
  assumes "chunk_ok c1" "chunk_ok c2"
  shows "write_disk_delta_chunked wr cpus1 base current c1 = write_disk_delta_chunked wr cpus2 base current c2"
proof (cases "wr \<and> base \<noteq> None \<and> current \<noteq> None")
  case True
  then obtain b c where "wr" "base = Some b" "current = Some c" by auto
  then show ?thesis by (simp only: write_disk_delta_eq [OF assms(1)] write_disk_delta_eq [OF assms(2)])
qed (auto simp: write_disk_delta_chunked_def open_for_delta_def split: option.split)

theorem disk_delta_chunking_invisible_witness:
  "write_disk_delta_chunked True (Some 4) (Some [1, 2]) (Some [1, 3]) (Some 65536) =
   write_disk_delta_chunked True None (Some [1, 2]) (Some [1, 3]) None"
  by (rule disk_delta_chunking_invisible) (simp_all add: chunk_ok_def BLOCK_LEN_def)

text \<open>
  Records are sorted, disjoint, non-empty and within the current image, in every delta
  written: the runs behind the records are ordered, end within the image, and their total
  length is the byte count reported.
\<close>

theorem disk_delta_records_ordered:
  assumes "length base \<le> u64_max" "length current \<le> u64_max" "chunk_ok chunk"
    "write_disk_delta_chunked True cpus (Some base) (Some current) chunk = Inr (delta, count)"
  shows "\<exists>R out. ordered_runs 0 R \<and> runs_end 0 R \<le> length current \<and> emit_runs current R = Inr (out, count) \<and>
    delta = delta_header base current @ out \<and> count = run_total R"
  using delta_runs_wf [of base current] delta_apply [OF assms(1,2)] assms(4)
  by (auto simp: write_disk_delta_eq [OF assms(3)] intro!: exI [of _ "delta_runs base current"])

theorem disk_delta_records_ordered_witness:
  "\<exists>R out count delta. ordered_runs 0 R \<and> runs_end 0 R \<le> 2 \<and> emit_runs [1, 3] R = Inr (out, count) \<and>
    delta = delta_header [1, 2] [1, 3] @ out \<and> count = run_total R"
proof -
  have small: "length [1, 2 :: u8] \<le> u64_max" "length [1, 3 :: u8] \<le> u64_max" "chunk_ok None"
    by (simp_all add: chunk_ok_def)
  obtain delta count where w: "write_disk_delta_chunked True None (Some [1, 2]) (Some [1, 3]) None = Inr (delta, count)"
    using delta_apply [OF small(1,2)] write_disk_delta_eq [OF small(3), of None "[1, 2]" "[1, 3]"] by auto
  have "length [1, 3 :: u8] = 2" by simp
  with disk_delta_records_ordered [OF small w] show ?thesis by metis
qed

text \<open>
  A delta is applied only to a target of its base length, and success yields an image of exactly
  the announced length. If applying succeeds, the delta opens with the magic, the length of
  the target before and its length after.
\<close>

theorem apply_disk_delta_lengths:
  assumes "apply_disk_delta rz (Some d) (Some t) = (Some t', Inr ())"
  shows "\<exists>s. d = MAGIC @ le_bytes 8 (length t) @ le_bytes 8 (length t') @ s"
proof -
  obtain m s where m: "read_exact 8 d = Some (m, s)" "m = MAGIC"
    using assms by (auto simp: apply_disk_delta_def split: option.splits if_splits)
  obtain bb s1 where b: "read_exact 8 s = Some (bb, s1)"
    using assms m by (auto simp: apply_disk_delta_def read_u64_def split: option.splits if_splits)
  obtain cb s2 where c: "read_exact 8 s1 = Some (cb, s2)"
    using assms m b by (auto simp: apply_disk_delta_def read_u64_def split: option.splits if_splits)
  have t: "length t = le_val bb" "apply_records (le_val cb) 0 s2 (set_len (le_val cb) t) = (t', Inr ())"
    using assms m b c by (auto simp: apply_disk_delta_def read_u64_def split: option.splits if_splits prod.splits)
  have "length t' = le_val cb"
    using apply_records_length [of "set_len (le_val cb) t" "le_val cb" 0 s2] t(2) by simp
  then show ?thesis
    using read_exact_Some [OF m(1)] read_exact_Some [OF b] read_exact_Some [OF c] t(1) m(2) by (auto simp: le_bytes_le_val)
qed

theorem apply_disk_delta_lengths_witness:
  "\<exists>out s. apply_disk_delta True (Some (delta_header [1, 2] [1, 3] @ out)) (Some [1, 2]) = (Some [1, 3], Inr ()) \<and>
    delta_header [1, 2] [1, 3] @ out = MAGIC @ le_bytes 8 (length [1, 2 :: u8]) @ le_bytes 8 (length [1, 3 :: u8]) @ s"
proof -
  obtain out where out: "apply_disk_delta True (Some (delta_header [1, 2] [1, 3] @ out)) (Some [1, 2]) = (Some [1, 3], Inr ())"
    using delta_apply [of "[1, 2]" "[1, 3]"] by auto
  from apply_disk_delta_lengths [OF out] out show ?thesis by blast
qed

text \<open>
  Identical images give a header-only delta and a byte count of zero.
\<close>

theorem disk_delta_identical:
  assumes "chunk_ok chunk"
  shows "write_disk_delta_chunked True cpus (Some img) (Some img) chunk = Inr (delta_header img img, 0)"
proof -
  have "delta_runs img img = []"
    by (simp add: delta_runs_def compare_limit_def changed_def split_beta)
  then show ?thesis by (simp add: write_disk_delta_eq [OF assms])
qed

theorem disk_delta_identical_witness:
  "write_disk_delta_chunked True (Some 2) (Some [7, 8]) (Some [7, 8]) None = Inr (delta_header [7, 8] [7, 8], 0)"
  by (rule disk_delta_identical) (simp add: chunk_ok_def)

end
