(* ===== verification/FairQueue.thy ===== *)
theory FairQueue
  imports Prelude "HOL-Library.Multiset"
begin

text \<open>
  The function scheduler's admission queue, \<^verbatim>\<open>vmond/src/function/scheduler.rs\<close>: pool policies and
  \<^verbatim>\<open>FairQueue\<close>, a bounded round-robin over per-revision queues. Durations are their whole
  milliseconds. The invariant ties the ready list, its set and the counter to the queues; the
  properties are first-in first-out delivery without loss, and fairness of the rotation.
\<close>

section \<open>Policies\<close>

record pool_policy =
  pp_min_workers :: nat
  pp_max_workers :: nat
  pp_buffer_workers :: nat
  pp_capacity :: nat
  pp_max_outstanding :: nat
  pp_idle_timeout :: nat
  pp_max_calls :: nat
  pp_max_batch_size :: nat
  pp_batch_wait :: nat

definition pool_policy_default :: pool_policy where
  "pool_policy_default = \<lparr>pp_min_workers = 0, pp_max_workers = 1, pp_buffer_workers = 0, pp_capacity = 1,
     pp_max_outstanding = 1, pp_idle_timeout = 60000, pp_max_calls = 0, pp_max_batch_size = 1, pp_batch_wait = 0\<rparr>"

definition normalized :: "pool_policy \<Rightarrow> pool_policy" where
  "normalized p =
     (let max_workers = max (pp_max_workers p) 1;
          min_workers = min (pp_min_workers p) max_workers;
          capacity = max (pp_capacity p) 1;
          max_outstanding = max (pp_max_outstanding p) capacity
      in p\<lparr>pp_max_workers := max_workers, pp_min_workers := min_workers, pp_capacity := capacity,
           pp_max_outstanding := max_outstanding,
           pp_max_batch_size := min (max (pp_max_batch_size p) 1) max_outstanding\<rparr>)"

definition policy_ok :: "pool_policy \<Rightarrow> bool" where
  "policy_ok p \<longleftrightarrow> 0 < pp_max_workers p \<and> pp_min_workers p \<le> pp_max_workers p \<and> 0 < pp_capacity p \<and>
     pp_capacity p \<le> pp_max_outstanding p \<and> 0 < pp_max_batch_size p \<and> pp_max_batch_size p \<le> pp_max_outstanding p"

lemma normalized_ok [simp]: "policy_ok (normalized p)"
  by (auto simp: policy_ok_def normalized_def Let_def less_max_iff_disj)

lemma normalized_idem: "policy_ok p \<Longrightarrow> normalized p = p"
  by (simp add: policy_ok_def normalized_def Let_def)

section \<open>The queue\<close>

record queued_input =
  qi_revision_id :: string
  qi_call_id :: string
  qi_input_index :: nat
  qi_available_at_ms :: nat
  qi_actor_id :: "string option"

record revision_queue =
  rq_policy :: pool_policy
  rq_items :: "queued_input list"

record fair_queue =
  fq_revisions :: "string \<Rightarrow> revision_queue option"
  fq_ready :: "string list"
  fq_ready_set :: "string set"
  fq_queued :: nat
  fq_global_limit :: nat

definition fq_new :: "nat \<Rightarrow> fair_queue" where
  "fq_new global_limit = \<lparr>fq_revisions = (\<lambda>_. None), fq_ready = [], fq_ready_set = {}, fq_queued = 0,
     fq_global_limit = max global_limit 1\<rparr>"

definition set_policy :: "string \<Rightarrow> pool_policy \<Rightarrow> fair_queue \<Rightarrow> fair_queue" where
  "set_policy revision_id policy q =
     (let policy = normalized policy in
      q\<lparr>fq_revisions := (fq_revisions q)(revision_id \<mapsto> (case fq_revisions q revision_id of
          Some queue \<Rightarrow> queue\<lparr>rq_policy := policy\<rparr>
        | None \<Rightarrow> \<lparr>rq_policy = policy, rq_items = []\<rparr>))\<rparr>)"

definition fq_push :: "queued_input \<Rightarrow> fair_queue \<Rightarrow> fair_queue \<times> bool" where
  "fq_push input q =
     (if fq_queued q \<ge> fq_global_limit q then (q, False)
      else case fq_revisions q (qi_revision_id input) of
        None \<Rightarrow> (q, False)
      | Some queue \<Rightarrow>
          let revision_limit = sat_mul_usize (pp_max_workers (rq_policy queue)) (pp_max_outstanding (rq_policy queue)) in
          if length (rq_items queue) \<ge> revision_limit then (q, False)
          else let revision_id = qi_revision_id input;
                   q1 = q\<lparr>fq_revisions := (fq_revisions q)(revision_id \<mapsto> queue\<lparr>rq_items := rq_items queue @ [input]\<rparr>),
                          fq_queued := fq_queued q + 1\<rparr>
            in (if revision_id \<in> fq_ready_set q1 then q1
                else q1\<lparr>fq_ready_set := insert revision_id (fq_ready_set q1), fq_ready := fq_ready q1 @ [revision_id]\<rparr>,
                True))"

fun take_batch :: "nat \<Rightarrow> nat \<Rightarrow> queued_input list \<Rightarrow> nat \<Rightarrow> queued_input list \<times> queued_input list \<times> nat" where
  "take_batch (Suc n) now (item # items) queued =
     (if qi_available_at_ms item > now then ([], item # items, queued)
      else let (batch, rest, queued') = take_batch n now items (queued - 1) in (item # batch, rest, queued'))"
| "take_batch _ now items queued = ([], items, queued)"

fun pop_turns :: "nat \<Rightarrow> nat \<Rightarrow> fair_queue \<Rightarrow> fair_queue \<times> queued_input list option" where
  "pop_turns 0 now q = (q, None)"
| "pop_turns (Suc n) now q = (case fq_ready q of
     [] \<Rightarrow> (q, None)
   | revision_id # ready \<Rightarrow>
       let q1 = q\<lparr>fq_ready := ready, fq_ready_set := fq_ready_set q - {revision_id}\<rparr> in
       (case fq_revisions q1 revision_id of
          None \<Rightarrow> (q1, None)
        | Some queue \<Rightarrow>
            let q_back = (\<lambda>q. q\<lparr>fq_ready := fq_ready q @ [revision_id], fq_ready_set := insert revision_id (fq_ready_set q)\<rparr>);
                eligible = (case rq_items queue of [] \<Rightarrow> False | item # _ \<Rightarrow> qi_available_at_ms item \<le> now)
            in if \<not> eligible then pop_turns n now (q_back q1)
               else let count = min (pp_max_batch_size (rq_policy queue)) (length (rq_items queue));
                        (batch, rest, queued) = take_batch count now (rq_items queue) (fq_queued q1);
                        q2 = q1\<lparr>fq_revisions := (fq_revisions q1)(revision_id \<mapsto> queue\<lparr>rq_items := rest\<rparr>),
                                fq_queued := queued\<rparr>
                 in (if rest \<noteq> [] then q_back q2 else q2, Some batch)))"

definition fq_pop :: "nat \<Rightarrow> fair_queue \<Rightarrow> fair_queue \<times> queued_input list option" where
  "fq_pop now q = pop_turns (length (fq_ready q)) now q"

definition fq_len :: "fair_queue \<Rightarrow> nat" where
  "fq_len q = fq_queued q"

definition fq_is_empty :: "fair_queue \<Rightarrow> bool" where
  "fq_is_empty q \<longleftrightarrow> fq_queued q = 0"

section \<open>The invariant\<close>

definition items_of :: "fair_queue \<Rightarrow> string \<Rightarrow> queued_input list" where
  "items_of q r = (case fq_revisions q r of None \<Rightarrow> [] | Some queue \<Rightarrow> rq_items queue)"

definition fq_inv :: "fair_queue \<Rightarrow> bool" where
  "fq_inv q \<longleftrightarrow> finite (dom (fq_revisions q)) \<and> distinct (fq_ready q) \<and> set (fq_ready q) = fq_ready_set q \<and>
     (\<forall>r. r \<in> fq_ready_set q \<longleftrightarrow> items_of q r \<noteq> []) \<and>
     fq_queued q = (\<Sum>r\<in>dom (fq_revisions q). length (items_of q r)) \<and>
     fq_queued q \<le> fq_global_limit q \<and>
     (\<forall>r queue. fq_revisions q r = Some queue \<longrightarrow> policy_ok (rq_policy queue)) \<and>
     (\<forall>r. \<forall>x\<in>set (items_of q r). qi_revision_id x = r)"

lemma fq_inv_new: "fq_inv (fq_new n)"
  by (simp add: fq_inv_def fq_new_def items_of_def)

lemma items_of_update [simp]:
  "items_of (q\<lparr>fq_revisions := (fq_revisions q)(r \<mapsto> queue)\<rparr>) r' = (if r' = r then rq_items queue else items_of q r')"
  "items_of (q\<lparr>fq_ready := xs\<rparr>) r' = items_of q r'"
  "items_of (q\<lparr>fq_ready_set := S\<rparr>) r' = items_of q r'"
  "items_of (q\<lparr>fq_queued := n\<rparr>) r' = items_of q r'"
  by (simp_all add: items_of_def)

lemma sum_update:
  fixes f g :: "'a \<Rightarrow> nat"
  assumes "finite D" "\<And>r. r \<noteq> r0 \<Longrightarrow> g r = f r" "r0 \<notin> D \<Longrightarrow> f r0 = 0"
  shows "sum g (insert r0 D) + f r0 = sum f D + g r0"
proof -
  have "sum g (insert r0 D) = g r0 + sum f (D - {r0})"
    using assms(1) by (simp add: sum.insert_remove) (auto intro: sum.cong simp: assms(2))
  moreover have "sum f D = f r0 + sum f (D - {r0})"
    using assms(1,3) by (cases "r0 \<in> D") (simp_all add: sum.remove)
  ultimately show ?thesis by simp
qed

text \<open>The counter after one queue is replaced.\<close>

lemma sum_items_update:
  assumes "finite (dom (fq_revisions q))" "\<And>r'. r' \<noteq> r \<Longrightarrow> items_of q' r' = items_of q r'"
    "dom (fq_revisions q') = insert r (dom (fq_revisions q))"
  shows "(\<Sum>r'\<in>dom (fq_revisions q'). length (items_of q' r')) + length (items_of q r) =
    (\<Sum>r'\<in>dom (fq_revisions q). length (items_of q r')) + length (items_of q' r)"
  unfolding assms(3)
  by (rule sum_update [OF assms(1)]) (simp add: assms(2), simp add: items_of_def domIff)

lemma fq_inv_set_policy:
  assumes "fq_inv q"
  shows "fq_inv (set_policy r p q)"
proof -
  have items: "items_of (set_policy r p q) r' = items_of q r'" for r'
    by (auto simp: set_policy_def items_of_def Let_def split: option.splits)
  have "(\<Sum>r'\<in>dom (fq_revisions (set_policy r p q)). length (items_of (set_policy r p q) r')) =
      (\<Sum>r'\<in>dom (fq_revisions q). length (items_of q r'))"
    using sum_items_update [of q r "set_policy r p q"] assms items
    by (simp add: fq_inv_def) (simp add: set_policy_def Let_def)
  then show ?thesis
    using assms unfolding fq_inv_def items
    by (auto simp: set_policy_def Let_def split: option.splits if_splits)
qed

lemma fq_push_rejected: "snd (fq_push x q) = False \<Longrightarrow> fst (fq_push x q) = q"
  by (auto simp: fq_push_def Let_def split: if_splits option.splits)

lemma fq_push_accepted:
  assumes "snd (fq_push x q)"
  obtains queue where "fq_revisions q (qi_revision_id x) = Some queue" "fq_queued q < fq_global_limit q"
    "fq_revisions (fst (fq_push x q)) = (fq_revisions q)(qi_revision_id x \<mapsto> queue\<lparr>rq_items := rq_items queue @ [x]\<rparr>)"
    "fq_queued (fst (fq_push x q)) = fq_queued q + 1" "fq_global_limit (fst (fq_push x q)) = fq_global_limit q"
    "fq_ready (fst (fq_push x q)) = fq_ready q @ (if qi_revision_id x \<in> fq_ready_set q then [] else [qi_revision_id x])"
    "fq_ready_set (fst (fq_push x q)) = insert (qi_revision_id x) (fq_ready_set q)"
  using assms by (auto simp: fq_push_def Let_def insert_absorb split: if_splits option.splits)

lemma fq_push_items:
  "items_of (fst (fq_push x q)) r = (if snd (fq_push x q) \<and> r = qi_revision_id x then items_of q r @ [x] else items_of q r)"
proof (cases "snd (fq_push x q)")
  case True
  then show ?thesis by (rule fq_push_accepted) (auto simp: items_of_def True)
qed (simp add: fq_push_rejected)

lemma fq_inv_push:
  assumes "fq_inv q"
  shows "fq_inv (fst (fq_push x q))"
proof (cases "snd (fq_push x q)")
  case True
  let ?q = "fst (fq_push x q)" and ?r = "qi_revision_id x"
  from True show ?thesis
  proof (rule fq_push_accepted)
    fix queue
    assume a: "fq_revisions q ?r = Some queue" "fq_queued q < fq_global_limit q"
      "fq_revisions ?q = (fq_revisions q)(?r \<mapsto> queue\<lparr>rq_items := rq_items queue @ [x]\<rparr>)"
      "fq_queued ?q = fq_queued q + 1" "fq_global_limit ?q = fq_global_limit q"
      "fq_ready ?q = fq_ready q @ (if ?r \<in> fq_ready_set q then [] else [?r])"
      "fq_ready_set ?q = insert ?r (fq_ready_set q)"
    have "(\<Sum>r'\<in>dom (fq_revisions ?q). length (items_of ?q r')) = (\<Sum>r'\<in>dom (fq_revisions q). length (items_of q r')) + 1"
      using sum_items_update [of q ?r ?q] assms a(3) True by (simp add: fq_inv_def fq_push_items)
    then show ?thesis
      using assms a unfolding fq_inv_def by (auto simp: fq_push_items True)
  qed
qed (simp add: fq_push_rejected assms)

section \<open>Popping\<close>

definition eligible :: "fair_queue \<Rightarrow> nat \<Rightarrow> string \<Rightarrow> bool" where
  "eligible q now r = (case items_of q r of [] \<Rightarrow> False | x # _ \<Rightarrow> qi_available_at_ms x \<le> now)"

lemma take_batch_split:
  "take_batch c now items queued = (b, rest, queued') \<Longrightarrow>
   items = b @ rest \<and> queued' = queued - length b \<and> length b \<le> c \<and> (\<forall>x\<in>set b. qi_available_at_ms x \<le> now)"
  by (induction c now items queued arbitrary: b rest queued' rule: take_batch.induct)
    (auto simp: Let_def split: if_splits prod.splits)

lemma take_batch_nonempty:
  "0 < c \<Longrightarrow> qi_available_at_ms x \<le> now \<Longrightarrow> fst (take_batch c now (x # xs) queued) \<noteq> []"
  by (cases c) (auto simp: Let_def split: prod.splits)

lemma take_batch_maximal:
  "take_batch c now items queued = (b, rest, queued') \<Longrightarrow>
   length b = c \<or> rest = [] \<or> qi_available_at_ms (hd rest) > now"
  by (induction c now items queued arbitrary: b rest queued' rule: take_batch.induct)
    (auto simp: Let_def split: if_splits prod.splits)

text \<open>The turn that serves \<open>r\<close>, whose queue is \<open>queue\<close>, from the head of the ready list.\<close>

definition serve :: "nat \<Rightarrow> string \<Rightarrow> revision_queue \<Rightarrow> fair_queue \<Rightarrow> fair_queue \<times> queued_input list option" where
  "serve now r queue q =
     (let (batch, rest, queued) =
        take_batch (min (pp_max_batch_size (rq_policy queue)) (length (rq_items queue))) now (rq_items queue) (fq_queued q)
      in (q\<lparr>fq_revisions := (fq_revisions q)(r \<mapsto> queue\<lparr>rq_items := rest\<rparr>), fq_queued := queued,
           fq_ready := tl (fq_ready q) @ (if rest \<noteq> [] then [r] else []),
           fq_ready_set := (if rest \<noteq> [] then insert r (fq_ready_set q) else fq_ready_set q - {r})\<rparr>, Some batch))"

lemma eligible_ready: "fq_ready q = r # rs \<Longrightarrow> eligible (q\<lparr>fq_ready := xs\<rparr>) now r = eligible q now r"
  by (simp add: eligible_def)

lemma pop_turns_skip:
  assumes "fq_ready q = r # rs" "fq_revisions q r = Some queue" "r \<in> fq_ready_set q" "\<not> eligible q now r"
  shows "pop_turns (Suc n) now q = pop_turns n now (q\<lparr>fq_ready := rs @ [r]\<rparr>)"
  using assms by (simp add: eligible_def items_of_def insert_absorb Let_def insert_Diff split: list.splits)

lemma pop_turns_serve:
  assumes "fq_ready q = r # rs" "fq_revisions q r = Some queue" "eligible q now r"
  shows "pop_turns (Suc n) now q = serve now r queue q"
  using assms by (auto simp: eligible_def items_of_def serve_def Let_def insert_absorb split: list.splits prod.splits)

definition fq_ok :: "fair_queue \<Rightarrow> bool" where
  "fq_ok q \<longleftrightarrow> set (fq_ready q) \<subseteq> fq_ready_set q \<and> set (fq_ready q) \<subseteq> dom (fq_revisions q)"

lemma pop_turns_none:
  assumes "fq_ok q" "n \<le> length (fq_ready q)" "\<forall>r\<in>set (take n (fq_ready q)). \<not> eligible q now r"
  shows "pop_turns n now q = (q\<lparr>fq_ready := drop n (fq_ready q) @ take n (fq_ready q)\<rparr>, None)"
  using assms
proof (induction n arbitrary: q)
  case (Suc n)
  then obtain r rs where r: "fq_ready q = r # rs" by (cases "fq_ready q") auto
  then obtain queue where queue: "fq_revisions q r = Some queue" "r \<in> fq_ready_set q"
    using Suc.prems(1) by (auto simp: fq_ok_def)
  have "\<not> eligible q now r" using Suc.prems(3) r by simp
  then have step: "pop_turns (Suc n) now q = pop_turns n now (q\<lparr>fq_ready := rs @ [r]\<rparr>)"
    by (rule pop_turns_skip [OF r queue])
  have "pop_turns n now (q\<lparr>fq_ready := rs @ [r]\<rparr>) =
      (q\<lparr>fq_ready := rs @ [r]\<rparr>\<lparr>fq_ready := drop n (rs @ [r]) @ take n (rs @ [r])\<rparr>, None)"
    using Suc.IH [of "q\<lparr>fq_ready := rs @ [r]\<rparr>"] Suc.prems r by (auto simp: fq_ok_def eligible_def)
  then show ?case using step r Suc.prems(2) by simp
qed simp

lemma pop_turns_some:
  assumes "fq_ok q" "fq_ready q = sk @ r # rs" "length sk < n" "\<forall>x\<in>set sk. \<not> eligible q now x" "eligible q now r"
    "fq_revisions q r = Some queue"
  shows "pop_turns n now q = serve now r queue (q\<lparr>fq_ready := r # rs @ sk\<rparr>)"
  using assms
proof (induction sk arbitrary: q n rs)
  case Nil
  then obtain m where m: "n = Suc m" by (cases n) auto
  have same: "q\<lparr>fq_ready := r # rs @ []\<rparr> = q" using Nil.prems(2) by (cases q) simp
  show ?case using Nil.prems pop_turns_serve [of q r rs queue now m] unfolding same m by simp
next
  case (Cons x sk)
  then obtain m where m: "n = Suc m" by (cases n) auto
  obtain qx where qx: "fq_revisions q x = Some qx" "x \<in> fq_ready_set q"
    using Cons.prems(1,2) by (auto simp: fq_ok_def)
  have "pop_turns n now q = pop_turns m now (q\<lparr>fq_ready := (sk @ r # rs) @ [x]\<rparr>)"
    using pop_turns_skip [of q x "sk @ r # rs" qx now m] qx Cons.prems m by simp
  then show ?case
    using Cons.IH [of "q\<lparr>fq_ready := (sk @ r # rs) @ [x]\<rparr>" "rs @ [x]" m] Cons.prems m by (auto simp: fq_ok_def eligible_def)
qed

lemma fq_inv_ok: "fq_inv q \<Longrightarrow> fq_ok q"
  unfolding fq_inv_def fq_ok_def by (auto simp: items_of_def split: option.splits)

text \<open>Either nothing is eligible and the ready list is as before, or the first eligible revision is served.\<close>

lemma fq_pop_cases:
  assumes "fq_inv q"
  obtains (none) "\<forall>r\<in>set (fq_ready q). \<not> eligible q now r" "fq_pop now q = (q, None)"
    | (some) sk r rs queue where "fq_ready q = sk @ r # rs" "\<forall>x\<in>set sk. \<not> eligible q now x" "eligible q now r"
        "fq_revisions q r = Some queue" "fq_pop now q = serve now r queue (q\<lparr>fq_ready := r # rs @ sk\<rparr>)"
proof (cases "\<exists>r\<in>set (fq_ready q). eligible q now r")
  case True
  from split_list_first_prop [OF True]
  obtain sk r rs where r: "fq_ready q = sk @ r # rs" "eligible q now r" "\<forall>x\<in>set sk. \<not> eligible q now x"
    by blast
  then obtain queue where queue: "fq_revisions q r = Some queue"
    using fq_inv_ok [OF assms] by (auto simp: fq_ok_def)
  have "fq_pop now q = serve now r queue (q\<lparr>fq_ready := r # rs @ sk\<rparr>)"
    unfolding fq_pop_def by (rule pop_turns_some [OF fq_inv_ok [OF assms] r(1) _ r(3,2) queue]) (simp add: r(1))
  then show ?thesis by (rule some [OF r(1,3,2) queue])
next
  case False
  then show ?thesis
    using pop_turns_none [OF fq_inv_ok [OF assms], of "length (fq_ready q)" now] by (intro none) (auto simp: fq_pop_def)
qed

lemma serve_result:
  assumes "fq_inv q" "fq_ready q = sk @ r # rs" "eligible q now r" "fq_revisions q r = Some queue"
  obtains batch rest where "batch \<noteq> []" "items_of q r = batch @ rest" "length batch \<le> pp_max_batch_size (rq_policy queue)"
    "\<forall>x\<in>set batch. qi_available_at_ms x \<le> now" "length batch \<le> fq_queued q"
    "serve now r queue (q\<lparr>fq_ready := r # rs @ sk\<rparr>) =
      (q\<lparr>fq_revisions := (fq_revisions q)(r \<mapsto> queue\<lparr>rq_items := rest\<rparr>), fq_queued := fq_queued q - length batch,
         fq_ready := rs @ sk @ (if rest \<noteq> [] then [r] else []),
         fq_ready_set := (if rest \<noteq> [] then fq_ready_set q else fq_ready_set q - {r})\<rparr>, Some batch)"
proof -
  let ?c = "min (pp_max_batch_size (rq_policy queue)) (length (rq_items queue))"
  obtain batch rest queued where b: "take_batch ?c now (rq_items queue) (fq_queued q) = (batch, rest, queued)"
    using prod_cases3 by blast
  note split = take_batch_split [OF b]
  obtain x xs where x: "rq_items queue = x # xs" "qi_available_at_ms x \<le> now"
    using assms(3,4) by (auto simp: eligible_def items_of_def split: list.splits)
  have "0 < ?c" using assms(1,4) x by (auto simp: fq_inv_def policy_ok_def)
  then have ne: "batch \<noteq> []" using take_batch_nonempty [of ?c x now xs "fq_queued q"] x b by simp
  have items: "items_of q r = batch @ rest" using split assms(4) by (simp add: items_of_def)
  have "length (items_of q r) \<le> (\<Sum>r'\<in>dom (fq_revisions q). length (items_of q r'))"
    using assms(1,4) by (intro member_le_sum) (auto simp: fq_inv_def)
  then have "length batch \<le> fq_queued q" using assms(1) items by (simp add: fq_inv_def)
  moreover have "r \<in> fq_ready_set q" using assms(1,2) by (auto simp: fq_inv_def)
  ultimately show ?thesis
    using ne items split b by (intro that [of batch rest]) (auto simp: serve_def insert_absorb)
qed

lemma fq_inv_pop:
  assumes "fq_inv q"
  shows "fq_inv (fst (fq_pop now q))"
  using assms
proof (rule fq_pop_cases [of q now])
  assume "fq_pop now q = (q, None)"
  then show ?thesis using assms by simp
next
  fix sk r rs queue
  assume a: "fq_ready q = sk @ r # rs" "eligible q now r" "fq_revisions q r = Some queue"
    "fq_pop now q = serve now r queue (q\<lparr>fq_ready := r # rs @ sk\<rparr>)"
  from assms a(1-3) show ?thesis
  proof (rule serve_result)
    fix batch rest :: "queued_input list"
    let ?q = "q\<lparr>fq_revisions := (fq_revisions q)(r \<mapsto> queue\<lparr>rq_items := rest\<rparr>), fq_queued := fq_queued q - length batch,
         fq_ready := rs @ sk @ (if rest \<noteq> [] then [r] else []),
         fq_ready_set := (if rest \<noteq> [] then fq_ready_set q else fq_ready_set q - {r})\<rparr>"
    assume b: "items_of q r = batch @ rest" "length batch \<le> fq_queued q"
      "serve now r queue (q\<lparr>fq_ready := r # rs @ sk\<rparr>) = (?q, Some batch)"
    define q' where "q' = ?q"
    have sel: "fq_revisions q' = (fq_revisions q)(r \<mapsto> queue\<lparr>rq_items := rest\<rparr>)" "fq_queued q' = fq_queued q - length batch"
      "fq_ready q' = rs @ sk @ (if rest \<noteq> [] then [r] else [])" "fq_global_limit q' = fq_global_limit q"
      "fq_ready_set q' = (if rest \<noteq> [] then fq_ready_set q else fq_ready_set q - {r})"
      by (simp_all add: q'_def)
    have items: "items_of q' r' = (if r' = r then rest else items_of q r')" for r' by (simp add: items_of_def sel)
    have parts: "finite (dom (fq_revisions q))" "distinct (sk @ r # rs)" "set (sk @ r # rs) = fq_ready_set q"
      "\<forall>r. r \<in> fq_ready_set q \<longleftrightarrow> items_of q r \<noteq> []" "fq_queued q \<le> fq_global_limit q"
      "fq_queued q = (\<Sum>r\<in>dom (fq_revisions q). length (items_of q r))"
      "\<forall>r queue. fq_revisions q r = Some queue \<longrightarrow> policy_ok (rq_policy queue)"
      "\<forall>r. \<forall>x\<in>set (items_of q r). qi_revision_id x = r"
      using assms [unfolded fq_inv_def a(1)] by blast+
    have "(\<Sum>r'\<in>dom (fq_revisions q'). length (items_of q' r')) + length (items_of q r) =
        (\<Sum>r'\<in>dom (fq_revisions q). length (items_of q r')) + length (items_of q' r)"
      by (rule sum_items_update [OF parts(1)]) (simp_all add: items sel)
    then have cnt: "fq_queued q' = (\<Sum>r'\<in>dom (fq_revisions q'). length (items_of q' r'))"
      using sel(2) parts(6) b(1) items [of r] by simp
    have "fq_inv q'"
      unfolding fq_inv_def
    proof (intro conjI)
      show "distinct (fq_ready q')" "set (fq_ready q') = fq_ready_set q'"
        using parts(2,3) by (auto simp: sel)
      show "\<forall>r. r \<in> fq_ready_set q' \<longleftrightarrow> items_of q' r \<noteq> []"
        using parts(4) b(1) by (auto simp: sel items)
      show "\<forall>r queue. fq_revisions q' r = Some queue \<longrightarrow> policy_ok (rq_policy queue)"
        using parts(7) a(3) by (auto simp: sel)
      show "\<forall>r. \<forall>x\<in>set (items_of q' r). qi_revision_id x = r"
        using parts(8) b(1) by (auto simp: items)
    qed (use parts(1,5) cnt in \<open>simp_all add: sel\<close>)
    then have "fq_inv ?q" by (simp only: q'_def)
    then show ?thesis using a(4) b(3) by simp
  qed
qed

section \<open>Runs\<close>

datatype fq_op = FqPolicy string pool_policy | FqPush queued_input | FqPop nat

text \<open>A run gives the final queue, the inputs accepted and the inputs delivered, in order.\<close>

fun fq_run :: "fq_op list \<Rightarrow> fair_queue \<Rightarrow> fair_queue \<times> queued_input list \<times> queued_input list" where
  "fq_run [] q = (q, [], [])"
| "fq_run (FqPolicy r p # xs) q = fq_run xs (set_policy r p q)"
| "fq_run (FqPush x # xs) q =
     (let (q', ok) = fq_push x q; (q'', acc, del) = fq_run xs q' in (q'', (if ok then x # acc else acc), del))"
| "fq_run (FqPop now # xs) q =
     (let (q', b) = fq_pop now q; (q'', acc, del) = fq_run xs q' in (q'', acc, (case b of None \<Rightarrow> [] | Some bs \<Rightarrow> bs) @ del))"

lemma set_policy_items [simp]: "items_of (set_policy r p q) r' = items_of q r'"
  by (auto simp: set_policy_def items_of_def Let_def split: option.splits)

lemma set_policy_ready [simp]: "fq_ready (set_policy r p q) = fq_ready q"
  by (simp add: set_policy_def Let_def)

text \<open>What one pop does to the queue of every revision.\<close>

lemma fq_pop_items:
  assumes "fq_inv q" "fq_pop now q = (q', b)"
  shows "items_of q r = filter (\<lambda>x. qi_revision_id x = r) (case b of None \<Rightarrow> [] | Some bs \<Rightarrow> bs) @ items_of q' r"
  using assms(1)
proof (rule fq_pop_cases [of q now])
  assume "fq_pop now q = (q, None)"
  then show ?thesis using assms(2) by simp
next
  fix sk r0 rs queue
  assume a: "fq_ready q = sk @ r0 # rs" "eligible q now r0" "fq_revisions q r0 = Some queue"
    "fq_pop now q = serve now r0 queue (q\<lparr>fq_ready := r0 # rs @ sk\<rparr>)"
  from assms(1) a(1-3) show ?thesis
  proof (rule serve_result)
    fix batch rest :: "queued_input list"
    assume b: "items_of q r0 = batch @ rest"
      "serve now r0 queue (q\<lparr>fq_ready := r0 # rs @ sk\<rparr>) =
        (q\<lparr>fq_revisions := (fq_revisions q)(r0 \<mapsto> queue\<lparr>rq_items := rest\<rparr>), fq_queued := fq_queued q - length batch,
         fq_ready := rs @ sk @ (if rest \<noteq> [] then [r0] else []),
         fq_ready_set := (if rest \<noteq> [] then fq_ready_set q else fq_ready_set q - {r0})\<rparr>, Some batch)"
    have "\<forall>x\<in>set batch. qi_revision_id x = r0" using assms(1) b(1) unfolding fq_inv_def by (metis Un_iff set_append)
    then have "filter (\<lambda>x. qi_revision_id x = r) batch = (if r = r0 then batch else [])" by (auto simp: filter_id_conv filter_empty_conv)
    moreover have "items_of q' r = (if r = r0 then rest else items_of q r)"
      using a(4) b(2) assms(2) by (auto simp: items_of_def)
    ultimately show ?thesis using a(4) b assms(2) by auto
  qed
qed

lemma fq_run_fifo:
  assumes "fq_inv q" "fq_run xs q = (q', acc, del)"
  shows "fq_inv q' \<and> items_of q r @ filter (\<lambda>x. qi_revision_id x = r) acc =
    filter (\<lambda>x. qi_revision_id x = r) del @ items_of q' r"
  using assms
proof (induction xs arbitrary: q acc del)
  case (Cons op xs)
  show ?case
  proof (cases op)
    case (FqPolicy r0 p)
    then show ?thesis using Cons.IH [OF fq_inv_set_policy [OF Cons.prems(1)]] Cons.prems(2) by simp
  next
    case (FqPush x)
    obtain acc' where a: "fq_run xs (fst (fq_push x q)) = (q', acc', del)" "acc = (if snd (fq_push x q) then x # acc' else acc')"
      using Cons.prems(2) FqPush by (auto simp: split_beta Let_def prod_eq_iff)
    then show ?thesis
      using Cons.IH [OF fq_inv_push [OF Cons.prems(1)] a(1)] by (auto simp: fq_push_items split: if_splits)
  next
    case (FqPop now)
    obtain q1 b where p: "fq_pop now q = (q1, b)" by fastforce
    obtain del' where d: "fq_run xs q1 = (q', acc, del')" "del = (case b of None \<Rightarrow> [] | Some bs \<Rightarrow> bs) @ del'"
      using Cons.prems(2) FqPop p by (auto simp: split_beta Let_def prod_eq_iff)
    have "fq_inv q1" using fq_inv_pop [OF Cons.prems(1), of now] p by simp
    from Cons.IH [OF this d(1)] show ?thesis
      using fq_pop_items [OF Cons.prems(1) p, of r] d(2) by simp
  qed
qed simp

text \<open>Rotation: a revision that waits moves towards the front with every pop.\<close>

lemma eligible_mono: "eligible q now r \<Longrightarrow> now \<le> t \<Longrightarrow> eligible q t r"
  by (auto simp: eligible_def split: list.splits)

lemma fq_pop_rotates:
  assumes "fq_inv q" "fq_ready q = pre @ r # post" "eligible q now r"
  obtains (served) q' batch rest where "fq_pop now q = (q', Some batch)" "items_of q r = batch @ rest" "batch \<noteq> []"
    | (waits) q' batch pre' post' where "fq_pop now q = (q', Some batch)" "items_of q' r = items_of q r"
        "fq_ready q' = pre' @ r # post'" "length pre' < length pre"
  using assms(1)
proof (rule fq_pop_cases [of q now])
  assume "\<forall>r\<in>set (fq_ready q). \<not> eligible q now r"
  then show ?thesis using assms(2,3) by simp
next
  fix sk r0 rs queue
  assume a: "fq_ready q = sk @ r0 # rs" "\<forall>x\<in>set sk. \<not> eligible q now x" "eligible q now r0" "fq_revisions q r0 = Some queue"
    "fq_pop now q = serve now r0 queue (q\<lparr>fq_ready := r0 # rs @ sk\<rparr>)"
  from assms(1) a(1,3,4) show ?thesis
  proof (rule serve_result)
    fix batch rest :: "queued_input list"
    assume b: "batch \<noteq> []" "items_of q r0 = batch @ rest"
      "serve now r0 queue (q\<lparr>fq_ready := r0 # rs @ sk\<rparr>) =
        (q\<lparr>fq_revisions := (fq_revisions q)(r0 \<mapsto> queue\<lparr>rq_items := rest\<rparr>), fq_queued := fq_queued q - length batch,
         fq_ready := rs @ sk @ (if rest \<noteq> [] then [r0] else []),
         fq_ready_set := (if rest \<noteq> [] then fq_ready_set q else fq_ready_set q - {r0})\<rparr>, Some batch)"
    show ?thesis
    proof (cases "r = r0")
      case True
      then show ?thesis using served a(5) b by metis
    next
      case False
      have "r \<notin> set sk" using a(2) assms(3) by auto
      then obtain us where us: "pre = sk @ r0 # us" "rs = us @ r # post"
        using a(1) assms(2) False by (auto simp: append_eq_append_conv2 Cons_eq_append_conv append_eq_Cons_conv)
      show ?thesis
        by (rule waits [OF a(5) [unfolded b(3)], of us "post @ sk @ (if rest \<noteq> [] then [r0] else [])"])
          (use us False in \<open>auto simp: items_of_def\<close>)
    qed
  qed
qed

definition pops_at_least :: "nat \<Rightarrow> fq_op list \<Rightarrow> bool" where
  "pops_at_least now xs \<longleftrightarrow> list_all (\<lambda>x. case x of FqPop t \<Rightarrow> now \<le> t | _ \<Rightarrow> True) xs"

definition pop_count :: "fq_op list \<Rightarrow> nat" where
  "pop_count xs = length (filter (\<lambda>x. case x of FqPop _ \<Rightarrow> True | _ \<Rightarrow> False) xs)"

lemma fq_run_serves:
  assumes "fq_inv q" "fq_ready q = pre @ r # post" "eligible q now r" "pops_at_least now xs" "length pre < pop_count xs"
    "fq_run xs q = (q', acc, del)"
  shows "hd (items_of q r) \<in> set del"
  using assms
proof (induction xs arbitrary: q pre post acc del)
  case (Cons op xs)
  show ?case
  proof (cases op)
    case (FqPolicy r0 p)
    then show ?thesis
      using Cons.IH [OF fq_inv_set_policy [OF Cons.prems(1)], where pre = pre and post = post and acc = acc and del = del]
        Cons.prems
      by (simp add: eligible_def pops_at_least_def pop_count_def)
  next
    case (FqPush x)
    let ?q = "fst (fq_push x q)"
    obtain acc' where run: "fq_run xs ?q = (q', acc', del)"
      using Cons.prems(6) FqPush by (auto simp: split_beta Let_def prod_eq_iff)
    obtain post' where ready: "fq_ready ?q = pre @ r # post'"
    proof (cases "snd (fq_push x q)")
      case True
      then show ?thesis by (rule fq_push_accepted) (use Cons.prems(2) that in auto)
    qed (use Cons.prems(2) that in \<open>simp add: fq_push_rejected\<close>)
    have hd: "hd (items_of ?q r) = hd (items_of q r)" "eligible ?q now r"
      using Cons.prems(3) by (auto simp: fq_push_items eligible_def split: list.splits)
    show ?thesis
      using Cons.IH [OF fq_inv_push [OF Cons.prems(1)] ready hd(2) _ _ run] Cons.prems(4,5) FqPush hd(1)
      by (simp add: pops_at_least_def pop_count_def)
  next
    case (FqPop t)
    obtain q1 b where p: "fq_pop t q = (q1, b)" by fastforce
    obtain del' where d: "fq_run xs q1 = (q', acc, del')" "del = (case b of None \<Rightarrow> [] | Some bs \<Rightarrow> bs) @ del'"
      using Cons.prems(6) FqPop p by (auto simp: split_beta Let_def prod_eq_iff)
    have inv: "fq_inv q1" using fq_inv_pop [OF Cons.prems(1), of t] p by simp
    have "eligible q t r" using eligible_mono [OF Cons.prems(3)] Cons.prems(4) FqPop by (simp add: pops_at_least_def)
    with Cons.prems(1,2) show ?thesis
    proof (cases rule: fq_pop_rotates)
      case (served q'' batch rest)
      then show ?thesis using p d(2) by auto
    next
      case (waits q'' batch pre' post')
      then have "eligible q1 now r" using p Cons.prems(3) by (simp add: eligible_def)
      then show ?thesis
        using Cons.IH [OF inv _ _ _ _ d(1), of pre' post'] waits p Cons.prems(4,5) FqPop d(2)
        by (auto simp: pops_at_least_def pop_count_def)
    qed
  qed
qed (simp add: pop_count_def)

section \<open>Properties\<close>

definition sample_input :: "string \<Rightarrow> nat \<Rightarrow> queued_input" where
  "sample_input r i = \<lparr>qi_revision_id = r, qi_call_id = ''c'', qi_input_index = i, qi_available_at_ms = 0, qi_actor_id = None\<rparr>"

definition sample_ops :: "fq_op list" where
  "sample_ops = [FqPolicy ''a'' pool_policy_default, FqPolicy ''b'' pool_policy_default,
     FqPush (sample_input ''a'' 0), FqPush (sample_input ''b'' 0), FqPush (sample_input ''b'' 1)]"

definition sample_fq :: fair_queue where
  "sample_fq = fst (fq_run sample_ops (fq_new 2))"

lemma sample_fq_facts: "fq_inv sample_fq" "fq_ready sample_fq = [''a'', ''b'']" "items_of sample_fq ''b'' = [sample_input ''b'' 0]"
  using fq_run_fifo [OF fq_inv_new, of sample_ops 2]
  by (simp_all add: sample_fq_def sample_ops_def fq_new_def set_policy_def fq_push_def normalized_def pool_policy_default_def
      sat_mul_usize_def sample_input_def items_of_def Let_def)

text \<open>
  C13: Inputs are delivered first in, first out, without loss or duplication. After any sequence of
  policy changes, pushes and pops from the empty queue, the inputs accepted for a revision
  are, in order, those delivered for it followed by those still queued.
\<close>

theorem fair_queue_fifo:
  assumes "fq_run xs (fq_new limit) = (q, acc, del)"
  shows "filter (\<lambda>x. qi_revision_id x = r) acc = filter (\<lambda>x. qi_revision_id x = r) del @ items_of q r"
  using fq_run_fifo [OF fq_inv_new assms, of r] by (simp add: items_of_def fq_new_def)

theorem fair_queue_fifo_witness:
  "\<exists>q acc del. fq_run (sample_ops @ [FqPop 0]) (fq_new 9) = (q, acc, del) \<and>
     filter (\<lambda>x. qi_revision_id x = ''b'') acc = filter (\<lambda>x. qi_revision_id x = ''b'') del @ items_of q ''b''"
proof -
  obtain q acc del where r: "fq_run (sample_ops @ [FqPop 0]) (fq_new 9) = (q, acc, del)" using prod_cases3 by blast
  then show ?thesis using fair_queue_fifo [OF r, of "''b''"] by blast
qed

text \<open>
  The queue's books balance. After any sequence of operations the counter is the number of
  queued inputs and at most the global limit, and the ready list names, once each, exactly the
  revisions with queued inputs.
\<close>

theorem fair_queue_invariant:
  assumes "fq_run xs (fq_new limit) = (q, acc, del)"
  shows "fq_queued q = (\<Sum>r\<in>dom (fq_revisions q). length (items_of q r)) \<and> fq_queued q \<le> fq_global_limit q \<and>
    distinct (fq_ready q) \<and> set (fq_ready q) = fq_ready_set q \<and> fq_ready_set q = {r. items_of q r \<noteq> []}"
  using fq_run_fifo [OF fq_inv_new assms] unfolding fq_inv_def by blast

theorem fair_queue_invariant_witness:
  "\<exists>q acc del. fq_run sample_ops (fq_new 2) = (q, acc, del) \<and>
     fq_queued q = (\<Sum>r\<in>dom (fq_revisions q). length (items_of q r)) \<and> fq_queued q \<le> fq_global_limit q \<and>
     distinct (fq_ready q) \<and> set (fq_ready q) = fq_ready_set q \<and> fq_ready_set q = {r. items_of q r \<noteq> []}"
proof -
  obtain q acc del where r: "fq_run sample_ops (fq_new 2) = (q, acc, del)" using prod_cases3 by blast
  then show ?thesis using fair_queue_invariant [OF r] by blast
qed

text \<open>
  C14: No revision starves. When a revision stands behind n others in the ready list and its
  first input is due, then among any later operations the first n + 1 pops deliver that
  input, however many inputs other revisions push meanwhile.
\<close>

theorem fair_queue_no_starvation:
  assumes "fq_inv q" "fq_ready q = pre @ r # post" "eligible q now r"
    "pops_at_least now xs" "length pre < pop_count xs" "fq_run xs q = (q', acc, del)"
  shows "hd (items_of q r) \<in> set del"
  by (rule fq_run_serves [OF assms])

theorem fair_queue_no_starvation_witness:
  "\<exists>q' acc del. fq_run [FqPop 5, FqPush (sample_input ''a'' 1), FqPop 5] sample_fq = (q', acc, del) \<and> sample_input ''b'' 0 \<in> set del"
proof -
  let ?xs = "[FqPop 5, FqPush (sample_input ''a'' 1), FqPop 5]"
  obtain q' acc del where r: "fq_run ?xs sample_fq = (q', acc, del)" using prod_cases3 by blast
  have "hd (items_of sample_fq ''b'') \<in> set del"
    by (rule fair_queue_no_starvation [OF sample_fq_facts(1) _ _ _ _ r, of "[''a'']" _ "[]" 5])
      (simp_all add: sample_fq_facts eligible_def sample_input_def pops_at_least_def pop_count_def)
  then show ?thesis using r by (auto simp: sample_fq_facts)
qed

text \<open>
  A pop returns nothing only when nothing is due; otherwise it returns a non-empty batch of due inputs,
  the front of one revision's queue, within that revision's batch size.
\<close>

theorem fair_queue_pop_batch:
  assumes "fq_inv q" "fq_pop now q = (q', b)"
  shows "case b of None \<Rightarrow> q' = q \<and> (\<forall>r. \<not> eligible q now r)
    | Some batch \<Rightarrow> \<exists>r queue. fq_revisions q r = Some queue \<and> batch \<noteq> [] \<and> items_of q r = batch @ items_of q' r \<and>
        length batch \<le> pp_max_batch_size (rq_policy queue) \<and> (\<forall>x\<in>set batch. qi_available_at_ms x \<le> now)"
  using assms(1)
proof (rule fq_pop_cases [of q now])
  assume n: "\<forall>r\<in>set (fq_ready q). \<not> eligible q now r" "fq_pop now q = (q, None)"
  have "items_of q r \<noteq> [] \<Longrightarrow> r \<in> set (fq_ready q)" for r using assms(1) unfolding fq_inv_def by blast
  then have "\<not> eligible q now r" for r
    using n(1) by (cases "items_of q r = []") (auto simp: eligible_def)
  then show ?thesis using n(2) assms(2) by simp
next
  fix sk r rs queue
  assume a: "fq_ready q = sk @ r # rs" "eligible q now r" "fq_revisions q r = Some queue"
    "fq_pop now q = serve now r queue (q\<lparr>fq_ready := r # rs @ sk\<rparr>)"
  from assms(1) a(1-3) show ?thesis
    by (rule serve_result) (use a(3,4) assms(2) in \<open>auto simp: items_of_def intro!: exI [of _ r]\<close>)
qed

theorem fair_queue_pop_batch_witness:
  "\<exists>q' batch. fq_pop 3 sample_fq = (q', Some batch) \<and> batch \<noteq> []"
proof -
  obtain q' b where p: "fq_pop 3 sample_fq = (q', b)" by fastforce
  have "eligible sample_fq 3 ''b''" by (simp add: eligible_def sample_fq_facts sample_input_def)
  then show ?thesis
    using fair_queue_pop_batch [OF sample_fq_facts(1) p] p by (cases b) auto
qed

end
