(* ===== verification/WorkerPool.thy ===== *)
theory WorkerPool
  imports FairQueue F64
begin

text \<open>
  Worker-pool accounting of one function revision, \<^verbatim>\<open>WorkerPool\<close> of
  \<^verbatim>\<open>vmond/src/function/scheduler.rs\<close>, with the policy the function service builds for it
  (\<^verbatim>\<open>pool_policy\<close> of \<^verbatim>\<open>vmond/src/function/mod.rs\<close>) and the retry and batching decisions of the same file.
  The properties are capacity and worker bounds over all sequences of operations, the choice
  of the least-loaded worker, and what retirement may take.
\<close>

section \<open>The pool\<close>

record worker_slot =
  ws_id :: string
  ws_active :: nat
  ws_completed_calls :: nat
  ws_last_idle_ms :: nat
  ws_retiring :: bool

record worker_pool =
  wp_policy :: pool_policy
  wp_workers :: "worker_slot list"

definition wp_new :: "pool_policy \<Rightarrow> worker_pool" where
  "wp_new policy = \<lparr>wp_policy = normalized policy, wp_workers = []\<rparr>"

definition worker_count :: "worker_pool \<Rightarrow> nat" where
  "worker_count p = length (wp_workers p)"

definition desired_workers :: "nat \<Rightarrow> worker_pool \<Rightarrow> nat" where
  "desired_workers queued_inputs p =
     (let demand = div_ceil queued_inputs (pp_max_outstanding (wp_policy p));
          warm = (if queued_inputs = 0 then pp_min_workers (wp_policy p)
                  else max (sat_add_usize demand (pp_buffer_workers (wp_policy p))) (pp_min_workers (wp_policy p)))
      in min warm (pp_max_workers (wp_policy p)))"

definition add_worker :: "string \<Rightarrow> nat \<Rightarrow> worker_pool \<Rightarrow> worker_pool \<times> bool" where
  "add_worker worker_id now p =
     (if length (wp_workers p) \<ge> pp_max_workers (wp_policy p) \<or> list_ex (\<lambda>w. ws_id w = worker_id) (wp_workers p)
      then (p, False)
      else (p\<lparr>wp_workers := wp_workers p @ [\<lparr>ws_id = worker_id, ws_active = 0, ws_completed_calls = 0,
              ws_last_idle_ms = now, ws_retiring = False\<rparr>]\<rparr>, True))"

definition admissible :: "pool_policy \<Rightarrow> worker_slot \<Rightarrow> bool" where
  "admissible policy w \<longleftrightarrow> \<not> ws_retiring w \<and> ws_active w < pp_capacity policy"

definition load_le :: "worker_slot \<Rightarrow> worker_slot \<Rightarrow> bool" where
  "load_le v w \<longleftrightarrow> ws_active v < ws_active w \<or> (ws_active v = ws_active w \<and> ws_completed_calls v \<le> ws_completed_calls w)"

text \<open>\<^verbatim>\<open>filter\<close> and \<^verbatim>\<open>min_by_key\<close>: the index of the first admissible worker with the least key.\<close>

fun least_loaded :: "pool_policy \<Rightarrow> worker_slot list \<Rightarrow> nat option" where
  "least_loaded policy [] = None"
| "least_loaded policy (w # ws) = (case least_loaded policy ws of
     None \<Rightarrow> if admissible policy w then Some 0 else None
   | Some j \<Rightarrow> if admissible policy w \<and> load_le w (ws ! j) then Some 0 else Some (Suc j))"

definition admit :: "worker_pool \<Rightarrow> worker_pool \<times> string option" where
  "admit p = (case least_loaded (wp_policy p) (wp_workers p) of
     None \<Rightarrow> (p, None)
   | Some i \<Rightarrow> let w = wp_workers p ! i; w' = w\<lparr>ws_active := ws_active w + 1\<rparr>
       in (p\<lparr>wp_workers := (wp_workers p)[i := w']\<rparr>, Some (ws_id w')))"

fun find_worker :: "string \<Rightarrow> worker_slot list \<Rightarrow> nat option" where
  "find_worker worker_id [] = None"
| "find_worker worker_id (w # ws) = (if ws_id w = worker_id then Some 0 else map_option Suc (find_worker worker_id ws))"

definition abandon :: "string \<Rightarrow> nat \<Rightarrow> worker_pool \<Rightarrow> worker_pool \<times> bool" where
  "abandon worker_id now p = (case find_worker worker_id (wp_workers p) of
     None \<Rightarrow> (p, False)
   | Some i \<Rightarrow> let w = wp_workers p ! i; w1 = w\<lparr>ws_active := ws_active w - 1\<rparr>;
         w2 = (if ws_active w1 = 0 then w1\<lparr>ws_last_idle_ms := now\<rparr> else w1)
       in (p\<lparr>wp_workers := (wp_workers p)[i := w2]\<rparr>, True))"

definition complete :: "string \<Rightarrow> nat \<Rightarrow> worker_pool \<Rightarrow> worker_pool \<times> bool" where
  "complete worker_id now p = (case find_worker worker_id (wp_workers p) of
     None \<Rightarrow> (p, False)
   | Some i \<Rightarrow> let w = wp_workers p ! i;
         w1 = w\<lparr>ws_active := ws_active w - 1, ws_completed_calls := sat_add_u64 (ws_completed_calls w) 1\<rparr>;
         w2 = (if ws_active w1 = 0
               then (let w1' = w1\<lparr>ws_last_idle_ms := now\<rparr> in
                     if pp_max_calls (wp_policy p) > 0 \<and> ws_completed_calls w1' \<ge> pp_max_calls (wp_policy p)
                     then w1'\<lparr>ws_retiring := True\<rparr> else w1')
               else w1)
       in (p\<lparr>wp_workers := (wp_workers p)[i := w2]\<rparr>, True))"

fun retire_loop :: "nat \<Rightarrow> nat \<Rightarrow> nat \<Rightarrow> worker_slot list \<Rightarrow> worker_slot list \<times> string list" where
  "retire_loop now idle_timeout_ms removable [] = ([], [])"
| "retire_loop now idle_timeout_ms removable (w # ws) =
     (if removable = 0 \<or> ws_active w \<noteq> 0
      then (let (ws', ids) = retire_loop now idle_timeout_ms removable ws in (w # ws', ids))
      else let expired = now - ws_last_idle_ms w \<ge> idle_timeout_ms in
        if ws_retiring w \<or> expired
        then (let (ws', ids) = retire_loop now idle_timeout_ms (removable - 1) ws
              in (w\<lparr>ws_retiring := True\<rparr> # ws', ws_id w # ids))
        else (let (ws', ids) = retire_loop now idle_timeout_ms removable ws in (w # ws', ids)))"

definition retire_ready :: "nat \<Rightarrow> worker_pool \<Rightarrow> worker_pool \<times> string list" where
  "retire_ready now p =
     (let keep = pp_min_workers (wp_policy p);
          idle_timeout_ms = min (pp_idle_timeout (wp_policy p)) u64_max;
          (ws, ids) = retire_loop now idle_timeout_ms (length (wp_workers p) - keep) (wp_workers p)
      in (p\<lparr>wp_workers := ws\<rparr>, ids))"

definition remove_worker :: "string \<Rightarrow> worker_pool \<Rightarrow> worker_pool \<times> bool" where
  "remove_worker worker_id p = (case find_worker worker_id (wp_workers p) of
     None \<Rightarrow> (p, False)
   | Some i \<Rightarrow> (p\<lparr>wp_workers := butlast ((wp_workers p)[i := last (wp_workers p)])\<rparr>, True))"

section \<open>Policies, modes, retries\<close>

record pool_spec =
  sp_min_workers :: nat
  sp_max_workers :: nat
  sp_buffer_workers :: nat
  sp_max_outstanding_inputs :: nat
  sp_idle_timeout_millis :: nat
  sp_max_calls_per_worker :: nat

record batching_spec =
  bs_enabled :: bool
  bs_max_batch_size :: nat
  bs_max_wait_millis :: nat

text \<open>The optional parts of a revision's spec: workers, \<open>max_concurrent_calls\<close> and batching.\<close>

definition pool_policy_of :: "pool_spec option \<Rightarrow> nat option \<Rightarrow> batching_spec option \<Rightarrow> pool_policy" where
  "pool_policy_of workers concurrency batching =
     (let capacity = (case concurrency of None \<Rightarrow> 1 | Some n \<Rightarrow> max n 1) in
      \<lparr>pp_min_workers = (case workers of None \<Rightarrow> 0 | Some v \<Rightarrow> sp_min_workers v),
       pp_max_workers = (case workers of None \<Rightarrow> 1 | Some v \<Rightarrow> max (sp_max_workers v) 1),
       pp_buffer_workers = (case workers of None \<Rightarrow> 0 | Some v \<Rightarrow> sp_buffer_workers v),
       pp_capacity = capacity,
       pp_max_outstanding = (case workers of None \<Rightarrow> capacity | Some v \<Rightarrow> max (sp_max_outstanding_inputs v) capacity),
       pp_idle_timeout = (case workers of None \<Rightarrow> 60000
          | Some v \<Rightarrow> if sp_idle_timeout_millis v = 0 then 60000 else sp_idle_timeout_millis v),
       pp_max_calls = (case workers of None \<Rightarrow> 0 | Some v \<Rightarrow> sp_max_calls_per_worker v),
       pp_max_batch_size = (case batching of None \<Rightarrow> 1
          | Some v \<Rightarrow> if bs_enabled v then max (bs_max_batch_size v) 1 else 1),
       pp_batch_wait = (case batching of None \<Rightarrow> 0 | Some v \<Rightarrow> bs_max_wait_millis v)\<rparr>)"

definition effective_batch_size :: "pool_policy \<Rightarrow> nat" where
  "effective_batch_size policy =
     min (min (pp_max_batch_size policy) (max (pp_max_outstanding policy - 1) 1)) 4294967295"

datatype execution_mode = ModeUnary | ModeGenerator | ModeBatch
datatype call_type = CallUnspecified | CallUnary | CallGenerator | CallBatch | CallActor

definition input_execution_mode :: "call_type \<Rightarrow> execution_mode" where
  "input_execution_mode c = (case c of CallGenerator \<Rightarrow> ModeGenerator | _ \<Rightarrow> ModeUnary)"

definition dynamic_batch_ready :: "nat \<Rightarrow> nat \<Rightarrow> nat \<Rightarrow> nat \<Rightarrow> nat \<Rightarrow> bool" where
  "dynamic_batch_ready queued_inputs oldest_available_ms now max_batch_size max_wait_ms \<longleftrightarrow>
     queued_inputs \<ge> max max_batch_size 1 \<or> now - oldest_available_ms \<ge> max_wait_ms"

text \<open>\<open>pow_i\<close> is \<^verbatim>\<open>f64::powi\<close>, whose precision the language leaves open; the exponent is cast to an i32.\<close>

definition as_i32 :: "nat \<Rightarrow> int" where
  "as_i32 n = signed_take_bit 31 (int n)"

definition retry_backoff :: "(f64 \<Rightarrow> int \<Rightarrow> f64) \<Rightarrow> nat \<Rightarrow> nat \<Rightarrow> f64 \<Rightarrow> nat \<Rightarrow> nat" where
  "retry_backoff pow_i policy_initial_ms policy_max_ms multiplier attempt =
     (let exponent = as_i32 (attempt - 1);
          factor = (if f64_is_finite multiplier \<and> f64_le (F_Fin 1) multiplier then pow_i multiplier exponent else F_Fin 1);
          delay = f64_min (f64_mul (f64_of_nat policy_initial_ms) factor) (f64_of_nat (max policy_max_ms policy_initial_ms))
      in f64_as_u64 delay)"

section \<open>The invariant\<close>

definition worker_ok :: "pool_policy \<Rightarrow> worker_slot \<Rightarrow> bool" where
  "worker_ok policy w \<longleftrightarrow> ws_active w \<le> pp_capacity policy \<and> (ws_retiring w \<longrightarrow> ws_active w = 0)"

definition wp_inv :: "worker_pool \<Rightarrow> bool" where
  "wp_inv p \<longleftrightarrow> policy_ok (wp_policy p) \<and> length (wp_workers p) \<le> pp_max_workers (wp_policy p) \<and>
     distinct (map ws_id (wp_workers p)) \<and> (\<forall>w\<in>set (wp_workers p). worker_ok (wp_policy p) w)"

lemma wp_inv_new: "wp_inv (wp_new policy)"
  by (simp add: wp_inv_def wp_new_def)

lemma wp_inv_add: "wp_inv p \<Longrightarrow> wp_inv (fst (add_worker i now p))"
  by (auto simp: wp_inv_def add_worker_def worker_ok_def list_ex_iff)

text \<open>Replacing one slot by one with the same id.\<close>

lemma wp_inv_update:
  assumes "wp_inv p" "i < length (wp_workers p)" "ws_id w = ws_id (wp_workers p ! i)" "worker_ok (wp_policy p) w"
  shows "wp_inv (p\<lparr>wp_workers := (wp_workers p)[i := w]\<rparr>)"
proof -
  have "map ws_id ((wp_workers p)[i := w]) = map ws_id (wp_workers p)"
    using assms(2,3) by (simp add: map_update list_update_same_conv)
  then show ?thesis
    using assms(1,4) by (auto simp: wp_inv_def dest: set_update_subset_insert [THEN subsetD])
qed

lemma least_loaded_None_iff: "least_loaded policy ws = None \<longleftrightarrow> (\<forall>w\<in>set ws. \<not> admissible policy w)"
  by (induction ws) (auto split: option.splits)

lemma least_loaded_Some:
  "least_loaded policy ws = Some i \<Longrightarrow> i < length ws \<and> admissible policy (ws ! i) \<and>
    (\<forall>j<length ws. admissible policy (ws ! j) \<longrightarrow> load_le (ws ! i) (ws ! j))"
proof (induction ws arbitrary: i)
  case (Cons w ws)
  show ?case
  proof (cases "least_loaded policy ws")
    case None
    then have "\<not> admissible policy (ws ! j)" if "j < length ws" for j
      using that least_loaded_None_iff by (metis nth_mem)
    then show ?thesis using Cons.prems None by (auto simp: load_le_def less_Suc_eq_0_disj split: if_splits)
  next
    case (Some k)
    then show ?thesis
      using Cons.IH [OF Some] Cons.prems by (auto simp: load_le_def less_Suc_eq_0_disj nth_Cons' split: if_splits) 
  qed
qed simp

lemma find_worker_Some: "find_worker i ws = Some k \<Longrightarrow> k < length ws \<and> ws_id (ws ! k) = i"
  by (induction ws arbitrary: k) (auto split: if_splits)

lemma wp_inv_nth: "wp_inv p \<Longrightarrow> i < length (wp_workers p) \<Longrightarrow> worker_ok (wp_policy p) (wp_workers p ! i)"
  by (simp add: wp_inv_def)

lemma wp_inv_admit:
  assumes "wp_inv p"
  shows "wp_inv (fst (admit p))"
proof (cases "least_loaded (wp_policy p) (wp_workers p)")
  case (Some i)
  from least_loaded_Some [OF Some] show ?thesis
    by (auto simp: admit_def Some Let_def admissible_def worker_ok_def intro!: wp_inv_update assms)
qed (simp add: admit_def assms)

lemma wp_inv_abandon:
  assumes "wp_inv p"
  shows "wp_inv (fst (abandon i now p))"
proof (cases "find_worker i (wp_workers p)")
  case (Some k)
  from find_worker_Some [OF Some] wp_inv_nth [OF assms, of k] show ?thesis
    by (auto simp: abandon_def Some Let_def worker_ok_def intro!: wp_inv_update assms)
qed (simp add: abandon_def assms)

lemma wp_inv_complete:
  assumes "wp_inv p"
  shows "wp_inv (fst (complete i now p))"
proof (cases "find_worker i (wp_workers p)")
  case (Some k)
  from find_worker_Some [OF Some] wp_inv_nth [OF assms, of k] show ?thesis
    by (auto simp: complete_def Some Let_def worker_ok_def intro!: wp_inv_update assms)
qed (simp add: complete_def assms)

text \<open>Retirement changes nothing but the retiring flags of idle workers.\<close>

lemma retire_loop_facts:
  assumes "retire_loop now t n ws = (ws', ids)"
  shows "map ws_id ws' = map ws_id ws" "map ws_active ws' = map ws_active ws"
    "\<forall>w\<in>set ws'. ws_retiring w \<longrightarrow> ws_active w = 0 \<or> w \<in> set ws"
    "length ids \<le> n" "length ids \<le> length ws"
    "\<forall>i\<in>set ids. \<exists>w\<in>set ws. ws_id w = i \<and> ws_active w = 0 \<and> (ws_retiring w \<or> t \<le> now - ws_last_idle_ms w)"
    "\<forall>i\<in>set ids. \<exists>w\<in>set ws'. ws_id w = i \<and> ws_retiring w"
    "distinct (map ws_id ws) \<longrightarrow> distinct ids"
proof -
  have "map ws_id ws' = map ws_id ws \<and> map ws_active ws' = map ws_active ws \<and>
    (\<forall>w\<in>set ws'. ws_retiring w \<longrightarrow> ws_active w = 0 \<or> w \<in> set ws) \<and> length ids \<le> n \<and> length ids \<le> length ws \<and>
    (\<forall>i\<in>set ids. \<exists>w\<in>set ws. ws_id w = i \<and> ws_active w = 0 \<and> (ws_retiring w \<or> t \<le> now - ws_last_idle_ms w)) \<and>
    (\<forall>i\<in>set ids. \<exists>w\<in>set ws'. ws_id w = i \<and> ws_retiring w) \<and>
    (distinct (map ws_id ws) \<longrightarrow> distinct ids)"
    using assms
  proof (induction ws arbitrary: n ws' ids)
    case (Cons w ws)
    define removes where "removes \<longleftrightarrow> \<not> (n = 0 \<or> ws_active w \<noteq> 0) \<and> (ws_retiring w \<or> now - ws_last_idle_ms w \<ge> t)"
    define m where "m = (if removes then n - 1 else n)"
    obtain us js where r: "retire_loop now t m ws = (us, js)" by fastforce
    have eq: "ws' = (if removes then w\<lparr>ws_retiring := True\<rparr> else w) # us" "ids = (if removes then ws_id w # js else js)"
      using Cons.prems r by (auto simp: removes_def m_def Let_def split: if_splits prod.splits)
    show ?case
    proof (cases removes)
      case True
      then show ?thesis
        using Cons.IH [OF r] eq by (auto simp: m_def removes_def) (metis image_eqI)+
    next
      case False
      then show ?thesis using Cons.IH [OF r] eq by (auto simp: m_def)
    qed
  qed simp
  then show "map ws_id ws' = map ws_id ws" "map ws_active ws' = map ws_active ws"
    "\<forall>w\<in>set ws'. ws_retiring w \<longrightarrow> ws_active w = 0 \<or> w \<in> set ws"
    "length ids \<le> n" "length ids \<le> length ws"
    "\<forall>i\<in>set ids. \<exists>w\<in>set ws. ws_id w = i \<and> ws_active w = 0 \<and> (ws_retiring w \<or> t \<le> now - ws_last_idle_ms w)"
    "\<forall>i\<in>set ids. \<exists>w\<in>set ws'. ws_id w = i \<and> ws_retiring w"
    "distinct (map ws_id ws) \<longrightarrow> distinct ids"
    by blast+
qed

lemma wp_inv_retire:
  assumes "wp_inv p"
  shows "wp_inv (fst (retire_ready now p))"
proof -
  let ?t = "min (pp_idle_timeout (wp_policy p)) u64_max" and ?n = "length (wp_workers p) - pp_min_workers (wp_policy p)"
  obtain ws ids where r: "retire_loop now ?t ?n (wp_workers p) = (ws, ids)" by fastforce
  note facts = retire_loop_facts [OF r]
  have "worker_ok (wp_policy p) w" if "w \<in> set ws" for w
  proof -
    have "ws_active w \<in> set (map ws_active (wp_workers p))" using that facts(2) by (metis image_eqI set_map)
    then have "ws_active w \<le> pp_capacity (wp_policy p)" using assms by (auto simp: wp_inv_def worker_ok_def)
    moreover have "ws_retiring w \<longrightarrow> ws_active w = 0" using facts(3) that assms by (auto simp: wp_inv_def worker_ok_def)
    ultimately show ?thesis by (simp add: worker_ok_def)
  qed
  moreover have "length ws = length (wp_workers p)" using facts(1) by (metis length_map)
  ultimately show ?thesis
    using assms facts(1) by (simp add: retire_ready_def Let_def r wp_inv_def)
qed

lemma mset_swap_remove:
  assumes "i < length xs"
  shows "mset (butlast (xs[i := last xs])) + {# xs ! i #} = mset xs"
proof -
  have ne: "xs \<noteq> []" using assms by auto
  have "xs[i := last xs] \<noteq> []" using ne by simp
  then have "mset (butlast (xs[i := last xs])) + {# last (xs[i := last xs]) #} = mset (xs[i := last xs])"
    by (metis append_butlast_last_id mset_append mset_single_iff_right mset.simps)
  moreover have "last (xs[i := last xs]) = last xs"
    using assms ne by (cases "i = length xs - 1") (auto simp: last_conv_nth)
  moreover have "mset (xs[i := last xs]) = mset xs - {# xs ! i #} + {# last xs #}"
    using assms by (simp add: mset_update)
  ultimately show ?thesis
    using assms by (metis add_right_cancel insert_DiffM2 nth_mem_mset union_single_eq_member add_mset_add_single)
qed

lemma wp_inv_remove:
  assumes "wp_inv p"
  shows "wp_inv (fst (remove_worker i p))"
proof (cases "find_worker i (wp_workers p)")
  case (Some k)
  let ?ws = "butlast ((wp_workers p)[k := last (wp_workers p)])"
  have m: "mset ?ws + {# wp_workers p ! k #} = mset (wp_workers p)"
    using find_worker_Some [OF Some] by (intro mset_swap_remove) simp
  have "mset (map ws_id ?ws) + {# ws_id (wp_workers p ! k) #} = mset (map ws_id (wp_workers p))"
    using arg_cong [OF m, of "image_mset ws_id"] by simp
  then have "distinct (map ws_id ?ws)"
    using assms by (metis distinct_append mset_append mset_single_iff_right mset_eq_imp_distinct_iff wp_inv_def mset.simps)
  moreover have "set ?ws \<subseteq> set (wp_workers p)"
    using m by (metis mset_subset_eq_add_left set_mset_mono set_mset_mset)
  ultimately show ?thesis
    using assms by (auto simp: remove_worker_def Some wp_inv_def)
qed (simp add: remove_worker_def assms)

section \<open>Runs\<close>

datatype pool_op =
  PoolAdd string nat | PoolAdmit | PoolAbandon string nat | PoolComplete string nat | PoolRetire nat | PoolRemove string

fun pool_step :: "pool_op \<Rightarrow> worker_pool \<Rightarrow> worker_pool" where
  "pool_step (PoolAdd i now) p = fst (add_worker i now p)"
| "pool_step PoolAdmit p = fst (admit p)"
| "pool_step (PoolAbandon i now) p = fst (abandon i now p)"
| "pool_step (PoolComplete i now) p = fst (complete i now p)"
| "pool_step (PoolRetire now) p = fst (retire_ready now p)"
| "pool_step (PoolRemove i) p = fst (remove_worker i p)"

lemmas wp_inv_ops = wp_inv_add wp_inv_admit wp_inv_abandon wp_inv_complete wp_inv_retire wp_inv_remove

lemma wp_inv_step: "wp_inv p \<Longrightarrow> wp_inv (pool_step x p)"
  by (cases x) (simp_all add: wp_inv_ops)

lemma wp_inv_run: "wp_inv p \<Longrightarrow> wp_inv (fold pool_step xs p)"
  by (induction xs arbitrary: p) (simp_all add: wp_inv_step)

lemma wp_policy_step [simp]: "wp_policy (pool_step x p) = wp_policy p"
  by (cases x) (auto simp: add_worker_def admit_def abandon_def complete_def retire_ready_def remove_worker_def Let_def
      split: option.splits prod.splits)

lemma wp_policy_run [simp]: "wp_policy (fold pool_step xs p) = wp_policy p"
  by (induction xs arbitrary: p) simp_all

section \<open>Properties\<close>

text \<open>
  C15: A pool keeps its limits. After any sequence of operations there are at most max_workers workers
  with distinct ids, none runs more than its capacity, and a worker marked for retirement
  runs nothing.
\<close>

theorem worker_pool_limits:
  "length (wp_workers (fold pool_step xs (wp_new policy))) \<le> pp_max_workers (normalized policy) \<and>
   distinct (map ws_id (wp_workers (fold pool_step xs (wp_new policy)))) \<and>
   list_all (\<lambda>w. ws_active w \<le> pp_capacity (normalized policy) \<and> (if ws_retiring w then ws_active w = 0 else True))
     (wp_workers (fold pool_step xs (wp_new policy)))"
proof -
  have "wp_policy (wp_new policy) = normalized policy" by (simp add: wp_new_def)
  then show ?thesis
    using wp_inv_run [OF wp_inv_new, of xs policy] by (auto simp: wp_inv_def worker_ok_def list_all_iff)
qed

text \<open>
  Admission takes the least-loaded worker. Admission fails exactly when no worker is free of
  retirement and below capacity; otherwise it reserves one unit on such a worker, with no
  other candidate having fewer active calls, or as many and fewer completed ones.
\<close>

theorem admit_least_loaded:
  "case admit p of
     (p', None) \<Rightarrow> p' = p \<and> list_all (\<lambda>w. \<not> admissible (wp_policy p) w) (wp_workers p)
   | (p', Some i) \<Rightarrow> \<exists>k w. k < length (wp_workers p) \<and> w = wp_workers p ! k \<and> ws_id w = i \<and> admissible (wp_policy p) w \<and>
       list_all (load_le w) (filter (admissible (wp_policy p)) (wp_workers p)) \<and>
       wp_workers p' = (wp_workers p)[k := w\<lparr>ws_active := ws_active w + 1\<rparr>]"
proof (cases "least_loaded (wp_policy p) (wp_workers p)")
  case None
  then have "list_all (\<lambda>w. \<not> admissible (wp_policy p) w) (wp_workers p)"
    by (simp add: least_loaded_None_iff list_all_iff)
  then show ?thesis by (simp add: admit_def None)
next
  case (Some k)
  from least_loaded_Some [OF Some] show ?thesis
    by (auto simp: admit_def Some Let_def list_all_iff in_set_conv_nth intro!: exI [of _ k])
qed

text \<open>
  Retirement takes idle workers only and keeps the minimum. The ids returned are distinct, each of
  a worker with no active call that was marked or idle for the timeout, and the pool has at
  least min_workers workers besides them if it had that many.
\<close>

theorem retire_ready_safe:
  assumes "wp_inv p" "retire_ready now p = (p', ids)"
  shows "distinct ids \<and> length ids \<le> length (wp_workers p) - pp_min_workers (wp_policy p) \<and>
    (\<forall>i\<in>set ids. \<exists>w\<in>set (wp_workers p). ws_id w = i \<and> ws_active w = 0 \<and>
       (ws_retiring w \<or> min (pp_idle_timeout (wp_policy p)) u64_max \<le> now - ws_last_idle_ms w))"
proof -
  let ?t = "min (pp_idle_timeout (wp_policy p)) u64_max" and ?n = "length (wp_workers p) - pp_min_workers (wp_policy p)"
  obtain ws where r: "retire_loop now ?t ?n (wp_workers p) = (ws, ids)"
    using assms(2) by (auto simp: retire_ready_def Let_def split: prod.splits)
  show ?thesis
    using retire_loop_facts [OF r] assms(1) by (simp add: wp_inv_def)
qed

definition sample_policy :: pool_policy where
  "sample_policy = pool_policy_default\<lparr>pp_min_workers := 1, pp_max_calls := 1\<rparr>"

definition sample_pool :: worker_pool where
  "sample_pool = fold pool_step [PoolAdd ''w'' 0, PoolAdmit, PoolComplete ''w'' 5] (wp_new sample_policy)"

lemma sample_pool_eq:
  "sample_pool = \<lparr>wp_policy = normalized sample_policy,
     wp_workers = [\<lparr>ws_id = ''w'', ws_active = 0, ws_completed_calls = 1, ws_last_idle_ms = 5, ws_retiring = True\<rparr>]\<rparr>"
  by (simp add: sample_pool_def sample_policy_def pool_policy_default_def normalized_def wp_new_def add_worker_def
      admit_def admissible_def complete_def sat_add_u64_def Let_def)

lemma sample_pool_inv: "wp_inv sample_pool"
  unfolding sample_pool_def by (rule wp_inv_run [OF wp_inv_new])

theorem retire_ready_safe_witness:
  "\<exists>p' ids. retire_ready 100000 (sample_pool\<lparr>wp_policy := normalized pool_policy_default\<rparr>) = (p', ids) \<and> ids = [''w''] \<and> distinct ids"
proof -
  let ?p = "sample_pool\<lparr>wp_policy := normalized pool_policy_default\<rparr>"
  have inv: "wp_inv ?p" by (simp add: sample_pool_eq wp_inv_def worker_ok_def normalized_def pool_policy_default_def policy_ok_def)
  obtain p' ids where r: "retire_ready 100000 ?p = (p', ids)" by fastforce
  have "ids = [''w'']" using r by (simp add: sample_pool_eq retire_ready_def normalized_def pool_policy_default_def Let_def)
  then show ?thesis using r retire_ready_safe [OF inv r] by blast
qed

lemma all_retiring_stuck:
  assumes "wp_inv p" "pp_min_workers (wp_policy p) = pp_max_workers (wp_policy p)"
    "length (wp_workers p) = pp_max_workers (wp_policy p)" "list_all ws_retiring (wp_workers p)"
  shows "admit p = (p, None)" "add_worker i now p = (p, False)" "retire_ready now p = (p, [])"
    "desired_workers n p \<le> worker_count p"
proof -
  have "least_loaded (wp_policy p) (wp_workers p) = None"
    using assms(4) by (simp add: least_loaded_None_iff admissible_def list_all_iff)
  then show "admit p = (p, None)" by (simp add: admit_def)
  show "add_worker i now p = (p, False)" using assms(3) by (simp add: add_worker_def)
  have "retire_loop now t 0 ws = (ws, [])" for t ws by (induction ws) auto
  then show "retire_ready now p = (p, [])" using assms(2,3) by (simp add: retire_ready_def)
  show "desired_workers n p \<le> worker_count p" using assms(3) by (simp add: desired_workers_def worker_count_def Let_def)
qed

text \<open>
  A pool whose minimum equals its maximum is stuck once all its workers reached their call limit:
  admission fails, no worker is added, none is reported for retirement and no more workers
  are desired, at any later time.
\<close>

theorem pool_stuck_at_call_limit:
  assumes "wp_inv p" "pp_min_workers (wp_policy p) = pp_max_workers (wp_policy p)"
    "length (wp_workers p) = pp_max_workers (wp_policy p)" "list_all ws_retiring (wp_workers p)"
  shows "admit p = (p, None) \<and> add_worker i now1 p = (p, False) \<and> retire_ready now2 p = (p, []) \<and>
    desired_workers n p \<le> worker_count p"
  using all_retiring_stuck [OF assms] by simp

theorem pool_stuck_at_call_limit_witness:
  "sample_pool = fold pool_step [PoolAdd ''w'' 0, PoolAdmit, PoolComplete ''w'' 5] (wp_new sample_policy) \<and>
   admit sample_pool = (sample_pool, None) \<and> retire_ready 1000000 sample_pool = (sample_pool, [])"
proof -
  have "admit sample_pool = (sample_pool, None) \<and> add_worker ''v'' 0 sample_pool = (sample_pool, False) \<and>
      retire_ready 1000000 sample_pool = (sample_pool, []) \<and> desired_workers 9 sample_pool \<le> worker_count sample_pool"
    by (rule pool_stuck_at_call_limit [OF sample_pool_inv])
      (simp_all add: sample_pool_eq sample_policy_def pool_policy_default_def normalized_def)
  then show ?thesis by (simp add: sample_pool_def)
qed

lemma as_u64_mono: "\<not> f64_lt b a \<Longrightarrow> a \<noteq> F_NaN \<Longrightarrow> b \<noteq> F_NaN \<Longrightarrow> f64_as_u64 a \<le> f64_as_u64 b"
  by (cases a; cases b) (auto simp: not_less intro!: min.coboundedI1 nat_mono floor_mono split: if_splits)

lemma as_u64_min: "b \<noteq> F_NaN \<Longrightarrow> f64_as_u64 (f64_min a b) \<le> f64_as_u64 b"
  using as_u64_mono [of b a] by (auto simp: f64_min_def)

lemma f64_of_nat_not_NaN: "f64_of_nat n \<noteq> F_NaN"
  by (auto simp: f64_of_nat_def f64_round_def Let_def split: if_splits)

text \<open>
  The retry delay is bounded, whatever the attempt number and the multiplier, by the larger of the
  configured maximum and initial delays, as far as a double can represent it.
\<close>

theorem retry_backoff_bounded:
  "retry_backoff pow_i policy_initial_ms policy_max_ms multiplier attempt \<le>
     f64_as_u64 (f64_of_nat (max policy_max_ms policy_initial_ms))"
  unfolding retry_backoff_def Let_def by (rule as_u64_min [OF f64_of_nat_not_NaN])

text \<open>
  A zero initial delay turns into the maximum when the growth factor overflows: the product of zero
  and infinity is NaN, which the minimum ignores.
\<close>

theorem retry_backoff_zero_overflow:
  assumes "f64_is_finite multiplier" "f64_le (F_Fin 1) multiplier" "pow_i multiplier (as_i32 (attempt - 1)) = F_Inf False"
  shows "retry_backoff pow_i 0 policy_max_ms multiplier attempt = f64_as_u64 (f64_of_nat policy_max_ms)"
proof -
  have "f64_of_nat 0 = F_Fin 0" by (simp add: f64_of_nat_def f64_round_def)
  then show ?thesis
    using assms by (simp add: retry_backoff_def f64_mul_def f64_min_def)
qed

theorem retry_backoff_zero_overflow_witness:
  "retry_backoff (\<lambda>m e. if 1024 \<le> e then F_Inf False else F_Fin 1) 0 30000 (F_Fin 2) 2000 = f64_as_u64 (f64_of_nat 30000)"
  by (rule retry_backoff_zero_overflow) (simp_all add: f64_is_finite_def f64_le_def as_i32_def signed_take_bit_eq_if_positive)

end
