(* ===== verification/RustText.thy ===== *)
theory RustText
  imports Prelude
begin

text \<open>
  Text as Rust's standard library handles it: ASCII classes, trimming, decimal and hexadecimal
  formatting, parsing of unsigned integers, and splitting. Text is ASCII, so single bytes
  are characters.
\<close>

section \<open>Characters\<close>

definition is_whitespace :: "char \<Rightarrow> bool" where
  "is_whitespace c \<longleftrightarrow> (of_char c :: nat) \<in> {9, 10, 11, 12, 13, 32}"

definition trim :: "string \<Rightarrow> string" where
  "trim s = rev (dropWhile is_whitespace (rev (dropWhile is_whitespace s)))"

definition to_lower :: "char \<Rightarrow> char" where
  "to_lower c = (if CHR ''A'' \<le> c \<and> c \<le> CHR ''Z'' then char_of (of_char c + 32 :: nat) else c)"

text \<open>The byte as a decimal digit.\<close>

definition is_digit :: "char \<Rightarrow> bool" where
  "is_digit c \<longleftrightarrow> CHR ''0'' \<le> c \<and> c \<le> CHR ''9''"

definition char_between :: "char \<Rightarrow> char \<Rightarrow> char \<Rightarrow> bool" where
  "char_between lo hi c \<longleftrightarrow> lo \<le> c \<and> c \<le> hi"

definition digits_val :: "string \<Rightarrow> nat" where
  "digits_val ds = foldl (\<lambda>n d. 10 * n + (of_char d - of_char CHR ''0'')) 0 ds"

text \<open>\<^verbatim>\<open>str::parse\<close> to an unsigned integer of the given maximum: an optional plus, then digits.\<close>

definition parse_uint :: "nat \<Rightarrow> string \<Rightarrow> nat option" where
  "parse_uint max_val text =
     (let ds = (case text of [] \<Rightarrow> [] | c # cs \<Rightarrow> if c = CHR ''+'' then cs else text) in
      if ds = [] \<or> \<not> list_all is_digit ds \<or> digits_val ds > max_val then None else Some (digits_val ds))"

section \<open>Formatting\<close>

fun dec_digits :: "nat \<Rightarrow> string" where
  "dec_digits n = (if n < 10 then [char_of (48 + n)] else dec_digits (n div 10) @ [char_of (48 + n mod 10)])"

definition hex_digit :: "nat \<Rightarrow> char" where
  "hex_digit n = (if n < 10 then char_of (48 + n) else char_of (87 + n))"

text \<open>\<^verbatim>\<open>{:0w$x}\<close> for values below \<open>16 ^ w\<close>.\<close>

primrec hex_fixed :: "nat \<Rightarrow> nat \<Rightarrow> string" where
  "hex_fixed 0 n = []"
| "hex_fixed (Suc w) n = hex_fixed w (n div 16) @ [hex_digit (n mod 16)]"

fun split_on :: "char \<Rightarrow> string \<Rightarrow> string list" where
  "split_on c [] = [[]]"
| "split_on c (x # xs) = (if x = c then [] # split_on c xs else (x # hd (split_on c xs)) # tl (split_on c xs))"

text \<open>\<^verbatim>\<open>str::split_once\<close>.\<close>

definition split_once :: "char \<Rightarrow> string \<Rightarrow> (string \<times> string) option" where
  "split_once c s = (if c \<in> set s then Some (takeWhile (\<lambda>x. x \<noteq> c) s, tl (dropWhile (\<lambda>x. x \<noteq> c) s)) else None)"

section \<open>Round trips\<close>

declare dec_digits.simps [simp del]

lemma digit_val: "n < 10 \<Longrightarrow> of_char (char_of (48 + n) :: char) = (48 + n :: nat)"
  by (simp add: of_char_of)

lemma dec_digits_nonempty [simp]: "dec_digits n \<noteq> []"
  by (subst dec_digits.simps) simp

lemma is_digit_char: "n < 10 \<Longrightarrow> is_digit (char_of (48 + n :: nat))"
  by (simp add: is_digit_def less_eq_char_def digit_val)

lemma dec_digits_digits: "list_all is_digit (dec_digits n)"
proof (induction n rule: dec_digits.induct)
  case (1 n)
  show ?case
  proof (cases "n < 10")
    case True
    then show ?thesis by (subst dec_digits.simps) (simp add: is_digit_char)
  next
    case False
    then show ?thesis using 1 by (subst dec_digits.simps) (simp add: is_digit_char)
  qed
qed

lemma digits_val_snoc: "digits_val (ds @ [d]) = 10 * digits_val ds + (of_char d - 48)"
  by (simp add: digits_val_def)

lemma digits_val_dec_digits [simp]: "digits_val (dec_digits n) = n"
proof (induction n rule: dec_digits.induct)
  case (1 n)
  show ?case
  proof (cases "n < 10")
    case True
    then show ?thesis by (subst dec_digits.simps) (simp add: digits_val_def digit_val)
  next
    case False
    then show ?thesis using 1 by (subst dec_digits.simps) (simp add: digits_val_snoc digit_val)
  qed
qed

lemma parse_uint_dec_digits: "n \<le> m \<Longrightarrow> parse_uint m (dec_digits n) = Some n"
proof -
  assume n: "n \<le> m"
  obtain c cs where cs: "dec_digits n = c # cs" by (cases "dec_digits n") auto
  then have "c \<noteq> CHR ''+''" using dec_digits_digits [of n] by (auto simp: is_digit_def less_eq_char_def)
  then have "parse_uint m (dec_digits n) = (if dec_digits n = [] \<or> \<not> list_all is_digit (dec_digits n) \<or> m < digits_val (dec_digits n) then None
      else Some (digits_val (dec_digits n)))"
    by (simp only: parse_uint_def cs list.case Let_def if_False)
  then show ?thesis using n dec_digits_digits [of n] by simp
qed

lemma digit_not_mem: "\<not> is_digit c \<Longrightarrow> c \<notin> set (dec_digits n)"
  using dec_digits_digits [of n] by (auto simp: list_all_iff)

lemma split_on_absent: "c \<notin> set s \<Longrightarrow> split_on c s = [s]"
  by (induction s) auto

lemma split_on_append: "c \<notin> set s \<Longrightarrow> split_on c (s @ c # t) = s # split_on c t"
  by (induction s) auto

lemma split_once_append: "c \<notin> set s \<Longrightarrow> split_once c (s @ c # t) = Some (s, t)"
  by (simp add: split_once_def takeWhile_append dropWhile_append)

lemma dec_digits_inj: "dec_digits m = dec_digits n \<longleftrightarrow> m = n"
  by (metis digits_val_dec_digits)

lemma hex_digit_inj: "m < 16 \<Longrightarrow> n < 16 \<Longrightarrow> hex_digit m = hex_digit n \<Longrightarrow> m = n"
  unfolding hex_digit_def by (drule arg_cong [where f = "of_char :: char \<Rightarrow> nat"]) (simp split: if_splits)

lemma hex_fixed_inj: "m < 16 ^ w \<Longrightarrow> n < 16 ^ w \<Longrightarrow> hex_fixed w m = hex_fixed w n \<Longrightarrow> m = n"
proof (induction w arbitrary: m n)
  case (Suc w)
  have "m div 16 = n div 16" using Suc by (intro Suc.IH) (simp_all add: div_less_iff_less_mult mult.commute)
  moreover have "m mod 16 = n mod 16" using Suc.prems by (intro hex_digit_inj) simp_all
  ultimately show ?case by (metis div_mult_mod_eq)
qed simp

end
