(* ===== verification/MeshState.thy ===== *)
theory MeshState
  imports Json Quorum RustText
begin

text \<open>
  Mesh state, \<^verbatim>\<open>vmond/src/mesh/state.rs\<close>: the placement snapshot a node gossips, its wire form, the durable
  membership with its quorum, and CPU baselines. Errors carry their stable code. Arguments
  stand for the JSON library: \<open>json_str\<close> prints a value, \<open>from_str\<close> parses a text.
\<close>

unbundle bit_operations_syntax

section \<open>Errors and scalars\<close>

definition KNOWN_MESH_CODES :: "string list" where
  "KNOWN_MESH_CODES = [''invalid'', ''unauthorized'', ''unreachable'', ''ambiguous'', ''conflict'', ''unplaceable'',
     ''arch_required'', ''record_unreplicated'', ''unsupported'']"

type_synonym 'a mesh_result = "string + 'a"

text \<open>The code of \<^verbatim>\<open>MeshError::new\<close>; a known message doubles as the code.\<close>

definition mesh_error_new :: "string \<Rightarrow> string option \<Rightarrow> string" where
  "mesh_error_new message code = (case code of
     Some c \<Rightarrow> c
   | None \<Rightarrow> if message \<in> set KNOWN_MESH_CODES then message else ''invalid'')"

fun value_u64 :: "json \<Rightarrow> nat option" where
  "value_u64 (JNumber n) = (case number_as_u64 n of
     Some v \<Rightarrow> Some v
   | None \<Rightarrow> (case number_as_i64 n of
       Some i \<Rightarrow> if 0 \<le> i then Some (nat i)
         else Option.bind (number_as_f64 n) (\<lambda>f. if f64_is_finite f \<and> f64_le (F_Fin 0) f then Some (f64_as_u64 f) else None)
     | None \<Rightarrow> Option.bind (number_as_f64 n) (\<lambda>f. if f64_is_finite f \<and> f64_le (F_Fin 0) f then Some (f64_as_u64 f) else None)))"
| "value_u64 (JString text) = parse_uint u64_max text"
| "value_u64 _ = None"

fun json_u128 :: "json \<Rightarrow> nat option" where
  "json_u128 (JNumber n) = (case number_as_u64 n of
     Some v \<Rightarrow> Some v
   | None \<Rightarrow> Option.bind (number_as_i64 n) (\<lambda>i. if 0 \<le> i then Some (nat i) else None))"
| "json_u128 (JString text) = parse_uint (2 ^ 128 - 1) text"
| "json_u128 _ = None"

text \<open>
  \<^verbatim>\<open>str::parse\<close> to a double: an optional sign, then inf, infinity or nan in any case, or digits with an
  optional fraction and exponent, correctly rounded.
\<close>

definition parse_exponent :: "string \<Rightarrow> int option" where
  "parse_exponent s = (case s of
     [] \<Rightarrow> Some 0
   | c # cs \<Rightarrow> if to_lower c \<noteq> CHR ''e'' then None
       else let (neg, ds) = (case cs of [] \<Rightarrow> (False, []) | d # ds \<Rightarrow>
              if d = CHR ''-'' then (True, ds) else if d = CHR ''+'' then (False, ds) else (False, cs))
            in if ds = [] \<or> \<not> list_all is_digit ds then None
               else Some (if neg then - int (digits_val ds) else int (digits_val ds)))"

definition parse_f64 :: "string \<Rightarrow> f64 option" where
  "parse_f64 text =
     (let (neg, body) = (case text of [] \<Rightarrow> (False, []) | c # cs \<Rightarrow>
            if c = CHR ''-'' then (True, cs) else if c = CHR ''+'' then (False, cs) else (False, text));
          low = map to_lower body
      in if low = ''inf'' \<or> low = ''infinity'' then Some (F_Inf neg)
         else if low = ''nan'' then Some F_NaN
         else let whole = takeWhile is_digit body; rest = dropWhile is_digit body;
                  (frac, rest') = (case rest of c # cs \<Rightarrow> if c = CHR ''.'' then (takeWhile is_digit cs, dropWhile is_digit cs)
                                     else ([], rest) | [] \<Rightarrow> ([], []))
              in if whole = [] \<and> frac = [] then None
                 else Option.bind (parse_exponent rest') (\<lambda>e.
                   let x = rat_of_nat (digits_val (whole @ frac)); k = e - int (length frac)
                   in Some (f64_round neg (if 0 \<le> k then x * 10 ^ nat k else x / 10 ^ nat (- k)))))"

fun value_f64 :: "json \<Rightarrow> f64 option" where
  "value_f64 (JNumber n) = number_as_f64 n"
| "value_f64 (JString text) = parse_f64 text"
| "value_f64 _ = None"

definition string_field :: "params \<Rightarrow> string \<Rightarrow> string" where
  "string_field obj key = (case Option.bind (obj key) as_str of None \<Rightarrow> [] | Some s \<Rightarrow> s)"

definition string_vec :: "(json \<Rightarrow> string) \<Rightarrow> json option \<Rightarrow> string list" where
  "string_vec json_str v = (case Option.bind v as_array of
     None \<Rightarrow> []
   | Some items \<Rightarrow> List.map_filter (\<lambda>item. case item of
       JString text \<Rightarrow> Some text | JNull \<Rightarrow> None | other \<Rightarrow> Some (json_str other)) items)"

definition string_map :: "(json \<Rightarrow> string) \<Rightarrow> json option \<Rightarrow> string \<Rightarrow> string option" where
  "string_map json_str v = (case Option.bind v as_object of
     None \<Rightarrow> (\<lambda>_. None)
   | Some items \<Rightarrow> (\<lambda>key. if key = [] then None else Option.bind (items key) (\<lambda>v. case v of
       JString text \<Rightarrow> if text \<noteq> [] then Some text else Some (json_str v)
     | JNull \<Rightarrow> None
     | other \<Rightarrow> Some (json_str other))))"

definition u64_map :: "json option \<Rightarrow> string \<Rightarrow> nat option" where
  "u64_map v = (case Option.bind v as_object of
     None \<Rightarrow> (\<lambda>_. None)
   | Some items \<Rightarrow> (\<lambda>key. Option.bind (items key) value_u64))"

section \<open>Node states\<close>

record node_caps =
  nc_vcpus :: nat
  nc_mem_mib :: nat

definition node_caps_default :: node_caps where
  "node_caps_default = \<lparr>nc_vcpus = 1, nc_mem_mib = 2048\<rparr>"

record node_state =
  ns_node_id :: string
  ns_advertise :: string
  ns_region :: string
  ns_caps :: node_caps
  ns_committed_vcpus :: nat
  ns_committed_mem_mib :: nat
  ns_inflight :: nat
  ns_templates :: "string list"
  ns_function_artifacts :: "string list"
  ns_pools :: "string \<Rightarrow> nat option"
  ns_owned :: "string list"
  ns_owned_epochs :: "string \<Rightarrow> nat option"
  ns_ts :: f64
  ns_last_seen :: f64
  ns_backend :: string
  ns_arch :: string
  ns_cpu_baseline :: string
  ns_template_index :: "string \<Rightarrow> string option"

definition node_state_new :: "string \<Rightarrow> string \<Rightarrow> node_state" where
  "node_state_new node_id advertise = \<lparr>ns_node_id = node_id, ns_advertise = advertise, ns_region = [],
     ns_caps = node_caps_default, ns_committed_vcpus = 0, ns_committed_mem_mib = 0, ns_inflight = 0, ns_templates = [],
     ns_function_artifacts = [], ns_pools = (\<lambda>_. None), ns_owned = [], ns_owned_epochs = (\<lambda>_. None), ns_ts = F_Fin 0,
     ns_last_seen = F_Fin 0, ns_backend = [], ns_arch = [], ns_cpu_baseline = [], ns_template_index = (\<lambda>_. None)\<rparr>"

definition free_vcpus :: "node_state \<Rightarrow> nat" where
  "free_vcpus n = nc_vcpus (ns_caps n) - ns_committed_vcpus n"

definition free_mem_mib :: "node_state \<Rightarrow> nat" where
  "free_mem_mib n = nc_mem_mib (ns_caps n) - ns_committed_mem_mib n"

definition healthy :: "f64 \<Rightarrow> f64 \<Rightarrow> node_state \<Rightarrow> bool" where
  "healthy now interval n \<longleftrightarrow> f64_lt (F_Fin 0) (ns_last_seen n) \<and>
     f64_lt (f64_sub now (ns_last_seen n)) (f64_mul (F_Fin 3) interval)"

text \<open>\<^verbatim>\<open>json!\<close> of the field types: a double that is not finite becomes null.\<close>

definition json_nat :: "nat \<Rightarrow> json" where "json_nat n = JNumber (PosInt n)"
definition json_double :: "f64 \<Rightarrow> json" where
  "json_double f = (case number_of_f64 f of None \<Rightarrow> JNull | Some n \<Rightarrow> JNumber n)"
definition json_strings :: "string list \<Rightarrow> json" where "json_strings xs = JArray (map JString xs)"
definition json_nat_map :: "(string \<Rightarrow> nat option) \<Rightarrow> json" where
  "json_nat_map m = JObject (\<lambda>k. map_option json_nat (m k))"
definition json_string_map :: "(string \<Rightarrow> string option) \<Rightarrow> json" where
  "json_string_map m = JObject (\<lambda>k. map_option JString (m k))"

definition node_wire_fields :: "node_state \<Rightarrow> params" where
  "node_wire_fields n = [
     ''node_id'' \<mapsto> JString (ns_node_id n), ''advertise'' \<mapsto> JString (ns_advertise n), ''region'' \<mapsto> JString (ns_region n),
     ''backend'' \<mapsto> JString (ns_backend n), ''arch'' \<mapsto> JString (ns_arch n), ''cpu_baseline'' \<mapsto> JString (ns_cpu_baseline n),
     ''vcpus'' \<mapsto> json_nat (nc_vcpus (ns_caps n)), ''mem_mib'' \<mapsto> json_nat (nc_mem_mib (ns_caps n)),
     ''committed_vcpus'' \<mapsto> json_nat (ns_committed_vcpus n), ''committed_mem_mib'' \<mapsto> json_nat (ns_committed_mem_mib n),
     ''inflight'' \<mapsto> json_nat (ns_inflight n), ''templates'' \<mapsto> json_strings (ns_templates n),
     ''function_artifacts'' \<mapsto> json_strings (ns_function_artifacts n),
     ''template_index'' \<mapsto> json_string_map (ns_template_index n), ''pools'' \<mapsto> json_nat_map (ns_pools n),
     ''owned'' \<mapsto> json_strings (ns_owned n), ''owned_epochs'' \<mapsto> json_nat_map (ns_owned_epochs n),
     ''ts'' \<mapsto> json_double (ns_ts n), ''last_seen'' \<mapsto> json_double (ns_last_seen n),
     ''free_vcpus'' \<mapsto> json_nat (free_vcpus n), ''free_mem_mib'' \<mapsto> json_nat (free_mem_mib n)]"

definition node_to_wire :: "node_state \<Rightarrow> json" where
  "node_to_wire n = JObject (node_wire_fields n)"

definition nat_or :: "nat option \<Rightarrow> nat \<Rightarrow> nat" where "nat_or v d = (case v of None \<Rightarrow> d | Some n \<Rightarrow> n)"
definition f64_or :: "f64 option \<Rightarrow> f64 \<Rightarrow> f64" where "f64_or v d = (case v of None \<Rightarrow> d | Some f \<Rightarrow> f)"

text \<open>A capacity field: at the top level, else under \<open>caps\<close>, else the default.\<close>

definition cap_field :: "params \<Rightarrow> string \<Rightarrow> nat \<Rightarrow> nat" where
  "cap_field obj key d = (case Option.bind (obj key) value_u64 of
     Some n \<Rightarrow> n
   | None \<Rightarrow> nat_or (Option.bind (Option.bind (Option.bind (obj ''caps'') as_object) (\<lambda>caps. caps key)) value_u64) d)"

definition node_from_wire :: "(json \<Rightarrow> string) \<Rightarrow> json \<Rightarrow> node_state mesh_result" where
  "node_from_wire json_str data = (case as_object data of
     None \<Rightarrow> Inl ''invalid''
   | Some obj \<Rightarrow> Inr \<lparr>
       ns_node_id = string_field obj ''node_id'', ns_advertise = string_field obj ''advertise'',
       ns_region = string_field obj ''region'',
       ns_caps = \<lparr>nc_vcpus = cap_field obj ''vcpus'' 1, nc_mem_mib = cap_field obj ''mem_mib'' 2048\<rparr>,
       ns_committed_vcpus = nat_or (Option.bind (obj ''committed_vcpus'') value_u64) 0,
       ns_committed_mem_mib = nat_or (Option.bind (obj ''committed_mem_mib'') value_u64) 0,
       ns_inflight = nat_or (Option.bind (obj ''inflight'') value_u64) 0,
       ns_templates = string_vec json_str (obj ''templates''),
       ns_function_artifacts = string_vec json_str (obj ''function_artifacts''),
       ns_pools = u64_map (obj ''pools''), ns_owned = string_vec json_str (obj ''owned''),
       ns_owned_epochs = u64_map (obj ''owned_epochs''),
       ns_ts = f64_or (Option.bind (obj ''ts'') value_f64) (F_Fin 0),
       ns_last_seen = f64_or (Option.bind (obj ''last_seen'') value_f64) (F_Fin 0),
       ns_backend = string_field obj ''backend'', ns_arch = string_field obj ''arch'',
       ns_cpu_baseline = string_field obj ''cpu_baseline'',
       ns_template_index = string_map json_str (obj ''template_index'')\<rparr>)"

section \<open>Membership\<close>

record membership =
  ms_enabled :: bool
  ms_node_id :: string
  ms_advertise :: string
  ms_region :: string
  ms_caps :: node_caps
  ms_peers :: "string \<Rightarrow> node_state option"
  ms_expected_members :: nat

definition membership_enabled :: "string \<Rightarrow> string \<Rightarrow> string \<Rightarrow> node_caps \<Rightarrow> membership" where
  "membership_enabled node_id advertise region caps = \<lparr>ms_enabled = True, ms_node_id = node_id, ms_advertise = advertise,
     ms_region = region, ms_caps = caps, ms_peers = (\<lambda>_. None), ms_expected_members = 1\<rparr>"

definition quorum_needed :: "membership \<Rightarrow> nat" where
  "quorum_needed m = ms_expected_members m div 2 + 1"

definition restore_quorum_met :: "nat \<Rightarrow> membership \<Rightarrow> bool" where
  "restore_quorum_met confirmations m \<longleftrightarrow> confirmations \<ge> quorum_needed m"

definition bump_expected :: "membership \<Rightarrow> membership \<times> bool" where
  "bump_expected m =
     (let n = max (ms_expected_members m) (1 + card (dom (ms_peers m)))
      in (m\<lparr>ms_expected_members := n\<rparr>, n \<noteq> ms_expected_members m))"

definition depart :: "string \<Rightarrow> membership \<Rightarrow> membership \<times> bool" where
  "depart node_id m = (m\<lparr>ms_peers := (ms_peers m)(node_id := None),
     ms_expected_members := max (ms_expected_members m - 1) 1\<rparr>, ms_peers m node_id \<noteq> None)"

definition peer_values :: "membership \<Rightarrow> node_state list" where
  "peer_values m = map (\<lambda>k. the (ms_peers m k)) (sorted_list_of_set (dom (ms_peers m)))"

definition live_member_ids :: "f64 \<Rightarrow> f64 \<Rightarrow> membership \<Rightarrow> string list" where
  "live_member_ids now interval m = ms_node_id m # map ns_node_id (filter (healthy now interval) (peer_values m))"

definition is_member_healthy :: "string \<Rightarrow> f64 \<Rightarrow> f64 \<Rightarrow> membership \<Rightarrow> bool" where
  "is_member_healthy node_id now interval m \<longleftrightarrow> node_id = ms_node_id m \<or>
     (case ms_peers m node_id of None \<Rightarrow> False | Some peer \<Rightarrow> healthy now interval peer)"

fun load_peers :: "(json \<Rightarrow> string) \<Rightarrow> f64 \<Rightarrow> string \<Rightarrow> json list \<Rightarrow> (string \<Rightarrow> node_state option) \<Rightarrow>
    (string \<Rightarrow> node_state option) mesh_result" where
  "load_peers json_str now self [] peers = Inr peers"
| "load_peers json_str now self (item # items) peers = rbind (node_from_wire json_str item) (\<lambda>node.
     load_peers json_str now self items
       (if ns_node_id node \<noteq> [] \<and> ns_node_id node \<noteq> self
        then peers(ns_node_id node \<mapsto> (if f64_le (ns_last_seen node) (F_Fin 0) then node\<lparr>ns_last_seen := now\<rparr> else node))
        else peers))"

text \<open>\<open>file\<close> is the value of the file, \<open>None\<close> when it is absent, unreadable or not JSON.\<close>

definition membership_load ::
  "(json \<Rightarrow> string) \<Rightarrow> json option \<Rightarrow> node_caps \<Rightarrow> f64 \<Rightarrow> membership option mesh_result" where
  "membership_load json_str file fallback_caps now = (case Option.bind file as_object of
     None \<Rightarrow> Inr None
   | Some obj \<Rightarrow>
       let node_id = string_field obj ''node_id'' in
       if node_id = [] \<or> Option.bind (obj ''enabled'') as_bool \<noteq> Some True then Inr None
       else rbind (load_peers json_str now node_id
                     (case Option.bind (obj ''peers'') as_array of None \<Rightarrow> [] | Some xs \<Rightarrow> xs) (\<lambda>_. None)) (\<lambda>peers.
         Inr (Some \<lparr>ms_enabled = True, ms_node_id = node_id, ms_advertise = string_field obj ''advertise'',
           ms_region = string_field obj ''region'',
           ms_caps = \<lparr>nc_vcpus = nat_or (Option.bind (obj ''vcpus'') value_u64) (nc_vcpus fallback_caps),
                      nc_mem_mib = nat_or (Option.bind (obj ''mem_mib'') value_u64) (nc_mem_mib fallback_caps)\<rparr>,
           ms_peers = peers,
           ms_expected_members = max (nat_or (Option.bind (obj ''expected_members'') value_u64) 1) 1\<rparr>)))"

definition membership_fields :: "membership \<Rightarrow> params" where
  "membership_fields m = [
     ''enabled'' \<mapsto> JBool True, ''node_id'' \<mapsto> JString (ms_node_id m), ''advertise'' \<mapsto> JString (ms_advertise m),
     ''region'' \<mapsto> JString (ms_region m), ''vcpus'' \<mapsto> json_nat (nc_vcpus (ms_caps m)),
     ''mem_mib'' \<mapsto> json_nat (nc_mem_mib (ms_caps m)), ''peers'' \<mapsto> JArray (map node_to_wire (peer_values m)),
     ''expected_members'' \<mapsto> json_nat (ms_expected_members m)]"

text \<open>\<open>io\<close> is whether removing the file, or creating the directory, writing and renaming succeed.\<close>

definition membership_save :: "bool \<Rightarrow> membership \<Rightarrow> json option \<Rightarrow> json option \<times> unit mesh_result" where
  "membership_save io m file =
     (if \<not> ms_enabled m then (if file = None then (None, Inr ()) else if io then (None, Inr ()) else (file, Inl ''invalid''))
      else if io then (Some (JObject (membership_fields m)), Inr ()) else (file, Inl ''invalid''))"

section \<open>CPU baselines\<close>

definition starts_with :: "string \<Rightarrow> string \<Rightarrow> bool" where
  "starts_with pre s \<longleftrightarrow> take (length pre) s = pre"

definition baseline_field_covers :: "params \<Rightarrow> params \<Rightarrow> string \<Rightarrow> bool" where
  "baseline_field_covers have_obj need_obj key = (case (need_obj key, have_obj key) of
     (Some need_value, Some have_value) \<Rightarrow>
       if key = ''v'' then have_value = need_value
       else (case (json_u128 have_value, json_u128 need_value) of
           (Some have_int, Some need_int) \<Rightarrow> have_int AND need_int = need_int
         | _ \<Rightarrow> False)
   | _ \<Rightarrow> False)"

definition cpu_baseline_covers :: "(string \<Rightarrow> json option) \<Rightarrow> string \<Rightarrow> string \<Rightarrow> bool" where
  "cpu_baseline_covers from_str have_s need =
     (if need = [] then True
      else if starts_with ''unknown:'' need then False
      else if starts_with ''arch:'' need then \<not> starts_with ''arch:'' have_s \<or> have_s = need
      else if have_s = [] \<or> starts_with ''arch:'' have_s \<or> starts_with ''unknown:'' have_s then False
      else case from_str have_s of None \<Rightarrow> have_s = need
       | Some hv \<Rightarrow> (case from_str need of None \<Rightarrow> have_s = need
         | Some nv \<Rightarrow> (case (as_object hv, as_object nv) of
             (Some have_obj, Some need_obj) \<Rightarrow>
               list_all (baseline_field_covers have_obj need_obj) (sorted_list_of_set (dom need_obj))
           | _ \<Rightarrow> False)))"

end
