(* ===== verification/Membership.thy ===== *)
theory Membership
  imports MeshState
begin

text \<open>
  The membership operations of the running mesh, \<^verbatim>\<open>vmond/src/mesh/runtime.rs\<close> (\<^verbatim>\<open>merge_node_state\<close>,
  \<^verbatim>\<open>join\<close>, \<^verbatim>\<open>leave\<close>, \<^verbatim>\<open>depart\<close>, \<^verbatim>\<open>mark_unhealthy\<close>, \<^verbatim>\<open>reap_stale_peers\<close>), on the membership, its file, and the
  queue of sandboxes that lost their owner. The properties are the round trips of both wire forms, the
  high-water rule for the expected size, and the quorums that rest on it.
\<close>

section \<open>Operations\<close>

record mesh_rt =
  rt_node_id :: string
  rt_token :: string
  rt_default_advertise :: string
  rt_membership :: membership
  rt_file :: "json option"
  rt_owners :: "string \<Rightarrow> (string \<times> nat) option"
  rt_orphans :: "(string \<times> string) list"

definition save_membership :: "bool \<Rightarrow> mesh_rt \<Rightarrow> mesh_rt \<times> unit mesh_result" where
  "save_membership io rt = (case membership_save io (rt_membership rt) (rt_file rt) of
     (file, res) \<Rightarrow> (rt\<lparr>rt_file := file\<rparr>, res))"

definition retain_peers :: "(string \<Rightarrow> node_state \<Rightarrow> bool) \<Rightarrow> (string \<Rightarrow> node_state option) \<Rightarrow> string \<Rightarrow> node_state option" where
  "retain_peers keep peers = (\<lambda>k. case peers k of None \<Rightarrow> None | Some p \<Rightarrow> if keep k p then Some p else None)"

definition merge_node_state :: "(json \<Rightarrow> string) \<Rightarrow> f64 \<Rightarrow> bool \<Rightarrow> json \<Rightarrow> mesh_rt \<Rightarrow> mesh_rt \<times> unit mesh_result" where
  "merge_node_state json_str now io v rt = (case node_from_wire json_str v of
     Inl e \<Rightarrow> (rt, Inl e)
   | Inr node \<Rightarrow>
       let m = rt_membership rt in
       if ns_node_id node = [] \<or> starts_with ''seed-'' (ns_node_id node) then (rt, Inr ())
       else if ns_node_id node = ms_node_id m then (rt, Inr ())
       else let node = (if f64_le (ns_last_seen node) (F_Fin 0) then node\<lparr>ns_last_seen := now\<rparr> else node);
                peers = retain_peers (\<lambda>peer_id peer. \<not> (starts_with ''seed-'' peer_id \<and>
                          ns_advertise peer = ns_advertise node \<and> peer_id \<noteq> ns_node_id node)) (ms_peers m);
                m' = fst (bump_expected (m\<lparr>ms_peers := peers(ns_node_id node \<mapsto> node)\<rparr>))
            in save_membership io (rt\<lparr>rt_membership := m'\<rparr>))"

text \<open>\<open>decode\<close> reads the join blob (base64 and JSON); \<open>fresh\<close> is the random part of the placeholder's id.\<close>

definition mesh_join :: "(string \<Rightarrow> (string \<times> string) mesh_result) \<Rightarrow> string \<Rightarrow> f64 \<Rightarrow> bool \<Rightarrow>
    string \<Rightarrow> string option \<Rightarrow> string \<Rightarrow> mesh_rt \<Rightarrow> mesh_rt \<times> (string \<times> string \<times> string list) mesh_result" where
  "mesh_join decode fresh now io blob advertise region rt = (case decode blob of
     Inl e \<Rightarrow> (rt, Inl e)
   | Inr (peer_url, token) \<Rightarrow>
       let rt1 = (if rt_token rt = [] \<and> token \<noteq> [] then rt\<lparr>rt_token := token\<rparr> else rt);
           m = membership_enabled (rt_node_id rt1) (case advertise of None \<Rightarrow> rt_default_advertise rt1 | Some a \<Rightarrow> a) region
                 (ms_caps (rt_membership rt1));
           peer = (node_state_new ''seed'' peer_url)\<lparr>ns_node_id := ''seed-'' @ fresh, ns_last_seen := now\<rparr>;
           m' = fst (bump_expected (m\<lparr>ms_peers := (ms_peers m)(ns_node_id peer \<mapsto> peer)\<rparr>))
       in (case membership_save io m' (rt_file rt1) of
             (file, Inl e) \<Rightarrow> (rt1\<lparr>rt_file := file\<rparr>, Inl e)
           | (file, Inr _) \<Rightarrow> (rt1\<lparr>rt_file := file, rt_membership := m'\<rparr>, Inr (ms_node_id m', ms_advertise m', [peer_url]))))"

definition mesh_leave :: "bool \<Rightarrow> mesh_rt \<Rightarrow> mesh_rt \<times> unit mesh_result" where
  "mesh_leave io rt = save_membership io (rt\<lparr>rt_membership := (rt_membership rt)\<lparr>ms_enabled := False,
     ms_peers := (\<lambda>_. None), ms_expected_members := 1\<rparr>\<rparr>)"

text \<open>
  \<^verbatim>\<open>record_orphan_for_dead_owner\<close>: \<open>store\<close> is the cluster store's \<^verbatim>\<open>owned_by\<close> query when one is configured, \<^const>\<open>None\<close> inside
  meaning that the query failed; without a store the owner map answers, in key order.
\<close>

fun push_orphans :: "string \<Rightarrow> string list \<Rightarrow> (string \<times> string) list \<Rightarrow> (string \<times> string) list" where
  "push_orphans dead [] orphans = orphans"
| "push_orphans dead (sid # sids) orphans =
     push_orphans dead sids (if (sid, dead) \<in> set orphans then orphans else orphans @ [(sid, dead)])"

definition record_orphan_for_dead_owner :: "(string \<Rightarrow> string list option) option \<Rightarrow> string \<Rightarrow> mesh_rt \<Rightarrow> mesh_rt" where
  "record_orphan_for_dead_owner store dead rt =
     (let owned = (case store of
          Some owned_by \<Rightarrow> owned_by dead
        | None \<Rightarrow> Some (filter (\<lambda>sid. map_option fst (rt_owners rt sid) = Some dead) (sorted_list_of_set (dom (rt_owners rt)))))
      in case owned of None \<Rightarrow> rt | Some sids \<Rightarrow> rt\<lparr>rt_orphans := push_orphans dead sids (rt_orphans rt)\<rparr>)"

definition mesh_depart :: "(string \<Rightarrow> string list option) option \<Rightarrow> bool \<Rightarrow> string \<Rightarrow> mesh_rt \<Rightarrow> mesh_rt" where
  "mesh_depart store io node_id rt = (case depart node_id (rt_membership rt) of
     (m, removed) \<Rightarrow> let rt' = rt\<lparr>rt_membership := m\<rparr> in
       if removed then record_orphan_for_dead_owner store node_id (fst (save_membership io rt')) else rt')"

definition mark_unhealthy :: "(string \<Rightarrow> string list option) option \<Rightarrow> string \<Rightarrow> mesh_rt \<Rightarrow> mesh_rt" where
  "mark_unhealthy store node_id rt =
     (let m = rt_membership rt;
          peers = (case ms_peers m node_id of None \<Rightarrow> ms_peers m | Some peer \<Rightarrow> (ms_peers m)(node_id \<mapsto> peer\<lparr>ns_last_seen := F_Fin 0\<rparr>))
      in record_orphan_for_dead_owner store node_id (rt\<lparr>rt_membership := m\<lparr>ms_peers := peers\<rparr>\<rparr>))"

definition reap_stale_peers :: "(string \<Rightarrow> string list option) option \<Rightarrow> f64 \<Rightarrow> f64 \<Rightarrow> bool \<Rightarrow> mesh_rt \<Rightarrow> mesh_rt" where
  "reap_stale_peers store now reap_sec io rt =
     (let m = rt_membership rt;
          keep = (\<lambda>_ peer. f64_le (ns_last_seen peer) (F_Fin 0) \<or> f64_le (f64_sub now (ns_last_seen peer)) reap_sec);
          peers = retain_peers keep (ms_peers m);
          dead = sorted_list_of_set (dom (ms_peers m) - dom peers);
          rt' = rt\<lparr>rt_membership := m\<lparr>ms_peers := peers\<rparr>\<rparr>;
          rt'' = (if dead \<noteq> [] then fst (save_membership io rt') else rt')
      in fold (record_orphan_for_dead_owner store) dead rt'')"

lemma record_orphan_keeps [simp]: "rt_membership (record_orphan_for_dead_owner store dead rt) = rt_membership rt"
  by (simp add: record_orphan_for_dead_owner_def Let_def split: option.split)

lemma fold_record_orphan_keeps [simp]:
  "rt_membership (fold (record_orphan_for_dead_owner store) ids rt) = rt_membership rt"
  by (induction ids arbitrary: rt) simp_all

section \<open>Round trips\<close>

definition node_ok :: "node_state \<Rightarrow> bool" where
  "node_ok n \<longleftrightarrow> f64_is_finite (ns_ts n) \<and> f64_is_finite (ns_last_seen n) \<and>
     ns_template_index n [] = None \<and> (\<forall>k. ns_template_index n k \<noteq> Some [])"

lemma string_vec_strings: "string_vec json_str (Some (json_strings xs)) = xs"
  by (induction xs) (auto simp: string_vec_def json_strings_def map_filter_def)

lemma u64_map_json: "u64_map (Some (json_nat_map m)) = m"
  by (rule ext) (auto simp: u64_map_def json_nat_map_def json_nat_def map_option_case split: option.split)

lemma string_map_json:
  assumes "m [] = None" "\<forall>k. m k \<noteq> Some []"
  shows "string_map json_str (Some (json_string_map m)) = m"
proof
  fix k
  show "string_map json_str (Some (json_string_map m)) k = m k"
    using assms by (cases "m k") (auto simp: string_map_def json_string_map_def)
qed

lemma value_f64_json: "f64_is_finite f \<Longrightarrow> value_f64 (json_double f) = Some f"
  by (simp add: json_double_def number_of_f64_def)

lemma value_u64_json [simp]: "value_u64 (json_nat n) = Some n"
  by (simp add: json_nat_def)

lemma node_from_to_wire:
  assumes "node_ok n"
  shows "node_from_wire json_str (node_to_wire n) = Inr n"
proof -
  have f: "value_f64 (json_double (ns_ts n)) = Some (ns_ts n)" "value_f64 (json_double (ns_last_seen n)) = Some (ns_last_seen n)"
    using assms by (auto simp: node_ok_def value_f64_json)
  have t: "string_map json_str (Some (json_string_map (ns_template_index n))) = ns_template_index n"
    using assms by (intro string_map_json) (auto simp: node_ok_def)
  show ?thesis
    by (simp add: node_from_wire_def node_to_wire_def node_wire_fields_def string_field_def cap_field_def nat_or_def f64_or_def
        string_vec_strings u64_map_json f t)
qed

definition membership_ok :: "membership \<Rightarrow> bool" where
  "membership_ok m \<longleftrightarrow> ms_enabled m \<and> ms_node_id m \<noteq> [] \<and> finite (dom (ms_peers m)) \<and> 1 \<le> ms_expected_members m \<and>
     (\<forall>k p. ms_peers m k = Some p \<longrightarrow> ns_node_id p = k \<and> k \<noteq> [] \<and> k \<noteq> ms_node_id m \<and> node_ok p \<and>
        f64_lt (F_Fin 0) (ns_last_seen p))"

lemma lt_not_le: "f64_lt a b \<Longrightarrow> \<not> f64_le b a"
  by (cases a; cases b) (auto simp: f64_le_def)

lemma load_peers_saved:
  assumes "\<forall>p\<in>set ps. ns_node_id p \<noteq> [] \<and> ns_node_id p \<noteq> self \<and> node_ok p \<and> f64_lt (F_Fin 0) (ns_last_seen p)"
  shows "load_peers json_str now self (map node_to_wire ps) peers = Inr (fold (\<lambda>p m. m(ns_node_id p \<mapsto> p)) ps peers)"
  using assms by (induction ps arbitrary: peers) (auto simp: node_from_to_wire lt_not_le)

lemma fold_map_of:
  assumes "\<forall>p\<in>set ps. M (ns_node_id p) = Some p"
  shows "fold (\<lambda>p m. m(ns_node_id p \<mapsto> p)) ps peers k = (if k \<in> ns_node_id ` set ps then M k else peers k)"
  using assms by (induction ps arbitrary: peers) auto

lemma peer_values_set:
  assumes "membership_ok m"
  shows "set (peer_values m) = ran (ms_peers m)" "ns_node_id ` set (peer_values m) = dom (ms_peers m)"
    "\<forall>p\<in>set (peer_values m). ms_peers m (ns_node_id p) = Some p"
proof -
  have fin: "finite (dom (ms_peers m))" using assms by (simp add: membership_ok_def)
  have own: "ms_peers m k = Some p \<Longrightarrow> ns_node_id p = k" for k p using assms by (simp add: membership_ok_def)
  show "set (peer_values m) = ran (ms_peers m)"
    using fin by (auto simp: peer_values_def ran_def dom_def image_iff) (metis option.sel)
  then show "\<forall>p\<in>set (peer_values m). ms_peers m (ns_node_id p) = Some p"
    using own by (auto simp: ran_def)
  then show "ns_node_id ` set (peer_values m) = dom (ms_peers m)"
    using own \<open>set (peer_values m) = ran (ms_peers m)\<close> by (force simp: ran_def dom_def image_iff)
qed

lemma membership_load_saved:
  assumes "membership_ok m"
  shows "membership_load json_str (Some (JObject (membership_fields m))) caps now = Inr (Some m)"
proof -
  have ps: "\<forall>p\<in>set (peer_values m). ns_node_id p \<noteq> [] \<and> ns_node_id p \<noteq> ms_node_id m \<and> node_ok p \<and> f64_lt (F_Fin 0) (ns_last_seen p)"
    using assms peer_values_set(3) [OF assms] unfolding membership_ok_def by blast
  have "fold (\<lambda>p m. m(ns_node_id p \<mapsto> p)) (peer_values m) (\<lambda>_. None) = ms_peers m"
    using peer_values_set(2,3) [OF assms] by (auto simp: fun_eq_iff fold_map_of [of _ "ms_peers m"])
  then have "load_peers json_str now (ms_node_id m) (map node_to_wire (peer_values m)) (\<lambda>_. None) = Inr (ms_peers m)"
    using load_peers_saved [OF ps, of json_str now "\<lambda>_. None"] by simp
  then show ?thesis
    using assms by (simp add: membership_load_def membership_fields_def string_field_def nat_or_def membership_ok_def Let_def)
qed

section \<open>The expected size\<close>

definition covered :: "membership \<Rightarrow> bool" where
  "covered m \<longleftrightarrow> finite (dom (ms_peers m)) \<and> 1 + card (dom (ms_peers m)) \<le> ms_expected_members m"

lemma covered_bump: "finite (dom (ms_peers m)) \<Longrightarrow> covered (fst (bump_expected m))"
  by (simp add: covered_def bump_expected_def Let_def)

lemma retain_dom: "dom (retain_peers keep peers) \<subseteq> dom peers"
  by (auto simp: retain_peers_def split: option.splits if_splits)

lemma save_membership_keeps [simp]: "rt_membership (fst (save_membership io rt)) = rt_membership rt"
  by (simp add: save_membership_def split: prod.split)

lemma covered_merge:
  assumes "covered (rt_membership rt)"
  shows "covered (rt_membership (fst (merge_node_state json_str now io v rt)))"
proof -
  have "finite (dom (retain_peers keep (ms_peers (rt_membership rt))))" for keep
    using assms retain_dom finite_subset by (fastforce simp: covered_def)
  then show ?thesis
    using assms by (auto simp: merge_node_state_def Let_def split: sum.split intro!: covered_bump)
qed

lemma covered_join:
  assumes "covered (rt_membership rt)"
  shows "covered (rt_membership (fst (mesh_join decode fresh now io blob adv region rt)))"
proof -
  have "covered (fst (bump_expected (membership_enabled a b c d\<lparr>ms_peers := [k \<mapsto> p]\<rparr>)))" for a b c d k p
    by (rule covered_bump) simp
  then show ?thesis
    using assms by (auto simp: mesh_join_def Let_def membership_enabled_def split: sum.split prod.split)
qed

lemma covered_leave: "covered (rt_membership (fst (mesh_leave io rt)))"
  by (simp add: mesh_leave_def covered_def)

lemma covered_reap:
  assumes "covered (rt_membership rt)"
  shows "covered (rt_membership (reap_stale_peers store now sec io rt))"
proof -
  let ?p = "ms_peers (rt_membership rt)"
  define q where "q = retain_peers (\<lambda>_ peer. f64_le (ns_last_seen peer) (F_Fin 0) \<or>
    f64_le (f64_sub now (ns_last_seen peer)) sec) ?p"
  have "dom q \<subseteq> dom ?p" unfolding q_def by (rule retain_dom)
  moreover have fin: "finite (dom ?p)" using assms by (simp add: covered_def)
  ultimately have "finite (dom q)" "card (dom q) \<le> card (dom ?p)"
    using finite_subset card_mono by blast+
  moreover have "rt_membership (reap_stale_peers store now sec io rt) = (rt_membership rt)\<lparr>ms_peers := q\<rparr>"
    by (simp add: reap_stale_peers_def Let_def q_def)
  ultimately show ?thesis
    using assms by (simp add: covered_def)
qed

lemma covered_depart:
  assumes "covered (rt_membership rt)" "ms_peers (rt_membership rt) node_id \<noteq> None"
  shows "covered (rt_membership (mesh_depart store io node_id rt))"
proof -
  let ?p = "ms_peers (rt_membership rt)"
  have "dom (?p(node_id := None)) = dom ?p - {node_id}" by auto
  moreover have "card (dom ?p - {node_id}) = card (dom ?p) - 1" "0 < card (dom ?p)"
    using assms by (auto simp: covered_def card_Diff_singleton domI card_gt_0_iff)
  ultimately show ?thesis
    using assms by (auto simp: mesh_depart_def depart_def covered_def Let_def)
qed

lemma covered_unhealthy:
  assumes "covered (rt_membership rt)"
  shows "covered (rt_membership (mark_unhealthy store node_id rt))"
proof (cases "ms_peers (rt_membership rt) node_id")
  case (Some p)
  then have "insert node_id (dom (ms_peers (rt_membership rt))) = dom (ms_peers (rt_membership rt))" by auto
  then show ?thesis using assms Some by (simp add: mark_unhealthy_def covered_def Let_def)
qed (use assms in \<open>simp add: mark_unhealthy_def covered_def Let_def\<close>)

datatype mesh_event =
    EvMerge "json \<Rightarrow> string" f64 bool json
  | EvJoin "string \<Rightarrow> (string \<times> string) mesh_result" string f64 bool string "string option" string
  | EvLeave bool
  | EvDepart "(string \<Rightarrow> string list option) option" bool string
  | EvReap "(string \<Rightarrow> string list option) option" f64 f64 bool
  | EvUnhealthy "(string \<Rightarrow> string list option) option" string

fun mesh_event_step :: "mesh_event \<Rightarrow> mesh_rt \<Rightarrow> mesh_rt" where
  "mesh_event_step (EvMerge js now io v) rt = fst (merge_node_state js now io v rt)"
| "mesh_event_step (EvJoin d fr now io b adv reg) rt = fst (mesh_join d fr now io b adv reg rt)"
| "mesh_event_step (EvLeave io) rt = fst (mesh_leave io rt)"
| "mesh_event_step (EvDepart store io i) rt = mesh_depart store io i rt"
| "mesh_event_step (EvReap store now sec io) rt = reap_stale_peers store now sec io rt"
| "mesh_event_step (EvUnhealthy store i) rt = mark_unhealthy store i rt"

text \<open>Departures announced by peers that are still listed when the announcement arrives.\<close>

fun known_departs :: "mesh_event list \<Rightarrow> mesh_rt \<Rightarrow> bool" where
  "known_departs [] rt = True"
| "known_departs (e # es) rt = ((case e of EvDepart _ _ i \<Rightarrow> ms_peers (rt_membership rt) i \<noteq> None | _ \<Rightarrow> True) \<and>
     known_departs es (mesh_event_step e rt))"

lemma covered_step:
  "covered (rt_membership rt) \<Longrightarrow> (case e of EvDepart _ _ i \<Rightarrow> ms_peers (rt_membership rt) i \<noteq> None | _ \<Rightarrow> True) \<Longrightarrow>
   covered (rt_membership (mesh_event_step e rt))"
  by (cases e) (simp_all add: covered_merge covered_join covered_leave covered_reap covered_depart covered_unhealthy)

lemma covered_run:
  "covered (rt_membership rt) \<Longrightarrow> known_departs es rt \<Longrightarrow> covered (rt_membership (fold mesh_event_step es rt))"
  by (induction es arbitrary: rt) (simp_all add: covered_step)

section \<open>Properties\<close>

definition quorum_size :: "nat \<Rightarrow> nat" where
  "quorum_size n = quorum_needed (membership_enabled [] [] [] node_caps_default\<lparr>ms_expected_members := n\<rparr>)"

interpretation membership_quorum: quorum_rule quorum_size
  by unfold_locales (auto simp: quorum_size_def quorum_needed_def)

definition sample_peer :: "string \<Rightarrow> node_state" where
  "sample_peer i = (node_state_new i (''http://'' @ i))\<lparr>ns_last_seen := F_Fin 5, ns_template_index := [''k'' \<mapsto> ''t'']\<rparr>"

definition sample_rt :: mesh_rt where
  "sample_rt = \<lparr>rt_node_id = ''a'', rt_token = [], rt_default_advertise = ''u'',
     rt_membership = membership_enabled ''a'' ''u'' [] node_caps_default, rt_file = None, rt_owners = (\<lambda>_. None), rt_orphans = []\<rparr>"

lemma sample_rt_covered: "covered (rt_membership sample_rt)"
  by (simp add: covered_def sample_rt_def membership_enabled_def)

text \<open>
  Quorums of the membership meet. When the members are at most the expected number, two sets of
  members that each satisfy the restore quorum have a member in common.
\<close>

theorem restore_quorums_meet:
  assumes "finite M" "card M \<le> ms_expected_members m" "0 < ms_expected_members m" "A \<subseteq> M" "B \<subseteq> M"
    "restore_quorum_met (card A) m" "restore_quorum_met (card B) m"
  shows "A \<inter> B \<noteq> {}"
  using membership_quorum.quorums_meet [OF assms(1-5)] assms(6,7)
  by (simp add: quorum_size_def restore_quorum_met_def quorum_needed_def)

theorem restore_quorums_meet_witness:
  "restore_quorum_met 2 (membership_enabled ''a'' ''u'' [] node_caps_default\<lparr>ms_expected_members := 3\<rparr>) \<and> {0 :: nat, 1} \<inter> {1, 2} \<noteq> {}"
  using restore_quorums_meet [of "{0 :: nat, 1, 2}" "membership_enabled ''a'' ''u'' [] node_caps_default\<lparr>ms_expected_members := 3\<rparr>" "{0, 1}" "{1, 2}"]
  by (simp add: restore_quorum_met_def quorum_needed_def)

text \<open>
  C16: The quorum is a strict majority of the members a node knows. Through any sequence of gossip
  merges, joins, leaves, failed requests, reaping of silent peers and departures of listed peers, the expected
  size covers the node and its peers, so the quorum exceeds half of them.
\<close>

theorem quorum_covers_known_members:
  assumes "covered (rt_membership rt)" "known_departs es rt"
  shows "1 + card (dom (ms_peers (rt_membership (fold mesh_event_step es rt)))) \<le>
      ms_expected_members (rt_membership (fold mesh_event_step es rt)) \<and>
    1 + card (dom (ms_peers (rt_membership (fold mesh_event_step es rt)))) <
      2 * quorum_needed (rt_membership (fold mesh_event_step es rt))"
  using covered_run [OF assms] by (auto simp: covered_def quorum_needed_def)

theorem quorum_covers_known_members_witness:
  "\<exists>rt. rt = fold mesh_event_step [EvMerge (\<lambda>_. []) (F_Fin 9) True (node_to_wire (sample_peer ''b'')), EvReap None (F_Fin 99) (F_Fin 1) True] sample_rt \<and>
     1 + card (dom (ms_peers (rt_membership rt))) < 2 * quorum_needed (rt_membership rt)"
  using quorum_covers_known_members [OF sample_rt_covered,
      of "[EvMerge (\<lambda>_. []) (F_Fin 9) True (node_to_wire (sample_peer ''b'')), EvReap None (F_Fin 99) (F_Fin 1) True]"]
  by simp

lemma depart_unknown_power:
  assumes "ms_peers m i = None"
  shows "ms_peers (((\<lambda>m. fst (depart i m)) ^^ k) m) = ms_peers m \<and>
    (0 < k \<longrightarrow> ms_expected_members (((\<lambda>m. fst (depart i m)) ^^ k) m) = max (ms_expected_members m - k) 1)"
proof (induction k)
  case (Suc k)
  then show ?case using assms by (cases "k = 0") (auto simp: depart_def)
qed simp

text \<open>
  A departure that is announced again, or for a node that is not listed, still lowers the expected
  size: after k such announcements it is k lower, down to one, while the peers are the same,
  so the quorum is no longer a majority of them.
\<close>

theorem depart_unknown_shrinks_quorum:
  assumes "ms_peers m i = None" "0 < k"
  shows "ms_peers (((\<lambda>m. fst (depart i m)) ^^ k) m) = ms_peers m \<and>
    quorum_needed (((\<lambda>m. fst (depart i m)) ^^ k) m) = max (ms_expected_members m - k) 1 div 2 + 1"
  using depart_unknown_power [OF assms(1), of k] assms(2) by (simp add: quorum_needed_def)

definition sample_five :: membership where
  "sample_five = \<lparr>ms_enabled = True, ms_node_id = ''a'', ms_advertise = ''u'', ms_region = [], ms_caps = node_caps_default,
     ms_peers = [''b'' \<mapsto> sample_peer ''b'', ''c'' \<mapsto> sample_peer ''c'', ''d'' \<mapsto> sample_peer ''d'', ''e'' \<mapsto> sample_peer ''e''],
     ms_expected_members = 5\<rparr>"

theorem depart_unknown_shrinks_quorum_witness:
  "1 + card (dom (ms_peers (((\<lambda>m. fst (depart ''x'' m)) ^^ 3) sample_five))) = 5 \<and>
   quorum_needed (((\<lambda>m. fst (depart ''x'' m)) ^^ 3) sample_five) = 2"
proof -
  have "ms_peers sample_five ''x'' = None" by (simp add: sample_five_def)
  from depart_unknown_shrinks_quorum [OF this, of 3] show ?thesis
    by (simp add: sample_five_def max_def)
qed

text \<open>
  A gossiped node state is read back unchanged, when its times are finite and its template index has
  no empty key or value.
\<close>

theorem node_state_wire_roundtrip:
  assumes "node_ok n"
  shows "node_from_wire json_str (node_to_wire n) = Inr n"
  by (rule node_from_to_wire [OF assms])

theorem node_state_wire_roundtrip_witness:
  "node_from_wire (\<lambda>_. ''?'') (node_to_wire (sample_peer ''b'')) = Inr (sample_peer ''b'')"
  by (rule node_state_wire_roundtrip) (simp add: node_ok_def sample_peer_def node_state_new_def f64_is_finite_def)

text \<open>
  A saved membership is loaded unchanged, whatever the fallback capacity and the clock, when each
  peer is stored under its own non-empty id, different from the node's, and has been seen.
\<close>

theorem membership_save_load:
  assumes "membership_ok m"
  shows "membership_save True m file = (Some (JObject (membership_fields m)), Inr ()) \<and>
    membership_load json_str (fst (membership_save True m file)) caps now = Inr (Some m)"
  using membership_load_saved [OF assms] assms by (simp add: membership_save_def membership_ok_def)

theorem membership_save_load_witness:
  "membership_load (\<lambda>_. []) (fst (membership_save True sample_five None)) node_caps_default (F_Fin 7) = Inr (Some sample_five)"
proof -
  have "membership_ok sample_five"
    by (auto simp: membership_ok_def sample_five_def sample_peer_def node_ok_def node_state_new_def f64_is_finite_def split: if_splits)
  from membership_save_load [OF this, of None "\<lambda>_. []" node_caps_default "F_Fin 7"] show ?thesis by blast
qed

text \<open>
  A membership file with a peer entry that is not an object is an error, not an absent membership.
\<close>

theorem membership_load_bad_peer:
  assumes "obj ''node_id'' = Some (JString i)" "i \<noteq> []" "obj ''enabled'' = Some (JBool True)"
    "obj ''peers'' = Some (JArray (x # xs))" "as_object x = None"
  shows "membership_load json_str (Some (JObject obj)) caps now = Inl ''invalid''"
  using assms by (simp add: membership_load_def string_field_def Let_def node_from_wire_def)

theorem membership_load_bad_peer_witness:
  "membership_load (\<lambda>_. []) (Some (JObject [''node_id'' \<mapsto> JString ''a'', ''enabled'' \<mapsto> JBool True, ''peers'' \<mapsto> JArray [JNull]]))
     node_caps_default (F_Fin 1) = Inl ''invalid''"
  by (rule membership_load_bad_peer [of _ "''a''" JNull "[]"]) simp_all

end
