(* ===== verification/SortBy.thy ===== *)
theory SortBy
  imports Prelude "HOL-Library.Multiset"
begin

text \<open>
  Sorting by a comparator, as \<^verbatim>\<open>slice::sort_by\<close> of Rust's standard library does it: stable, with the laws clients use.
\<close>

text \<open>\<^verbatim>\<open>slice::sort_by\<close> is stable; \<open>lt a b\<close> is the comparator saying that \<open>a\<close> comes strictly first.\<close>

fun insert_by :: "('a \<Rightarrow> 'a \<Rightarrow> bool) \<Rightarrow> 'a \<Rightarrow> 'a list \<Rightarrow> 'a list" where
  "insert_by lt x [] = [x]"
| "insert_by lt x (y # ys) = (if lt y x then y # insert_by lt x ys else x # y # ys)"

definition sort_by :: "('a \<Rightarrow> 'a \<Rightarrow> bool) \<Rightarrow> 'a list \<Rightarrow> 'a list" where
  "sort_by lt xs = foldr (insert_by lt) xs []"

section \<open>Laws\<close>

lemma insert_by_mset [simp]: "mset (insert_by lt x ys) = add_mset x (mset ys)"
  by (induction ys) auto

lemma sort_by_mset [simp]: "mset (sort_by lt xs) = mset xs"
  unfolding sort_by_def by (induction xs) auto

lemma insert_by_set [simp]: "set (insert_by lt x ys) = insert x (set ys)"
  by (induction ys) auto

lemma sort_by_set [simp]: "set (sort_by lt xs) = set xs"
  unfolding sort_by_def by (induction xs) auto

text \<open>For a comparator that is a strict weak order, no element comes strictly before an earlier one.\<close>

lemma insert_by_sorted:
  assumes trans: "\<And>a b c. \<not> lt b a \<Longrightarrow> \<not> lt c b \<Longrightarrow> \<not> lt c a" and asym: "\<And>a b. lt a b \<Longrightarrow> \<not> lt b a"
  shows "sorted_wrt (\<lambda>a b. \<not> lt b a) ys \<Longrightarrow> sorted_wrt (\<lambda>a b. \<not> lt b a) (insert_by lt x ys)"
proof (induction ys)
  case (Cons y ys)
  show ?case
  proof (cases "lt y x")
    case True
    then show ?thesis using Cons asym [OF True] by simp
  next
    case False
    then have "\<forall>z\<in>set ys. \<not> lt z x" using Cons.prems trans [OF False] by simp
    then show ?thesis using False Cons.prems by simp
  qed
qed simp

lemma sort_by_sorted:
  assumes trans: "\<And>a b c. \<not> lt b a \<Longrightarrow> \<not> lt c b \<Longrightarrow> \<not> lt c a" and asym: "\<And>a b. lt a b \<Longrightarrow> \<not> lt b a"
  shows "sorted_wrt (\<lambda>a b. \<not> lt b a) (sort_by lt xs)"
proof (induction xs)
  case (Cons x xs)
  show ?case
    using insert_by_sorted [of lt, OF trans asym Cons.IH] by (simp add: sort_by_def)
qed (simp add: sort_by_def)

end
