(* ===== verification/Blake2b.thy ===== *)
theory Blake2b
  imports SortBy
begin

text \<open>
  Rendezvous hashing, \<^verbatim>\<open>vmond/src/mesh/place.rs\<close>: the file's own BLAKE2b with an eight-byte digest, the
  score of a node for a key, and the winner among node ids. The hash works on 64-bit words
  with wrap-around; its state is the list of the sixteen words of the source's array.
\<close>

unbundle bit_operations_syntax

section \<open>BLAKE2b\<close>

definition BLAKE2B_IV :: "u64 list" where
  "BLAKE2B_IV = [0x6a09e667f3bcc908, 0xbb67ae8584caa73b, 0x3c6ef372fe94f82b, 0xa54ff53a5f1d36f1,
     0x510e527fade682d1, 0x9b05688c2b3e6c1f, 0x1f83d9abfb41bd6b, 0x5be0cd19137e2179]"

definition BLAKE2B_SIGMA :: "nat list list" where
  "BLAKE2B_SIGMA = [
     [0, 1, 2, 3, 4, 5, 6, 7, 8, 9, 10, 11, 12, 13, 14, 15],
     [14, 10, 4, 8, 9, 15, 13, 6, 1, 12, 0, 2, 11, 7, 5, 3],
     [11, 8, 12, 0, 5, 2, 15, 13, 10, 14, 3, 6, 7, 1, 9, 4],
     [7, 9, 3, 1, 13, 12, 11, 14, 2, 6, 5, 10, 4, 0, 15, 8],
     [9, 0, 5, 7, 2, 4, 10, 15, 14, 1, 11, 12, 6, 8, 3, 13],
     [2, 12, 6, 10, 0, 11, 8, 3, 4, 13, 7, 5, 15, 14, 1, 9],
     [12, 5, 1, 15, 14, 13, 4, 10, 0, 7, 6, 3, 9, 2, 8, 11],
     [13, 11, 7, 14, 12, 1, 3, 9, 5, 0, 15, 4, 8, 6, 2, 10],
     [6, 15, 14, 9, 11, 3, 0, 8, 12, 2, 13, 7, 1, 4, 10, 5],
     [10, 2, 8, 4, 7, 6, 1, 5, 15, 11, 9, 14, 3, 12, 13, 0],
     [0, 1, 2, 3, 4, 5, 6, 7, 8, 9, 10, 11, 12, 13, 14, 15],
     [14, 10, 4, 8, 9, 15, 13, 6, 1, 12, 0, 2, 11, 7, 5, 3]]"

definition blake2b_g :: "nat \<Rightarrow> nat \<Rightarrow> nat \<Rightarrow> nat \<Rightarrow> u64 \<Rightarrow> u64 \<Rightarrow> u64 list \<Rightarrow> u64 list" where
  "blake2b_g a b c d x y v0 =
     (let v1 = v0[a := v0 ! a + v0 ! b + x];
          v2 = v1[d := word_rotr 32 (v1 ! d XOR v1 ! a)];
          v3 = v2[c := v2 ! c + v2 ! d];
          v4 = v3[b := word_rotr 24 (v3 ! b XOR v3 ! c)];
          v5 = v4[a := v4 ! a + v4 ! b + y];
          v6 = v5[d := word_rotr 16 (v5 ! d XOR v5 ! a)];
          v7 = v6[c := v6 ! c + v6 ! d]
      in v7[b := word_rotr 63 (v7 ! b XOR v7 ! c)])"

definition blake2b_round :: "u64 list \<Rightarrow> nat list \<Rightarrow> u64 list \<Rightarrow> u64 list" where
  "blake2b_round m sigma v0 =
     (let v1 = blake2b_g 0 4 8 12 (m ! (sigma ! 0)) (m ! (sigma ! 1)) v0;
          v2 = blake2b_g 1 5 9 13 (m ! (sigma ! 2)) (m ! (sigma ! 3)) v1;
          v3 = blake2b_g 2 6 10 14 (m ! (sigma ! 4)) (m ! (sigma ! 5)) v2;
          v4 = blake2b_g 3 7 11 15 (m ! (sigma ! 6)) (m ! (sigma ! 7)) v3;
          v5 = blake2b_g 0 5 10 15 (m ! (sigma ! 8)) (m ! (sigma ! 9)) v4;
          v6 = blake2b_g 1 6 11 12 (m ! (sigma ! 10)) (m ! (sigma ! 11)) v5;
          v7 = blake2b_g 2 7 8 13 (m ! (sigma ! 12)) (m ! (sigma ! 13)) v6
      in blake2b_g 3 4 9 14 (m ! (sigma ! 14)) (m ! (sigma ! 15)) v7)"

text \<open>The sixteen little-endian words of a 128-byte block.\<close>

definition block_words :: "bytes \<Rightarrow> u64 list" where
  "block_words block = map (\<lambda>i. word_of_nat (le_val (take 8 (drop (8 * i) block)))) [0..<16]"

definition blake2b_compress :: "u64 list \<Rightarrow> bytes \<Rightarrow> nat \<Rightarrow> bool \<Rightarrow> u64 list" where
  "blake2b_compress h block counter is_last =
     (let m = block_words block;
          v0 = h @ BLAKE2B_IV;
          v1 = v0[12 := v0 ! 12 XOR word_of_nat counter];
          v2 = v1[13 := v1 ! 13 XOR word_of_nat (counter div 2 ^ 64)];
          v3 = (if is_last then v2[14 := NOT (v2 ! 14)] else v2);
          v = fold (blake2b_round m) BLAKE2B_SIGMA v3
      in map (\<lambda>i. h ! i XOR (v ! i XOR v ! (i + 8))) [0..<8])"

function blake2b_blocks :: "u64 list \<Rightarrow> bytes \<Rightarrow> nat \<Rightarrow> u64 list \<times> nat" where
  "blake2b_blocks h input offset =
     (if length input - offset > 128
      then blake2b_blocks (blake2b_compress h (take 128 (drop offset input)) (offset + 128) False) input (offset + 128)
      else (h, offset))"
  by pat_completeness auto
termination by (relation "measure (\<lambda>(_, input, offset). length input - offset)") auto

declare blake2b_blocks.simps [simp del]

definition blake2b_8 :: "bytes \<Rightarrow> bytes" where
  "blake2b_8 input =
     (let h0 = BLAKE2B_IV[0 := BLAKE2B_IV ! 0 XOR 0x01010008];
          (h, offset) = blake2b_blocks h0 input 0;
          remaining = length input - offset;
          block = drop offset input @ replicate (128 - remaining) 0;
          h' = blake2b_compress h block (length input) True
      in le_bytes 8 (unat (h' ! 0)))"

section \<open>Rendezvous scores\<close>

definition str_bytes :: "string \<Rightarrow> bytes" where
  "str_bytes s = map (\<lambda>c. word_of_nat (of_char c)) s"

definition hrw_score :: "string \<Rightarrow> string \<Rightarrow> nat" where
  "hrw_score key node_id = le_val (rev (blake2b_8 (str_bytes key @ [0] @ str_bytes node_id)))"

text \<open>\<^verbatim>\<open>hrw_winner\<close>: the loop keeps the first id with the highest score.\<close>

fun hrw_loop :: "string \<Rightarrow> string list \<Rightarrow> string option \<Rightarrow> nat \<Rightarrow> string option" where
  "hrw_loop key [] best best_score = best"
| "hrw_loop key (node_id # ids) best best_score =
     (let score = hrw_score key node_id in
      if best = None \<or> score > best_score then hrw_loop key ids (Some node_id) score
      else hrw_loop key ids best best_score)"

definition hrw_winner :: "string \<Rightarrow> string list \<Rightarrow> string option" where
  "hrw_winner key node_ids = hrw_loop key node_ids None 0"

definition hrw_before :: "string \<Rightarrow> string \<Rightarrow> string \<Rightarrow> bool" where
  "hrw_before key a b \<longleftrightarrow> hrw_score key b < hrw_score key a \<or> (hrw_score key b = hrw_score key a \<and> a < b)"

definition sort_by_hrw_desc :: "string \<Rightarrow> string list \<Rightarrow> string list" where
  "sort_by_hrw_desc key node_ids = sort_by (hrw_before key) node_ids"

section \<open>The winner\<close>

lemma hrw_loop_spec:
  "hrw_loop key ids (Some b) (hrw_score key b) = Some w \<Longrightarrow> w \<in> set (b # ids) \<and>
    (\<forall>i\<in>set (b # ids). hrw_score key i \<le> hrw_score key w) \<and> (w \<noteq> b \<longrightarrow> hrw_score key b < hrw_score key w)"
proof (induction ids arbitrary: b)
  case (Cons i ids)
  show ?case
  proof (cases "hrw_score key b < hrw_score key i")
    case True
    then show ?thesis using Cons.IH [of i] Cons.prems by (auto simp: Let_def)
  next
    case False
    then show ?thesis using Cons.IH [of b] Cons.prems by (auto simp: Let_def)
  qed
qed simp

lemma hrw_loop_Some: "\<exists>w. hrw_loop key ids (Some b) s = Some w"
  by (induction ids arbitrary: b s) (auto simp: Let_def)

lemma hrw_winner_Nil [simp]: "hrw_winner key [] = None"
  by (simp add: hrw_winner_def)

lemma hrw_winner_Cons: "hrw_winner key (i # ids) = hrw_loop key ids (Some i) (hrw_score key i)"
  by (simp add: hrw_winner_def Let_def)

lemma hrw_winner_Some:
  assumes "hrw_winner key ids = Some w"
  shows "w \<in> set ids" "\<forall>i\<in>set ids. hrw_score key i \<le> hrw_score key w"
  using assms hrw_loop_spec [of key "tl ids" "hd ids" w] by (cases ids; auto simp: hrw_winner_Cons)+

lemma hrw_loop_keeps:
  "\<forall>i\<in>set ids. hrw_score key i \<le> s \<Longrightarrow> hrw_loop key ids (Some b) s = Some b"
  by (induction ids) (auto simp: Let_def)

lemma hrw_loop_first:
  "hrw_score key b < hrw_score key w \<Longrightarrow> \<forall>i\<in>set us. hrw_score key i < hrw_score key w \<Longrightarrow>
   \<forall>i\<in>set vs. hrw_score key i \<le> hrw_score key w \<Longrightarrow> hrw_loop key (us @ w # vs) (Some b) (hrw_score key b) = Some w"
  by (induction us arbitrary: b) (auto simp: Let_def hrw_loop_keeps)

text \<open>The winner is the first id of maximal score.\<close>

lemma hrw_winner_split:
  "hrw_winner key ids = Some w \<longleftrightarrow> (\<exists>us vs. ids = us @ w # vs \<and> (\<forall>i\<in>set us. hrw_score key i < hrw_score key w) \<and>
     (\<forall>i\<in>set vs. hrw_score key i \<le> hrw_score key w))" (is "?l = (\<exists>us vs. ?r us w vs)")
proof
  have intro: "hrw_winner key ids = Some v" if "?r us v vs" for us v vs
    using that by (cases us) (auto simp: hrw_winner_Cons hrw_loop_first hrw_loop_keeps)
  assume l: ?l
  note w = hrw_winner_Some [OF l]
  obtain us v vs where split: "ids = us @ v # vs" "hrw_score key v = hrw_score key w" "\<forall>i\<in>set us. hrw_score key i \<noteq> hrw_score key w"
    using split_list_first_prop [of ids "\<lambda>i. hrw_score key i = hrw_score key w"] w(1) by blast
  have r: "?r us v vs" using split w(2) by (auto simp: order_less_le)
  then have "v = w" using intro l by fastforce
  then show "\<exists>us vs. ?r us w vs" using r by blast
next
  assume "\<exists>us vs. ?r us w vs"
  then obtain us vs where "?r us w vs" by blast
  then show ?l by (cases us) (auto simp: hrw_winner_Cons hrw_loop_first hrw_loop_keeps)
qed

lemma hrw_winner_nonempty: "ids \<noteq> [] \<Longrightarrow> \<exists>w. hrw_winner key ids = Some w"
  using hrw_loop_Some by (cases ids) (auto simp: hrw_winner_Cons)

lemma hrw_winner_filter:
  assumes "hrw_winner key ids = Some w" "P w"
  shows "hrw_winner key (filter P ids) = Some w"
proof -
  obtain us vs where "ids = us @ w # vs" "\<forall>i\<in>set us. hrw_score key i < hrw_score key w" "\<forall>i\<in>set vs. hrw_score key i \<le> hrw_score key w"
    using assms(1) hrw_winner_split by blast
  then show ?thesis
    unfolding hrw_winner_split using assms(2) by (intro exI [of _ "filter P us"] exI [of _ "filter P vs"]) auto
qed

lemma hrw_winner_insert:
  "hrw_winner key (xs @ x # ys) = Some x \<or> hrw_winner key (xs @ x # ys) = hrw_winner key (xs @ ys)"
proof -
  obtain v where v: "hrw_winner key (xs @ x # ys) = Some v" using hrw_winner_nonempty by blast
  then obtain us vs where split: "xs @ x # ys = us @ v # vs" "\<forall>i\<in>set us. hrw_score key i < hrw_score key v"
    "\<forall>i\<in>set vs. hrw_score key i \<le> hrw_score key v"
    using hrw_winner_split by blast
  consider "x = v" | zs where "xs = us @ v # zs" "vs = zs @ x # ys" | zs where "us = xs @ x # zs" "ys = zs @ v # vs"
    using split(1) by (auto simp: append_eq_append_conv2 append_eq_Cons_conv Cons_eq_append_conv)
  then show ?thesis
  proof cases
    case 1
    then show ?thesis using v by simp
  next
    case 2
    then have "hrw_winner key (xs @ ys) = Some v"
      unfolding hrw_winner_split using split(2,3) by (intro exI [of _ us] exI [of _ "zs @ ys"]) auto
    then show ?thesis using v by simp
  next
    case 3
    then have "hrw_winner key (xs @ ys) = Some v"
      unfolding hrw_winner_split using split(2,3) by (intro exI [of _ "xs @ zs"] exI [of _ vs]) auto
    then show ?thesis using v by simp
  qed
qed

section \<open>Blocks\<close>

text \<open>The hash as a fold over numbered blocks: all but the last are full, the last is padded with zeros.\<close>

definition blake2b_reference :: "bytes \<Rightarrow> u64 list" where
  "blake2b_reference input =
     (let n = (length input - 1) div 128;
          h = foldl (\<lambda>h i. blake2b_compress h (take 128 (drop (128 * i) input)) (128 * Suc i) False)
                (BLAKE2B_IV[0 := BLAKE2B_IV ! 0 XOR 0x01010008]) [0..<n];
          rest = drop (128 * n) input
      in blake2b_compress h (rest @ replicate (128 - length rest) 0) (length input) True)"

lemma blake2b_blocks_fold:
  assumes "i \<le> (length input - 1) div 128"
  shows "blake2b_blocks h input (128 * i) =
    (foldl (\<lambda>h i. blake2b_compress h (take 128 (drop (128 * i) input)) (128 * Suc i) False) h
       [i..<(length input - 1) div 128], 128 * ((length input - 1) div 128))"
  using assms
proof (induction "(length input - 1) div 128 - i" arbitrary: h i)
  case 0
  then have "i = (length input - 1) div 128" by simp
  moreover from this have "\<not> length input - 128 * i > 128" by linarith
  ultimately show ?case by (simp add: blake2b_blocks.simps)
next
  case (Suc k)
  then have less: "i < (length input - 1) div 128" by simp
  then have "length input - 128 * i > 128" by linarith
  moreover have "128 * i + 128 = 128 * Suc i" by simp
  ultimately have "blake2b_blocks h input (128 * i) =
      blake2b_blocks (blake2b_compress h (take 128 (drop (128 * i) input)) (128 * Suc i) False) input (128 * Suc i)"
    by (subst blake2b_blocks.simps) (simp only: if_True)
  then show ?case
    using Suc.hyps(1) [of "Suc i"] Suc.hyps(2) less by (simp add: upt_conv_Cons)
qed

lemma blake2b_8_reference: "blake2b_8 input = le_bytes 8 (unat (blake2b_reference input ! 0))"
  using blake2b_blocks_fold [of 0 input] by (simp add: blake2b_8_def blake2b_reference_def Let_def)

end
