(* ===== verification/Placement.thy ===== *)
theory Placement
  imports MeshState Blake2b
begin

text \<open>
  Placement, \<^verbatim>\<open>vmond/src/mesh/place.rs\<close>: architecture selection, hard gates, scoring and the choice of the
  owner of a sandbox, and \<^verbatim>\<open>place_function_worker\<close> of \<^verbatim>\<open>vmond/src/function/scheduler.rs\<close>. Arguments stand for
  code outside the model: \<open>manifest\<close> inspects a registry for the architectures of an image,
  \<open>json_str\<close> prints a JSON value, \<open>from_str\<close> parses one, \<open>macos\<close> is the build target. Text is ASCII here, so
  that trimming and lower-casing work on single bytes.
\<close>

section \<open>Text helpers\<close>

definition normalize_oci_arch :: "string option \<Rightarrow> string option" where
  "normalize_oci_arch arch = (case arch of
     None \<Rightarrow> None
   | Some a \<Rightarrow> let machine = map (\<lambda>c. if c = CHR ''-'' then CHR ''_'' else c) (map to_lower (trim a)) in
       if machine = [] then None
       else Some (if machine = ''amd64'' \<or> machine = ''x64'' then ''x86_64''
                  else if machine = ''arm64'' then ''aarch64'' else machine))"

definition parse_reference :: "string option \<Rightarrow> string option result" where
  "parse_reference ref = (case ref of
     None \<Rightarrow> Inr None
   | Some r \<Rightarrow> let r = trim r in
       if r = [] then Inr None else if list_ex is_whitespace r then Inl Invalid else Inr (Some r))"

definition bit_str :: "bool \<Rightarrow> string" where
  "bit_str b = (if b then ''1'' else ''0'')"

definition pools_template_key :: "string \<Rightarrow> nat \<Rightarrow> nat \<Rightarrow> nat \<Rightarrow> nat \<Rightarrow> bool \<Rightarrow> bool \<Rightarrow> bool \<Rightarrow> string" where
  "pools_template_key ref disk_mb memory cpus fs_slots host_slot nic_slot tap_slot =
     ref @ ''|d'' @ dec_digits disk_mb @ ''|m'' @ dec_digits memory @ ''|c'' @ dec_digits cpus @ ''|s'' @ dec_digits fs_slots @
     ''|h'' @ bit_str host_slot @ ''|n'' @ bit_str nic_slot @ ''|t'' @ bit_str tap_slot"

section \<open>Requests\<close>

definition PLACEMENT_ARCHES :: "string list" where
  "PLACEMENT_ARCHES = [''aarch64'', ''x86_64'']"

record placement_weights =
  pw_warm :: f64
  pw_free :: f64
  pw_local :: f64
  pw_region :: f64
  pw_inflight :: f64

definition DEFAULT_PLACEMENT_WEIGHTS :: placement_weights where
  "DEFAULT_PLACEMENT_WEIGHTS = \<lparr>pw_warm = F_Fin 1000, pw_free = F_Fin 100, pw_local = F_Fin 50, pw_region = F_Fin 30,
     pw_inflight = F_Fin 80\<rparr>"

definition weight_override :: "string \<times> f64 \<Rightarrow> placement_weights \<Rightarrow> placement_weights" where
  "weight_override kv w = (case kv of (key, v) \<Rightarrow>
     if key = ''warm'' then w\<lparr>pw_warm := v\<rparr> else if key = ''free'' then w\<lparr>pw_free := v\<rparr>
     else if key = ''local'' then w\<lparr>pw_local := v\<rparr> else if key = ''region'' then w\<lparr>pw_region := v\<rparr>
     else if key = ''inflight'' then w\<lparr>pw_inflight := v\<rparr> else w)"

definition with_overrides :: "(string \<times> f64) list \<Rightarrow> placement_weights \<Rightarrow> placement_weights" where
  "with_overrides overrides w = fold weight_override overrides w"

record placement_context =
  pc_ingress_id :: string
  pc_ingress_region :: string
  pc_backend :: string
  pc_arch :: string
  pc_cpu_baseline :: string
  pc_interval :: f64
  pc_weights :: placement_weights

fun value_truthy :: "json \<Rightarrow> bool" where
  "value_truthy JNull = False"
| "value_truthy (JBool b) = b"
| "value_truthy (JNumber n) = (case number_as_i64 n of
     Some i \<Rightarrow> i \<noteq> 0
   | None \<Rightarrow> (case number_as_f64 n of None \<Rightarrow> False | Some f \<Rightarrow> \<not> f64_eq f (F_Fin 0)))"
| "value_truthy (JString text) = (text \<noteq> [])"
| "value_truthy (JArray items) = (items \<noteq> [])"
| "value_truthy (JObject items) = (items \<noteq> Map.empty)"

definition truthy :: "params \<Rightarrow> string \<Rightarrow> bool" where
  "truthy req key = (case req key of None \<Rightarrow> False | Some v \<Rightarrow> value_truthy v)"

definition present :: "params \<Rightarrow> string \<Rightarrow> bool" where
  "present req key = (case req key of None \<Rightarrow> False | Some v \<Rightarrow> v \<noteq> JNull)"

definition non_empty_str :: "params \<Rightarrow> string \<Rightarrow> string option" where
  "non_empty_str req key = (case Option.bind (req key) as_str of
     None \<Rightarrow> None | Some s \<Rightarrow> if trim s = [] then None else Some (trim s))"

definition request_u64_or :: "params \<Rightarrow> string \<Rightarrow> nat \<Rightarrow> nat option" where
  "request_u64_or req key d = (case req key of None \<Rightarrow> Some d | Some JNull \<Rightarrow> Some d | Some v \<Rightarrow> value_u64 v)"

definition memory_or_mem :: "params \<Rightarrow> nat option" where
  "memory_or_mem req = (if present req ''memory'' then Option.bind (req ''memory'') value_u64 else request_u64_or req ''mem'' 512)"

definition truthy_scalar :: "(json \<Rightarrow> string) \<Rightarrow> params \<Rightarrow> string \<Rightarrow> string option" where
  "truthy_scalar json_str req key = (case req key of
     None \<Rightarrow> None
   | Some v \<Rightarrow> if \<not> value_truthy v then None
       else let text = (case v of JString t \<Rightarrow> t | JBool b \<Rightarrow> (if b then ''true'' else ''false'') | other \<Rightarrow> json_str other)
            in if text = [] then None else Some text)"

definition validate_request_arch :: "json option \<Rightarrow> string option mesh_result" where
  "validate_request_arch v = (case v of
     None \<Rightarrow> Inr None
   | Some JNull \<Rightarrow> Inr None
   | Some v \<Rightarrow> (case as_str v of
       None \<Rightarrow> Inl ''invalid''
     | Some text \<Rightarrow> if text \<in> set PLACEMENT_ARCHES then Inr (Some text) else Inl ''invalid''))"

definition context_is_local :: "json option \<Rightarrow> bool" where
  "context_is_local v = (case v of None \<Rightarrow> False | Some JNull \<Rightarrow> False | Some (JString text) \<Rightarrow> text \<noteq> ''.'' | Some _ \<Rightarrow> True)"

definition volume_count :: "json option \<Rightarrow> nat" where
  "volume_count v = (case v of Some (JObject items) \<Rightarrow> card (dom items) | Some (JArray items) \<Rightarrow> length items | _ \<Rightarrow> 0)"

definition place_template_key :: "string option \<Rightarrow> nat \<Rightarrow> nat \<Rightarrow> nat \<Rightarrow> nat \<Rightarrow> bool \<Rightarrow> bool \<Rightarrow> bool \<Rightarrow> string mesh_result" where
  "place_template_key ref disk_mb memory cpus fs_slots host_slot nic_slot tap_slot = (case parse_reference ref of
     Inl _ \<Rightarrow> Inl ''invalid''
   | Inr None \<Rightarrow> Inl ''invalid''
   | Inr (Some r) \<Rightarrow> Inr (pools_template_key r disk_mb memory cpus fs_slots host_slot nic_slot tap_slot))"

definition request_template_key :: "bool \<Rightarrow> params \<Rightarrow> string option" where
  "request_template_key macos req = (case non_empty_str req ''image'' of
     None \<Rightarrow> None
   | Some ref \<Rightarrow>
       if truthy req ''template'' \<or> truthy req ''dockerfile'' \<or> context_is_local (req ''context'') \<or>
          present req ''fs_dir'' \<or> volume_count (req ''volumes'') \<noteq> 0
       then None
       else let block_network = truthy req ''block_network''; user_net_flavor = (\<not> block_network \<and> macos) in
         Option.bind (request_u64_or req ''disk_mb'' 1024) (\<lambda>disk_mb.
         Option.bind (memory_or_mem req) (\<lambda>memory.
         Option.bind (request_u64_or req ''cpus'' 1) (\<lambda>cpus.
           case place_template_key (Some ref) disk_mb memory cpus 0 False user_net_flavor (\<not> block_network \<and> \<not> user_net_flavor) of
             Inl _ \<Rightarrow> None | Inr k \<Rightarrow> Some k))))"

definition pool_ref :: "(json \<Rightarrow> string) \<Rightarrow> params \<Rightarrow> string option" where
  "pool_ref json_str req = (case truthy_scalar json_str req ''template'' of
     Some t \<Rightarrow> Some t | None \<Rightarrow> truthy_scalar json_str req ''image'')"

definition pool_eligible :: "params \<Rightarrow> bool" where
  "pool_eligible req \<longleftrightarrow> truthy req ''block_network'' \<and> \<not> truthy req ''volumes'' \<and> \<not> truthy req ''fs_dir''"

definition pinned_local :: "params \<Rightarrow> bool" where
  "pinned_local req \<longleftrightarrow> truthy req ''dockerfile'' \<or> truthy req ''fs_dir'' \<or> truthy req ''volumes'' \<or>
     context_is_local (req ''context'')"

definition request_bound_ref :: "(json \<Rightarrow> string) \<Rightarrow> params \<Rightarrow> string option" where
  "request_bound_ref json_str req = (case truthy_scalar json_str req ''template'' of
     Some t \<Rightarrow> Some t | None \<Rightarrow> truthy_scalar json_str req ''snapshot'')"

section \<open>Scores and candidates\<close>

definition score_node :: "bool \<Rightarrow> (json \<Rightarrow> string) \<Rightarrow> node_state \<Rightarrow> params \<Rightarrow> string \<Rightarrow> string \<Rightarrow> placement_weights \<Rightarrow> f64" where
  "score_node macos json_str node req ingress_id ingress_region w =
     (let pool_warm = f64_of_bool (pool_eligible req \<and> (case pool_ref json_str req of None \<Rightarrow> False
            | Some r \<Rightarrow> (case ns_pools node r of None \<Rightarrow> False | Some ready \<Rightarrow> ready > 0)));
          template_warm = f64_of_bool (case request_template_key macos req of None \<Rightarrow> False
            | Some key \<Rightarrow> ns_template_index node key \<noteq> None);
          warm = f64_max pool_warm template_warm;
          free_frac = (if nc_vcpus (ns_caps node) = 0 then F_Fin 0
            else f64_div (f64_of_nat (free_vcpus node)) (f64_of_nat (nc_vcpus (ns_caps node))));
          local = f64_of_bool (ns_node_id node = ingress_id);
          region = f64_of_bool (ingress_region \<noteq> [] \<and> ns_region node = ingress_region);
          inflight_frac = f64_min (f64_div (f64_of_nat (ns_inflight node)) (f64_of_nat (max (nc_vcpus (ns_caps node)) 1))) (F_Fin 1)
      in f64_sub (f64_add (f64_add (f64_add (f64_mul (pw_warm w) warm) (f64_mul (pw_free w) free_frac))
                   (f64_mul (pw_local w) local)) (f64_mul (pw_region w) region))
           (f64_mul (pw_inflight w) inflight_frac))"

definition normalized_live_arches :: "node_state list \<Rightarrow> string set" where
  "normalized_live_arches nodes =
     set (filter (\<lambda>a. a \<in> set PLACEMENT_ARCHES) (List.map_filter (\<lambda>n. normalize_oci_arch (Some (ns_arch n))) nodes))"

definition placement_arches :: "(string \<Rightarrow> string list option) \<Rightarrow> params \<Rightarrow> node_state list \<Rightarrow> string \<Rightarrow> bool \<Rightarrow> string set mesh_result" where
  "placement_arches manifest req nodes source_arch ref_bound =
     (let live_arches = normalized_live_arches nodes in
      rbind (validate_request_arch (req ''arch'')) (\<lambda>explicit. case explicit of
        Some a \<Rightarrow> if a \<notin> live_arches then Inl ''unplaceable'' else Inr {a}
      | None \<Rightarrow> (case non_empty_str req ''image'' of
          Some img \<Rightarrow> (case manifest img of
              None \<Rightarrow> if card live_arches = 1 then Inr live_arches else Inl ''arch_required''
            | Some image_arches \<Rightarrow>
                let compatible = set (filter (\<lambda>a. a \<in> live_arches) (List.map_filter (\<lambda>a. normalize_oci_arch (Some a)) image_arches))
                in if compatible = {} then Inl ''unplaceable'' else Inr compatible)
        | None \<Rightarrow>
            if ref_bound then Inr (case normalize_oci_arch (Some source_arch) of
                None \<Rightarrow> {} | Some a \<Rightarrow> if a \<in> live_arches then {a} else {})
            else Inr live_arches)))"

definition arch_in :: "string set \<Rightarrow> node_state \<Rightarrow> bool" where
  "arch_in arches node = (case normalize_oci_arch (Some (ns_arch node)) of None \<Rightarrow> False | Some a \<Rightarrow> a \<in> arches)"

definition bound_ok :: "(string \<Rightarrow> json option) \<Rightarrow> placement_context \<Rightarrow> string \<Rightarrow> node_state \<Rightarrow> bool" where
  "bound_ok from_str ctx ref node \<longleftrightarrow> ns_backend node = pc_backend ctx \<and> ref \<in> set (ns_templates node) \<and>
     cpu_baseline_covers from_str (ns_cpu_baseline node) (pc_cpu_baseline ctx)"

record place_env =
  pe_macos :: bool
  pe_json_str :: "json \<Rightarrow> string"
  pe_from_str :: "string \<Rightarrow> json option"
  pe_manifest :: "string \<Rightarrow> string list option"

definition candidates ::
  "place_env \<Rightarrow> params \<Rightarrow> placement_context \<Rightarrow> node_state list \<Rightarrow> string set option \<Rightarrow> node_state list mesh_result" where
  "candidates env req ctx live_nodes arches =
     (let ref = request_bound_ref (pe_json_str env) req in
      rbind (case arches of Some a \<Rightarrow> Inr a
               | None \<Rightarrow> placement_arches (pe_manifest env) req live_nodes (pc_arch ctx) (ref \<noteq> None)) (\<lambda>arches.
        let nodes = filter (arch_in arches) live_nodes
        in Inr (case ref of None \<Rightarrow> nodes | Some r \<Rightarrow> filter (bound_ok (pe_from_str env) ctx r) nodes)))"

definition live_node :: "placement_context \<Rightarrow> f64 \<Rightarrow> node_state \<Rightarrow> bool" where
  "live_node ctx now node \<longleftrightarrow> ns_node_id node = pc_ingress_id ctx \<or> healthy now (pc_interval ctx) node"

definition live_candidates ::
  "place_env \<Rightarrow> params \<Rightarrow> placement_context \<Rightarrow> node_state list \<Rightarrow> f64 \<Rightarrow> string set option \<Rightarrow> node_state list mesh_result" where
  "live_candidates env req ctx nodes now arches = candidates env req ctx (filter (live_node ctx now) nodes) arches"

section \<open>The choice\<close>

definition node_score :: "place_env \<Rightarrow> params \<Rightarrow> placement_context \<Rightarrow> node_state \<Rightarrow> f64" where
  "node_score env req ctx node =
     score_node (pe_macos env) (pe_json_str env) node req (pc_ingress_id ctx) (pc_ingress_region ctx) (pc_weights ctx)"

text \<open>\<^verbatim>\<open>compare_rank(left, right) == Less\<close>.\<close>

definition rank_lt :: "place_env \<Rightarrow> params \<Rightarrow> placement_context \<Rightarrow> node_state \<Rightarrow> node_state \<Rightarrow> bool" where
  "rank_lt env req ctx l r \<longleftrightarrow>
     f64_total_lt (node_score env req ctx l) (node_score env req ctx r) \<or>
     node_score env req ctx l = node_score env req ctx r \<and>
       (free_vcpus l < free_vcpus r \<or> free_vcpus l = free_vcpus r \<and>
         (ns_inflight r < ns_inflight l \<or> ns_inflight r = ns_inflight l \<and> ns_node_id l < ns_node_id r))"

text \<open>\<^verbatim>\<open>Iterator::max_by\<close>: the last of the greatest elements.\<close>

fun max_by :: "('a \<Rightarrow> 'a \<Rightarrow> bool) \<Rightarrow> 'a \<Rightarrow> 'a list \<Rightarrow> 'a" where
  "max_by lt best [] = best"
| "max_by lt best (x # xs) = max_by lt (if lt x best then best else x) xs"

definition fits :: "params \<Rightarrow> node_state \<Rightarrow> bool" where
  "fits req node \<longleftrightarrow> free_vcpus node \<ge> nat_or (request_u64_or req ''cpus'' 1) 1 \<and>
     free_mem_mib node \<ge> nat_or (memory_or_mem req) 512"

definition placement_pool :: "params \<Rightarrow> node_state list \<Rightarrow> node_state list" where
  "placement_pool req cands = (if filter (fits req) cands = [] then cands else filter (fits req) cands)"

definition place :: "place_env \<Rightarrow> params \<Rightarrow> placement_context \<Rightarrow> node_state list \<Rightarrow> f64 \<Rightarrow> string mesh_result" where
  "place env req ctx nodes now =
     rbind (validate_request_arch (req ''arch'')) (\<lambda>explicit.
       if pinned_local req
       then (case explicit of
           Some a \<Rightarrow> if normalize_oci_arch (Some (pc_arch ctx)) \<noteq> Some a then Inl ''unplaceable'' else Inr (pc_ingress_id ctx)
         | None \<Rightarrow> Inr (pc_ingress_id ctx))
       else rbind (live_candidates env req ctx nodes now None) (\<lambda>cands.
         case placement_pool req cands of
           [] \<Rightarrow> Inr (pc_ingress_id ctx)
         | x # xs \<Rightarrow> Inr (ns_node_id (max_by (rank_lt env req ctx) x xs))))"

section \<open>Function workers\<close>

datatype placement_spread = SpreadNone | SpreadHost | SpreadZone

record placement_hints =
  ph_avoid_hosts :: "string list"
  ph_avoid_zones :: "string list"
  ph_affinity_key :: "string option"
  ph_required_arch :: "string option"
  ph_snapshot_digest :: "string option"
  ph_artifact_digest :: "string option"
  ph_warm_worker_nodes :: "string list"

definition worker_arch_ok :: "placement_hints \<Rightarrow> node_state \<Rightarrow> bool" where
  "worker_arch_ok hints node = (case Option.bind (ph_required_arch hints) (\<lambda>a. normalize_oci_arch (Some a)) of
     None \<Rightarrow> True | Some required \<Rightarrow> normalize_oci_arch (Some (ns_arch node)) = Some required)"

definition spread_ok :: "placement_spread \<Rightarrow> placement_hints \<Rightarrow> node_state \<Rightarrow> bool" where
  "spread_ok spread hints node = (case spread of
     SpreadNone \<Rightarrow> True
   | SpreadHost \<Rightarrow> ns_node_id node \<notin> set (ph_avoid_hosts hints)
   | SpreadZone \<Rightarrow> ns_region node \<noteq> [] \<and> ns_region node \<notin> set (ph_avoid_zones hints))"

definition has_artifact :: "string option \<Rightarrow> node_state \<Rightarrow> bool" where
  "has_artifact digest node = (case digest of None \<Rightarrow> False | Some d \<Rightarrow> d \<in> set (ns_function_artifacts node))"

text \<open>The tuple of the source, compared lexicographically.\<close>

definition locality_rank :: "string \<Rightarrow> placement_hints \<Rightarrow> node_state \<Rightarrow> nat list" where
  "locality_rank revision_id hints node =
     [of_bool (ns_node_id node \<in> set (ph_warm_worker_nodes hints)), of_bool (has_artifact (ph_snapshot_digest hints) node),
      of_bool (has_artifact (ph_artifact_digest hints) node), free_vcpus node, free_mem_mib node,
      hrw_score revision_id (ns_node_id node)]"

definition worker_key :: "string \<Rightarrow> placement_hints \<Rightarrow> node_state \<Rightarrow> nat list" where
  "worker_key revision_id hints node = (case ph_affinity_key hints of
     Some key \<Rightarrow> [hrw_score key (ns_node_id node)]
   | None \<Rightarrow> locality_rank revision_id hints node)"

definition worker_before :: "string \<Rightarrow> placement_hints \<Rightarrow> node_state \<Rightarrow> node_state \<Rightarrow> bool" where
  "worker_before revision_id hints l r \<longleftrightarrow> worker_key revision_id hints r < worker_key revision_id hints l \<or>
     worker_key revision_id hints r = worker_key revision_id hints l \<and> ns_node_id l < ns_node_id r"

definition place_function_worker ::
  "string \<Rightarrow> placement_spread \<Rightarrow> placement_hints \<Rightarrow> node_state list \<Rightarrow> unit + string" where
  "place_function_worker revision_id spread hints nodes =
     (case sort_by (worker_before revision_id hints)
             (filter (spread_ok spread hints) (filter (worker_arch_ok hints) nodes)) of
        [] \<Rightarrow> Inl ()
      | node # _ \<Rightarrow> Inr (ns_node_id node))"

section \<open>Ranks\<close>

lemma f64_total_asym: "f64_total_lt a b \<Longrightarrow> \<not> f64_total_lt b a"
  using f64_total_lt_trans f64_total_lt_irrefl by blast

lemma rank_lt_asym: "rank_lt env req ctx a b \<Longrightarrow> \<not> rank_lt env req ctx b a"
  by (auto simp: rank_lt_def dest: f64_total_asym)

lemma rank_lt_negtrans:
  assumes "\<not> rank_lt env req ctx b a" "\<not> rank_lt env req ctx c b"
  shows "\<not> rank_lt env req ctx c a"
proof -
  let ?s = "node_score env req ctx"
  have ab: "f64_total_lt (?s a) (?s b) \<or> ?s a = ?s b" and bc: "f64_total_lt (?s b) (?s c) \<or> ?s b = ?s c"
    using assms f64_total_lt_linear [of "?s a" "?s b"] f64_total_lt_linear [of "?s b" "?s c"] by (auto simp: rank_lt_def)
  show ?thesis
  proof (cases "?s a = ?s b \<and> ?s b = ?s c")
    case True
    then show ?thesis using assms by (auto simp: rank_lt_def)
  next
    case False
    then have "f64_total_lt (?s a) (?s c)" using ab bc f64_total_lt_trans by metis
    then show ?thesis by (auto simp: rank_lt_def dest: f64_total_asym)
  qed
qed

lemma max_by_in: "max_by lt b xs \<in> set (b # xs)"
  by (induction xs arbitrary: b) (auto split: if_splits)

lemma max_by_greatest:
  assumes trans: "\<And>a b c. \<not> lt b a \<Longrightarrow> \<not> lt c b \<Longrightarrow> \<not> lt c a" and asym: "\<And>a b. lt a b \<Longrightarrow> \<not> lt b a"
  shows "\<forall>x\<in>set (b # xs). \<not> lt (max_by lt b xs) x"
proof (induction xs arbitrary: b)
  case Nil
  then show ?case using asym by auto
next
  case (Cons x xs)
  let ?b = "if lt x b then b else x"
  have IH: "\<forall>y\<in>set (?b # xs). \<not> lt (max_by lt ?b xs) y" by (rule Cons.IH)
  have "\<not> lt ?b b" "\<not> lt ?b x" using asym by auto
  then have "\<not> lt (max_by lt ?b xs) b" "\<not> lt (max_by lt ?b xs) x"
    using IH trans [of ?b b "max_by lt ?b xs"] trans [of ?b x "max_by lt ?b xs"] by auto
  then show ?case using IH by auto
qed

section \<open>Properties\<close>

text \<open>The hard gates of a placement: live, of an admitted architecture and, for a bound template, able to restore it.\<close>

definition gates :: "place_env \<Rightarrow> params \<Rightarrow> placement_context \<Rightarrow> node_state list \<Rightarrow> f64 \<Rightarrow> node_state \<Rightarrow> bool" where
  "gates env req ctx nodes now n \<longleftrightarrow> n \<in> set nodes \<and> live_node ctx now n \<and>
     (\<exists>a. normalize_oci_arch (Some (ns_arch n)) = Some a \<and> a \<in> set PLACEMENT_ARCHES \<and>
        (\<forall>t. req ''arch'' = Some (JString t) \<longrightarrow> a = t)) \<and>
     (\<forall>ref. request_bound_ref (pe_json_str env) req = Some ref \<longrightarrow> bound_ok (pe_from_str env) ctx ref n)"

lemma live_arches_known: "a \<in> normalized_live_arches nodes \<Longrightarrow> a \<in> set PLACEMENT_ARCHES"
  by (auto simp: normalized_live_arches_def)

lemma placement_arches_sound:
  assumes "placement_arches manifest req nodes src rb = Inr arches" "a \<in> arches"
  shows "a \<in> set PLACEMENT_ARCHES \<and> (\<forall>t. req ''arch'' = Some (JString t) \<longrightarrow> a = t)"
proof (cases "validate_request_arch (req ''arch'')")
  case (Inr explicit)
  show ?thesis
  proof (cases explicit)
    case (Some t)
    then have "arches = {t}" "t \<in> normalized_live_arches nodes"
      using assms(1) Inr by (auto simp: placement_arches_def Let_def split: if_splits)
    moreover have "req ''arch'' = Some (JString t)"
      using Inr Some by (auto simp: validate_request_arch_def as_str_Some split: option.splits json.splits if_splits)
    ultimately show ?thesis using assms(2) live_arches_known by auto
  next
    case None
    then have "\<forall>t. req ''arch'' \<noteq> Some (JString t)"
      using Inr by (auto simp: validate_request_arch_def split: if_splits)
    moreover have "a \<in> normalized_live_arches nodes"
      using assms Inr None by (auto simp: placement_arches_def Let_def split: option.splits if_splits)
    ultimately show ?thesis using live_arches_known by auto
  qed
qed (use assms in \<open>simp add: placement_arches_def\<close>)

lemma live_candidates_gates:
  assumes "live_candidates env req ctx nodes now None = Inr cands" "n \<in> set cands"
  shows "gates env req ctx nodes now n"
proof -
  obtain arches where a: "placement_arches (pe_manifest env) req (filter (live_node ctx now) nodes) (pc_arch ctx)
        (request_bound_ref (pe_json_str env) req \<noteq> None) = Inr arches"
      and c: "cands = (case request_bound_ref (pe_json_str env) req of
          None \<Rightarrow> filter (arch_in arches) (filter (live_node ctx now) nodes)
        | Some r \<Rightarrow> filter (bound_ok (pe_from_str env) ctx r) (filter (arch_in arches) (filter (live_node ctx now) nodes)))"
    using assms(1) by (auto simp: live_candidates_def candidates_def Let_def rbind_eq_Inr simp del: filter_filter)
  show ?thesis
    using assms(2) placement_arches_sound [OF a]
    by (auto simp: c gates_def arch_in_def split: option.splits)
qed

lemma place_cases:
  assumes "place env req ctx nodes now = Inr i" "\<not> pinned_local req"
  obtains cands where "live_candidates env req ctx nodes now None = Inr cands"
    "cands = [] \<Longrightarrow> i = pc_ingress_id ctx"
    "cands \<noteq> [] \<Longrightarrow> \<exists>n\<in>set (placement_pool req cands). i = ns_node_id n \<and>
       (\<forall>x\<in>set (placement_pool req cands). \<not> rank_lt env req ctx n x)"
proof -
  obtain explicit where "validate_request_arch (req ''arch'') = Inr explicit"
    using assms(1) by (auto simp: place_def rbind_eq_Inr)
  then obtain cands where c: "live_candidates env req ctx nodes now None = Inr cands"
      "(case placement_pool req cands of [] \<Rightarrow> Inr (pc_ingress_id ctx)
         | x # xs \<Rightarrow> Inr (ns_node_id (max_by (rank_lt env req ctx) x xs))) = (Inr i :: string mesh_result)"
    using assms by (auto simp: place_def rbind_eq_Inr)
  show ?thesis
  proof (rule that [OF c(1)])
    assume "cands = []"
    then show "i = pc_ingress_id ctx" using c(2) by (simp add: placement_pool_def)
  next
    assume "cands \<noteq> []"
    then obtain x xs where p: "placement_pool req cands = x # xs"
      by (cases "placement_pool req cands") (auto simp: placement_pool_def split: if_splits)
    let ?n = "max_by (rank_lt env req ctx) x xs"
    have "?n \<in> set (x # xs)" by (rule max_by_in)
    moreover have "\<forall>y\<in>set (x # xs). \<not> rank_lt env req ctx ?n y"
      by (rule max_by_greatest) (erule (1) rank_lt_negtrans, erule rank_lt_asym)
    ultimately show "\<exists>n\<in>set (placement_pool req cands). i = ns_node_id n \<and>
       (\<forall>x\<in>set (placement_pool req cands). \<not> rank_lt env req ctx n x)"
      using c(2) p by auto
  qed
qed

text \<open>
  C17: Placement respects the hard gates. A placement succeeds only on the ingress node itself or on a known
  node that is live, has a supported architecture, the requested one if the request names
  one, and, when the request is bound to a template or snapshot, the same backend, that template
  and a CPU baseline that covers the ingress.
\<close>

theorem place_respects_gates:
  assumes "place env req ctx nodes now = Inr i"
  shows "i = pc_ingress_id ctx \<or> (\<exists>n. ns_node_id n = i \<and> gates env req ctx nodes now n)"
proof (cases "pinned_local req")
  case True
  then show ?thesis
    using assms by (auto simp: place_def rbind_eq_Inr split: option.splits if_splits)
next
  case False
  from assms False show ?thesis
  proof (rule place_cases)
    fix cands
    assume c: "live_candidates env req ctx nodes now None = Inr cands" "cands = [] \<Longrightarrow> i = pc_ingress_id ctx"
      "cands \<noteq> [] \<Longrightarrow> \<exists>n\<in>set (placement_pool req cands). i = ns_node_id n \<and> (\<forall>x\<in>set (placement_pool req cands). \<not> rank_lt env req ctx n x)"
    have "set (placement_pool req cands) \<subseteq> set cands" by (auto simp: placement_pool_def)
    then show ?thesis using c live_candidates_gates [OF c(1)] by (cases "cands = []") blast+
  qed
qed

definition sample_env :: place_env where
  "sample_env = \<lparr>pe_macos = False, pe_json_str = (\<lambda>_. ''?''), pe_from_str = (\<lambda>_. None), pe_manifest = (\<lambda>_. None)\<rparr>"

definition sample_ctx :: placement_context where
  "sample_ctx = \<lparr>pc_ingress_id = ''a'', pc_ingress_region = [], pc_backend = ''kvm'', pc_arch = ''x86_64'', pc_cpu_baseline = [],
     pc_interval = F_Fin 5, pc_weights = DEFAULT_PLACEMENT_WEIGHTS\<rparr>"

definition sample_node :: "string \<Rightarrow> nat \<Rightarrow> node_state" where
  "sample_node i cpus = (node_state_new i [])\<lparr>ns_arch := ''amd64'', ns_last_seen := F_Fin 100, ns_caps := \<lparr>nc_vcpus = cpus, nc_mem_mib = 4096\<rparr>\<rparr>"

definition sample_req :: params where
  "sample_req = [''cpus'' \<mapsto> json_nat 4]"

lemma sample_healthy: "healthy (F_Fin 101) (F_Fin 5) (sample_node i c)"
proof -
  have "f64_lt (f64_sub (F_Fin 101) (F_Fin 100)) (f64_mul (F_Fin 3) (F_Fin 5))" by code_simp
  then show ?thesis by (simp add: healthy_def sample_node_def node_state_new_def)
qed

lemma sample_arch: "normalize_oci_arch (Some (ns_arch (sample_node i c))) = Some ''x86_64''"
  by (simp add: sample_node_def node_state_new_def normalize_oci_arch_def trim_def is_whitespace_def to_lower_def Let_def)

lemma sample_fits: "fits sample_req (sample_node i c) \<longleftrightarrow> 4 \<le> c"
  by (simp add: fits_def sample_req_def sample_node_def node_state_new_def free_vcpus_def free_mem_mib_def nat_or_def
      request_u64_or_def memory_or_mem_def present_def json_nat_def)

lemma sample_req_fields:
  "validate_request_arch (sample_req ''arch'') = Inr None" "\<not> pinned_local sample_req"
  "request_bound_ref js sample_req = None" "non_empty_str sample_req ''image'' = None"
  by (simp_all add: sample_req_def validate_request_arch_def pinned_local_def truthy_def context_is_local_def
      request_bound_ref_def truthy_scalar_def non_empty_str_def)

lemma sample_candidates:
  "live_candidates sample_env sample_req sample_ctx [sample_node ''a'' 2, sample_node ''b'' 8] (F_Fin 101) None =
     Inr [sample_node ''a'' 2, sample_node ''b'' 8]"
proof -
  have "normalized_live_arches [sample_node ''a'' 2, sample_node ''b'' 8] = {''x86_64''}"
    by (simp add: normalized_live_arches_def map_filter_def sample_arch PLACEMENT_ARCHES_def)
  moreover have "live_node sample_ctx (F_Fin 101) (sample_node i c)" for i c
    by (simp add: live_node_def sample_ctx_def sample_healthy)
  ultimately show ?thesis
    by (simp add: live_candidates_def candidates_def sample_req_fields placement_arches_def arch_in_def sample_arch Let_def)
qed

lemma sample_place: "place sample_env sample_req sample_ctx [sample_node ''a'' 2, sample_node ''b'' 8] (F_Fin 101) = Inr ''b''"
  by (simp add: place_def sample_req_fields sample_candidates placement_pool_def sample_fits)
    (simp add: sample_node_def node_state_new_def)

theorem place_respects_gates_witness:
  "\<exists>n. ns_node_id n = ''b'' \<and> gates sample_env sample_req sample_ctx [sample_node ''a'' 2, sample_node ''b'' 8] (F_Fin 101) n"
  using place_respects_gates [OF sample_place] by (simp add: sample_ctx_def)

text \<open>
  Placement prefers a node with room and takes the best one. When the request is not tied to the ingress
  host and candidates exist, the chosen node is a candidate, has the requested cores and
  memory free if any candidate has, and among those none ranks higher by score, free cores,
  load and id.
\<close>

theorem place_takes_best:
  assumes "place env req ctx nodes now = Inr i" "\<not> pinned_local req"
    "live_candidates env req ctx nodes now None = Inr cands" "cands \<noteq> []"
  shows "\<exists>n\<in>set cands. i = ns_node_id n \<and> (list_ex (fits req) cands \<longrightarrow> fits req n) \<and>
    (\<forall>x\<in>set cands. (list_ex (fits req) cands \<longrightarrow> fits req x) \<longrightarrow> \<not> rank_lt env req ctx n x)"
  using assms(1,2)
proof (rule place_cases)
  fix cs
  assume c: "live_candidates env req ctx nodes now None = Inr cs"
    "cs \<noteq> [] \<Longrightarrow> \<exists>n\<in>set (placement_pool req cs). i = ns_node_id n \<and> (\<forall>x\<in>set (placement_pool req cs). \<not> rank_lt env req ctx n x)"
  have "cs = cands" using c(1) assms(3) by simp
  moreover have "list_ex (fits req) cands \<longleftrightarrow> filter (fits req) cands \<noteq> []"
    by (auto simp: list_ex_iff filter_empty_conv)
  ultimately show ?thesis
    using c(2) assms(4) by (auto simp: placement_pool_def split: if_splits)
qed

theorem place_takes_best_witness:
  "\<exists>n\<in>set [sample_node ''a'' 2, sample_node ''b'' 8]. ns_node_id n = ''b'' \<and> fits sample_req n"
  using place_takes_best [OF sample_place sample_req_fields(2) sample_candidates] by (auto simp: sample_fits)

text \<open>
  Rendezvous hashing moves as few keys as possible. The winner has the highest score of the ids, removing
  any other ids keeps it, and adding an id at any position either keeps it or makes the new id win,
  also when scores collide.
\<close>

theorem hrw_minimal_disruption:
  "(case hrw_winner key ids of None \<Rightarrow> ids = []
    | Some w \<Rightarrow> w \<in> set ids \<and> list_all (\<lambda>i. hrw_score key i \<le> hrw_score key w) ids \<and>
        hrw_winner key (filter (\<lambda>i. P i \<or> i = w) ids) = Some w) \<and>
   hrw_winner key (xs @ x # ys) \<in> {hrw_winner key (xs @ ys), Some x}"
proof (intro conjI)
  show "case hrw_winner key ids of None \<Rightarrow> ids = []
    | Some w \<Rightarrow> w \<in> set ids \<and> list_all (\<lambda>i. hrw_score key i \<le> hrw_score key w) ids \<and>
        hrw_winner key (filter (\<lambda>i. P i \<or> i = w) ids) = Some w"
    using hrw_winner_nonempty [of ids key]
    by (cases "ids = []") (auto split: option.split simp: list_all_iff hrw_winner_filter dest: hrw_winner_Some)
  show "hrw_winner key (xs @ x # ys) \<in> {hrw_winner key (xs @ ys), Some x}"
    using hrw_winner_insert [of key xs x ys] by auto
qed

lemma worker_before_negtrans:
  "\<not> worker_before rid hints b a \<Longrightarrow> \<not> worker_before rid hints c b \<Longrightarrow> \<not> worker_before rid hints c a"
  by (auto simp: worker_before_def not_less)

lemma worker_before_asym: "worker_before rid hints a b \<Longrightarrow> \<not> worker_before rid hints b a"
  by (auto simp: worker_before_def)

text \<open>
  A function worker is placed on a node that meets its contract. Placement fails exactly when no node has the required
  architecture and respects the spread; otherwise it returns such a node, and none of the
  others precedes it by affinity, locality, capacity and rendezvous score.
\<close>

theorem place_function_worker_contract:
  "case place_function_worker rid spread hints nodes of
     Inl _ \<Rightarrow> list_all (\<lambda>n. \<not> (worker_arch_ok hints n \<and> spread_ok spread hints n)) nodes
   | Inr i \<Rightarrow> \<exists>n\<in>set nodes. ns_node_id n = i \<and> worker_arch_ok hints n \<and> spread_ok spread hints n \<and>
       list_all (\<lambda>x. \<not> worker_before rid hints x n) (filter (\<lambda>n. worker_arch_ok hints n \<and> spread_ok spread hints n) nodes)"
proof -
  let ?xs = "filter (spread_ok spread hints) (filter (worker_arch_ok hints) nodes)"
  let ?s = "sort_by (worker_before rid hints) ?xs"
  have sorted: "sorted_wrt (\<lambda>a b. \<not> worker_before rid hints b a) ?s"
    by (rule sort_by_sorted) (erule (1) worker_before_negtrans, erule worker_before_asym)
  have set: "set ?s = set ?xs" by simp
  show ?thesis
  proof (cases ?s)
    case Nil
    then have "set ?xs = {}" using set by simp
    then show ?thesis using Nil by (auto simp: place_function_worker_def list_all_iff)
  next
    case (Cons n ns)
    then have n: "n \<in> set nodes" "worker_arch_ok hints n" "spread_ok spread hints n"
      using set by (auto simp del: sort_by_set)
    have "\<not> worker_before rid hints x n" if "x \<in> set ?xs" for x
    proof -
      have "x \<in> set (n # ns)" using that unfolding set [symmetric] Cons by simp
      then show ?thesis using sorted worker_before_asym [of rid hints n n] unfolding Cons by auto
    qed
    then have "list_all (\<lambda>x. \<not> worker_before rid hints x n) (filter (\<lambda>n. worker_arch_ok hints n \<and> spread_ok spread hints n) nodes)"
      by (simp add: list_all_iff)
    moreover have "place_function_worker rid spread hints nodes = Inr (ns_node_id n)"
      using Cons by (simp add: place_function_worker_def)
    ultimately show ?thesis using n by auto
  qed
qed

text \<open>
  The eight-byte hash processes its input as numbered 128-byte blocks: all but the last are full
  and carry the bytes hashed so far as counter, the last is padded with zeros and flagged.
\<close>

theorem blake2b_block_schedule:
  "blake2b_8 input = le_bytes 8 (unat (blake2b_reference input ! 0))"
  by (rule blake2b_8_reference)

end
