(* ===== verification/BusAccess.thy ===== *)
theory BusAccess
  imports Prelude
begin

unbundle bit_operations_syntax

text \<open>
  What every emulated device of \<^verbatim>\<open>vmm/src\<close> shares: a guest access is an offset and a byte buffer
  (\<^verbatim>\<open>BusDevice::read\<close> and \<^verbatim>\<open>BusDevice::write\<close>), and 32-bit registers are read from and written to
  such buffers in little-endian order, truncated or padded to four bytes.
\<close>

definition word_bytes :: "u32 \<Rightarrow> bytes" where
  "word_bytes v = le_bytes 4 (unat v)"

definition bytes_word :: "bytes \<Rightarrow> u32" where
  "bytes_word bs = word_of_nat (le_val bs)"

text \<open>\<open>copy_prefix dst src\<close>: \<^verbatim>\<open>dst[..len].copy_from_slice(&src[..len])\<close> for the smaller length.\<close>

definition copy_prefix :: "bytes \<Rightarrow> bytes \<Rightarrow> bytes" where
  "copy_prefix dst src = (let len = min (length dst) (length src) in take len src @ drop len dst)"

definition read_le :: "bytes \<Rightarrow> u32" where
  "read_le data = bytes_word (copy_prefix (replicate 4 0) data)"

definition write_le :: "u32 \<Rightarrow> bytes \<Rightarrow> bytes" where
  "write_le value data = copy_prefix data (word_bytes value)"

lemma length_copy_prefix [simp]: "length (copy_prefix dst src) = length dst"
  by (simp add: copy_prefix_def Let_def)

lemma length_word_bytes [simp]: "length (word_bytes v) = 4"
  by (simp add: word_bytes_def)

lemma bytes_word_bytes [simp]: "bytes_word (word_bytes v) = v"
proof -
  have "unat v < 256 ^ 4" using unsigned_less [of v] by simp
  then show ?thesis by (simp add: bytes_word_def word_bytes_def le_val_le_bytes_id)
qed

lemma word_bytes_word: "length bs = 4 \<Longrightarrow> word_bytes (bytes_word bs) = bs"
proof -
  assume len: "length bs = 4"
  then have "le_val bs < 2 ^ 32" using le_val_less [of bs] by simp
  then have "unat (bytes_word bs) = le_val bs" by (simp add: bytes_word_def unat_of_nat)
  then show ?thesis using le_bytes_le_val [OF len] by (simp add: word_bytes_def)
qed

lemma read_le_word_bytes [simp]: "read_le (word_bytes v) = v"
  by (simp add: read_le_def copy_prefix_def)

lemma read_le_write_le: "length data = 4 \<Longrightarrow> read_le (write_le v data) = v"
  by (simp add: write_le_def read_le_def copy_prefix_def)

lemma write_le_word_bytes: "length data = 4 \<Longrightarrow> write_le v data = word_bytes v"
  by (simp add: write_le_def copy_prefix_def)

section \<open>Halves of a 64-bit register\<close>

definition lo32 :: "u64 \<Rightarrow> u32" where "lo32 v = ucast v"
definition hi32 :: "u64 \<Rightarrow> u32" where "hi32 v = ucast (drop_bit 32 v)"

definition set_lo32 :: "u32 \<Rightarrow> u64 \<Rightarrow> u64" where
  "set_lo32 value current = (current AND NOT 0xffffffff) OR ucast value"

definition set_hi32 :: "u32 \<Rightarrow> u64 \<Rightarrow> u64" where
  "set_hi32 value current = (current AND 0xffffffff) OR push_bit 32 (ucast value)"

lemma low_mask_u64: "(0xffffffff :: u64) = mask 32"
  by (simp add: mask_eq_exp_minus_1)

lemma lo32_set_lo32 [simp]: "lo32 (set_lo32 v c) = v"
  unfolding lo32_def set_lo32_def low_mask_u64 by (rule bit_word_eqI) (auto simp: bit_simps)

lemma hi32_set_lo32 [simp]: "hi32 (set_lo32 v c) = hi32 c"
  unfolding hi32_def set_lo32_def low_mask_u64 by (rule bit_word_eqI) (auto simp: bit_simps dest: bit_imp_le_length)

lemma hi32_set_hi32 [simp]: "hi32 (set_hi32 v c) = v"
  unfolding hi32_def set_hi32_def low_mask_u64 by (rule bit_word_eqI) (auto simp: bit_simps)

lemma lo32_set_hi32 [simp]: "lo32 (set_hi32 v c) = lo32 c"
  unfolding lo32_def set_hi32_def low_mask_u64 by (rule bit_word_eqI) (auto simp: bit_simps)

lemma halves_eq: "lo32 a = lo32 b \<Longrightarrow> hi32 a = hi32 b \<Longrightarrow> a = b"
proof (rule bit_word_eqI)
  fix n assume lo: "lo32 a = lo32 b" and hi: "hi32 a = hi32 b" and n: "n < LENGTH(64)"
  show "bit a n = bit b n"
  proof (cases "n < 32")
    case True
    then show ?thesis using arg_cong [OF lo, of "\<lambda>w. bit w n"] by (simp add: lo32_def bit_simps)
  next
    case False
    moreover have "n - 32 < 32" using n by simp
    ultimately show ?thesis using n arg_cong [OF hi, of "\<lambda>w. bit w (n - 32)"] by (simp add: hi32_def bit_simps)
  qed
qed

end
