(* ===== verification/IoApic.thy ===== *)
theory IoApic
  imports BusAccess
begin

unbundle bit_operations_syntax

text \<open>
  The userspace IOAPIC of the Windows hypervisor backend, \<^verbatim>\<open>vmm/src/hv/whp/ioapic.rs\<close>: the selector and
  window registers, 24 redirection entries of 64 bits accessed in 32-bit halves, the decision
  which interrupt a pin injects, and the snapshot of the register file. The abstract
  specification is a table from pins to 64-bit entries; guest accesses through the
  selector and window refine it.
\<close>

section \<open>State\<close>

definition IOAPIC_REG_ID :: u32 where "IOAPIC_REG_ID = 0x00"
definition IOAPIC_REG_VER :: u32 where "IOAPIC_REG_VER = 0x01"
definition IOAPIC_REG_REDIR_BASE :: u32 where "IOAPIC_REG_REDIR_BASE = 0x10"
definition IOAPIC_REDIRECTION_ENTRIES :: nat where "IOAPIC_REDIRECTION_ENTRIES = 24"
definition IOAPIC_REGSEL :: u64 where "IOAPIC_REGSEL = 0x00"
definition IOAPIC_WINDOW :: u64 where "IOAPIC_WINDOW = 0x10"
definition REDIR_MASKED :: u64 where "REDIR_MASKED = push_bit 16 1"

lemmas ioapic_consts = IOAPIC_REG_ID_def IOAPIC_REG_VER_def IOAPIC_REG_REDIR_BASE_def IOAPIC_REGSEL_def IOAPIC_WINDOW_def

record ioapic =
  io_selector :: u32
  io_id :: u8
  io_redirection :: "u64 list"

definition ioapic_new :: ioapic where
  "ioapic_new = \<lparr>io_selector = 0, io_id = 0, io_redirection = replicate IOAPIC_REDIRECTION_ENTRIES REDIR_MASKED\<rparr>"

definition pin_count :: u32 where
  "pin_count = word_of_nat IOAPIC_REDIRECTION_ENTRIES"

definition supports_gsi :: "u32 \<Rightarrow> bool" where
  "supports_gsi gsi \<longleftrightarrow> gsi < pin_count"

section \<open>Injection\<close>

datatype whv_interrupt_type = Fixed | LowestPriority | Nmi | Init | Sipi

datatype ioapic_error = GsiOutOfRange | NoVector | UnsupportedDeliveryMode | InjectFailed | SnapshotLength

record whv_interrupt =
  wi_type :: whv_interrupt_type
  wi_logical :: bool
  wi_level :: bool
  wi_destination :: u32
  wi_vector :: u32

definition interrupt_type :: "u8 \<Rightarrow> ioapic_error + whv_interrupt_type" where
  "interrupt_type delivery_mode =
     (if delivery_mode = 0 then Inr Fixed else if delivery_mode = 1 then Inr LowestPriority
      else if delivery_mode = 4 then Inr Nmi else if delivery_mode = 5 then Inr Init
      else if delivery_mode = 6 then Inr Sipi else Inl UnsupportedDeliveryMode)"

text \<open>\<open>request_interrupt\<close> is the hypervisor call; it reports whether the injection succeeded.\<close>

definition ioapic_trigger :: "(whv_interrupt \<Rightarrow> bool) \<Rightarrow> u32 \<Rightarrow> ioapic \<Rightarrow> (ioapic_error + unit) \<times> whv_interrupt list" where
  "ioapic_trigger request_interrupt gsi st =
     (if unat gsi < length (io_redirection st) then
        let entry = io_redirection st ! unat gsi in
        if entry AND REDIR_MASKED \<noteq> 0 then (Inr (), [])
        else let vector = ucast (entry AND 0xff) :: u32 in
        if vector = 0 then (Inl NoVector, [])
        else let delivery_mode = ucast (drop_bit 8 entry AND 0x7) :: u8;
                 destination_mode = ucast (drop_bit 11 entry AND 0x1) :: u8;
                 trigger_mode = ucast (drop_bit 15 entry AND 0x1) :: u8;
                 destination = ucast (drop_bit 56 entry AND 0xff) :: u32
        in case interrupt_type delivery_mode of
             Inl e \<Rightarrow> (Inl e, [])
           | Inr ty \<Rightarrow>
               let interrupt = \<lparr>wi_type = ty, wi_logical = (destination_mode = 1), wi_level = (trigger_mode = 1),
                                wi_destination = destination, wi_vector = vector\<rparr>
               in (if request_interrupt interrupt then Inr () else Inl InjectFailed, [interrupt])
      else (Inl GsiOutOfRange, []))"

section \<open>Registers\<close>

definition ioapic_read_reg :: "ioapic \<Rightarrow> u32 \<Rightarrow> u32" where
  "ioapic_read_reg st reg =
     (if reg = IOAPIC_REG_ID then push_bit 24 (ucast (io_id st))
      else if reg = IOAPIC_REG_VER then 0x11 OR push_bit 16 (word_of_nat (IOAPIC_REDIRECTION_ENTRIES - 1))
      else if reg \<ge> IOAPIC_REG_REDIR_BASE then
        let offset = reg - IOAPIC_REG_REDIR_BASE; index = unat (offset div 2) in
        if index \<ge> IOAPIC_REDIRECTION_ENTRIES then 0
        else let entry = io_redirection st ! index in
             if offset AND 1 = 0 then ucast entry else ucast (drop_bit 32 entry)
      else 0)"

definition ioapic_write_reg :: "u32 \<Rightarrow> u32 \<Rightarrow> ioapic \<Rightarrow> ioapic" where
  "ioapic_write_reg reg value st =
     (if reg = IOAPIC_REG_ID then st\<lparr>io_id := ucast (drop_bit 24 value AND 0x0f)\<rparr>
      else if reg \<ge> IOAPIC_REG_REDIR_BASE then
        let offset = reg - IOAPIC_REG_REDIR_BASE; index = unat (offset div 2) in
        if index \<ge> IOAPIC_REDIRECTION_ENTRIES then st
        else let current = io_redirection st ! index;
                 entry = (if offset AND 1 = 0 then (current AND NOT 0xffffffff) OR ucast value
                          else (current AND 0xffffffff) OR push_bit 32 (ucast value))
             in st\<lparr>io_redirection := (io_redirection st)[index := entry]\<rparr>
      else st)"

definition ioapic_read :: "u64 \<Rightarrow> bytes \<Rightarrow> ioapic \<Rightarrow> bytes" where
  "ioapic_read offset data st =
     (let value = (if offset = IOAPIC_REGSEL then io_selector st
                   else if offset = IOAPIC_WINDOW then ioapic_read_reg st (io_selector st) else 0)
      in copy_prefix (replicate (length data) 0) (word_bytes value))"

definition ioapic_write :: "u64 \<Rightarrow> bytes \<Rightarrow> ioapic \<Rightarrow> ioapic" where
  "ioapic_write offset data st =
     (let value = bytes_word (copy_prefix (replicate 4 0) data)
      in if offset = IOAPIC_REGSEL then st\<lparr>io_selector := value AND 0xff\<rparr>
         else if offset = IOAPIC_WINDOW then ioapic_write_reg (io_selector st) value st
         else st)"

section \<open>Snapshots\<close>

record ioapic_state =
  is_selector :: u32
  is_id :: u8
  is_redirection :: "u64 list"

definition ioapic_save_state :: "ioapic \<Rightarrow> ioapic_state" where
  "ioapic_save_state st = \<lparr>is_selector = io_selector st, is_id = io_id st, is_redirection = io_redirection st\<rparr>"

definition ioapic_restore_state :: "ioapic_state \<Rightarrow> ioapic \<Rightarrow> ioapic \<times> (ioapic_error + unit)" where
  "ioapic_restore_state state st =
     (if length (is_redirection state) \<noteq> IOAPIC_REDIRECTION_ENTRIES then (st, Inl SnapshotLength)
      else (st\<lparr>io_selector := is_selector state, io_id := is_id state, io_redirection := is_redirection state\<rparr>, Inr ()))"

section \<open>The abstract pin table\<close>

text \<open>
  The specification: a selector, an identifier and one pair of 32-bit halves (high, low) per pin.
  Register numbers are natural numbers; register \<open>16 + 2 p\<close> is the low half of pin \<open>p\<close>.
\<close>

record ioapic_spec =
  sp_selector :: nat
  sp_id :: nat
  sp_table :: "nat \<Rightarrow> u32 \<times> u32"

definition spec_write_reg :: "nat \<Rightarrow> u32 \<Rightarrow> ioapic_spec \<Rightarrow> ioapic_spec" where
  "spec_write_reg r v s =
     (if r = 0 then s\<lparr>sp_id := unat v div 2 ^ 24 mod 16\<rparr>
      else if 16 \<le> r \<and> r < 64
      then let p = (r - 16) div 2 in s\<lparr>sp_table := (sp_table s)(p := if even r then (fst (sp_table s p), v) else (v, snd (sp_table s p)))\<rparr>
      else s)"

definition spec_read_reg :: "nat \<Rightarrow> ioapic_spec \<Rightarrow> u32" where
  "spec_read_reg r s =
     (if r = 0 then word_of_nat (sp_id s * 2 ^ 24)
      else if r = 1 then 0x170011
      else if 16 \<le> r \<and> r < 64 then (if even r then snd else fst) (sp_table s ((r - 16) div 2))
      else 0)"

definition spec_write :: "u64 \<Rightarrow> u32 \<Rightarrow> ioapic_spec \<Rightarrow> ioapic_spec" where
  "spec_write offset v s =
     (if offset = 0 then s\<lparr>sp_selector := unat v mod 256\<rparr>
      else if offset = 16 then spec_write_reg (sp_selector s) v s else s)"

definition spec_read :: "u64 \<Rightarrow> ioapic_spec \<Rightarrow> u32" where
  "spec_read offset s =
     (if offset = 0 then word_of_nat (sp_selector s) else if offset = 16 then spec_read_reg (sp_selector s) s else 0)"

definition ioapic_abs :: "ioapic \<Rightarrow> ioapic_spec" where
  "ioapic_abs st = \<lparr>sp_selector = unat (io_selector st), sp_id = unat (io_id st),
     sp_table = (\<lambda>p. if p < 24 then (hi32 (io_redirection st ! p), lo32 (io_redirection st ! p)) else (0, 0))\<rparr>"

definition ioapic_wf :: "ioapic \<Rightarrow> bool" where
  "ioapic_wf st \<longleftrightarrow> length (io_redirection st) = 24 \<and> unat (io_selector st) < 256 \<and> unat (io_id st) < 16"

lemma redir_index:
  assumes "16 \<le> unat r" "unat r < 256"
  shows "unat ((r - 16 :: u32) div 2) = (unat r - 16) div 2" "(r - 16) AND 1 = 0 \<longleftrightarrow> even (unat r)"
proof -
  have ge: "16 \<le> r" using assms(1) by (simp add: word_le_nat_alt)
  then have sub: "unat (r - 16) = unat r - 16" by (simp add: unat_sub)
  then show "unat ((r - 16) div 2) = (unat r - 16) div 2" by (simp add: unat_div)
  have "(r - 16) AND 1 = 0 \<longleftrightarrow> \<not> bit (r - 16) 0" by (simp add: and_one_eq bit_0 even_iff_mod_2_eq_zero)
  also have "\<dots> \<longleftrightarrow> \<not> bit (unat (r - 16)) 0" by (simp only: bit_unsigned_iff) simp
  also have "\<dots> \<longleftrightarrow> even (unat (r - 16))" by (simp only: bit_0 not_not)
  finally show "(r - 16) AND 1 = 0 \<longleftrightarrow> even (unat r)" using assms(1) by (simp add: sub)
qed

lemma reg_cases:
  fixes r :: u32
  shows "r = 0 \<longleftrightarrow> unat r = 0" "r = 1 \<longleftrightarrow> unat r = 1" "16 \<le> r \<longleftrightarrow> 16 \<le> unat r"
  subgoal by (simp add: unat_eq_0)
  subgoal by (metis unsigned_1 unsigned_word_eqI)
  subgoal by (simp add: word_le_nat_alt)
  done

lemma id_field: "unat (ucast (drop_bit 24 (v :: u32) AND 0x0f) :: u8) = unat v div 2 ^ 24 mod 16"
proof -
  have "drop_bit 24 v AND 0x0f = take_bit 4 (drop_bit 24 v)" by (simp add: take_bit_eq_mask mask_eq_exp_minus_1)
  moreover have "take_bit 32 (unat v) = unat v" by (simp add: take_bit_nat_eq_self unsigned_less [of v, simplified])
  ultimately have "unat (ucast (drop_bit 24 v AND 0x0f) :: u8) = take_bit 8 (take_bit 4 (drop_bit 24 (unat v)))"
    by (simp add: unsigned_ucast_eq unsigned_take_bit_eq unsigned_drop_bit_eq)
  then show ?thesis by (simp add: take_bit_eq_mod drop_bit_eq_div mod_mod_cancel)
qed

lemma id_register: "push_bit 24 (ucast (i :: u8) :: u32) = word_of_nat (unat i * 2 ^ 24)"
  by (simp add: push_bit_eq_mult unsigned_of_nat)

lemma write_reg_refines:
  assumes "ioapic_wf st" "unat r < 256"
  shows "ioapic_abs (ioapic_write_reg r v st) = spec_write_reg (unat r) v (ioapic_abs st)"
proof -
  have wf: "length (io_redirection st) = 24" using assms by (simp add: ioapic_wf_def)
  consider "unat r = 0" | "16 \<le> unat r" "unat r < 64" | "0 < unat r" "unat r < 16" | "64 \<le> unat r" by linarith
  then show ?thesis
  proof cases
    case 2
    note idx = redir_index [OF 2(1) assms(2)]
    define p where "p = (unat r - 16) div 2"
    have p: "p < 24" "\<not> 24 \<le> p" using 2 by (auto simp: p_def)
    let ?e = "io_redirection st ! p"
    let ?new = "if even (unat r) then set_lo32 v ?e else set_hi32 v ?e"
    have "ioapic_write_reg r v st = st\<lparr>io_redirection := (io_redirection st)[p := ?new]\<rparr>"
      using 2 p idx by (simp add: ioapic_write_reg_def ioapic_consts reg_cases Let_def IOAPIC_REDIRECTION_ENTRIES_def
          set_lo32_def set_hi32_def p_def [symmetric])
    moreover have "spec_write_reg (unat r) v (ioapic_abs st) = (ioapic_abs st)\<lparr>sp_table := (sp_table (ioapic_abs st))(p := (hi32 ?new, lo32 ?new))\<rparr>"
      using 2 p by (auto simp: spec_write_reg_def ioapic_abs_def Let_def p_def [symmetric])
    ultimately show ?thesis using wf p by (auto simp: ioapic_abs_def fun_eq_iff nth_list_update)
  next
    case 4
    then have "\<not> (unat r - 16) div 2 < 24" "16 \<le> unat r" by auto
    then show ?thesis using 4 redir_index [of r] assms(2)
      by (simp add: ioapic_write_reg_def spec_write_reg_def ioapic_consts reg_cases Let_def IOAPIC_REDIRECTION_ENTRIES_def)
  qed (simp_all add: ioapic_write_reg_def spec_write_reg_def ioapic_consts reg_cases ioapic_abs_def id_field cong: if_cong)
qed

lemma read_reg_refines:
  assumes "ioapic_wf st" "unat r < 256"
  shows "ioapic_read_reg st r = spec_read_reg (unat r) (ioapic_abs st)"
proof -
  consider "unat r = 0" | "unat r = 1" | "16 \<le> unat r" "unat r < 64" | "1 < unat r" "unat r < 16" | "64 \<le> unat r" by linarith
  then show ?thesis
  proof cases
    case 3
    note idx = redir_index [OF 3(1) assms(2)]
    define p where "p = (unat r - 16) div 2"
    have "p < 24" "\<not> 24 \<le> p" using 3 by (auto simp: p_def)
    then show ?thesis using 3 idx
      by (simp add: ioapic_read_reg_def spec_read_reg_def ioapic_abs_def ioapic_consts reg_cases Let_def
          IOAPIC_REDIRECTION_ENTRIES_def lo32_def hi32_def p_def [symmetric])
  next
    case 5
    then have "\<not> (unat r - 16) div 2 < 24" "16 \<le> unat r" by auto
    then show ?thesis using 5 redir_index [of r] assms(2)
      by (simp add: ioapic_read_reg_def spec_read_reg_def ioapic_consts reg_cases Let_def IOAPIC_REDIRECTION_ENTRIES_def)
  qed (simp_all add: ioapic_read_reg_def spec_read_reg_def ioapic_consts reg_cases ioapic_abs_def id_register IOAPIC_REDIRECTION_ENTRIES_def)
qed

lemma write_reg_wf: "ioapic_wf st \<Longrightarrow> ioapic_wf (ioapic_write_reg r v st)"
  by (simp add: ioapic_wf_def ioapic_write_reg_def Let_def id_field del: unsigned_and_eq unsigned_drop_bit_eq)

lemma selector_mask: "unat ((v :: u32) AND 0xff) = unat v mod 256"
proof -
  have "v AND 0xff = take_bit 8 v" by (simp add: take_bit_eq_mask mask_eq_exp_minus_1)
  then have "unat (v AND 0xff) = take_bit 8 (unat v)" by (simp only: unsigned_take_bit_eq)
  then show ?thesis by (simp add: take_bit_eq_mod)
qed

lemma write_wf: "ioapic_wf st \<Longrightarrow> ioapic_wf (ioapic_write off data st)"
  using write_reg_wf by (auto simp: ioapic_write_def Let_def ioapic_wf_def selector_mask)

lemma abs_set_selector: "ioapic_abs (st\<lparr>io_selector := s\<rparr>) = (ioapic_abs st)\<lparr>sp_selector := unat s\<rparr>"
  by (simp add: ioapic_abs_def cong: if_cong)

lemma write_refines:
  assumes "ioapic_wf st"
  shows "ioapic_abs (ioapic_write off data st) = spec_write off (read_le data) (ioapic_abs st)"
proof -
  have "unat (io_selector st) < 256" "sp_selector (ioapic_abs st) = unat (io_selector st)"
    using assms by (simp_all add: ioapic_wf_def ioapic_abs_def)
  then show ?thesis
    using write_reg_refines [OF assms, of "io_selector st" "read_le data"]
    by (simp add: ioapic_write_def spec_write_def Let_def ioapic_consts read_le_def [symmetric] abs_set_selector selector_mask)
qed

lemma read_refines:
  assumes "ioapic_wf st"
  shows "ioapic_read off data st = copy_prefix (replicate (length data) 0) (word_bytes (spec_read off (ioapic_abs st)))"
proof -
  have "unat (io_selector st) < 256" "sp_selector (ioapic_abs st) = unat (io_selector st)"
    using assms by (simp_all add: ioapic_wf_def ioapic_abs_def)
  then show ?thesis
    using read_reg_refines [OF assms, of "io_selector st"]
    by (simp add: ioapic_read_def spec_read_def Let_def ioapic_consts)
qed

lemma new_wf: "ioapic_wf ioapic_new"
  by (simp add: ioapic_wf_def ioapic_new_def IOAPIC_REDIRECTION_ENTRIES_def)

lemma restore_saved: "ioapic_wf st \<Longrightarrow> ioapic_restore_state (ioapic_save_state st) st' = (st, Inr ())"
  by (simp add: ioapic_restore_state_def ioapic_save_state_def ioapic_wf_def IOAPIC_REDIRECTION_ENTRIES_def)

text \<open>Guest writes, and migrations of the snapshot into a new IOAPIC.\<close>

datatype ioapic_event = IoWrite u64 bytes | IoMigrate

fun ioapic_step :: "ioapic_event \<Rightarrow> ioapic \<Rightarrow> ioapic" where
  "ioapic_step (IoWrite off data) st = ioapic_write off data st"
| "ioapic_step IoMigrate st = fst (ioapic_restore_state (ioapic_save_state st) ioapic_new)"

fun spec_step :: "ioapic_event \<Rightarrow> ioapic_spec \<Rightarrow> ioapic_spec" where
  "spec_step (IoWrite off data) s = spec_write off (read_le data) s"
| "spec_step IoMigrate s = s"

lemma run_refines:
  "ioapic_wf st \<Longrightarrow> ioapic_wf (fold ioapic_step es st) \<and> ioapic_abs (fold ioapic_step es st) = fold spec_step es (ioapic_abs st)"
proof (induction es arbitrary: st)
  case (Cons e es)
  have "ioapic_wf (ioapic_step e st) \<and> ioapic_abs (ioapic_step e st) = spec_step e (ioapic_abs st)"
    using Cons.prems by (cases e) (simp_all add: write_wf write_refines restore_saved)
  then show ?case using Cons.IH by simp
qed simp

section \<open>Properties\<close>

text \<open>
  C18: The IOAPIC implements a table of 24 pins. After any sequence of guest writes and snapshot migrations its registers
  represent the abstract table that the same writes produce, its state stays
  well-formed, and every guest read returns the abstract register, little-endian and
  truncated or zero-extended to the buffer.
\<close>

theorem ioapic_refines_table:
  "ioapic_wf (fold ioapic_step es ioapic_new) \<and>
   ioapic_abs (fold ioapic_step es ioapic_new) = fold spec_step es (ioapic_abs ioapic_new) \<and>
   ioapic_read off data (fold ioapic_step es ioapic_new) =
     copy_prefix (replicate (length data) 0) (word_bytes (spec_read off (fold spec_step es (ioapic_abs ioapic_new))))"
  using run_refines [OF new_wf, of es] read_refines by simp

text \<open>The four writes with which a guest programs one pin.\<close>

definition program_pin :: "u32 \<Rightarrow> u32 \<Rightarrow> u32 \<Rightarrow> ioapic \<Rightarrow> ioapic" where
  "program_pin gsi hi lo = fold (\<lambda>(off, v). ioapic_write off (word_bytes v))
     [(0, 0x11 + 2 * gsi), (0x10, hi), (0, 0x10 + 2 * gsi), (0x10, lo)]"

lemma pin_registers:
  assumes "unat (gsi :: u32) < 24"
  shows "unat (0x11 + 2 * gsi) = 17 + 2 * unat gsi" "unat (0x10 + 2 * gsi) = 16 + 2 * unat gsi"
  using assms by (simp_all add: unat_add_lem [THEN iffD1] unat_mult_lem [THEN iffD1])

lemma program_pin_table:
  assumes "ioapic_wf st" "unat gsi < 24"
  shows "ioapic_wf (program_pin gsi hi lo st)"
    "sp_table (ioapic_abs (program_pin gsi hi lo st)) = (sp_table (ioapic_abs st))(unat gsi := (hi, lo))"
proof -
  define p where "p = unat gsi"
  have p: "p < 24" using assms by (simp add: p_def)
  let ?es = "map (\<lambda>(off, v). IoWrite off (word_bytes v)) [(0, 0x11 + 2 * gsi), (0x10, hi), (0, 0x10 + 2 * gsi), (0x10, lo)]"
  have run: "program_pin gsi hi lo st = fold ioapic_step ?es st" by (simp add: program_pin_def)
  show "ioapic_wf (program_pin gsi hi lo st)" unfolding run by (rule run_refines [OF assms(1), THEN conjunct1])
  have "ioapic_abs (program_pin gsi hi lo st) = fold spec_step ?es (ioapic_abs st)"
    unfolding run by (rule run_refines [OF assms(1), THEN conjunct2])
  then show "sp_table (ioapic_abs (program_pin gsi hi lo st)) = (sp_table (ioapic_abs st))(unat gsi := (hi, lo))"
    using p pin_registers [OF assms(2)] unfolding p_def [symmetric]
    by (auto simp: spec_write_def spec_write_reg_def Let_def fun_eq_iff)
qed

text \<open>What pin state (high, low) injects.\<close>

definition pin_interrupt :: "u32 \<times> u32 \<Rightarrow> ioapic_error + whv_interrupt option" where
  "pin_interrupt e = (case e of (hi, lo) \<Rightarrow>
     if bit lo 16 then Inr None
     else if lo AND 0xff = 0 then Inl NoVector
     else case interrupt_type (ucast (drop_bit 8 lo AND 0x7)) of
       Inl err \<Rightarrow> Inl err
     | Inr ty \<Rightarrow> Inr (Some \<lparr>wi_type = ty, wi_logical = bit lo 11, wi_level = bit lo 15,
         wi_destination = drop_bit 24 hi, wi_vector = lo AND 0xff\<rparr>))"

lemma field_masks:
  "(0xff :: 'a :: len word) = mask 8" "(0x7 :: 'a word) = mask 3" "(1 :: 'a word) = mask 1"
  by (simp_all add: mask_eq_exp_minus_1)

lemma bit_flag: "(ucast (drop_bit n (e :: u64) AND 1) :: u8) = 1 \<longleftrightarrow> bit e n"
  by (simp add: and_one_eq bit_iff_odd_drop_bit mod_2_eq_odd)

lemma entry_fields:
  fixes e :: u64
  shows "e AND REDIR_MASKED = 0 \<longleftrightarrow> \<not> bit (lo32 e) 16"
    "(ucast (e AND 0xff) :: u32) = lo32 e AND 0xff"
    "(ucast (drop_bit 8 e AND 0x7) :: u8) = ucast (drop_bit 8 (lo32 e) AND 0x7)"
    "(ucast (drop_bit 56 e AND 0xff) :: u32) = drop_bit 24 (hi32 e)"
  subgoal unfolding REDIR_MASKED_def push_bit_of_1 and_exp_eq_0_iff_not_bit by (simp add: lo32_def bit_simps)
  subgoal unfolding field_masks lo32_def by (rule bit_word_eqI) (auto simp: bit_simps)
  subgoal unfolding field_masks lo32_def by (rule bit_word_eqI) (auto simp: bit_simps)
  subgoal unfolding field_masks hi32_def by (rule bit_word_eqI) (auto simp: bit_simps)
  done

lemma trigger_pin:
  assumes "ioapic_wf st" "unat gsi < 24"
  shows "ioapic_trigger req gsi st = (case pin_interrupt (sp_table (ioapic_abs st) (unat gsi)) of
     Inl e \<Rightarrow> (Inl e, [])
   | Inr None \<Rightarrow> (Inr (), [])
   | Inr (Some w) \<Rightarrow> (if req w then Inr () else Inl InjectFailed, [w]))"
proof -
  define e where "e = io_redirection st ! unat gsi"
  have table: "sp_table (ioapic_abs st) (unat gsi) = (hi32 e, lo32 e)" using assms(2) by (simp add: ioapic_abs_def e_def)
  have "bit (lo32 e) 11 = bit e 11" "bit (lo32 e) 15 = bit e 15" by (simp_all add: lo32_def bit_simps)
  then show ?thesis
    unfolding ioapic_trigger_def pin_interrupt_def table Let_def e_def [symmetric] entry_fields(1,3,4)
    unfolding entry_fields(2) bit_flag
    using assms by (simp add: ioapic_wf_def split: sum.split)
qed

text \<open>
  A programmed pin injects what the guest programmed. After the four writes that store a high and a low half, triggering
  the pin requests exactly the interrupt those halves encode (none while masked, an error
  without vector or with a reserved delivery mode), and every other pin triggers as before.
\<close>

theorem ioapic_programmed_interrupt:
  assumes "ioapic_wf st" "unat gsi < 24" "unat other < 24" "other \<noteq> gsi"
  shows "ioapic_trigger req gsi (program_pin gsi hi lo st) = (case pin_interrupt (hi, lo) of
      Inl e \<Rightarrow> (Inl e, [])
    | Inr None \<Rightarrow> (Inr (), [])
    | Inr (Some w) \<Rightarrow> (if req w then Inr () else Inl InjectFailed, [w])) \<and>
    ioapic_trigger req other (program_pin gsi hi lo st) = ioapic_trigger req other st"
proof -
  have "unat other \<noteq> unat gsi" using assms(4) by (metis unsigned_word_eqI)
  then show ?thesis
    using assms by (simp add: trigger_pin program_pin_table)
qed

theorem ioapic_programmed_interrupt_witness:
  "ioapic_trigger (\<lambda>_. True) 4 (program_pin 4 0x02000000 0x8831 ioapic_new) =
     (Inr (), [\<lparr>wi_type = Fixed, wi_logical = True, wi_level = True, wi_destination = 2, wi_vector = 0x31\<rparr>])"
proof -
  have "pin_interrupt (0x02000000, 0x8831) = Inr (Some \<lparr>wi_type = Fixed, wi_logical = True, wi_level = True, wi_destination = 2, wi_vector = 0x31\<rparr>)"
    by code_simp
  then show ?thesis
    using ioapic_programmed_interrupt [OF new_wf, of 4 5 "\<lambda>_. True" "0x02000000" "0x8831"] by simp
qed

end
