(* ===== verification/PciRoot.thy ===== *)
theory PciRoot
  imports BusAccess
begin

unbundle bit_operations_syntax

text \<open>
  The PCI host bridge, \<^verbatim>\<open>vmm/src/devices/pci.rs\<close>: registration of functions on bus zero, configuration
  mechanism 1 (address and data ports), the memory-mapped ECAM window, and the dispatch of
  memory accesses to the functions' BARs. Functions are shared objects behind the trait
  \<^verbatim>\<open>PciFunction\<close>: their states live in a heap, the bridge and the dispatcher hold addresses, and
  the trait's methods are the argument \<open>ops\<close>. Reading may change a function's state.
\<close>

section \<open>Functions\<close>

record 'f pci_ops =
  po_read_config :: "nat \<Rightarrow> bytes \<Rightarrow> 'f \<Rightarrow> 'f \<times> bytes"
  po_write_config :: "nat \<Rightarrow> bytes \<Rightarrow> 'f \<Rightarrow> 'f"
  po_read_bar :: "u64 \<Rightarrow> bytes \<Rightarrow> 'f \<Rightarrow> 'f \<times> bytes \<times> bool"
  po_write_bar :: "u64 \<Rightarrow> bytes \<Rightarrow> 'f \<Rightarrow> 'f \<times> bool"

type_synonym 'f pci_heap = "nat \<Rightarrow> 'f"

record registered_function =
  rf_device :: u8
  rf_function :: u8
  rf_pci :: nat

record pci_root =
  pr_config_address :: u32
  pr_functions :: "registered_function list"

datatype pci_error = InvalidAddress | DuplicateAddress

definition pci_root_new :: pci_root where
  "pci_root_new = \<lparr>pr_config_address = 0, pr_functions = []\<rparr>"

definition pci_register :: "u8 \<Rightarrow> u8 \<Rightarrow> nat \<Rightarrow> pci_root \<Rightarrow> pci_root \<times> (pci_error + unit)" where
  "pci_register device function pci root =
     (if device \<ge> 32 \<or> function \<ge> 8 then (root, Inl InvalidAddress)
      else if list_ex (\<lambda>r. rf_device r = device \<and> rf_function r = function) (pr_functions root)
      then (root, Inl DuplicateAddress)
      else (root\<lparr>pr_functions := pr_functions root @ [\<lparr>rf_device = device, rf_function = function, rf_pci = pci\<rparr>]\<rparr>, Inr ()))"

definition find_function :: "u8 \<Rightarrow> u8 \<Rightarrow> pci_root \<Rightarrow> nat option" where
  "find_function device function root =
     map_option rf_pci (find (\<lambda>r. rf_device r = device \<and> rf_function r = function) (pr_functions root))"

section \<open>Configuration mechanism 1\<close>

definition pci_selected :: "pci_root \<Rightarrow> (nat \<times> nat) option" where
  "pci_selected root =
     (let a = pr_config_address root in
      if a AND 0x80000000 = 0 then None
      else let bus = ucast (drop_bit 16 a AND 0xff) :: u8 in
      if bus \<noteq> 0 then None
      else let device = ucast (drop_bit 11 a AND 0x1f) :: u8;
               function = ucast (drop_bit 8 a AND 0x07) :: u8;
               register = unat (a AND 0xfc)
           in map_option (Pair register) (find_function device function root))"

definition read_config_data :: "'f pci_ops \<Rightarrow> nat \<Rightarrow> bytes \<Rightarrow> pci_root \<Rightarrow> 'f pci_heap \<Rightarrow> 'f pci_heap \<times> bytes" where
  "read_config_data ops byte_offset data root h =
     (let data = replicate (length data) 0xff in
      case pci_selected root of
        None \<Rightarrow> (h, data)
      | Some (register, f) \<Rightarrow> (case po_read_config ops (register + byte_offset) data (h f) of (s, data') \<Rightarrow> (h(f := s), data')))"

definition write_config_data :: "'f pci_ops \<Rightarrow> nat \<Rightarrow> bytes \<Rightarrow> pci_root \<Rightarrow> 'f pci_heap \<Rightarrow> 'f pci_heap" where
  "write_config_data ops byte_offset data root h = (case pci_selected root of
     None \<Rightarrow> h | Some (register, f) \<Rightarrow> h(f := po_write_config ops (register + byte_offset) data (h f)))"

section \<open>ECAM\<close>

definition ecam_selected :: "u64 \<Rightarrow> pci_root \<Rightarrow> (nat \<times> nat) option" where
  "ecam_selected offset root =
     (let bus = ucast (drop_bit 20 offset AND 0xff) :: u8 in
      if bus \<noteq> 0 then None
      else let device = ucast (drop_bit 15 offset AND 0x1f) :: u8;
               function = ucast (drop_bit 12 offset AND 0x07) :: u8;
               register = unat (offset AND 0xfff)
           in map_option (Pair register) (find_function device function root))"

definition read_ecam :: "'f pci_ops \<Rightarrow> u64 \<Rightarrow> bytes \<Rightarrow> pci_root \<Rightarrow> 'f pci_heap \<Rightarrow> 'f pci_heap \<times> bytes" where
  "read_ecam ops offset data root h =
     (let data = replicate (length data) 0xff in
      case ecam_selected offset root of
        None \<Rightarrow> (h, data)
      | Some (register, f) \<Rightarrow> (case po_read_config ops register data (h f) of (s, data') \<Rightarrow> (h(f := s), data')))"

definition write_ecam :: "'f pci_ops \<Rightarrow> u64 \<Rightarrow> bytes \<Rightarrow> pci_root \<Rightarrow> 'f pci_heap \<Rightarrow> 'f pci_heap" where
  "write_ecam ops offset data root h = (case ecam_selected offset root of
     None \<Rightarrow> h | Some (register, f) \<Rightarrow> h(f := po_write_config ops register data (h f)))"

section \<open>Ports\<close>

definition copy_from :: "bytes \<Rightarrow> nat \<Rightarrow> bytes \<Rightarrow> u8 \<Rightarrow> bytes" where
  "copy_from source offset data fill =
     (let data = replicate (length data) fill in
      if offset \<le> length source then copy_prefix data (drop offset source) else data)"

definition overlay :: "bytes \<Rightarrow> nat \<Rightarrow> bytes \<Rightarrow> bytes" where
  "overlay destination offset data =
     (if offset \<le> length destination then take offset destination @ copy_prefix (drop offset destination) data
      else destination)"

definition pci_read :: "'f pci_ops \<Rightarrow> u64 \<Rightarrow> bytes \<Rightarrow> pci_root \<Rightarrow> 'f pci_heap \<Rightarrow> 'f pci_heap \<times> bytes" where
  "pci_read ops offset data root h =
     (if offset < 4 then (h, copy_from (word_bytes (pr_config_address root)) (unat offset) data 0)
      else if offset < 8 then read_config_data ops (unat (offset - 4)) data root h
      else (h, replicate (length data) 0xff))"

definition pci_write :: "'f pci_ops \<Rightarrow> u64 \<Rightarrow> bytes \<Rightarrow> pci_root \<Rightarrow> 'f pci_heap \<Rightarrow> pci_root \<times> 'f pci_heap" where
  "pci_write ops offset data root h =
     (if offset < 4
      then (root\<lparr>pr_config_address := bytes_word (overlay (word_bytes (pr_config_address root)) (unat offset) data)\<rparr>, h)
      else if offset < 8 then (root, write_config_data ops (unat (offset - 4)) data root h)
      else (root, h))"

section \<open>BAR dispatch\<close>

record pci_mmio =
  pm_aperture_base :: u64
  pm_functions :: "nat list"

definition pci_mmio_register :: "nat \<Rightarrow> pci_mmio \<Rightarrow> pci_mmio" where
  "pci_mmio_register f m = m\<lparr>pm_functions := pm_functions m @ [f]\<rparr>"

fun read_bars :: "'f pci_ops \<Rightarrow> u64 \<Rightarrow> nat list \<Rightarrow> bytes \<Rightarrow> 'f pci_heap \<Rightarrow> 'f pci_heap \<times> bytes" where
  "read_bars ops addr [] data h = (h, replicate (length data) 0xff)"
| "read_bars ops addr (f # fs) data h = (case po_read_bar ops addr data (h f) of
     (s, data', claimed) \<Rightarrow> if claimed then (h(f := s), data') else read_bars ops addr fs data' (h(f := s)))"

fun write_bars :: "'f pci_ops \<Rightarrow> u64 \<Rightarrow> nat list \<Rightarrow> bytes \<Rightarrow> 'f pci_heap \<Rightarrow> 'f pci_heap" where
  "write_bars ops addr [] data h = h"
| "write_bars ops addr (f # fs) data h = (case po_write_bar ops addr data (h f) of
     (s, claimed) \<Rightarrow> if claimed then h(f := s) else write_bars ops addr fs data (h(f := s)))"

definition pci_mmio_read :: "'f pci_ops \<Rightarrow> u64 \<Rightarrow> bytes \<Rightarrow> pci_mmio \<Rightarrow> 'f pci_heap \<Rightarrow> 'f pci_heap \<times> bytes" where
  "pci_mmio_read ops offset data m h =
     (case checked_add_u64 (unat (pm_aperture_base m)) (unat offset) of
        None \<Rightarrow> (h, replicate (length data) 0xff)
      | Some addr \<Rightarrow> read_bars ops (word_of_nat addr) (pm_functions m) data h)"

definition pci_mmio_write :: "'f pci_ops \<Rightarrow> u64 \<Rightarrow> bytes \<Rightarrow> pci_mmio \<Rightarrow> 'f pci_heap \<Rightarrow> 'f pci_heap" where
  "pci_mmio_write ops offset data m h =
     (case checked_add_u64 (unat (pm_aperture_base m)) (unat offset) of
        None \<Rightarrow> h
      | Some addr \<Rightarrow> write_bars ops (word_of_nat addr) (pm_functions m) data h)"

section \<open>Addresses\<close>

text \<open>
  A register of a function on bus zero: 5 bits of device, 3 of function, 6 of dword and 2 of byte
  in it. Both mechanisms encode it in their own way.
\<close>

definition legacy_address :: "5 word \<Rightarrow> 3 word \<Rightarrow> 6 word \<Rightarrow> u32" where
  "legacy_address dev fn dword = 0x80000000 OR push_bit 11 (ucast dev) OR push_bit 8 (ucast fn) OR push_bit 2 (ucast dword)"

definition ecam_address :: "5 word \<Rightarrow> 3 word \<Rightarrow> 6 word \<Rightarrow> 2 word \<Rightarrow> u64" where
  "ecam_address dev fn dword byte = push_bit 15 (ucast dev) OR push_bit 12 (ucast fn) OR push_bit 2 (ucast dword) OR ucast byte"

lemma address_masks:
  "(0x80000000 :: u32) = push_bit 31 1" "(0x1f :: 'a :: len word) = mask 5" "(0x07 :: 'a word) = mask 3" "(0xff :: 'a word) = mask 8"
  "(0xfff :: 'a word) = mask 12" "(0xfc :: 'a word) = push_bit 2 (mask 6)"
  by (simp_all add: mask_eq_exp_minus_1 push_bit_eq_mult)

lemma word_bit_short: "LENGTH('a) \<le> n \<Longrightarrow> \<not> bit (w :: 'a :: len word) n"
  using bit_imp_le_length by fastforce

lemma unat_ucast_up: "LENGTH('a) \<le> LENGTH('b) \<Longrightarrow> unat (ucast (w :: 'a :: len word) :: 'b :: len word) = unat w"
proof -
  assume "LENGTH('a) \<le> LENGTH('b)"
  then have "unat w < 2 ^ LENGTH('b)"
    using unsigned_less [of w, where 'a = nat] power_increasing [of "LENGTH('a)" "LENGTH('b)" "2 :: nat"] by linarith
  then show ?thesis by (simp add: unsigned_ucast_eq take_bit_nat_eq_self)
qed

lemma legacy_fields:
  "legacy_address dev fn dword AND 0x80000000 \<noteq> 0"
  "(ucast (drop_bit 16 (legacy_address dev fn dword) AND 0xff) :: u8) = 0"
  "(ucast (drop_bit 11 (legacy_address dev fn dword) AND 0x1f) :: u8) = ucast dev"
  "(ucast (drop_bit 8 (legacy_address dev fn dword) AND 0x07) :: u8) = ucast fn"
  "legacy_address dev fn dword AND 0xfc = push_bit 2 (ucast dword)"
  unfolding legacy_address_def address_masks
  subgoal unfolding push_bit_of_1 and_exp_eq_0_iff_not_bit by (simp add: bit_simps)
  subgoal by (rule bit_word_eqI) (auto simp: bit_simps word_bit_short simp del: push_bit_of_1 dest: bit_imp_le_length)
  subgoal by (rule bit_word_eqI) (auto simp: bit_simps word_bit_short simp del: push_bit_of_1 dest: bit_imp_le_length)
  subgoal by (rule bit_word_eqI) (auto simp: bit_simps word_bit_short simp del: push_bit_of_1 dest: bit_imp_le_length)
  subgoal by (rule bit_word_eqI) (auto simp: bit_simps word_bit_short simp del: push_bit_of_1 dest: bit_imp_le_length)
  done

lemma ecam_fields:
  "(ucast (drop_bit 20 (ecam_address dev fn dword byte) AND 0xff) :: u8) = 0"
  "(ucast (drop_bit 15 (ecam_address dev fn dword byte) AND 0x1f) :: u8) = ucast dev"
  "(ucast (drop_bit 12 (ecam_address dev fn dword byte) AND 0x07) :: u8) = ucast fn"
  "ecam_address dev fn dword byte AND 0xfff = push_bit 2 (ucast dword) OR ucast byte"
  unfolding ecam_address_def address_masks
  subgoal by (rule bit_word_eqI) (auto simp: bit_simps word_bit_short simp del: push_bit_of_1 dest: bit_imp_le_length)
  subgoal by (rule bit_word_eqI) (auto simp: bit_simps word_bit_short simp del: push_bit_of_1 dest: bit_imp_le_length)
  subgoal by (rule bit_word_eqI) (auto simp: bit_simps word_bit_short simp del: push_bit_of_1 dest: bit_imp_le_length)
  subgoal by (rule bit_word_eqI) (auto simp: bit_simps word_bit_short simp del: push_bit_of_1 dest: bit_imp_le_length)
  done

lemma register_value: "unat (push_bit 2 (ucast (dword :: 6 word)) OR ucast (byte :: 2 word) :: u64) = 4 * unat dword + unat byte"
proof -
  have "(push_bit 2 (ucast dword) OR ucast byte :: u64) = push_bit 2 (ucast dword) + ucast byte"
    by (rule disjunctive_add [symmetric]) (auto simp: bit_simps dest: bit_imp_le_length)
  moreover have "unat (push_bit 2 (ucast dword) :: u64) = 4 * unat dword"
    using unsigned_less [of dword, where 'a = nat] by (simp add: push_bit_eq_mult unat_word_ariths unat_ucast_up)
  moreover have "unat (ucast byte :: u64) = unat byte" using unsigned_less [of byte, where 'a = nat] by (simp add: unat_ucast_up)
  ultimately show ?thesis
    using unsigned_less [of dword, where 'a = nat] unsigned_less [of byte, where 'a = nat] by (simp add: unat_word_ariths)
qed

lemma legacy_register: "unat (legacy_address dev fn dword AND 0xfc) = 4 * unat dword"
proof -
  have "unat (push_bit 2 (ucast dword) :: u32) = 4 * unat dword"
    using unsigned_less [of dword, where 'a = nat] by (simp add: push_bit_eq_mult unat_word_ariths unat_ucast_up)
  then show ?thesis by (simp only: legacy_fields)
qed

lemma selected_same:
  assumes "pr_config_address root = legacy_address dev fn dword"
  shows "pci_selected root = map_option (Pair (4 * unat dword)) (find_function (ucast dev) (ucast fn) root)"
    "ecam_selected (ecam_address dev fn dword byte) root = map_option (Pair (4 * unat dword + unat byte)) (find_function (ucast dev) (ucast fn) root)"
  unfolding pci_selected_def ecam_selected_def Let_def assms legacy_fields(2-4) legacy_register ecam_fields register_value
  using legacy_fields(1) by simp_all

section \<open>Registration\<close>

lemma find_snoc: "find P (xs @ [x]) = (case find P xs of Some y \<Rightarrow> Some y | None \<Rightarrow> if P x then Some x else None)"
  by (induction xs) auto

lemma find_function_append:
  "find_function d f (root\<lparr>pr_functions := pr_functions root @ [r]\<rparr>) = (case find_function d f root of
     Some p \<Rightarrow> Some p | None \<Rightarrow> if rf_device r = d \<and> rf_function r = f then Some (rf_pci r) else None)"
  by (auto simp: find_function_def find_snoc split: option.split)

lemma find_function_None:
  "find_function d f root = None \<longleftrightarrow> \<not> list_ex (\<lambda>r. rf_device r = d \<and> rf_function r = f) (pr_functions root)"
  by (auto simp: find_function_def find_None_iff list_ex_iff)

lemma find_function_register:
  assumes "d < 32" "f < 8"
  shows "find_function d f (fst (pci_register d' f' p root)) = (case find_function d f root of
     Some q \<Rightarrow> Some q | None \<Rightarrow> if (d', f') = (d, f) then Some p else None)"
proof (cases "find_function d' f' root")
  case None
  then have "\<not> list_ex (\<lambda>r. rf_device r = d' \<and> rf_function r = f') (pr_functions root)" by (simp add: find_function_None)
  then show ?thesis
    using assms by (auto simp: pci_register_def find_function_append not_le split: option.split)
next
  case (Some q)
  then have "fst (pci_register d' f' p root) = root"
    using find_function_None [of d' f' root] by (simp add: pci_register_def)
  then show ?thesis using Some by (auto split: option.split)
qed

definition register_all :: "(u8 \<times> u8 \<times> nat) list \<Rightarrow> pci_root \<Rightarrow> pci_root" where
  "register_all regs root = fold (\<lambda>(d, f, p) r. fst (pci_register d f p r)) regs root"

lemma find_function_register_all:
  assumes "d < 32" "f < 8"
  shows "find_function d f (register_all regs root) = (case find_function d f root of
     Some q \<Rightarrow> Some q | None \<Rightarrow> map_of (map (\<lambda>(d, f, p). ((d, f), p)) regs) (d, f))"
proof (induction regs arbitrary: root)
  case Nil
  then show ?case by (simp add: register_all_def split: option.split)
next
  case (Cons r regs)
  obtain d' f' p where r: "r = (d', f', p)" by (cases r) auto
  have "register_all (r # regs) root = register_all regs (fst (pci_register d' f' p root))" by (simp add: register_all_def r)
  then show ?case
    using Cons.IH [of "fst (pci_register d' f' p root)"] by (auto simp: find_function_register [OF assms] r split: option.split)
qed

lemma bdf_bounds: "(ucast (dev :: 5 word) :: u8) < 32" "(ucast (fn :: 3 word) :: u8) < 8"
  using unsigned_less [of dev, where 'a = nat] unsigned_less [of fn, where 'a = nat] by (simp_all add: word_less_nat_alt unat_ucast_up)

section \<open>Properties\<close>

lemma data_port: "\<not> (4 + ucast (byte :: 2 word) :: u64) < 4" "(4 + ucast byte :: u64) < 8" "unat (4 + ucast byte - 4 :: u64) = unat byte"
proof -
  have b: "unat (ucast byte :: u64) = unat byte" by (simp add: unat_ucast_up)
  moreover have "unat byte < 4" using unsigned_less [of byte, where 'a = nat] by simp
  ultimately have "unat (4 + ucast byte :: u64) = 4 + unat byte" by (simp add: unat_word_ariths)
  then show "\<not> (4 + ucast byte :: u64) < 4" "(4 + ucast byte :: u64) < 8" "unat (4 + ucast byte - 4 :: u64) = unat byte"
    using b \<open>unat byte < 4\<close> by (simp_all add: word_less_nat_alt)
qed

text \<open>
  C19: The two ways to reach configuration space agree. Selecting a register through the address port and accessing
  the data port reads and writes exactly what an access to the same register through the ECAM window does:
  the same bytes, the same function, the same effect, on every bus-zero device, function
  and register, present or not.
\<close>

theorem config_mechanisms_agree:
  "case pci_write ops 0 (word_bytes (legacy_address dev fn dword)) root h of (root', h') \<Rightarrow>
     h' = h \<and>
     pci_read ops (4 + ucast byte) data root' h = read_ecam ops (ecam_address dev fn dword byte) data root h \<and>
     pci_write ops (4 + ucast byte) data root' h = (root', write_ecam ops (ecam_address dev fn dword byte) data root h)"
proof -
  define root' where "root' = root\<lparr>pr_config_address := legacy_address dev fn dword\<rparr>"
  have w: "pci_write ops 0 (word_bytes (legacy_address dev fn dword)) root h = (root', h)"
    by (simp add: pci_write_def overlay_def copy_prefix_def root'_def)
  have same: "ecam_selected a root' = ecam_selected a root" for a
    by (simp add: ecam_selected_def find_function_def root'_def Let_def)
  have a: "pr_config_address root' = legacy_address dev fn dword" by (simp add: root'_def)
  note sel = selected_same(1) [OF a] selected_same(2) [OF a, of byte, unfolded same]
  show ?thesis
    unfolding w using sel data_port [of byte]
    by (simp add: pci_read_def pci_write_def read_config_data_def write_config_data_def read_ecam_def write_ecam_def
        Let_def option.map_comp split: option.split)
qed

text \<open>
  A guest reaches the function registered at an address. After any sequence of registrations, accesses to a
  device and function number go to the first function registered there; later duplicates and
  out-of-range addresses have no effect, and addresses without registration select nothing.
\<close>

theorem pci_routes_first_registration:
  "ecam_selected (ecam_address dev fn dword byte) (register_all regs pci_root_new) =
     map_option (Pair (4 * unat dword + unat byte)) (map_of (map (\<lambda>(d, f, p). ((d, f), p)) regs) (ucast dev, ucast fn))"
proof -
  let ?root = "(register_all regs pci_root_new)\<lparr>pr_config_address := legacy_address dev fn dword\<rparr>"
  have "ecam_selected (ecam_address dev fn dword byte) ?root =
      map_option (Pair (4 * unat dword + unat byte)) (find_function (ucast dev) (ucast fn) ?root)"
    by (rule selected_same) simp
  moreover have "find_function d f ?root = find_function d f (register_all regs pci_root_new)" for d f
    by (simp add: find_function_def)
  moreover have "ecam_selected a ?root = ecam_selected a (register_all regs pci_root_new)" for a
    by (simp add: ecam_selected_def find_function_def Let_def)
  moreover have "find_function d f pci_root_new = None" for d f by (simp add: find_function_def pci_root_new_def)
  ultimately show ?thesis by (simp add: find_function_register_all bdf_bounds)
qed

end
