(* ===== verification/VirtioMmio.thy ===== *)
theory VirtioMmio
  imports BusAccess
begin

unbundle bit_operations_syntax

text \<open>
  The virtio-mmio transport, \<^verbatim>\<open>vmm/src/virtio/mmio.rs\<close>, with the interrupt status of \<^verbatim>\<open>vmm/src/virtio/mod.rs\<close>:
  feature negotiation, queue configuration, the status register with reset and activation, and
  the snapshot of the transport. The virtqueues are those of the crate \<^verbatim>\<open>virtio_queue\<close> and the device
  is any implementation of the trait \<^verbatim>\<open>VirtioDevice\<close>; both are arguments (\<open>queue_ops\<close>, \<open>device_ops\<close>).
  Guest memory is fixed, so a queue's validity is a predicate on the queue.
\<close>

section \<open>Interrupt status\<close>

definition VIRTIO_MMIO_INT_VRING :: u32 where "VIRTIO_MMIO_INT_VRING = 0x1"

definition interrupt_ack :: "u32 \<Rightarrow> u32 \<Rightarrow> u32" where
  "interrupt_ack value status = status AND NOT value"

text \<open>
  \<open>msi\<close> is the outcome of the MSI-X notifier (absent, failed or not delivering are all False), \<open>line\<close>
  whether triggering the interrupt line succeeds; the list records the line triggers.
\<close>

definition signal_used_queue :: "bool \<Rightarrow> bool \<Rightarrow> u32 \<Rightarrow> u32 \<times> unit list \<times> (unit + unit)" where
  "signal_used_queue msi line status =
     (let status = status OR VIRTIO_MMIO_INT_VRING in
      if msi then (status, [], Inr ()) else (status, [()], if line then Inr () else Inl ()))"

section \<open>Queues and devices\<close>

record ('q, 's) queue_ops =
  qo_new :: "u16 \<Rightarrow> 'q option"
  qo_max_size :: "'q \<Rightarrow> u16"
  qo_ready :: "'q \<Rightarrow> bool"
  qo_try_set_size :: "u16 \<Rightarrow> 'q \<Rightarrow> 'q"
  qo_set_ready :: "bool \<Rightarrow> 'q \<Rightarrow> 'q"
  qo_set_desc :: "u32 option \<Rightarrow> u32 option \<Rightarrow> 'q \<Rightarrow> 'q"
  qo_set_avail :: "u32 option \<Rightarrow> u32 option \<Rightarrow> 'q \<Rightarrow> 'q"
  qo_set_used :: "u32 option \<Rightarrow> u32 option \<Rightarrow> 'q \<Rightarrow> 'q"
  qo_is_valid :: "'q \<Rightarrow> bool"
  qo_state :: "'q \<Rightarrow> 's"
  qo_of_state :: "'s \<Rightarrow> 'q option"

record ('d, 'q, 's) device_ops =
  vd_device_type :: "'d \<Rightarrow> u32"
  vd_queue_max_sizes :: "'d \<Rightarrow> u16 list"
  vd_features :: "'d \<Rightarrow> u64"
  vd_ack_features :: "u64 \<Rightarrow> 'd \<Rightarrow> 'd"
  vd_read_config :: "u64 \<Rightarrow> bytes \<Rightarrow> 'd \<Rightarrow> bytes"
  vd_write_config :: "u64 \<Rightarrow> bytes \<Rightarrow> 'd \<Rightarrow> 'd"
  vd_activate :: "'q list \<Rightarrow> 'd \<Rightarrow> 'd \<times> bool"
  vd_reset :: "'d \<Rightarrow> 'd \<times> bool"
  vd_queue_states :: "'d \<Rightarrow> 's list"

record ('d, 'q) mmio =
  mt_device :: 'd
  mt_interrupt :: u32
  mt_device_type :: u32
  mt_device_features :: u64
  mt_queues :: "'q list"
  mt_queue_select :: nat
  mt_device_features_select :: u32
  mt_driver_features_select :: u32
  mt_acked_features :: u64
  mt_status :: u32
  mt_activated :: bool
  mt_worker_errors :: nat

record 's mmio_state =
  st_device_features_select :: u32
  st_driver_features_select :: u32
  st_acked_features :: u64
  st_status :: u32
  st_activated :: bool
  st_queues :: "'s list"

definition VIRTIO_CONFIG_S_DRIVER_OK :: u32 where "VIRTIO_CONFIG_S_DRIVER_OK = 4"
definition VIRTIO_CONFIG_S_FAILED :: u32 where "VIRTIO_CONFIG_S_FAILED = 128"
definition MMIO_MAGIC :: u32 where "MMIO_MAGIC = 0x74726976"
definition MMIO_VERSION :: u32 where "MMIO_VERSION = 2"
definition MMIO_VENDOR :: u32 where "MMIO_VENDOR = 0x4d564b56"

section \<open>Construction and snapshots\<close>

fun new_queues :: "('q, 's) queue_ops \<Rightarrow> u16 list \<Rightarrow> 'q list option" where
  "new_queues qs [] = Some []"
| "new_queues qs (n # sizes) = (case qo_new qs n of
     None \<Rightarrow> None
   | Some q \<Rightarrow> map_option (Cons q) (new_queues qs sizes))"

definition mmio_new :: "('q, 's) queue_ops \<Rightarrow> ('d, 'q, 's) device_ops \<Rightarrow> 'd \<Rightarrow> u32 \<Rightarrow> ('d, 'q) mmio option" where
  "mmio_new qs ds device interrupt = (case new_queues qs (vd_queue_max_sizes ds device) of
     None \<Rightarrow> None
   | Some queues \<Rightarrow> Some \<lparr>mt_device = device, mt_interrupt = interrupt, mt_device_type = vd_device_type ds device,
       mt_device_features = vd_features ds device, mt_queues = queues, mt_queue_select = 0,
       mt_device_features_select = 0, mt_driver_features_select = 0, mt_acked_features = 0, mt_status = 0,
       mt_activated = False, mt_worker_errors = 0\<rparr>)"

definition mmio_save :: "('q, 's) queue_ops \<Rightarrow> ('d, 'q, 's) device_ops \<Rightarrow> ('d, 'q) mmio \<Rightarrow> 's mmio_state" where
  "mmio_save qs ds t =
     (let live_queues = vd_queue_states ds (mt_device t);
          queues = (if live_queues = [] then map (qo_state qs) (mt_queues t) else live_queues)
      in \<lparr>st_device_features_select = mt_device_features_select t, st_driver_features_select = mt_driver_features_select t,
          st_acked_features = mt_acked_features t, st_status = mt_status t, st_activated = mt_activated t, st_queues = queues\<rparr>)"

fun queues_of_states :: "('q, 's) queue_ops \<Rightarrow> 's list \<Rightarrow> 'q list option" where
  "queues_of_states qs [] = Some []"
| "queues_of_states qs (s # ss) = (case qo_of_state qs s of
     None \<Rightarrow> None
   | Some q \<Rightarrow> map_option (Cons q) (queues_of_states qs ss))"

definition mmio_from_state ::
  "('q, 's) queue_ops \<Rightarrow> ('d, 'q, 's) device_ops \<Rightarrow> 'd \<Rightarrow> u32 \<Rightarrow> 's mmio_state \<Rightarrow> ('d, 'q) mmio option" where
  "mmio_from_state qs ds device interrupt st = (case queues_of_states qs (st_queues st) of
     None \<Rightarrow> None
   | Some queues \<Rightarrow> Some \<lparr>mt_device = device, mt_interrupt = interrupt, mt_device_type = vd_device_type ds device,
       mt_device_features = vd_features ds device, mt_queues = queues, mt_queue_select = 0,
       mt_device_features_select = st_device_features_select st, mt_driver_features_select = st_driver_features_select st,
       mt_acked_features = st_acked_features st, mt_status = st_status st, mt_activated = False, mt_worker_errors = 0\<rparr>)"

section \<open>Status\<close>

definition with_queue :: "('q \<Rightarrow> 'r) \<Rightarrow> 'r \<Rightarrow> ('d, 'q) mmio \<Rightarrow> 'r" where
  "with_queue f dflt t = (if mt_queue_select t < length (mt_queues t) then f (mt_queues t ! mt_queue_select t) else dflt)"

definition with_queue_mut :: "('q \<Rightarrow> 'q) \<Rightarrow> ('d, 'q) mmio \<Rightarrow> ('d, 'q) mmio" where
  "with_queue_mut f t = (if mt_queue_select t < length (mt_queues t)
     then t\<lparr>mt_queues := (mt_queues t)[mt_queue_select t := f (mt_queues t ! mt_queue_select t)]\<rparr> else t)"

definition mmio_reset :: "('q, 's) queue_ops \<Rightarrow> ('d, 'q, 's) device_ops \<Rightarrow> ('d, 'q) mmio \<Rightarrow> ('d, 'q) mmio \<times> bool" where
  "mmio_reset qs ds t = (case vd_reset ds (mt_device t) of
     (device, False) \<Rightarrow> (t\<lparr>mt_device := device\<rparr>, False)
   | (device, True) \<Rightarrow>
       let t = t\<lparr>mt_device := device, mt_device_features := vd_features ds device\<rparr> in
       (case new_queues qs (vd_queue_max_sizes ds device) of
          None \<Rightarrow> (t, False)
        | Some queues \<Rightarrow> (t\<lparr>mt_queues := queues, mt_queue_select := 0, mt_device_features_select := 0,
            mt_driver_features_select := 0, mt_acked_features := 0, mt_status := 0, mt_activated := False, mt_interrupt := 0\<rparr>, True)))"

definition mmio_activate :: "('q, 's) queue_ops \<Rightarrow> ('d, 'q, 's) device_ops \<Rightarrow> ('d, 'q) mmio \<Rightarrow> ('d, 'q) mmio" where
  "mmio_activate qs ds t =
     (if \<not> list_all (qo_is_valid qs) (mt_queues t)
      then t\<lparr>mt_worker_errors := mt_worker_errors t + 1, mt_status := mt_status t OR VIRTIO_CONFIG_S_FAILED\<rparr>
      else let queues = mt_queues t; t = t\<lparr>mt_queues := []\<rparr>;
               device = vd_ack_features ds (mt_acked_features t) (mt_device t)
           in case vd_activate ds queues device of
                (device, True) \<Rightarrow> t\<lparr>mt_device := device, mt_activated := True\<rparr>
              | (device, False) \<Rightarrow> t\<lparr>mt_device := device, mt_worker_errors := mt_worker_errors t + 1,
                                     mt_status := mt_status t OR VIRTIO_CONFIG_S_FAILED\<rparr>)"

definition set_status :: "('q, 's) queue_ops \<Rightarrow> ('d, 'q, 's) device_ops \<Rightarrow> u32 \<Rightarrow> ('d, 'q) mmio \<Rightarrow> ('d, 'q) mmio" where
  "set_status qs ds value t =
     (if value = 0 then (case mmio_reset qs ds t of
        (t, True) \<Rightarrow> t
      | (t, False) \<Rightarrow> t\<lparr>mt_worker_errors := mt_worker_errors t + 1, mt_status := VIRTIO_CONFIG_S_FAILED, mt_activated := False\<rparr>)
      else let t = t\<lparr>mt_status := value\<rparr> in
           if value AND VIRTIO_CONFIG_S_DRIVER_OK \<noteq> 0 \<and> \<not> mt_activated t then mmio_activate qs ds t else t)"

definition mmio_reactivate ::
  "('q, 's) queue_ops \<Rightarrow> ('d, 'q, 's) device_ops \<Rightarrow> ('d, 'q) mmio \<Rightarrow> ('d, 'q) mmio \<times> bool" where
  "mmio_reactivate qs ds t =
     (if \<not> list_all (qo_is_valid qs) (mt_queues t) then (t, False)
      else let queues = mt_queues t; t = t\<lparr>mt_queues := []\<rparr>;
               device = vd_ack_features ds (mt_acked_features t) (mt_device t)
           in case vd_activate ds queues device of
                (device, True) \<Rightarrow> (t\<lparr>mt_device := device, mt_activated := True\<rparr>, True)
              | (device, False) \<Rightarrow> (t\<lparr>mt_device := device\<rparr>, False))"

section \<open>Registers\<close>

definition mmio_read_reg :: "('q, 's) queue_ops \<Rightarrow> u64 \<Rightarrow> ('d, 'q) mmio \<Rightarrow> u32" where
  "mmio_read_reg qs offset t =
     (if offset = 0x000 then MMIO_MAGIC
      else if offset = 0x004 then MMIO_VERSION
      else if offset = 0x008 then mt_device_type t
      else if offset = 0x00c then MMIO_VENDOR
      else if offset = 0x010 then
        (if mt_device_features_select t = 0 then ucast (mt_device_features t)
         else if mt_device_features_select t = 1 then ucast (drop_bit 32 (mt_device_features t)) else 0)
      else if offset = 0x034 then with_queue (\<lambda>q. ucast (qo_max_size qs q)) 0 t
      else if offset = 0x044 then with_queue (\<lambda>q. of_bool (qo_ready qs q)) 0 t
      else if offset = 0x060 then mt_interrupt t
      else if offset = 0x070 then mt_status t
      else if offset = 0x0fc then 0
      else if offset = 0x0b0 \<or> offset = 0x0b4 then 0xffffffff
      else 0)"

definition mmio_read :: "('q, 's) queue_ops \<Rightarrow> ('d, 'q, 's) device_ops \<Rightarrow> u64 \<Rightarrow> bytes \<Rightarrow> ('d, 'q) mmio \<Rightarrow> bytes" where
  "mmio_read qs ds offset data t =
     (if offset \<ge> 0x100 then vd_read_config ds (offset - 0x100) data (mt_device t)
      else write_le (mmio_read_reg qs offset t) data)"

definition ack_driver_features :: "u32 \<Rightarrow> ('d, 'q) mmio \<Rightarrow> ('d, 'q) mmio" where
  "ack_driver_features value t =
     (let shift = unat (32 * mt_driver_features_select t);
          mask = push_bit shift 0xffffffff;
          selected = push_bit shift (ucast value) AND mt_device_features t AND mask
      in t\<lparr>mt_acked_features := (mt_acked_features t AND NOT mask) OR selected\<rparr>)"

definition mmio_write_reg ::
  "('q, 's) queue_ops \<Rightarrow> ('d, 'q, 's) device_ops \<Rightarrow> u64 \<Rightarrow> u32 \<Rightarrow> ('d, 'q) mmio \<Rightarrow> ('d, 'q) mmio" where
  "mmio_write_reg qs ds offset value t =
     (if offset = 0x014 then t\<lparr>mt_device_features_select := value\<rparr>
      else if offset = 0x020 \<and> mt_driver_features_select t < 2 then ack_driver_features value t
      else if offset = 0x024 then t\<lparr>mt_driver_features_select := value\<rparr>
      else if offset = 0x030 then t\<lparr>mt_queue_select := unat value\<rparr>
      else if offset = 0x038 then with_queue_mut (\<lambda>q. if unat value < 2 ^ 16 then qo_try_set_size qs (ucast value) q else q) t
      else if offset = 0x044 then with_queue_mut (qo_set_ready qs (value = 1)) t
      else if offset = 0x050 then t
      else if offset = 0x064 then t\<lparr>mt_interrupt := interrupt_ack value (mt_interrupt t)\<rparr>
      else if offset = 0x070 then set_status qs ds value t
      else if offset = 0x080 then with_queue_mut (qo_set_desc qs (Some value) None) t
      else if offset = 0x084 then with_queue_mut (qo_set_desc qs None (Some value)) t
      else if offset = 0x090 then with_queue_mut (qo_set_avail qs (Some value) None) t
      else if offset = 0x094 then with_queue_mut (qo_set_avail qs None (Some value)) t
      else if offset = 0x0a0 then with_queue_mut (qo_set_used qs (Some value) None) t
      else if offset = 0x0a4 then with_queue_mut (qo_set_used qs None (Some value)) t
      else t)"

definition mmio_write ::
  "('q, 's) queue_ops \<Rightarrow> ('d, 'q, 's) device_ops \<Rightarrow> u64 \<Rightarrow> bytes \<Rightarrow> ('d, 'q) mmio \<Rightarrow> ('d, 'q) mmio" where
  "mmio_write qs ds offset data t =
     (if offset \<ge> 0x100 then t\<lparr>mt_device := vd_write_config ds (offset - 0x100) data (mt_device t)\<rparr>
      else mmio_write_reg qs ds offset (read_le data) t)"

section \<open>Features\<close>

definition sizes_accepted :: "('q, 's) queue_ops \<Rightarrow> ('d, 'q, 's) device_ops \<Rightarrow> bool" where
  "sizes_accepted qs ds \<longleftrightarrow> (\<forall>d. \<forall>n\<in>set (vd_queue_max_sizes ds d). qo_new qs n \<noteq> None)"

definition features_offered :: "('d, 'q) mmio \<Rightarrow> bool" where
  "features_offered t \<longleftrightarrow> mt_acked_features t AND NOT (mt_device_features t) = 0"

lemma new_queues_accepted: "sizes_accepted qs ds \<Longrightarrow> new_queues qs (vd_queue_max_sizes ds d) \<noteq> None"
proof -
  have "\<forall>n\<in>set ns. qo_new qs n \<noteq> None \<Longrightarrow> new_queues qs ns \<noteq> None" for ns
    by (induction ns) auto
  then show "sizes_accepted qs ds \<Longrightarrow> ?thesis" by (simp add: sizes_accepted_def)
qed

lemma features_offered_iff: "features_offered t \<longleftrightarrow> (\<forall>n. bit (mt_acked_features t) n \<longrightarrow> bit (mt_device_features t) n)"
proof
  assume "features_offered t"
  then have "\<not> bit (mt_acked_features t AND NOT (mt_device_features t)) n" for n by (simp add: features_offered_def)
  then show "\<forall>n. bit (mt_acked_features t) n \<longrightarrow> bit (mt_device_features t) n"
    using bit_imp_le_length [of "mt_acked_features t"] by (simp add: bit_simps)
next
  assume "\<forall>n. bit (mt_acked_features t) n \<longrightarrow> bit (mt_device_features t) n"
  then show "features_offered t"
    unfolding features_offered_def by (intro bit_word_eqI) (auto simp: bit_simps)
qed

lemma with_queue_mut_fields [simp]:
  "mt_acked_features (with_queue_mut f t) = mt_acked_features t" "mt_device_features (with_queue_mut f t) = mt_device_features t"
  "mt_device (with_queue_mut f t) = mt_device t" "mt_activated (with_queue_mut f t) = mt_activated t"
  by (simp_all add: with_queue_mut_def)

lemma ack_driver_fields [simp]:
  "mt_device_features (ack_driver_features v t) = mt_device_features t" "mt_device (ack_driver_features v t) = mt_device t"
  "mt_activated (ack_driver_features v t) = mt_activated t"
  by (simp_all add: ack_driver_features_def Let_def)

lemma activate_features [simp]:
  "mt_acked_features (mmio_activate qs ds t) = mt_acked_features t" "mt_device_features (mmio_activate qs ds t) = mt_device_features t"
  by (auto simp: mmio_activate_def Let_def split: prod.split bool.split)

lemma offered_set_status:
  assumes "sizes_accepted qs ds" "features_offered t"
  shows "features_offered (set_status qs ds v t)"
proof (cases "v = 0")
  case True
  obtain device ok where reset: "vd_reset ds (mt_device t) = (device, ok)" by fastforce
  obtain queues where "new_queues qs (vd_queue_max_sizes ds device) = Some queues"
    using new_queues_accepted [OF assms(1), of device] by auto
  then show ?thesis
    using True assms(2) reset by (cases ok) (simp_all add: set_status_def mmio_reset_def features_offered_def Let_def)
next
  case False
  then show ?thesis using assms(2) by (simp add: set_status_def features_offered_def Let_def)
qed

lemma offered_ack: "features_offered t \<Longrightarrow> features_offered (ack_driver_features v t)"
  unfolding features_offered_iff by (auto simp: ack_driver_features_def Let_def bit_simps)

lemma offered_write:
  assumes "sizes_accepted qs ds" "features_offered t"
  shows "features_offered (mmio_write qs ds off data t)"
proof -
  have "features_offered (with_queue_mut f t)" for f
    using assms(2) by (simp add: features_offered_def)
  moreover have "features_offered (mmio_write_reg qs ds off v t)" for v
    using assms offered_set_status offered_ack calculation unfolding mmio_write_reg_def
    by (auto simp: features_offered_def)
  ultimately show ?thesis using assms(2) by (simp add: mmio_write_def features_offered_def)
qed

abbreviation mmio_run :: "('q, 's) queue_ops \<Rightarrow> ('d, 'q, 's) device_ops \<Rightarrow> (u64 \<times> bytes) list \<Rightarrow> ('d, 'q) mmio \<Rightarrow> ('d, 'q) mmio" where
  "mmio_run qs ds \<equiv> fold (\<lambda>(off, data). mmio_write qs ds off data)"

lemma offered_run:
  "sizes_accepted qs ds \<Longrightarrow> features_offered t \<Longrightarrow> features_offered (mmio_run qs ds ws t)"
  by (induction ws arbitrary: t) (auto simp: offered_write)

text \<open>The driver's four writes: both selectors with their halves.\<close>

definition negotiate :: "u32 \<Rightarrow> u32 \<Rightarrow> (u64 \<times> bytes) list" where
  "negotiate hi lo = map (\<lambda>(off, v). (off, word_bytes v)) [(0x024, 0), (0x020, lo), (0x024, 1), (0x020, hi)]"

lemma negotiate_result:
  "mt_acked_features (mmio_run qs ds (negotiate hi lo) t) = mt_device_features t AND (push_bit 32 (ucast hi) OR ucast lo)"
proof -
  have m: "(0xffffffff :: u64) = mask 32" by (simp add: mask_eq_exp_minus_1)
  have "mt_acked_features (mmio_run qs ds (negotiate hi lo) t) =
     ((mt_acked_features t AND NOT 0xffffffff OR (ucast lo AND mt_device_features t AND 0xffffffff)) AND NOT (push_bit 32 0xffffffff))
       OR (push_bit 32 (ucast hi) AND mt_device_features t AND push_bit 32 0xffffffff)"
    by (simp add: negotiate_def mmio_write_def mmio_write_reg_def ack_driver_features_def Let_def)
  also have "\<dots> = mt_device_features t AND (push_bit 32 (ucast hi) OR ucast lo)"
    unfolding m by (rule bit_word_eqI) (auto simp: bit_simps dest: bit_imp_le_length)
  finally show ?thesis .
qed

section \<open>Activation\<close>

lemma active_write:
  assumes "mt_activated t" "\<not> (off = 0x70 \<and> read_le data = 0)"
  shows "mt_activated (mmio_write qs ds off data t) \<and>
    mt_device (mmio_write qs ds off data t) =
      (if off \<ge> 0x100 then vd_write_config ds (off - 0x100) data (mt_device t) else mt_device t)"
  using assms by (simp add: mmio_write_def mmio_write_reg_def set_status_def Let_def)

definition config_write :: "('d, 'q, 's) device_ops \<Rightarrow> u64 \<times> bytes \<Rightarrow> 'd \<Rightarrow> 'd" where
  "config_write ds w d = (if fst w \<ge> 0x100 then vd_write_config ds (fst w - 0x100) (snd w) d else d)"

lemma active_run:
  "mt_activated t \<Longrightarrow> list_all (\<lambda>(off, data). \<not> (off = 0x70 \<and> read_le data = 0)) ws \<Longrightarrow>
   mt_activated (mmio_run qs ds ws t) \<and> mt_device (mmio_run qs ds ws t) = fold (config_write ds) ws (mt_device t)"
proof (induction ws arbitrary: t)
  case (Cons w ws)
  obtain off data where w: "w = (off, data)" by (cases w)
  have nz: "\<not> (off = 0x70 \<and> read_le data = 0)" and rest: "list_all (\<lambda>(off, data). \<not> (off = 0x70 \<and> read_le data = 0)) ws"
    using Cons.prems(2) by (auto simp: w)
  note step = active_write [OF Cons.prems(1) nz, of qs ds]
  show ?case using Cons.IH [OF conjunct1 [OF step] rest] step by (simp add: w config_write_def)
qed simp

section \<open>Sample devices\<close>

definition sample_queues :: "(u16 \<times> u16 \<times> bool, u16 \<times> u16 \<times> bool) queue_ops" where
  "sample_queues = \<lparr>qo_new = (\<lambda>n. if 0 < n then Some (n, n, False) else None), qo_max_size = fst, qo_ready = (\<lambda>q. snd (snd q)),
     qo_try_set_size = (\<lambda>n q. (fst q, min n (fst q), snd (snd q))), qo_set_ready = (\<lambda>r q. (fst q, fst (snd q), r)),
     qo_set_desc = (\<lambda>_ _ q. q), qo_set_avail = (\<lambda>_ _ q. q), qo_set_used = (\<lambda>_ _ q. q), qo_is_valid = (\<lambda>q. snd (snd q)),
     qo_state = (\<lambda>q. q), qo_of_state = Some\<rparr>"

text \<open>A device whose state is the number of queues it was last activated with; \<open>ok\<close> decides activations.\<close>

definition sample_device :: "(nat \<Rightarrow> bool) \<Rightarrow> (nat option, u16 \<times> u16 \<times> bool, u16 \<times> u16 \<times> bool) device_ops" where
  "sample_device ok = \<lparr>vd_device_type = (\<lambda>_. 4), vd_queue_max_sizes = (\<lambda>_. [8, 8]), vd_features = (\<lambda>_. 0x100000001), vd_ack_features = (\<lambda>_ d. d),
     vd_read_config = (\<lambda>_ data _. data), vd_write_config = (\<lambda>_ _ d. d), vd_activate = (\<lambda>qs _. (Some (length qs), ok (length qs))),
     vd_reset = (\<lambda>_. (None, True)), vd_queue_states = (\<lambda>_. [])\<rparr>"

definition sample_mmio :: "(nat option, u16 \<times> u16 \<times> bool) mmio" where
  "sample_mmio = the (mmio_new sample_queues (sample_device (\<lambda>_. True)) None 0)"

lemma sample_mmio_eq:
  "sample_mmio = \<lparr>mt_device = None, mt_interrupt = 0, mt_device_type = 4, mt_device_features = 0x100000001,
     mt_queues = [(8, 8, False), (8, 8, False)], mt_queue_select = 0, mt_device_features_select = 0, mt_driver_features_select = 0,
     mt_acked_features = 0, mt_status = 0, mt_activated = False, mt_worker_errors = 0\<rparr>"
  by (simp add: sample_mmio_def mmio_new_def sample_queues_def sample_device_def)

lemma sample_sizes: "sizes_accepted sample_queues (sample_device ok)"
  by (simp add: sizes_accepted_def sample_queues_def sample_device_def)

section \<open>Properties\<close>

text \<open>
  The driver can only accept features the device offers. When the queue sizes a device declares can be created, the accepted features
  are a subset of the offered ones after any sequence of guest writes, resets included, and a
  driver that writes both halves obtains exactly the offered features it asked for.
\<close>

theorem mmio_features_negotiated:
  assumes "sizes_accepted qs ds" "mmio_new qs ds device irq = Some t"
  shows "mt_acked_features (mmio_run qs ds ws t) AND NOT (mt_device_features (mmio_run qs ds ws t)) = 0 \<and>
    mt_acked_features (mmio_run qs ds (ws @ negotiate hi lo) t) =
      mt_device_features (mmio_run qs ds ws t) AND (push_bit 32 (ucast hi) OR ucast lo)"
proof -
  have "features_offered t" using assms(2) by (auto simp: mmio_new_def features_offered_def split: option.splits)
  then have "features_offered (mmio_run qs ds ws t)" by (rule offered_run [OF assms(1)])
  then show ?thesis by (simp add: features_offered_def negotiate_result)
qed

theorem mmio_features_negotiated_witness:
  "mt_acked_features (mmio_run sample_queues (sample_device (\<lambda>_. True)) ([] @ negotiate 3 3) sample_mmio) = 0x100000001"
proof -
  have "mmio_new sample_queues (sample_device (\<lambda>_. True)) None 0 = Some sample_mmio"
    by (simp add: sample_mmio_def mmio_new_def sample_queues_def sample_device_def)
  from mmio_features_negotiated [OF sample_sizes this, of "[]" 3 3] show ?thesis by (simp add: sample_mmio_eq)
qed

text \<open>
  A device is activated once per reset. While the transport is activated, guest writes other than a write
  of zero to the status register keep it activated and reach the device only as writes to
  its configuration space: no second activation, no change of features or queues.
\<close>

theorem mmio_active_until_reset:
  assumes "mt_activated t" "list_all (\<lambda>(off, data). \<not> (off = 0x70 \<and> read_le data = 0)) ws"
  shows "mt_activated (mmio_run qs ds ws t) \<and> mt_device (mmio_run qs ds ws t) = fold (config_write ds) ws (mt_device t)"
  using active_run [OF assms] .

definition sample_active :: "(nat option, u16 \<times> u16 \<times> bool) mmio" where
  "sample_active = sample_mmio\<lparr>mt_activated := True, mt_device := Some 2, mt_queues := []\<rparr>"

theorem mmio_active_until_reset_witness:
  "mt_device (mmio_run sample_queues (sample_device (\<lambda>_. True)) [(0x70, [4]), (0x20, [9]), (0x100, [7])] sample_active) = Some 2"
proof -
  have "read_le [4] \<noteq> 0" by code_simp
  then have "mt_device (mmio_run sample_queues (sample_device (\<lambda>_. True)) [(0x70, [4]), (0x20, [9]), (0x100, [7])] sample_active) =
      fold (config_write (sample_device (\<lambda>_. True))) [(0x70, [4]), (0x20, [9]), (0x100, [7])] (mt_device sample_active)"
    using mmio_active_until_reset [of sample_active "[(0x70, [4]), (0x20, [9]), (0x100, [7])]" sample_queues "sample_device (\<lambda>_. True)"]
    by (simp add: sample_active_def)
  then show ?thesis by (simp add: sample_active_def config_write_def sample_device_def)
qed

text \<open>
  After a failed activation the next one runs without queues. The failed attempt has already given the
  queues away, so a second write of DRIVER\_OK passes the validity check vacuously and activates the
  device with an empty list.
\<close>

theorem mmio_retry_without_queues:
  assumes "\<not> mt_activated t" "list_all (qo_is_valid qs) (mt_queues t)" "v AND VIRTIO_CONFIG_S_DRIVER_OK \<noteq> 0"
    "vd_activate ds (mt_queues t) (vd_ack_features ds (mt_acked_features t) (mt_device t)) = (d, False)"
    "vd_activate ds [] (vd_ack_features ds (mt_acked_features t) d) = (d', True)"
  shows "mt_queues (set_status qs ds v t) = [] \<and> \<not> mt_activated (set_status qs ds v t) \<and>
    mt_activated (set_status qs ds v (set_status qs ds v t)) \<and> mt_device (set_status qs ds v (set_status qs ds v t)) = d' \<and>
    mt_status (set_status qs ds v (set_status qs ds v t)) = v"
proof -
  have nz: "v \<noteq> 0" using assms(3) by auto
  have "set_status qs ds v t = t\<lparr>mt_status := v OR VIRTIO_CONFIG_S_FAILED, mt_queues := [], mt_device := d, mt_worker_errors := mt_worker_errors t + 1\<rparr>"
    using assms nz by (simp add: set_status_def mmio_activate_def Let_def)
  then show ?thesis using assms nz by (simp add: set_status_def mmio_activate_def Let_def)
qed

theorem mmio_retry_without_queues_witness:
  "mt_device (set_status sample_queues (sample_device (\<lambda>n. n = 0)) 4 (set_status sample_queues (sample_device (\<lambda>n. n = 0)) 4
     (sample_mmio\<lparr>mt_queues := [(8, 8, True), (8, 8, True)]\<rparr>))) = Some 0"
  using mmio_retry_without_queues [of "sample_mmio\<lparr>mt_queues := [(8, 8, True), (8, 8, True)]\<rparr>" sample_queues 4 "sample_device (\<lambda>n. n = 0)" "Some 2" "Some 0"]
  by (simp add: sample_mmio_eq sample_queues_def sample_device_def VIRTIO_CONFIG_S_DRIVER_OK_def)

lemma queues_of_states_map:
  "\<forall>q\<in>set queues. qo_of_state qs (qo_state qs q) = Some q \<Longrightarrow> queues_of_states qs (map (qo_state qs) queues) = Some queues"
  by (induction queues) simp_all

text \<open>
  A snapshot of an inactive transport restores every register but the queue selector. The restored transport equals the saved one with
  the selector set to zero, so a guest that was stopped between selecting a queue and configuring it
  configures queue zero after the restore.
\<close>

theorem mmio_snapshot_loses_selector:
  assumes "vd_queue_states ds device = []" "\<forall>q\<in>set (mt_queues t). qo_of_state qs (qo_state qs q) = Some q"
    "mt_device t = device" "\<not> mt_activated t" "mt_device_type t = vd_device_type ds device"
    "mt_device_features t = vd_features ds device" "mt_worker_errors t = 0"
  shows "mmio_from_state qs ds device (mt_interrupt t) (mmio_save qs ds t) = Some (t\<lparr>mt_queue_select := 0\<rparr>)"
  using assms queues_of_states_map [OF assms(2)] by (simp add: mmio_from_state_def mmio_save_def Let_def)

theorem mmio_snapshot_loses_selector_witness:
  "\<exists>t. mt_queue_select t = 1 \<and>
    map_option mt_queue_select (mmio_from_state sample_queues (sample_device (\<lambda>_. True)) None 0 (mmio_save sample_queues (sample_device (\<lambda>_. True)) t)) = Some 0"
proof -
  let ?t = "sample_mmio\<lparr>mt_queue_select := 1\<rparr>"
  have "mmio_from_state sample_queues (sample_device (\<lambda>_. True)) None (mt_interrupt ?t) (mmio_save sample_queues (sample_device (\<lambda>_. True)) ?t) = Some (?t\<lparr>mt_queue_select := 0\<rparr>)"
    by (rule mmio_snapshot_loses_selector) (simp_all add: sample_mmio_eq sample_queues_def sample_device_def)
  then show ?thesis by (intro exI [of _ ?t]) (simp add: sample_mmio_eq)
qed

end
