(* ===== verification/Ipv4.thy ===== *)
theory Ipv4
  imports RustText
begin

unbundle bit_operations_syntax

text \<open>
  Addresses and CIDR blocks of \<^verbatim>\<open>vmond/src/net.rs\<close>. IPv4 addresses are 32-bit words with the textual form
  of \<^verbatim>\<open>std::net::Ipv4Addr\<close>; the textual form of IPv6 addresses is the argument \<open>v6\<close>.
\<close>

section \<open>Addresses\<close>

definition octet :: "nat \<Rightarrow> u32 \<Rightarrow> nat" where
  "octet i a = unat a div 256 ^ i mod 256"

definition ipv4_to_string :: "u32 \<Rightarrow> string" where
  "ipv4_to_string a = dec_digits (octet 3 a) @ CHR ''.'' # dec_digits (octet 2 a) @ CHR ''.'' #
     dec_digits (octet 1 a) @ CHR ''.'' # dec_digits (octet 0 a)"

definition parse_octet :: "string \<Rightarrow> nat option" where
  "parse_octet s = (if s = [] \<or> \<not> list_all is_digit s \<or> length s > 3 \<or> (length s > 1 \<and> hd s = CHR ''0'') \<or> digits_val s > 255
     then None else Some (digits_val s))"

definition ipv4_parse :: "string \<Rightarrow> u32 option" where
  "ipv4_parse s = (case map parse_octet (split_on (CHR ''.'') s) of
     [Some a, Some b, Some c, Some d] \<Rightarrow> Some (word_of_nat (((a * 256 + b) * 256 + c) * 256 + d))
   | _ \<Rightarrow> None)"

section \<open>Networks\<close>

definition ipv4_mask :: "nat \<Rightarrow> u32" where
  "ipv4_mask prefix = (if prefix = 0 then 0 else push_bit (32 - prefix) (- 1))"

definition ipv4_network :: "u32 \<Rightarrow> nat \<Rightarrow> u32 result" where
  "ipv4_network addr prefix = (if prefix > 32 then Inl Invalid else Inr (addr AND ipv4_mask prefix))"

definition ipv4_contains :: "u32 \<Rightarrow> nat \<Rightarrow> u32 \<Rightarrow> bool" where
  "ipv4_contains network prefix addr \<longleftrightarrow> addr AND ipv4_mask prefix = network"

definition ipv6_mask :: "nat \<Rightarrow> u128" where
  "ipv6_mask prefix = (if prefix = 0 then 0 else push_bit (128 - prefix) (- 1))"

definition ipv6_network :: "u128 \<Rightarrow> nat \<Rightarrow> u128 result" where
  "ipv6_network addr prefix = (if prefix > 128 then Inl Invalid else Inr (addr AND ipv6_mask prefix))"

datatype cidr_net = V4 u32 nat | V6 u128 nat

datatype ip_addr = IpV4 u32 | IpV6 u128

fun cidr_contains :: "cidr_net \<Rightarrow> ip_addr \<Rightarrow> bool" where
  "cidr_contains (V4 network prefix) (IpV4 addr) = ipv4_contains network prefix addr"
| "cidr_contains (V6 network prefix) (IpV6 addr) = (addr AND ipv6_mask prefix = network)"
| "cidr_contains _ _ = False"

definition ip_allowed :: "ip_addr \<Rightarrow> cidr_net list \<Rightarrow> bool" where
  "ip_allowed addr nets = list_ex (\<lambda>net. cidr_contains net addr) nets"

definition parse_ip :: "(string \<Rightarrow> u128 option) \<Rightarrow> string \<Rightarrow> ip_addr result" where
  "parse_ip v6 s = (case ipv4_parse s of
     Some a \<Rightarrow> Inr (IpV4 a)
   | None \<Rightarrow> (case v6 s of Some a \<Rightarrow> Inr (IpV6 a) | None \<Rightarrow> Inl Invalid))"

definition parse_prefix :: "string option \<Rightarrow> nat \<Rightarrow> nat result" where
  "parse_prefix prefix max_prefix = (case prefix of
     None \<Rightarrow> Inr max_prefix
   | Some p \<Rightarrow> (case parse_uint 255 p of
       None \<Rightarrow> Inl Invalid
     | Some n \<Rightarrow> if n > max_prefix then Inl Invalid else Inr n))"

definition cidr_from_str :: "(string \<Rightarrow> u128 option) \<Rightarrow> string \<Rightarrow> cidr_net result" where
  "cidr_from_str v6 s =
     (let s = trim s in
      if s = [] then Inl Invalid
      else let (addr_s, prefix_s) = (case split_once (CHR ''/'') s of None \<Rightarrow> (s, None) | Some (a, p) \<Rightarrow> (a, Some p))
      in rbind (parse_ip v6 addr_s) (\<lambda>addr. case addr of
           IpV4 a \<Rightarrow> rbind (parse_prefix prefix_s 32) (\<lambda>p. rbind (ipv4_network a p) (\<lambda>n. Inr (V4 n p)))
         | IpV6 a \<Rightarrow> rbind (parse_prefix prefix_s 128) (\<lambda>p. rbind (ipv6_network a p) (\<lambda>n. Inr (V6 n p)))))"

text \<open>\<^verbatim>\<open>{network}/{prefix}\<close>.\<close>

definition cidr_v4_string :: "u32 \<Rightarrow> nat \<Rightarrow> string" where
  "cidr_v4_string network prefix = ipv4_to_string network @ CHR ''/'' # dec_digits prefix"

section \<open>Round trips\<close>

lemma octet_bound: "octet i a < 256"
  by (simp add: octet_def)

lemma dec_digits_length: "n < 1000 \<Longrightarrow> length (dec_digits n) \<le> 3"
  by (subst dec_digits.simps, subst dec_digits.simps, subst dec_digits.simps) (auto simp: div_less_iff_less_mult)

lemma dec_digits_no_leading_zero: "0 < n \<Longrightarrow> hd (dec_digits n) \<noteq> CHR ''0''"
proof (induction n rule: dec_digits.induct)
  case (1 n)
  show ?case
  proof (cases "n < 10")
    case True
    have "of_char (char_of (48 + n) :: char) = 48 + n" using True by (simp add: digit_val)
    then have "(char_of (48 + n) :: char) \<noteq> CHR ''0''" using 1(2) by force
    then show ?thesis using True by (subst dec_digits.simps) simp
  next
    case False
    then show ?thesis using 1(1) by (subst dec_digits.simps) (simp add: hd_append)
  qed
qed

lemma parse_octet_dec_digits: "n < 256 \<Longrightarrow> parse_octet (dec_digits n) = Some n"
proof -
  assume n: "n < 256"
  have "\<not> (length (dec_digits n) > 1 \<and> hd (dec_digits n) = CHR ''0'')"
    using dec_digits_no_leading_zero [of n] by (cases "n = 0") (auto simp: dec_digits.simps [of 0])
  then show ?thesis
    using n dec_digits_digits [of n] dec_digits_length [of n] by (auto simp: parse_octet_def)
qed

lemma not_digits: "\<not> is_digit CHR ''.''" "\<not> is_digit CHR ''/''"
  by (simp_all add: is_digit_def less_eq_char_def)

lemma octets_value: "((octet 3 a * 256 + octet 2 a) * 256 + octet 1 a) * 256 + octet 0 a = unat a"
proof -
  define b c d where "b = unat a div 256" and "c = b div 256" and "d = c div 256"
  have "unat a < 256 * (256 * (256 * 256))" using unsigned_less [of a, where 'a = nat] by simp
  then have "d < 256" by (simp add: b_def c_def d_def div_less_iff_less_mult)
  moreover have "octet 1 a = b mod 256" "octet 2 a = c mod 256" "octet 3 a = d mod 256" "octet 0 a = unat a mod 256"
    by (simp_all add: octet_def b_def c_def d_def div_mult2_eq [symmetric])
  moreover have "b * 256 + unat a mod 256 = unat a" "c * 256 + b mod 256 = b" "d * 256 + c mod 256 = c"
    by (simp_all only: b_def c_def d_def div_mult_mod_eq)
  ultimately show ?thesis by simp
qed

lemma ipv4_parse_to_string: "ipv4_parse (ipv4_to_string a) = Some a"
proof -
  note absent = digit_not_mem [OF not_digits(1)]
  have "split_on (CHR ''.'') (ipv4_to_string a) = map dec_digits [octet 3 a, octet 2 a, octet 1 a, octet 0 a]"
    by (simp add: ipv4_to_string_def split_on_append split_on_absent absent)
  then show ?thesis
    using octets_value [of a] by (simp add: ipv4_parse_def parse_octet_dec_digits octet_bound)
qed

lemma slash_absent: "CHR ''/'' \<notin> set (ipv4_to_string a)"
  by (simp add: ipv4_to_string_def digit_not_mem [OF not_digits(2)])

lemma trim_id: "s \<noteq> [] \<Longrightarrow> \<not> is_whitespace (hd s) \<Longrightarrow> \<not> is_whitespace (last s) \<Longrightarrow> trim s = s"
proof -
  have keep: "xs \<noteq> [] \<Longrightarrow> \<not> is_whitespace (hd xs) \<Longrightarrow> dropWhile is_whitespace xs = xs" for xs by (cases xs) auto
  assume "s \<noteq> []" "\<not> is_whitespace (hd s)" "\<not> is_whitespace (last s)"
  then show ?thesis using keep [of s] keep [of "rev s"] by (simp add: trim_def hd_rev)
qed

lemma digit_not_whitespace: "is_digit c \<Longrightarrow> \<not> is_whitespace c"
  by (auto simp: is_digit_def is_whitespace_def less_eq_char_def)

lemma cidr_roundtrip:
  assumes "prefix \<le> 32" "network AND ipv4_mask prefix = network"
  shows "cidr_from_str v6 (cidr_v4_string network prefix) = Inr (V4 network prefix)"
proof -
  let ?s = "cidr_v4_string network prefix"
  have "is_digit (hd (dec_digits n))" "is_digit (last (dec_digits n))" for n
    using dec_digits_digits [of n] by (auto simp: list_all_iff)
  then have "trim ?s = ?s"
    by (intro trim_id) (auto simp: cidr_v4_string_def ipv4_to_string_def digit_not_whitespace)
  moreover have "?s \<noteq> []" by (simp add: cidr_v4_string_def)
  moreover have "split_once (CHR ''/'') ?s = Some (ipv4_to_string network, dec_digits prefix)"
    by (simp add: cidr_v4_string_def split_once_append slash_absent)
  moreover have "parse_prefix (Some (dec_digits prefix)) 32 = Inr prefix"
    using assms(1) by (simp add: parse_prefix_def parse_uint_dec_digits)
  ultimately show ?thesis
    using assms by (simp add: cidr_from_str_def Let_def parse_ip_def ipv4_parse_to_string rbind_def ipv4_network_def)
qed

end
