(* ===== verification/Allocator.thy ===== *)
theory Allocator
  imports Prelude
begin

text \<open>
  The contract of the host's network allocators: a resource belongs to at most one holder, and a holder
  keeps its resource until an operation releases it. What a client derives for every sequence of
  operations is proved once here; the slot pool and the lease allocator interpret it.
\<close>

text \<open>No operation of the sequence releases the resource of \<open>a\<close>.\<close>

fun quiet :: "('op \<Rightarrow> 's \<Rightarrow> string \<Rightarrow> bool) \<Rightarrow> ('op \<Rightarrow> 's \<Rightarrow> 's) \<Rightarrow> string \<Rightarrow> 'op list \<Rightarrow> 's \<Rightarrow> bool" where
  "quiet releases step a [] s = True"
| "quiet releases step a (op # ops) s = (\<not> releases op s a \<and> quiet releases step a ops (step op s))"

locale exclusive_allocator =
  fixes inv :: "'s \<Rightarrow> bool"
    and holding :: "'s \<Rightarrow> string \<Rightarrow> 'b option"
    and step :: "'op \<Rightarrow> 's \<Rightarrow> 's"
    and releases :: "'op \<Rightarrow> 's \<Rightarrow> string \<Rightarrow> bool"
  assumes inv_step: "inv s \<Longrightarrow> inv (step op s)"
    and exclusive: "inv s \<Longrightarrow> holding s a = Some b \<Longrightarrow> holding s a' = Some b \<Longrightarrow> a' = a"
    and stable: "inv s \<Longrightarrow> holding s a = Some b \<Longrightarrow> \<not> releases op s a \<Longrightarrow> holding (step op s) a = Some b"
begin

lemma inv_run: "inv s \<Longrightarrow> inv (fold step ops s)"
  by (induction ops arbitrary: s) (simp_all add: inv_step)

lemma exclusive_run:
  "inv s \<Longrightarrow> holding (fold step ops s) a = Some b \<Longrightarrow> holding (fold step ops s) a' = Some b \<Longrightarrow> a' = a"
  using exclusive inv_run by blast

lemma stable_run:
  "inv s \<Longrightarrow> holding s a = Some b \<Longrightarrow> quiet releases step a ops s \<Longrightarrow> holding (fold step ops s) a = Some b"
proof (induction ops arbitrary: s)
  case (Cons op ops)
  have "holding (step op s) a = Some b" using Cons.prems by (intro stable) simp_all
  then show ?case using Cons inv_step by simp
qed simp

lemma kept_from_others:
  "inv s \<Longrightarrow> holding s a = Some b \<Longrightarrow> quiet releases step a ops s \<Longrightarrow> a' \<noteq> a \<Longrightarrow> holding (fold step ops s) a' \<noteq> Some b"
  using stable_run exclusive_run by blast

end

end
