(* ===== verification/LeaseAlloc.thy ===== *)
theory LeaseAlloc
  imports Ipv4 Allocator
begin

unbundle bit_operations_syntax

text \<open>
  The /30 lease allocator of \<^verbatim>\<open>vmond/src/net.rs\<close> (\<^verbatim>\<open>LeaseAllocator\<close>, \<^verbatim>\<open>LeaseStore\<close>): one block of four addresses per
  sandbox out of 172.20.0.0/16, the table of leases, the ordered set of free blocks, and the
  journal that a background thread writes. \<open>tap_name\<close> (a SHA-1 of the sandbox name) and the textual form of
  IPv6 addresses (\<open>v6\<close>) are arguments; the journal's text stands for the lease table it prints.
\<close>

section \<open>Allocator\<close>

definition POOL_BASE :: u32 where "POOL_BASE = 0xAC140000"
definition POOL_SIZE :: nat where "POOL_SIZE = 65536"
definition LEASE_PREFIX :: nat where "LEASE_PREFIX = 30"
definition LEASE_STEP :: nat where "LEASE_STEP = 4"
definition DEFAULT_DNS :: "string list" where "DEFAULT_DNS = [''1.1.1.1'', ''8.8.8.8'']"

record lease_entry =
  le_network :: string
  le_tap :: "string option"

type_synonym leases = "string \<Rightarrow> lease_entry option"

text \<open>\<open>la_free\<close> is the \<^verbatim>\<open>BTreeSet\<close> as its ascending list.\<close>

record lease_allocator =
  la_leases :: leases
  la_free :: "u32 list"

record guest_config =
  gc_tap :: string
  gc_host_ip :: string
  gc_guest_ip :: string
  gc_prefix :: nat
  gc_network :: string
  gc_dns :: "string list"

definition pool_blocks :: "u32 list" where
  "pool_blocks = map (\<lambda>i. POOL_BASE + word_of_nat (LEASE_STEP * i)) [0..<POOL_SIZE div LEASE_STEP]"

definition lease_network_base :: "(string \<Rightarrow> u128 option) \<Rightarrow> string \<Rightarrow> u32 option" where
  "lease_network_base v6 network = (case cidr_from_str v6 network of
     Inr (V4 n p) \<Rightarrow> if p = LEASE_PREFIX then Some n else None
   | _ \<Rightarrow> None)"

definition held_bases :: "(string \<Rightarrow> u128 option) \<Rightarrow> leases \<Rightarrow> u32 set" where
  "held_bases v6 leases = {b. \<exists>e\<in>ran leases. lease_network_base v6 (le_network e) = Some b}"

text \<open>\<open>None\<close>: the journal is missing or blank.\<close>

definition lease_load :: "(string \<Rightarrow> u128 option) \<Rightarrow> leases option \<Rightarrow> lease_allocator" where
  "lease_load v6 journal =
     (let leases = (case journal of None \<Rightarrow> (\<lambda>_. None) | Some l \<Rightarrow> l)
      in \<lparr>la_leases = leases, la_free = filter (\<lambda>b. b \<notin> held_bases v6 leases) pool_blocks\<rparr>)"

definition config_from_entry :: "(string \<Rightarrow> string) \<Rightarrow> (string \<Rightarrow> u128 option) \<Rightarrow> string \<Rightarrow> lease_entry \<Rightarrow> string list \<Rightarrow> guest_config result" where
  "config_from_entry tap_name v6 name entry dns =
     rbind (cidr_from_str v6 (le_network entry)) (\<lambda>cidr. case cidr of
       V6 _ _ \<Rightarrow> Inl Invalid
     | V4 network prefix \<Rightarrow> Inr
         \<lparr>gc_tap = (case le_tap entry of Some t \<Rightarrow> t | None \<Rightarrow> tap_name name),
          gc_host_ip = ipv4_to_string (network + 1), gc_guest_ip = ipv4_to_string (network + 2),
          gc_prefix = prefix, gc_network = cidr_v4_string network prefix, gc_dns = dns\<rparr>)"

fun pop_unclaimed :: "u32 set \<Rightarrow> u32 list \<Rightarrow> u32 list \<Rightarrow> u32 option \<times> u32 list \<times> u32 list" where
  "pop_unclaimed claimed [] skipped = (None, [], skipped)"
| "pop_unclaimed claimed (candidate # free) skipped =
     (if candidate \<in> claimed then pop_unclaimed claimed free (skipped @ [candidate])
      else (Some candidate, free, skipped))"

definition lease_allocate :: "(string \<Rightarrow> string) \<Rightarrow> (string \<Rightarrow> u128 option) \<Rightarrow> string \<Rightarrow> string list \<Rightarrow> string option \<Rightarrow> u32 set \<Rightarrow>
    lease_allocator \<Rightarrow> lease_allocator \<times> (guest_config \<times> bool) result" where
  "lease_allocate tap_name v6 name dns tap claimed st = (case la_leases st name of
     Some entry \<Rightarrow> (st, rbind (config_from_entry tap_name v6 name entry dns) (\<lambda>c. Inr (c, False)))
   | None \<Rightarrow>
       let (base, free, skipped) = pop_unclaimed claimed (la_free st) [];
           st = st\<lparr>la_free := fold insort_insert skipped free\<rparr>
       in case base of
            None \<Rightarrow> (st, Inl Engine)
          | Some base \<Rightarrow>
              let entry = \<lparr>le_network = cidr_v4_string base LEASE_PREFIX,
                           le_tap = Some (case tap of Some t \<Rightarrow> t | None \<Rightarrow> tap_name name)\<rparr>
              in case config_from_entry tap_name v6 name entry dns of
                   Inl e \<Rightarrow> (st, Inl e)
                 | Inr config \<Rightarrow> (st\<lparr>la_leases := (la_leases st)(name \<mapsto> entry)\<rparr>, Inr (config, True)))"

definition lease_release :: "(string \<Rightarrow> u128 option) \<Rightarrow> string \<Rightarrow> lease_allocator \<Rightarrow> lease_allocator \<times> bool" where
  "lease_release v6 name st = (case la_leases st name of
     None \<Rightarrow> (st, False)
   | Some entry \<Rightarrow>
       let st = st\<lparr>la_leases := (la_leases st)(name := None)\<rparr>
       in (case lease_network_base v6 (le_network entry) of
             None \<Rightarrow> (st, True)
           | Some base \<Rightarrow> (st\<lparr>la_free := insort_insert base (la_free st)\<rparr>, True)))"

section \<open>Blocks\<close>

lemma block_value: "i < 16384 \<Longrightarrow> unat (POOL_BASE + word_of_nat (4 * i)) = 0xAC140000 + 4 * i"
  by (simp add: POOL_BASE_def unat_word_ariths unsigned_of_nat take_bit_nat_eq_self)

lemma pool_blocks_sorted: "sorted_wrt (<) pool_blocks"
proof -
  have "sorted_wrt (\<lambda>i j. i < j) [0..<16384 :: nat]" by simp
  then have "sorted_wrt (\<lambda>i j. POOL_BASE + word_of_nat (4 * i) < POOL_BASE + word_of_nat (4 * j)) [0..<16384]"
    by (rule sorted_wrt_mono_rel [rotated]) (simp add: word_less_nat_alt block_value del: of_nat_mult)
  then show ?thesis by (simp add: pool_blocks_def POOL_SIZE_def LEASE_STEP_def sorted_wrt_map)
qed

lemma block_aligned:
  assumes "b \<in> set pool_blocks"
  shows "b AND ipv4_mask 30 = b"
proof -
  obtain i where b: "b = POOL_BASE + word_of_nat (4 * i)"
    using assms by (auto simp: pool_blocks_def LEASE_STEP_def)
  then have "b = push_bit 2 (0x2B050000 + word_of_nat i)"
    by (simp add: POOL_BASE_def push_bit_eq_mult)
  moreover have "push_bit 2 w AND ipv4_mask 30 = push_bit 2 w" for w
    unfolding ipv4_mask_def by (rule bit_word_eqI) (auto simp: bit_simps)
  ultimately show ?thesis by simp
qed

lemma block_base: "b \<in> set pool_blocks \<Longrightarrow> lease_network_base v6 (cidr_v4_string b LEASE_PREFIX) = Some b"
  by (simp add: lease_network_base_def cidr_roundtrip block_aligned LEASE_PREFIX_def)

lemma pop_unclaimed_spec:
  "pop_unclaimed claimed free skipped = (base, rest, skipped') \<Longrightarrow>
     (\<exists>xs. skipped' = skipped @ xs \<and> set xs \<subseteq> claimed \<and>
       (case base of None \<Rightarrow> free = xs \<and> rest = [] | Some b \<Rightarrow> free = xs @ b # rest \<and> b \<notin> claimed))"
proof (induction claimed free skipped rule: pop_unclaimed.induct)
  case (2 claimed candidate free skipped)
  show ?case
  proof (cases "candidate \<in> claimed")
    case True
    then obtain xs where "skipped' = (skipped @ [candidate]) @ xs" "set xs \<subseteq> claimed"
        "case base of None \<Rightarrow> free = xs \<and> rest = [] | Some b \<Rightarrow> free = xs @ b # rest \<and> b \<notin> claimed"
      using 2 by auto
    then show ?thesis using True by (intro exI [of _ "candidate # xs"]) (auto split: option.splits)
  next
    case False
    then show ?thesis using 2(2) by auto
  qed
qed auto

lemma fold_insort_insert:
  "sorted ys \<Longrightarrow> distinct ys \<Longrightarrow> sorted (fold insort_insert xs ys) \<and> distinct (fold insort_insert xs ys) \<and>
     set (fold insort_insert xs ys) = set xs \<union> set ys"
  by (induction xs arbitrary: ys) (auto simp: sorted_insort_insert distinct_insort_insert set_insort_insert)

section \<open>Invariant\<close>

definition lease_ok :: "(string \<Rightarrow> u128 option) \<Rightarrow> lease_allocator \<Rightarrow> bool" where
  "lease_ok v6 st \<longleftrightarrow>
     (\<forall>n e. la_leases st n = Some e \<longrightarrow> (\<exists>b\<in>set pool_blocks. le_network e = cidr_v4_string b LEASE_PREFIX)) \<and>
     (\<forall>n n' e e'. la_leases st n = Some e \<longrightarrow> la_leases st n' = Some e' \<longrightarrow> le_network e = le_network e' \<longrightarrow> n = n') \<and>
     sorted (la_free st) \<and> distinct (la_free st) \<and> set (la_free st) = set pool_blocks - held_bases v6 (la_leases st)"

definition lease_holding :: "(string \<Rightarrow> u128 option) \<Rightarrow> lease_allocator \<Rightarrow> string \<Rightarrow> u32 option" where
  "lease_holding v6 st name = Option.bind (la_leases st name) (\<lambda>e. lease_network_base v6 (le_network e))"

lemma lease_base: "lease_ok v6 st \<Longrightarrow> la_leases st n = Some e \<Longrightarrow>
   \<exists>b\<in>set pool_blocks. le_network e = cidr_v4_string b LEASE_PREFIX \<and> lease_network_base v6 (le_network e) = Some b"
  unfolding lease_ok_def by (metis block_base)

lemma lease_exclusive:
  assumes "lease_ok v6 st" "lease_holding v6 st a = Some b" "lease_holding v6 st a' = Some b"
  shows "a' = a"
proof -
  obtain e e' where e: "la_leases st a = Some e" "la_leases st a' = Some e'"
    using assms(2,3) by (auto simp: lease_holding_def bind_eq_Some_conv)
  have "le_network e = cidr_v4_string b LEASE_PREFIX" "le_network e' = cidr_v4_string b LEASE_PREFIX"
    using lease_base [OF assms(1) e(1)] lease_base [OF assms(1) e(2)] assms(2,3) e by (auto simp: lease_holding_def)
  then show ?thesis using assms(1) e unfolding lease_ok_def by metis
qed

lemma held_fresh:
  "leases n = None \<Longrightarrow> b \<in> set pool_blocks \<Longrightarrow>
   held_bases v6 (leases(n \<mapsto> \<lparr>le_network = cidr_v4_string b LEASE_PREFIX, le_tap = t\<rparr>)) = insert b (held_bases v6 leases)"
  by (auto simp: held_bases_def ran_map_upd block_base)

lemma held_iff: "b \<in> held_bases v6 leases \<longleftrightarrow> (\<exists>n e. leases n = Some e \<and> lease_network_base v6 (le_network e) = Some b)"
  by (auto simp: held_bases_def ran_def)

lemma config_block:
  "b \<in> set pool_blocks \<Longrightarrow> config_from_entry tap_name v6 name \<lparr>le_network = cidr_v4_string b LEASE_PREFIX, le_tap = Some t\<rparr> dns =
     Inr \<lparr>gc_tap = t, gc_host_ip = ipv4_to_string (b + 1), gc_guest_ip = ipv4_to_string (b + 2), gc_prefix = LEASE_PREFIX,
          gc_network = cidr_v4_string b LEASE_PREFIX, gc_dns = dns\<rparr>"
  by (simp add: config_from_entry_def cidr_roundtrip block_aligned LEASE_PREFIX_def rbind_def)

text \<open>A new lease: the lowest free block the host does not use, or an error when there is none.\<close>

lemma allocate_new:
  assumes ok: "lease_ok v6 st" and new: "la_leases st name = None"
  shows "case find (\<lambda>b. b \<notin> claimed) (la_free st) of
      None \<Rightarrow> lease_allocate tap_name v6 name dns tap claimed st = (st, Inl Engine)
    | Some b \<Rightarrow> b \<in> set (la_free st) \<and>
        lease_allocate tap_name v6 name dns tap claimed st =
          (\<lparr>la_leases = (la_leases st)(name \<mapsto> \<lparr>le_network = cidr_v4_string b LEASE_PREFIX,
               le_tap = Some (case tap of Some t \<Rightarrow> t | None \<Rightarrow> tap_name name)\<rparr>), la_free = remove1 b (la_free st)\<rparr>,
           Inr (\<lparr>gc_tap = (case tap of Some t \<Rightarrow> t | None \<Rightarrow> tap_name name), gc_host_ip = ipv4_to_string (b + 1),
                 gc_guest_ip = ipv4_to_string (b + 2), gc_prefix = LEASE_PREFIX, gc_network = cidr_v4_string b LEASE_PREFIX, gc_dns = dns\<rparr>, True))"
proof -
  have free: "sorted (la_free st)" "distinct (la_free st)" "set (la_free st) \<subseteq> set pool_blocks"
    using ok by (auto simp: lease_ok_def)
  obtain base rest skipped where pop: "pop_unclaimed claimed (la_free st) [] = (base, rest, skipped)"
    by (metis prod_cases3)
  then have sk: "set skipped \<subseteq> claimed"
      and split: "case base of None \<Rightarrow> la_free st = skipped \<and> rest = [] | Some b \<Rightarrow> la_free st = skipped @ b # rest \<and> b \<notin> claimed"
    using pop_unclaimed_spec [OF pop] by auto
  show ?thesis
  proof (cases base)
    case None
    then have fs: "la_free st = skipped" "rest = []" using split by auto
    have "fold insort_insert skipped [] = skipped"
      using fold_insort_insert [of "[]" skipped] free fs by (intro sorted_distinct_set_unique) auto
    moreover have "find (\<lambda>b. b \<notin> claimed) (la_free st) = None" using sk fs by (auto simp: find_None_iff)
    ultimately show ?thesis using pop None new fs by (auto simp: lease_allocate_def)
  next
    case (Some b)
    then have fs: "la_free st = skipped @ b # rest" "b \<notin> claimed" using split by auto
    have srt: "sorted (skipped @ rest)" "distinct (skipped @ rest)" "b \<notin> set skipped" "sorted rest" "distinct rest"
      using free fs by (auto simp: sorted_append)
    have "fold insort_insert skipped rest = skipped @ rest"
      using fold_insort_insert [of rest skipped] srt by (intro sorted_distinct_set_unique) auto
    moreover have "find (\<lambda>b. b \<notin> claimed) (la_free st) = Some b"
    proof -
      have "find P (xs @ ys) = find P ys" if "\<forall>x\<in>set xs. \<not> P x" for P xs and ys :: "u32 list"
        using that by (induction xs) auto
      then show ?thesis using sk fs by (auto simp: subset_iff)
    qed
    moreover have "remove1 b (la_free st) = skipped @ rest" using fs srt(3) by (simp add: remove1_append)
    moreover have "b \<in> set pool_blocks" using free(3) fs by auto
    ultimately show ?thesis using pop Some new fs by (simp add: lease_allocate_def Let_def config_block)
  qed
qed

lemma allocate_existing: "la_leases st name = Some e \<Longrightarrow> fst (lease_allocate tap_name v6 name dns tap claimed st) = st"
  by (simp add: lease_allocate_def)

lemma allocate_cases:
  assumes "lease_ok v6 st"
  obtains "fst (lease_allocate tap_name v6 name dns tap claimed st) = st"
  | b t where "la_leases st name = None" "b \<in> set (la_free st)"
      "fst (lease_allocate tap_name v6 name dns tap claimed st) =
        \<lparr>la_leases = (la_leases st)(name \<mapsto> \<lparr>le_network = cidr_v4_string b LEASE_PREFIX, le_tap = t\<rparr>), la_free = remove1 b (la_free st)\<rparr>"
proof (cases "la_leases st name")
  case None
  show ?thesis
  proof (cases "find (\<lambda>b. b \<notin> claimed) (la_free st)")
    case None2: None
    then show ?thesis using allocate_new [OF assms None, where claimed = claimed and tap_name = tap_name and dns = dns and tap = tap] that(1) by simp
  next
    case (Some b)
    then show ?thesis using allocate_new [OF assms None, where claimed = claimed and tap_name = tap_name and dns = dns and tap = tap] that(2) [OF None] by auto
  qed
next
  case (Some e)
  then show ?thesis using that(1) allocate_existing by metis
qed

lemma cidr_block_inj: "b \<in> set pool_blocks \<Longrightarrow> b' \<in> set pool_blocks \<Longrightarrow>
   cidr_v4_string b LEASE_PREFIX = cidr_v4_string b' LEASE_PREFIX \<Longrightarrow> b = b'"
  using block_base [of b] block_base [of b'] by (metis option.inject)

lemma free_not_leased:
  assumes "lease_ok v6 st" "b \<in> set (la_free st)" "la_leases st n = Some e"
  shows "le_network e \<noteq> cidr_v4_string b LEASE_PREFIX"
proof
  assume "le_network e = cidr_v4_string b LEASE_PREFIX"
  then have "b \<in> held_bases v6 (la_leases st)"
    using assms by (auto simp: held_iff lease_ok_def block_base intro!: exI [of _ n])
  then show False using assms(1,2) by (auto simp: lease_ok_def)
qed

lemma allocate_ok:
  assumes ok: "lease_ok v6 st"
  shows "lease_ok v6 (fst (lease_allocate tap_name v6 name dns tap claimed st))"
proof (rule allocate_cases [OF ok, of tap_name name dns tap claimed])
  fix b t
  assume new: "la_leases st name = None" and b: "b \<in> set (la_free st)"
    and eq: "fst (lease_allocate tap_name v6 name dns tap claimed st) =
        \<lparr>la_leases = (la_leases st)(name \<mapsto> \<lparr>le_network = cidr_v4_string b LEASE_PREFIX, le_tap = t\<rparr>), la_free = remove1 b (la_free st)\<rparr>"
  have block: "b \<in> set pool_blocks" using ok b by (auto simp: lease_ok_def)
  have "sorted (remove1 b (la_free st))" "distinct (remove1 b (la_free st))" "set (remove1 b (la_free st)) = set (la_free st) - {b}"
    using ok by (auto simp: lease_ok_def sorted_remove1)
  moreover have "set (la_free st) = set pool_blocks - held_bases v6 (la_leases st)" using ok by (simp add: lease_ok_def)
  ultimately show ?thesis
    using ok free_not_leased [OF ok b] held_fresh [of "la_leases st" name b v6 t] new block
    unfolding eq lease_ok_def by (auto split: if_splits) metis+
qed (use ok in simp)

lemma release_some:
  assumes ok: "lease_ok v6 st" and e: "la_leases st name = Some e"
  obtains b where "b \<in> set pool_blocks" "le_network e = cidr_v4_string b LEASE_PREFIX"
    "lease_release v6 name st = (\<lparr>la_leases = (la_leases st)(name := None), la_free = insort_insert b (la_free st)\<rparr>, True)"
proof -
  obtain b where "b \<in> set pool_blocks" "le_network e = cidr_v4_string b LEASE_PREFIX" "lease_network_base v6 (le_network e) = Some b"
    using lease_base [OF ok e] by blast
  then show thesis using that e by (simp add: lease_release_def Let_def)
qed

lemma release_ok:
  assumes ok: "lease_ok v6 st"
  shows "lease_ok v6 (fst (lease_release v6 name st))"
proof (cases "la_leases st name")
  case (Some e)
  obtain b where b: "b \<in> set pool_blocks" "le_network e = cidr_v4_string b LEASE_PREFIX"
    and eq: "lease_release v6 name st = (\<lparr>la_leases = (la_leases st)(name := None), la_free = insort_insert b (la_free st)\<rparr>, True)"
    using release_some [OF ok Some] .
  let ?l = "(la_leases st)(name := None)"
  have other: "le_network e' \<noteq> cidr_v4_string b LEASE_PREFIX" if "la_leases st n = Some e'" "n \<noteq> name" for n e'
    using ok that Some b(2) unfolding lease_ok_def by metis
  have "held_bases v6 ?l = held_bases v6 (la_leases st) - {b}"
  proof (intro set_eqI iffI)
    fix c assume "c \<in> held_bases v6 ?l"
    then obtain n e' where n: "la_leases st n = Some e'" "n \<noteq> name" "lease_network_base v6 (le_network e') = Some c"
      by (auto simp: held_iff split: if_splits)
    moreover have "c \<noteq> b" using other [OF n(1,2)] lease_base [OF ok n(1)] n(3) by auto
    ultimately show "c \<in> held_bases v6 (la_leases st) - {b}" by (auto simp: held_iff)
  next
    fix c assume "c \<in> held_bases v6 (la_leases st) - {b}"
    then obtain n e' where n: "la_leases st n = Some e'" "lease_network_base v6 (le_network e') = Some c" "c \<noteq> b"
      by (auto simp: held_iff)
    then have "n \<noteq> name" using Some b block_base [OF b(1)] by auto
    then show "c \<in> held_bases v6 ?l" using n by (auto simp: held_iff)
  qed
  moreover have "b \<in> held_bases v6 (la_leases st)"
    unfolding held_iff using Some b block_base by (intro exI [of _ name] exI [of _ e]) simp
  ultimately show ?thesis
    using ok b(1) unfolding eq lease_ok_def
    by (auto simp: sorted_insort_insert distinct_insort_insert set_insort_insert split: if_splits)
qed (use ok in \<open>simp add: lease_release_def\<close>)

lemma load_ok:
  assumes "\<forall>n e. l n = Some e \<longrightarrow> (\<exists>b\<in>set pool_blocks. le_network e = cidr_v4_string b LEASE_PREFIX)"
    "\<forall>n n' e e'. l n = Some e \<longrightarrow> l n' = Some e' \<longrightarrow> le_network e = le_network e' \<longrightarrow> n = n'"
  shows "lease_ok v6 (lease_load v6 (Some l))"
proof -
  have "sorted pool_blocks" "distinct pool_blocks"
    using pool_blocks_sorted by (simp_all add: strict_sorted_iff)
  then show ?thesis
    using assms by (auto simp: lease_ok_def lease_load_def Let_def sorted_wrt_filter)
qed

lemma load_empty: "lease_load v6 None = lease_load v6 (Some (\<lambda>_. None))"
  by (simp add: lease_load_def)

text \<open>Loading the journal of the current leases gives the allocator back.\<close>

lemma load_current:
  assumes "lease_ok v6 st"
  shows "lease_load v6 (Some (la_leases st)) = st"
proof -
  have "lease_ok v6 (lease_load v6 (Some (la_leases st)))"
    using assms by (intro load_ok) (auto simp: lease_ok_def)
  then have "la_free (lease_load v6 (Some (la_leases st))) = la_free st"
    using assms by (intro sorted_distinct_set_unique) (auto simp: lease_ok_def lease_load_def Let_def)
  then show ?thesis by (simp add: lease_load_def Let_def)
qed

section \<open>The allocator contract\<close>

datatype lease_op =
    LeaseAllocate string "string list" "string option" "u32 set"
  | LeaseRelease string
  | LeaseRestart

fun lease_step :: "(string \<Rightarrow> string) \<Rightarrow> (string \<Rightarrow> u128 option) \<Rightarrow> lease_op \<Rightarrow> lease_allocator \<Rightarrow> lease_allocator" where
  "lease_step tap_name v6 (LeaseAllocate name dns tap claimed) st = fst (lease_allocate tap_name v6 name dns tap claimed st)"
| "lease_step tap_name v6 (LeaseRelease name) st = fst (lease_release v6 name st)"
| "lease_step tap_name v6 LeaseRestart st = lease_load v6 (Some (la_leases st))"

definition lease_releases :: "lease_op \<Rightarrow> lease_allocator \<Rightarrow> string \<Rightarrow> bool" where
  "lease_releases op st name \<longleftrightarrow> op = LeaseRelease name"

lemma lease_stable:
  assumes ok: "lease_ok v6 st" and holds: "lease_holding v6 st a = Some b" and "\<not> lease_releases op st a"
  shows "lease_holding v6 (lease_step tap_name v6 op st) a = Some b"
proof (cases op)
  case (LeaseAllocate name dns tap claimed)
  show ?thesis
  proof (rule allocate_cases [OF ok, of tap_name name dns tap claimed])
    fix c t
    assume "la_leases st name = None"
      "fst (lease_allocate tap_name v6 name dns tap claimed st) =
        \<lparr>la_leases = (la_leases st)(name \<mapsto> \<lparr>le_network = cidr_v4_string c LEASE_PREFIX, le_tap = t\<rparr>), la_free = remove1 c (la_free st)\<rparr>"
    then show ?thesis using holds LeaseAllocate by (auto simp: lease_holding_def)
  qed (use holds LeaseAllocate in simp)
next
  case (LeaseRelease name)
  then have "name \<noteq> a" using assms(3) by (simp add: lease_releases_def)
  then show ?thesis using holds LeaseRelease
    by (auto simp: lease_holding_def lease_release_def Let_def split: option.splits)
next
  case LeaseRestart
  then show ?thesis using holds load_current [OF ok] by simp
qed

interpretation lease_blocks: exclusive_allocator "lease_ok v6" "lease_holding v6" "lease_step tap_name v6" lease_releases
  for tap_name v6
proof
  fix st op assume "lease_ok v6 st"
  then show "lease_ok v6 (lease_step tap_name v6 op st)"
    by (cases op) (simp_all add: allocate_ok release_ok load_current)
qed (auto intro: lease_exclusive lease_stable)

section \<open>Journal\<close>

text \<open>
  The store behind the allocator: a thread that changed the table takes a snapshot under the lock, releases the
  lock and only then sends the snapshot; the writer drains what has arrived and writes the
  last. \<open>ls_pending\<close> holds the snapshots between the two.
\<close>

record lease_store =
  ls_alloc :: lease_allocator
  ls_pending :: "nat \<Rightarrow> leases option"
  ls_queue :: "leases list"
  ls_disk :: "leases option"

inductive store_step :: "(string \<Rightarrow> string) \<Rightarrow> (string \<Rightarrow> u128 option) \<Rightarrow> nat \<Rightarrow> lease_store \<Rightarrow> lease_store \<Rightarrow> bool"
  for tap_name :: "string \<Rightarrow> string" and v6 :: "string \<Rightarrow> u128 option" where
  allocate_changed: "ls_pending s t = None \<Longrightarrow> lease_allocate tap_name v6 name dns tap claimed (ls_alloc s) = (st, Inr (config, True)) \<Longrightarrow>
     store_step tap_name v6 t s (s\<lparr>ls_alloc := st, ls_pending := (ls_pending s)(t \<mapsto> la_leases st)\<rparr>)"
| release_changed: "ls_pending s t = None \<Longrightarrow> lease_release v6 name (ls_alloc s) = (st, True) \<Longrightarrow>
     store_step tap_name v6 t s (s\<lparr>ls_alloc := st, ls_pending := (ls_pending s)(t \<mapsto> la_leases st)\<rparr>)"
| send: "ls_pending s t = Some l \<Longrightarrow>
     store_step tap_name v6 t s (s\<lparr>ls_pending := (ls_pending s)(t := None), ls_queue := ls_queue s @ [l]\<rparr>)"
| journal_writer: "ls_queue s = ls @ rest \<Longrightarrow> ls \<noteq> [] \<Longrightarrow>
     store_step tap_name v6 t s (s\<lparr>ls_queue := rest, ls_disk := Some (last ls)\<rparr>)"

inductive store_run :: "(string \<Rightarrow> string) \<Rightarrow> (string \<Rightarrow> u128 option) \<Rightarrow> nat set \<Rightarrow> lease_store \<Rightarrow> lease_store \<Rightarrow> bool"
  for tap_name :: "string \<Rightarrow> string" and v6 :: "string \<Rightarrow> u128 option" and T :: "nat set" where
  run_refl: "store_run tap_name v6 T s s"
| run_step: "store_run tap_name v6 T s s' \<Longrightarrow> t \<in> T \<Longrightarrow> store_step tap_name v6 t s' s'' \<Longrightarrow> store_run tap_name v6 T s s''"

definition store_new :: "(string \<Rightarrow> u128 option) \<Rightarrow> leases option \<Rightarrow> lease_store" where
  "store_new v6 journal = \<lparr>ls_alloc = lease_load v6 journal, ls_pending = (\<lambda>_. None), ls_queue = [], ls_disk = journal\<rparr>"

text \<open>What the journal will hold once the writer has caught up, for one thread.\<close>

definition journal_current :: "nat \<Rightarrow> lease_store \<Rightarrow> bool" where
  "journal_current t s \<longleftrightarrow> (\<forall>t'. t' \<noteq> t \<longrightarrow> ls_pending s t' = None) \<and>
     (case ls_pending s t of
        Some l \<Rightarrow> l = la_leases (ls_alloc s)
      | None \<Rightarrow> (if ls_queue s = [] then (case ls_disk s of None \<Rightarrow> (\<lambda>_. None) | Some l \<Rightarrow> l) else last (ls_queue s)) = la_leases (ls_alloc s))"

lemma journal_current_step:
  assumes "store_step tap_name v6 t s s'" "journal_current t s"
  shows "journal_current t s'"
  using assms
proof cases
  case (journal_writer ls rest)
  then show ?thesis using assms(2) by (auto simp: journal_current_def split: option.splits if_splits)
qed (auto simp: journal_current_def)

lemma journal_current_run: "store_run tap_name v6 {t} s s' \<Longrightarrow> journal_current t s \<Longrightarrow> journal_current t s'"
  by (induction rule: store_run.induct) (auto dest: journal_current_step)

section \<open>Properties\<close>

lemma pool_blocks_split: obtains free where "pool_blocks = POOL_BASE # (POOL_BASE + 4) # free"
proof -
  have two: "map f [0..<n] = f 0 # f 1 # tl (tl (map f [0..<n]))" if "2 \<le> n" for f :: "nat \<Rightarrow> u32" and n
    using that by (cases n; cases "n - 1") (simp_all add: upt_rec [of 0] upt_rec [of "Suc 0"] del: upt_Suc)
  define n where "n = POOL_SIZE div LEASE_STEP"
  have "2 \<le> n" by (simp add: n_def POOL_SIZE_def LEASE_STEP_def)
  from two [OF this, of "\<lambda>i. POOL_BASE + word_of_nat (LEASE_STEP * i)"]
  have "pool_blocks = POOL_BASE # (POOL_BASE + 4) # tl (tl pool_blocks)"
    unfolding pool_blocks_def n_def [symmetric] by (simp add: LEASE_STEP_def)
  then show thesis by (rule that)
qed

lemma new_ok: "lease_ok v6 (lease_load v6 None)"
  unfolding load_empty by (rule load_ok) simp_all

lemma new_free: "la_free (lease_load v6 None) = pool_blocks" "la_leases (lease_load v6 None) = (\<lambda>_. None)"
  by (simp_all add: lease_load_def held_bases_def)

lemma allocate_next:
  assumes "lease_ok v6 st" "la_leases st name = None" "la_free st = b # free"
  shows "\<exists>c. lease_allocate tap_name v6 name dns None {} st =
    (\<lparr>la_leases = (la_leases st)(name \<mapsto> \<lparr>le_network = cidr_v4_string b LEASE_PREFIX, le_tap = Some (tap_name name)\<rparr>), la_free = free\<rparr>, Inr (c, True))"
  using allocate_new [OF assms(1,2), where claimed = "{}" and tap = None and tap_name = tap_name and dns = dns] assms(3) by simp

text \<open>
  No two sandboxes get the same network block. A sandbox that holds a /30 block keeps it until it releases it, and no
  other sandbox gets it, through any sequence of allocations, releases of others and reloads
  of the journal.
\<close>

theorem lease_blocks_exclusive:
  assumes "lease_ok v6 st" "lease_holding v6 st a = Some b" "quiet lease_releases (lease_step tap_name v6) a ops st" "a' \<noteq> a"
  shows "lease_holding v6 (fold (lease_step tap_name v6) ops st) a = Some b \<and>
    lease_holding v6 (fold (lease_step tap_name v6) ops st) a' \<noteq> Some b"
  using lease_blocks.stable_run [OF assms(1-3)] lease_blocks.kept_from_others [OF assms] by blast

definition sample_leased :: lease_allocator where
  "sample_leased = fst (lease_allocate (\<lambda>n. n) (\<lambda>_. None) ''a'' [] None {} (lease_load (\<lambda>_. None) None))"

theorem lease_blocks_exclusive_witness:
  "lease_holding (\<lambda>_. None) (fold (lease_step (\<lambda>n. n) (\<lambda>_. None)) [LeaseAllocate ''b'' [] None {}, LeaseRestart, LeaseRelease ''b''] sample_leased) ''a'' = Some POOL_BASE"
proof -
  obtain free where blocks: "pool_blocks = POOL_BASE # (POOL_BASE + 4) # free" by (rule pool_blocks_split)
  have "POOL_BASE \<in> set pool_blocks" unfolding blocks by simp
  then have "lease_holding (\<lambda>_. None) sample_leased ''a'' = Some POOL_BASE"
    using allocate_next [OF new_ok, of "\<lambda>_. None" "''a''" POOL_BASE "(POOL_BASE + 4) # free" "\<lambda>n. n" "[]"]
    by (auto simp: sample_leased_def lease_holding_def new_free blocks block_base)
  moreover have "lease_ok (\<lambda>_. None) sample_leased" unfolding sample_leased_def by (rule allocate_ok [OF new_ok])
  ultimately show ?thesis
    using lease_blocks_exclusive [of "\<lambda>_. None" sample_leased "''a''" POOL_BASE "\<lambda>n. n" "[LeaseAllocate ''b'' [] None {}, LeaseRestart, LeaseRelease ''b'']" "''b''"]
    by (simp add: lease_releases_def)
qed

text \<open>
  A new lease is the lowest free block that no host interface uses, with the host at base plus one and the guest at base plus two;
  allocation fails, leaving the allocator unchanged, exactly when every free block is in use on the host.
\<close>

theorem lease_allocate_lowest:
  assumes "lease_ok v6 st" "la_leases st name = None"
  shows "case find (\<lambda>b. b \<notin> claimed) (la_free st) of
      None \<Rightarrow> lease_allocate tap_name v6 name dns None claimed st = (st, Inl Engine)
    | Some b \<Rightarrow> lease_allocate tap_name v6 name dns None claimed st =
          (\<lparr>la_leases = (la_leases st)(name \<mapsto> \<lparr>le_network = cidr_v4_string b LEASE_PREFIX, le_tap = Some (tap_name name)\<rparr>),
            la_free = remove1 b (la_free st)\<rparr>,
           Inr (\<lparr>gc_tap = tap_name name, gc_host_ip = ipv4_to_string (b + 1), gc_guest_ip = ipv4_to_string (b + 2),
                 gc_prefix = LEASE_PREFIX, gc_network = cidr_v4_string b LEASE_PREFIX, gc_dns = dns\<rparr>, True))"
  using allocate_new [OF assms, where claimed = claimed and tap_name = tap_name and dns = dns and tap = None]
  by (auto split: option.splits)

theorem lease_allocate_lowest_witness:
  "map_prod id (map_sum id (gc_guest_ip \<circ> fst)) (lease_allocate (\<lambda>n. n) (\<lambda>_. None) ''a'' [] None {POOL_BASE} (lease_load (\<lambda>_. None) None)) =
     (\<lparr>la_leases = [''a'' \<mapsto> \<lparr>le_network = cidr_v4_string (POOL_BASE + 4) LEASE_PREFIX, le_tap = Some ''a''\<rparr>],
       la_free = remove1 (POOL_BASE + 4) pool_blocks\<rparr>, Inr (ipv4_to_string (POOL_BASE + 4 + 2)))"
proof -
  obtain free where blocks: "pool_blocks = POOL_BASE # (POOL_BASE + 4) # free" by (rule pool_blocks_split)
  have "find (\<lambda>b. b \<notin> {POOL_BASE}) (la_free (lease_load (\<lambda>_. None) None)) = Some (POOL_BASE + 4)"
    unfolding new_free blocks by simp
  then show ?thesis
    using lease_allocate_lowest [OF new_ok, where ?v6.0 = "\<lambda>_. None" and name = "''a''" and claimed = "{POOL_BASE}" and tap_name = "\<lambda>n. n" and dns = "[]"] by (simp add: new_free)
qed

text \<open>
  Concurrent changes can leave the lease journal behind for good. The snapshot is sent after the lock is released, so two threads
  can send theirs in the wrong order: the writer then leaves the older one, a running
  sandbox is missing from the journal, and after a restart its block is allocated to another sandbox
  unless its interface is still seen on the host.
\<close>

theorem lease_journal_reorder:
  "\<exists>s b. store_run tap_name v6 {0, 1} (store_new v6 None) s \<and> ls_pending s = (\<lambda>_. None) \<and> ls_queue s = [] \<and>
     lease_holding v6 (ls_alloc s) ''b'' = Some b \<and>
     lease_holding v6 (fst (lease_allocate tap_name v6 ''c'' [] None {} (lease_load v6 (ls_disk s)))) ''c'' = Some b"
proof -
  define st0 where "st0 = lease_load v6 None"
  obtain free where blocks: "pool_blocks = POOL_BASE # (POOL_BASE + 4) # free" by (rule pool_blocks_split)
  define la where "la = [''a'' \<mapsto> \<lparr>le_network = cidr_v4_string POOL_BASE LEASE_PREFIX, le_tap = Some (tap_name ''a'')\<rparr>]"
  define st1 where "st1 = \<lparr>la_leases = la, la_free = (POOL_BASE + 4) # free\<rparr>"
  define st2 where "st2 = \<lparr>la_leases = la(''b'' \<mapsto> \<lparr>le_network = cidr_v4_string (POOL_BASE + 4) LEASE_PREFIX, le_tap = Some (tap_name ''b'')\<rparr>), la_free = free\<rparr>"
  have ok0: "lease_ok v6 st0" by (simp add: st0_def new_ok)
  obtain c1 where a1: "lease_allocate tap_name v6 ''a'' [] None {} st0 = (st1, Inr (c1, True))"
    using allocate_next [OF ok0, of "''a''" POOL_BASE "(POOL_BASE + 4) # free" tap_name "[]"] by (auto simp: st0_def new_free blocks la_def st1_def)
  have ok1: "lease_ok v6 st1" using allocate_ok [OF ok0, of tap_name "''a''" "[]" None "{}"] a1 by simp
  obtain c2 where a2: "lease_allocate tap_name v6 ''b'' [] None {} st1 = (st2, Inr (c2, True))"
    using allocate_next [OF ok1, of "''b''" "POOL_BASE + 4" free tap_name "[]"] by (auto simp: la_def st1_def st2_def)
  have a3: "la_leases (fst (lease_allocate tap_name v6 ''c'' [] None {} st1)) ''c'' =
      Some \<lparr>le_network = cidr_v4_string (POOL_BASE + 4) LEASE_PREFIX, le_tap = Some (tap_name ''c'')\<rparr>"
    using allocate_next [OF ok1, of "''c''" "POOL_BASE + 4" free tap_name "[]"] by (auto simp: la_def st1_def)
  let ?s0 = "store_new v6 None"
  let ?s1 = "?s0\<lparr>ls_alloc := st1, ls_pending := (ls_pending ?s0)(0 \<mapsto> la_leases st1)\<rparr>"
  let ?s2 = "?s1\<lparr>ls_alloc := st2, ls_pending := (ls_pending ?s1)(1 \<mapsto> la_leases st2)\<rparr>"
  let ?s3 = "?s2\<lparr>ls_pending := (ls_pending ?s2)(1 := None), ls_queue := ls_queue ?s2 @ [la_leases st2]\<rparr>"
  let ?s4 = "?s3\<lparr>ls_pending := (ls_pending ?s3)(0 := None), ls_queue := ls_queue ?s3 @ [la_leases st1]\<rparr>"
  let ?s5 = "?s4\<lparr>ls_queue := [], ls_disk := Some (last (ls_queue ?s4))\<rparr>"
  have "store_step tap_name v6 0 ?s0 ?s1"
    by (rule allocate_changed [where name = "''a''" and dns = "[]" and tap = None and claimed = "{}" and config = c1])
      (simp_all add: store_new_def st0_def [symmetric] a1)
  moreover have "store_step tap_name v6 1 ?s1 ?s2"
    by (rule allocate_changed [where name = "''b''" and dns = "[]" and tap = None and claimed = "{}" and config = c2])
      (simp_all add: store_new_def a2)
  moreover have "store_step tap_name v6 1 ?s2 ?s3" by (rule send) simp
  moreover have "store_step tap_name v6 0 ?s3 ?s4" by (rule send) simp
  moreover have "store_step tap_name v6 0 ?s4 ?s5"
    by (rule journal_writer) simp_all
  ultimately have run: "store_run tap_name v6 {0, 1} ?s0 ?s5"
    by (meson insertI1 insertI2 run_refl run_step)
  have "ls_disk ?s5 = Some (la_leases st1)" by (simp add: store_new_def)
  then have "lease_load v6 (ls_disk ?s5) = st1" using load_current [OF ok1] by simp
  moreover have "POOL_BASE + 4 \<in> set pool_blocks" unfolding blocks by simp
  ultimately have "lease_holding v6 (fst (lease_allocate tap_name v6 ''c'' [] None {} (lease_load v6 (ls_disk ?s5)))) ''c'' = Some (POOL_BASE + 4)"
    "lease_holding v6 (ls_alloc ?s5) ''b'' = Some (POOL_BASE + 4)"
    using a3 by (simp_all add: lease_holding_def st2_def block_base)
  then show ?thesis using run by (intro exI [of _ ?s5] exI [of _ "POOL_BASE + 4"]) (simp add: store_new_def fun_eq_iff)
qed

end
