(* ===== verification/NetSlots.thy ===== *)
theory NetSlots
  imports LeaseAlloc
begin

unbundle bit_operations_syntax

text \<open>
  The pool of preallocated network slots, \<^verbatim>\<open>vmond/src/net/slots.rs\<close>, and the operations of \<^verbatim>\<open>vmond/src/net.rs\<close> that use it:
  claiming and recycling a slot, and applying or resetting its egress policy through the privileged broker. A
  broker request is an entry of the log \<open>nw_requests\<close>; \<open>resp\<close> is the broker's answer. Indexing a vector out of
  range, a panic in the source, is the outer \<^const>\<open>None\<close>.
\<close>

section \<open>The pool\<close>

record slot_spec =
  ss_index :: nat
  ss_name :: string
  ss_guest_ip :: string
  ss_host_ip :: string
  ss_prefix :: nat

definition egress_set :: "slot_spec \<Rightarrow> string" where
  "egress_set s = ''egress_s'' @ dec_digits (ss_index s)"

definition slot_tap_name :: "nat \<Rightarrow> string" where
  "slot_tap_name index = ''tv'' @ hex_fixed 10 index"

definition slot_lease_name :: "nat \<Rightarrow> string" where
  "slot_lease_name index = ''~slot-'' @ dec_digits index"

record slot_entry =
  se_spec :: slot_spec
  se_sandbox :: "string option"
  se_custom :: bool
  se_dns :: "string list"

record slot_pool =
  sp_slots :: "slot_entry list"
  sp_free :: "nat list"
  sp_bound :: "string \<Rightarrow> nat option"
  sp_by_tap :: "string \<Rightarrow> nat option"

definition pool_empty :: slot_pool where
  "pool_empty = \<lparr>sp_slots = [], sp_free = [], sp_bound = (\<lambda>_. None), sp_by_tap = (\<lambda>_. None)\<rparr>"

definition config_for :: "nat \<Rightarrow> slot_pool \<Rightarrow> guest_config option" where
  "config_for index pool =
     (if index < length (sp_slots pool) then
        let entry = sp_slots pool ! index; spec = se_spec entry in
        (case ipv4_parse (ss_host_ip spec) of
           None \<Rightarrow> None
         | Some host \<Rightarrow> Some \<lparr>gc_tap = ss_name spec, gc_host_ip = ss_host_ip spec, gc_guest_ip = ss_guest_ip spec,
             gc_prefix = ss_prefix spec, gc_network = cidr_v4_string (host - 1) (ss_prefix spec),
             gc_dns = (if se_dns entry = [] then DEFAULT_DNS else se_dns entry)\<rparr>)
      else None)"

definition unbind :: "nat \<Rightarrow> slot_pool \<Rightarrow> slot_pool \<times> (slot_spec \<times> bool) option" where
  "unbind index pool =
     (if index < length (sp_slots pool) then
        let entry = sp_slots pool ! index in
        (case se_sandbox entry of
           None \<Rightarrow> (pool, None)
         | Some sandbox \<Rightarrow>
             (pool\<lparr>sp_slots := (sp_slots pool)[index := entry\<lparr>se_sandbox := None, se_custom := False, se_dns := []\<rparr>],
                   sp_bound := (sp_bound pool)(sandbox := None), sp_free := sp_free pool @ [index]\<rparr>,
              Some (se_spec entry, se_custom entry)))
      else (pool, None))"

definition pool_install :: "slot_spec list \<Rightarrow> slot_pool \<Rightarrow> slot_pool" where
  "pool_install specs pool = \<lparr>
     sp_slots = map (\<lambda>spec. \<lparr>se_spec = spec, se_sandbox = None, se_custom = False, se_dns = []\<rparr>) specs,
     sp_free = map ss_index (rev specs),
     sp_bound = (\<lambda>_. None),
     sp_by_tap = fold (\<lambda>spec m. m(ss_name spec \<mapsto> ss_index spec)) specs (\<lambda>_. None)\<rparr>"

definition pool_claim :: "string \<Rightarrow> string list \<Rightarrow> slot_pool \<Rightarrow> (slot_pool \<times> guest_config option) option" where
  "pool_claim name dns pool = (case sp_bound pool name of
     Some index \<Rightarrow> Some (pool, config_for index pool)
   | None \<Rightarrow>
       if sp_free pool = [] then Some (pool, None)
       else let index = last (sp_free pool); pool = pool\<lparr>sp_free := butlast (sp_free pool)\<rparr> in
         if index < length (sp_slots pool) then
           let entry = sp_slots pool ! index;
               pool = pool\<lparr>sp_slots := (sp_slots pool)[index := entry\<lparr>se_sandbox := Some name, se_custom := False, se_dns := dns\<rparr>],
                           sp_bound := (sp_bound pool)(name \<mapsto> index)\<rparr>
           in Some (pool, config_for index pool)
         else None)"

definition pool_lookup :: "string \<Rightarrow> slot_pool \<Rightarrow> guest_config option" where
  "pool_lookup name pool = Option.bind (sp_bound pool name) (\<lambda>index. config_for index pool)"

definition pool_slot_for_tap :: "string \<Rightarrow> slot_pool \<Rightarrow> (slot_spec \<times> bool) option" where
  "pool_slot_for_tap tap pool = Option.bind (sp_by_tap pool tap) (\<lambda>index.
     if index < length (sp_slots pool) \<and> se_sandbox (sp_slots pool ! index) \<noteq> None
     then Some (se_spec (sp_slots pool ! index), se_custom (sp_slots pool ! index)) else None)"

definition pool_set_custom :: "string \<Rightarrow> bool \<Rightarrow> slot_pool \<Rightarrow> slot_pool" where
  "pool_set_custom tap custom pool = (case sp_by_tap pool tap of
     None \<Rightarrow> pool
   | Some index \<Rightarrow> if index < length (sp_slots pool)
       then pool\<lparr>sp_slots := (sp_slots pool)[index := (sp_slots pool ! index)\<lparr>se_custom := custom\<rparr>]\<rparr> else pool)"

definition pool_recycle_tap :: "string \<Rightarrow> slot_pool \<Rightarrow> slot_pool \<times> (slot_spec \<times> bool) option" where
  "pool_recycle_tap tap pool = (case sp_by_tap pool tap of
     None \<Rightarrow> (pool, None)
   | Some index \<Rightarrow> if index < length (sp_slots pool) \<and> se_sandbox (sp_slots pool ! index) \<noteq> None
       then unbind index pool else (pool, None))"

definition pool_release_name :: "string \<Rightarrow> slot_pool \<Rightarrow> slot_pool \<times> (slot_spec \<times> bool) option" where
  "pool_release_name name pool = (case sp_bound pool name of None \<Rightarrow> (pool, None) | Some index \<Rightarrow> unbind index pool)"

section \<open>Policy through the broker\<close>

record tap_lease =
  tl_name :: string
  tl_guest_ip :: string
  tl_host_ip :: string
  tl_prefix :: nat
  tl_network :: string
  tl_egress_allow :: "string list"

datatype broker_request =
    BrSetup string string string nat "string list option" "string list option" "string list option"
  | BrTeardown string "string option" "string option" nat "string list option" "string list option"
  | BrPreallocateSlots "slot_spec list" bool
  | BrClaimSlot slot_spec "string list" "string list" bool
  | BrRecycleSlot slot_spec

record net_state =
  nw_pool :: slot_pool
  nw_requests :: "broker_request list"

definition parse_ipv4 :: "(string \<Rightarrow> u128 option) \<Rightarrow> string \<Rightarrow> u32 result" where
  "parse_ipv4 v6 s = rbind (parse_ip v6 s) (\<lambda>a. case a of IpV4 a \<Rightarrow> Inr a | IpV6 _ \<Rightarrow> Inl Invalid)"

fun cidr_to_string :: "(u128 \<Rightarrow> string) \<Rightarrow> cidr_net \<Rightarrow> string" where
  "cidr_to_string v6s (V4 network prefix) = cidr_v4_string network prefix"
| "cidr_to_string v6s (V6 network prefix) = v6s network @ CHR ''/'' # dec_digits prefix"

fun normalize_cidrs :: "(string \<Rightarrow> u128 option) \<Rightarrow> (u128 \<Rightarrow> string) \<Rightarrow> string list \<Rightarrow> string list result" where
  "normalize_cidrs v6 v6s [] = Inr []"
| "normalize_cidrs v6 v6s (c # cs) =
     rbind (cidr_from_str v6 c) (\<lambda>net. rbind (normalize_cidrs v6 v6s cs) (\<lambda>ns. Inr (cidr_to_string v6s net # ns)))"

definition opt_list :: "'a list option \<Rightarrow> 'a list" where
  "opt_list xs = (case xs of None \<Rightarrow> [] | Some l \<Rightarrow> l)"

definition tap_lease_new :: "(string \<Rightarrow> u128 option) \<Rightarrow> (u128 \<Rightarrow> string) \<Rightarrow> string \<Rightarrow> string \<Rightarrow> string \<Rightarrow> nat \<Rightarrow> string list option \<Rightarrow> tap_lease result" where
  "tap_lease_new v6 v6s name guest_ip host_ip prefix egress_allow =
     (if name = [] \<or> length name \<ge> 16 then Inl Invalid
      else rbind (parse_ipv4 v6 guest_ip) (\<lambda>guest. rbind (parse_ipv4 v6 host_ip) (\<lambda>host.
        if prefix \<noteq> LEASE_PREFIX then Inl Invalid
        else rbind (ipv4_network host prefix) (\<lambda>network.
          if \<not> ipv4_contains network prefix guest \<or> \<not> ipv4_contains network prefix host then Inl Invalid
          else if \<not> ipv4_contains POOL_BASE 16 network then Inl Invalid
          else if host \<noteq> network + 1 \<or> guest \<noteq> network + 2 then Inl Invalid
          else rbind (normalize_cidrs v6 v6s (opt_list egress_allow)) (\<lambda>allowed.
            Inr \<lparr>tl_name = name, tl_guest_ip = ipv4_to_string guest, tl_host_ip = ipv4_to_string host, tl_prefix = prefix,
                 tl_network = cidr_v4_string network prefix, tl_egress_allow = allowed\<rparr>)))))"

definition clean_domains :: "string list option \<Rightarrow> string list" where
  "clean_domains domains = filter (\<lambda>d. d \<noteq> []) (map trim (opt_list domains))"

text \<open>A successful request is logged; a failed one has no effect.\<close>

definition broker_request :: "tap_lease option result \<Rightarrow> broker_request \<Rightarrow> net_state \<Rightarrow> net_state \<times> tap_lease option result" where
  "broker_request resp req st = (case resp of
     Inl e \<Rightarrow> (st, Inl e) | Inr l \<Rightarrow> (st\<lparr>nw_requests := nw_requests st @ [req]\<rparr>, Inr l))"

definition setup_tap :: "(string \<Rightarrow> u128 option) \<Rightarrow> (u128 \<Rightarrow> string) \<Rightarrow> tap_lease option result \<Rightarrow>
    string \<Rightarrow> string \<Rightarrow> string \<Rightarrow> nat \<Rightarrow> string list option \<Rightarrow> string list option \<Rightarrow> string list option \<Rightarrow> net_state \<Rightarrow> net_state \<times> tap_lease result" where
  "setup_tap v6 v6s resp name guest_ip host_ip prefix egress_allow egress_allow_domains previous st =
     (case pool_slot_for_tap name (nw_pool st) of
        Some (slot, already_custom) \<Rightarrow>
          if ss_guest_ip slot \<noteq> guest_ip \<or> ss_host_ip slot \<noteq> host_ip \<or> ss_prefix slot \<noteq> prefix then (st, Inl Invalid)
          else (case tap_lease_new v6 v6s name guest_ip host_ip prefix egress_allow of
            Inl e \<Rightarrow> (st, Inl e)
          | Inr lease \<Rightarrow>
              let domains = clean_domains egress_allow_domains;
                  restricted = (egress_allow \<noteq> None \<or> domains \<noteq> [])
              in if restricted then
                   (case broker_request resp (BrClaimSlot slot (tl_egress_allow lease) domains already_custom) st of
                      (st, Inl e) \<Rightarrow> (st, Inl e)
                    | (st, Inr _) \<Rightarrow> (st\<lparr>nw_pool := pool_set_custom name True (nw_pool st)\<rparr>, Inr lease))
                 else if already_custom then
                   (case broker_request resp (BrRecycleSlot slot) st of
                      (st, Inl e) \<Rightarrow> (st, Inl e)
                    | (st, Inr _) \<Rightarrow> (st\<lparr>nw_pool := pool_set_custom name False (nw_pool st)\<rparr>, Inr lease))
                 else (st, Inr lease))
      | None \<Rightarrow>
          (case broker_request resp (BrSetup name guest_ip host_ip prefix egress_allow egress_allow_domains previous) st of
             (st, Inl e) \<Rightarrow> (st, Inl e)
           | (st, Inr None) \<Rightarrow> (st, Inl Engine)
           | (st, Inr (Some lease)) \<Rightarrow> (st, Inr lease)))"

text \<open>The recycling part after the slot has left the pool.\<close>

definition reset_policy :: "tap_lease option result \<Rightarrow> slot_spec \<times> bool \<Rightarrow> net_state \<Rightarrow> net_state \<times> unit result" where
  "reset_policy resp released st =
     (if snd released then (case broker_request resp (BrRecycleSlot (fst released)) st of
        (st, Inl e) \<Rightarrow> (st, Inl e) | (st, Inr _) \<Rightarrow> (st, Inr ()))
      else (st, Inr ()))"

definition teardown_tap :: "tap_lease option result \<Rightarrow> string \<Rightarrow> string option \<Rightarrow> string option \<Rightarrow> nat \<Rightarrow> string list option \<Rightarrow> string list option \<Rightarrow>
    net_state \<Rightarrow> net_state \<times> unit result" where
  "teardown_tap resp name guest_ip host_ip prefix egress_allow egress_allow_domains st =
     (case pool_recycle_tap name (nw_pool st) of
        (pool, Some released) \<Rightarrow> reset_policy resp released (st\<lparr>nw_pool := pool\<rparr>)
      | (pool, None) \<Rightarrow>
          (case broker_request resp (BrTeardown name guest_ip host_ip prefix egress_allow egress_allow_domains) (st\<lparr>nw_pool := pool\<rparr>) of
             (st, Inl e) \<Rightarrow> (st, Inl e) | (st, Inr _) \<Rightarrow> (st, Inr ())))"

text \<open>The slot part of \<^verbatim>\<open>release_guest_config\<close>; without a slot the lease allocator releases (\<^const>\<open>None\<close>).\<close>

definition release_slot_config :: "tap_lease option result \<Rightarrow> string \<Rightarrow> net_state \<Rightarrow> (net_state \<times> unit result) option" where
  "release_slot_config resp name st = (case pool_release_name name (nw_pool st) of
     (pool, Some released) \<Rightarrow> Some (reset_policy resp released (st\<lparr>nw_pool := pool\<rparr>))
   | (pool, None) \<Rightarrow> None)"

section \<open>Invariant\<close>

abbreviation slot_user :: "slot_pool \<Rightarrow> nat \<Rightarrow> string option" where
  "slot_user pool i \<equiv> se_sandbox (sp_slots pool ! i)"

definition slots_ok :: "slot_pool \<Rightarrow> bool" where
  "slots_ok pool \<longleftrightarrow> distinct (sp_free pool) \<and>
     (\<forall>i. i \<in> set (sp_free pool) \<longleftrightarrow> i < length (sp_slots pool) \<and> slot_user pool i = None) \<and>
     (\<forall>n i. sp_bound pool n = Some i \<longleftrightarrow> i < length (sp_slots pool) \<and> slot_user pool i = Some n) \<and>
     (\<forall>t i. sp_by_tap pool t = Some i \<longleftrightarrow> i < length (sp_slots pool) \<and> ss_name (se_spec (sp_slots pool ! i)) = t)"

lemma slots_ok_free: "slots_ok pool \<Longrightarrow> i \<in> set (sp_free pool) \<longleftrightarrow> i < length (sp_slots pool) \<and> slot_user pool i = None"
  by (simp add: slots_ok_def)

lemma slots_ok_bound: "slots_ok pool \<Longrightarrow> sp_bound pool n = Some i \<longleftrightarrow> i < length (sp_slots pool) \<and> slot_user pool i = Some n"
  by (simp add: slots_ok_def)

lemma slots_ok_tap: "slots_ok pool \<Longrightarrow> sp_by_tap pool t = Some i \<longleftrightarrow> i < length (sp_slots pool) \<and> ss_name (se_spec (sp_slots pool ! i)) = t"
  by (simp add: slots_ok_def)

text \<open>A claim by a new sandbox.\<close>

definition claimed_pool :: "string \<Rightarrow> string list \<Rightarrow> slot_pool \<Rightarrow> slot_pool" where
  "claimed_pool name dns pool = (let i = last (sp_free pool) in
     pool\<lparr>sp_free := butlast (sp_free pool),
          sp_slots := (sp_slots pool)[i := (sp_slots pool ! i)\<lparr>se_sandbox := Some name, se_custom := False, se_dns := dns\<rparr>],
          sp_bound := (sp_bound pool)(name \<mapsto> i)\<rparr>)"

lemma claim_cases:
  assumes "slots_ok pool"
  obtains i where "sp_bound pool name = Some i" "pool_claim name dns pool = Some (pool, config_for i pool)"
  | "sp_bound pool name = None" "sp_free pool = []" "pool_claim name dns pool = Some (pool, None)"
  | "sp_bound pool name = None" "sp_free pool \<noteq> []"
    "pool_claim name dns pool = Some (claimed_pool name dns pool, config_for (last (sp_free pool)) (claimed_pool name dns pool))"
proof (cases "sp_bound pool name")
  case None
  show ?thesis
  proof (cases "sp_free pool = []")
    case True
    then show ?thesis using that(2) None by (simp add: pool_claim_def)
  next
    case False
    then have "last (sp_free pool) < length (sp_slots pool)" using slots_ok_free [OF assms] last_in_set by blast
    then show ?thesis using that(3) None False by (simp add: pool_claim_def claimed_pool_def Let_def)
  qed
next
  case (Some i)
  then show ?thesis using that(1) by (simp add: pool_claim_def)
qed

lemma claimed_ok:
  assumes ok: "slots_ok pool" and new: "sp_bound pool name = None" "sp_free pool \<noteq> []"
  shows "slots_ok (claimed_pool name dns pool)"
proof -
  define i where "i = last (sp_free pool)"
  define fs where "fs = butlast (sp_free pool)"
  have split: "sp_free pool = fs @ [i]" using new(2) by (simp add: i_def fs_def)
  have i: "i < length (sp_slots pool)" "slot_user pool i = None" using slots_ok_free [OF ok, of i] split by auto
  have fs: "distinct fs" "\<And>j. j \<in> set fs \<longleftrightarrow> j \<noteq> i \<and> j < length (sp_slots pool) \<and> slot_user pool j = None"
    using ok slots_ok_free [OF ok] split by (auto simp: slots_ok_def)
  have no: "\<And>j. j < length (sp_slots pool) \<Longrightarrow> slot_user pool j \<noteq> Some name"
    using slots_ok_bound [OF ok, of name] new(1) by auto
  have eq: "claimed_pool name dns pool = pool\<lparr>sp_free := fs,
      sp_slots := (sp_slots pool)[i := (sp_slots pool ! i)\<lparr>se_sandbox := Some name, se_custom := False, se_dns := dns\<rparr>],
      sp_bound := (sp_bound pool)(name \<mapsto> i)\<rparr>"
    by (simp add: claimed_pool_def Let_def i_def fs_def)
  show ?thesis
    unfolding slots_ok_def eq using fs i no slots_ok_bound [OF ok] slots_ok_tap [OF ok]
    by (auto simp: nth_list_update)
qed

lemma unbind_result:
  assumes "i < length (sp_slots pool)" "slot_user pool i = Some n"
  shows "unbind i pool = (pool\<lparr>sp_slots := (sp_slots pool)[i := (sp_slots pool ! i)\<lparr>se_sandbox := None, se_custom := False, se_dns := []\<rparr>],
     sp_bound := (sp_bound pool)(n := None), sp_free := sp_free pool @ [i]\<rparr>, Some (se_spec (sp_slots pool ! i), se_custom (sp_slots pool ! i)))"
  using assms by (simp add: unbind_def Let_def)

lemma unbind_ok:
  assumes ok: "slots_ok pool"
  shows "slots_ok (fst (unbind i pool))"
proof (cases "i < length (sp_slots pool) \<and> slot_user pool i \<noteq> None")
  case True
  then obtain n where n: "i < length (sp_slots pool)" "slot_user pool i = Some n" by auto
  have inj: "j = i" if "j < length (sp_slots pool)" "slot_user pool j = Some n" for j
    using that n slots_ok_bound [OF ok, of n] by (metis option.inject)
  have dist: "distinct (sp_free pool @ [i])" using ok slots_ok_free [OF ok, of i] n by (auto simp: slots_ok_def)
  define pool' where "pool' = fst (unbind i pool)"
  let ?slots = "(sp_slots pool)[i := (sp_slots pool ! i)\<lparr>se_sandbox := None, se_custom := False, se_dns := []\<rparr>]"
  have eq: "pool' = pool\<lparr>sp_slots := ?slots, sp_bound := (sp_bound pool)(n := None), sp_free := sp_free pool @ [i]\<rparr>"
    unfolding pool'_def unbind_result [OF n] by simp
  have fields: "length (sp_slots pool') = length (sp_slots pool)" "sp_by_tap pool' = sp_by_tap pool"
      "sp_bound pool' = (sp_bound pool)(n := None)" "sp_free pool' = sp_free pool @ [i]"
    unfolding eq by simp_all
  have user: "slot_user pool' j = (if j = i then None else slot_user pool j)" for j
    unfolding eq using n(1) by (cases "j = i") simp_all
  have spec: "se_spec (sp_slots pool' ! j) = se_spec (sp_slots pool ! j)" for j
    unfolding eq using n(1) by (cases "j = i") simp_all
  have "\<forall>j. j \<in> set (sp_free pool') \<longleftrightarrow> j < length (sp_slots pool') \<and> slot_user pool' j = None"
    using slots_ok_free [OF ok] n by (auto simp: fields user)
  moreover have "\<forall>m j. sp_bound pool' m = Some j \<longleftrightarrow> j < length (sp_slots pool') \<and> slot_user pool' j = Some m"
  proof (intro allI)
    fix m j
    show "sp_bound pool' m = Some j \<longleftrightarrow> j < length (sp_slots pool') \<and> slot_user pool' j = Some m"
    proof (cases "m = n")
      case True
      then show ?thesis using inj [of j] by (auto simp: fields user)
    next
      case False
      then show ?thesis using slots_ok_bound [OF ok, of m j] n(2) by (auto simp: fields user)
    qed
  qed
  moreover have "\<forall>t j. sp_by_tap pool' t = Some j \<longleftrightarrow> j < length (sp_slots pool') \<and> ss_name (se_spec (sp_slots pool' ! j)) = t"
    using slots_ok_tap [OF ok] by (simp add: fields spec)
  ultimately show ?thesis
    using dist unfolding pool'_def [symmetric] slots_ok_def fields by blast
next
  case False
  then have "fst (unbind i pool) = pool" by (auto simp: unbind_def Let_def)
  then show ?thesis using ok by simp
qed

lemma set_custom_ok: "slots_ok pool \<Longrightarrow> slots_ok (pool_set_custom tap b pool)"
  unfolding slots_ok_def pool_set_custom_def by (auto simp: nth_list_update split: option.split)

section \<open>The allocator contract\<close>

datatype slot_op = SlotClaim string "string list" | SlotSetCustom string bool | SlotRecycle string | SlotRelease string

fun slot_step :: "slot_op \<Rightarrow> slot_pool \<Rightarrow> slot_pool" where
  "slot_step (SlotClaim name dns) pool = (case pool_claim name dns pool of None \<Rightarrow> pool | Some (p, _) \<Rightarrow> p)"
| "slot_step (SlotSetCustom tap b) pool = pool_set_custom tap b pool"
| "slot_step (SlotRecycle tap) pool = fst (pool_recycle_tap tap pool)"
| "slot_step (SlotRelease name) pool = fst (pool_release_name name pool)"

fun slot_releases :: "slot_op \<Rightarrow> slot_pool \<Rightarrow> string \<Rightarrow> bool" where
  "slot_releases (SlotRecycle tap) pool name = (sp_bound pool name \<noteq> None \<and> sp_by_tap pool tap = sp_bound pool name)"
| "slot_releases (SlotRelease n) pool name = (n = name)"
| "slot_releases _ pool name = False"

lemma slot_step_ok:
  assumes "slots_ok pool"
  shows "slots_ok (slot_step op pool)"
proof (cases op)
  case (SlotClaim name dns)
  show ?thesis
    by (rule claim_cases [OF assms, of name dns]) (use SlotClaim claimed_ok [OF assms] assms in auto)
next
  case (SlotRecycle tap)
  then show ?thesis using unbind_ok [OF assms] assms by (simp add: pool_recycle_tap_def split: option.split)
next
  case (SlotRelease name)
  then show ?thesis using unbind_ok [OF assms] assms by (simp add: pool_release_name_def split: option.split)
qed (use assms set_custom_ok in simp)

lemma unbind_keeps:
  assumes ok: "slots_ok pool" and "sp_bound pool a = Some b" "i \<noteq> b"
  shows "sp_bound (fst (unbind i pool)) a = Some b"
proof (cases "i < length (sp_slots pool) \<and> slot_user pool i \<noteq> None")
  case True
  then obtain n where n: "i < length (sp_slots pool)" "slot_user pool i = Some n" by auto
  have "n \<noteq> a" using n slots_ok_bound [OF ok, of a] assms(2,3) by (metis option.inject)
  then show ?thesis using assms(2) by (simp add: unbind_result [OF n])
next
  case False
  then show ?thesis using assms(2) by (auto simp: unbind_def Let_def)
qed

lemma slot_stable:
  assumes ok: "slots_ok pool" and holds: "sp_bound pool a = Some b" and "\<not> slot_releases op pool a"
  shows "sp_bound (slot_step op pool) a = Some b"
proof (cases op)
  case (SlotClaim name dns)
  show ?thesis
    by (rule claim_cases [OF ok, of name dns]) (use holds SlotClaim in \<open>auto simp: claimed_pool_def Let_def\<close>)
next
  case (SlotSetCustom tap c)
  then show ?thesis using holds by (simp add: pool_set_custom_def split: option.split)
next
  case (SlotRecycle tap)
  then have "sp_by_tap pool tap \<noteq> Some b" using assms(3) holds by simp
  then show ?thesis
    using SlotRecycle holds unbind_keeps [OF ok holds] by (auto simp: pool_recycle_tap_def split: option.split)
next
  case (SlotRelease n)
  then have "sp_bound pool n \<noteq> Some b"
    using assms(3) holds slots_ok_bound [OF ok, of n] slots_ok_bound [OF ok, of a] by auto
  then show ?thesis
    using SlotRelease holds unbind_keeps [OF ok holds] by (auto simp: pool_release_name_def split: option.split)
qed

interpretation net_slots: exclusive_allocator slots_ok sp_bound slot_step slot_releases
proof
  fix pool a b a' assume "slots_ok pool" "sp_bound pool a = Some b" "sp_bound pool a' = Some b"
  then show "a' = a" using slots_ok_bound [of pool] by simp
qed (auto intro: slot_step_ok slot_stable)

section \<open>Installation\<close>

definition specs_ok :: "slot_spec list \<Rightarrow> bool" where
  "specs_ok specs \<longleftrightarrow> map ss_index specs = [0..<length specs] \<and> distinct (map ss_name specs)"

lemma install_taps:
  "distinct (map ss_name specs) \<Longrightarrow>
   fold (\<lambda>spec m. m(ss_name spec \<mapsto> ss_index spec)) specs m0 t =
     (case map_of (map (\<lambda>s. (ss_name s, ss_index s)) specs) t of Some i \<Rightarrow> Some i | None \<Rightarrow> m0 t)"
proof (induction specs arbitrary: m0)
  case (Cons s specs)
  have "ss_name s \<notin> fst ` set (map (\<lambda>s. (ss_name s, ss_index s)) specs)" using Cons.prems by force
  then have "map_of (map (\<lambda>s. (ss_name s, ss_index s)) specs) (ss_name s) = None" by (simp only: map_of_eq_None_iff) simp
  then show ?case using Cons by (auto split: option.split)
qed simp

lemma install_ok:
  assumes "specs_ok specs"
  shows "slots_ok (pool_install specs pool)"
proof -
  have idx: "ss_index (specs ! i) = i" if "i < length specs" for i
    using assms that nth_map [of i specs ss_index] by (simp add: specs_ok_def)
  have free: "sp_free (pool_install specs pool) = rev [0..<length specs]"
    using assms by (simp add: pool_install_def rev_map [symmetric] specs_ok_def)
  have "sp_by_tap (pool_install specs pool) t = Some i \<longleftrightarrow> i < length specs \<and> ss_name (specs ! i) = t" for t i
  proof -
    have d: "distinct (map ss_name specs)" using assms by (simp add: specs_ok_def)
    then have "distinct (map fst (map (\<lambda>s. (ss_name s, ss_index s)) specs))" by (simp add: comp_def)
    moreover have "sp_by_tap (pool_install specs pool) t = map_of (map (\<lambda>s. (ss_name s, ss_index s)) specs) t"
      using install_taps [OF d, of "\<lambda>_. None" t] by (simp add: pool_install_def split: option.splits)
    ultimately have "sp_by_tap (pool_install specs pool) t = Some i \<longleftrightarrow> (t, i) \<in> set (map (\<lambda>s. (ss_name s, ss_index s)) specs)"
      by (simp only: map_of_eq_Some_iff)
    also have "\<dots> \<longleftrightarrow> i < length specs \<and> ss_name (specs ! i) = t"
      using idx by (force simp: in_set_conv_nth image_iff intro: bexI [of _ "specs ! i"])
    finally show ?thesis .
  qed
  then show ?thesis unfolding slots_ok_def using free by (auto simp: pool_install_def)
qed

section \<open>Policies\<close>

text \<open>
  Whether the requests performed so far leave the guest of a slot in the firewall's \<^verbatim>\<open>restricted\<close> set: claiming with a custom
  policy adds it, recycling removes it, and the first batch of a pool fill recreates the table.
\<close>

definition policy_effect :: "slot_spec \<Rightarrow> broker_request \<Rightarrow> bool \<Rightarrow> bool" where
  "policy_effect spec r b = (case r of
     BrClaimSlot s _ _ _ \<Rightarrow> if s = spec then True else b
   | BrRecycleSlot s \<Rightarrow> if s = spec then False else b
   | BrPreallocateSlots _ reset \<Rightarrow> if reset then False else b
   | _ \<Rightarrow> b)"

definition slot_restricted :: "slot_spec \<Rightarrow> broker_request list \<Rightarrow> bool" where
  "slot_restricted spec reqs = fold (policy_effect spec) reqs False"

lemma slot_restricted_snoc: "slot_restricted spec (reqs @ [r]) = policy_effect spec r (slot_restricted spec reqs)"
  by (simp add: slot_restricted_def)

definition policy_synced :: "net_state \<Rightarrow> bool" where
  "policy_synced st \<longleftrightarrow> slots_ok (nw_pool st) \<and>
     (\<forall>i < length (sp_slots (nw_pool st)).
        slot_restricted (se_spec (sp_slots (nw_pool st) ! i)) (nw_requests st) = se_custom (sp_slots (nw_pool st) ! i) \<and>
        (se_custom (sp_slots (nw_pool st) ! i) \<longrightarrow> slot_user (nw_pool st) i \<noteq> None))"

text \<open>Slots differ in their specification, since they differ in their TAP.\<close>

lemma spec_inj:
  assumes "slots_ok pool" "i < length (sp_slots pool)" "j < length (sp_slots pool)"
    "se_spec (sp_slots pool ! i) = se_spec (sp_slots pool ! j)"
  shows "i = j"
  using assms slots_ok_tap [OF assms(1)] by (metis option.inject)

text \<open>The parts of the pool that policies depend on.\<close>

abbreviation slot_custom :: "slot_pool \<Rightarrow> nat \<Rightarrow> bool" where
  "slot_custom pool i \<equiv> se_custom (sp_slots pool ! i)"

abbreviation spec_of :: "slot_pool \<Rightarrow> nat \<Rightarrow> slot_spec" where
  "spec_of pool i \<equiv> se_spec (sp_slots pool ! i)"

lemma claimed_fields:
  assumes "last (sp_free pool) < length (sp_slots pool)"
  shows "length (sp_slots (claimed_pool name dns pool)) = length (sp_slots pool)" "spec_of (claimed_pool name dns pool) j = spec_of pool j"
    "slot_custom (claimed_pool name dns pool) j = (if j = last (sp_free pool) then False else slot_custom pool j)"
    "slot_user (claimed_pool name dns pool) j = (if j = last (sp_free pool) then Some name else slot_user pool j)"
  using assms by (cases "j = last (sp_free pool)"; simp add: claimed_pool_def Let_def)+

lemma unbind_fields:
  assumes "i < length (sp_slots pool)" "slot_user pool i = Some n"
  shows "length (sp_slots (fst (unbind i pool))) = length (sp_slots pool)" "spec_of (fst (unbind i pool)) j = spec_of pool j"
    "slot_custom (fst (unbind i pool)) j = (if j = i then False else slot_custom pool j)"
    "slot_user (fst (unbind i pool)) j = (if j = i then None else slot_user pool j)"
  using assms(1) unfolding unbind_result [OF assms] by (cases "j = i"; simp)+

lemma set_custom_fields:
  assumes "sp_by_tap pool tap = Some i" "i < length (sp_slots pool)"
  shows "length (sp_slots (pool_set_custom tap c pool)) = length (sp_slots pool)" "spec_of (pool_set_custom tap c pool) j = spec_of pool j"
    "slot_custom (pool_set_custom tap c pool) j = (if j = i then c else slot_custom pool j)"
    "slot_user (pool_set_custom tap c pool) j = slot_user pool j"
  using assms by (cases "j = i"; simp add: pool_set_custom_def)+

lemma claim_synced:
  assumes sync: "policy_synced st" and claim: "pool_claim name dns (nw_pool st) = Some (pool', c)"
  shows "policy_synced (st\<lparr>nw_pool := pool'\<rparr>)"
proof -
  have ok: "slots_ok (nw_pool st)" using sync by (simp add: policy_synced_def)
  show ?thesis
  proof (rule claim_cases [OF ok, of name dns])
    assume new: "sp_bound (nw_pool st) name = None" "sp_free (nw_pool st) \<noteq> []"
      "pool_claim name dns (nw_pool st) =
         Some (claimed_pool name dns (nw_pool st), config_for (last (sp_free (nw_pool st))) (claimed_pool name dns (nw_pool st)))"
    then have pool': "pool' = claimed_pool name dns (nw_pool st)" using claim by simp
    have i: "last (sp_free (nw_pool st)) < length (sp_slots (nw_pool st))" "slot_user (nw_pool st) (last (sp_free (nw_pool st))) = None"
      using slots_ok_free [OF ok] new(2) last_in_set by blast+
    then have "\<not> slot_custom (nw_pool st) (last (sp_free (nw_pool st)))" using sync by (auto simp: policy_synced_def)
    then show ?thesis
      using sync claimed_ok [OF ok new(1,2), of dns] by (auto simp: policy_synced_def pool' claimed_fields [OF i(1)])
  qed (use sync claim in auto)
qed

lemma set_policy_synced:
  assumes sync: "policy_synced st" and i: "sp_by_tap (nw_pool st) tap = Some i" "i < length (sp_slots (nw_pool st))" "slot_user (nw_pool st) i \<noteq> None"
    and r: "\<And>spec b. policy_effect spec r b = (if spec = spec_of (nw_pool st) i then c else b)"
  shows "policy_synced (st\<lparr>nw_requests := nw_requests st @ [r], nw_pool := pool_set_custom tap c (nw_pool st)\<rparr>)"
proof -
  have ok: "slots_ok (nw_pool st)" using sync by (simp add: policy_synced_def)
  then show ?thesis
    using sync set_custom_ok [OF ok, of tap c] i(3) spec_inj [OF ok]
    by (auto simp: policy_synced_def set_custom_fields [OF i(1,2)] slot_restricted_snoc r i(2))
qed

lemma unbind_synced:
  assumes sync: "policy_synced st" and i: "i < length (sp_slots (nw_pool st))" "slot_user (nw_pool st) i = Some n"
  shows "policy_synced (fst (reset_policy (Inr l) (spec_of (nw_pool st) i, slot_custom (nw_pool st) i) (st\<lparr>nw_pool := fst (unbind i (nw_pool st))\<rparr>)))"
proof -
  have ok: "slots_ok (nw_pool st)" using sync by (simp add: policy_synced_def)
  have "policy_effect spec (BrRecycleSlot s) b = (if spec = s then False else b)" for spec s b by (auto simp: policy_effect_def)
  then show ?thesis
    using sync unbind_ok [OF ok, of i] spec_inj [OF ok _ i(1)]
    by (auto simp: policy_synced_def reset_policy_def broker_request_def unbind_fields [OF i] slot_restricted_snoc)
qed

lemma slot_for_tap_Some:
  assumes "slots_ok pool" "pool_slot_for_tap tap pool = Some (slot, custom)"
  obtains i where "sp_by_tap pool tap = Some i" "i < length (sp_slots pool)" "slot_user pool i \<noteq> None"
    "slot = spec_of pool i" "custom = slot_custom pool i"
  using assms(2) that by (auto simp: pool_slot_for_tap_def bind_eq_Some_conv split: if_splits)

lemma policy_other [simp]:
  "policy_effect spec (BrSetup a b c d e f g) x = x" "policy_effect spec (BrTeardown a b' c' d e f) x = x"
  "policy_effect spec (BrClaimSlot s al ds ac) x = (if spec = s then True else x)"
  "policy_effect spec (BrRecycleSlot s) x = (if spec = s then False else x)"
  by (auto simp: policy_effect_def)

lemma log_synced: "policy_synced st \<Longrightarrow> (\<And>spec b. policy_effect spec r b = b) \<Longrightarrow> policy_synced (st\<lparr>nw_requests := nw_requests st @ [r]\<rparr>)"
  by (simp add: policy_synced_def slot_restricted_snoc)

lemma setup_synced:
  assumes sync: "policy_synced st"
  shows "policy_synced (fst (setup_tap v6 v6s resp name guest_ip host_ip prefix allow domains previous st))"
proof (cases "pool_slot_for_tap name (nw_pool st)")
  case None
  then show ?thesis
    using sync log_synced [OF sync, of "BrSetup name guest_ip host_ip prefix allow domains previous"]
    by (auto simp: setup_tap_def broker_request_def split: sum.split option.split)
next
  case (Some found)
  obtain slot custom where found: "found = (slot, custom)" by (cases found)
  have ok: "slots_ok (nw_pool st)" using sync by (simp add: policy_synced_def)
  obtain i where i: "sp_by_tap (nw_pool st) name = Some i" "i < length (sp_slots (nw_pool st))" "slot_user (nw_pool st) i \<noteq> None"
      "slot = spec_of (nw_pool st) i"
    using slot_for_tap_Some [OF ok Some [unfolded found]] by metis
  have "policy_synced (st\<lparr>nw_requests := nw_requests st @ [BrClaimSlot slot al ds custom], nw_pool := pool_set_custom name True (nw_pool st)\<rparr>)"
    "policy_synced (st\<lparr>nw_requests := nw_requests st @ [BrRecycleSlot slot], nw_pool := pool_set_custom name False (nw_pool st)\<rparr>)" for al ds
    using i by (auto intro!: set_policy_synced [OF sync i(1-3)])
  then show ?thesis
    using sync Some found by (auto simp: setup_tap_def broker_request_def Let_def split: sum.split)
qed

lemma recycle_cases:
  assumes "slots_ok pool"
  obtains "pool_recycle_tap tap pool = (pool, None)"
  | i n where "sp_by_tap pool tap = Some i" "i < length (sp_slots pool)" "slot_user pool i = Some n" "sp_bound pool n = Some i"
      "pool_recycle_tap tap pool = (fst (unbind i pool), Some (spec_of pool i, slot_custom pool i))"
proof (cases "\<exists>i. sp_by_tap pool tap = Some i \<and> i < length (sp_slots pool) \<and> slot_user pool i \<noteq> None")
  case True
  then obtain i n where i: "sp_by_tap pool tap = Some i" "i < length (sp_slots pool)" "slot_user pool i = Some n" by auto
  then show ?thesis using that(2) slots_ok_bound [OF assms, of n i] by (simp add: pool_recycle_tap_def unbind_result)
next
  case False
  then have "pool_recycle_tap tap pool = (pool, None)"
    by (cases "sp_by_tap pool tap") (auto simp: pool_recycle_tap_def)
  then show ?thesis by (rule that(1))
qed

lemma teardown_synced:
  assumes sync: "policy_synced st"
  shows "policy_synced (fst (teardown_tap (Inr l) name guest_ip host_ip prefix allow domains st))"
proof -
  have ok: "slots_ok (nw_pool st)" using sync by (simp add: policy_synced_def)
  show ?thesis
  proof (rule recycle_cases [OF ok, of name])
    assume "pool_recycle_tap name (nw_pool st) = (nw_pool st, None)"
    then show ?thesis
      using log_synced [OF sync, of "BrTeardown name guest_ip host_ip prefix allow domains"] by (simp add: teardown_tap_def broker_request_def)
  next
    fix i n
    assume "i < length (sp_slots (nw_pool st))" "slot_user (nw_pool st) i = Some n"
      "pool_recycle_tap name (nw_pool st) = (fst (unbind i (nw_pool st)), Some (spec_of (nw_pool st) i, slot_custom (nw_pool st) i))"
    then show ?thesis using unbind_synced [OF sync] by (simp add: teardown_tap_def)
  qed
qed

lemma release_synced:
  assumes sync: "policy_synced st" and rel: "release_slot_config (Inr l) name st = Some (st', r)"
  shows "policy_synced st'"
proof -
  have ok: "slots_ok (nw_pool st)" using sync by (simp add: policy_synced_def)
  obtain i where "sp_bound (nw_pool st) name = Some i"
    using rel by (auto simp: release_slot_config_def pool_release_name_def split: option.splits)
  then have i: "i < length (sp_slots (nw_pool st))" "slot_user (nw_pool st) i = Some name" "sp_bound (nw_pool st) name = Some i"
    using slots_ok_bound [OF ok] by auto
  have "unbind i (nw_pool st) = (fst (unbind i (nw_pool st)), Some (spec_of (nw_pool st) i, slot_custom (nw_pool st) i))"
    using unbind_result [OF i(1,2)] by simp
  then have "Some (st', r) = Some (reset_policy (Inr l) (spec_of (nw_pool st) i, slot_custom (nw_pool st) i) (st\<lparr>nw_pool := fst (unbind i (nw_pool st))\<rparr>))"
    using rel i(3) by (simp add: release_slot_config_def pool_release_name_def split: prod.splits option.splits)
  then show ?thesis using unbind_synced [OF sync i(1,2), of l] by (metis fst_conv option.inject)
qed

text \<open>
  The operations of the network module on a pool, run one after the other: the broker may refuse a
  setup, and it performs the resets.
\<close>

datatype net_op =
    NetClaim string "string list"
  | NetSetup "tap_lease option result" string string string nat "string list option" "string list option" "string list option"
  | NetTeardown "tap_lease option" string "string option" "string option" nat "string list option" "string list option"
  | NetRelease "tap_lease option" string

fun net_step :: "(string \<Rightarrow> u128 option) \<Rightarrow> (u128 \<Rightarrow> string) \<Rightarrow> net_op \<Rightarrow> net_state \<Rightarrow> net_state" where
  "net_step v6 v6s (NetClaim name dns) st =
     (case pool_claim name dns (nw_pool st) of None \<Rightarrow> st | Some (pool, _) \<Rightarrow> st\<lparr>nw_pool := pool\<rparr>)"
| "net_step v6 v6s (NetSetup resp name g h p al ds prev) st = fst (setup_tap v6 v6s resp name g h p al ds prev st)"
| "net_step v6 v6s (NetTeardown l name g h p al ds) st = fst (teardown_tap (Inr l) name g h p al ds st)"
| "net_step v6 v6s (NetRelease l name) st = (case release_slot_config (Inr l) name st of None \<Rightarrow> st | Some (st', _) \<Rightarrow> st')"

lemma net_step_synced: "policy_synced st \<Longrightarrow> policy_synced (net_step v6 v6s op st)"
  by (cases op) (auto intro: claim_synced setup_synced teardown_synced release_synced split: option.split)

lemma net_run_synced: "policy_synced st \<Longrightarrow> policy_synced (fold (net_step v6 v6s) ops st)"
  by (induction ops arbitrary: st) (simp_all add: net_step_synced)

lemma install_synced: "specs_ok specs \<Longrightarrow> policy_synced \<lparr>nw_pool = pool_install specs pool, nw_requests = []\<rparr>"
  using install_ok [of specs pool] by (simp add: policy_synced_def slot_restricted_def pool_install_def)

text \<open>The slots of a filled pool, as \<^verbatim>\<open>net.rs\<close> builds them: the index, its TAP name and its block.\<close>

definition slot_at :: "nat \<Rightarrow> slot_spec" where
  "slot_at index = \<lparr>ss_index = index, ss_name = slot_tap_name index,
     ss_guest_ip = ipv4_to_string (POOL_BASE + word_of_nat (4 * index) + 2),
     ss_host_ip = ipv4_to_string (POOL_BASE + word_of_nat (4 * index) + 1), ss_prefix = LEASE_PREFIX\<rparr>"

lemma slot_at_sel [simp]: "ss_index (slot_at i) = i" "ss_name (slot_at i) = slot_tap_name i" "ss_prefix (slot_at i) = 30"
  by (simp_all add: slot_at_def LEASE_PREFIX_def)

lemma two_taps: "slot_tap_name 0 \<noteq> slot_tap_name (Suc 0)" "length (slot_tap_name 0) = 12" "slot_tap_name 0 \<noteq> []"
  by code_simp+

lemma two_slots_ok: "specs_ok [slot_at 0, slot_at 1]"
  using two_taps by (simp add: specs_ok_def upt_rec)

text \<open>Two slots, the first of them claimed by \<open>a\<close> and restricted.\<close>

abbreviation two_slots :: net_state where
  "two_slots \<equiv> \<lparr>nw_pool = pool_install [slot_at 0, slot_at 1] pool_empty, nw_requests = []\<rparr>"

definition custom_setup :: net_op where
  "custom_setup = NetSetup (Inr None) (slot_tap_name 0) (ss_guest_ip (slot_at 0)) (ss_host_ip (slot_at 0)) 30 None (Some [''a.b'']) None"

definition restricted_start :: net_state where
  "restricted_start = fold (net_step (\<lambda>_. None) (\<lambda>_. [])) [NetClaim ''a'' [], custom_setup] two_slots"

lemma clean_one: "clean_domains (Some [''a.b'']) = [''a.b'']"
  by code_simp

lemma slot_lease: "\<exists>lease. tap_lease_new v6 v6s (slot_tap_name 0) (ss_guest_ip (slot_at 0)) (ss_host_ip (slot_at 0)) 30 None = Inr lease"
proof -
  have "POOL_BASE + 1 AND ipv4_mask 30 = POOL_BASE" "POOL_BASE + 2 AND ipv4_mask 30 = POOL_BASE" "POOL_BASE AND ipv4_mask 16 = POOL_BASE"
    by (simp_all add: POOL_BASE_def ipv4_mask_def mask_eq_exp_minus_1)
  then show ?thesis
    by (simp add: ipv4_parse_to_string tap_lease_new_def two_taps slot_at_def parse_ipv4_def parse_ip_def rbind_def LEASE_PREFIX_def
        ipv4_network_def ipv4_contains_def opt_list_def)
qed

lemmas run_defs = pool_claim_def Let_def setup_tap_def custom_setup_def broker_request_def pool_slot_for_tap_def
  pool_set_custom_def clean_one

section \<open>Properties\<close>

text \<open>
  after any sequence of claims, policy changes, recycles and releases on a freshly installed pool, a sandbox that
  is bound to a slot keeps that slot through every further sequence in which nobody recycles its TAP or releases its
  name, and no other sandbox is ever bound to it meanwhile.
\<close>

theorem slot_exclusive:
  assumes "specs_ok specs" and "sp_bound (fold slot_step before (pool_install specs pool)) a = Some i"
    and "quiet slot_releases slot_step a after (fold slot_step before (pool_install specs pool))" and "a' \<noteq> a"
  shows "sp_bound (fold slot_step after (fold slot_step before (pool_install specs pool))) a = Some i \<and>
    sp_bound (fold slot_step after (fold slot_step before (pool_install specs pool))) a' \<noteq> Some i"
  using net_slots.stable_run [OF net_slots.inv_run [OF install_ok [OF assms(1)]] assms(2,3)]
    net_slots.kept_from_others [OF net_slots.inv_run [OF install_ok [OF assms(1)]] assms(2,3,4)] by blast

theorem slot_exclusive_witness:
  "sp_bound (fold slot_step [SlotClaim ''b'' []] (fold slot_step [SlotClaim ''a'' []] (pool_install [slot_at 0, slot_at 1] pool_empty))) ''a'' = Some 0 \<and>
   sp_bound (fold slot_step [SlotClaim ''b'' []] (fold slot_step [SlotClaim ''a'' []] (pool_install [slot_at 0, slot_at 1] pool_empty))) ''b'' \<noteq> Some 0"
  by (rule slot_exclusive [OF two_slots_ok]) (simp_all add: pool_install_def pool_claim_def Let_def)

text \<open>
  run one after the other, the operations keep the slots' policies: whatever the broker answers to a setup, every
  slot is restricted at the firewall exactly when the pool has it as carrying a custom policy, and a slot that no
  sandbox holds is unrestricted, so that no sandbox inherits the policy of the slot's previous holder.
\<close>

theorem slot_policy_synced:
  fixes specs ops pool v6 v6s
  defines "st \<equiv> fold (net_step v6 v6s) ops \<lparr>nw_pool = pool_install specs pool, nw_requests = []\<rparr>"
  assumes "specs_ok specs" and "i < length (sp_slots (nw_pool st))"
  shows "slot_restricted (spec_of (nw_pool st) i) (nw_requests st) = slot_custom (nw_pool st) i \<and>
    (slot_user (nw_pool st) i = None \<longrightarrow> \<not> slot_restricted (spec_of (nw_pool st) i) (nw_requests st))"
  using net_run_synced [OF install_synced [OF assms(2), of pool], of v6 v6s ops] assms(3)
  by (auto simp: policy_synced_def st_def)

theorem slot_policy_synced_witness:
  "slot_user (nw_pool restricted_start) 0 = Some ''a'' \<and> slot_custom (nw_pool restricted_start) 0 \<and>
   slot_restricted (spec_of (nw_pool restricted_start) 0) (nw_requests restricted_start)"
proof -
  have "slot_user (nw_pool restricted_start) 0 = Some ''a''" "slot_custom (nw_pool restricted_start) 0"
      "length (sp_slots (nw_pool restricted_start)) = 2"
    using slot_lease [of "\<lambda>_. None" "\<lambda>_. []"] two_taps unfolding restricted_start_def pool_install_def
    by (auto simp: run_defs)
  then show ?thesis
    using slot_policy_synced [OF two_slots_ok, of 0 "\<lambda>_. None" "\<lambda>_. []" "[NetClaim ''a'' [], custom_setup]" pool_empty]
    by (simp only: restricted_start_def)
qed

text \<open>
  \<^verbatim>\<open>teardown_tap\<close> and \<^verbatim>\<open>release_guest_config\<close> put the slot back on the free list before they ask the broker to reset its
  policy. When another thread claims the slot and installs its own policy between the two steps, the late reset flushes
  the new policy: the slot is bound to the new sandbox and recorded as restricted, and the firewall lets it reach everything.
\<close>

theorem slot_reset_race:
  "let (pool, released) = pool_recycle_tap (slot_tap_name 0) (nw_pool restricted_start);
       other = fold (net_step (\<lambda>_. None) (\<lambda>_. [])) [NetClaim ''b'' [], custom_setup] (restricted_start\<lparr>nw_pool := pool\<rparr>);
       final = fst (reset_policy (Inr None) (the released) other)
   in slot_user (nw_pool final) 0 = Some ''b'' \<and> slot_custom (nw_pool final) 0 \<and>
      \<not> slot_restricted (spec_of (nw_pool final) 0) (nw_requests final)"
  using slot_lease [of "\<lambda>_. None" "\<lambda>_. []"] two_taps unfolding restricted_start_def pool_install_def
  by (auto simp: run_defs pool_recycle_tap_def unbind_def reset_policy_def slot_restricted_def)

end
