(* ===== verification/GuestNet.thy ===== *)
theory GuestNet
  imports NetSlots
begin

text \<open>
  Guest networking as a sandbox sees it, \<^verbatim>\<open>vmond/src/net.rs\<close>: the slot pool is filled with leases carved
  from the /30 allocator under reserved names, and a sandbox gets its configuration from the pool while it has free
  slots and from the allocator otherwise. The theory composes the two allocators and shows that their users never
  share a network. \<open>claimed\<close> is the set of blocks the host's interfaces already use; each operation here is
  one critical section after the other of a single thread. The pool is filled before the operations; in the source a background thread fills it while they run.
\<close>

record guest_net =
  gn_net :: net_state
  gn_alloc :: lease_allocator

section \<open>Filling the pool\<close>

definition SLOT_BATCH :: nat where "SLOT_BATCH = 200"

fun fill_specs :: "(string \<Rightarrow> string) \<Rightarrow> (string \<Rightarrow> u128 option) \<Rightarrow> (nat \<Rightarrow> u32 set) \<Rightarrow> nat list \<Rightarrow> lease_allocator \<Rightarrow>
    lease_allocator \<times> slot_spec list result" where
  "fill_specs tap_name v6 claimed [] st = (st, Inr [])"
| "fill_specs tap_name v6 claimed (index # indices) st =
     (case lease_allocate tap_name v6 (slot_lease_name index) DEFAULT_DNS (Some (slot_tap_name index)) (claimed index) st of
        (st, Inl e) \<Rightarrow> (st, Inl e)
      | (st, Inr (config, _)) \<Rightarrow>
          (case fill_specs tap_name v6 claimed indices st of
             (st, Inl e) \<Rightarrow> (st, Inl e)
           | (st, Inr specs) \<Rightarrow> (st, Inr (\<lparr>ss_index = index, ss_name = slot_tap_name index, ss_guest_ip = gc_guest_ip config,
                ss_host_ip = gc_host_ip config, ss_prefix = gc_prefix config\<rparr> # specs))))"

fun chunks :: "nat \<Rightarrow> 'a list \<Rightarrow> 'a list list" where
  "chunks n xs = (if xs = [] \<or> n = 0 then [] else take n xs # chunks n (drop n xs))"

declare chunks.simps [simp del]

fun preallocate :: "(nat \<Rightarrow> tap_lease option result) \<Rightarrow> nat \<Rightarrow> slot_spec list list \<Rightarrow> net_state \<Rightarrow> net_state \<times> unit result" where
  "preallocate resp batch [] st = (st, Inr ())"
| "preallocate resp batch (chunk # rest) st =
     (case broker_request (resp batch) (BrPreallocateSlots chunk (batch = 0)) st of
        (st, Inl e) \<Rightarrow> (st, Inl e)
      | (st, Inr _) \<Rightarrow> preallocate resp (Suc batch) rest st)"

definition fill_slot_pool :: "(string \<Rightarrow> string) \<Rightarrow> (string \<Rightarrow> u128 option) \<Rightarrow> (nat \<Rightarrow> u32 set) \<Rightarrow> unit result \<Rightarrow> (nat \<Rightarrow> tap_lease option result) \<Rightarrow>
    nat \<Rightarrow> guest_net \<Rightarrow> guest_net \<times> unit result" where
  "fill_slot_pool tap_name v6 claimed flush resp n s =
     (if 2 ^ 32 \<le> n then (s, Inl Invalid)
      else case fill_specs tap_name v6 claimed [0..<n] (gn_alloc s) of
        (alloc, Inl e) \<Rightarrow> (s\<lparr>gn_alloc := alloc\<rparr>, Inl e)
      | (alloc, Inr specs) \<Rightarrow>
          let s = s\<lparr>gn_alloc := alloc\<rparr> in
          (case flush of
             Inl e \<Rightarrow> (s, Inl e)
           | Inr _ \<Rightarrow>
               (case preallocate resp 0 (chunks SLOT_BATCH specs) (gn_net s) of
                  (net, Inl e) \<Rightarrow> (s\<lparr>gn_net := net\<rparr>, Inl e)
                | (net, Inr _) \<Rightarrow> (s\<lparr>gn_net := net\<lparr>nw_pool := pool_install specs (nw_pool net)\<rparr>\<rparr>, Inr ()))))"

section \<open>Guest configurations\<close>

definition store_lease_for :: "(string \<Rightarrow> string) \<Rightarrow> (string \<Rightarrow> u128 option) \<Rightarrow> string \<Rightarrow> lease_allocator \<Rightarrow> guest_config option" where
  "store_lease_for tap_name v6 name st = Option.bind (la_leases st name) (\<lambda>entry.
     case config_from_entry tap_name v6 name entry DEFAULT_DNS of Inl _ \<Rightarrow> None | Inr c \<Rightarrow> Some c)"

definition lease_for :: "(string \<Rightarrow> string) \<Rightarrow> (string \<Rightarrow> u128 option) \<Rightarrow> string \<Rightarrow> guest_net \<Rightarrow> guest_config option" where
  "lease_for tap_name v6 name s = (case pool_lookup name (nw_pool (gn_net s)) of
     Some c \<Rightarrow> Some c | None \<Rightarrow> store_lease_for tap_name v6 name (gn_alloc s))"

text \<open>\<^const>\<open>None\<close> is the panic of \<^const>\<open>pool_claim\<close>.\<close>

definition allocate_guest_config_with_dns :: "(string \<Rightarrow> string) \<Rightarrow> (string \<Rightarrow> u128 option) \<Rightarrow> u32 set \<Rightarrow> string \<Rightarrow> string list \<Rightarrow> guest_net \<Rightarrow>
    (guest_net \<times> guest_config result) option" where
  "allocate_guest_config_with_dns tap_name v6 claimed name dns s =
     (case pool_lookup name (nw_pool (gn_net s)) of
        Some config \<Rightarrow> Some (s, Inr config)
      | None \<Rightarrow> (case store_lease_for tap_name v6 name (gn_alloc s) of
          Some config \<Rightarrow> Some (s, Inr config)
        | None \<Rightarrow> (case pool_claim name dns (nw_pool (gn_net s)) of
            None \<Rightarrow> None
          | Some (pool, found) \<Rightarrow>
              let s = s\<lparr>gn_net := (gn_net s)\<lparr>nw_pool := pool\<rparr>\<rparr> in
              (case found of
                 Some config \<Rightarrow> Some (s, Inr config)
               | None \<Rightarrow> (case lease_allocate tap_name v6 name dns None claimed (gn_alloc s) of
                   (alloc, r) \<Rightarrow> Some (s\<lparr>gn_alloc := alloc\<rparr>, rbind r (\<lambda>(config, dirty). Inr config)))))))"

definition release_guest_config :: "(string \<Rightarrow> u128 option) \<Rightarrow> tap_lease option result \<Rightarrow> string \<Rightarrow> guest_net \<Rightarrow> guest_net \<times> unit result" where
  "release_guest_config v6 resp name s =
     (case release_slot_config resp name (gn_net s) of
        Some (net, r) \<Rightarrow> (s\<lparr>gn_net := net\<rparr>, r)
      | None \<Rightarrow> (s\<lparr>gn_alloc := fst (lease_release v6 name (gn_alloc s))\<rparr>, Inr ()))"

section \<open>Invariant\<close>

text \<open>Slot \<open>i\<close> uses the block that the allocator leases under the slot's reserved name.\<close>

definition spec_on_block :: "slot_spec \<Rightarrow> u32 \<Rightarrow> bool" where
  "spec_on_block spec b \<longleftrightarrow> ss_host_ip spec = ipv4_to_string (b + 1) \<and> ss_guest_ip spec = ipv4_to_string (b + 2) \<and>
     ss_prefix spec = LEASE_PREFIX"

abbreviation gn_pool :: "guest_net \<Rightarrow> slot_pool" where
  "gn_pool s \<equiv> nw_pool (gn_net s)"

definition pool_specs :: "slot_pool \<Rightarrow> slot_spec list" where
  "pool_specs pool = map se_spec (sp_slots pool)"

definition specs_leased :: "(string \<Rightarrow> u128 option) \<Rightarrow> slot_spec list \<Rightarrow> lease_allocator \<Rightarrow> bool" where
  "specs_leased v6 specs st \<longleftrightarrow>
     (\<forall>i < length specs. \<exists>b. lease_holding v6 st (slot_lease_name i) = Some b \<and> spec_on_block (specs ! i) b)"

definition guest_net_ok :: "(string \<Rightarrow> u128 option) \<Rightarrow> guest_net \<Rightarrow> bool" where
  "guest_net_ok v6 s \<longleftrightarrow> lease_ok v6 (gn_alloc s) \<and> slots_ok (gn_pool s) \<and> specs_leased v6 (pool_specs (gn_pool s)) (gn_alloc s)"

lemma slot_lease_name_inj: "slot_lease_name i = slot_lease_name j \<longleftrightarrow> i = j"
  by (simp add: slot_lease_name_def dec_digits_inj)

lemma slot_tap_name_inj: "i < 2 ^ 32 \<Longrightarrow> j < 2 ^ 32 \<Longrightarrow> slot_tap_name i = slot_tap_name j \<Longrightarrow> i = j"
  unfolding slot_tap_name_def by (rule hex_fixed_inj [of _ 10]) simp_all

text \<open>The names of slot leases; a sandbox name never begins with a tilde.\<close>

definition reserved :: "string \<Rightarrow> bool" where
  "reserved name \<longleftrightarrow> take 6 name = ''~slot-''"

lemma reserved_lease_name: "reserved (slot_lease_name i)"
  by (simp add: reserved_def slot_lease_name_def)

lemma list_update_map_same: "(i < length xs \<Longrightarrow> f y = f (xs ! i)) \<Longrightarrow> map f (xs[i := y]) = map f xs"
  by (cases "i < length xs") (simp_all add: map_update list_update_same_conv list_update_beyond)

lemma unbind_specs [simp]: "pool_specs (fst (unbind i pool)) = pool_specs pool"
  by (auto simp: pool_specs_def unbind_def Let_def list_update_map_same split: option.split)

lemma slot_step_specs [simp]: "pool_specs (slot_step op pool) = pool_specs pool"
proof (cases op)
  case (SlotClaim name dns)
  then show ?thesis by (auto simp: pool_claim_def Let_def pool_specs_def list_update_map_same split: option.split)
next
  case (SlotSetCustom tap c)
  then show ?thesis by (simp add: pool_set_custom_def pool_specs_def list_update_map_same split: option.split)
qed (simp_all add: pool_recycle_tap_def pool_release_name_def split: option.split)

text \<open>The broker operations change the pool by at most one step of it.\<close>

lemma setup_pool:
  "nw_pool (fst (setup_tap v6 v6s resp name g h p al ds prev st)) = nw_pool st \<or>
   (\<exists>c. nw_pool (fst (setup_tap v6 v6s resp name g h p al ds prev st)) = slot_step (SlotSetCustom name c) (nw_pool st))"
  unfolding setup_tap_def broker_request_def Let_def by (auto split: option.split sum.split)

lemma reset_pool [simp]: "nw_pool (fst (reset_policy resp released st)) = nw_pool st"
  by (simp add: reset_policy_def broker_request_def split: sum.split)

lemma teardown_pool [simp]: "nw_pool (fst (teardown_tap resp name g h p al ds st)) = slot_step (SlotRecycle name) (nw_pool st)"
  by (cases "pool_recycle_tap name (nw_pool st)"; cases "snd (pool_recycle_tap name (nw_pool st))")
     (auto simp: teardown_tap_def broker_request_def split: sum.split)

lemma release_pool: "release_slot_config resp name st = Some (net, r) \<Longrightarrow> nw_pool net = slot_step (SlotRelease name) (nw_pool st)"
  by (cases "pool_release_name name (nw_pool st)"; cases "snd (pool_release_name name (nw_pool st))")
     (auto simp: release_slot_config_def dest: arg_cong [where f = "\<lambda>x. nw_pool (fst x)"])

section \<open>Operations\<close>

datatype guest_op =
    GuestAllocate "u32 set" string "string list"
  | GuestRelease "tap_lease option result" string
  | GuestSetup "tap_lease option result" string string string nat "string list option" "string list option" "string list option"
  | GuestTeardown "tap_lease option result" string "string option" "string option" nat "string list option" "string list option"

fun guest_step :: "(string \<Rightarrow> string) \<Rightarrow> (string \<Rightarrow> u128 option) \<Rightarrow> (u128 \<Rightarrow> string) \<Rightarrow> guest_op \<Rightarrow> guest_net \<Rightarrow> guest_net" where
  "guest_step tap_name v6 v6s (GuestAllocate claimed name dns) s =
     (case allocate_guest_config_with_dns tap_name v6 claimed name dns s of None \<Rightarrow> s | Some (s', _) \<Rightarrow> s')"
| "guest_step tap_name v6 v6s (GuestRelease resp name) s = fst (release_guest_config v6 resp name s)"
| "guest_step tap_name v6 v6s (GuestSetup resp name g h p al ds prev) s =
     s\<lparr>gn_net := fst (setup_tap v6 v6s resp name g h p al ds prev (gn_net s))\<rparr>"
| "guest_step tap_name v6 v6s (GuestTeardown resp name g h p al ds) s = s\<lparr>gn_net := fst (teardown_tap resp name g h p al ds (gn_net s))\<rparr>"

fun guest_op_ok :: "guest_op \<Rightarrow> bool" where
  "guest_op_ok (GuestAllocate claimed name dns) = (\<not> reserved name)"
| "guest_op_ok (GuestRelease resp name) = (\<not> reserved name)"
| "guest_op_ok _ = True"

lemma specs_leased_step:
  assumes "lease_ok v6 st" "specs_leased v6 specs st" "\<And>i. \<not> lease_releases op st (slot_lease_name i)"
  shows "specs_leased v6 specs (lease_step tap_name v6 op st)"
  using assms lease_stable unfolding specs_leased_def by metis

lemma pool_step_ok: "guest_net_ok v6 s \<Longrightarrow> nw_pool net = slot_step op (gn_pool s) \<Longrightarrow> guest_net_ok v6 (s\<lparr>gn_net := net\<rparr>)"
  by (simp add: guest_net_ok_def slot_step_ok)

lemma alloc_step_ok:
  assumes "guest_net_ok v6 s" "\<And>i. \<not> lease_releases op (gn_alloc s) (slot_lease_name i)"
  shows "guest_net_ok v6 (s\<lparr>gn_alloc := lease_step tap_name v6 op (gn_alloc s)\<rparr>)"
  using assms specs_leased_step lease_blocks.inv_step by (simp add: guest_net_ok_def)

lemma guest_step_ok:
  assumes ok: "guest_net_ok v6 s" and op: "guest_op_ok op"
  shows "guest_net_ok v6 (guest_step tap_name v6 v6s op s)"
proof (cases op)
  case (GuestAllocate claimed name dns)
  show ?thesis
  proof (cases "pool_lookup name (gn_pool s) = None \<and> store_lease_for tap_name v6 name (gn_alloc s) = None \<and> pool_claim name dns (gn_pool s) \<noteq> None")
    case True
    then obtain pool found where claim: "pool_claim name dns (gn_pool s) = Some (pool, found)" by auto
    define s1 where "s1 = s\<lparr>gn_net := (gn_net s)\<lparr>nw_pool := pool\<rparr>\<rparr>"
    have ok1: "guest_net_ok v6 s1"
      unfolding s1_def using claim by (intro pool_step_ok [OF ok, where op = "SlotClaim name dns"]) simp
    have "guest_net_ok v6 (s1\<lparr>gn_alloc := lease_step tap_name v6 (LeaseAllocate name dns None claimed) (gn_alloc s1)\<rparr>)"
      by (rule alloc_step_ok [OF ok1]) (simp add: lease_releases_def)
    then show ?thesis using True claim ok1 GuestAllocate
      by (cases "lease_allocate tap_name v6 name dns None claimed (gn_alloc s)"; cases found)
         (simp_all add: allocate_guest_config_with_dns_def s1_def Let_def)
  next
    case False
    then show ?thesis using ok GuestAllocate by (auto simp: allocate_guest_config_with_dns_def split: option.splits)
  qed
next
  case (GuestRelease resp name)
  show ?thesis
  proof (cases "release_slot_config resp name (gn_net s)")
    case None
    have "guest_net_ok v6 (s\<lparr>gn_alloc := lease_step tap_name v6 (LeaseRelease name) (gn_alloc s)\<rparr>)"
      using op GuestRelease reserved_lease_name by (intro alloc_step_ok [OF ok]) (auto simp: lease_releases_def)
    then show ?thesis using None GuestRelease by (simp add: release_guest_config_def)
  next
    case (Some out)
    obtain net r where out: "out = (net, r)" by (cases out)
    have "guest_net_ok v6 (s\<lparr>gn_net := net\<rparr>)"
      using Some out by (intro pool_step_ok [OF ok, where op = "SlotRelease name"] release_pool) simp
    then show ?thesis using Some out GuestRelease by (simp add: release_guest_config_def)
  qed
next
  case (GuestSetup resp name g h p al ds prev)
  from setup_pool [of v6 v6s resp name g h p al ds prev "gn_net s"]
  have "guest_net_ok v6 (s\<lparr>gn_net := fst (setup_tap v6 v6s resp name g h p al ds prev (gn_net s))\<rparr>)"
  proof
    assume "nw_pool (fst (setup_tap v6 v6s resp name g h p al ds prev (gn_net s))) = gn_pool s"
    then show ?thesis using ok by (simp add: guest_net_ok_def)
  qed (use pool_step_ok [OF ok] in blast)
  then show ?thesis using GuestSetup by simp
next
  case (GuestTeardown resp name g h p al ds)
  then show ?thesis using pool_step_ok [OF ok, where op = "SlotRecycle name"] by simp
qed

lemma guest_run_ok: "guest_net_ok v6 s \<Longrightarrow> list_all guest_op_ok ops \<Longrightarrow> guest_net_ok v6 (fold (guest_step tap_name v6 v6s) ops s)"
  by (induction ops arbitrary: s) (simp_all add: guest_step_ok)

section \<open>The filled pool\<close>

lemma config_of_block:
  "b \<in> set pool_blocks \<Longrightarrow> le_network entry = cidr_v4_string b LEASE_PREFIX \<Longrightarrow> \<exists>tap. config_from_entry tap_name v6 name entry dns =
     Inr \<lparr>gc_tap = tap, gc_host_ip = ipv4_to_string (b + 1), gc_guest_ip = ipv4_to_string (b + 2), gc_prefix = LEASE_PREFIX,
          gc_network = cidr_v4_string b LEASE_PREFIX, gc_dns = dns\<rparr>"
  by (simp add: config_from_entry_def cidr_roundtrip block_aligned LEASE_PREFIX_def)

lemma allocate_config:
  assumes ok: "lease_ok v6 st" and alloc: "lease_allocate tap_name v6 name dns tap claimed st = (st', Inr (config, dirty))"
  obtains b where "lease_holding v6 st' name = Some b" "gc_host_ip config = ipv4_to_string (b + 1)"
    "gc_guest_ip config = ipv4_to_string (b + 2)" "gc_prefix config = LEASE_PREFIX" "gc_network config = cidr_v4_string b LEASE_PREFIX"
proof (cases "la_leases st name")
  case None
  show ?thesis
  proof (cases "find (\<lambda>b. b \<notin> claimed) (la_free st)")
    case None2: None
    then show ?thesis using allocate_new [OF ok None, where claimed = claimed and tap_name = tap_name and dns = dns and tap = tap] alloc by simp
  next
    case (Some b)
    then have "b \<in> set pool_blocks" using ok by (auto simp: lease_ok_def find_Some_iff dest: nth_mem)
    then show ?thesis
      using Some allocate_new [OF ok None, where claimed = claimed and tap_name = tap_name and dns = dns and tap = tap] alloc that [of b] by (auto simp: lease_holding_def block_base)
  qed
next
  case (Some e)
  obtain b where b: "b \<in> set pool_blocks" "le_network e = cidr_v4_string b LEASE_PREFIX" "lease_network_base v6 (le_network e) = Some b"
    using lease_base [OF ok Some] by auto
  obtain t where "config_from_entry tap_name v6 name e dns = Inr \<lparr>gc_tap = t, gc_host_ip = ipv4_to_string (b + 1),
      gc_guest_ip = ipv4_to_string (b + 2), gc_prefix = LEASE_PREFIX, gc_network = cidr_v4_string b LEASE_PREFIX, gc_dns = dns\<rparr>"
    using config_of_block [OF b(1,2), of tap_name v6 name dns] by auto
  then show ?thesis using that [of b] alloc Some b(3) by (auto simp: lease_allocate_def lease_holding_def)
qed

lemma allocate_keeps: "lease_ok v6 st \<Longrightarrow> lease_holding v6 st a = Some b \<Longrightarrow>
    lease_holding v6 (fst (lease_allocate tap_name v6 name dns tap claimed st)) a = Some b"
  using lease_stable [of v6 st a b "LeaseAllocate name dns tap claimed" tap_name] by (simp add: lease_releases_def)

lemma fill_specs_ok: "lease_ok v6 st \<Longrightarrow> lease_ok v6 (fst (fill_specs tap_name v6 claimed indices st))"
proof (induction indices arbitrary: st)
  case (Cons i indices)
  obtain st' r where alloc: "lease_allocate tap_name v6 (slot_lease_name i) DEFAULT_DNS (Some (slot_tap_name i)) (claimed i) st = (st', r)"
    by fastforce
  have "lease_ok v6 st'" using allocate_ok [OF Cons.prems] alloc by (metis fst_conv)
  from Cons.IH [OF this] show ?case using alloc \<open>lease_ok v6 st'\<close> by (auto split: sum.split prod.splits)
qed simp

lemma fill_specs_holding: "lease_ok v6 st \<Longrightarrow> lease_holding v6 st a = Some b \<Longrightarrow>
    lease_holding v6 (fst (fill_specs tap_name v6 claimed indices st)) a = Some b"
proof (induction indices arbitrary: st)
  case (Cons i indices)
  obtain st' r where alloc: "lease_allocate tap_name v6 (slot_lease_name i) DEFAULT_DNS (Some (slot_tap_name i)) (claimed i) st = (st', r)"
    by fastforce
  have "lease_ok v6 st'" "lease_holding v6 st' a = Some b"
    using allocate_ok [OF Cons.prems(1)] allocate_keeps [OF Cons.prems] alloc by (metis fst_conv)+
  from Cons.IH [OF this] this(2) show ?case using alloc by (auto split: sum.split prod.splits)
qed simp

lemma fill_specs_leased:
  assumes "lease_ok v6 st" "fill_specs tap_name v6 claimed indices st = (st', Inr specs)"
  shows "list_all2 (\<lambda>i spec. ss_index spec = i \<and> ss_name spec = slot_tap_name i \<and>
    (\<exists>b. lease_holding v6 st' (slot_lease_name i) = Some b \<and> spec_on_block spec b)) indices specs"
  using assms
proof (induction indices arbitrary: st specs)
  case (Cons i indices)
  obtain st1 config d where alloc: "lease_allocate tap_name v6 (slot_lease_name i) DEFAULT_DNS (Some (slot_tap_name i)) (claimed i) st = (st1, Inr (config, d))"
    using Cons.prems(2) by (fastforce split: prod.splits sum.splits)
  obtain rest where rest: "fill_specs tap_name v6 claimed indices st1 = (st', Inr rest)" and
      specs: "specs = \<lparr>ss_index = i, ss_name = slot_tap_name i, ss_guest_ip = gc_guest_ip config,
        ss_host_ip = gc_host_ip config, ss_prefix = gc_prefix config\<rparr> # rest"
    using Cons.prems(2) alloc by (auto split: prod.splits sum.splits)
  have ok1: "lease_ok v6 st1" using allocate_ok [OF Cons.prems(1)] alloc by (metis fst_conv)
  obtain b where b: "lease_holding v6 st1 (slot_lease_name i) = Some b" "gc_host_ip config = ipv4_to_string (b + 1)"
      "gc_guest_ip config = ipv4_to_string (b + 2)" "gc_prefix config = LEASE_PREFIX"
    using allocate_config [OF Cons.prems(1) alloc] by metis
  have "lease_holding v6 st' (slot_lease_name i) = Some b"
    using fill_specs_holding [OF ok1 b(1), of tap_name claimed indices] rest by simp
  then show ?case using Cons.IH [OF ok1 rest] b(2-4) by (auto simp: specs spec_on_block_def)
qed simp

lemma fill_specs_install:
  assumes "lease_ok v6 st" "fill_specs tap_name v6 claimed [0..<n] st = (st', Inr specs)" "n < 2 ^ 32"
  shows "specs_ok specs \<and> specs_leased v6 specs st'"
proof -
  note all = fill_specs_leased [OF assms(1,2), unfolded list_all2_conv_all_nth]
  then have len: "length specs = n" by simp
  have nth: "ss_index (specs ! i) = i" "ss_name (specs ! i) = slot_tap_name i" if "i < n" for i using all that by auto
  have "map ss_index specs = [0..<length specs]" using nth(1) len by (intro nth_equalityI) simp_all
  moreover have "distinct (map ss_name specs)"
    using nth(2) slot_tap_name_inj assms(3) len by (auto simp: distinct_conv_nth)
  moreover have "specs_leased v6 specs st'" using all len by (auto simp: specs_leased_def)
  ultimately show ?thesis by (simp add: specs_ok_def)
qed

lemma preallocate_pool [simp]: "nw_pool (fst (preallocate resp batch cs st)) = nw_pool st"
  by (induction cs arbitrary: batch st) (simp_all add: broker_request_def split: sum.split)

lemma pool_specs_install [simp]: "pool_specs (pool_install specs pool) = specs"
  by (simp add: pool_specs_def pool_install_def comp_def)

lemma fill_ok:
  assumes ok: "lease_ok v6 (gn_alloc s)" and empty: "gn_pool s = pool_empty"
  shows "guest_net_ok v6 (fst (fill_slot_pool tap_name v6 claimed flush resp n s))"
proof (cases "n < 2 ^ 32")
  case True
  obtain st' r where fill: "fill_specs tap_name v6 claimed [0..<n] (gn_alloc s) = (st', r)" by fastforce
  have ok': "lease_ok v6 st'" using fill_specs_ok [OF ok] fill by (metis fst_conv)
  have none: "guest_net_ok v6 (s\<lparr>gn_alloc := st', gn_net := net\<rparr>)" if "nw_pool net = pool_empty" for net
    using ok' that by (simp add: guest_net_ok_def slots_ok_def pool_empty_def specs_leased_def pool_specs_def)
  have full: "guest_net_ok v6 (s\<lparr>gn_alloc := st', gn_net := net\<lparr>nw_pool := pool_install specs p\<rparr>\<rparr>)" if "r = Inr specs" for net specs p
    using fill_specs_install [OF ok fill [unfolded that] True] install_ok ok' by (simp add: guest_net_ok_def)
  obtain net q where pre: "preallocate resp 0 (chunks SLOT_BATCH (projr r)) (gn_net s) = (net, q)" by fastforce
  then have "nw_pool net = pool_empty" using preallocate_pool [of resp 0 "chunks SLOT_BATCH (projr r)" "gn_net s"] empty by simp
  then show ?thesis
    using True fill pre none [of net] none [OF empty] full by (auto simp: fill_slot_pool_def Let_def split: sum.split)
qed (use ok empty in \<open>simp add: fill_slot_pool_def guest_net_ok_def slots_ok_def pool_empty_def specs_leased_def pool_specs_def\<close>)

section \<open>Networks of sandboxes\<close>

lemma ipv4_to_string_inj: "ipv4_to_string a = ipv4_to_string b \<longleftrightarrow> a = b"
  by (metis ipv4_parse_to_string option.inject)

text \<open>The name under which the allocator holds the network of a sandbox.\<close>

lemma config_lease:
  assumes ok: "guest_net_ok v6 s" and c: "lease_for tap_name v6 a s = Some c"
  obtains n b where "lease_holding v6 (gn_alloc s) n = Some b" "gc_network c = cidr_v4_string b LEASE_PREFIX"
    "gc_guest_ip c = ipv4_to_string (b + 2)" "n = a \<or> (\<exists>i. n = slot_lease_name i \<and> sp_bound (gn_pool s) a = Some i)"
proof (cases "pool_lookup a (gn_pool s)")
  case None
  then have c': "store_lease_for tap_name v6 a (gn_alloc s) = Some c" using c by (simp add: lease_for_def)
  then obtain e where e1: "la_leases (gn_alloc s) a = Some e" by (cases "la_leases (gn_alloc s) a") (simp_all add: store_lease_for_def)
  then have e: "la_leases (gn_alloc s) a = Some e" "config_from_entry tap_name v6 a e DEFAULT_DNS = Inr c"
    using c' by (auto simp: store_lease_for_def split: sum.split_asm)
  obtain b where b: "b \<in> set pool_blocks" "le_network e = cidr_v4_string b LEASE_PREFIX" "lease_network_base v6 (le_network e) = Some b"
    using ok lease_base e(1) unfolding guest_net_ok_def by metis
  show ?thesis using that [of a b] e b(3) config_of_block [OF b(1,2), of tap_name v6 a DEFAULT_DNS] by (auto simp: lease_holding_def)
next
  case (Some config)
  then obtain i where i: "sp_bound (gn_pool s) a = Some i" "config_for i (gn_pool s) = Some c"
    using c by (auto simp: lease_for_def pool_lookup_def bind_eq_Some_conv)
  then have "i < length (sp_slots (gn_pool s))" using ok slots_ok_bound by (simp add: guest_net_ok_def)
  moreover from this obtain b where "lease_holding v6 (gn_alloc s) (slot_lease_name i) = Some b" "spec_on_block (spec_of (gn_pool s) i) b"
    using ok by (fastforce simp: guest_net_ok_def specs_leased_def pool_specs_def)
  ultimately show ?thesis
    using i that [of "slot_lease_name i" b] by (auto simp: config_for_def spec_on_block_def ipv4_parse_to_string Let_def)
qed

lemma networks_disjoint:
  assumes ok: "guest_net_ok v6 s" and "\<not> reserved a" "\<not> reserved a'" "a \<noteq> a'"
    and c: "lease_for tap_name v6 a s = Some c" "lease_for tap_name v6 a' s = Some c'"
  shows "gc_network c \<noteq> gc_network c' \<and> gc_guest_ip c \<noteq> gc_guest_ip c'"
proof -
  have lok: "lease_ok v6 (gn_alloc s)" and sok: "slots_ok (gn_pool s)" using ok by (auto simp: guest_net_ok_def)
  obtain n b where n: "lease_holding v6 (gn_alloc s) n = Some b" "gc_network c = cidr_v4_string b LEASE_PREFIX"
      "gc_guest_ip c = ipv4_to_string (b + 2)" "n = a \<or> (\<exists>i. n = slot_lease_name i \<and> sp_bound (gn_pool s) a = Some i)"
    using config_lease [OF ok c(1)] by metis
  obtain n' b' where n': "lease_holding v6 (gn_alloc s) n' = Some b'" "gc_network c' = cidr_v4_string b' LEASE_PREFIX"
      "gc_guest_ip c' = ipv4_to_string (b' + 2)" "n' = a' \<or> (\<exists>i. n' = slot_lease_name i \<and> sp_bound (gn_pool s) a' = Some i)"
    using config_lease [OF ok c(2)] by metis
  have "n \<noteq> n'"
    using n(4) n'(4) assms(2-4) reserved_lease_name net_slots.exclusive [OF sok] by (auto simp: slot_lease_name_inj)
  then have "b \<noteq> b'" using lease_exclusive [OF lok n(1)] n'(1) by auto
  moreover have "b \<in> set pool_blocks" "b' \<in> set pool_blocks"
    using n(1) n'(1) lease_base [OF lok] by (fastforce simp: lease_holding_def bind_eq_Some_conv)+
  ultimately show ?thesis using n(2,3) n'(2,3) cidr_block_inj by (auto simp: ipv4_to_string_inj)
qed

section \<open>Properties\<close>

text \<open>
  C20: no two sandboxes share a guest network or address, whichever allocator serves them. Whatever leases the journal held
  before, whether the fill of the slot pool succeeds or stops half way, and for every sequence of allocations, releases,
  policy setups and teardowns after it, with every answer of the broker: the configurations of two different sandboxes
  have different networks and different guest addresses.
\<close>

theorem guest_networks_disjoint:
  assumes "lease_ok v6 alloc" and "list_all guest_op_ok ops" and "\<not> reserved a" "\<not> reserved a'" "a \<noteq> a'"
    and "s = fold (guest_step tap_name v6 v6s) ops (fst (fill_slot_pool tap_name v6 claimed flush resp n
          \<lparr>gn_net = \<lparr>nw_pool = pool_empty, nw_requests = []\<rparr>, gn_alloc = alloc\<rparr>))"
    and "lease_for tap_name v6 a s = Some c" "lease_for tap_name v6 a' s = Some c'"
  shows "gc_network c \<noteq> gc_network c' \<and> gc_guest_ip c \<noteq> gc_guest_ip c'"
proof -
  have "guest_net_ok v6 s" unfolding assms(6) using assms(1,2) by (intro guest_run_ok fill_ok) simp_all
  then show ?thesis using networks_disjoint assms(3,4,5,7,8) by blast
qed

text \<open>One slot; \<open>a\<close> takes it and \<open>b\<close> gets a lease.\<close>

abbreviation one_slot :: guest_net where
  "one_slot \<equiv> fst (fill_slot_pool (\<lambda>_. ''t'') (\<lambda>_. None) (\<lambda>_. {}) (Inr ()) (\<lambda>_. Inr None) 1
      \<lparr>gn_net = \<lparr>nw_pool = pool_empty, nw_requests = []\<rparr>, gn_alloc = lease_load (\<lambda>_. None) None\<rparr>)"

definition two_guests :: guest_net where
  "two_guests = fold (guest_step (\<lambda>_. ''t'') (\<lambda>_. None) (\<lambda>_. [])) [GuestAllocate {} ''a'' [], GuestAllocate {} ''b'' []] one_slot"

lemma preallocate_succeeds: "\<exists>reqs. preallocate (\<lambda>_. Inr l) batch cs st = (st\<lparr>nw_requests := reqs\<rparr>, Inr ())"
proof (induction cs arbitrary: batch st)
  case Nil
  show ?case by (intro exI [of _ "nw_requests st"]) simp
next
  case (Cons c cs)
  show ?case
    using Cons [of "Suc batch" "st\<lparr>nw_requests := nw_requests st @ [BrPreallocateSlots c (batch = 0)]\<rparr>"] by (auto simp: broker_request_def)
qed

lemma two_guests_configs: "lease_for (\<lambda>_. ''t'') (\<lambda>_. None) ''a'' two_guests \<noteq> None" "lease_for (\<lambda>_. ''t'') (\<lambda>_. None) ''b'' two_guests \<noteq> None"
proof -
  obtain free where free: "pool_blocks = POOL_BASE # (POOL_BASE + 4) # free" by (rule pool_blocks_split)
  have blocks: "POOL_BASE \<in> set pool_blocks" "POOL_BASE + 4 \<in> set pool_blocks" unfolding free by simp_all
  have names: "slot_lease_name 0 \<noteq> ''a''" "slot_lease_name 0 \<noteq> ''b''" by (simp_all add: slot_lease_name_def)
  note pre = preallocate_succeeds [of None 0 _ "\<lparr>nw_pool = pool_empty, nw_requests = []\<rparr>"]
  note alloc = lease_allocate_def config_block [OF blocks(1)] config_block [OF blocks(2)] new_free free
  have "\<exists>reqs. one_slot = \<lparr>gn_net = \<lparr>nw_pool = pool_install [slot_at 0] pool_empty, nw_requests = reqs\<rparr>,
     gn_alloc = \<lparr>la_leases = [slot_lease_name 0 \<mapsto> \<lparr>le_network = cidr_v4_string POOL_BASE LEASE_PREFIX, le_tap = Some (slot_tap_name 0)\<rparr>],
       la_free = (POOL_BASE + 4) # free\<rparr>\<rparr>"
    using pre [of "chunks SLOT_BATCH [slot_at 0]"]
    by (auto simp: fill_slot_pool_def alloc slot_at_def)
  then show "lease_for (\<lambda>_. ''t'') (\<lambda>_. None) ''a'' two_guests \<noteq> None" "lease_for (\<lambda>_. ''t'') (\<lambda>_. None) ''b'' two_guests \<noteq> None"
    unfolding two_guests_def
    by (auto simp: allocate_guest_config_with_dns_def alloc pool_lookup_def pool_install_def pool_claim_def config_for_def slot_at_def
        ipv4_parse_to_string store_lease_for_def lease_for_def names Let_def)
qed

theorem guest_networks_disjoint_witness:
  "gc_network (the (lease_for (\<lambda>_. ''t'') (\<lambda>_. None) ''a'' two_guests)) \<noteq> gc_network (the (lease_for (\<lambda>_. ''t'') (\<lambda>_. None) ''b'' two_guests)) \<and>
   gc_guest_ip (the (lease_for (\<lambda>_. ''t'') (\<lambda>_. None) ''a'' two_guests)) \<noteq> gc_guest_ip (the (lease_for (\<lambda>_. ''t'') (\<lambda>_. None) ''b'' two_guests))"
  by (rule guest_networks_disjoint [OF new_ok _ _ _ _ two_guests_def])
    (use two_guests_configs in \<open>simp_all add: reserved_def\<close>)

end
