(* ===== verification/Utf8.thy ===== *)
theory Utf8
  imports RustText
begin

text \<open>
  Byte strings and integers of the Redis wire format: UTF-8 as \<^verbatim>\<open>String::from_utf8\<close> and \<^verbatim>\<open>from_utf8_lossy\<close> see it, ASCII
  case, and \<^verbatim>\<open>str::parse\<close> to a signed integer. A byte is a \<^typ>\<open>char\<close>.
\<close>

section \<open>UTF-8\<close>

abbreviation byte_in :: "nat \<Rightarrow> nat \<Rightarrow> char \<Rightarrow> bool" where
  "byte_in lo hi c \<equiv> lo \<le> (of_char c :: nat) \<and> (of_char c :: nat) \<le> hi"

text \<open>The ranges of the bytes after a first byte; none for a byte that starts no character.\<close>

definition utf8_follow :: "char \<Rightarrow> (nat \<times> nat) list option" where
  "utf8_follow c =
     (if byte_in 0 0x7f c then Some []
      else if byte_in 0xc2 0xdf c then Some [(0x80, 0xbf)]
      else if byte_in 0xe0 0xe0 c then Some [(0xa0, 0xbf), (0x80, 0xbf)]
      else if byte_in 0xed 0xed c then Some [(0x80, 0x9f), (0x80, 0xbf)]
      else if byte_in 0xe1 0xef c then Some [(0x80, 0xbf), (0x80, 0xbf)]
      else if byte_in 0xf0 0xf0 c then Some [(0x90, 0xbf), (0x80, 0xbf), (0x80, 0xbf)]
      else if byte_in 0xf1 0xf3 c then Some [(0x80, 0xbf), (0x80, 0xbf), (0x80, 0xbf)]
      else if byte_in 0xf4 0xf4 c then Some [(0x80, 0x8f), (0x80, 0xbf), (0x80, 0xbf)]
      else None)"

text \<open>How many of the ranges the next bytes meet.\<close>

fun matched :: "(nat \<times> nat) list \<Rightarrow> string \<Rightarrow> nat" where
  "matched ((lo, hi) # rs) (c # cs) = (if byte_in lo hi c then Suc (matched rs cs) else 0)"
| "matched _ _ = 0"

text \<open>Whether a character starts here, and the bytes of it or of the maximal broken part.\<close>

definition utf8_step :: "char \<Rightarrow> string \<Rightarrow> bool \<times> nat" where
  "utf8_step c cs = (case utf8_follow c of
     None \<Rightarrow> (False, 1)
   | Some rs \<Rightarrow> let m = matched rs cs in (m = length rs, Suc m))"

function utf8_valid :: "string \<Rightarrow> bool" where
  "utf8_valid [] = True"
| "utf8_valid (c # cs) = (let (ok, n) = utf8_step c cs in ok \<and> utf8_valid (drop (n - 1) cs))"
  by pat_completeness auto
termination by (relation "measure length") auto

function utf8_lossy :: "string \<Rightarrow> string" where
  "utf8_lossy [] = []"
| "utf8_lossy (c # cs) = (let (ok, n) = utf8_step c cs in
     (if ok then take n (c # cs) else map char_of [0xef, 0xbf, 0xbd :: nat]) @ utf8_lossy (drop (n - 1) cs))"
  by pat_completeness auto
termination by (relation "measure length") auto

definition ascii :: "string \<Rightarrow> bool" where
  "ascii s \<longleftrightarrow> list_all (byte_in 0 0x7f) s"

lemma utf8_step_ascii: "byte_in 0 0x7f c \<Longrightarrow> utf8_step c cs = (True, 1)"
  by (simp add: utf8_step_def utf8_follow_def)

lemma utf8_valid_ascii: "ascii s \<Longrightarrow> utf8_valid s"
  by (induction s) (simp_all add: ascii_def utf8_step_ascii)

lemma utf8_lossy_valid: "utf8_valid s \<Longrightarrow> utf8_lossy s = s"
proof (induction s rule: utf8_lossy.induct)
  case (2 c cs)
  obtain ok n where step: "utf8_step c cs = (ok, n)" by (cases "utf8_step c cs")
  then have n: "0 < n" by (auto simp: utf8_step_def Let_def split: option.splits)
  then have "take n (c # cs) @ drop (n - 1) cs = c # cs" by (cases n) simp_all
  then show ?case using 2 step by simp
qed simp

declare utf8_lossy.simps(2) [simp del] utf8_valid.simps(2) [simp del]

lemma utf8_valid_Cons [simp]: "byte_in 0 0x7f c \<Longrightarrow> utf8_valid (c # cs) = utf8_valid cs"
  by (simp add: utf8_valid.simps(2) utf8_step_ascii)

definition to_upper :: "string \<Rightarrow> string" where
  "to_upper = map (\<lambda>c. if byte_in 97 122 c then char_of (of_char c - 32 :: nat) else c)"

section \<open>Signed integers\<close>

definition parse_i64 :: "string \<Rightarrow> int option" where
  "parse_i64 text =
     (let (neg, ds) = (case text of
         [] \<Rightarrow> (False, [])
       | c # cs \<Rightarrow> if c = CHR ''-'' then (True, cs) else if c = CHR ''+'' then (False, cs) else (False, text));
          v = (if neg then - int (digits_val ds) else int (digits_val ds))
      in if ds = [] \<or> \<not> list_all is_digit ds \<or> v < i64_min \<or> i64_max < v then None else Some v)"

definition int_digits :: "int \<Rightarrow> string" where
  "int_digits i = (if i < 0 then CHR ''-'' # dec_digits (nat (- i)) else dec_digits (nat i))"

lemma dec_digits_head: "hd (dec_digits n) \<noteq> c" if "\<not> is_digit c"
  using that dec_digits_digits [of n] by (cases "dec_digits n") auto

lemma parse_i64_int_digits: "i64_min \<le> i \<Longrightarrow> i \<le> i64_max \<Longrightarrow> parse_i64 (int_digits i) = Some i"
proof -
  assume "i64_min \<le> i" "i \<le> i64_max"
  moreover have "\<not> is_digit CHR ''-''" "\<not> is_digit CHR ''+''" by code_simp+
  moreover obtain c cs where "dec_digits (nat i) = c # cs" by (cases "dec_digits (nat i)") auto
  ultimately show ?thesis
    using dec_digits_head [of "CHR ''-''" "nat i"] dec_digits_head [of "CHR ''+''" "nat i"] dec_digits_digits [of "nat i"]
      dec_digits_digits [of "nat (- i)"] digits_val_dec_digits [of "nat i"]
    by (simp add: parse_i64_def int_digits_def) linarith
qed

lemma digit_ascii: "is_digit c \<Longrightarrow> byte_in 0 0x7f c"
  by (simp add: is_digit_def less_eq_char_def)

lemma ascii_int_digits: "ascii (int_digits i)"
  using dec_digits_digits digit_ascii unfolding ascii_def int_digits_def by (auto simp: list_all_iff)

lemma int_digits_not_mem: "\<not> is_digit c \<Longrightarrow> c \<noteq> CHR ''-'' \<Longrightarrow> c \<notin> set (int_digits i)"
  by (simp add: int_digits_def digit_not_mem)

lemma int_digits_nonempty [simp]: "int_digits i \<noteq> []"
  by (simp add: int_digits_def)

end
