(* ===== verification/Resp.thy ===== *)
theory Resp
  imports Utf8
begin

text \<open>
  The wire format between the orchestration layer and Redis, from both ends: commands as the client sends them
  (\<^verbatim>\<open>vmond/src/orch/redis.rs\<close>) and the embedded server reads them (\<^verbatim>\<open>orch/miniredis.rs\<close>), replies as the server encodes and the client decodes
  them. A connection is the bytes it still delivers; then it is at its end. A byte is a \<^typ>\<open>char\<close>. Buffers of the length a
  frame announces are allocated without failure.
\<close>

abbreviation CR :: char where "CR \<equiv> CHR 0x0D"
abbreviation LF :: char where "LF \<equiv> CHR 0x0A"

section \<open>Client\<close>

datatype resp = RSimple string | RInt int | RBulk string | RNull | RArray "resp list"

text \<open>\<open>RespServer\<close> is an error reply; \<open>RespPanic\<close> the panic of \<^verbatim>\<open>str::split_at\<close> off a character boundary.\<close>

datatype resp_error = RespRead | RespNonUtf8 | RespBadInt | RespServer string | RespType | RespPanic

fun resp_into_bytes :: "resp \<Rightarrow> string option" where
  "resp_into_bytes (RBulk b) = Some b"
| "resp_into_bytes (RSimple t) = Some t"
| "resp_into_bytes _ = None"

definition resp_into_string :: "resp \<Rightarrow> string option" where
  "resp_into_string r = Option.bind (resp_into_bytes r) (\<lambda>b. if utf8_valid b then Some b else None)"

fun resp_into_array :: "resp \<Rightarrow> resp list option" where
  "resp_into_array (RArray xs) = Some xs"
| "resp_into_array _ = None"

definition encode_command :: "string list \<Rightarrow> string" where
  "encode_command args = CHR ''*'' # dec_digits (length args) @ [CR, LF] @
     concat (map (\<lambda>arg. CHR ''$'' # dec_digits (length arg) @ [CR, LF] @ arg @ [CR, LF]) args)"

text \<open>Bytes up to a line feed, without a final carriage return.\<close>

definition take_line :: "string \<Rightarrow> (string \<times> string) option" where
  "take_line s = (if LF \<in> set s then
     let line = takeWhile (\<lambda>c. c \<noteq> LF) s
     in Some (if line \<noteq> [] \<and> last line = CR then butlast line else line, tl (dropWhile (\<lambda>c. c \<noteq> LF) s))
   else None)"

definition read_line :: "string \<Rightarrow> resp_error + (string \<times> string)" where
  "read_line s = (case take_line s of
     None \<Rightarrow> Inl RespRead
   | Some (line, rest) \<Rightarrow> if utf8_valid line then Inr (line, rest) else Inl RespNonUtf8)"

definition parse_int :: "string \<Rightarrow> resp_error + int" where
  "parse_int t = (case parse_i64 t of None \<Rightarrow> Inl RespBadInt | Some i \<Rightarrow> Inr i)"

text \<open>One line of a reply and what follows it: a finished value, or the number of items of an array.\<close>

definition receive_head :: "string \<Rightarrow> string \<Rightarrow> resp_error + ((resp \<times> string) + nat)" where
  "receive_head line s = (case line of
     [] \<Rightarrow> Inl RespPanic
   | c # rest \<Rightarrow>
       if \<not> byte_in 0 0x7f c then Inl RespPanic
       else if c = CHR ''+'' then Inr (Inl (RSimple rest, s))
       else if c = CHR ''-'' then Inl (RespServer rest)
       else if c = CHR '':'' then rbind (parse_int rest) (\<lambda>i. Inr (Inl (RInt i, s)))
       else if c = CHR ''$'' then rbind (parse_int rest) (\<lambda>len.
         if len < 0 then Inr (Inl (RNull, s))
         else if length s < nat len + 2 then Inl RespRead
         else Inr (Inl (RBulk (take (nat len) s), drop (nat len + 2) s)))
       else if c = CHR ''*'' then rbind (parse_int rest) (\<lambda>len.
         if len < 0 then Inr (Inl (RNull, s)) else Inr (Inr (nat len)))
       else Inl RespType)"

text \<open>A number of replies in a row: the loop over an array's items, and \<^verbatim>\<open>receive\<close> for one.\<close>

function receive_n :: "nat \<Rightarrow> string \<Rightarrow> resp_error + (resp list \<times> string)" where
  "receive_n 0 s = Inr ([], s)"
| "receive_n (Suc n) s =
     (case read_line s of
        Inl e \<Rightarrow> Inl e
      | Inr (line, s1) \<Rightarrow>
          (case receive_head line s1 of
             Inl e \<Rightarrow> Inl e
           | Inr (Inl (r, s2)) \<Rightarrow>
               (case receive_n n s2 of Inl e \<Rightarrow> Inl e | Inr (rs, s3) \<Rightarrow> Inr (r # rs, s3))
           | Inr (Inr len) \<Rightarrow>
               (case receive_n len s1 of
                  Inl e \<Rightarrow> Inl e
                | Inr (items, s2) \<Rightarrow>
                    (case receive_n n s2 of Inl e \<Rightarrow> Inl e | Inr (rs, s3) \<Rightarrow> Inr (RArray items # rs, s3)))))"
  by pat_completeness auto

lemma take_line_shorter: "take_line s = Some (line, rest) \<Longrightarrow> length rest < length s"
proof -
  assume t: "take_line s = Some (line, rest)"
  then have "LF \<in> set s" "rest = tl (dropWhile (\<lambda>c. c \<noteq> LF) s)" by (auto simp: take_line_def Let_def split: if_splits)
  moreover have "dropWhile (\<lambda>c. c \<noteq> LF) s \<noteq> []" using \<open>LF \<in> set s\<close> by (auto simp: dropWhile_eq_Nil_conv)
  moreover have "length (dropWhile (\<lambda>c. c \<noteq> LF) s) \<le> length s" by (rule length_dropWhile_le)
  ultimately show ?thesis by (cases "dropWhile (\<lambda>c. c \<noteq> LF) s") auto
qed

lemma read_line_shorter: "read_line s = Inr (line, rest) \<Longrightarrow> length rest < length s"
  by (auto simp: read_line_def dest: take_line_shorter split: option.splits if_splits)

lemma receive_head_shorter: "receive_head line s = Inr (Inl (r, s')) \<Longrightarrow> length s' \<le> length s"
  by (auto simp: receive_head_def rbind_def split: list.splits sum.splits if_splits)

lemma receive_n_shorter: "receive_n_dom (n, s) \<Longrightarrow> receive_n n s = Inr (rs, s') \<Longrightarrow> length s' \<le> length s"
proof (induction n s arbitrary: rs s' rule: receive_n.pinduct)
  case (2 n s)
  note eq = receive_n.psimps(2) [OF 2(1)]
  obtain line s1 where rl: "read_line s = Inr (line, s1)" using 2(5) unfolding eq by (auto split: sum.splits)
  obtain h where rh: "receive_head line s1 = Inr h" using 2(5) unfolding eq rl by (auto split: sum.splits)
  show ?case
  proof (cases h)
    case (Inl x)
    obtain r s2 where x: "x = (r, s2)" by (cases x)
    obtain rs2 where "receive_n n s2 = Inr (rs2, s')" using 2(5) unfolding eq rl by (auto simp: rh Inl x split: sum.splits)
    then have "length s' \<le> length s2" using 2(2) rl rh Inl x by blast
    then show ?thesis using read_line_shorter [OF rl] receive_head_shorter rh Inl x by fastforce
  next
    case (Inr len)
    obtain items s2 rs2 where items: "receive_n len s1 = Inr (items, s2)" and "receive_n n s2 = Inr (rs2, s')"
      using 2(5) unfolding eq rl by (auto simp: rh Inr split: sum.splits)
    moreover have "length s2 \<le> length s1" using 2(3) rl rh Inr items by blast
    moreover have "length s' \<le> length s2" using 2(4) rl rh Inr calculation by blast
    ultimately show ?thesis using read_line_shorter [OF rl] by simp
  qed
qed (simp add: receive_n.psimps)

termination receive_n
proof (relation "measure (\<lambda>(n, s). length s)", goal_cases)
  case (2 n s x line s1 h x1 r s2)
  then show ?case using read_line_shorter [of s line s1] receive_head_shorter [of line s1 r s2] by auto
next
  case (3 n s x line s1 h len)
  then show ?case using read_line_shorter [of s line s1] by auto
next
  case (4 n s x line s1 h len x2 items s2)
  then show ?case using read_line_shorter [of s line s1] receive_n_shorter [of len s1 items s2] by auto
qed simp

definition receive :: "string \<Rightarrow> resp_error + (resp \<times> string)" where
  "receive s = rbind (receive_n 1 s) (\<lambda>(rs, rest). Inr (hd rs, rest))"

section \<open>Server\<close>

definition MAX_ARG_BYTES :: nat where "MAX_ARG_BYTES = 8388608"

datatype cmd_error = CmdIo | CmdInline | CmdExpectedBulk | CmdLength | CmdBadInt

datatype reply = RpSimple string | RpError string | RpInt int | RpBulk string | RpNull | RpArray "reply list"

fun encode_reply :: "reply \<Rightarrow> string" where
  "encode_reply (RpSimple text) = CHR ''+'' # text @ [CR, LF]"
| "encode_reply (RpError text) = ''-ERR '' @ text @ [CR, LF]"
| "encode_reply (RpInt i) = CHR '':'' # int_digits i @ [CR, LF]"
| "encode_reply (RpBulk payload) = CHR ''$'' # dec_digits (length payload) @ [CR, LF] @ payload @ [CR, LF]"
| "encode_reply RpNull = ''$-1'' @ [CR, LF]"
| "encode_reply (RpArray items) = CHR ''*'' # dec_digits (length items) @ [CR, LF] @ concat (map encode_reply items)"

definition read_int_line :: "string \<Rightarrow> cmd_error + (int \<times> string)" where
  "read_int_line s = (case take_line s of
     None \<Rightarrow> Inl CmdIo
   | Some (line, rest) \<Rightarrow> (case parse_i64 line of None \<Rightarrow> Inl CmdBadInt | Some i \<Rightarrow> Inr (i, rest)))"

fun read_args :: "nat \<Rightarrow> string \<Rightarrow> cmd_error + (string list \<times> string)" where
  "read_args 0 s = Inr ([], s)"
| "read_args (Suc n) s = (case s of
     [] \<Rightarrow> Inl CmdIo
   | c # s \<Rightarrow>
       if c \<noteq> CHR ''$'' then Inl CmdExpectedBulk
       else rbind (read_int_line s) (\<lambda>(len, s).
         if len < 0 \<or> int MAX_ARG_BYTES < len then Inl CmdLength
         else if length s < nat len + 2 then Inl CmdIo
         else rbind (read_args n (drop (nat len + 2) s)) (\<lambda>(args, s'). Inr (take (nat len) s # args, s'))))"

definition read_command :: "string \<Rightarrow> cmd_error + (string list option \<times> string)" where
  "read_command s = (case s of
     [] \<Rightarrow> Inr (None, [])
   | c # s \<Rightarrow>
       if c \<noteq> CHR ''*'' then Inl CmdInline
       else rbind (read_int_line s) (\<lambda>(n, s). rbind (read_args (nat n) s) (\<lambda>(args, s'). Inr (Some args, s'))))"

section \<open>Round trips\<close>

lemma take_line_append: "LF \<notin> set line \<Longrightarrow> CR \<notin> set line \<Longrightarrow> take_line (line @ CR # LF # rest) = Some (line, rest)"
proof -
  assume "LF \<notin> set line" "CR \<notin> set line"
  moreover have "takeWhile (\<lambda>c. c \<noteq> LF) (line @ CR # LF # rest) = line @ [CR]"
      "dropWhile (\<lambda>c. c \<noteq> LF) (line @ CR # LF # rest) = LF # rest"
    using \<open>LF \<notin> set line\<close> by (auto simp: takeWhile_append dropWhile_append)
  ultimately show ?thesis by (simp add: take_line_def)
qed

lemma crlf_not_digit: "\<not> is_digit CR" "\<not> is_digit LF"
  by code_simp+

lemma crlf_dec: "CR \<notin> set (dec_digits n)" "LF \<notin> set (dec_digits n)"
  using crlf_not_digit by (simp_all add: digit_not_mem)

lemma dec_int_digits: "dec_digits n = int_digits (int n)"
  by (simp add: int_digits_def)

lemma parse_i64_dec: "int n \<le> i64_max \<Longrightarrow> parse_i64 (dec_digits n) = Some (int n)"
  unfolding dec_int_digits by (rule parse_i64_int_digits) simp_all

lemma read_int_line_dec: "int n \<le> i64_max \<Longrightarrow> read_int_line (dec_digits n @ CR # LF # rest) = Inr (int n, rest)"
  by (simp add: read_int_line_def take_line_append crlf_dec parse_i64_dec)

lemma read_args_encoded:
  "list_all (\<lambda>a. length a \<le> MAX_ARG_BYTES) args \<Longrightarrow>
   read_args (length args) (concat (map (\<lambda>arg. CHR ''$'' # dec_digits (length arg) @ [CR, LF] @ arg @ [CR, LF]) args) @ rest) = Inr (args, rest)"
proof (induction args)
  case (Cons a args)
  then have "int (length a) \<le> i64_max" by (simp add: MAX_ARG_BYTES_def)
  then show ?case using Cons by (simp add: read_int_line_dec)
qed simp

text \<open>What the client sees of a reply, and the replies it can see.\<close>

fun reply_view :: "reply \<Rightarrow> resp" where
  "reply_view (RpSimple text) = RSimple text"
| "reply_view (RpError text) = RNull"
| "reply_view (RpInt i) = RInt i"
| "reply_view (RpBulk payload) = RBulk payload"
| "reply_view RpNull = RNull"
| "reply_view (RpArray items) = RArray (map reply_view items)"

definition line_ok :: "string \<Rightarrow> bool" where
  "line_ok text \<longleftrightarrow> utf8_valid text \<and> CR \<notin> set text \<and> LF \<notin> set text"

fun reply_ok :: "reply \<Rightarrow> bool" where
  "reply_ok (RpSimple text) = line_ok text"
| "reply_ok (RpError text) = False"
| "reply_ok (RpInt i) = (i64_min \<le> i \<and> i \<le> i64_max)"
| "reply_ok (RpBulk payload) = (int (length payload) \<le> i64_max)"
| "reply_ok RpNull = True"
| "reply_ok (RpArray items) = (int (length items) \<le> i64_max \<and> list_all reply_ok items)"

lemma read_line_append: "line_ok line \<Longrightarrow> read_line (line @ CR # LF # rest) = Inr (line, rest)"
  by (simp add: read_line_def line_ok_def take_line_append)

lemma read_line_Cons:
  "line_ok line \<Longrightarrow> byte_in 0 0x7f c \<Longrightarrow> c \<noteq> CR \<Longrightarrow> c \<noteq> LF \<Longrightarrow> read_line (c # line @ CR # LF # rest) = Inr (c # line, rest)"
  using read_line_append [of "c # line" rest] by (simp add: line_ok_def utf8_step_ascii)

lemma line_ok_int: "line_ok (int_digits i)"
  using crlf_not_digit int_digits_not_mem [of CR] int_digits_not_mem [of LF] utf8_valid_ascii [OF ascii_int_digits]
  by (simp add: line_ok_def)

lemma line_ok_dec: "line_ok (dec_digits n)"
  unfolding dec_int_digits by (rule line_ok_int)

lemma parse_int_dec: "int n \<le> i64_max \<Longrightarrow> parse_int (dec_digits n) = Inr (int n)"
  by (simp add: parse_int_def parse_i64_dec)

lemma receive_encoded: "list_all reply_ok rs \<Longrightarrow> receive_n (length rs) (concat (map encode_reply rs) @ rest) = Inr (map reply_view rs, rest)"
proof (induction rs arbitrary: rest rule: measure_induct_rule [where f = "size_list size"])
  case (less rs)
  show ?case
  proof (cases rs)
    case (Cons r rs')
    then have rest: "receive_n (length rs') (concat (map encode_reply rs') @ rest) = Inr (map reply_view rs', rest)"
      using less by simp
    show ?thesis
    proof (cases r)
      case (RpArray items)
      then have "receive_n (length items) (concat (map encode_reply items) @ tail) = Inr (map reply_view items, tail)" for tail
        using less Cons by simp
      then show ?thesis
        using less(2) Cons RpArray rest read_line_Cons [OF line_ok_dec, of "CHR ''*''"] by (simp add: receive_head_def parse_int_dec)
    next
      case (RpSimple t)
      then show ?thesis
        using less(2) Cons rest read_line_Cons [of t "CHR ''+''"] by (simp add: receive_head_def)
    next
      case (RpInt i)
      then show ?thesis
        using less(2) Cons rest read_line_Cons [OF line_ok_int, of "CHR '':''"] by (simp add: receive_head_def parse_int_def parse_i64_int_digits)
    next
      case (RpBulk payload)
      then show ?thesis
        using less(2) Cons rest read_line_Cons [OF line_ok_dec, of "CHR ''$''"] by (simp add: receive_head_def parse_int_dec)
    next
      case RpNull
      have "line_ok ''-1''" "parse_int ''-1'' = Inr (-1)" by code_simp+
      then show ?thesis
        using Cons RpNull rest read_line_Cons [of "''-1''" "CHR ''$''"] by (simp add: receive_head_def)
    qed (use less(2) Cons in simp)
  qed simp
qed

section \<open>Properties\<close>

text \<open>
  A command arrives as it was sent. Whatever follows on the connection, the server reads exactly the arguments of the client's command, of any bytes, and the
  rest of the stream is untouched, so that pipelined commands stay apart.
\<close>

theorem command_roundtrip:
  assumes "list_all (\<lambda>a. length a \<le> MAX_ARG_BYTES) args" "int (length args) \<le> i64_max"
  shows "read_command (encode_command args @ rest) = Inr (Some args, rest)"
  using read_args_encoded [OF assms(1), of rest] assms(2) by (simp add: read_command_def encode_command_def read_int_line_dec)

theorem command_roundtrip_witness:
  "read_command (encode_command [''GET'', [CR, LF]] @ ''*'') = Inr (Some [''GET'', [CR, LF]], ''*'')"
  by (rule command_roundtrip) (simp_all add: MAX_ARG_BYTES_def)

text \<open>
  A reply arrives as it was sent. The client decodes every reply that is no error, nested arrays included, to the value
  the server encoded, and leaves the rest of the stream for the next one.
\<close>

theorem reply_roundtrip:
  assumes "reply_ok r"
  shows "receive (encode_reply r @ rest) = Inr (reply_view r, rest)"
  using receive_encoded [of "[r]" rest] assms by (simp add: receive_def)

theorem reply_roundtrip_witness:
  "receive (encode_reply (RpArray [RpBulk [CR, LF], RpArray [RpInt (-7), RpNull]]) @ ''+'') =
     Inr (RArray [RBulk [CR, LF], RArray [RInt (-7), RNull]], ''+'')"
  using reply_roundtrip [of "RpArray [RpBulk [CR, LF], RpArray [RpInt (-7), RpNull]]" "''+''"] by simp

text \<open>
  An empty line where a reply should start makes the client panic, although every other malformed reply is
  reported as a protocol error.
\<close>

theorem receive_empty_line: "receive (CR # LF # rest) = Inl RespPanic"
  using read_line_append [of "[]" rest] by (simp add: receive_def receive_head_def line_ok_def)

end
