(* ===== verification/MiniRedis.thy ===== *)
theory MiniRedis
  imports Resp
begin

text \<open>
  The embedded Redis server, \<^verbatim>\<open>vmond/src/orch/miniredis.rs\<close>, with the commands the orchestration layer issues, and the client handle
  of \<^verbatim>\<open>orch/redis.rs\<close> that calls it over the wire format of theory \<open>Resp\<close>. Time is in nanoseconds; a command runs at one instant. The order in which the
  concurrent map lists its keys is the argument \<open>order\<close>. A blocking read is its passes over the stream log.
\<close>

section \<open>Store\<close>

type_synonym stream_id = "nat \<times> nat"

definition id_lt :: "stream_id \<Rightarrow> stream_id \<Rightarrow> bool" where
  "id_lt a b \<longleftrightarrow> fst a < fst b \<or> fst a = fst b \<and> snd a < snd b"

definition id_render :: "stream_id \<Rightarrow> string" where
  "id_render i = dec_digits (fst i) @ CHR ''-'' # dec_digits (snd i)"

definition id_parse :: "string \<Rightarrow> stream_id option" where
  "id_parse t = Option.bind (split_once (CHR ''-'') t) (\<lambda>(ms, sq).
     Option.bind (parse_uint u64_max ms) (\<lambda>m. map_option (Pair m) (parse_uint u64_max sq)))"

record kv_entry =
  kv_value :: string
  kv_expires :: "nat option"

definition kv_live :: "nat \<Rightarrow> kv_entry \<Rightarrow> bool" where
  "kv_live now e = (case kv_expires e of None \<Rightarrow> True | Some deadline \<Rightarrow> now < deadline)"

record stream_log =
  sl_entries :: "(stream_id \<times> (string \<times> string) list) list"
  sl_last :: stream_id

record store =
  st_kv :: "string \<Rightarrow> kv_entry option"
  st_streams :: "string \<Rightarrow> stream_log option"

definition store_empty :: store where
  "store_empty = \<lparr>st_kv = (\<lambda>_. None), st_streams = (\<lambda>_. None)\<rparr>"

section \<open>Key commands\<close>

definition text_arg :: "string list \<Rightarrow> nat \<Rightarrow> string option" where
  "text_arg args i = (if i < length args \<and> utf8_valid (args ! i) then Some (args ! i) else None)"

definition upper_arg :: "string \<Rightarrow> string option" where
  "upper_arg a = (if utf8_valid a then Some (to_upper a) else None)"

definition uint_arg :: "string list \<Rightarrow> nat option" where
  "uint_arg rest = Option.bind (text_arg rest 0) (parse_uint u64_max)"

text \<open>The options after key and value: lifetime in nanoseconds and whether the key must be absent.\<close>

fun set_options :: "string list \<Rightarrow> nat option \<Rightarrow> bool \<Rightarrow> reply + (nat option \<times> bool)" where
  "set_options [] ttl nx = Inr (ttl, nx)"
| "set_options (a # rest) ttl nx =
     (if upper_arg a = Some ''PX'' then
        (case uint_arg rest of None \<Rightarrow> Inl (RpError ''PX requires milliseconds'')
         | Some ms \<Rightarrow> set_options (tl rest) (Some (ms * 1000000)) nx)
      else if upper_arg a = Some ''EX'' then
        (case uint_arg rest of None \<Rightarrow> Inl (RpError ''EX requires seconds'')
         | Some secs \<Rightarrow> set_options (tl rest) (Some (secs * 1000000000)) nx)
      else if upper_arg a = Some ''NX'' then set_options rest ttl True
      else Inl (RpError ''unsupported SET option''))"

definition cmd_set :: "nat \<Rightarrow> string list \<Rightarrow> store \<Rightarrow> store \<times> reply" where
  "cmd_set now args st =
     (if text_arg args 1 = None \<or> length args \<le> 2 then (st, RpError ''SET requires key and value'')
      else let key = args ! 1; value = args ! 2 in
      (case set_options (drop 3 args) None False of
         Inl e \<Rightarrow> (st, e)
       | Inr (ttl, only_if_absent) \<Rightarrow>
           let entry = \<lparr>kv_value = value, kv_expires = map_option (\<lambda>t. now + t) ttl\<rparr> in
           (case st_kv st key of
              Some e \<Rightarrow> if only_if_absent \<and> kv_live now e then (st, RpNull)
                else (st\<lparr>st_kv := (st_kv st)(key \<mapsto> entry)\<rparr>, RpSimple ''OK'')
            | None \<Rightarrow> (st\<lparr>st_kv := (st_kv st)(key \<mapsto> entry)\<rparr>, RpSimple ''OK''))))"

definition cmd_get :: "nat \<Rightarrow> string list \<Rightarrow> store \<Rightarrow> store \<times> reply" where
  "cmd_get now args st = (case text_arg args 1 of
     None \<Rightarrow> (st, RpError ''GET requires key'')
   | Some key \<Rightarrow> (case st_kv st key of
       None \<Rightarrow> (st, RpNull)
     | Some e \<Rightarrow> if kv_live now e then (st, RpBulk (kv_value e)) else (st\<lparr>st_kv := (st_kv st)(key := None)\<rparr>, RpNull)))"

fun del_keys :: "string list \<Rightarrow> store \<Rightarrow> int \<Rightarrow> store \<times> int" where
  "del_keys [] st removed = (st, removed)"
| "del_keys (key # ks) st removed =
     (if utf8_valid key \<and> st_kv st key \<noteq> None then del_keys ks (st\<lparr>st_kv := (st_kv st)(key := None)\<rparr>) (removed + 1)
      else del_keys ks st removed)"

definition cmd_del :: "string list \<Rightarrow> store \<Rightarrow> store \<times> reply" where
  "cmd_del args st = (let (st, removed) = del_keys (tl args) st 0 in (st, RpInt removed))"

definition sat_add_i64 :: "int \<Rightarrow> int \<Rightarrow> int" where
  "sat_add_i64 a b = max i64_min (min i64_max (a + b))"

definition cmd_incrby :: "nat \<Rightarrow> string list \<Rightarrow> store \<Rightarrow> store \<times> reply" where
  "cmd_incrby now args st = (case (text_arg args 1, text_arg args 2) of
     (Some key, Some delta) \<Rightarrow>
       (case parse_i64 delta of
          None \<Rightarrow> (st, RpError ''INCRBY delta must be an integer'')
        | Some delta \<Rightarrow>
            let entry = (case st_kv st key of Some e \<Rightarrow> e | None \<Rightarrow> \<lparr>kv_value = ''0'', kv_expires = None\<rparr>);
                st = st\<lparr>st_kv := (st_kv st)(key \<mapsto> entry)\<rparr>;
                current = (if kv_live now entry then (if utf8_valid (kv_value entry) then parse_i64 (trim (kv_value entry)) else None) else Some 0)
            in (case current of
                  None \<Rightarrow> (st, RpError ''INCRBY target is not an integer'')
                | Some current \<Rightarrow>
                    let v = sat_add_i64 current delta
                    in (st\<lparr>st_kv := (st_kv st)(key \<mapsto> \<lparr>kv_value = int_digits v, kv_expires = None\<rparr>)\<rparr>, RpInt v)))
   | _ \<Rightarrow> (st, RpError ''INCRBY requires key and delta''))"

definition cmd_pexpire :: "nat \<Rightarrow> string list \<Rightarrow> store \<Rightarrow> store \<times> reply" where
  "cmd_pexpire now args st = (case (text_arg args 1, Option.bind (text_arg args 2) (parse_uint u64_max)) of
     (Some key, Some ms) \<Rightarrow>
       (case st_kv st key of
          Some e \<Rightarrow> if kv_live now e then (st\<lparr>st_kv := (st_kv st)(key \<mapsto> e\<lparr>kv_expires := Some (now + ms * 1000000)\<rparr>)\<rparr>, RpInt 1)
            else (st, RpInt 0)
        | None \<Rightarrow> (st, RpInt 0))
   | _ \<Rightarrow> (st, RpError ''PEXPIRE requires key and milliseconds''))"

fun scan_options :: "string list \<Rightarrow> string option \<Rightarrow> reply + string option" where
  "scan_options [] pattern = Inr pattern"
| "scan_options (a # rest) pattern =
     (if upper_arg a = Some ''MATCH'' then scan_options (tl rest) (text_arg rest 0)
      else if upper_arg a = Some ''COUNT'' then scan_options (tl rest) pattern
      else Inl (RpError ''unsupported SCAN option''))"

definition pattern_matches :: "string option \<Rightarrow> string \<Rightarrow> bool" where
  "pattern_matches pattern key = (case pattern of
     None \<Rightarrow> True
   | Some p \<Rightarrow> p = ''*'' \<or> (if p \<noteq> [] \<and> last p = CHR ''*'' then take (length p - 1) key = butlast p else key = p))"

definition cmd_scan :: "string list \<Rightarrow> nat \<Rightarrow> string list \<Rightarrow> store \<Rightarrow> store \<times> reply" where
  "cmd_scan order now args st = (case scan_options (drop 2 args) None of
     Inl e \<Rightarrow> (st, e)
   | Inr pattern \<Rightarrow>
       (st, RpArray [RpBulk ''0'', RpArray (map RpBulk (filter (\<lambda>key.
          (case st_kv st key of None \<Rightarrow> False | Some e \<Rightarrow> kv_live now e) \<and> pattern_matches pattern key) order))]))"

section \<open>Streams\<close>

fun field_pairs :: "string list \<Rightarrow> (string \<times> string) list" where
  "field_pairs (a # b # rest) = (a, b) # field_pairs rest"
| "field_pairs _ = []"

definition eq_ignore_case :: "string option \<Rightarrow> string \<Rightarrow> bool" where
  "eq_ignore_case a b = (case a of None \<Rightarrow> False | Some t \<Rightarrow> to_upper t = to_upper b)"

definition log_of :: "string \<Rightarrow> store \<Rightarrow> stream_log" where
  "log_of stream st = (case st_streams st stream of Some l \<Rightarrow> l | None \<Rightarrow> \<lparr>sl_entries = [], sl_last = (0, 0)\<rparr>)"

definition append_entry :: "nat \<Rightarrow> nat option \<Rightarrow> (string \<times> string) list \<Rightarrow> stream_log \<Rightarrow> stream_log \<times> stream_id" where
  "append_entry ms maxlen fvs log =
     (let i = (if fst (sl_last log) < ms then (ms, 0) else (fst (sl_last log), snd (sl_last log) + 1));
          entries = sl_entries log @ [(i, fvs)];
          entries = (case maxlen of None \<Rightarrow> entries | Some limit \<Rightarrow> drop (length entries - limit) entries)
      in (\<lparr>sl_entries = entries, sl_last = i\<rparr>, i))"

definition cmd_xadd :: "nat \<Rightarrow> string list \<Rightarrow> store \<Rightarrow> store \<times> reply" where
  "cmd_xadd ms args st = (case text_arg args 1 of
     None \<Rightarrow> (st, RpError ''XADD requires stream'')
   | Some stream \<Rightarrow>
       let rest = drop 2 args;
           limited = eq_ignore_case (text_arg rest 0) ''MAXLEN'';
           rest = (if limited then (if text_arg rest 1 = Some ''~'' then drop 2 rest else drop 1 rest) else rest);
           maxlen = (if limited then map_option (max 1) (uint_arg rest) else None)
       in if limited \<and> maxlen = None then (st, RpError ''MAXLEN requires a count'')
          else let rest = (if limited then tl rest else rest) in
          if text_arg rest 0 \<noteq> Some ''*'' then (st, RpError ''only auto ids are supported'')
          else let fvs = field_pairs (tl rest) in
          if fvs = [] then (st, RpError ''XADD requires field value pairs'')
          else let (log, i) = append_entry ms maxlen fvs (log_of stream st)
               in (st\<lparr>st_streams := (st_streams st)(stream \<mapsto> log)\<rparr>, RpBulk (id_render i)))"

definition render_entry :: "stream_id \<times> (string \<times> string) list \<Rightarrow> reply" where
  "render_entry e = RpArray [RpBulk (id_render (fst e)), RpArray (concat (map (\<lambda>(n, v). [RpBulk n, RpBulk v]) (snd e)))]"

text \<open>One pass of the read loop under the lock: the reply, or nothing new; and the floor that the loop keeps.\<close>

definition xread_pass :: "string \<Rightarrow> stream_id option \<Rightarrow> store \<Rightarrow> stream_id \<times> reply option" where
  "xread_pass stream after st =
     (let floor = (case after of Some i \<Rightarrow> i | None \<Rightarrow> sl_last (log_of stream st));
          fresh = map render_entry (filter (\<lambda>e. id_lt floor (fst e)) (sl_entries (log_of stream st)))
      in (floor, if fresh = [] then None else Some (RpArray [RpArray [RpBulk stream, RpArray fresh]])))"

text \<open>The arguments of a read: block time in milliseconds, stream, and the id to read after (none for the tail).\<close>

definition xread_args :: "string list \<Rightarrow> reply + (nat option \<times> string \<times> stream_id option)" where
  "xread_args args =
     (let blocking = eq_ignore_case (text_arg args 1) ''BLOCK'';
          block = (if blocking then uint_arg (drop 2 args) else None);
          rest = (if blocking then drop 3 args else drop 1 args)
      in if blocking \<and> block = None then Inl (RpError ''BLOCK requires milliseconds'')
         else if \<not> eq_ignore_case (text_arg rest 0) ''STREAMS'' then Inl (RpError ''XREAD requires STREAMS'')
         else (case (text_arg rest 1, text_arg rest 2) of
           (Some stream, Some after_raw) \<Rightarrow>
             if after_raw = ''$'' then Inr (block, stream, None)
             else (case id_parse after_raw of None \<Rightarrow> Inl (RpError ''bad stream id'') | Some i \<Rightarrow> Inr (block, stream, Some i))
         | _ \<Rightarrow> Inl (RpError ''XREAD requires one stream and one id'')))"

text \<open>The loop over the states of the store that its passes see; the block window ends after the last.\<close>

fun xread_loop :: "string \<Rightarrow> stream_id option \<Rightarrow> store list \<Rightarrow> reply" where
  "xread_loop stream after [] = RpNull"
| "xread_loop stream after (st # sts) = (case xread_pass stream after st of
     (_, Some r) \<Rightarrow> r
   | (floor, None) \<Rightarrow> xread_loop stream (Some floor) sts)"

section \<open>Dispatch\<close>

text \<open>A command runs at one instant, so a blocking read sees this store on every pass.\<close>

definition dispatch :: "string list \<Rightarrow> nat \<Rightarrow> nat \<Rightarrow> string list \<Rightarrow> store \<Rightarrow> store \<times> reply" where
  "dispatch order now ms args st = (case args of
     [] \<Rightarrow> (st, RpError ''empty command'')
   | c # _ \<Rightarrow>
       let command = to_upper (utf8_lossy c) in
       if command = ''PING'' then (st, RpSimple ''PONG'')
       else if command = ''AUTH'' then (st, RpSimple ''OK'')
       else if command = ''SET'' then cmd_set now args st
       else if command = ''GET'' then cmd_get now args st
       else if command = ''DEL'' then cmd_del args st
       else if command = ''INCRBY'' then cmd_incrby now args st
       else if command = ''PEXPIRE'' then cmd_pexpire now args st
       else if command = ''SCAN'' then cmd_scan order now args st
       else if command = ''XADD'' then cmd_xadd ms args st
       else if command = ''XREAD'' then
         (st, case xread_args args of Inl e \<Rightarrow> e | Inr (_, stream, after) \<Rightarrow> xread_loop stream after [st])
       else (st, RpError (''unknown command '' @ CHR 0x27 # command @ [CHR 0x27])))"

section \<open>Connections\<close>

lemma read_int_line_shorter: "read_int_line s = Inr (i, rest) \<Longrightarrow> length rest < length s"
  by (auto simp: read_int_line_def dest: take_line_shorter split: option.splits)

lemma read_args_shorter: "read_args n s = Inr (args, rest) \<Longrightarrow> length rest \<le> length s"
proof (induction n arbitrary: s args)
  case (Suc n)
  show ?case
  proof (cases s)
    case (Cons c s1)
    obtain len s2 where head: "read_int_line s1 = Inr (len, s2)"
      using Suc.prems Cons by (auto simp: rbind_eq_Inr split: if_splits)
    then obtain args' where "read_args n (drop (nat len + 2) s2) = Inr (args', rest)"
      using Suc.prems Cons by (auto simp: rbind_eq_Inr split: if_splits)
    then have "length rest \<le> length (drop (nat len + 2) s2)" by (rule Suc.IH)
    then show ?thesis using read_int_line_shorter [OF head] Cons by simp
  qed (use Suc.prems in simp)
qed simp

lemma read_command_shorter: "read_command s = Inr (Some args, rest) \<Longrightarrow> length rest < length s"
  by (auto simp: read_command_def rbind_eq_Inr dest!: read_int_line_shorter read_args_shorter split: list.splits if_splits)

text \<open>The bytes a connection delivers, answered until its end or until a frame is malformed.\<close>

function serve_connection :: "string list \<Rightarrow> nat \<Rightarrow> nat \<Rightarrow> string \<Rightarrow> store \<Rightarrow> store \<times> string" where
  "serve_connection order now ms input st = (case read_command input of
     Inr (Some args, rest) \<Rightarrow>
       let (st, r) = dispatch order now ms args st; (st, out) = serve_connection order now ms rest st
       in (st, encode_reply r @ out)
   | _ \<Rightarrow> (st, []))"
  by pat_completeness auto
termination by (relation "measure (\<lambda>(order, now, ms, input, st). length input)") (auto dest: read_command_shorter)

declare serve_connection.simps [simp del]

end
