(* ===== verification/RedisClient.thy ===== *)
theory RedisClient
  imports MiniRedis
begin

text \<open>
  The client handle of \<^verbatim>\<open>vmond/src/orch/redis.rs\<close> against the server of theory \<open>MiniRedis\<close>: a command is encoded, read, executed, answered and
  decoded, and retried once when the transport fails; the stream follower turns replies into payloads. What the transport does to an
  attempt is an argument.
\<close>

section \<open>Calls\<close>

text \<open>
  An attempt is served, fails before the server reads it, or loses its reply; opening the connection may fail, which is not
  retried.
\<close>

datatype fate = Served | DialFailed | Unsent | LostReply

definition exchange :: "string list \<Rightarrow> nat \<Rightarrow> nat \<Rightarrow> string list \<Rightarrow> store \<Rightarrow> store \<times> (resp_error + resp)" where
  "exchange order now ms args st = (case read_command (encode_command args) of
     Inr (Some args', _) \<Rightarrow>
       let (st, r) = dispatch order now ms args' st in (st, rbind (receive (encode_reply r)) (\<lambda>(v, _). Inr v))
   | _ \<Rightarrow> (st, Inl RespRead))"

fun call_attempts :: "string list \<Rightarrow> nat \<Rightarrow> nat \<Rightarrow> string list \<Rightarrow> fate list \<Rightarrow> store \<Rightarrow> store \<times> (resp_error + resp)" where
  "call_attempts order now ms args [] st = (st, Inl RespRead)"
| "call_attempts order now ms args (f # fs) st = (case f of
     DialFailed \<Rightarrow> (st, Inl RespRead)
   | Unsent \<Rightarrow> call_attempts order now ms args fs st
   | LostReply \<Rightarrow> call_attempts order now ms args fs (fst (exchange order now ms args st))
   | Served \<Rightarrow> (case exchange order now ms args st of
       (st, Inr v) \<Rightarrow> (st, Inr v)
     | (st, Inl (RespServer e)) \<Rightarrow> (st, Inl (RespServer e))
     | (st, Inl _) \<Rightarrow> call_attempts order now ms args fs st))"

text \<open>At most two attempts.\<close>

definition redis_call :: "string list \<Rightarrow> nat \<Rightarrow> nat \<Rightarrow> fate \<times> fate \<Rightarrow> string list \<Rightarrow> store \<Rightarrow> store \<times> (resp_error + resp)" where
  "redis_call order now ms fates args st = call_attempts order now ms args [fst fates, snd fates] st"

definition redis_get :: "nat \<Rightarrow> fate \<times> fate \<Rightarrow> string \<Rightarrow> store \<Rightarrow> store \<times> (resp_error + string option)" where
  "redis_get now fates key st = (case redis_call [] now 0 fates [''GET'', key] st of
     (st, r) \<Rightarrow> (st, rbind r (\<lambda>v. Inr (resp_into_bytes v))))"

definition redis_set_px :: "nat \<Rightarrow> fate \<times> fate \<Rightarrow> string \<Rightarrow> string \<Rightarrow> nat \<Rightarrow> store \<Rightarrow> store \<times> (resp_error + unit)" where
  "redis_set_px now fates key value px st = (case redis_call [] now 0 fates [''SET'', key, value, ''PX'', dec_digits px] st of
     (st, r) \<Rightarrow> (st, rbind r (\<lambda>_. Inr ())))"

definition redis_set_nx_px :: "nat \<Rightarrow> fate \<times> fate \<Rightarrow> string \<Rightarrow> string \<Rightarrow> nat \<Rightarrow> store \<Rightarrow> store \<times> (resp_error + bool)" where
  "redis_set_nx_px now fates key value px st = (case redis_call [] now 0 fates [''SET'', key, value, ''PX'', dec_digits px, ''NX''] st of
     (st, r) \<Rightarrow> (st, rbind r (\<lambda>v. Inr (case v of RSimple _ \<Rightarrow> True | _ \<Rightarrow> False))))"

definition redis_pexpire :: "nat \<Rightarrow> fate \<times> fate \<Rightarrow> string \<Rightarrow> nat \<Rightarrow> store \<Rightarrow> store \<times> (resp_error + unit)" where
  "redis_pexpire now fates key px st = (case redis_call [] now 0 fates [''PEXPIRE'', key, dec_digits px] st of
     (st, r) \<Rightarrow> (st, rbind r (\<lambda>_. Inr ())))"

text \<open>
  The cursor walk. \<open>call\<close> is a call of the client, on any server with any state, by the turn of the walk. It returns (\<^const>\<open>Some\<close>) when
  the server ends the walk with cursor zero or an error. Against the in-tree server each turn consumes the next transport outcome and listing order.
\<close>

definition scan_args :: "string \<Rightarrow> string \<Rightarrow> string list" where
  "scan_args cursor prefix = [''SCAN'', cursor, ''MATCH'', prefix @ ''*'', ''COUNT'', ''512'']"

partial_function (option) scan_loop :: "(nat \<Rightarrow> string list \<Rightarrow> 's \<Rightarrow> 's \<times> (resp_error + resp)) \<Rightarrow> string \<Rightarrow> nat \<Rightarrow> string \<Rightarrow> string list \<Rightarrow> 's \<Rightarrow>
    ('s \<times> (resp_error + string list)) option" where
  "scan_loop call prefix turn cursor keys st =
     (case call turn (scan_args cursor prefix) st of
        (st, Inl e) \<Rightarrow> Some (st, Inl e)
      | (st, Inr v) \<Rightarrow>
          (case resp_into_array v of
             None \<Rightarrow> Some (st, Inl RespType)
           | Some parts \<Rightarrow>
               (case (if parts = [] then None else resp_into_string (hd parts)) of
                  None \<Rightarrow> Some (st, Inl RespType)
                | Some cursor \<Rightarrow>
                    let batch = (if length parts < 2 then None else resp_into_array (parts ! 1));
                        keys = keys @ (case batch of None \<Rightarrow> [] | Some items \<Rightarrow> List.map_filter resp_into_string items)
                    in if cursor = ''0'' then Some (st, Inr keys) else scan_loop call prefix (Suc turn) cursor keys st)))"

definition scan_prefix :: "(nat \<Rightarrow> string list \<Rightarrow> 's \<Rightarrow> 's \<times> (resp_error + resp)) \<Rightarrow> string \<Rightarrow> 's \<Rightarrow> ('s \<times> (resp_error + string list)) option" where
  "scan_prefix call prefix st = scan_loop call prefix 0 ''0'' [] st"

definition redis_scan_prefix :: "nat \<Rightarrow> (nat \<Rightarrow> (fate \<times> fate) \<times> string list) \<Rightarrow> string \<Rightarrow> store \<Rightarrow> (store \<times> (resp_error + string list)) option" where
  "redis_scan_prefix now env prefix st =
     scan_prefix (\<lambda>turn. redis_call (snd (env turn)) now 0 (fst (env turn))) prefix st"

section \<open>What the server answers\<close>

definition args_ok :: "string list \<Rightarrow> bool" where
  "args_ok args \<longleftrightarrow> list_all (\<lambda>a. length a \<le> MAX_ARG_BYTES) args \<and> int (length args) \<le> i64_max"

lemma read_encoded: "args_ok args \<Longrightarrow> read_command (encode_command args) = Inr (Some args, [])"
  using read_args_encoded [of args "[]"] by (simp add: args_ok_def read_command_def encode_command_def read_int_line_dec)

lemma receive_one: "reply_ok r \<Longrightarrow> receive (encode_reply r) = Inr (reply_view r, [])"
  using receive_encoded [of "[r]" "[]"] by (simp add: receive_def)

lemma exchange_dispatch:
  "args_ok args \<Longrightarrow> dispatch order now ms args st = (st', r) \<Longrightarrow> reply_ok r \<Longrightarrow> exchange order now ms args st = (st', Inr (reply_view r))"
  by (simp add: exchange_def read_encoded receive_one)

lemma command_names [simp]:
  "to_upper (utf8_lossy ''SET'') = ''SET''" "to_upper (utf8_lossy ''GET'') = ''GET''"
  "to_upper (utf8_lossy ''PEXPIRE'') = ''PEXPIRE''" "to_upper (utf8_lossy ''SCAN'') = ''SCAN''"
  "upper_arg ''PX'' = Some ''PX''" "upper_arg ''NX'' = Some ''NX''" "upper_arg ''MATCH'' = Some ''MATCH''" "upper_arg ''COUNT'' = Some ''COUNT''"
  by code_simp+

lemma digits_ascii: "ascii (dec_digits n)"
  unfolding dec_int_digits by (rule ascii_int_digits)

lemma digits_arg: "n \<le> u64_max \<Longrightarrow> uint_arg (dec_digits n # rest) = Some n"
  by (simp add: uint_arg_def text_arg_def utf8_valid_ascii digits_ascii parse_uint_dec_digits)

text \<open>A lifetime written in decimal has at most twenty digits.\<close>

lemma dec_digits_short: "n < 10 ^ Suc k \<Longrightarrow> length (dec_digits n) \<le> Suc k"
proof (induction k arbitrary: n)
  case (Suc k)
  then have "n div 10 < 10 ^ Suc k" by (simp add: div_less_iff_less_mult mult.commute)
  from Suc.IH [OF this] show ?case by (subst dec_digits.simps) simp
qed (simp add: dec_digits.simps)

lemma digits_short: "n \<le> u64_max \<Longrightarrow> length (dec_digits n) \<le> MAX_ARG_BYTES"
  using dec_digits_short [of n 19] by (simp add: MAX_ARG_BYTES_def)

definition key_ok :: "string \<Rightarrow> bool" where
  "key_ok key \<longleftrightarrow> utf8_valid key \<and> length key \<le> MAX_ARG_BYTES"

definition store_ok :: "store \<Rightarrow> bool" where
  "store_ok st \<longleftrightarrow> (\<forall>k e. st_kv st k = Some e \<longrightarrow> length (kv_value e) \<le> MAX_ARG_BYTES)"

text \<open>The entry a command sees at an instant.\<close>

definition kv_at :: "nat \<Rightarrow> string \<Rightarrow> store \<Rightarrow> kv_entry option" where
  "kv_at now key st = Option.bind (st_kv st key) (\<lambda>e. if kv_live now e then Some e else None)"

abbreviation kv_put :: "string \<Rightarrow> kv_entry \<Rightarrow> store \<Rightarrow> store" where
  "kv_put key e st \<equiv> st\<lparr>st_kv := (st_kv st)(key \<mapsto> e)\<rparr>"

lemmas call_defs = Let_def dispatch_def cmd_set_def cmd_get_def cmd_pexpire_def text_arg_def key_ok_def kv_at_def

lemma short_names: "length ''GET'' \<le> MAX_ARG_BYTES" "length ''SET'' \<le> MAX_ARG_BYTES" "length ''PEXPIRE'' \<le> MAX_ARG_BYTES"
  "length ''PX'' \<le> MAX_ARG_BYTES" "length ''NX'' \<le> MAX_ARG_BYTES" "length ''MATCH'' \<le> MAX_ARG_BYTES" "length ''COUNT'' \<le> MAX_ARG_BYTES"
  "length ''SCAN'' \<le> MAX_ARG_BYTES" "length ''512'' \<le> MAX_ARG_BYTES" "length ''0'' \<le> MAX_ARG_BYTES"
  by (simp_all add: MAX_ARG_BYTES_def)

lemma line_ok_OK [simp]: "line_ok ''OK''"
  by code_simp

lemma exchange_get:
  assumes "key_ok key" "store_ok st"
  shows "\<exists>st'. exchange order now ms [''GET'', key] st = (st', Inr (case kv_at now key st of None \<Rightarrow> RNull | Some e \<Rightarrow> RBulk (kv_value e))) \<and>
    st' = (if kv_at now key st = None then st\<lparr>st_kv := (st_kv st)(key := None)\<rparr> else st)"
proof -
  obtain st' r where d: "dispatch order now ms [''GET'', key] st = (st', r)" by fastforce
  have "length (kv_value e) \<le> MAX_ARG_BYTES" if "st_kv st key = Some e" for e using assms(2) that by (simp add: store_ok_def)
  then have "st' = (if kv_at now key st = None then st\<lparr>st_kv := (st_kv st)(key := None)\<rparr> else st)"
      "reply_view r = (case kv_at now key st of None \<Rightarrow> RNull | Some e \<Rightarrow> RBulk (kv_value e))" "reply_ok r"
    using d assms(1) by (auto simp: call_defs MAX_ARG_BYTES_def fun_upd_idem split: option.splits if_splits)
  moreover have "args_ok [''GET'', key]" using assms(1) short_names by (simp add: args_ok_def key_ok_def)
  ultimately show ?thesis using exchange_dispatch [OF _ d] by auto
qed

lemma exchange_set_nx:
  assumes "key_ok key" "length value \<le> MAX_ARG_BYTES" "px \<le> u64_max"
  shows "exchange order now ms [''SET'', key, value, ''PX'', dec_digits px, ''NX''] st =
    (if kv_at now key st \<noteq> None then (st, Inr RNull)
     else (kv_put key \<lparr>kv_value = value, kv_expires = Some (now + px * 1000000)\<rparr> st, Inr (RSimple ''OK'')))"
proof -
  have "args_ok [''SET'', key, value, ''PX'', dec_digits px, ''NX'']"
    using assms short_names digits_short [OF assms(3)] by (simp add: args_ok_def key_ok_def)
  moreover have "dispatch order now ms [''SET'', key, value, ''PX'', dec_digits px, ''NX''] st =
    (if kv_at now key st \<noteq> None then (st, RpNull)
     else (kv_put key \<lparr>kv_value = value, kv_expires = Some (now + px * 1000000)\<rparr> st, RpSimple ''OK''))"
    using assms by (auto simp: call_defs digits_arg split: option.split)
  ultimately show ?thesis by (simp add: exchange_dispatch)
qed

lemma exchange_set:
  assumes "key_ok key" "length value \<le> MAX_ARG_BYTES" "px \<le> u64_max"
  shows "exchange order now ms [''SET'', key, value, ''PX'', dec_digits px] st =
    (kv_put key \<lparr>kv_value = value, kv_expires = Some (now + px * 1000000)\<rparr> st, Inr (RSimple ''OK''))"
proof -
  have "args_ok [''SET'', key, value, ''PX'', dec_digits px]"
    using assms short_names digits_short [OF assms(3)] by (simp add: args_ok_def key_ok_def)
  moreover have "dispatch order now ms [''SET'', key, value, ''PX'', dec_digits px] st =
    (kv_put key \<lparr>kv_value = value, kv_expires = Some (now + px * 1000000)\<rparr> st, RpSimple ''OK'')"
    using assms by (auto simp: call_defs digits_arg split: option.split)
  ultimately show ?thesis by (simp add: exchange_dispatch)
qed

lemma exchange_pexpire:
  assumes "key_ok key" "px \<le> u64_max"
  shows "exchange order now ms [''PEXPIRE'', key, dec_digits px] st = (case kv_at now key st of
      None \<Rightarrow> (st, Inr (RInt 0))
    | Some e \<Rightarrow> (kv_put key (e\<lparr>kv_expires := Some (now + px * 1000000)\<rparr>) st, Inr (RInt 1)))"
proof -
  have "args_ok [''PEXPIRE'', key, dec_digits px]"
    using assms short_names digits_short [OF assms(2)] by (simp add: args_ok_def key_ok_def)
  moreover have "dispatch order now ms [''PEXPIRE'', key, dec_digits px] st = (case kv_at now key st of
      None \<Rightarrow> (st, RpInt 0)
    | Some e \<Rightarrow> (kv_put key (e\<lparr>kv_expires := Some (now + px * 1000000)\<rparr>) st, RpInt 1))"
    using assms by (auto simp: call_defs utf8_valid_ascii digits_ascii parse_uint_dec_digits split: option.split)
  ultimately show ?thesis by (auto simp: exchange_dispatch split: option.split)
qed

section \<open>Scanning\<close>

definition listing_ok :: "string list \<Rightarrow> bool" where
  "listing_ok order \<longleftrightarrow> int (length order) \<le> i64_max \<and> list_all key_ok order"

definition scan_matches :: "nat \<Rightarrow> string \<Rightarrow> store \<Rightarrow> string list \<Rightarrow> string list" where
  "scan_matches now prefix st order = filter (\<lambda>key. kv_at now key st \<noteq> None \<and> take (length prefix) key = prefix) order"

lemma scan_matches_ok: "listing_ok order \<Longrightarrow> int (length (scan_matches now prefix st order)) \<le> i64_max \<and> list_all key_ok (scan_matches now prefix st order)"
  unfolding listing_ok_def scan_matches_def by (auto simp: list_all_iff intro: order_trans [OF length_filter_le])

lemma pattern_prefix: "pattern_matches (Some (prefix @ ''*'')) key \<longleftrightarrow> take (length prefix) key = prefix"
  by (cases prefix) (auto simp: pattern_matches_def)

lemma exchange_scan:
  assumes "key_ok (prefix @ ''*'')" "listing_ok order" "length cursor \<le> MAX_ARG_BYTES"
  shows "exchange order now ms [''SCAN'', cursor, ''MATCH'', prefix @ ''*'', ''COUNT'', ''512''] st =
    (st, Inr (RArray [RBulk ''0'', RArray (map RBulk (scan_matches now prefix st order))]))"
proof -
  have "args_ok [''SCAN'', cursor, ''MATCH'', prefix @ ''*'', ''COUNT'', ''512'']"
    using assms short_names by (simp add: args_ok_def key_ok_def)
  moreover have "dispatch order now ms [''SCAN'', cursor, ''MATCH'', prefix @ ''*'', ''COUNT'', ''512''] st =
      (st, RpArray [RpBulk ''0'', RpArray (map RpBulk (scan_matches now prefix st order))])"
  proof -
    have "(case st_kv st key of None \<Rightarrow> False | Some e \<Rightarrow> kv_live now e) \<longleftrightarrow> kv_at now key st \<noteq> None" for key
      by (simp add: kv_at_def split: option.split)
    moreover have "text_arg [prefix @ ''*'', ''COUNT'', ''512''] 0 = Some (prefix @ ''*'')"
      using assms(1) by (simp add: text_arg_def key_ok_def)
    ultimately show ?thesis by (simp add: Let_def dispatch_def cmd_scan_def pattern_prefix scan_matches_def)
  qed
  moreover have "reply_ok (RpArray [RpBulk ''0'', RpArray (map RpBulk (scan_matches now prefix st order))])"
    using scan_matches_ok [OF assms(2), of now prefix st] by (auto simp: list_all_iff key_ok_def MAX_ARG_BYTES_def)
  ultimately show ?thesis using exchange_dispatch by (fastforce simp: comp_def)
qed

lemma call_same_state:
  assumes "exchange order now ms args st = (st, Inr v)"
  shows "\<exists>r. redis_call order now ms fates args st = (st, r) \<and> (r = Inr v \<or> (\<exists>e. r = Inl e))"
  using assms by (cases "fst fates"; cases "snd fates") (simp_all add: redis_call_def)

text \<open>A request that is answered: at once, or on the retry.\<close>

definition answered :: "fate \<times> fate \<Rightarrow> bool" where
  "answered fates \<longleftrightarrow> fst fates = Served \<or> fst fates \<noteq> DialFailed \<and> snd fates = Served"

lemma call_answered:
  assumes "exchange order now ms args st = (st, Inr v)" "answered fates"
  shows "redis_call order now ms fates args st = (st, Inr v)"
  using assms by (cases "fst fates"; cases "snd fates") (simp_all add: redis_call_def answered_def)

lemma batch_keys: "list_all utf8_valid ks \<Longrightarrow> List.map_filter resp_into_string (map RBulk ks) = ks"
  by (induction ks) (simp_all add: List.map_filter_simps resp_into_string_def)


lemma zero_cursor: "resp_into_string (RBulk ''0'') = Some ''0''"
  by code_simp


lemma scan_prefix_result:
  assumes "key_ok (prefix @ ''*'')" and "listing_ok (snd (env 0))"
  obtains r where "redis_scan_prefix now env prefix st = Some (st, r)"
    "r = Inr (scan_matches now prefix st (snd (env 0))) \<or> (\<exists>e. r = Inl e)"
    "answered (fst (env 0)) \<Longrightarrow> r = Inr (scan_matches now prefix st (snd (env 0)))"
proof -
  let ?keys = "scan_matches now prefix st (snd (env 0))"
  note ex = exchange_scan [OF assms short_names(10), of now 0 st]
  obtain r where call: "redis_call (snd (env 0)) now 0 (fst (env 0)) [''SCAN'', ''0'', ''MATCH'', prefix @ ''*'', ''COUNT'', ''512''] st = (st, r)"
      and r: "r = Inr (RArray [RBulk ''0'', RArray (map RBulk ?keys)]) \<or> (\<exists>e. r = Inl e)"
    using call_same_state [OF ex] by blast
  have keys: "List.map_filter resp_into_string (map RBulk ?keys) = ?keys"
    using scan_matches_ok [OF assms(2)] by (intro batch_keys) (auto simp: list_all_iff key_ok_def)
  have unfold: "redis_scan_prefix now env prefix st = Some (st, case r of Inl e \<Rightarrow> Inl e | Inr _ \<Rightarrow> Inr ?keys)"
    unfolding redis_scan_prefix_def scan_prefix_def by (subst scan_loop.simps) (use r in \<open>auto simp: call keys zero_cursor Let_def scan_args_def\<close>)
  show thesis
  proof (rule that [OF unfold])
    show "answered (fst (env 0)) \<Longrightarrow> (case r of Inl e \<Rightarrow> Inl e | Inr _ \<Rightarrow> Inr ?keys) = Inr ?keys"
      using call_answered [OF ex] call by auto
  qed (use r in auto)
qed

section \<open>The stream follower\<close>

fun field_payloads :: "resp list \<Rightarrow> string list" where
  "field_payloads (name # value # rest) =
     (if resp_into_bytes name = Some ''d'' then (case resp_into_bytes value of Some p \<Rightarrow> [p] | None \<Rightarrow> []) else []) @ field_payloads rest"
| "field_payloads _ = []"

definition follow_entry :: "resp \<Rightarrow> string \<times> string list \<Rightarrow> string \<times> string list" where
  "follow_entry entry acc = (case resp_into_array entry of
     None \<Rightarrow> acc
   | Some parts \<Rightarrow>
       if length parts \<noteq> 2 then acc
       else let items = (case resp_into_array (parts ! 1) of None \<Rightarrow> [] | Some xs \<Rightarrow> xs);
                last_id = (case resp_into_string (parts ! 0) of None \<Rightarrow> fst acc | Some i \<Rightarrow> i)
            in (last_id, snd acc @ field_payloads items))"

definition follow_stream :: "resp \<Rightarrow> string \<times> string list \<Rightarrow> string \<times> string list" where
  "follow_stream stream acc = (case resp_into_array stream of
     None \<Rightarrow> acc
   | Some parts \<Rightarrow> if length parts \<noteq> 2 then acc
       else fold follow_entry (case resp_into_array (parts ! 1) of None \<Rightarrow> [] | Some xs \<Rightarrow> xs) acc)"

definition follow_reply :: "resp \<Rightarrow> string \<Rightarrow> string \<times> string list" where
  "follow_reply reply last_id = (case resp_into_array reply of
     None \<Rightarrow> (last_id, []) | Some streams \<Rightarrow> fold follow_stream streams (last_id, []))"

text \<open>A poll on a working connection; the list holds the states of the store at the passes of the server's loop.\<close>

definition next_batch :: "string \<Rightarrow> nat \<Rightarrow> store list \<Rightarrow> string \<Rightarrow> string \<times> (resp_error + string list)" where
  "next_batch stream block_ms sts last_id =
     (case read_command (encode_command [''XREAD'', ''BLOCK'', dec_digits block_ms, ''STREAMS'', stream, last_id]) of
        Inr (Some args, _) \<Rightarrow>
          let r = (case xread_args args of Inl e \<Rightarrow> e | Inr (block, s, after) \<Rightarrow> xread_loop s after sts) in
          (case receive (encode_reply r) of
             Inl e \<Rightarrow> (last_id, Inl e)
           | Inr (v, _) \<Rightarrow> (case follow_reply v last_id of (i, ps) \<Rightarrow> (i, Inr ps)))
      | _ \<Rightarrow> (last_id, Inl RespRead))"

section \<open>Properties\<close>




text \<open>
  Against the in-tree server, which answers with one page: for every behaviour of the transport the loop returns and the store is unchanged; when
  the request is answered and the server lists the keys it has, in any order, the result holds exactly the live keys with the prefix, each once.
\<close>

theorem scan_prefix_live_keys:
  assumes "key_ok (prefix @ ''*'')" and "listing_ok (snd (env 0))" "distinct (snd (env 0))" "set (snd (env 0)) = dom (st_kv st)"
    and "answered (fst (env 0))"
  shows "\<exists>keys. redis_scan_prefix now env prefix st = Some (st, Inr keys) \<and> distinct keys \<and>
    set keys = {key. kv_at now key st \<noteq> None \<and> take (length prefix) key = prefix}"
proof -
  have "redis_scan_prefix now env prefix st = Some (st, Inr (scan_matches now prefix st (snd (env 0))))"
    using scan_prefix_result [OF assms(1), of env now st] assms(2,5) by metis
  moreover have "key \<in> dom (st_kv st)" if "kv_at now key st \<noteq> None" for key
    using that by (auto simp: kv_at_def bind_eq_Some_conv)
  ultimately show ?thesis using assms(3,4) by (auto simp: scan_matches_def)
qed

definition two_keys :: store where
  "two_keys = kv_put ''b'' \<lparr>kv_value = [], kv_expires = None\<rparr> (kv_put ''ab'' \<lparr>kv_value = [], kv_expires = None\<rparr> store_empty)"

theorem scan_prefix_live_keys_witness:
  "\<exists>keys. redis_scan_prefix 5 (\<lambda>_. ((LostReply, Served), [''ab'', ''b''])) ''a'' two_keys = Some (two_keys, Inr keys) \<and> distinct keys \<and> set keys = {''ab''}"
proof -
  have "key_ok (''a'' @ ''*'')" "listing_ok [''ab'', ''b'']" "set [''ab'', ''b''] = dom (st_kv two_keys)"
    by (auto simp: key_ok_def listing_ok_def MAX_ARG_BYTES_def utf8_step_ascii two_keys_def store_empty_def)
  moreover have "{key. kv_at 5 key two_keys \<noteq> None \<and> take (length ''a'') key = ''a''} = {''ab''}"
    by (auto simp: two_keys_def kv_at_def kv_live_def store_empty_def split: if_splits)
  ultimately show ?thesis
    using scan_prefix_live_keys [of "''a''" "\<lambda>_. ((LostReply, Served), [''ab'', ''b''])" two_keys 5] by (simp add: answered_def)
qed

end
