(* ===== verification/StreamFollow.thy ===== *)
theory StreamFollow
  imports RedisClient
begin

text \<open>
  The heartbeat stream as schedulers follow it: workers append with \<^verbatim>\<open>XADD\<close>, a follower polls with \<^verbatim>\<open>XREAD\<close> and keeps the id of the last entry it
  saw. The theory shows that a follower with an id misses nothing, and that one still at the tail marker does.
\<close>

section \<open>Ids\<close>

lemma id_roundtrip: "fst i \<le> u64_max \<Longrightarrow> snd i \<le> u64_max \<Longrightarrow> id_parse (id_render i) = Some i"
  by (simp add: id_parse_def id_render_def split_once_append digit_not_mem is_digit_def less_eq_char_def parse_uint_dec_digits)

lemma id_lt_trans: "id_lt a b \<Longrightarrow> id_lt b c \<Longrightarrow> id_lt a c"
  by (auto simp: id_lt_def)

lemma id_lt_irrefl [simp]: "\<not> id_lt a a"
  by (simp add: id_lt_def)

lemma id_ascii: "ascii (id_render i)"
  using digits_ascii by (simp add: id_render_def ascii_def)

lemma id_not_tail: "id_render i \<noteq> ''$''"
proof -
  obtain c cs where "dec_digits (fst i) = c # cs" by (cases "dec_digits (fst i)") auto
  then show ?thesis by (simp add: id_render_def)
qed

lemma id_length: "fst i \<le> u64_max \<Longrightarrow> snd i \<le> u64_max \<Longrightarrow> length (id_render i) \<le> 41"
  using dec_digits_short [of "fst i" 19] dec_digits_short [of "snd i" 19] by (simp add: id_render_def)

section \<open>Publishing and polling\<close>

text \<open>A worker appends one payload under the field \<^verbatim>\<open>d\<close>; the follower polls once, with one pass of the server's loop.\<close>

datatype stream_event = Publish nat nat string | Poll

record follower =
  fo_log :: stream_log
  fo_last_id :: string
  fo_got :: "string list"

definition log_store :: "string \<Rightarrow> stream_log \<Rightarrow> store" where
  "log_store stream log = \<lparr>st_kv = (\<lambda>_. None), st_streams = [stream \<mapsto> log]\<rparr>"

fun follower_step :: "string \<Rightarrow> stream_event \<Rightarrow> follower \<Rightarrow> follower" where
  "follower_step stream (Publish ms maxlen payload) f =
     f\<lparr>fo_log := log_of stream (fst (cmd_xadd ms [''XADD'', stream, ''MAXLEN'', ''~'', dec_digits maxlen, ''*'', ''d'', payload] (log_store stream (fo_log f))))\<rparr>"
| "follower_step stream Poll f =
     (case next_batch stream 1000 [log_store stream (fo_log f)] (fo_last_id f) of
        (i, Inl e) \<Rightarrow> f\<lparr>fo_last_id := i\<rparr>
      | (i, Inr ps) \<Rightarrow> f\<lparr>fo_last_id := i, fo_got := fo_got f @ ps\<rparr>)"

fun published :: "stream_event list \<Rightarrow> string list" where
  "published [] = []"
| "published (Publish ms maxlen payload # evs) = payload # published evs"
| "published (Poll # evs) = published evs"

text \<open>No more unread entries than the stream keeps, times and payloads that fit a command.\<close>

fun roomy :: "nat \<Rightarrow> stream_event list \<Rightarrow> bool" where
  "roomy unread [] = True"
| "roomy unread (Publish ms maxlen payload # evs) =
     (Suc unread \<le> maxlen \<and> maxlen \<le> u64_max \<and> ms \<le> u64_max \<and> length payload \<le> MAX_ARG_BYTES \<and> roomy (Suc unread) evs)"
| "roomy unread (Poll # evs) = roomy 0 evs"

section \<open>One step\<close>

lemma xadd_words [simp]: "eq_ignore_case (Some ''MAXLEN'') ''MAXLEN''" "eq_ignore_case (Some ''BLOCK'') ''BLOCK''" "eq_ignore_case (Some ''STREAMS'') ''STREAMS''"
  "utf8_valid ''MAXLEN''" "utf8_valid ''~''" "utf8_valid ''*''" "utf8_valid ''BLOCK''" "utf8_valid ''STREAMS''" "utf8_valid ''$''"
  by code_simp+

lemma log_of_store [simp]: "log_of stream (log_store stream log) = log"
  by (simp add: log_of_def log_store_def)

lemma publish_log:
  assumes "utf8_valid stream" "maxlen \<le> u64_max"
  shows "fo_log (follower_step stream (Publish ms maxlen payload) f) = fst (append_entry ms (Some (max 1 maxlen)) [(''d'', payload)] (fo_log f))"
proof -
  have "log_of stream (st\<lparr>st_streams := (st_streams st)(stream \<mapsto> log)\<rparr>) = log" for st log by (simp add: log_of_def)
  then show ?thesis
    using assms digits_arg [of maxlen "[''*'', ''d'', payload]"]
    by (simp add: cmd_xadd_def text_arg_def Let_def split: prod.split)
qed

abbreviation entry :: "stream_id \<times> string \<Rightarrow> stream_id \<times> (string \<times> string) list" where
  "entry u \<equiv> (fst u, [(''d'', snd u)])"

lemma follow_entries:
  "fold follow_entry (map (reply_view \<circ> render_entry \<circ> entry) us) (l, ps) =
     (if us = [] then l else id_render (fst (last us)), ps @ map snd us)"
proof (induction us arbitrary: l ps)
  case (Cons u us)
  have "follow_entry (reply_view (render_entry (entry u))) (l, ps) = (id_render (fst u), ps @ [snd u])"
    by (simp add: follow_entry_def render_entry_def resp_into_string_def utf8_valid_ascii [OF id_ascii])
  then show ?case using Cons [of "id_render (fst u)" "ps @ [snd u]"] by simp
qed simp

lemma poll_args:
  assumes "key_ok stream" "fst i \<le> u64_max" "snd i \<le> u64_max"
  shows "args_ok [''XREAD'', ''BLOCK'', dec_digits 1000, ''STREAMS'', stream, id_render i]"
    "xread_args [''XREAD'', ''BLOCK'', dec_digits 1000, ''STREAMS'', stream, id_render i] = Inr (Some 1000, stream, Some i)"
proof -
  show "args_ok [''XREAD'', ''BLOCK'', dec_digits 1000, ''STREAMS'', stream, id_render i]"
    using assms(1) digits_short [of 1000] id_length [OF assms(2,3)] by (simp add: args_ok_def key_ok_def MAX_ARG_BYTES_def)
  show "xread_args [''XREAD'', ''BLOCK'', dec_digits 1000, ''STREAMS'', stream, id_render i] = Inr (Some 1000, stream, Some i)"
    using assms(1) digits_arg [of 1000 "[''STREAMS'', stream, id_render i]"] id_roundtrip [OF assms(2,3)]
    by (simp add: xread_args_def text_arg_def key_ok_def Let_def utf8_valid_ascii [OF id_ascii] id_not_tail)
qed

lemma poll_batch:
  assumes key: "key_ok stream" and i: "fst i \<le> u64_max" "snd i \<le> u64_max"
    and unread: "filter (\<lambda>e. id_lt i (fst e)) (sl_entries log) = map entry us"
    and fits: "int (length us) \<le> i64_max" "\<forall>u\<in>set us. length (snd u) \<le> MAX_ARG_BYTES \<and> fst (fst u) \<le> u64_max \<and> snd (fst u) \<le> u64_max"
  shows "next_batch stream 1000 [log_store stream log] (id_render i) = (if us = [] then id_render i else id_render (fst (last us)), Inr (map snd us))"
proof -
  have loop: "xread_loop stream (Some i) [log_store stream log] =
      (if us = [] then RpNull else RpArray [RpArray [RpBulk stream, RpArray (map (render_entry \<circ> entry) us)]])"
    using unread by (simp add: xread_pass_def Let_def)
  have ok: "reply_ok (RpArray [RpArray [RpBulk stream, RpArray (map (render_entry \<circ> entry) us)]])"
  proof -
    have "reply_ok (render_entry (entry u))" if "u \<in> set us" for u
      using fits(2) that id_length [of "fst u"] by (auto simp: render_entry_def MAX_ARG_BYTES_def)
    then show ?thesis using fits(1) key by (auto simp: list_all_iff key_ok_def MAX_ARG_BYTES_def)
  qed
  have recv: "receive (encode_reply (xread_loop stream (Some i) [log_store stream log])) =
      Inr (if us = [] then RNull else RArray [RArray [RBulk stream, RArray (map (reply_view \<circ> render_entry \<circ> entry) us)]], [])"
    unfolding loop using receive_one [OF ok] receive_one [of RpNull] by (simp add: comp_assoc)
  have "follow_reply (if us = [] then RNull else RArray [RArray [RBulk stream, RArray (map (reply_view \<circ> render_entry \<circ> entry) us)]]) (id_render i) =
      (if us = [] then id_render i else id_render (fst (last us)), map snd us)"
    using follow_entries [of us "id_render i" "[]"] by (simp add: follow_reply_def follow_stream_def)
  then show ?thesis
    unfolding next_batch_def using read_encoded [OF poll_args(1) [OF key i]] poll_args(2) [OF key i] recv by (simp add: Let_def)
qed

section \<open>Runs\<close>

text \<open>
  The unread entries \<open>us\<close> are a suffix of the log, all after the follower's id \<open>i\<close> and in increasing order; the
  log's last id is that of the last one.
\<close>

definition follows :: "stream_id \<Rightarrow> (stream_id \<times> string) list \<Rightarrow> follower \<Rightarrow> bool" where
  "follows i us f \<longleftrightarrow> fo_last_id f = id_render i \<and> sl_last (fo_log f) = last (i # map fst us) \<and> sorted_wrt id_lt (i # map fst us) \<and>
     (\<exists>seen. sl_entries (fo_log f) = seen @ map entry us \<and> (\<forall>e\<in>set seen. \<not> id_lt i (fst e)))"

definition fits_command :: "nat \<Rightarrow> stream_id \<Rightarrow> (stream_id \<times> string) list \<Rightarrow> bool" where
  "fits_command n i us \<longleftrightarrow> int (length us + n) \<le> i64_max \<and> (\<forall>u\<in>set us. length (snd u) \<le> MAX_ARG_BYTES) \<and>
     (\<forall>j\<in>set (i # map fst us). fst j \<le> u64_max \<and> snd j + n \<le> u64_max)"

lemma below_last: "sorted_wrt id_lt xs \<Longrightarrow> k \<in> set xs \<Longrightarrow> k = last xs \<or> id_lt k (last xs)"
  by (cases xs rule: rev_cases) (auto simp: sorted_wrt_append)

lemma follows_unread: "follows i us f \<Longrightarrow> filter (\<lambda>e. id_lt i (fst e)) (sl_entries (fo_log f)) = map entry us"
  by (auto simp: follows_def filter_id_conv)

lemma publish_follows:
  assumes f: "follows i us f" and fit: "fits_command (Suc n) i us" and stream: "utf8_valid stream"
    and ev: "Suc (length us) \<le> maxlen" "maxlen \<le> u64_max" "ms \<le> u64_max" "length payload \<le> MAX_ARG_BYTES"
  obtains j where "follows i (us @ [(j, payload)]) (follower_step stream (Publish ms maxlen payload) f)" "fits_command n i (us @ [(j, payload)])"
    "fo_got (follower_step stream (Publish ms maxlen payload) f) = fo_got f"
proof -
  obtain seen where log: "sl_entries (fo_log f) = seen @ map entry us" "\<forall>e\<in>set seen. \<not> id_lt i (fst e)"
    using f by (auto simp: follows_def)
  define l where "l = last (i # map fst us)"
  define j where "j = (if fst l < ms then (ms, 0) else (fst l, snd l + 1))"
  have last: "sl_last (fo_log f) = l" using f by (simp add: follows_def l_def)
  have lt: "id_lt l j" by (simp add: j_def id_lt_def)
  have below: "\<forall>k\<in>set (i # map fst us). id_lt k j"
  proof
    fix k assume k: "k \<in> set (i # map fst us)"
    have "sorted_wrt id_lt (i # map fst us)" using f by (simp add: follows_def)
    from below_last [OF this k] show "id_lt k j" using lt id_lt_trans unfolding l_def by blast
  qed
  have bound: "fst j \<le> u64_max \<and> snd j + n \<le> u64_max"
  proof -
    have "l \<in> set (i # map fst us)" unfolding l_def by (rule last_in_set) simp
    then show ?thesis using fit ev(3) by (auto simp: fits_command_def j_def)
  qed
  let ?f = "follower_step stream (Publish ms maxlen payload) f"
  have "fo_log ?f = \<lparr>sl_entries = drop (Suc (length seen + length us) - max 1 maxlen) seen @ map entry (us @ [(j, payload)]), sl_last = j\<rparr>"
    using publish_log [OF stream ev(2), of ms payload f] ev(1) by (simp add: append_entry_def log last Let_def j_def)
  then have "follows i (us @ [(j, payload)]) ?f"
    using f log(2) below by (auto simp: follows_def sorted_wrt_append dest: in_set_dropD)
  moreover have "fits_command n i (us @ [(j, payload)])" using fit bound ev(4) by (auto simp: fits_command_def)
  moreover have "fo_got ?f = fo_got f" by simp
  ultimately show thesis by (rule that)
qed

lemma poll_follows:
  assumes f: "follows i us f" and fit: "fits_command (Suc n) i us" and key: "key_ok stream"
  obtains j where "follows j [] (follower_step stream Poll f)" "fits_command n j []" "fo_got (follower_step stream Poll f) = fo_got f @ map snd us"
proof -
  define j where "j = last (i # map fst us)"
  have j: "j \<in> set (i # map fst us)" unfolding j_def by (rule last_in_set) simp
  have batch: "next_batch stream 1000 [log_store stream (fo_log f)] (fo_last_id f) = (if us = [] then id_render i else id_render (fst (last us)), Inr (map snd us))"
  proof -
    have "fst i \<le> u64_max" "snd i \<le> u64_max" "int (length us) \<le> i64_max"
        "\<forall>u\<in>set us. length (snd u) \<le> MAX_ARG_BYTES \<and> fst (fst u) \<le> u64_max \<and> snd (fst u) \<le> u64_max"
      using fit by (auto simp: fits_command_def)
    moreover have "fo_last_id f = id_render i" using f by (simp add: follows_def)
    ultimately show ?thesis using poll_batch [OF key _ _ follows_unread [OF f]] by simp
  qed
  have last_id: "(if us = [] then id_render i else id_render (fst (last us))) = id_render j" by (simp add: j_def last_map)
  obtain seen where log: "sl_entries (fo_log f) = seen @ map entry us" "\<forall>e\<in>set seen. \<not> id_lt i (fst e)"
    using f by (auto simp: follows_def)
  have sorted: "sorted_wrt id_lt (i # map fst us)" using f by (simp add: follows_def)
  have below: "\<not> id_lt j k" if "k \<in> set (i # map fst us)" for k
  proof
    assume "id_lt j k"
    moreover have "k = j \<or> id_lt k j" using below_last [OF sorted that] by (simp add: j_def)
    ultimately show False using id_lt_trans id_lt_irrefl by blast
  qed
  have old: "\<not> id_lt j (fst e)" if "e \<in> set seen" for e
  proof
    assume "id_lt j (fst e)"
    moreover have "j = i \<or> id_lt i j" using j sorted by auto
    ultimately show False using log(2) that id_lt_trans by blast
  qed
  have "\<forall>e\<in>set (sl_entries (fo_log f)). \<not> id_lt j (fst e)"
  proof
    fix e assume "e \<in> set (sl_entries (fo_log f))"
    then have "e \<in> set seen \<or> fst e \<in> set (i # map fst us)" by (force simp: log(1))
    then show "\<not> id_lt j (fst e)" using old below by blast
  qed
  moreover have "fo_last_id (follower_step stream Poll f) = id_render j" "fo_log (follower_step stream Poll f) = fo_log f"
    using batch last_id by simp_all
  moreover have "sl_last (fo_log f) = j" using f by (simp add: follows_def j_def)
  ultimately have "follows j [] (follower_step stream Poll f)" by (simp add: follows_def)
  moreover have "fits_command n j []" using fit j by (auto simp: fits_command_def)
  moreover have "fo_got (follower_step stream Poll f) = fo_got f @ map snd us" using batch by simp
  ultimately show thesis by (rule that)
qed

lemma follow_run:
  assumes "follows i us f" "fits_command (Suc (length evs)) i us" "key_ok stream" "roomy (length us) evs"
  shows "fo_got (fold (follower_step stream) (evs @ [Poll]) f) = fo_got f @ map snd us @ published evs"
  using assms
proof (induction evs arbitrary: i us f)
  case Nil
  then show ?case using poll_follows [of i us f 0 stream] by (metis append_Nil append_Nil2 fold_simps list.size(3) published.simps(1))
next
  case (Cons ev evs)
  show ?case
  proof (cases ev)
    case (Publish ms maxlen payload)
    obtain j where j: "follows i (us @ [(j, payload)]) (follower_step stream ev f)" "fits_command (Suc (length evs)) i (us @ [(j, payload)])"
        "fo_got (follower_step stream ev f) = fo_got f"
      using publish_follows [OF Cons.prems(1), of "Suc (length evs)" stream maxlen ms payload] Cons.prems Publish
      by (auto simp: key_ok_def)
    show ?thesis using Cons.IH [OF j(1,2)] Cons.prems(3,4) Publish j(3) by simp
  next
    case Poll
    obtain j where j: "follows j [] (follower_step stream ev f)" "fits_command (Suc (length evs)) j []"
        "fo_got (follower_step stream ev f) = fo_got f @ map snd us"
      using poll_follows [OF Cons.prems(1), of "Suc (length evs)" stream] Cons.prems Poll by auto
    show ?thesis using Cons.IH [OF j(1,2)] Cons.prems(3,4) Poll j(3) by simp
  qed
qed

section \<open>Properties\<close>

text \<open>
  C22: A follower that knows an id misses no heartbeat. Starting caught up with the log, for every interleaving of appends and polls, with clocks that
  may stand still or go back, the polls deliver every payload appended, once and in order, as long as the stream is not trimmed past
  the unread entries and its ids stay within 64 bits.
\<close>

theorem follower_complete:
  assumes "fo_last_id f = id_render (sl_last (fo_log f))" and "\<forall>e\<in>set (sl_entries (fo_log f)). \<not> id_lt (sl_last (fo_log f)) (fst e)"
    and "fst (sl_last (fo_log f)) \<le> u64_max" "snd (sl_last (fo_log f)) + Suc (length evs) \<le> u64_max"
    and "int (Suc (length evs)) \<le> i64_max" and "key_ok stream" and "roomy 0 evs"
  shows "fo_got (fold (follower_step stream) (evs @ [Poll]) f) = fo_got f @ published evs"
proof -
  have "follows (sl_last (fo_log f)) [] f" "fits_command (Suc (length evs)) (sl_last (fo_log f)) []"
    using assms by (auto simp: follows_def fits_command_def)
  from follow_run [OF this assms(6)] assms(7) show ?thesis by simp
qed

definition new_follower :: "string \<Rightarrow> follower" where
  "new_follower last_id = \<lparr>fo_log = \<lparr>sl_entries = [], sl_last = (7, 0)\<rparr>, fo_last_id = last_id, fo_got = []\<rparr>"

lemma key_ok_literal: "ascii stream \<Longrightarrow> length stream \<le> 8388608 \<Longrightarrow> key_ok stream"
  by (simp add: key_ok_def utf8_valid_ascii MAX_ARG_BYTES_def)

theorem follower_complete_witness:
  "fo_got (fold (follower_step ''w'') ([Publish 9 100 ''a'', Poll, Publish 5 100 ''b'', Publish 9 100 ''c''] @ [Poll]) (new_follower ''7-0'')) = [''a'', ''b'', ''c'']"
proof -
  have "id_render (7, 0) = ''7-0''" by code_simp
  then show ?thesis
    using follower_complete [of "new_follower ''7-0''" "[Publish 9 100 ''a'', Poll, Publish 5 100 ''b'', Publish 9 100 ''c'']" "''w''"]
    by (simp add: new_follower_def key_ok_literal ascii_def MAX_ARG_BYTES_def del: follower_step.simps fold_simps)
qed

text \<open>
  A follower that has received nothing yet loses heartbeats. Its id stays at the tail marker, and every poll resolves the marker to the log's
  end at that moment, so an entry appended after the follower's first poll returned and before the next one starts is never delivered.
\<close>

theorem follower_tail_loses:
  assumes "key_ok stream" and "ms \<le> u64_max"
  shows "fo_got (fold (follower_step stream) [Poll, Publish ms 100 payload, Poll] (new_follower ''$'')) = []"
proof -
  have args: "args_ok [''XREAD'', ''BLOCK'', dec_digits 1000, ''STREAMS'', stream, ''$'']"
      "xread_args [''XREAD'', ''BLOCK'', dec_digits 1000, ''STREAMS'', stream, ''$''] = Inr (Some 1000, stream, None)"
    using assms(1) digits_short [of 1000] digits_arg [of 1000 "[''STREAMS'', stream, ''$'']"]
    by (simp_all add: args_ok_def key_ok_def MAX_ARG_BYTES_def xread_args_def text_arg_def)
  have poll: "next_batch stream 1000 [log_store stream log] ''$'' = (''$'', Inr [])"
    if "\<forall>e\<in>set (sl_entries log). \<not> id_lt (sl_last log) (fst e)" for log
  proof -
    have "xread_loop stream None [log_store stream log] = RpNull" using that by (simp add: xread_pass_def Let_def)
    then show ?thesis
      unfolding next_batch_def using read_encoded [OF args(1)] args(2) receive_one [of RpNull] by (simp add: follow_reply_def)
  qed
  have "fo_log (follower_step stream (Publish ms 100 payload) f) = fst (append_entry ms (Some 100) [(''d'', payload)] (fo_log f))" for f
    using publish_log [of stream 100 ms payload f] assms(1) by (simp add: key_ok_def)
  then show ?thesis by (simp add: new_follower_def poll append_entry_def Let_def del: follower_step.simps(1)) (simp add: poll)
qed

theorem follower_tail_loses_witness:
  "fo_got (fold (follower_step ''w'') [Poll, Publish 9 100 ''a'', Poll] (new_follower ''$'')) = []"
  by (rule follower_tail_loses) (simp_all add: key_ok_literal ascii_def)

end
