(* ===== verification/LeaderLease.thy ===== *)
theory LeaderLease
  imports RedisClient
begin

text \<open>
  The leader lease of \<^verbatim>\<open>vmond/src/orch/controller.rs\<close>: schedulers take \<^verbatim>\<open>vmon:o:leader\<close> with \<^verbatim>\<open>SET NX PX\<close> and renew it with \<^verbatim>\<open>PEXPIRE\<close>.
  A tick is up to three calls of the Redis client, each at an instant of its own (a call resent after a lost reply is resent at that instant);
  what other clients do to the server between them is an argument of \<open>leader_tick\<close>. The same tick call by call is \<open>lead_call\<close>, and
  \<open>lead_run\<close> runs the calls of any number of schedulers interleaved with one another and with other traffic.
\<close>

definition LEADER :: string where "LEADER = ''vmon:o:leader''"

definition leader_ttl :: "nat \<Rightarrow> nat" where
  "leader_ttl millis = max 1 (if millis \<le> u64_max then millis else u64_max)"

definition leader_tick :: "string \<Rightarrow> nat \<Rightarrow> nat \<times> nat \<times> nat \<Rightarrow> (fate \<times> fate) \<times> (fate \<times> fate) \<times> (fate \<times> fate) \<Rightarrow> (store \<Rightarrow> store) \<Rightarrow> (store \<Rightarrow> store) \<Rightarrow>
    store \<Rightarrow> store \<times> bool" where
  "leader_tick holder ttl_ms instants fates other1 other2 st =
     (case redis_set_nx_px (fst instants) (fst fates) LEADER holder ttl_ms st of
        (st, Inr True) \<Rightarrow> (st, True)
      | (st, Inr False) \<Rightarrow>
          (case redis_get (fst (snd instants)) (fst (snd fates)) LEADER (other1 st) of
             (st, Inr (Some value)) \<Rightarrow>
               if value = holder then
                 (case redis_pexpire (snd (snd instants)) (snd (snd fates)) LEADER ttl_ms (other2 st) of
                    (st, Inr _) \<Rightarrow> (st, True) | (st, Inl _) \<Rightarrow> (st, False))
               else (st, False)
           | (st, _) \<Rightarrow> (st, False))
      | (st, Inl _) \<Rightarrow> (st, False))"

section \<open>Ticks call by call\<close>

text \<open>Where a scheduler's tick stands: before the \<^verbatim>\<open>SET\<close>, before the \<^verbatim>\<open>GET\<close>, before the \<^verbatim>\<open>PEXPIRE\<close>.\<close>

datatype lead_pc = AtSet | AtGet | AtPexpire

definition lead_call :: "nat \<Rightarrow> string \<Rightarrow> nat \<Rightarrow> fate \<times> fate \<Rightarrow> lead_pc \<Rightarrow> store \<Rightarrow> store \<times> lead_pc \<times> bool option" where
  "lead_call ttl_ms holder now fates pc st = (case pc of
     AtSet \<Rightarrow> (case redis_set_nx_px now fates LEADER holder ttl_ms st of
        (st, Inr True) \<Rightarrow> (st, AtSet, Some True)
      | (st, Inr False) \<Rightarrow> (st, AtGet, None)
      | (st, Inl _) \<Rightarrow> (st, AtSet, Some False))
   | AtGet \<Rightarrow> (case redis_get now fates LEADER st of
        (st, Inr (Some value)) \<Rightarrow> if value = holder then (st, AtPexpire, None) else (st, AtSet, Some False)
      | (st, _) \<Rightarrow> (st, AtSet, Some False))
   | AtPexpire \<Rightarrow> (case redis_pexpire now fates LEADER ttl_ms st of
        (st, Inr _) \<Rightarrow> (st, AtSet, Some True) | (st, Inl _) \<Rightarrow> (st, AtSet, Some False)))"

text \<open>The tick is its calls, one after the other, with what others do in between.\<close>

lemma leader_tick_calls:
  "leader_tick holder ttl_ms (t1, t2, t3) (f1, f2, f3) other1 other2 st =
     (case lead_call ttl_ms holder t1 f1 AtSet st of
        (st, pc, Some b) \<Rightarrow> (st, b)
      | (st, pc, None) \<Rightarrow> (case lead_call ttl_ms holder t2 f2 pc (other1 st) of
          (st, pc, Some b) \<Rightarrow> (st, b)
        | (st, pc, None) \<Rightarrow> (case lead_call ttl_ms holder t3 f3 pc (other2 st) of (st, pc, r) \<Rightarrow> (st, r = Some True))))"
proof -
  obtain st1 a where set: "redis_set_nx_px t1 f1 LEADER holder ttl_ms st = (st1, a)" by fastforce
  obtain st2 g where get: "redis_get t2 f2 LEADER (other1 st1) = (st2, g)" by fastforce
  obtain st3 p where ren: "redis_pexpire t3 f3 LEADER ttl_ms (other2 st2) = (st3, p)" by fastforce
  consider e where "a = Inl e" | "a = Inr True" | "a = Inr False" by (cases a) auto
  then show ?thesis
  proof cases
    case 3
    consider e where "g = Inl e" | "g = Inr None" | "g = Inr (Some holder)" | v where "g = Inr (Some v)" "v \<noteq> holder"
      by (metis old.sum.exhaust option.exhaust)
    then show ?thesis using set get ren 3 by cases (cases p; simp add: leader_tick_def lead_call_def)+
  qed (simp_all add: leader_tick_def lead_call_def set)
qed

text \<open>
  All schedulers on one server. \<open>ls_seen\<close> is the deadline the entry had when a scheduler's \<^verbatim>\<open>GET\<close> read it, \<open>ls_led\<close> lists the ticks
  that returned that their caller leads, with the instant of their last call.
\<close>

record lead_state =
  ls_store :: store
  ls_now :: nat
  ls_pc :: "string \<Rightarrow> lead_pc"
  ls_seen :: "string \<Rightarrow> nat"
  ls_led :: "(string \<times> nat) list"

datatype lead_event = Call string nat "fate \<times> fate" | Traffic nat "store \<Rightarrow> store"

definition lead_deadline :: "store \<Rightarrow> nat" where
  "lead_deadline st = (case st_kv st LEADER of Some e \<Rightarrow> (case kv_expires e of Some d \<Rightarrow> d | None \<Rightarrow> 0) | None \<Rightarrow> 0)"

fun lead_apply :: "nat \<Rightarrow> lead_event \<Rightarrow> lead_state \<Rightarrow> lead_state" where
  "lead_apply ttl_ms (Call h now fates) s = (case lead_call ttl_ms h now fates (ls_pc s h) (ls_store s) of (st, pc, r) \<Rightarrow>
     s\<lparr>ls_store := st, ls_now := now, ls_pc := (ls_pc s)(h := pc),
       ls_seen := (ls_seen s)(h := lead_deadline st),
       ls_led := (if r = Some True then (h, now) # ls_led s else ls_led s)\<rparr>)"
| "lead_apply ttl_ms (Traffic now f) s = s\<lparr>ls_store := f (ls_store s), ls_now := now\<rparr>"

fun lead_run :: "nat \<Rightarrow> lead_event list \<Rightarrow> lead_state \<Rightarrow> lead_state" where
  "lead_run ttl_ms [] s = s"
| "lead_run ttl_ms (e # es) s = lead_run ttl_ms es (lead_apply ttl_ms e s)"

text \<open>
  The conditions on a run: time does not go back, other traffic leaves the leader key alone, and a renewal reaches the server
  before the deadline that the lease had when the same tick read it.
\<close>

definition timely_call :: "string \<Rightarrow> nat \<Rightarrow> lead_state \<Rightarrow> bool" where
  "timely_call h now s \<longleftrightarrow> ls_now s \<le> now \<and> length h \<le> MAX_ARG_BYTES \<and> (ls_pc s h = AtPexpire \<longrightarrow> now < ls_seen s h)"

fun timely_event :: "lead_event \<Rightarrow> lead_state \<Rightarrow> bool" where
  "timely_event (Call h now fates) s \<longleftrightarrow> timely_call h now s"
| "timely_event (Traffic now f) s \<longleftrightarrow> ls_now s \<le> now \<and> st_kv (f (ls_store s)) LEADER = st_kv (ls_store s) LEADER \<and>
     (store_ok (ls_store s) \<longrightarrow> store_ok (f (ls_store s)))"

fun timely :: "nat \<Rightarrow> lead_event list \<Rightarrow> lead_state \<Rightarrow> bool" where
  "timely ttl_ms [] s \<longleftrightarrow> True"
| "timely ttl_ms (e # es) s \<longleftrightarrow> timely_event e s \<and> timely ttl_ms es (lead_apply ttl_ms e s)"

definition lead_start :: "store \<Rightarrow> nat \<Rightarrow> lead_state" where
  "lead_start st now = \<lparr>ls_store = st, ls_now = now, ls_pc = (\<lambda>_. AtSet), ls_seen = (\<lambda>_. 0), ls_led = []\<rparr>"

section \<open>Calls under any transport\<close>

lemma set_nx_taken:
  assumes "key_ok key" "length value \<le> MAX_ARG_BYTES" "px \<le> u64_max" "kv_at now key st = Some e"
  obtains r where "redis_set_nx_px now fates key value px st = (st, r)" "r = Inr False \<or> (\<exists>e. r = Inl e)"
  using exchange_set_nx [OF assms(1-3), of "[]" now 0 st] assms(4)
  by (cases "fst fates"; cases "snd fates") (simp_all add: redis_set_nx_px_def redis_call_def)

lemma set_nx_free:
  assumes "key_ok key" "length value \<le> MAX_ARG_BYTES" "px \<le> u64_max" "0 < px" "kv_at now key st = None"
  obtains e where "redis_set_nx_px now fates key value px st = (st, Inl e)"
  | r where "redis_set_nx_px now fates key value px st = (kv_put key \<lparr>kv_value = value, kv_expires = Some (now + px * 1000000)\<rparr> st, r)"
proof -
  let ?st = "kv_put key \<lparr>kv_value = value, kv_expires = Some (now + px * 1000000)\<rparr> st"
  have "exchange [] now 0 [''SET'', key, value, ''PX'', dec_digits px, ''NX''] st = (?st, Inr (RSimple ''OK''))"
    using exchange_set_nx [OF assms(1-3), of "[]" now 0 st] assms(5) by simp
  moreover have "kv_at now key ?st \<noteq> None" using assms(4) by (simp add: kv_at_def kv_live_def)
  then have "exchange [] now 0 [''SET'', key, value, ''PX'', dec_digits px, ''NX''] ?st = (?st, Inr RNull)"
    using exchange_set_nx [OF assms(1-3), of "[]" now 0 ?st] by simp
  ultimately show thesis
    using that by (cases "fst fates"; cases "snd fates") (simp_all add: redis_set_nx_px_def redis_call_def)
qed

lemma get_some:
  assumes "key_ok key" "store_ok st" "kv_at now key st = Some e"
  obtains r where "redis_get now fates key st = (st, r)" "r = Inr (Some (kv_value e)) \<or> (\<exists>e. r = Inl e)"
proof -
  have "exchange [] now 0 [''GET'', key] st = (st, Inr (RBulk (kv_value e)))"
    using exchange_get [OF assms(1,2), of "[]" now 0] assms(3) by simp
  then show thesis
    using that by (cases "fst fates"; cases "snd fates") (simp_all add: redis_get_def redis_call_def)
qed

lemma pexpire_some:
  assumes "key_ok key" "px \<le> u64_max" "0 < px" "kv_at now key st = Some e"
  obtains e' where "redis_pexpire now fates key px st = (st, Inl e')"
  | r where "redis_pexpire now fates key px st = (kv_put key (e\<lparr>kv_expires := Some (now + px * 1000000)\<rparr>) st, r)"
proof -
  let ?st = "kv_put key (e\<lparr>kv_expires := Some (now + px * 1000000)\<rparr>) st"
  have "exchange [] now 0 [''PEXPIRE'', key, dec_digits px] st = (?st, Inr (RInt 1))"
    using exchange_pexpire [OF assms(1,2), of "[]" now 0 st] assms(4) by simp
  moreover have "kv_at now key ?st = Some (e\<lparr>kv_expires := Some (now + px * 1000000)\<rparr>)" using assms(3) by (simp add: kv_at_def kv_live_def)
  then have "exchange [] now 0 [''PEXPIRE'', key, dec_digits px] ?st = (?st, Inr (RInt 1))"
    using exchange_pexpire [OF assms(1,2), of "[]" now 0 ?st] by simp
  ultimately show thesis
    using that by (cases "fst fates"; cases "snd fates") (simp_all add: redis_pexpire_def redis_call_def)
qed

section \<open>One call\<close>

lemma LEADER_ok: "key_ok LEADER"
  by (simp add: key_ok_def LEADER_def MAX_ARG_BYTES_def)

text \<open>The holder named by a live entry, and its deadline.\<close>

abbreviation led :: "string \<Rightarrow> nat \<Rightarrow> kv_entry" where
  "led h deadline \<equiv> \<lparr>kv_value = h, kv_expires = Some deadline\<rparr>"

text \<open>The leader key is absent or a lease.\<close>

definition lease_shaped :: "store \<Rightarrow> bool" where
  "lease_shaped st \<longleftrightarrow> (\<forall>e. st_kv st LEADER = Some e \<longrightarrow> e = led (kv_value e) (lead_deadline st))"

lemma led_at: "st_kv st LEADER = Some (led h d) \<Longrightarrow> kv_at now LEADER st = (if now < d then Some (led h d) else None)"
  by (simp add: kv_at_def kv_live_def)

lemma lead_deadline_led: "st_kv st LEADER = Some (led h d) \<Longrightarrow> lead_deadline st = d"
  by (simp add: lead_deadline_def)

lemma lease_shapedD: "lease_shaped st \<Longrightarrow> st_kv st LEADER = Some e \<Longrightarrow> \<exists>h d. e = led h d"
  by (auto simp: lease_shaped_def)

lemma lease_shaped_put: "lease_shaped (kv_put LEADER (led h d) st)"
  by (simp add: lease_shaped_def lead_deadline_def)

text \<open>
  What a call does to the leader key: nothing, dropping an entry that has expired, taking a lease that is free, or prolonging the lease of whoever holds it. Only
  the last two end a tick with leadership, and a call that only then knows that its caller holds the lease goes on to the renewal.
\<close>

lemma lead_call_cases:
  assumes "store_ok st" "lease_shaped st" "length h \<le> MAX_ARG_BYTES" "ttl \<le> u64_max" "0 < ttl"
    and "lead_call ttl h now fates pc st = (st', pc', r)"
    and held: "pc = AtPexpire \<Longrightarrow> \<exists>d > now. st_kv st LEADER = Some (led h d)"
  obtains (none) "st' = st" "r \<noteq> Some True" "pc' = AtPexpire \<longrightarrow> (\<exists>d > now. st_kv st LEADER = Some (led h d))"
  | (drops) "kv_at now LEADER st = None" "st' = st\<lparr>st_kv := (st_kv st)(LEADER := None)\<rparr>" "r \<noteq> Some True" "pc' \<noteq> AtPexpire"
  | (takes) "kv_at now LEADER st = None" "st' = kv_put LEADER (led h (now + ttl * 1000000)) st" "pc' \<noteq> AtPexpire"
  | (renews) d where "st_kv st LEADER = Some (led h d)" "now < d" "st' = kv_put LEADER (led h (now + ttl * 1000000)) st" "pc' = AtSet" "pc = AtPexpire"
proof (cases pc)
  case AtSet
  show ?thesis
  proof (cases "kv_at now LEADER st")
    case None
    show ?thesis
    proof (rule set_nx_free [OF LEADER_ok assms(3,4,5) None, of fates])
      fix e assume "redis_set_nx_px now fates LEADER h ttl st = (st, Inl e)"
      then show ?thesis using none assms(6) AtSet by (auto simp: lead_call_def)
    next
      fix x assume "redis_set_nx_px now fates LEADER h ttl st = (kv_put LEADER (led h (now + ttl * 1000000)) st, x)"
      then show ?thesis using takes None assms(6) AtSet by (auto simp: lead_call_def split: sum.splits bool.splits)
    qed
  next
    case (Some e)
    obtain x where "redis_set_nx_px now fates LEADER h ttl st = (st, x)" "x = Inr False \<or> (\<exists>e. x = Inl e)"
      using set_nx_taken [OF LEADER_ok assms(3,4) Some] by metis
    then show ?thesis using none assms(6) AtSet by (auto simp: lead_call_def)
  qed
next
  case AtGet
  show ?thesis
  proof (cases "kv_at now LEADER st")
    case None
    let ?st = "st\<lparr>st_kv := (st_kv st)(LEADER := None)\<rparr>"
    have gone: "store_ok ?st" "kv_at now LEADER ?st = None" using assms(1) by (simp_all add: store_ok_def kv_at_def)
    have "exchange [] now 0 [''GET'', LEADER] st = (?st, Inr RNull)" "exchange [] now 0 [''GET'', LEADER] ?st = (?st, Inr RNull)"
      using exchange_get [OF LEADER_ok assms(1), of "[]" now 0] exchange_get [OF LEADER_ok gone(1), of "[]" now 0] None gone(2) by simp_all
    then obtain st1 x where "redis_get now fates LEADER st = (st1, x)" "st1 = st \<or> st1 = ?st" "x = Inr None \<or> (\<exists>e. x = Inl e)"
      by (cases "fst fates"; cases "snd fates") (simp_all add: redis_get_def redis_call_def)
    then show ?thesis using none drops None assms(6) AtGet by (auto simp: lead_call_def)
  next
    case (Some e)
    obtain x where x: "redis_get now fates LEADER st = (st, x)" "x = Inr (Some (kv_value e)) \<or> (\<exists>e. x = Inl e)"
      using get_some [OF LEADER_ok assms(1) Some] by metis
    have "\<exists>h' d. e = led h' d \<and> now < d \<and> st_kv st LEADER = Some e"
      using Some lease_shapedD [OF assms(2)] by (auto simp: kv_at_def kv_live_def bind_eq_Some_conv split: if_splits)
    then show ?thesis using none x assms(6) AtGet by (auto simp: lead_call_def split: if_splits)
  qed
next
  case AtPexpire
  then obtain d where d: "now < d" "st_kv st LEADER = Some (led h d)" using held by blast
  then have at: "kv_at now LEADER st = Some (led h d)" by (simp add: led_at)
  show ?thesis
  proof (rule pexpire_some [OF LEADER_ok assms(4,5) at, of fates])
    fix x assume "redis_pexpire now fates LEADER ttl st = (st, Inl x)"
    then show ?thesis using none assms(6) AtPexpire by (auto simp: lead_call_def)
  next
    fix x assume "redis_pexpire now fates LEADER ttl st = (kv_put LEADER ((led h d)\<lparr>kv_expires := Some (now + ttl * 1000000)\<rparr>) st, x)"
    then show ?thesis using renews d assms(6) AtPexpire by (auto simp: lead_call_def split: sum.splits)
  qed
qed

section \<open>The invariant of interleaved ticks\<close>

text \<open>
  A scheduler about to renew holds the lease, unless the deadline it saw has passed; a tick that returned leadership left its
  caller with a lease that lasts the whole lease time, unless that has passed; and two such ticks less than the lease time apart
  are of the same scheduler.
\<close>

definition lead_inv :: "nat \<Rightarrow> lead_state \<Rightarrow> bool" where
  "lead_inv ttl s \<longleftrightarrow> store_ok (ls_store s) \<and> lease_shaped (ls_store s) \<and>
     (\<forall>h. ls_pc s h = AtPexpire \<longrightarrow> ls_seen s h \<le> ls_now s \<or> (\<exists>d \<ge> ls_seen s h. st_kv (ls_store s) LEADER = Some (led h d))) \<and>
     (\<forall>(h, t) \<in> set (ls_led s). t \<le> ls_now s \<and>
        (t + ttl * 1000000 \<le> ls_now s \<or> (\<exists>d \<ge> t + ttl * 1000000. st_kv (ls_store s) LEADER = Some (led h d)))) \<and>
     (\<forall>(h, t) \<in> set (ls_led s). \<forall>(h', t') \<in> set (ls_led s). t \<le> t' \<longrightarrow> t' < t + ttl * 1000000 \<longrightarrow> h' = h)"

lemma lead_inv_idle:
  assumes "lead_inv ttl s" "store_ok st" "st_kv st LEADER = st_kv (ls_store s) LEADER" "ls_now s \<le> now"
    and "\<And>g. pc g = AtPexpire \<Longrightarrow> (ls_pc s g = AtPexpire \<and> seen g = ls_seen s g) \<or> st_kv st LEADER = Some (led g (seen g))"
  shows "lead_inv ttl (s\<lparr>ls_store := st, ls_now := now, ls_pc := pc, ls_seen := seen\<rparr>)"
proof -
  have shape: "lease_shaped st" using assms(1,3) by (simp add: lead_inv_def lease_shaped_def lead_deadline_def)
  have "seen g \<le> now \<or> (\<exists>d \<ge> seen g. st_kv st LEADER = Some (led g d))" if "pc g = AtPexpire" for g
  proof -
    have "ls_pc s g = AtPexpire \<Longrightarrow> ls_seen s g \<le> ls_now s \<or> (\<exists>d \<ge> ls_seen s g. st_kv (ls_store s) LEADER = Some (led g d))"
      using assms(1) by (simp add: lead_inv_def)
    then show ?thesis using assms(5) [OF that] assms(3,4) by auto
  qed
  then show ?thesis using assms(1-4) shape unfolding lead_inv_def by fastforce
qed

lemma lead_inv_grant:
  assumes inv: "lead_inv ttl s" and "0 < ttl" "length h \<le> MAX_ARG_BYTES" "ls_now s \<le> now"
    and over: "\<And>g d. st_kv (ls_store s) LEADER = Some (led g d) \<Longrightarrow> g = h \<or> d \<le> now"
    and "st = kv_put LEADER (led h (now + ttl * 1000000)) (ls_store s)"
    and "pc h \<noteq> AtPexpire" "\<And>g. g \<noteq> h \<Longrightarrow> pc g = ls_pc s g \<and> seen g = ls_seen s g"
    and "log = ls_led s \<or> log = (h, now) # ls_led s"
  shows "lead_inv ttl (s\<lparr>ls_store := st, ls_now := now, ls_pc := pc, ls_seen := seen, ls_led := log\<rparr>)"
proof -
  have at: "st_kv st LEADER = Some (led h (now + ttl * 1000000))" and ok: "store_ok st" "lease_shaped st"
    using assms(3,6) inv by (auto simp: lead_inv_def store_ok_def lease_shaped_put)
  have old: "g = h \<or> t + ttl * 1000000 \<le> now" "t \<le> now" if "(g, t) \<in> set (ls_led s)" for g t
  proof -
    have "t \<le> ls_now s \<and> (t + ttl * 1000000 \<le> ls_now s \<or> (\<exists>d \<ge> t + ttl * 1000000. st_kv (ls_store s) LEADER = Some (led g d)))"
      using inv that unfolding lead_inv_def by blast
    then show "g = h \<or> t + ttl * 1000000 \<le> now" "t \<le> now" using over assms(4) by fastforce+
  qed
  have seen: "seen g \<le> now" if "pc g = AtPexpire" for g
  proof -
    have g: "g \<noteq> h" using that assms(7) by blast
    then have "ls_seen s g \<le> ls_now s \<or> (\<exists>d \<ge> ls_seen s g. st_kv (ls_store s) LEADER = Some (led g d))"
      using inv that assms(8) unfolding lead_inv_def by metis
    then show ?thesis using over g assms(4,8) by fastforce
  qed
  have pairs: "g' = g" if "(g, t) \<in> set log" "(g', t') \<in> set log" "t \<le> t'" "t' < t + ttl * 1000000" for g t g' t'
  proof -
    have "(g, t) \<in> set (ls_led s) \<Longrightarrow> (g', t') \<in> set (ls_led s) \<Longrightarrow> g' = g"
      using inv that(3,4) unfolding lead_inv_def by blast
    then show ?thesis using that assms(2,9) old [of g t] old [of g' t'] by auto
  qed
  have logged: "t \<le> now \<and> (t + ttl * 1000000 \<le> now \<or> (\<exists>d \<ge> t + ttl * 1000000. st_kv st LEADER = Some (led g d)))"
    if "(g, t) \<in> set log" for g t
    using that assms(9) old [of g t] at by auto
  show ?thesis
    unfolding lead_inv_def using ok seen logged pairs by auto
qed

lemma lead_inv_drop:
  assumes inv: "lead_inv ttl s" and "ls_now s \<le> now" "kv_at now LEADER (ls_store s) = None" "pc h \<noteq> AtPexpire"
    and "\<And>g. g \<noteq> h \<Longrightarrow> pc g = ls_pc s g \<and> seen g = ls_seen s g"
  shows "lead_inv ttl (s\<lparr>ls_store := (ls_store s)\<lparr>st_kv := (st_kv (ls_store s))(LEADER := None)\<rparr>, ls_now := now, ls_pc := pc, ls_seen := seen\<rparr>)"
proof -
  have over: "d \<le> now" if "st_kv (ls_store s) LEADER = Some (led g d)" for g d
    using led_at [OF that, of now] assms(3) by (auto split: if_splits)
  have seen: "seen g \<le> now" if "pc g = AtPexpire" for g
  proof -
    have g: "g \<noteq> h" using that assms(4) by blast
    then have "ls_seen s g \<le> ls_now s \<or> (\<exists>d \<ge> ls_seen s g. st_kv (ls_store s) LEADER = Some (led g d))"
      using inv that assms(5) unfolding lead_inv_def by metis
    then show ?thesis using over g assms(2,5) by fastforce
  qed
  have old: "t \<le> now \<and> t + ttl * 1000000 \<le> now" if "(g, t) \<in> set (ls_led s)" for g t
  proof -
    have "t \<le> ls_now s \<and> (t + ttl * 1000000 \<le> ls_now s \<or> (\<exists>d \<ge> t + ttl * 1000000. st_kv (ls_store s) LEADER = Some (led g d)))"
      using inv that unfolding lead_inv_def by blast
    then show ?thesis using over assms(2) by fastforce
  qed
  have "store_ok ((ls_store s)\<lparr>st_kv := (st_kv (ls_store s))(LEADER := None)\<rparr>)" using inv by (simp add: lead_inv_def store_ok_def)
  then show ?thesis
    using seen old inv unfolding lead_inv_def by (auto simp: lease_shaped_def)
qed

lemma lead_inv_event:
  assumes inv: "lead_inv ttl s" and "ttl \<le> u64_max" "0 < ttl" and timely: "timely_event e s"
  shows "lead_inv ttl (lead_apply ttl e s)"
proof (cases e)
  case (Traffic now f)
  have "lead_inv ttl (s\<lparr>ls_store := f (ls_store s), ls_now := now, ls_pc := ls_pc s, ls_seen := ls_seen s\<rparr>)"
    using timely Traffic inv by (intro lead_inv_idle [OF inv]) (auto simp: lead_inv_def)
  then show ?thesis using Traffic by simp
next
  case (Call h now fates)
  obtain st pc r where call: "lead_call ttl h now fates (ls_pc s h) (ls_store s) = (st, pc, r)" by (metis prod_cases3)
  have h: "length h \<le> MAX_ARG_BYTES" "ls_now s \<le> now" and pre: "ls_pc s h = AtPexpire \<longrightarrow> now < ls_seen s h"
    using timely Call by (simp_all add: timely_call_def)
  have held: "\<exists>d > now. st_kv (ls_store s) LEADER = Some (led h d)" if "ls_pc s h = AtPexpire"
  proof -
    have "ls_seen s h \<le> ls_now s \<or> (\<exists>d \<ge> ls_seen s h. st_kv (ls_store s) LEADER = Some (led h d))"
      using inv that by (simp add: lead_inv_def)
    then show ?thesis using pre that h(2) by (meson leD le_trans order_less_le_trans)
  qed
  have ok: "store_ok (ls_store s)" "lease_shaped (ls_store s)" using inv by (simp_all add: lead_inv_def)
  let ?log = "if r = Some True then (h, now) # ls_led s else ls_led s"
  have event: "lead_apply ttl e s = s\<lparr>ls_store := st, ls_now := now, ls_pc := (ls_pc s)(h := pc),
      ls_seen := (ls_seen s)(h := lead_deadline st), ls_led := ?log\<rparr>"
    using Call call by simp
  show ?thesis
  proof (rule lead_call_cases [OF ok h(1) assms(2,3) call held])
    assume none: "st = ls_store s" "r \<noteq> Some True" "pc = AtPexpire \<longrightarrow> (\<exists>d > now. st_kv (ls_store s) LEADER = Some (led h d))"
    have "lead_inv ttl (s\<lparr>ls_store := st, ls_now := now, ls_pc := (ls_pc s)(h := pc), ls_seen := (ls_seen s)(h := lead_deadline st)\<rparr>)"
      using none ok by (intro lead_inv_idle [OF inv _ _ h(2)]) (auto simp: lead_deadline_led split: if_splits)
    then show ?thesis using none(2) unfolding event by simp
  next
    assume drops: "kv_at now LEADER (ls_store s) = None" "st = (ls_store s)\<lparr>st_kv := (st_kv (ls_store s))(LEADER := None)\<rparr>"
      "r \<noteq> Some True" "pc \<noteq> AtPexpire"
    have "lead_inv ttl (s\<lparr>ls_store := st, ls_now := now, ls_pc := (ls_pc s)(h := pc), ls_seen := (ls_seen s)(h := lead_deadline st)\<rparr>)"
      unfolding drops(2) by (rule lead_inv_drop [OF inv h(2) drops(1), where h = h]) (simp_all add: drops(4))
    then show ?thesis using drops(3) unfolding event by simp
  next
    assume takes: "kv_at now LEADER (ls_store s) = None" "st = kv_put LEADER (led h (now + ttl * 1000000)) (ls_store s)" "pc \<noteq> AtPexpire"
    then have "d \<le> now" if "st_kv (ls_store s) LEADER = Some (led g d)" for g d
      using led_at [OF that, of now] by (auto split: if_splits)
    then show ?thesis
      unfolding event by (intro lead_inv_grant [OF inv assms(3) h _ takes(2)]) (auto simp: takes(3))
  next
    fix d
    assume renews: "st_kv (ls_store s) LEADER = Some (led h d)" "now < d" "st = kv_put LEADER (led h (now + ttl * 1000000)) (ls_store s)"
      "pc = AtSet" "ls_pc s h = AtPexpire"
    then show ?thesis
      unfolding event by (intro lead_inv_grant [OF inv assms(3) h _ renews(3)]) auto
  qed
qed

lemma lead_inv_run:
  "lead_inv ttl s \<Longrightarrow> ttl \<le> u64_max \<Longrightarrow> 0 < ttl \<Longrightarrow> timely ttl es s \<Longrightarrow> lead_inv ttl (lead_run ttl es s)"
  by (induction es arbitrary: s) (simp_all add: lead_inv_event)

lemma lead_inv_start:
  "store_ok st \<Longrightarrow> st_kv st LEADER = None \<Longrightarrow> lead_inv ttl (lead_start st now)"
  by (simp add: lead_inv_def lead_start_def lease_shaped_def)

section \<open>Properties\<close>

text \<open>
  C23: One leader at a time. Any number of schedulers tick, their calls interleaved in any order with one another and with traffic on
  other keys, requests and replies being lost; in a run where every renewal reaches the server before the deadline that the lease had
  when the same tick read it, two ticks that return leadership less than the lease time apart are ticks of the same scheduler.
\<close>

theorem leader_exclusive:
  assumes "store_ok st" "st_kv st LEADER = None" "0 < ttl" "ttl \<le> u64_max"
    and "timely ttl events (lead_start st now)"
    and "(h, t) \<in> set (ls_led (lead_run ttl events (lead_start st now)))"
    and "(h', t') \<in> set (ls_led (lead_run ttl events (lead_start st now)))"
    and "t \<le> t'" "t' < t + ttl * 1000000"
  shows "h' = h"
  using lead_inv_run [OF lead_inv_start [OF assms(1,2)] assms(4,3,5)] assms(6-9) unfolding lead_inv_def by blast

lemma empty_ok: "store_ok store_empty" "kv_at now key store_empty = None" "st_kv store_empty key = None"
  by (simp_all add: store_ok_def store_empty_def kv_at_def)

text \<open>Calls whose transport works.\<close>

lemma served_calls:
  assumes "length h \<le> MAX_ARG_BYTES" "ttl \<le> u64_max" "store_ok st"
  shows "kv_at now LEADER st = None \<Longrightarrow>
      lead_call ttl h now (Served, f) AtSet st = (kv_put LEADER (led h (now + ttl * 1000000)) st, AtSet, Some True)"
    and "kv_at now LEADER st = Some e \<Longrightarrow> lead_call ttl h now (Served, f) AtSet st = (st, AtGet, None)"
    and "kv_at now LEADER st = Some (led h d) \<Longrightarrow> lead_call ttl h now (Served, f) AtGet st = (st, AtPexpire, None)"
    and "kv_at now LEADER st = Some (led g d) \<Longrightarrow>
      lead_call ttl h now (Served, f) AtPexpire st = (kv_put LEADER (led g (now + ttl * 1000000)) st, AtSet, Some True)"
  using exchange_set_nx [OF LEADER_ok assms(1,2), of "[]" now 0 st] exchange_get [OF LEADER_ok assms(3), of "[]" now 0]
    exchange_pexpire [OF LEADER_ok assms(2), of "[]" now 0 st]
  by (simp_all add: lead_call_def redis_set_nx_px_def redis_get_def redis_pexpire_def redis_call_def)

text \<open>The run of the witness: \<open>a\<close> takes the lease, \<open>b\<close> finds it taken, \<open>a\<close> renews it in three calls with other traffic between them.\<close>

definition sample_events :: "lead_event list" where
  "sample_events = [Call ''a'' 2 (Served, Served), Call ''b'' 3 (Served, Served), Call ''a'' 3 (Served, Served), Traffic 3 id,
     Call ''a'' 4 (Served, Served), Call ''a'' 6 (Served, Unsent)]"

definition sample_lease :: "nat \<Rightarrow> store" where
  "sample_lease t = kv_put LEADER (led ''a'' t) store_empty"

lemma sample_lease_facts: "store_ok (sample_lease t)" "kv_at now LEADER (sample_lease t) = (if now < t then Some (led ''a'' t) else None)"
  "kv_put LEADER e (sample_lease t) = kv_put LEADER e store_empty" "lead_deadline (sample_lease t) = t"
  by (simp_all add: sample_lease_def store_ok_def store_empty_def kv_at_def kv_live_def lead_deadline_def MAX_ARG_BYTES_def)

lemma sample_calls:
  shows "length h \<le> MAX_ARG_BYTES \<Longrightarrow> lead_call 10 h now (Served, f) AtSet store_empty = (kv_put LEADER (led h (now + 10 * 1000000)) store_empty, AtSet, Some True)"
    and "length h \<le> MAX_ARG_BYTES \<Longrightarrow> now < t \<Longrightarrow> lead_call 10 h now (Served, f) AtSet (sample_lease t) = (sample_lease t, AtGet, None)"
    and "now < t \<Longrightarrow> lead_call 10 ''a'' now (Served, f) AtGet (sample_lease t) = (sample_lease t, AtPexpire, None)"
    and "now < t \<Longrightarrow> lead_call 10 ''a'' now (Served, f) AtPexpire (sample_lease t) = (sample_lease (now + 10 * 1000000), AtSet, Some True)"
  using served_calls(1) [of h 10 store_empty now] served_calls(2) [of h 10 "sample_lease t" now "led ''a'' t"]
    served_calls(3,4) [of "''a''" 10 "sample_lease t" now] empty_ok sample_lease_facts sample_lease_def
  by (simp_all add: MAX_ARG_BYTES_def)

lemma sample_taken: "lead_call 10 ''a'' 2 (Served, Served) AtSet store_empty = (sample_lease 10000002, AtSet, Some True)"
  using sample_calls(1) [of "''a''" 2 Served] by (simp add: MAX_ARG_BYTES_def sample_lease_def)

lemma sample_run:
  "ls_led (lead_run 10 sample_events (lead_start store_empty 0)) = [(''a'', 6), (''a'', 2)] \<and> timely 10 sample_events (lead_start store_empty 0)"
  by (simp add: sample_events_def lead_start_def timely_call_def sample_taken sample_calls(2-4) MAX_ARG_BYTES_def sample_lease_facts(4))

theorem leader_exclusive_witness:
  "timely 10 sample_events (lead_start store_empty 0) \<and> (''a'', 2) \<in> set (ls_led (lead_run 10 sample_events (lead_start store_empty 0))) \<and>
   fst (hd (ls_led (lead_run 10 sample_events (lead_start store_empty 0)))) = ''a''"
proof -
  let ?led = "ls_led (lead_run 10 sample_events (lead_start store_empty 0))"
  have log: "?led = [(''a'', 6), (''a'', 2)]" and run: "timely 10 sample_events (lead_start store_empty 0)" using sample_run by blast+
  have first: "(''a'', 2) \<in> set ?led" unfolding log by simp
  have "hd ?led \<in> set ?led" unfolding log by simp
  then have last: "(fst (hd ?led), snd (hd ?led)) \<in> set ?led" by simp
  have "fst (hd ?led) = ''a''"
  proof (rule leader_exclusive [OF empty_ok(1,3) _ _ run first last])
    show "2 \<le> snd (hd ?led)" "snd (hd ?led) < 2 + 10 * 1000000" unfolding log by simp_all
  qed simp_all
  then show ?thesis using run first by blast
qed

text \<open>
  The condition is needed: a renewal can come too late and still report leadership. When the lease expires and another scheduler takes
  it between the read and the renewal of a tick, \<^verbatim>\<open>PEXPIRE\<close> prolongs the other's lease and both ticks return that their caller leads.
\<close>

theorem leader_late_renewal:
  assumes "0 < ttl" "ttl \<le> u64_max" and "length h \<le> MAX_ARG_BYTES" "length h' \<le> MAX_ARG_BYTES" "h' \<noteq> h" and "store_ok st"
    and "st_kv st LEADER = Some (led h d)" "now < d" "d \<le> late"
  shows "ls_led (lead_run ttl [Call h now (Served, Served), Call h now (Served, Served), Call h' late (Served, Served), Call h late (Served, Served)]
      (lead_start st now)) = [(h, late), (h', late)]"
proof -
  have at: "kv_at now LEADER st = Some (led h d)" and gone: "kv_at late LEADER st = None"
    using assms(7-9) by (simp_all add: kv_at_def kv_live_def)
  let ?st = "kv_put LEADER (led h' (late + ttl * 1000000)) st"
  have taken: "kv_at late LEADER ?st = Some (led h' (late + ttl * 1000000))" using assms(1) by (simp add: kv_at_def kv_live_def)
  have "redis_set_nx_px late (Served, Served) LEADER h' ttl st = (?st, Inr True)"
    using exchange_set_nx [OF LEADER_ok assms(4,2), of "[]" late 0 st] gone by (simp add: redis_set_nx_px_def redis_call_def)
  moreover have "redis_set_nx_px now (Served, Served) LEADER h ttl st = (st, Inr False)"
    using exchange_set_nx [OF LEADER_ok assms(3,2), of "[]" now 0 st] at by (simp add: redis_set_nx_px_def redis_call_def)
  moreover have "redis_get now (Served, Served) LEADER st = (st, Inr (Some h))"
    using exchange_get [OF LEADER_ok assms(6), of "[]" now 0] at by (simp add: redis_get_def redis_call_def)
  moreover have "redis_pexpire late (Served, Served) LEADER ttl ?st = (?st, Inr ())"
    using exchange_pexpire [OF LEADER_ok assms(2), of "[]" late 0 ?st] taken by (simp add: redis_pexpire_def redis_call_def)
  ultimately show ?thesis using assms(5) by (simp add: lead_start_def lead_call_def)
qed

theorem leader_late_renewal_witness:
  "ls_led (lead_run 10 [Call ''a'' 3 (Served, Served), Call ''a'' 3 (Served, Served), Call ''b'' 9 (Served, Served), Call ''a'' 9 (Served, Served)]
      (lead_start (kv_put LEADER (led ''a'' 8) store_empty) 3)) = [(''a'', 9), (''b'', 9)]"
  by (rule leader_late_renewal [where d = 8]) (simp_all add: MAX_ARG_BYTES_def store_ok_def store_empty_def)

end
