(* ===== verification/F64Ratio.thy ===== *)
theory F64Ratio
  imports F64
begin

text \<open>
  Rounding facts about \<^verbatim>\<open>f64\<close>: the exponent that rounding computes, exact conversion of integers below \<open>2 ^ 53\<close>, and that a quotient of such integers which
  compares at most one is at most one.
\<close>

lemma pow2_pos: "0 < pow2 e" by (simp add: pow2_def)

lemma pow2_nat: "pow2 (int n) = 2 ^ n" by (simp add: pow2_def)

lemma pow2_add: "pow2 (a + b) = pow2 a * pow2 b"
proof -
  have "pow2 e = 2 powi e" for e by (simp add: pow2_def power_int_def field_simps power_inverse)
  then show ?thesis by (simp add: power_int_add)
qed

lemma pow2_minus: "pow2 (a - b) = pow2 a / pow2 b"
  using pow2_add [of "a - b" b] pow2_pos [of b] by (simp add: field_simps)

lemma pow2_mono: "a \<le> b \<Longrightarrow> pow2 a \<le> pow2 b"
proof -
  assume "a \<le> b"
  then have "1 \<le> pow2 (b - a)" by (simp add: pow2_def)
  then have "pow2 a * 1 \<le> pow2 a * pow2 (b - a)" using pow2_pos [of a] by (intro mult_left_mono) simp_all
  then show ?thesis by (simp add: pow2_add [symmetric])
qed

lemma floorlog_nat: "0 < p \<Longrightarrow> 2 ^ floorlog 2 p \<le> 2 * p \<and> p < 2 ^ floorlog 2 p"
  using floorlog_bounds [of p 2] by (cases "floorlog 2 p") auto

lemma floor_log2_bounds:
  assumes "0 < x"
  shows "pow2 (floor_log2 x) \<le> x" "x < pow2 (floor_log2 x + 1)"
proof -
  obtain p q where pq: "quotient_of x = (p, q)" by (cases "quotient_of x")
  have q: "0 < q" using quotient_of_denom_pos [OF pq] .
  have x: "x = rat_of_int p / rat_of_int q" using quotient_of_div [OF pq] .
  have p: "0 < p" using assms q x by (simp add: zero_less_divide_iff)
  define a b where "a = floorlog 2 (nat p)" and "b = floorlog 2 (nat q)"
  have ap: "2 ^ a \<le> 2 * rat_of_int p" "rat_of_int p < 2 ^ a" and bq: "2 ^ b \<le> 2 * rat_of_int q" "rat_of_int q < 2 ^ b"
  proof -
    have conv: "2 ^ floorlog 2 (nat r) \<le> 2 * rat_of_int r \<and> rat_of_int r < 2 ^ floorlog 2 (nat r)" if "0 < r" for r
    proof -
      have "2 ^ floorlog 2 (nat r) \<le> 2 * nat r" "nat r < 2 ^ floorlog 2 (nat r)" using floorlog_nat [of "nat r"] that by auto
      then have "rat_of_nat (2 ^ floorlog 2 (nat r)) \<le> rat_of_nat (2 * nat r)" "rat_of_nat (nat r) < rat_of_nat (2 ^ floorlog 2 (nat r))"
        by (simp_all only: of_nat_le_iff of_nat_less_iff)
      then show ?thesis using that by simp
    qed
    show "2 ^ a \<le> 2 * rat_of_int p" "rat_of_int p < 2 ^ a" "2 ^ b \<le> 2 * rat_of_int q" "rat_of_int q < 2 ^ b"
      using conv [OF p] conv [OF q] by (simp_all add: a_def b_def)
  qed
  define n where "n = int a - int b"
  have pn: "pow2 n = 2 ^ a / 2 ^ b" by (simp add: n_def pow2_minus pow2_nat)
  have q': "0 < rat_of_int q" using q by simp
  have up: "x < 2 * pow2 n"
  proof -
    have "rat_of_int p * 2 ^ b < 2 ^ a * (2 * rat_of_int q)"
      using ap(2) bq(1) q' by (intro mult_less_le_imp_less) (simp_all add: p less_imp_le)
    then show ?thesis using q' by (simp add: x pn field_simps)
  qed
  have lo: "pow2 n < 2 * x"
  proof -
    have "2 ^ a * rat_of_int q < 2 * rat_of_int p * 2 ^ b"
      using ap(1) bq(2) q' by (intro mult_le_less_imp_less) simp_all
    then show ?thesis using q' by (simp add: x pn field_simps)
  qed
  have fl: "floor_log2 x = (if pow2 n \<le> x then n else n - 1)"
    by (simp add: floor_log2_def pq Let_def a_def b_def n_def)
  have p1: "pow2 (n + 1) = 2 * pow2 n" "pow2 (n - 1) = pow2 n / 2"
    using pow2_add [of n 1] pow2_minus [of n 1] by (simp_all add: pow2_def)
  show "pow2 (floor_log2 x) \<le> x" using lo by (simp add: fl p1)
  show "x < pow2 (floor_log2 x + 1)" using up by (simp add: fl p1)
qed

lemma round_half_even_ge: "floor y \<le> round_half_even y"
  by (simp add: round_half_even_def Let_def)

lemma round_half_even_int [simp]: "round_half_even (rat_of_int i) = i"
  by (simp add: round_half_even_def)

lemma round_half_even_up: "rat_of_int n + 1 / 2 < y \<Longrightarrow> n + 1 \<le> round_half_even y"
proof -
  assume y: "rat_of_int n + 1 / 2 < y"
  then have "rat_of_int n \<le> y" by linarith
  then have fl: "n \<le> floor y" by (simp add: le_floor_iff)
  show ?thesis
  proof (cases "floor y = n")
    case True
    then show ?thesis using y by (simp add: round_half_even_def Let_def)
  next
    case False
    then show ?thesis using fl round_half_even_ge [of y] by linarith
  qed
qed

text \<open>Integers below \<open>2 ^ 53\<close> are represented.\<close>

lemma f64_of_nat_exact:
  assumes "n < 2 ^ 53"
  shows "f64_of_nat n = F_Fin (rat_of_nat n)"
proof (cases "n = 0")
  case False
  define x where "x = rat_of_nat n"
  have "rat_of_nat n < rat_of_nat (2 ^ 53)" using assms by (simp only: of_nat_less_iff)
  moreover have "rat_of_nat 1 \<le> rat_of_nat n" using False by (simp only: of_nat_le_iff)
  ultimately have x: "1 \<le> x" "x < pow2 53" by (simp_all add: x_def pow2_def)
  then have pos: "0 < x" by simp
  note b = floor_log2_bounds [OF pos]
  have "floor_log2 x < 53"
  proof (rule ccontr)
    assume "\<not> floor_log2 x < 53"
    then show False using pow2_mono [of 53 "floor_log2 x"] b(1) x(2) by simp
  qed
  moreover have "0 \<le> floor_log2 x"
  proof (rule ccontr)
    assume "\<not> 0 \<le> floor_log2 x"
    then have "pow2 (floor_log2 x + 1) \<le> pow2 0" by (intro pow2_mono) simp
    then show False using b(2) x(1) by (simp add: pow2_def)
  qed
  ultimately obtain k where e: "max (floor_log2 x - 52) (-1074) = - int k" "k \<le> 52"
    by (intro that [of "nat (52 - floor_log2 x)"]) auto
  have scale: "x / pow2 (- int k) = rat_of_int (int n * 2 ^ k)" by (simp add: x_def pow2_def)
  have "rat_of_int (round_half_even (x / pow2 (- int k))) * pow2 (- int k) = x"
    unfolding scale round_half_even_int by (simp add: x_def pow2_def)
  moreover have "\<not> pow2 1024 \<le> x" using x(2) pow2_mono [of 53 1024] by simp
  ultimately show ?thesis using pos e(1) unfolding f64_of_nat_def f64_round_def x_def [symmetric] by (simp add: Let_def)
qed (simp add: f64_of_nat_def f64_round_def)

text \<open>A quotient that rounds to at most one is at most one, up to half a unit in the last place.\<close>

lemma f64_round_above_one:
  assumes "1 + 1 / 2 ^ 53 < x"
  shows "\<not> f64_le (f64_round False x) (F_Fin 1)"
proof -
  have "0 < 1 / (2 :: rat) ^ 53" by simp
  then have one: "1 < x" and pos: "0 < x" using assms by linarith+
  note b = floor_log2_bounds [OF pos]
  define k where "k = floor_log2 x"
  have k: "0 \<le> k"
  proof (rule ccontr)
    assume "\<not> 0 \<le> k"
    then have "pow2 (k + 1) \<le> pow2 0" by (intro pow2_mono) simp
    then show False using b(2) one by (simp add: k_def pow2_def)
  qed
  then have e: "max (k - 52) (-1074) = k - 52" by simp
  define v where "v = rat_of_int (round_half_even (x / pow2 (k - 52))) * pow2 (k - 52)"
  have "1 < v"
  proof (cases "k = 0")
    case True
    have "x / pow2 (- 52) = x * 2 ^ 52" by (simp add: pow2_def)
    moreover have "rat_of_int (2 ^ 52) + 1 / 2 < x * 2 ^ 52"
    proof -
      have "(1 + 1 / 2 ^ 53) * 2 ^ 52 < x * 2 ^ 52" using assms by (intro mult_strict_right_mono) simp_all
      then show ?thesis by (simp add: field_simps)
    qed
    ultimately have "2 ^ 52 + 1 \<le> round_half_even (x / pow2 (- 52))" using round_half_even_up [of "2 ^ 52"] by metis
    then have "rat_of_int (2 ^ 52 + 1) \<le> rat_of_int (round_half_even (x / pow2 (- 52)))" by (simp only: of_int_le_iff)
    then show ?thesis using True by (simp add: v_def pow2_def field_simps)
  next
    case False
    have "pow2 52 \<le> x / pow2 (k - 52)"
      using b(1) pow2_add [of 52 "k - 52"] pow2_pos [of "k - 52"] by (simp add: k_def pos_le_divide_eq)
    then have "2 ^ 52 \<le> floor (x / pow2 (k - 52))" by (simp add: le_floor_iff pow2_def)
    then have "2 ^ 52 \<le> round_half_even (x / pow2 (k - 52))" using round_half_even_ge order_trans by blast
    then have "rat_of_int (2 ^ 52) \<le> rat_of_int (round_half_even (x / pow2 (k - 52)))" by (simp only: of_int_le_iff)
    then have "pow2 52 * pow2 (k - 52) \<le> v" unfolding v_def using pow2_pos [of "k - 52"] by (intro mult_right_mono) (simp_all add: pow2_def)
    then have "pow2 k \<le> v" using pow2_add [of 52 "k - 52"] by simp
    moreover have "pow2 1 \<le> pow2 k" using False k by (intro pow2_mono) simp
    ultimately show ?thesis by (simp add: pow2_def)
  qed
  moreover have "f64_round False x = (if pow2 1024 \<le> v then F_Inf False else F_Fin v)"
    using one \<open>1 < v\<close> unfolding f64_round_def k_def [symmetric] e Let_def v_def [symmetric] by simp
  ultimately show ?thesis by (simp add: f64_le_def)
qed

lemma f64_ratio_le_one:
  assumes "r < 2 ^ 53" "c < 2 ^ 53" "0 < c" "f64_le (f64_div (f64_of_nat r) (f64_of_nat c)) (F_Fin 1)"
  shows "r \<le> c"
proof (rule ccontr)
  assume "\<not> r \<le> c"
  then have "c + 1 \<le> r" by simp
  then have "rat_of_nat (c + 1) \<le> rat_of_nat r" by (simp only: of_nat_le_iff)
  then have "rat_of_nat (c + 1) / rat_of_nat c \<le> rat_of_nat r / rat_of_nat c" by (intro divide_right_mono) simp_all
  moreover have "1 + 1 / 2 ^ 53 < rat_of_nat (c + 1) / rat_of_nat c"
  proof -
    have "rat_of_nat c < rat_of_nat (2 ^ 53)" using assms(2) by (simp only: of_nat_less_iff)
    then have "rat_of_nat c < 2 ^ 53" by simp
    then have "1 / 2 ^ 53 < 1 / rat_of_nat c" using assms(3) by (intro divide_strict_left_mono) simp_all
    then show ?thesis using assms(3) by (simp add: add_divide_distrib)
  qed
  ultimately have "1 + 1 / 2 ^ 53 < rat_of_nat r / rat_of_nat c" by linarith
  from f64_round_above_one [OF this] assms(4) show False
    using assms(1-3) by (simp add: f64_div_def f64_of_nat_exact)
qed

lemma round_half_even_le: "y \<le> rat_of_int n \<Longrightarrow> round_half_even y \<le> n"
proof -
  assume y: "y \<le> rat_of_int n"
  then have fl: "floor y \<le> n" by (simp add: floor_le_iff)
  show ?thesis
  proof (cases "floor y = n")
    case True
    then have "y = rat_of_int n" using y floor_correct [of y] by linarith
    then show ?thesis by simp
  next
    case False
    moreover have "round_half_even y \<le> floor y + 1" by (simp add: round_half_even_def Let_def)
    ultimately show ?thesis using fl by linarith
  qed
qed

lemma f64_round_within_one:
  assumes "0 < x" "x \<le> 1"
  shows "f64_le (f64_round False x) (F_Fin 1)"
proof -
  note b = floor_log2_bounds [OF assms(1)]
  have "floor_log2 x \<le> 0"
  proof (rule ccontr)
    assume "\<not> floor_log2 x \<le> 0"
    then have "pow2 1 \<le> pow2 (floor_log2 x)" by (intro pow2_mono) simp
    then show False using b(1) assms(2) by (simp add: pow2_def)
  qed
  then obtain k where e: "max (floor_log2 x - 52) (-1074) = - int k"
    by (intro that [of "nat (- max (floor_log2 x - 52) (-1074))"]) auto
  define v where "v = rat_of_int (round_half_even (x / pow2 (- int k))) * pow2 (- int k)"
  have scale: "x / pow2 (- int k) = x * 2 ^ k" by (cases "k = 0") (simp_all add: pow2_def)
  have "x * 2 ^ k \<le> rat_of_int (2 ^ k)" using assms(2) by simp
  then have "round_half_even (x / pow2 (- int k)) \<le> 2 ^ k" unfolding scale by (rule round_half_even_le)
  then have "rat_of_int (round_half_even (x / pow2 (- int k))) \<le> rat_of_int (2 ^ k)" by (simp only: of_int_le_iff)
  then have "v \<le> rat_of_int (2 ^ k) * pow2 (- int k)" unfolding v_def using pow2_pos [of "- int k"] by (intro mult_right_mono) simp_all
  then have v: "v \<le> 1" by (cases "k = 0") (simp_all add: pow2_def)
  then have "\<not> pow2 1024 \<le> v" using pow2_mono [of 1 1024] by (simp add: pow2_def)
  then show ?thesis
    using assms(1) v unfolding f64_round_def e Let_def v_def [symmetric] by (auto simp: f64_le_def)
qed

lemma f64_ratio_iff:
  assumes "r < 2 ^ 53" "c < 2 ^ 53" "0 < c"
  shows "f64_le (f64_div (f64_of_nat r) (f64_of_nat c)) (F_Fin 1) \<longleftrightarrow> r \<le> c"
proof
  assume "r \<le> c"
  show "f64_le (f64_div (f64_of_nat r) (f64_of_nat c)) (F_Fin 1)"
  proof (cases "r = 0")
    case True
    then show ?thesis using assms by (simp add: f64_div_def f64_of_nat_exact f64_round_def f64_le_def)
  next
    case False
    then have "0 < rat_of_nat r / rat_of_nat c" "rat_of_nat r / rat_of_nat c \<le> 1" using \<open>r \<le> c\<close> assms(3) by simp_all
    from f64_round_within_one [OF this] show ?thesis using assms by (simp add: f64_div_def f64_of_nat_exact)
  qed
qed (use f64_ratio_le_one assms in blast)

end
