(* ===== verification/OrchTable.thy ===== *)
theory OrchTable
  imports F64Ratio Json RustText
begin

text \<open>
  The schedulers' view of workers, \<^verbatim>\<open>vmond/src/orch/table.rs\<close> and the heartbeats of \<^verbatim>\<open>orch/mod.rs\<close>: merging heartbeats, penalties, placement by two random
  choices with in-flight reservations, and reaping. A reservation counter is shared between the table's entry and the placements that hold
  it, so counters live in a heap; the order in which the concurrent map lists its workers (\<open>order\<close>) and the random numbers are arguments. Time
  is in nanoseconds.
\<close>

section \<open>Heartbeats\<close>

record resources =
  rs_vcpus :: u64
  rs_mem :: u64

record heartbeat =
  hb_ver :: u32
  hb_wid :: string
  hb_url :: string
  hb_arch :: string
  hb_backend :: string
  hb_seq :: u64
  hb_ts :: u64
  hb_caps :: resources
  hb_used :: resources
  hb_running :: u64
  hb_accepting :: bool
  hb_draining :: bool
  hb_net_rx :: "u64 option"
  hb_net_tx :: "u64 option"

definition WIRE_VERSION :: u32 where "WIRE_VERSION = 1"

definition newer_than :: "heartbeat \<Rightarrow> heartbeat \<Rightarrow> bool" where
  "newer_than h previous \<longleftrightarrow> hb_ts previous < hb_ts h \<or> hb_ts previous = hb_ts h \<and> hb_seq previous < hb_seq h"

section \<open>Table\<close>

record table_config =
  tc_dead_after :: nat
  tc_reap_after :: nat

definition config_from_dead_after :: "nat \<Rightarrow> table_config" where
  "config_from_dead_after dead_after = \<lparr>tc_dead_after = dead_after, tc_reap_after = dead_after * 3\<rparr>"

record worker_entry =
  we_heartbeat :: heartbeat
  we_seen :: nat
  we_penalty_until :: "nat option"
  we_inflight :: nat

record worker_table =
  wt_config :: table_config
  wt_workers :: "string \<Rightarrow> worker_entry option"
  wt_counters :: "nat \<Rightarrow> u64"
  wt_fresh :: nat

definition table_new :: "table_config \<Rightarrow> worker_table" where
  "table_new config = \<lparr>wt_config = config, wt_workers = (\<lambda>_. None), wt_counters = (\<lambda>_. 0), wt_fresh = 0\<rparr>"

definition entry_live :: "nat \<Rightarrow> nat \<Rightarrow> worker_entry \<Rightarrow> bool" where
  "entry_live now dead_after e \<longleftrightarrow> now - we_seen e \<le> dead_after"

definition penalized :: "nat \<Rightarrow> worker_entry \<Rightarrow> bool" where
  "penalized now e = (case we_penalty_until e of None \<Rightarrow> False | Some until_ \<Rightarrow> now < until_)"

text \<open>Sums of \<^verbatim>\<open>u64\<close> wrap, as in a release build.\<close>

definition entry_load :: "(nat \<Rightarrow> u64) \<Rightarrow> u64 \<Rightarrow> worker_entry \<Rightarrow> f64" where
  "entry_load counters extra e =
     (let caps = rs_mem (hb_caps (we_heartbeat e)) in
      if caps = 0 then F_Inf False
      else let reserved = rs_mem (hb_used (we_heartbeat e)) + counters (we_inflight e) + extra
           in f64_div (f64_of_nat (unat reserved)) (f64_of_nat (unat caps)))"

record placement_needs =
  pn_cpus :: u64
  pn_mem :: u64
  pn_arch :: "string option"

definition needs_uint :: "params \<Rightarrow> string \<Rightarrow> nat \<Rightarrow> u64" where
  "needs_uint spec key fallback = (case Option.bind (spec key) as_u64 of
     Some v \<Rightarrow> if 0 < v then of_nat v else of_nat fallback
   | None \<Rightarrow> of_nat fallback)"

definition from_create_json :: "params \<Rightarrow> placement_needs" where
  "from_create_json spec =
     \<lparr>pn_cpus = needs_uint spec ''cpus'' 1, pn_mem = needs_uint spec ''memory'' 512,
      pn_arch = (case Option.bind (spec ''arch'') as_str of None \<Rightarrow> None | Some a \<Rightarrow> if trim a = [] then None else Some (trim a))\<rparr>"

definition entry_fits :: "(nat \<Rightarrow> u64) \<Rightarrow> placement_needs \<Rightarrow> worker_entry \<Rightarrow> bool" where
  "entry_fits counters needs e \<longleftrightarrow>
     (case pn_arch needs of None \<Rightarrow> True | Some a \<Rightarrow> map to_lower a = map to_lower (hb_arch (we_heartbeat e))) \<and>
     f64_le (entry_load counters (pn_mem needs) e) (F_Fin 1)"

record orch_placement =
  pl_wid :: string
  pl_url :: string
  pl_reserved :: u64
  pl_inflight :: nat

definition drop_placement :: "orch_placement \<Rightarrow> worker_table \<Rightarrow> worker_table" where
  "drop_placement p t = t\<lparr>wt_counters := (wt_counters t)(pl_inflight p := wt_counters t (pl_inflight p) - pl_reserved p)\<rparr>"

definition upsert :: "nat \<Rightarrow> heartbeat \<Rightarrow> worker_table \<Rightarrow> worker_table" where
  "upsert now h t =
     (if hb_ver h \<noteq> WIRE_VERSION then t
      else case wt_workers t (hb_wid h) of
        Some e \<Rightarrow> if newer_than h (we_heartbeat e)
          then t\<lparr>wt_workers := (wt_workers t)(hb_wid h \<mapsto> e\<lparr>we_heartbeat := h, we_seen := now\<rparr>)\<rparr> else t
      | None \<Rightarrow> t\<lparr>wt_workers := (wt_workers t)(hb_wid h \<mapsto>
            \<lparr>we_heartbeat = h, we_seen = now, we_penalty_until = None, we_inflight = wt_fresh t\<rparr>),
          wt_counters := (wt_counters t)(wt_fresh t := 0), wt_fresh := wt_fresh t + 1\<rparr>)"

definition penalize :: "nat \<Rightarrow> string \<Rightarrow> nat \<Rightarrow> worker_table \<Rightarrow> worker_table" where
  "penalize now wid duration t = (case wt_workers t wid of
     None \<Rightarrow> t
   | Some e \<Rightarrow> t\<lparr>wt_workers := (wt_workers t)(wid \<mapsto> e\<lparr>we_penalty_until := Some (now + duration)\<rparr>)\<rparr>)"

definition entries :: "string list \<Rightarrow> worker_table \<Rightarrow> worker_entry list" where
  "entries order t = List.map_filter (wt_workers t) order"

definition eligible :: "nat \<Rightarrow> placement_needs \<Rightarrow> string list \<Rightarrow> worker_table \<Rightarrow> worker_entry \<Rightarrow> bool" where
  "eligible now needs exclude t e \<longleftrightarrow> entry_live now (tc_dead_after (wt_config t)) e \<and> hb_accepting (we_heartbeat e) \<and>
     \<not> hb_draining (we_heartbeat e) \<and> \<not> penalized now e \<and> hb_wid (we_heartbeat e) \<notin> set exclude \<and> entry_fits (wt_counters t) needs e"

definition choose_two :: "nat \<Rightarrow> nat \<Rightarrow> (nat \<Rightarrow> u64) \<Rightarrow> worker_entry list \<Rightarrow> worker_entry option" where
  "choose_two r1 r2 counters es = (case es of
     [] \<Rightarrow> None
   | [e] \<Rightarrow> Some e
   | _ \<Rightarrow>
       let first = es ! (r1 mod length es); second = es ! (r2 mod length es)
       in Some (if f64_le (entry_load counters 0 first) (entry_load counters 0 second) then first else second))"

definition pick :: "nat \<Rightarrow> string list \<Rightarrow> nat \<Rightarrow> nat \<Rightarrow> placement_needs \<Rightarrow> string list \<Rightarrow> worker_table \<Rightarrow> worker_table \<times> orch_placement option" where
  "pick now order r1 r2 needs exclude t =
     (case choose_two r1 r2 (wt_counters t) (filter (eligible now needs exclude t) (entries order t)) of
        None \<Rightarrow> (t, None)
      | Some e \<Rightarrow>
          (t\<lparr>wt_counters := (wt_counters t)(we_inflight e := wt_counters t (we_inflight e) + pn_mem needs)\<rparr>,
           Some \<lparr>pl_wid = hb_wid (we_heartbeat e), pl_url = hb_url (we_heartbeat e), pl_reserved = pn_mem needs, pl_inflight = we_inflight e\<rparr>))"

definition table_live :: "nat \<Rightarrow> string list \<Rightarrow> worker_table \<Rightarrow> heartbeat list" where
  "table_live now order t = map we_heartbeat (filter (entry_live now (tc_dead_after (wt_config t))) (entries order t))"

definition url_of :: "string \<Rightarrow> worker_table \<Rightarrow> string option" where
  "url_of wid t = map_option (\<lambda>e. hb_url (we_heartbeat e)) (wt_workers t wid)"

text \<open>The second test of a worker's age is under the entry's lock; nothing else runs in between here.\<close>

fun reap_dead :: "nat \<Rightarrow> string list \<Rightarrow> worker_table \<Rightarrow> worker_table \<times> heartbeat list" where
  "reap_dead now [] t = (t, [])"
| "reap_dead now (wid # wids) t = (case wt_workers t wid of
     Some e \<Rightarrow>
       if tc_reap_after (wt_config t) < now - we_seen e
       then (case reap_dead now wids (t\<lparr>wt_workers := (wt_workers t)(wid := None)\<rparr>) of (t', hs) \<Rightarrow> (t', we_heartbeat e # hs))
       else reap_dead now wids t
   | None \<Rightarrow> reap_dead now wids t)"

definition reap :: "nat \<Rightarrow> string list \<Rightarrow> worker_table \<Rightarrow> worker_table \<times> heartbeat list" where
  "reap now order t = reap_dead now (filter (\<lambda>wid. case wt_workers t wid of
     None \<Rightarrow> False | Some e \<Rightarrow> tc_reap_after (wt_config t) < now - we_seen e) order) t"

section \<open>Merging heartbeats\<close>

definition hb_of :: "worker_table \<Rightarrow> string \<Rightarrow> heartbeat option" where
  "hb_of t wid = map_option we_heartbeat (wt_workers t wid)"

definition delivered :: "heartbeat set \<Rightarrow> string \<Rightarrow> heartbeat set" where
  "delivered hs wid = {h \<in> hs. hb_ver h = WIRE_VERSION \<and> hb_wid h = wid}"

text \<open>A worker stamps no two heartbeats alike.\<close>

definition stamped :: "heartbeat set \<Rightarrow> bool" where
  "stamped hs \<longleftrightarrow> (\<forall>h\<in>hs. \<forall>h'\<in>hs. hb_wid h = hb_wid h' \<longrightarrow> hb_ts h = hb_ts h' \<longrightarrow> hb_seq h = hb_seq h' \<longrightarrow> h = h')"

definition newest :: "heartbeat set \<Rightarrow> heartbeat option \<Rightarrow> bool" where
  "newest hs found = (case found of None \<Rightarrow> hs = {} | Some h \<Rightarrow> h \<in> hs \<and> (\<forall>h'\<in>hs. \<not> newer_than h' h))"

lemma newer_trans: "newer_than a b \<Longrightarrow> newer_than b c \<Longrightarrow> newer_than a c"
  by (auto simp: newer_than_def)

lemma newer_linear: "newer_than a b \<or> newer_than b a \<or> hb_ts a = hb_ts b \<and> hb_seq a = hb_seq b"
  by (auto simp: newer_than_def)

lemma hb_of_upsert:
  "hb_of (upsert now h t) wid = (if hb_ver h = WIRE_VERSION \<and> hb_wid h = wid
     then (case hb_of t wid of None \<Rightarrow> Some h | Some g \<Rightarrow> if newer_than h g then Some h else Some g) else hb_of t wid)"
  by (auto simp: hb_of_def upsert_def split: option.split)

lemma upserts_newest:
  "newest (delivered (set (map snd ds)) wid) (hb_of (fold (\<lambda>(now, h). upsert now h) ds (table_new config)) wid)"
proof (induction ds rule: rev_induct)
  case Nil
  show ?case by (simp add: newest_def delivered_def hb_of_def table_new_def)
next
  case (snoc d ds)
  obtain now h where d: "d = (now, h)" by (cases d)
  let ?t = "fold (\<lambda>(now, h). upsert now h) ds (table_new config)"
  show ?case
  proof (cases "hb_ver h = WIRE_VERSION \<and> hb_wid h = wid")
    case True
    then have "delivered (set (map snd (ds @ [d]))) wid = insert h (delivered (set (map snd ds)) wid)"
      by (auto simp: d delivered_def)
    then show ?thesis
      using snoc True by (auto simp: d hb_of_upsert newest_def newer_than_def split: option.splits)
  next
    case False
    then have "delivered (set (map snd (ds @ [d]))) wid = delivered (set (map snd ds)) wid"
      by (auto simp: d delivered_def)
    then show ?thesis using snoc False by (auto simp: d hb_of_upsert)
  qed
qed

lemma newest_unique: "stamped hs \<Longrightarrow> newest (delivered hs wid) x \<Longrightarrow> newest (delivered hs wid) y \<Longrightarrow> x = y"
proof (cases x; cases y)
  fix h h' assume s: "stamped hs" "newest (delivered hs wid) x" "newest (delivered hs wid) y" "x = Some h" "y = Some h'"
  then have "h \<in> delivered hs wid" "h' \<in> delivered hs wid" "\<not> newer_than h h'" "\<not> newer_than h' h" by (auto simp: newest_def)
  then have "h = h'" using s(1) newer_linear [of h h'] by (auto simp: stamped_def delivered_def)
  then show ?thesis using s by simp
qed (auto simp: newest_def)

section \<open>Reservations\<close>

datatype table_op =
    TUpsert nat heartbeat
  | TPenalize nat string nat
  | TPick nat "string list" nat nat placement_needs "string list"
  | TDrop nat
  | TReap nat "string list"

text \<open>The table and the placements that are still held.\<close>

fun table_step :: "table_op \<Rightarrow> worker_table \<times> orch_placement list \<Rightarrow> worker_table \<times> orch_placement list" where
  "table_step (TUpsert now h) (t, held) = (upsert now h t, held)"
| "table_step (TPenalize now wid d) (t, held) = (penalize now wid d t, held)"
| "table_step (TPick now order r1 r2 needs exclude) (t, held) = (case pick now order r1 r2 needs exclude t of
     (t, None) \<Rightarrow> (t, held) | (t, Some p) \<Rightarrow> (t, held @ [p]))"
| "table_step (TDrop i) (t, held) = (if i < length held then (drop_placement (held ! i) t, take i held @ drop (Suc i) held) else (t, held))"
| "table_step (TReap now order) (t, held) = (fst (reap now order t), held)"

definition reserved_on :: "nat \<Rightarrow> orch_placement list \<Rightarrow> u64" where
  "reserved_on a held = sum_list (map pl_reserved (filter (\<lambda>p. pl_inflight p = a) held))"

definition table_ok :: "worker_table \<times> orch_placement list \<Rightarrow> bool" where
  "table_ok s \<longleftrightarrow> (\<forall>a. wt_counters (fst s) a = reserved_on a (snd s)) \<and>
     (\<forall>p\<in>set (snd s). pl_inflight p < wt_fresh (fst s)) \<and>
     (\<forall>w e. wt_workers (fst s) w = Some e \<longrightarrow> hb_wid (we_heartbeat e) = w \<and> we_inflight e < wt_fresh (fst s))"

lemma entries_mem: "e \<in> set (entries order t) \<longleftrightarrow> (\<exists>w\<in>set order. wt_workers t w = Some e)"
  by (force simp: entries_def List.map_filter_def)

lemma choose_mem:
  assumes "choose_two r1 r2 c es = Some e"
  shows "e \<in> set es"
proof -
  consider "es = []" | a where "es = [a]" | a b cs where "es = a # b # cs" by (metis list.exhaust)
  then show ?thesis
  proof cases
    case 3
    then have "0 < length es" by simp
    then have "es ! (r mod length es) \<in> set es" for r by simp
    then show ?thesis using assms unfolding choose_two_def Let_def 3 by (auto split: if_splits simp del: length_Cons set_simps)
  qed (use assms in \<open>auto simp: choose_two_def\<close>)
qed

lemma choose_none: "choose_two r1 r2 c es = None \<longleftrightarrow> es = []"
  by (simp add: choose_two_def Let_def split: list.split)

lemma reap_dead_sub: "reap_dead now wids t = (t', hs) \<Longrightarrow> wt_counters t' = wt_counters t \<and> wt_fresh t' = wt_fresh t \<and>
    (\<forall>w e. wt_workers t' w = Some e \<longrightarrow> wt_workers t w = Some e)"
proof (induction wids arbitrary: t hs)
  case (Cons wid wids)
  show ?case
  proof (cases "\<exists>e. wt_workers t wid = Some e \<and> tc_reap_after (wt_config t) < now - we_seen e")
    case True
    define u where "u = t\<lparr>wt_workers := (wt_workers t)(wid := None)\<rparr>"
    obtain hs' where "reap_dead now wids u = (t', hs')"
      using True Cons.prems by (auto simp: u_def split: prod.splits)
    from Cons.IH [OF this] show ?thesis unfolding u_def by (simp split: if_splits) (metis option.distinct(1))
  next
    case False
    then have "reap_dead now wids t = (t', hs)" using Cons.prems by (auto split: option.splits if_splits)
    then show ?thesis by (rule Cons.IH)
  qed
qed simp

lemma reserved_snoc: "reserved_on a (held @ [p]) = reserved_on a held + (if pl_inflight p = a then pl_reserved p else 0)"
  by (simp add: reserved_on_def)

lemma reserved_drop:
  assumes "i < length held"
  shows "reserved_on a (take i held @ drop (Suc i) held) = reserved_on a held - (if pl_inflight (held ! i) = a then pl_reserved (held ! i) else 0)"
proof -
  have "reserved_on a held = reserved_on a (take i held @ held ! i # drop (Suc i) held)"
    using id_take_nth_drop [OF assms] by simp
  then show ?thesis by (simp add: reserved_on_def)
qed

lemma table_step_ok:
  assumes ok: "table_ok s"
  shows "table_ok (table_step op s)"
proof -
  obtain t held where s: "s = (t, held)" by (cases s)
  show ?thesis
  proof (cases op)
    case (TUpsert now h)
    have "reserved_on (wt_fresh t) held = 0"
    proof -
      have "filter (\<lambda>p. pl_inflight p = wt_fresh t) held = []" using ok by (auto simp: s table_ok_def filter_empty_conv)
      then show ?thesis by (simp add: reserved_on_def)
    qed
    then show ?thesis
      using ok TUpsert by (auto simp: s table_ok_def upsert_def less_Suc_eq split: option.split)
  next
    case (TPenalize now wid d)
    then show ?thesis using ok by (auto simp: s table_ok_def penalize_def split: option.split)
  next
    case (TPick now order r1 r2 needs exclude)
    show ?thesis
    proof (cases "choose_two r1 r2 (wt_counters t) (filter (eligible now needs exclude t) (entries order t))")
      case None
      then show ?thesis using ok TPick by (simp add: s pick_def)
    next
      case (Some e)
      then obtain w where "wt_workers t w = Some e" using choose_mem [OF Some] entries_mem by fastforce
      then show ?thesis using ok TPick Some by (auto simp: s pick_def table_ok_def reserved_snoc)
    qed
  next
    case (TDrop i)
    then show ?thesis
      using ok by (auto simp: s table_ok_def drop_placement_def reserved_drop dest: in_set_takeD in_set_dropD)
  next
    case (TReap now order)
    obtain t' hs where reap: "reap now order t = (t', hs)" by (cases "reap now order t")
    from reap_dead_sub [OF reap [unfolded reap_def]] show ?thesis
      using ok TReap unfolding s table_ok_def by (simp add: reap) blast
  qed
qed

lemma table_run_ok: "table_ok s \<Longrightarrow> table_ok (fold table_step ops s)"
  by (induction ops arbitrary: s) (simp_all add: table_step_ok)

lemma table_new_ok: "table_ok (table_new config, [])"
  by (simp add: table_ok_def table_new_def reserved_on_def)

lemma sum_unat: "sum_list (map (\<lambda>p. unat (pl_reserved p)) ps) < 2 ^ 64 \<Longrightarrow> unat (sum_list (map pl_reserved ps)) = sum_list (map (\<lambda>p. unat (pl_reserved p)) ps)"
proof (induction ps)
  case (Cons p ps)
  then have "unat (sum_list (map pl_reserved ps)) = sum_list (map (\<lambda>p. unat (pl_reserved p)) ps)" by simp
  then show ?case using Cons.prems by (simp add: unat_word_ariths)
qed simp

text \<open>A worker that fits has room, for sizes that \<^verbatim>\<open>f64\<close> represents.\<close>

lemma fits_room:
  assumes fits: "entry_fits counters needs e" and small: "unat (rs_mem (hb_caps (we_heartbeat e))) < 2 ^ 53"
    "unat (rs_mem (hb_used (we_heartbeat e))) + unat (counters (we_inflight e)) + unat (pn_mem needs) < 2 ^ 53"
  shows "unat (rs_mem (hb_used (we_heartbeat e))) + unat (counters (we_inflight e)) + unat (pn_mem needs) \<le> unat (rs_mem (hb_caps (we_heartbeat e)))"
proof -
  let ?r = "rs_mem (hb_used (we_heartbeat e)) + counters (we_inflight e) + pn_mem needs"
  have "unat ?r = unat (rs_mem (hb_used (we_heartbeat e))) + unat (counters (we_inflight e)) + unat (pn_mem needs)"
    using small(2) by (simp add: unat_word_ariths)
  moreover have "rs_mem (hb_caps (we_heartbeat e)) \<noteq> 0"
    using fits by (auto simp: entry_fits_def entry_load_def f64_le_def)
  ultimately show ?thesis
    using fits small f64_ratio_le_one [of "unat ?r" "unat (rs_mem (hb_caps (we_heartbeat e)))"]
    by (auto simp: entry_fits_def entry_load_def Let_def unat_gt_0)
qed

section \<open>Properties\<close>

text \<open>
  The table does not depend on the order of delivery. After any two sequences that deliver the same heartbeats, with repetitions and at any
  times, both tables hold the same heartbeat for every worker, and it is one that no delivered heartbeat of the worker supersedes.
\<close>

theorem heartbeats_order_irrelevant:
  assumes "set (map snd ds) = set (map snd ds')" and "stamped (set (map snd ds))"
  shows "hb_of (fold (\<lambda>(now, h). upsert now h) ds (table_new config)) wid = hb_of (fold (\<lambda>(now, h). upsert now h) ds' (table_new config)) wid \<and>
    newest (delivered (set (map snd ds)) wid) (hb_of (fold (\<lambda>(now, h). upsert now h) ds (table_new config)) wid)"
  using newest_unique [OF assms(2) upserts_newest [of ds wid config]] upserts_newest [of ds' wid config] upserts_newest [of ds wid config] assms(1)
  by simp

definition sample_hb :: "u64 \<Rightarrow> u64 \<Rightarrow> heartbeat" where
  "sample_hb ts used = \<lparr>hb_ver = 1, hb_wid = ''w'', hb_url = ''u'', hb_arch = ''x86_64'', hb_backend = ''kvm'', hb_seq = 1, hb_ts = ts,
     hb_caps = \<lparr>rs_vcpus = 8, rs_mem = 8192\<rparr>, hb_used = \<lparr>rs_vcpus = 0, rs_mem = used\<rparr>, hb_running = 0, hb_accepting = True, hb_draining = False,
     hb_net_rx = None, hb_net_tx = None\<rparr>"

theorem heartbeats_order_irrelevant_witness:
  "hb_of (fold (\<lambda>(now, h). upsert now h) [(1, sample_hb 2 0), (2, sample_hb 1 5)] (table_new (config_from_dead_after 5))) ''w'' =
     hb_of (fold (\<lambda>(now, h). upsert now h) [(4, sample_hb 1 5), (5, sample_hb 2 0), (9, sample_hb 1 5)] (table_new (config_from_dead_after 5))) ''w''"
proof -
  have "stamped (set (map snd [(1 :: nat, sample_hb 2 0), (2, sample_hb 1 5)]))" by (simp add: stamped_def sample_hb_def)
  from heartbeats_order_irrelevant [OF _ this, of "[(4, sample_hb 1 5), (5, sample_hb 2 0), (9, sample_hb 1 5)]" "config_from_dead_after 5" "''w''"]
  show ?thesis by auto
qed

text \<open>
  Placement never overcommits a worker. In every state that heartbeats, penalties, placements, their ends and reaping can produce, a placement goes to a
  known worker that is live, accepting, not draining, not penalized and not excluded, and the memory the worker reports in use, the memory of all
  placements still held on it and the new one together are within its capacity, as long as the sums stay below \<open>2 ^ 53\<close>. There is no placement only when
  no listed worker is eligible.
\<close>

theorem pick_within_capacity:
  fixes ops config
  defines "s \<equiv> fold table_step ops (table_new config, [])"
  assumes "pick now order r1 r2 needs exclude (fst s) = (t', found)"
  shows "case found of
     None \<Rightarrow> (\<forall>w\<in>set order. \<forall>e. wt_workers (fst s) w = Some e \<longrightarrow> \<not> eligible now needs exclude (fst s) e)
   | Some p \<Rightarrow> \<exists>e. wt_workers (fst s) (pl_wid p) = Some e \<and> eligible now needs exclude (fst s) e \<and> pl_inflight p = we_inflight e \<and>
       (let held = sum_list (map (\<lambda>q. unat (pl_reserved q)) (filter (\<lambda>q. pl_inflight q = we_inflight e) (snd s)));
            total = unat (rs_mem (hb_used (we_heartbeat e))) + held + unat (pn_mem needs);
            caps = unat (rs_mem (hb_caps (we_heartbeat e)))
        in caps < 2 ^ 53 \<longrightarrow> total < 2 ^ 53 \<longrightarrow> total \<le> caps)"
proof (cases "choose_two r1 r2 (wt_counters (fst s)) (filter (eligible now needs exclude (fst s)) (entries order (fst s)))")
  case None
  then have "found = None" using assms(2) by (simp add: pick_def)
  then show ?thesis using None by (auto simp: choose_none filter_empty_conv entries_mem)
next
  case (Some e)
  have ok: "table_ok s" unfolding s_def by (rule table_run_ok [OF table_new_ok])
  obtain w where w: "wt_workers (fst s) w = Some e" and el: "eligible now needs exclude (fst s) e"
    using choose_mem [OF Some] by (auto simp: entries_mem)
  have wid: "hb_wid (we_heartbeat e) = w" and count: "wt_counters (fst s) (we_inflight e) = reserved_on (we_inflight e) (snd s)"
    using ok w by (auto simp: table_ok_def)
  have "unat (reserved_on (we_inflight e) (snd s)) = sum_list (map (\<lambda>q. unat (pl_reserved q)) (filter (\<lambda>q. pl_inflight q = we_inflight e) (snd s)))"
    if "sum_list (map (\<lambda>q. unat (pl_reserved q)) (filter (\<lambda>q. pl_inflight q = we_inflight e) (snd s))) < 2 ^ 64"
    using sum_unat [OF that] by (simp add: reserved_on_def)
  then show ?thesis
    using assms(2) Some w wid el fits_room [of "wt_counters (fst s)" needs e] count
    by (auto simp: pick_def eligible_def Let_def)
qed

theorem pick_within_capacity_witness:
  "\<exists>e. wt_workers (fst (fold table_step [TUpsert 0 (sample_hb 1 100)] (table_new (config_from_dead_after 5), []))) ''w'' = Some e \<and>
     unat (rs_mem (hb_used (we_heartbeat e))) + 512 \<le> unat (rs_mem (hb_caps (we_heartbeat e)))"
proof -
  let ?t = "fst (fold table_step [TUpsert 0 (sample_hb 1 100)] (table_new (config_from_dead_after 5), []))"
  let ?needs = "\<lparr>pn_cpus = 1, pn_mem = 512, pn_arch = None\<rparr>"
  have "f64_le (f64_div (f64_of_nat 612) (f64_of_nat 8192)) (F_Fin 1)" by (simp add: f64_ratio_iff)
  then have "pick 1 [''w''] 0 0 ?needs [] ?t = (?t\<lparr>wt_counters := (wt_counters ?t)(0 := 512)\<rparr>,
      Some \<lparr>pl_wid = ''w'', pl_url = ''u'', pl_reserved = 512, pl_inflight = 0\<rparr>)"
    by (simp add: pick_def upsert_def table_new_def config_from_dead_after_def sample_hb_def WIRE_VERSION_def entries_def List.map_filter_simps
        eligible_def entry_live_def penalized_def entry_fits_def entry_load_def choose_two_def)
  from pick_within_capacity [OF this [unfolded fst_conv]] show ?thesis
    by (auto simp: upsert_def table_new_def config_from_dead_after_def sample_hb_def WIRE_VERSION_def)
qed

end
