(* ===== verification/Autoscaler.thy ===== *)
theory Autoscaler
  imports OrchTable SortBy
begin

text \<open>
  The autoscaler of \<^verbatim>\<open>vmond/src/orch/autoscaler.rs\<close>: the number of workers wanted for a target memory utilization, the plan with its cooldowns, the choice of workers to drain,
  and what a tick does with a plan. Drain keys and hook invocations are outputs; a failed write or hook is logged by the source and changes
  nothing else.
\<close>

record autoscaler_options =
  ao_min :: nat
  ao_max :: nat
  ao_target_util :: f64
  ao_cooldown_up :: nat
  ao_cooldown_down :: nat
  ao_drain_ttl_ms :: nat
  ao_scale_up_cmd :: "string option"
  ao_scale_down_cmd :: "string option"

text \<open>The default of 0.7 in the source.\<close>

definition DEFAULT_UTIL :: f64 where "DEFAULT_UTIL = f64_round False (7 / 10)"

datatype plan = Hold | Up nat nat | Down nat "string list"

fun f64_ceil :: "f64 \<Rightarrow> f64" where
  "f64_ceil (F_Fin r) = (if ceiling r = 0 \<and> r < 0 then F_NegZero else F_Fin (rat_of_int (ceiling r)))"
| "f64_ceil f = f"

definition scale_desired :: "nat \<Rightarrow> nat \<Rightarrow> nat \<Rightarrow> autoscaler_options \<Rightarrow> nat" where
  "scale_desired live used caps opts =
     (let mx = max (ao_max opts) 1 in
      if live = 0 \<or> caps = 0 then min (max (ao_min opts) 1) mx
      else let target = (if f64_lt (F_Fin 0) (ao_target_util opts) \<and> f64_le (ao_target_util opts) (F_Fin 1) then ao_target_util opts else DEFAULT_UTIL);
               raw = f64_div (f64_mul (f64_of_nat live) (f64_div (f64_of_nat used) (f64_of_nat caps))) target;
               desired = f64_as_u64 (f64_min (f64_max (f64_ceil raw) (F_Fin 0)) (f64_of_nat mx))
           in max (min (ao_min opts) mx) (min desired mx))"

definition cooled :: "nat option \<Rightarrow> nat \<Rightarrow> nat \<Rightarrow> bool" where
  "cooled last_at cooldown now = (case last_at of None \<Rightarrow> True | Some t \<Rightarrow> cooldown \<le> now - t)"

definition drain_before :: "heartbeat \<Rightarrow> heartbeat \<Rightarrow> bool" where
  "drain_before a b \<longleftrightarrow> hb_running a < hb_running b \<or> hb_running a = hb_running b \<and> hb_wid a < hb_wid b"

definition pick_drain :: "heartbeat list \<Rightarrow> nat \<Rightarrow> string list" where
  "pick_drain workers n = map hb_wid (take n (sort_by drain_before workers))"

record autoscaler =
  as_options :: autoscaler_options
  as_last_up :: "nat option"
  as_last_down :: "nat option"

definition autoscaler_new :: "autoscaler_options \<Rightarrow> autoscaler" where
  "autoscaler_new opts = \<lparr>as_options = opts, as_last_up = None, as_last_down = None\<rparr>"

definition scale_plan :: "nat \<Rightarrow> heartbeat list \<Rightarrow> autoscaler \<Rightarrow> plan" where
  "scale_plan now workers a =
     (if ao_max (as_options a) = 0 then Hold
      else let live = length workers;
               used = unat (sum_list (map (\<lambda>h. rs_mem (hb_used h)) workers));
               caps = unat (sum_list (map (\<lambda>h. rs_mem (hb_caps h)) workers));
               desired = scale_desired live used caps (as_options a)
           in if live < desired \<and> cooled (as_last_up a) (ao_cooldown_up (as_options a)) now then Up desired (desired - live)
              else if desired < live \<and> cooled (as_last_down a) (ao_cooldown_down (as_options a)) now
              then Down desired (pick_drain workers (live - desired))
              else Hold)"

text \<open>What a tick asks of the outside: drain keys with their lifetime, and a hook with its environment.\<close>

record hook_run =
  hr_cmd :: string
  hr_desired :: nat
  hr_delta :: int
  hr_live :: nat
  hr_drain :: "string option"
  hr_idle :: "string option"

record tick_effects =
  te_drain_keys :: "(string \<times> nat) list"
  te_hook :: "hook_run option"

fun join_words :: "string list \<Rightarrow> string" where
  "join_words [] = []"
| "join_words [w] = w"
| "join_words (w # ws) = w @ CHR '' '' # join_words ws"

definition drain_key :: "string \<Rightarrow> string" where
  "drain_key wid = ''vmon:o:drain:'' @ wid"

definition scale_tick :: "nat \<Rightarrow> heartbeat list \<Rightarrow> autoscaler \<Rightarrow> autoscaler \<times> tick_effects" where
  "scale_tick now workers a = (case scale_plan now workers a of
     Hold \<Rightarrow> (a, \<lparr>te_drain_keys = [], te_hook = None\<rparr>)
   | Up desired delta \<Rightarrow>
       (a\<lparr>as_last_up := Some now\<rparr>,
        \<lparr>te_drain_keys = [], te_hook = map_option (\<lambda>cmd. \<lparr>hr_cmd = cmd, hr_desired = desired, hr_delta = int delta,
           hr_live = length workers, hr_drain = None, hr_idle = None\<rparr>) (ao_scale_up_cmd (as_options a))\<rparr>)
   | Down desired drain \<Rightarrow>
       let ttl_ms = max (min (ao_drain_ttl_ms (as_options a)) u64_max) 1;
           idle = sort (map hb_wid (filter (\<lambda>h. hb_running h = 0 \<and> (hb_draining h \<or> hb_wid h \<in> set drain)) workers))
       in (a\<lparr>as_last_down := Some now\<rparr>,
           \<lparr>te_drain_keys = map (\<lambda>wid. (drain_key wid, ttl_ms)) drain,
            te_hook = map_option (\<lambda>cmd. \<lparr>hr_cmd = cmd, hr_desired = desired, hr_delta = - int (length drain),
              hr_live = length workers, hr_drain = Some (join_words drain), hr_idle = Some (join_words idle)\<rparr>) (ao_scale_down_cmd (as_options a))\<rparr>))"

section \<open>Laws\<close>

lemma scale_desired_bounds:
  "scale_desired live used caps opts \<le> max (ao_max opts) 1" "min (ao_min opts) (max (ao_max opts) 1) \<le> scale_desired live used caps opts"
  unfolding scale_desired_def Let_def by (cases "live = 0 \<or> caps = 0"; simp)+

lemma scale_desired_max: "ao_max opts \<noteq> 0 \<Longrightarrow> scale_desired live used caps opts \<le> ao_max opts"
  using scale_desired_bounds(1) [of live used caps opts] by (simp add: max_def split: if_splits)

lemma scale_desired_min: "ao_max opts \<noteq> 0 \<Longrightarrow> min (ao_min opts) (ao_max opts) \<le> scale_desired live used caps opts"
  using scale_desired_bounds(2) [of opts live used caps] by (simp add: max_def split: if_splits)

lemma drain_sorted: "sorted_wrt (\<lambda>a b. \<not> drain_before b a) (sort_by drain_before workers)"
  by (rule sort_by_sorted) (auto simp: drain_before_def)

text \<open>The drained and the kept workers, for live workers with distinct names.\<close>

lemma pick_drain_split:
  assumes "distinct (map hb_wid workers)" "n \<le> length workers"
  defines "drained \<equiv> set (take n (sort_by drain_before workers))" and "kept \<equiv> set (drop n (sort_by drain_before workers))"
  shows "length (pick_drain workers n) = n" "distinct (pick_drain workers n)" "set (pick_drain workers n) = hb_wid ` drained"
    "drained \<union> kept = set workers" "drained \<inter> kept = {}" "\<And>d k. d \<in> drained \<Longrightarrow> k \<in> kept \<Longrightarrow> \<not> drain_before k d"
proof -
  let ?s = "sort_by drain_before workers"
  have len: "length ?s = length workers" using arg_cong [OF sort_by_mset, of size] by (metis size_mset)
  have dist: "distinct (map hb_wid ?s)"
    using assms(1) sort_by_mset [of drain_before workers] by (metis mset_eq_imp_distinct_iff mset_map)
  show "length (pick_drain workers n) = n" using assms(2) len by (simp add: pick_drain_def)
  show "distinct (pick_drain workers n)" using distinct_take [OF dist, of n] by (simp add: pick_drain_def take_map)
  show "set (pick_drain workers n) = hb_wid ` drained" by (simp add: pick_drain_def drained_def)
  show "drained \<union> kept = set workers" unfolding drained_def kept_def by (metis append_take_drop_id set_append sort_by_set)
  show "drained \<inter> kept = {}"
    unfolding drained_def kept_def using dist by (simp add: distinct_map set_take_disj_set_drop_if_distinct)
  show "\<And>d k. d \<in> drained \<Longrightarrow> k \<in> kept \<Longrightarrow> \<not> drain_before k d"
    using drain_sorted [of workers] unfolding drained_def kept_def
    by (metis append_take_drop_id sorted_wrt_append)
qed

section \<open>Properties\<close>

text \<open>
  A plan stays within its limits. The fleet wanted lies between the configured bounds (at least one worker as upper bound); growing asks for exactly the
  missing workers; shrinking drains exactly the surplus, each worker once and only workers that are live, keeps the wanted number, and drains nobody that runs
  more sandboxes than a worker it keeps. Both respect the cooldown of their direction, and a tick latches it.
\<close>

theorem scale_plan_within_limits:
  assumes "distinct (map hb_wid workers)"
  shows "case scale_plan now workers a of
     Hold \<Rightarrow> scale_tick now workers a = (a, \<lparr>te_drain_keys = [], te_hook = None\<rparr>)
   | Up desired delta \<Rightarrow> length workers + delta = desired \<and> desired \<le> ao_max (as_options a) \<and> 0 < delta \<and>
       cooled (as_last_up a) (ao_cooldown_up (as_options a)) now \<and> as_last_up (fst (scale_tick now workers a)) = Some now
   | Down desired drain \<Rightarrow> desired + length drain = length workers \<and> min (ao_min (as_options a)) (ao_max (as_options a)) \<le> desired \<and>
       distinct drain \<and> set drain \<subseteq> hb_wid ` set workers \<and>
       (\<forall>d\<in>set workers. \<forall>k\<in>set workers. hb_wid d \<in> set drain \<longrightarrow> hb_wid k \<notin> set drain \<longrightarrow> hb_running d \<le> hb_running k) \<and>
       cooled (as_last_down a) (ao_cooldown_down (as_options a)) now \<and> as_last_down (fst (scale_tick now workers a)) = Some now"
proof (cases "scale_plan now workers a")
  case Hold
  then show ?thesis by (simp add: scale_tick_def)
next
  case (Up desired delta)
  then show ?thesis
    using scale_desired_max [of "as_options a" "length workers"]
    by (auto simp: scale_tick_def scale_plan_def Let_def split: if_splits)
next
  case (Down desired drain)
  define n where "n = length workers - desired"
  have down: "drain = pick_drain workers n" "desired < length workers" "ao_max (as_options a) \<noteq> 0"
      "cooled (as_last_down a) (ao_cooldown_down (as_options a)) now"
      "min (ao_min (as_options a)) (ao_max (as_options a)) \<le> desired"
    using Down scale_desired_min [of "as_options a" "length workers"]
    by (auto simp: scale_plan_def Let_def n_def split: if_splits)
  have n: "n \<le> length workers" by (simp add: n_def)
  note split = pick_drain_split [OF assms n]
  have "hb_running d \<le> hb_running k" if "d \<in> set workers" "k \<in> set workers" "hb_wid d \<in> set drain" "hb_wid k \<notin> set drain" for d k
  proof -
    have inj: "inj_on hb_wid (set workers)" using assms by (simp add: distinct_map)
    have "d \<in> set (take n (sort_by drain_before workers))"
      using that(1,3) split(3,4) inj unfolding down(1) inj_on_def by blast
    moreover have "k \<in> set (drop n (sort_by drain_before workers))" using that(2,4) split(3,4) unfolding down(1) by blast
    ultimately have "\<not> drain_before k d" by (rule split(6))
    then show ?thesis by (auto simp: drain_before_def)
  qed
  moreover have "set drain \<subseteq> hb_wid ` set workers" using split(3,4) unfolding down(1) by blast
  ultimately show ?thesis using Down down split(1,2) by (auto simp: scale_tick_def n_def Let_def)
qed

text \<open>One worker already draining with five sandboxes, one idle and not draining.\<close>

definition sample_fleet :: "heartbeat list" where
  "sample_fleet = [sample_hb 1 0\<lparr>hb_wid := ''old'', hb_running := 5, hb_draining := True\<rparr>, sample_hb 1 0\<lparr>hb_wid := ''new''\<rparr>]"

definition sample_scaler :: autoscaler where
  "sample_scaler = autoscaler_new \<lparr>ao_min = 1, ao_max = 10, ao_target_util = F_Fin 1, ao_cooldown_up = 30, ao_cooldown_down = 300,
     ao_drain_ttl_ms = 900000, ao_scale_up_cmd = None, ao_scale_down_cmd = None\<rparr>"

lemma sample_down: "scale_plan 0 sample_fleet sample_scaler = Down 1 [''new'']"
proof -
  have "scale_desired 2 0 16384 (as_options sample_scaler) = 1"
    by (simp add: scale_desired_def sample_scaler_def autoscaler_new_def f64_of_nat_exact f64_div_def f64_mul_def f64_round_def f64_max_def
        f64_min_def f64_le_def)
  moreover have "pick_drain sample_fleet 1 = [''new'']"
    by (simp add: pick_drain_def sort_by_def sample_fleet_def drain_before_def sample_hb_def)
  moreover have "length sample_fleet = 2" "unat (sum_list (map (\<lambda>h. rs_mem (hb_used h)) sample_fleet)) = 0"
      "unat (sum_list (map (\<lambda>h. rs_mem (hb_caps h)) sample_fleet)) = 16384"
    by (simp_all add: sample_fleet_def sample_hb_def)
  moreover have "ao_max (as_options sample_scaler) = 10" "as_last_down sample_scaler = None" by (simp_all add: sample_scaler_def autoscaler_new_def)
  ultimately show ?thesis by (simp add: scale_plan_def Let_def cooled_def)
qed

theorem scale_plan_within_limits_witness:
  "1 + length [''new''] = length sample_fleet \<and> set [''new''] \<subseteq> hb_wid ` set sample_fleet"
  using scale_plan_within_limits [of sample_fleet 0 sample_scaler] sample_down by (simp add: sample_fleet_def sample_hb_def)

text \<open>
  Draining workers are not drained first. The documentation of the plan says that workers already draining sort first, so that a tick refreshes their drain
  keys instead of draining fresh workers; the order looks at running sandboxes and names only, and a tick puts the drain key on the idle worker while the
  draining one loses its own when it expires.
\<close>

theorem drain_order_ignores_draining:
  "hb_draining (hd sample_fleet) \<and> \<not> hb_draining (last sample_fleet) \<and>
   te_drain_keys (snd (scale_tick 0 sample_fleet sample_scaler)) = [(drain_key (hb_wid (last sample_fleet)), 900000)]"
  using sample_down by (simp add: scale_tick_def Let_def) (simp add: sample_fleet_def sample_scaler_def autoscaler_new_def sample_hb_def)

end
