(* ===== verification/RedisOps.thy ===== *)
theory RedisOps
  imports RedisClient
begin

text \<open>
  The other calls of the client handle in \<^verbatim>\<open>vmond/src/orch/redis.rs\<close>: the endpoint of a URL, probing, deleting, counting, appending to a stream, and the
  pipeline that writes a batch of routes before it reads any reply.
\<close>

section \<open>Endpoints\<close>

record redis_addr =
  ra_authority :: string
  ra_password :: "string option"

definition rsplit_once :: "char \<Rightarrow> string \<Rightarrow> (string \<times> string) option" where
  "rsplit_once c s = map_option (\<lambda>(b, a). (rev a, rev b)) (split_once c (rev s))"

definition strip_prefix :: "string \<Rightarrow> string \<Rightarrow> string option" where
  "strip_prefix p s = (if take (length p) s = p then Some (drop (length p) s) else None)"

definition addr_parse :: "string \<Rightarrow> redis_addr option" where
  "addr_parse url =
     (let rest = (case strip_prefix ''redis://'' url of Some r \<Rightarrow> r | None \<Rightarrow> url);
          (auth, hostpart) = (case rsplit_once (CHR ''@'') rest of Some (a, h) \<Rightarrow> (Some a, h) | None \<Rightarrow> (None, rest));
          password = map_option (\<lambda>a. case split_once (CHR '':'') a of Some (_, p) \<Rightarrow> p | None \<Rightarrow> a) auth;
          hostpart = hd (split_on (CHR ''/'') hostpart)
      in if hostpart = [] then None
         else Some \<lparr>ra_authority = (if CHR '':'' \<in> set hostpart then hostpart else hostpart @ '':6379''),
                    ra_password = (case password of Some p \<Rightarrow> if p = [] then None else Some p | None \<Rightarrow> None)\<rparr>)"

section \<open>Calls\<close>

definition redis_ping :: "nat \<Rightarrow> fate \<times> fate \<Rightarrow> store \<Rightarrow> store \<times> (resp_error + unit)" where
  "redis_ping now fates st = (case redis_call [] now 0 fates [''PING''] st of (st, r) \<Rightarrow> (st, rbind r (\<lambda>_. Inr ())))"

definition redis_del :: "nat \<Rightarrow> fate \<times> fate \<Rightarrow> string \<Rightarrow> store \<Rightarrow> store \<times> (resp_error + unit)" where
  "redis_del now fates key st = (case redis_call [] now 0 fates [''DEL'', key] st of (st, r) \<Rightarrow> (st, rbind r (\<lambda>_. Inr ())))"

definition redis_incr_by :: "nat \<Rightarrow> fate \<times> fate \<Rightarrow> string \<Rightarrow> nat \<Rightarrow> store \<Rightarrow> store \<times> (resp_error + int)" where
  "redis_incr_by now fates key delta st = (case redis_call [] now 0 fates [''INCRBY'', key, dec_digits delta] st of
     (st, r) \<Rightarrow> (st, rbind r (\<lambda>v. case v of RInt i \<Rightarrow> Inr i | _ \<Rightarrow> Inl RespType)))"

definition redis_xadd :: "nat \<Rightarrow> nat \<Rightarrow> fate \<times> fate \<Rightarrow> string \<Rightarrow> nat \<Rightarrow> string \<Rightarrow> store \<Rightarrow> store \<times> (resp_error + string)" where
  "redis_xadd now ms fates stream maxlen payload st =
     (case redis_call [] now ms fates [''XADD'', stream, ''MAXLEN'', ''~'', dec_digits maxlen, ''*'', ''d'', payload] st of
        (st, r) \<Rightarrow> (st, rbind r (\<lambda>v. case resp_into_string v of Some i \<Rightarrow> Inr i | None \<Rightarrow> Inl RespType)))"

section \<open>The pipeline\<close>

text \<open>
  The replies of a batch: an error reply is remembered and reading goes on, any other failure ends it. (An error inside an array, which no reply to
  \<^verbatim>\<open>SET\<close> has, ends it here too.)
\<close>

fun receive_each :: "nat \<Rightarrow> string \<Rightarrow> resp_error option \<Rightarrow> resp_error + unit" where
  "receive_each 0 s redis_error = (case redis_error of None \<Rightarrow> Inr () | Some e \<Rightarrow> Inl e)"
| "receive_each (Suc n) s redis_error = (case read_line s of
     Inr (CHR ''-'' # e, rest) \<Rightarrow> receive_each n rest (case redis_error of None \<Rightarrow> Some (RespServer e) | Some _ \<Rightarrow> redis_error)
   | _ \<Rightarrow> (case receive s of Inl e \<Rightarrow> Inl e | Inr (_, rest) \<Rightarrow> receive_each n rest redis_error))"

definition pipeline_frames :: "(string \<times> string) list \<Rightarrow> nat \<Rightarrow> string" where
  "pipeline_frames items px = concat (map (\<lambda>(key, value). encode_command [''SET'', key, value, ''PX'', dec_digits px]) items)"

text \<open>An attempt is served, fails to connect, or fails after the server has read some of its commands.\<close>

datatype pipe_fate = PipeServed | PipeDialFailed | PipeCut nat

fun pipeline_attempts :: "nat \<Rightarrow> (string \<times> string) list \<Rightarrow> nat \<Rightarrow> pipe_fate list \<Rightarrow> store \<Rightarrow> store \<times> (resp_error + unit)" where
  "pipeline_attempts now items px [] st = (st, Inl RespRead)"
| "pipeline_attempts now items px (f # fs) st = (case f of
     PipeDialFailed \<Rightarrow> (st, Inl RespRead)
   | PipeCut n \<Rightarrow> pipeline_attempts now items px fs (fst (serve_connection [] now 0 (pipeline_frames (take n items) px) st))
   | PipeServed \<Rightarrow>
       (case serve_connection [] now 0 (pipeline_frames items px) st of
          (st, out) \<Rightarrow>
            (case receive_each (length items) out None of
               Inr _ \<Rightarrow> (st, Inr ())
             | Inl (RespServer e) \<Rightarrow> (st, Inl (RespServer e))
             | Inl _ \<Rightarrow> pipeline_attempts now items px fs st)))"

definition redis_set_px_pipeline :: "nat \<Rightarrow> pipe_fate \<times> pipe_fate \<Rightarrow> (string \<times> string) list \<Rightarrow> nat \<Rightarrow> store \<Rightarrow> store \<times> (resp_error + unit)" where
  "redis_set_px_pipeline now fates items px st =
     (if items = [] then (st, Inr ()) else pipeline_attempts now items px [fst fates, snd fates] st)"

section \<open>What a batch does\<close>

definition batch_ok :: "(string \<times> string) list \<Rightarrow> bool" where
  "batch_ok items \<longleftrightarrow> list_all (\<lambda>(key, value). key_ok key \<and> length value \<le> MAX_ARG_BYTES) items"

definition put_all :: "nat \<Rightarrow> (string \<times> string) list \<Rightarrow> store \<Rightarrow> store" where
  "put_all deadline items = fold (\<lambda>(key, value). kv_put key \<lparr>kv_value = value, kv_expires = Some deadline\<rparr>) items"

lemma put_all_simps [simp]:
  "put_all d [] st = st"
  "put_all d ((key, value) # items) st = put_all d items (kv_put key \<lparr>kv_value = value, kv_expires = Some d\<rparr> st)"
  by (simp_all add: put_all_def)

lemma put_all_streams [simp]: "st_streams (put_all d items st) = st_streams st"
  by (induction items arbitrary: st) auto

text \<open>The last value of each key wins.\<close>

lemma put_all_kv:
  "st_kv (put_all d items st) key = (case map_of (rev items) key of
     Some value \<Rightarrow> Some \<lparr>kv_value = value, kv_expires = Some d\<rparr> | None \<Rightarrow> st_kv st key)"
  by (induction items arbitrary: st) (auto simp: map_add_def split: option.splits)

lemma put_all_again: "put_all d items (put_all d (take n items) st) = put_all d items st"
proof -
  have "st_kv (put_all d items (put_all d (take n items) st)) key = st_kv (put_all d items st) key" for key
  proof (cases "map_of (rev items) key")
    case None
    then have "key \<notin> fst ` set (take n items)" by (auto simp: map_of_eq_None_iff dest: in_set_takeD)
    then have "map_of (rev (take n items)) key = None" by (auto simp: map_of_eq_None_iff)
    then show ?thesis using None by (simp add: put_all_kv)
  qed (simp add: put_all_kv)
  then have "st_kv (put_all d items (put_all d (take n items) st)) = st_kv (put_all d items st)" by (rule ext)
  then show ?thesis by (intro store.equality) simp_all
qed

lemma read_frame_then:
  assumes "args_ok args"
  shows "read_command (encode_command args @ rest) = Inr (Some args, rest)"
  using assms read_args_encoded [of args rest] by (simp add: args_ok_def read_command_def encode_command_def read_int_line_dec)

lemma set_dispatched:
  assumes "key_ok key" "length value \<le> MAX_ARG_BYTES" "px \<le> u64_max"
  shows "dispatch order now ms [''SET'', key, value, ''PX'', dec_digits px] st =
    (kv_put key \<lparr>kv_value = value, kv_expires = Some (now + px * 1000000)\<rparr> st, RpSimple ''OK'')"
  using assms by (auto simp: call_defs digits_arg split: option.split)

lemma serve_batch:
  assumes "batch_ok items" "px \<le> u64_max"
  shows "serve_connection [] now 0 (pipeline_frames items px) st =
    (put_all (now + px * 1000000) items st, concat (map (\<lambda>_. encode_reply (RpSimple ''OK'')) items))"
  using assms(1)
proof (induction items arbitrary: st)
  case Nil
  show ?case by (subst serve_connection.simps) (simp add: pipeline_frames_def read_command_def)
next
  case (Cons it items)
  obtain key v where it: "it = (key, v)" by (cases it)
  have ok: "key_ok key" "length v \<le> MAX_ARG_BYTES" "batch_ok items" using Cons.prems by (simp_all add: it batch_ok_def)
  let ?args = "[''SET'', key, v, ''PX'', dec_digits px]"
  have "args_ok ?args" using ok assms(2) short_names digits_short [OF assms(2)] by (simp add: args_ok_def key_ok_def)
  then have "read_command (pipeline_frames (it # items) px) = Inr (Some ?args, pipeline_frames items px)"
    using read_frame_then [of ?args "pipeline_frames items px"] by (simp add: it pipeline_frames_def)
  then show ?case
    using Cons.IH [OF ok(3)] set_dispatched [OF ok(1,2) assms(2)]
    by (subst serve_connection.simps) (simp add: it)
qed

lemma receive_ok: "receive (encode_reply (RpSimple ''OK'') @ rest) = Inr (RSimple ''OK'', rest)"
  using receive_encoded [of "[RpSimple ''OK'']" rest] by (simp add: receive_def)

lemma receive_batch: "receive_each n (concat (replicate n (encode_reply (RpSimple ''OK'')))) None = Inr ()"
proof (induction n)
  case (Suc n)
  have "read_line (encode_reply (RpSimple ''OK'') @ rest) = Inr (''+OK'', rest)" for rest
    using take_line_append [of "''+OK''" rest] by (simp add: read_line_def)
  then show ?case using Suc receive_ok by simp
qed simp

lemma attempt_served:
  assumes "batch_ok items" "px \<le> u64_max"
  shows "pipeline_attempts now items px (PipeServed # fs) st = (put_all (now + px * 1000000) items st, Inr ())"
  using serve_batch [OF assms, of now st] receive_batch [of "length items"] by (simp add: map_replicate_const)

text \<open>Counting: the value a key holds when it counts.\<close>

lemma no_blank_trim: "list_all (\<lambda>c. \<not> is_whitespace c) s \<Longrightarrow> trim s = s"
proof -
  assume a: "list_all (\<lambda>c. \<not> is_whitespace c) s"
  have "dropWhile is_whitespace t = t" if "set t \<subseteq> set s" for t using a that by (cases t) (auto simp: list_all_iff)
  then show ?thesis by (simp add: trim_def)
qed

lemma trim_int_digits: "trim (int_digits i) = int_digits i"
proof (rule no_blank_trim)
  have "is_digit c \<Longrightarrow> \<not> is_whitespace c" for c by (auto simp: is_digit_def is_whitespace_def less_eq_char_def)
  then have "list_all (\<lambda>c. \<not> is_whitespace c) (dec_digits n)" for n using dec_digits_digits [of n] by (auto simp: list_all_iff)
  moreover have "\<not> is_whitespace CHR ''-''" by code_simp
  ultimately show "list_all (\<lambda>c. \<not> is_whitespace c) (int_digits i)" by (simp add: int_digits_def)
qed

definition counts :: "store \<Rightarrow> string \<Rightarrow> int \<Rightarrow> bool" where
  "counts st key c \<longleftrightarrow> (case st_kv st key of None \<Rightarrow> c = 0 | Some e \<Rightarrow> e = \<lparr>kv_value = int_digits c, kv_expires = None\<rparr>) \<and> i64_min \<le> c \<and> c \<le> i64_max"

lemma incrby_dispatched:
  assumes "key_ok key" "int delta \<le> i64_max" "counts st key c"
  shows "dispatch [] now 0 [''INCRBY'', key, dec_digits delta] st =
    (kv_put key \<lparr>kv_value = int_digits (sat_add_i64 c (int delta)), kv_expires = None\<rparr> st, RpInt (sat_add_i64 c (int delta)))"
proof -
  have names: "to_upper (utf8_lossy ''INCRBY'') = ''INCRBY''" by code_simp
  have zero: "utf8_valid ''0''" "parse_i64 (trim ''0'') = Some 0" by code_simp+
  have "parse_i64 (trim (int_digits c)) = Some c" using assms(3) by (simp add: trim_int_digits parse_i64_int_digits counts_def)
  moreover have "utf8_valid (int_digits c)" "utf8_valid (dec_digits delta)" by (simp_all add: utf8_valid_ascii ascii_int_digits digits_ascii)
  ultimately show ?thesis
    using assms names zero parse_i64_dec [OF assms(2)]
    by (auto simp: dispatch_def cmd_incrby_def text_arg_def key_ok_def counts_def kv_live_def Let_def split: option.splits)
qed

lemma exchange_incrby:
  assumes "key_ok key" "int delta \<le> i64_max" "counts st key c"
  shows "exchange [] now 0 [''INCRBY'', key, dec_digits delta] st =
    (kv_put key \<lparr>kv_value = int_digits (sat_add_i64 c (int delta)), kv_expires = None\<rparr> st, Inr (RInt (sat_add_i64 c (int delta))))"
proof -
  have "args_ok [''INCRBY'', key, dec_digits delta]"
    using assms(1,2) digits_short [of delta] by (simp add: args_ok_def key_ok_def MAX_ARG_BYTES_def)
  then show ?thesis using exchange_dispatch [OF _ incrby_dispatched [OF assms]] by (simp add: sat_add_i64_def)
qed

section \<open>Properties\<close>

text \<open>
  A batch of routes survives a broken connection. When an attempt fails after any number of its commands has reached the server and
  the second attempt is served, the call succeeds and the store is what one undisturbed attempt leaves: every key of the batch has its last value and the lifetime asked
  for, and every other key is as before.
\<close>

theorem pipeline_persists:
  assumes "batch_ok items" "px \<le> u64_max"
    and "fates = (PipeServed, later) \<or> fates = (PipeCut n, PipeServed)"
  shows "\<exists>st'. redis_set_px_pipeline now fates items px st = (st', Inr ()) \<and>
    (\<forall>key. st_kv st' key = (case map_of (rev items) key of
       Some value \<Rightarrow> Some \<lparr>kv_value = value, kv_expires = Some (now + px * 1000000)\<rparr> | None \<Rightarrow> st_kv st key))"
proof -
  let ?st = "put_all (now + px * 1000000) items st"
  have "batch_ok (take n items)" using assms(1) by (auto simp: batch_ok_def list_all_iff dest: in_set_takeD)
  then have cut: "fst (serve_connection [] now 0 (pipeline_frames (take n items) px) st) = put_all (now + px * 1000000) (take n items) st"
    using serve_batch assms(2) by simp
  have "redis_set_px_pipeline now fates items px st = (?st, Inr ())"
    using assms(3)
  proof
    assume "fates = (PipeServed, later)"
    then show ?thesis using attempt_served [OF assms(1,2)] by (simp add: redis_set_px_pipeline_def del: pipeline_attempts.simps)
  next
    assume f: "fates = (PipeCut n, PipeServed)"
    have "pipeline_attempts now items px [PipeCut n, PipeServed] st =
        pipeline_attempts now items px [PipeServed] (put_all (now + px * 1000000) (take n items) st)" using cut by simp
    also have "\<dots> = (?st, Inr ())" using attempt_served [OF assms(1,2)] put_all_again by metis
    finally show ?thesis using f by (simp add: redis_set_px_pipeline_def del: pipeline_attempts.simps)
  qed
  then show ?thesis using put_all_kv by blast
qed

theorem pipeline_persists_witness:
  "\<exists>st'. redis_set_px_pipeline 7 (PipeCut 1, PipeServed) [(''a'', ''1''), (''a'', ''2'')] 3 store_empty = (st', Inr ()) \<and>
    map_option kv_value (st_kv st' ''a'') = Some ''2'' \<and> st_kv st' ''b'' = None"
proof -
  have "batch_ok [(''a'', ''1''), (''a'', ''2'')]" by (simp add: batch_ok_def key_ok_def MAX_ARG_BYTES_def)
  then obtain st' where "redis_set_px_pipeline 7 (PipeCut 1, PipeServed) [(''a'', ''1''), (''a'', ''2'')] 3 store_empty = (st', Inr ())"
    "\<forall>key. st_kv st' key = (case map_of (rev [(''a'', ''1''), (''a'', ''2'')]) key of
       Some value \<Rightarrow> Some \<lparr>kv_value = value, kv_expires = Some (7 + 3 * 1000000)\<rparr> | None \<Rightarrow> st_kv store_empty key)"
    using pipeline_persists [of "[(''a'', ''1''), (''a'', ''2'')]" 3 "(PipeCut 1, PipeServed)" PipeServed 1 7 store_empty] by auto
  then show ?thesis by (simp add: store_empty_def)
qed

text \<open>
  A lost reply counts twice. Every command is retried once after a transport failure, also one that is not idempotent: when the server counts and only its reply is lost, the
  second attempt counts again, and the call reports success.
\<close>

theorem incr_by_lost_reply:
  assumes "key_ok key" "int delta \<le> i64_max" "counts st key c"
  shows "snd (redis_incr_by now (Served, Served) key delta st) = Inr (sat_add_i64 c (int delta)) \<and>
    snd (redis_incr_by now (LostReply, Served) key delta st) = Inr (sat_add_i64 (sat_add_i64 c (int delta)) (int delta))"
proof -
  let ?c = "sat_add_i64 c (int delta)"
  let ?st = "kv_put key \<lparr>kv_value = int_digits ?c, kv_expires = None\<rparr> st"
  have "counts ?st key ?c" by (simp add: counts_def sat_add_i64_def)
  then show ?thesis
    using exchange_incrby [OF assms] exchange_incrby [OF assms(1,2), of ?st ?c] by (simp add: redis_incr_by_def redis_call_def)
qed

theorem incr_by_lost_reply_witness:
  "snd (redis_incr_by 0 (Served, Served) ''created'' 3 store_empty) = Inr 3 \<and>
   snd (redis_incr_by 0 (LostReply, Served) ''created'' 3 store_empty) = Inr 6"
proof -
  have "key_ok ''created''" "counts store_empty ''created'' 0"
    by (simp_all add: key_ok_def MAX_ARG_BYTES_def counts_def store_empty_def)
  then show ?thesis using incr_by_lost_reply [of "''created''" 3 store_empty 0 0] by (simp add: sat_add_i64_def)
qed

end
