(* ===== verification/Controller.thy ===== *)
theory Controller
  imports RedisOps OrchTable
begin

text \<open>
  The janitor of \<^verbatim>\<open>vmond/src/orch/controller.rs\<close>: reading every sandbox route, marking the routes of a dead worker lost, sweeping routes of workers nobody knows,
  and the tick that does both; with the routes and keys of \<^verbatim>\<open>orch/mod.rs\<close>. The JSON text of a route (\<^verbatim>\<open>serde_json\<close>), the fate of each request and the order in which
  the server lists its keys are arguments. A pass runs at one instant of the server's clock (\<open>now\<close>, nanoseconds) and of the wall clock (\<open>ms\<close>).
\<close>

section \<open>Routes\<close>

record sandbox_route =
  sr_sid :: string
  sr_wid :: string
  sr_url :: string
  sr_state :: string
  sr_ts :: nat
  sr_result :: "int option"

definition SANDBOX_PREFIX :: string where "SANDBOX_PREFIX = ''vmon:o:sb:''"

definition sandbox_key :: "string \<Rightarrow> string" where "sandbox_key sid = ''vmon:o:sb:'' @ sid"

definition STATE_LOST :: string where "STATE_LOST = ''lost''"

definition ROUTE_TTL_MS :: nat where "ROUTE_TTL_MS = 24 * 60 * 60 * 1000"

definition is_live_state :: "string \<Rightarrow> bool" where
  "is_live_state state \<longleftrightarrow> state = ''running'' \<or> state = ''paused''"

type_synonym route_codec = "(sandbox_route \<Rightarrow> string) \<times> (string \<Rightarrow> sandbox_route option)"

text \<open>What the transport does in one pass: the turns of the scan, and the read and the write of each key.\<close>

record pass_env =
  pe_scan :: "nat \<Rightarrow> (fate \<times> fate) \<times> string list"
  pe_get :: "string \<Rightarrow> fate \<times> fate"
  pe_set :: "string \<Rightarrow> fate \<times> fate"

fun read_routes :: "route_codec \<Rightarrow> nat \<Rightarrow> (string \<Rightarrow> fate \<times> fate) \<Rightarrow> string list \<Rightarrow> store \<Rightarrow> store \<times> (string \<times> sandbox_route) list" where
  "read_routes codec now fates [] st = (st, [])"
| "read_routes codec now fates (key # keys) st =
     (case redis_get now (fates key) key st of (st, r) \<Rightarrow>
        (case read_routes codec now fates keys st of (st, routes) \<Rightarrow>
           (st, case r of
              Inr (Some bytes) \<Rightarrow> (case snd codec bytes of Some route \<Rightarrow> (key, route) # routes | None \<Rightarrow> routes)
            | _ \<Rightarrow> routes)))"

definition scan_routes :: "route_codec \<Rightarrow> nat \<Rightarrow> pass_env \<Rightarrow> store \<Rightarrow> (store \<times> (resp_error + (string \<times> sandbox_route) list)) option" where
  "scan_routes codec now env st = (case redis_scan_prefix now (pe_scan env) SANDBOX_PREFIX st of
     None \<Rightarrow> None
   | Some (st, Inl e) \<Rightarrow> Some (st, Inl e)
   | Some (st, Inr keys) \<Rightarrow> (case read_routes codec now (pe_get env) keys st of (st, routes) \<Rightarrow> Some (st, Inr routes)))"

definition write_route :: "route_codec \<Rightarrow> nat \<Rightarrow> fate \<times> fate \<Rightarrow> string \<Rightarrow> sandbox_route \<Rightarrow> store \<Rightarrow> store \<times> (resp_error + unit)" where
  "write_route codec now fates key route st = redis_set_px now fates key (fst codec route) ROUTE_TTL_MS st"

definition lost :: "nat \<Rightarrow> sandbox_route \<Rightarrow> sandbox_route" where
  "lost ms route = route\<lparr>sr_state := STATE_LOST, sr_ts := ms\<rparr>"

section \<open>Marking and sweeping\<close>

text \<open>A failed write ends the marking.\<close>

fun mark_loop :: "route_codec \<Rightarrow> nat \<Rightarrow> nat \<Rightarrow> pass_env \<Rightarrow> string \<Rightarrow> (string \<times> sandbox_route) list \<Rightarrow> nat \<Rightarrow> store \<Rightarrow> store \<times> (resp_error + nat)" where
  "mark_loop codec now ms env wid [] n st = (st, Inr n)"
| "mark_loop codec now ms env wid ((key, route) # routes) n st =
     (if sr_wid route \<noteq> wid \<or> \<not> is_live_state (sr_state route) then mark_loop codec now ms env wid routes n st
      else case write_route codec now (pe_set env key) key (lost ms route) st of
        (st, Inl e) \<Rightarrow> (st, Inl e)
      | (st, Inr _) \<Rightarrow> mark_loop codec now ms env wid routes (n + 1) st)"

definition mark_worker_lost :: "route_codec \<Rightarrow> nat \<Rightarrow> nat \<Rightarrow> pass_env \<Rightarrow> string \<Rightarrow> store \<Rightarrow> (store \<times> (resp_error + nat)) option" where
  "mark_worker_lost codec now ms env wid st = (case scan_routes codec now env st of
     None \<Rightarrow> None
   | Some (st, Inl e) \<Rightarrow> Some (st, Inl e)
   | Some (st, Inr routes) \<Rightarrow> Some (mark_loop codec now ms env wid routes 0 st))"

text \<open>The sweep skips routes it cannot write.\<close>

fun sweep_loop :: "route_codec \<Rightarrow> nat \<Rightarrow> nat \<Rightarrow> pass_env \<Rightarrow> string set \<Rightarrow> worker_table \<Rightarrow> (string \<times> sandbox_route) list \<Rightarrow> nat \<Rightarrow> store \<Rightarrow> store \<times> nat" where
  "sweep_loop codec now ms env known t [] n st = (st, n)"
| "sweep_loop codec now ms env known t ((key, route) # routes) n st =
     (if \<not> is_live_state (sr_state route) \<or> sr_wid route \<in> known \<or> url_of (sr_wid route) t \<noteq> None
      then sweep_loop codec now ms env known t routes n st
      else case write_route codec now (pe_set env key) key (lost ms route) st of
        (st, Inl e) \<Rightarrow> sweep_loop codec now ms env known t routes n st
      | (st, Inr _) \<Rightarrow> sweep_loop codec now ms env known t routes (n + 1) st)"

definition sweep_orphans :: "route_codec \<Rightarrow> nat \<Rightarrow> nat \<Rightarrow> pass_env \<Rightarrow> nat \<Rightarrow> string list \<Rightarrow> worker_table \<Rightarrow> store \<Rightarrow> (store \<times> (resp_error + nat)) option" where
  "sweep_orphans codec now ms env instant order t st = (case scan_routes codec now env st of
     None \<Rightarrow> None
   | Some (st, Inl e) \<Rightarrow> Some (st, Inl e)
   | Some (st, Inr routes) \<Rightarrow>
       (case sweep_loop codec now ms env (set (map hb_wid (table_live instant order t))) t routes 0 st of (st, n) \<Rightarrow> Some (st, Inr n)))"

text \<open>A tick marks the workers that the table gives up, one pass each, and sweeps when a minute has gone by.\<close>

definition ORPHAN_SWEEP_INTERVAL :: nat where "ORPHAN_SWEEP_INTERVAL = 60 * 1000000000"

fun mark_all :: "route_codec \<Rightarrow> nat \<Rightarrow> nat \<Rightarrow> (string \<Rightarrow> pass_env) \<Rightarrow> heartbeat list \<Rightarrow> nat \<Rightarrow> store \<Rightarrow> (store \<times> (resp_error + nat)) option" where
  "mark_all codec now ms envs [] n st = Some (st, Inr n)"
| "mark_all codec now ms envs (h # hs) n st = (case mark_worker_lost codec now ms (envs (hb_wid h)) (hb_wid h) st of
     None \<Rightarrow> None
   | Some (st, Inl e) \<Rightarrow> Some (st, Inl e)
   | Some (st, Inr k) \<Rightarrow> mark_all codec now ms envs hs (n + k) st)"

record controller =
  ct_table :: worker_table
  ct_last_sweep :: "nat option"

definition controller_tick :: "route_codec \<Rightarrow> nat \<Rightarrow> nat \<Rightarrow> (string \<Rightarrow> pass_env) \<Rightarrow> pass_env \<Rightarrow> nat \<Rightarrow> string list \<Rightarrow> controller \<Rightarrow> store \<Rightarrow>
    (controller \<times> store \<times> (resp_error + nat)) option" where
  "controller_tick codec now ms envs sweep_env instant order c st =
     (case reap instant order (ct_table c) of (t, dead) \<Rightarrow>
        let c = c\<lparr>ct_table := t\<rparr> in
        (case mark_all codec now ms envs dead 0 st of
           None \<Rightarrow> None
         | Some (st, Inl e) \<Rightarrow> Some (c, st, Inl e)
         | Some (st, Inr n) \<Rightarrow>
             if (case ct_last_sweep c of None \<Rightarrow> True | Some t0 \<Rightarrow> ORPHAN_SWEEP_INTERVAL \<le> instant - t0)
             then (case sweep_orphans codec now ms sweep_env instant order t st of
                 None \<Rightarrow> None
               | Some (st, r) \<Rightarrow> Some (c\<lparr>ct_last_sweep := Some instant\<rparr>, st, rbind r (\<lambda>k. Inr (n + k))))
             else Some (c, st, Inr n)))"

section \<open>Requests under any transport\<close>

definition route_at :: "route_codec \<Rightarrow> nat \<Rightarrow> string \<Rightarrow> store \<Rightarrow> sandbox_route option" where
  "route_at codec now key st = Option.bind (kv_at now key st) (\<lambda>e. snd codec (kv_value e))"

abbreviation lost_entry :: "route_codec \<Rightarrow> nat \<Rightarrow> nat \<Rightarrow> sandbox_route \<Rightarrow> kv_entry" where
  "lost_entry codec now ms route \<equiv> \<lparr>kv_value = fst codec (lost ms route), kv_expires = Some (now + ROUTE_TTL_MS * 1000000)\<rparr>"

lemma get_live:
  assumes "key_ok key" "store_ok st" "kv_at now key st = Some e"
  obtains r where "redis_get now fates key st = (st, r)" "r = Inr (Some (kv_value e)) \<or> (\<exists>x. r = Inl x)"
    "answered fates \<Longrightarrow> r = Inr (Some (kv_value e))"
proof -
  have "exchange [] now 0 [''GET'', key] st = (st, Inr (RBulk (kv_value e)))"
    using exchange_get [OF assms(1,2), of "[]" now 0] assms(3) by simp
  then show thesis
    using that by (cases "fst fates"; cases "snd fates") (simp_all add: redis_get_def redis_call_def answered_def)
qed

lemma write_any:
  assumes "key_ok key" "length (fst codec (lost ms route)) \<le> MAX_ARG_BYTES"
  obtains r where "write_route codec now fates key (lost ms route) st = (kv_put key (lost_entry codec now ms route) st, r)" "answered fates \<Longrightarrow> r = Inr ()"
  | x where "write_route codec now fates key (lost ms route) st = (st, Inl x)" "\<not> answered fates"
proof -
  have "ROUTE_TTL_MS \<le> u64_max" by (simp add: ROUTE_TTL_MS_def)
  then have "exchange [] now 0 [''SET'', key, fst codec (lost ms route), ''PX'', dec_digits ROUTE_TTL_MS] s =
      (kv_put key (lost_entry codec now ms route) s, Inr (RSimple ''OK''))" for s
    using exchange_set [OF assms] by simp
  then show thesis
    using that by (cases "fst fates"; cases "snd fates") (simp_all add: write_route_def redis_set_px_def redis_call_def answered_def)
qed

section \<open>Reading\<close>

lemma read_routes_live:
  assumes "store_ok st" "\<forall>key\<in>set keys. key_ok key \<and> kv_at now key st \<noteq> None"
  shows "\<exists>routes. read_routes codec now fates keys st = (st, routes) \<and>
    (\<forall>(key, route)\<in>set routes. key \<in> set keys \<and> route_at codec now key st = Some route) \<and>
    ((\<forall>key. answered (fates key)) \<longrightarrow> (\<forall>key\<in>set keys. \<forall>route. route_at codec now key st = Some route \<longrightarrow> (key, route) \<in> set routes))"
  using assms(2)
proof (induction keys)
  case (Cons key keys)
  then obtain routes where IH: "read_routes codec now fates keys st = (st, routes)"
      "\<forall>(key, route)\<in>set routes. key \<in> set keys \<and> route_at codec now key st = Some route"
      "(\<forall>key. answered (fates key)) \<longrightarrow> (\<forall>key\<in>set keys. \<forall>route. route_at codec now key st = Some route \<longrightarrow> (key, route) \<in> set routes)"
    by auto
  obtain e where e: "kv_at now key st = Some e" "key_ok key" using Cons.prems by auto
  then have at_key: "route_at codec now key st = snd codec (kv_value e)" by (simp add: route_at_def)
  obtain r where r: "redis_get now (fates key) key st = (st, r)" "r = Inr (Some (kv_value e)) \<or> (\<exists>x. r = Inl x)"
      "answered (fates key) \<Longrightarrow> r = Inr (Some (kv_value e))"
    using get_live [OF e(2) assms(1) e(1)] by metis
  define routes' where "routes' = (case r of Inr (Some bytes) \<Rightarrow> (case snd codec bytes of Some route \<Rightarrow> (key, route) # routes | None \<Rightarrow> routes) | _ \<Rightarrow> routes)"
  have "read_routes codec now fates (key # keys) st = (st, routes')" using r(1) IH(1) by (simp add: routes'_def)
  moreover have "\<forall>(k, route)\<in>set routes'. k \<in> set (key # keys) \<and> route_at codec now k st = Some route"
    using r(2) IH(2) at_key by (auto simp: routes'_def split: option.splits)
  moreover have "\<forall>k\<in>set (key # keys). \<forall>route. route_at codec now k st = Some route \<longrightarrow> (k, route) \<in> set routes'" if "\<forall>key. answered (fates key)"
  proof -
    have "r = Inr (Some (kv_value e))" using r(3) that by blast
    then show ?thesis using IH(3) that at_key by (auto simp: routes'_def split: option.splits)
  qed
  ultimately show ?case by blast
qed simp

text \<open>A pass whose requests are all answered and whose listing has every live route key.\<close>

definition calm :: "nat \<Rightarrow> pass_env \<Rightarrow> store \<Rightarrow> bool" where
  "calm now env st \<longleftrightarrow> answered (fst (pe_scan env 0)) \<and> (\<forall>key. answered (pe_get env key) \<and> answered (pe_set env key)) \<and>
     (\<forall>key. kv_at now key st \<noteq> None \<longrightarrow> take (length SANDBOX_PREFIX) key = SANDBOX_PREFIX \<longrightarrow> key \<in> set (snd (pe_scan env 0)))"

definition is_route_key :: "string \<Rightarrow> bool" where
  "is_route_key key \<longleftrightarrow> take (length SANDBOX_PREFIX) key = SANDBOX_PREFIX"

lemma scan_routes_result:
  assumes "store_ok st" "listing_ok (snd (pe_scan env 0))"
  obtains x where "scan_routes codec now env st = Some (st, Inl x)" "\<not> calm now env st"
  | routes where "scan_routes codec now env st = Some (st, Inr routes)"
    "\<forall>(key, route)\<in>set routes. key_ok key \<and> is_route_key key \<and> route_at codec now key st = Some route"
    "calm now env st \<Longrightarrow> \<forall>key route. is_route_key key \<longrightarrow> route_at codec now key st = Some route \<longrightarrow> (key, route) \<in> set routes"
proof -
  let ?keys = "scan_matches now SANDBOX_PREFIX st (snd (pe_scan env 0))"
  have "key_ok (SANDBOX_PREFIX @ ''*'')" by (simp add: key_ok_def SANDBOX_PREFIX_def MAX_ARG_BYTES_def)
  then obtain r where r: "redis_scan_prefix now (pe_scan env) SANDBOX_PREFIX st = Some (st, r)" "r = Inr ?keys \<or> (\<exists>e. r = Inl e)"
      "answered (fst (pe_scan env 0)) \<Longrightarrow> r = Inr ?keys"
    using scan_prefix_result [of SANDBOX_PREFIX "pe_scan env" now st] assms(2) by blast
  have keys: "\<forall>key\<in>set ?keys. key_ok key \<and> kv_at now key st \<noteq> None \<and> is_route_key key"
    using assms(2) by (auto simp: listing_ok_def list_all_iff is_route_key_def scan_matches_def)
  then obtain routes where routes: "read_routes codec now (pe_get env) ?keys st = (st, routes)"
      "\<forall>(key, route)\<in>set routes. key \<in> set ?keys \<and> route_at codec now key st = Some route"
      "(\<forall>key. answered (pe_get env key)) \<longrightarrow> (\<forall>key\<in>set ?keys. \<forall>route. route_at codec now key st = Some route \<longrightarrow> (key, route) \<in> set routes)"
    using read_routes_live [OF assms(1), of ?keys now codec "pe_get env"] by blast
  show thesis
  proof (cases r)
    case (Inl x)
    then show ?thesis using that(1) [of x] r(1,3) by (auto simp: scan_routes_def calm_def)
  next
    case (Inr ks)
    then have "scan_routes codec now env st = Some (st, Inr routes)" using r(1,2) routes(1) by (auto simp: scan_routes_def)
    moreover have "\<forall>(key, route)\<in>set routes. key_ok key \<and> is_route_key key \<and> route_at codec now key st = Some route"
      using routes(2) keys by blast
    moreover have "\<forall>key route. is_route_key key \<longrightarrow> route_at codec now key st = Some route \<longrightarrow> (key, route) \<in> set routes" if "calm now env st"
    proof (intro allI impI)
      fix key route
      assume "is_route_key key" "route_at codec now key st = Some route"
      moreover from this have "key \<in> set ?keys"
        using that by (auto simp: calm_def is_route_key_def scan_matches_def route_at_def bind_eq_Some_conv)
      ultimately show "(key, route) \<in> set routes" using routes(3) that by (simp add: calm_def)
    qed
    ultimately show ?thesis by (rule that(2))
  qed
qed

section \<open>What a pass changes\<close>

text \<open>
  Every entry is as before, or was a route that the pass selects and is now that route, lost. Routes that a pass selects are in a live state.
\<close>

definition relost :: "route_codec \<Rightarrow> nat \<Rightarrow> nat \<Rightarrow> (sandbox_route \<Rightarrow> bool) \<Rightarrow> store \<Rightarrow> store \<Rightarrow> bool" where
  "relost codec now ms sel st st' \<longleftrightarrow> (\<forall>key. st_kv st' key = st_kv st key \<or>
     (\<exists>route. is_route_key key \<and> route_at codec now key st = Some route \<and> is_live_state (sr_state route) \<and> sel route \<and>
        st_kv st' key = Some (lost_entry codec now ms route)))"

definition pass_ok :: "route_codec \<Rightarrow> nat \<Rightarrow> nat \<Rightarrow> store \<Rightarrow> bool" where
  "pass_ok codec now ms st \<longleftrightarrow> store_ok st \<and>
     (\<forall>key route. route_at codec now key st = Some route \<longrightarrow> snd codec (fst codec (lost ms route)) = Some (lost ms route) \<and>
        length (fst codec (lost ms route)) \<le> MAX_ARG_BYTES)"

lemma relost_refl: "relost codec now ms sel st st"
  by (simp add: relost_def)

lemma route_at_cong: "st_kv st' key = st_kv st key \<Longrightarrow> route_at codec now key st' = route_at codec now key st"
  by (simp add: route_at_def kv_at_def)

lemma lost_not_live: "\<not> is_live_state (sr_state (lost ms route))"
  by (simp add: lost_def is_live_state_def STATE_LOST_def)

lemma lost_lost [simp]: "lost ms (lost ms route) = lost ms route"
  by (simp add: lost_def)

lemma route_at_lost:
  assumes "pass_ok codec now ms st" "route_at codec now key st = Some route" "st_kv st' key = Some (lost_entry codec now ms route)"
  shows "route_at codec now key st' = Some (lost ms route)"
  using assms by (auto simp: route_at_def kv_at_def kv_live_def ROUTE_TTL_MS_def pass_ok_def)

lemma relost_pass_ok:
  assumes "relost codec now ms sel st st'" "pass_ok codec now ms st"
  shows "pass_ok codec now ms st'"
proof -
  have keep: "(\<forall>e. st_kv st' key = Some e \<longrightarrow> length (kv_value e) \<le> MAX_ARG_BYTES) \<and>
      (\<forall>route. route_at codec now key st' = Some route \<longrightarrow> snd codec (fst codec (lost ms route)) = Some (lost ms route) \<and>
         length (fst codec (lost ms route)) \<le> MAX_ARG_BYTES)" for key
  proof (cases "st_kv st' key = st_kv st key")
    case True
    then show ?thesis using assms(2) route_at_cong [OF True] by (auto simp: pass_ok_def store_ok_def)
  next
    case False
    then obtain route where "route_at codec now key st = Some route" "st_kv st' key = Some (lost_entry codec now ms route)"
      using assms(1) by (auto simp: relost_def)
    then show ?thesis using assms(2) route_at_lost [OF assms(2)] by (auto simp: pass_ok_def)
  qed
  then show ?thesis by (auto simp: pass_ok_def store_ok_def)
qed

text \<open>Two passes, one after the other.\<close>

lemma relost_trans:
  assumes "relost codec now ms sel st st1" "relost codec now ms sel' st1 st2" "pass_ok codec now ms st"
  shows "relost codec now ms (\<lambda>r. sel r \<or> sel' r) st st2"
  unfolding relost_def
proof
  fix key
  show "st_kv st2 key = st_kv st key \<or> (\<exists>route. is_route_key key \<and> route_at codec now key st = Some route \<and>
      is_live_state (sr_state route) \<and> (sel route \<or> sel' route) \<and> st_kv st2 key = Some (lost_entry codec now ms route))"
  proof (cases "st_kv st1 key = st_kv st key")
    case True
    then show ?thesis using assms(2) route_at_cong [OF True] unfolding relost_def by metis
  next
    case False
    then obtain route where r: "is_route_key key" "route_at codec now key st = Some route" "is_live_state (sr_state route)" "sel route"
        "st_kv st1 key = Some (lost_entry codec now ms route)" using assms(1) unfolding relost_def by metis
    then have "st_kv st2 key = st_kv st1 key"
      using assms(2) route_at_lost [OF assms(3) r(2,5)] lost_not_live unfolding relost_def by (metis option.inject)
    then show ?thesis using r by metis
  qed
qed

lemma relost_mono: "relost codec now ms sel st st' \<Longrightarrow> (\<And>r. sel r \<Longrightarrow> sel' r) \<Longrightarrow> relost codec now ms sel' st st'"
  unfolding relost_def by metis

text \<open>One write of a loop over routes that were read from the store \<open>st0\<close>.\<close>

lemma relost_put:
  assumes "relost codec now ms sel st0 st" "is_route_key key" "route_at codec now key st0 = Some route" "is_live_state (sr_state route)" "sel route"
  shows "relost codec now ms sel st0 (kv_put key (lost_entry codec now ms route) st)"
  using assms unfolding relost_def by auto

definition rewritten :: "route_codec \<Rightarrow> nat \<Rightarrow> nat \<Rightarrow> (sandbox_route \<Rightarrow> bool) \<Rightarrow> (string \<times> sandbox_route) list \<Rightarrow> store \<Rightarrow> bool" where
  "rewritten codec now ms sel routes st \<longleftrightarrow> (\<forall>(key, route)\<in>set routes. is_live_state (sr_state route) \<longrightarrow> sel route \<longrightarrow>
     st_kv st key = Some (lost_entry codec now ms route))"

definition read_from :: "route_codec \<Rightarrow> nat \<Rightarrow> nat \<Rightarrow> store \<Rightarrow> (string \<times> sandbox_route) list \<Rightarrow> bool" where
  "read_from codec now ms st routes \<longleftrightarrow> (\<forall>(key, route)\<in>set routes. key_ok key \<and> is_route_key key \<and> route_at codec now key st = Some route \<and>
     length (fst codec (lost ms route)) \<le> MAX_ARG_BYTES)"

lemma rewritten_put:
  assumes "rewritten codec now ms sel routes st" "read_from codec now ms st0 routes" "route_at codec now key st0 = Some route"
  shows "rewritten codec now ms sel routes (kv_put key (lost_entry codec now ms route) st)"
  using assms unfolding rewritten_def read_from_def by fastforce

lemma mark_loop_effect:
  assumes "read_from codec now ms st0 (seen @ routes)" "relost codec now ms (\<lambda>r. sr_wid r = wid) st0 st"
    "rewritten codec now ms (\<lambda>r. sr_wid r = wid) seen st" "mark_loop codec now ms env wid routes n st = (st', r)"
  shows "relost codec now ms (\<lambda>r. sr_wid r = wid) st0 st' \<and>
    (\<forall>m. r = Inr m \<longrightarrow> rewritten codec now ms (\<lambda>r. sr_wid r = wid) (seen @ routes) st') \<and>
    ((\<forall>key. answered (pe_set env key)) \<longrightarrow> (\<exists>m. r = Inr m))"
  using assms
proof (induction routes arbitrary: n st seen)
  case (Cons x routes)
  obtain key route where x: "x = (key, route)" by (cases x)
  have from_: "read_from codec now ms st0 ((seen @ [x]) @ routes)" using Cons.prems(1) by simp
  have key: "key_ok key" "is_route_key key" "route_at codec now key st0 = Some route" "length (fst codec (lost ms route)) \<le> MAX_ARG_BYTES"
    using Cons.prems(1) by (auto simp: read_from_def x)
  show ?case
  proof (cases "sr_wid route \<noteq> wid \<or> \<not> is_live_state (sr_state route)")
    case True
    then have "rewritten codec now ms (\<lambda>r. sr_wid r = wid) (seen @ [x]) st" using Cons.prems(3) by (auto simp: rewritten_def x)
    from Cons.IH [OF from_ Cons.prems(2) this] Cons.prems(4) True show ?thesis by (simp add: x)
  next
    case False
    let ?st = "kv_put key (lost_entry codec now ms route) st"
    have put: "relost codec now ms (\<lambda>r. sr_wid r = wid) st0 ?st" using relost_put [OF Cons.prems(2) key(2,3)] False by simp
    have "read_from codec now ms st0 seen" using Cons.prems(1) by (auto simp: read_from_def)
    then have re: "rewritten codec now ms (\<lambda>r. sr_wid r = wid) (seen @ [x]) ?st"
      using rewritten_put [OF Cons.prems(3) _ key(3)] by (auto simp: rewritten_def x)
    show ?thesis
    proof (rule write_any [OF key(1,4), of now "pe_set env key" st])
      fix w
      assume w: "write_route codec now (pe_set env key) key (lost ms route) st = (?st, w)" "answered (pe_set env key) \<Longrightarrow> w = Inr ()"
      show ?thesis
      proof (cases w)
        case (Inl e)
        then have "st' = ?st" "r = Inl e" using Cons.prems(4) w(1) False by (auto simp: x)
        then show ?thesis using put w(2) Inl by auto
      next
        case (Inr u)
        then show ?thesis using Cons.IH [OF from_ put re] Cons.prems(4) w(1) False by (simp add: x)
      qed
    next
      fix e
      assume "write_route codec now (pe_set env key) key (lost ms route) st = (st, Inl e)" "\<not> answered (pe_set env key)"
      then show ?thesis using Cons.prems(2,4) False by (auto simp: x)
    qed
  qed
qed auto

lemma sweep_loop_effect:
  assumes "read_from codec now ms st0 (seen @ routes)" "relost codec now ms sel st0 st" "rewritten codec now ms sel seen st"
    "sel = (\<lambda>r. sr_wid r \<notin> known \<and> url_of (sr_wid r) t = None)" "sweep_loop codec now ms env known t routes n st = (st', m)"
  shows "relost codec now ms sel st0 st' \<and> ((\<forall>key. answered (pe_set env key)) \<longrightarrow> rewritten codec now ms sel (seen @ routes) st')"
  using assms(1,2,3,5)
proof (induction routes arbitrary: n st seen)
  case (Cons x routes)
  obtain key route where x: "x = (key, route)" by (cases x)
  have from_: "read_from codec now ms st0 ((seen @ [x]) @ routes)" using Cons.prems(1) by simp
  have key: "key_ok key" "is_route_key key" "route_at codec now key st0 = Some route" "length (fst codec (lost ms route)) \<le> MAX_ARG_BYTES"
    using Cons.prems(1) by (auto simp: read_from_def x)
  show ?case
  proof (cases "is_live_state (sr_state route) \<and> sel route")
    case False
    then have "rewritten codec now ms sel (seen @ [x]) st" using Cons.prems(3) by (auto simp: rewritten_def x)
    from Cons.IH [OF from_ Cons.prems(2) this] Cons.prems(4) False show ?thesis by (auto simp: x assms(4))
  next
    case True
    let ?st = "kv_put key (lost_entry codec now ms route) st"
    have put: "relost codec now ms sel st0 ?st" using relost_put [OF Cons.prems(2) key(2,3)] True by simp
    have "read_from codec now ms st0 seen" using Cons.prems(1) by (auto simp: read_from_def)
    then have re: "rewritten codec now ms sel (seen @ [x]) ?st"
      using rewritten_put [OF Cons.prems(3) _ key(3)] by (auto simp: rewritten_def x)
    show ?thesis
    proof (rule write_any [OF key(1,4), of now "pe_set env key" st])
      fix w
      assume "write_route codec now (pe_set env key) key (lost ms route) st = (?st, w)"
      then have "\<exists>n'. sweep_loop codec now ms env known t routes n' ?st = (st', m)"
        using Cons.prems(4) True by (cases w) (auto simp: x assms(4))
      then show ?thesis using Cons.IH [OF from_ put re] by auto
    next
      fix e
      assume "write_route codec now (pe_set env key) key (lost ms route) st = (st, Inl e)" "\<not> answered (pe_set env key)"
      moreover from this have "sweep_loop codec now ms env known t routes n st = (st', m)"
        using Cons.prems(4) True by (simp add: x assms(4))
      moreover have "rewritten codec now ms sel [] st" "read_from codec now ms st0 ([] @ routes)"
        using Cons.prems(1) by (auto simp: rewritten_def read_from_def)
      ultimately show ?thesis using Cons.IH [of "[]"] Cons.prems(2) by blast
    qed
  qed
qed simp

text \<open>No route of the store is live and selected.\<close>

definition cleared :: "route_codec \<Rightarrow> nat \<Rightarrow> (sandbox_route \<Rightarrow> bool) \<Rightarrow> store \<Rightarrow> bool" where
  "cleared codec now sel st \<longleftrightarrow> (\<forall>key route. is_route_key key \<longrightarrow> route_at codec now key st = Some route \<longrightarrow> is_live_state (sr_state route) \<longrightarrow> \<not> sel route)"

lemma rewritten_cleared:
  assumes "pass_ok codec now ms st" "relost codec now ms sel st st'" "rewritten codec now ms sel routes st'"
    "\<forall>key route. is_route_key key \<longrightarrow> route_at codec now key st = Some route \<longrightarrow> (key, route) \<in> set routes"
  shows "cleared codec now sel st'"
  unfolding cleared_def
proof (intro allI impI notI)
  fix key route
  assume r: "is_route_key key" "route_at codec now key st' = Some route" "is_live_state (sr_state route)" "sel route"
  show False
  proof (cases "st_kv st' key = st_kv st key")
    case True
    then have before: "route_at codec now key st = Some route" using r(2) route_at_cong [OF True] by simp
    then have "(key, route) \<in> set routes" using r(1) assms(4) by metis
    then have "st_kv st' key = Some (lost_entry codec now ms route)" using assms(3) r(3,4) by (auto simp: rewritten_def)
    then have "route = lost ms route" using route_at_lost [OF assms(1) before] r(2) by force
    then show False using lost_not_live r(3) by metis
  next
    case False
    then obtain route' where "route_at codec now key st = Some route'" "st_kv st' key = Some (lost_entry codec now ms route')"
      using assms(2) unfolding relost_def by metis
    then have "route = lost ms route'" using route_at_lost [OF assms(1)] r(2) by force
    then show False using lost_not_live r(3) by metis
  qed
qed

lemma cleared_mono: "cleared codec now sel st \<Longrightarrow> (\<And>r. sel' r \<Longrightarrow> sel r) \<Longrightarrow> cleared codec now sel' st"
  unfolding cleared_def by metis

lemma mark_worker_lost_effect:
  assumes "pass_ok codec now ms st" "listing_ok (snd (pe_scan env 0))"
  obtains st' r where "mark_worker_lost codec now ms env wid st = Some (st', r)" "relost codec now ms (\<lambda>r. sr_wid r = wid) st st'"
    "calm now env st \<Longrightarrow> (\<exists>m. r = Inr m) \<and> cleared codec now (\<lambda>r. sr_wid r = wid) st'"
proof -
  have ok: "store_ok st" using assms(1) by (simp add: pass_ok_def)
  show thesis
  proof (rule scan_routes_result [OF ok assms(2), of codec now])
    fix x
    assume "scan_routes codec now env st = Some (st, Inl x)" "\<not> calm now env st"
    then show thesis using that [of st "Inl x"] relost_refl by (simp add: mark_worker_lost_def)
  next
    fix routes
    assume scan: "scan_routes codec now env st = Some (st, Inr routes)"
      and read: "\<forall>(key, route)\<in>set routes. key_ok key \<and> is_route_key key \<and> route_at codec now key st = Some route"
      and all: "calm now env st \<Longrightarrow> \<forall>key route. is_route_key key \<longrightarrow> route_at codec now key st = Some route \<longrightarrow> (key, route) \<in> set routes"
    obtain st' r where loop: "mark_loop codec now ms env wid routes 0 st = (st', r)" by fastforce
    have "read_from codec now ms st ([] @ routes)" using read assms(1) by (fastforce simp: read_from_def pass_ok_def)
    note effect = mark_loop_effect [OF this relost_refl _ loop]
    have eff: "relost codec now ms (\<lambda>r. sr_wid r = wid) st st'" "\<forall>m. r = Inr m \<longrightarrow> rewritten codec now ms (\<lambda>r. sr_wid r = wid) routes st'"
        "(\<forall>key. answered (pe_set env key)) \<longrightarrow> (\<exists>m. r = Inr m)"
      using effect by (simp_all add: rewritten_def)
    show thesis
    proof (rule that [of st' r])
      show "mark_worker_lost codec now ms env wid st = Some (st', r)" using scan loop by (simp add: mark_worker_lost_def)
      show "(\<exists>m. r = Inr m) \<and> cleared codec now (\<lambda>r. sr_wid r = wid) st'" if "calm now env st"
      proof -
        have m: "\<exists>m. r = Inr m" using that eff(3) by (simp add: calm_def)
        then have "rewritten codec now ms (\<lambda>r. sr_wid r = wid) routes st'" using eff(2) by blast
        then show ?thesis using rewritten_cleared [OF assms(1) eff(1) _ all [OF that]] m by simp
      qed
    qed (rule eff(1))
  qed
qed

lemma sweep_orphans_effect:
  fixes instant :: nat and order :: "string list" and t :: worker_table
  defines "sel \<equiv> \<lambda>r. sr_wid r \<notin> set (map hb_wid (table_live instant order t)) \<and> url_of (sr_wid r) t = None"
  assumes "pass_ok codec now ms st" "listing_ok (snd (pe_scan env 0))"
  obtains st' r where "sweep_orphans codec now ms env instant order t st = Some (st', r)" "relost codec now ms sel st st'"
    "calm now env st \<Longrightarrow> (\<exists>m. r = Inr m) \<and> cleared codec now sel st'"
proof -
  have ok: "store_ok st" using assms(2) by (simp add: pass_ok_def)
  show thesis
  proof (rule scan_routes_result [OF ok assms(3), of codec now])
    fix x
    assume "scan_routes codec now env st = Some (st, Inl x)" "\<not> calm now env st"
    then show thesis using that [of st "Inl x"] relost_refl by (simp add: sweep_orphans_def)
  next
    fix routes
    assume scan: "scan_routes codec now env st = Some (st, Inr routes)"
      and read: "\<forall>(key, route)\<in>set routes. key_ok key \<and> is_route_key key \<and> route_at codec now key st = Some route"
      and all: "calm now env st \<Longrightarrow> \<forall>key route. is_route_key key \<longrightarrow> route_at codec now key st = Some route \<longrightarrow> (key, route) \<in> set routes"
    obtain st' m where loop: "sweep_loop codec now ms env (set (map hb_wid (table_live instant order t))) t routes 0 st = (st', m)" by fastforce
    have "read_from codec now ms st ([] @ routes)" using read assms(2) by (fastforce simp: read_from_def pass_ok_def)
    note effect = sweep_loop_effect [OF this relost_refl _ sel_def [THEN meta_eq_to_obj_eq] loop]
    have eff: "relost codec now ms sel st st'" "(\<forall>key. answered (pe_set env key)) \<longrightarrow> rewritten codec now ms sel routes st'"
      using effect by (simp_all add: rewritten_def)
    show thesis
    proof (rule that [of st' "Inr m"])
      show "sweep_orphans codec now ms env instant order t st = Some (st', Inr m)" using scan loop by (simp add: sweep_orphans_def)
      show "(\<exists>k. Inr m = Inr k) \<and> cleared codec now sel st'" if "calm now env st"
        using rewritten_cleared [OF assms(2) eff(1) _ all [OF that]] eff(2) that by (simp add: calm_def)
    qed (rule eff(1))
  qed
qed

section \<open>A tick\<close>

lemma relost_calm:
  assumes "relost codec now ms sel st st'" "calm now env st"
  shows "calm now env st'"
proof -
  have "kv_at now key st \<noteq> None" if "kv_at now key st' \<noteq> None" for key
  proof (cases "st_kv st' key = st_kv st key")
    case False
    then obtain route where "route_at codec now key st = Some route" using assms(1) unfolding relost_def by metis
    then show ?thesis by (auto simp: route_at_def bind_eq_Some_conv)
  qed (use that in \<open>simp add: kv_at_def\<close>)
  then show ?thesis using assms(2) unfolding calm_def by blast
qed

lemma mark_all_effect:
  assumes "pass_ok codec now ms st" "\<forall>wid. listing_ok (snd (pe_scan (envs wid) 0))"
  shows "\<exists>st' r. mark_all codec now ms envs hs n st = Some (st', r) \<and> relost codec now ms (\<lambda>r. sr_wid r \<in> hb_wid ` set hs) st st' \<and>
    ((\<forall>wid. calm now (envs wid) st) \<longrightarrow> (\<exists>m. r = Inr m))"
  using assms(1)
proof (induction hs arbitrary: n st)
  case Nil
  show ?case using relost_refl by simp
next
  case (Cons h hs)
  have "listing_ok (snd (pe_scan (envs (hb_wid h)) 0))" using assms(2) by blast
  then obtain st1 r1 where one: "mark_worker_lost codec now ms (envs (hb_wid h)) (hb_wid h) st = Some (st1, r1)"
      "relost codec now ms (\<lambda>r. sr_wid r = hb_wid h) st st1" "calm now (envs (hb_wid h)) st \<Longrightarrow> \<exists>m. r1 = Inr m"
    using mark_worker_lost_effect [OF Cons.prems] by metis
  show ?case
  proof (cases r1)
    case (Inl e)
    then have "mark_all codec now ms envs (h # hs) n st = Some (st1, Inl e)" using one(1) by simp
    moreover have "relost codec now ms (\<lambda>r. sr_wid r \<in> hb_wid ` set (h # hs)) st st1" by (rule relost_mono [OF one(2)]) simp
    moreover have "\<not> (\<forall>wid. calm now (envs wid) st)" using one(3) Inl by auto
    ultimately show ?thesis by blast
  next
    case (Inr k)
    note ok1 = relost_pass_ok [OF one(2) Cons.prems]
    obtain st2 r2 where rest: "mark_all codec now ms envs hs (n + k) st1 = Some (st2, r2)"
        "relost codec now ms (\<lambda>r. sr_wid r \<in> hb_wid ` set hs) st1 st2" "(\<forall>wid. calm now (envs wid) st1) \<longrightarrow> (\<exists>m. r2 = Inr m)"
      using Cons.IH [OF ok1] by blast
    have "mark_all codec now ms envs (h # hs) n st = Some (st2, r2)" using one(1) rest(1) Inr by simp
    moreover have "relost codec now ms (\<lambda>r. sr_wid r \<in> hb_wid ` set (h # hs)) st st2"
      by (rule relost_mono [OF relost_trans [OF one(2) rest(2) Cons.prems]]) auto
    ultimately show ?thesis using rest(3) relost_calm [OF one(2)] by blast
  qed
qed

lemma reaped_gone: "reap_dead now wids t = (t', hs) \<Longrightarrow> \<forall>w e. wt_workers t w = Some e \<longrightarrow> hb_wid (we_heartbeat e) = w \<Longrightarrow>
    h \<in> set hs \<Longrightarrow> wt_workers t' (hb_wid h) = None"
proof (induction wids arbitrary: t hs)
  case (Cons wid wids)
  show ?case
  proof (cases "\<exists>e. wt_workers t wid = Some e \<and> tc_reap_after (wt_config t) < now - we_seen e")
    case True
    then obtain e where e: "wt_workers t wid = Some e" "tc_reap_after (wt_config t) < now - we_seen e" by blast
    define u where "u = t\<lparr>wt_workers := (wt_workers t)(wid := None)\<rparr>"
    obtain hs' where hs': "reap_dead now wids u = (t', hs')" "hs = we_heartbeat e # hs'"
      using e Cons.prems(1) by (auto simp: u_def split: prod.splits)
    have u: "wt_workers u wid = None" "\<forall>w e. wt_workers u w = Some e \<longrightarrow> hb_wid (we_heartbeat e) = w"
      using Cons.prems(2) by (auto simp: u_def split: if_splits)
    have "wt_workers t' wid = None" using reap_dead_sub [OF hs'(1)] u(1) by (metis option.exhaust option.distinct(1))
    moreover have "wt_workers t' (hb_wid h) = None" if "h \<in> set hs'" using Cons.IH [OF hs'(1) u(2) that] .
    ultimately show ?thesis using Cons.prems(2,3) e(1) hs'(2) by auto
  next
    case False
    then have "reap_dead now wids t = (t', hs)" using Cons.prems(1) by (auto split: option.splits if_splits)
    then show ?thesis using Cons.IH Cons.prems(2,3) by blast
  qed
qed simp

definition sweep_due :: "nat \<Rightarrow> controller \<Rightarrow> bool" where
  "sweep_due instant c = (case ct_last_sweep c of None \<Rightarrow> True | Some t0 \<Rightarrow> ORPHAN_SWEEP_INTERVAL \<le> instant - t0)"

lemma tick_effect:
  assumes ok: "pass_ok codec now ms st" and lists: "\<forall>wid. listing_ok (snd (pe_scan (envs wid) 0))" "listing_ok (snd (pe_scan sweep_env 0))"
    and table: "table_ok (ct_table c, held)"
  shows "\<exists>c' st' r. controller_tick codec now ms envs sweep_env instant order c st = Some (c', st', r) \<and>
    relost codec now ms (\<lambda>r. url_of (sr_wid r) (ct_table c') = None) st st' \<and>
    ((\<forall>wid. calm now (envs wid) st) \<longrightarrow> calm now sweep_env st \<longrightarrow>
       (\<exists>m. r = Inr m) \<and> (sweep_due instant c \<longrightarrow> cleared codec now (\<lambda>r. url_of (sr_wid r) (ct_table c') = None) st'))"
proof -
  obtain t dead where reap: "reap instant order (ct_table c) = (t, dead)" by fastforce
  let ?c = "c\<lparr>ct_table := t\<rparr>" and ?gone = "\<lambda>r. url_of (sr_wid r) t = None"
  have keyed: "\<forall>w e. wt_workers (ct_table c) w = Some e \<longrightarrow> hb_wid (we_heartbeat e) = w" using table by (auto simp: table_ok_def)
  have gone: "url_of (hb_wid h) t = None" if "h \<in> set dead" for h
    using reaped_gone [OF reap [unfolded reap_def] keyed that] by (simp add: url_of_def)
  have keyed_t: "wt_workers t w = Some e \<Longrightarrow> hb_wid (we_heartbeat e) = w" for w e
    using reap_dead_sub [OF reap [unfolded reap_def]] keyed by blast
  have live: "sr_wid r \<notin> set (map hb_wid (table_live instant order t))" if "?gone r" for r
    using that keyed_t by (force simp: url_of_def table_live_def entries_mem)
  obtain st1 r1 where marks: "mark_all codec now ms envs dead 0 st = Some (st1, r1)"
      "relost codec now ms (\<lambda>r. sr_wid r \<in> hb_wid ` set dead) st st1" "(\<forall>wid. calm now (envs wid) st) \<longrightarrow> (\<exists>m. r1 = Inr m)"
    using mark_all_effect [OF ok lists(1)] by metis
  have re1: "relost codec now ms ?gone st st1" by (rule relost_mono [OF marks(2)]) (auto dest: gone)
  show ?thesis
  proof (cases "\<exists>m. r1 = Inr m \<and> sweep_due instant c")
    case False
    then have "controller_tick codec now ms envs sweep_env instant order c st = Some (?c, st1, r1)"
      using reap marks(1) by (cases r1) (auto simp: controller_tick_def sweep_due_def Let_def split: option.splits)
    then show ?thesis using re1 False marks(3) by auto
  next
    case True
    then obtain m where m: "r1 = Inr m" "sweep_due instant c" by blast
    obtain st2 r2 where sweep: "sweep_orphans codec now ms sweep_env instant order t st1 = Some (st2, r2)"
        "relost codec now ms (\<lambda>r. sr_wid r \<notin> set (map hb_wid (table_live instant order t)) \<and> url_of (sr_wid r) t = None) st1 st2"
        "calm now sweep_env st1 \<Longrightarrow> (\<exists>k. r2 = Inr k) \<and>
          cleared codec now (\<lambda>r. sr_wid r \<notin> set (map hb_wid (table_live instant order t)) \<and> url_of (sr_wid r) t = None) st2"
      by (rule sweep_orphans_effect [OF relost_pass_ok [OF re1 ok] lists(2), of instant order t]) blast
    have "controller_tick codec now ms envs sweep_env instant order c st =
        Some (?c\<lparr>ct_last_sweep := Some instant\<rparr>, st2, rbind r2 (\<lambda>k. Inr (m + k)))"
      using reap marks(1) m sweep(1) by (auto simp: controller_tick_def sweep_due_def Let_def split: option.splits)
    moreover have "relost codec now ms ?gone st st2"
      by (rule relost_mono [OF relost_trans [OF re1 sweep(2) ok]]) blast
    moreover have "(\<exists>k. r2 = Inr k) \<and> cleared codec now ?gone st2" if "calm now sweep_env st"
      using sweep(3) [OF relost_calm [OF re1 that]] cleared_mono [of codec now _ st2 ?gone] live by blast
    moreover have "ct_table (?c\<lparr>ct_last_sweep := Some instant\<rparr>) = t" by simp
    moreover have "\<exists>k'. rbind r2 (\<lambda>k. Inr (m + k)) = Inr k'" if "\<exists>k. r2 = Inr k" using that by auto
    ultimately show ?thesis by metis
  qed
qed

section \<open>Properties\<close>

text \<open>
  The janitor only takes routes from workers that are gone. Whatever the transport does, a tick returns, and every key of the store is untouched, or was a route in a live state
  whose worker the table no longer knows after the tick, and is now that route in state lost with a new time and lifetime.
\<close>

theorem controller_tick_spares:
  assumes "pass_ok codec now ms st" "\<forall>wid. listing_ok (snd (pe_scan (envs wid) 0))" "listing_ok (snd (pe_scan sweep_env 0))"
    "table_ok (ct_table c, held)"
  shows "\<exists>c' st' r. controller_tick codec now ms envs sweep_env instant order c st = Some (c', st', r) \<and>
    (\<forall>key. st_kv st' key = st_kv st key \<or>
       (\<exists>route. is_route_key key \<and> route_at codec now key st = Some route \<and> is_live_state (sr_state route) \<and>
          url_of (sr_wid route) (ct_table c') = None \<and> st_kv st' key = Some (lost_entry codec now ms route)))"
  using tick_effect [OF assms] unfolding relost_def by blast

text \<open>
  The janitor repairs every route. When the requests of a tick are answered, at once or on the retry, the listing has all keys, and a sweep is due, the tick succeeds and afterwards every
  route in a live state belongs to a worker in the table.
\<close>

theorem controller_tick_repairs:
  assumes "pass_ok codec now ms st" "\<forall>wid. listing_ok (snd (pe_scan (envs wid) 0))" "listing_ok (snd (pe_scan sweep_env 0))"
    "table_ok (ct_table c, held)" "\<forall>wid. calm now (envs wid) st" "calm now sweep_env st" "sweep_due instant c"
  shows "\<exists>c' st' n. controller_tick codec now ms envs sweep_env instant order c st = Some (c', st', Inr n) \<and>
    (\<forall>key route. is_route_key key \<longrightarrow> route_at codec now key st' = Some route \<longrightarrow> is_live_state (sr_state route) \<longrightarrow>
       url_of (sr_wid route) (ct_table c') \<noteq> None)"
  using tick_effect [OF assms(1-4), of instant order] assms(5-7) unfolding cleared_def by blast

section \<open>Witnesses\<close>

text \<open>Two sandboxes: worker \<open>w1\<close> of the first is in the table, worker \<open>w2\<close> of the second is not. The text of a route stands for itself.\<close>

definition sample_route :: "string \<Rightarrow> sandbox_route" where
  "sample_route text = \<lparr>sr_sid = [], sr_wid = (if text = ''a'' then ''w1'' else ''w2''), sr_url = [],
     sr_state = (if text = ''a'' \<or> text = ''b'' then ''running'' else ''lost''), sr_ts = (if text = ''a'' \<or> text = ''b'' then 0 else 9), sr_result = None\<rparr>"

definition sample_codec :: route_codec where
  "sample_codec = (\<lambda>r. if sr_wid r = ''w1'' then (if sr_state r = ''lost'' then ''x'' else ''a'') else if sr_state r = ''lost'' then ''y'' else ''b'',
     \<lambda>text. Some (if text = ''x'' then lost 9 (sample_route ''a'') else if text = ''y'' then lost 9 (sample_route ''b'') else sample_route text))"

definition sample_store :: store where
  "sample_store = kv_put (sandbox_key ''1'') \<lparr>kv_value = ''a'', kv_expires = None\<rparr> (kv_put (sandbox_key ''2'') \<lparr>kv_value = ''b'', kv_expires = None\<rparr> store_empty)"

definition sample_pass :: pass_env where
  "sample_pass = \<lparr>pe_scan = (\<lambda>_. ((LostReply, Served), [sandbox_key ''2'', sandbox_key ''1''])), pe_get = (\<lambda>_. (Served, Served)), pe_set = (\<lambda>_. (Unsent, Served))\<rparr>"

definition sample_controller :: controller where
  "sample_controller = \<lparr>ct_table = upsert 0 (sample_hb 1 0\<lparr>hb_wid := ''w1''\<rparr>) (table_new (config_from_dead_after 5)), ct_last_sweep = None\<rparr>"

lemma sample_keys [simp]: "sandbox_key ''1'' \<noteq> sandbox_key ''2''" "is_route_key (sandbox_key sid)" "key_ok (sandbox_key ''1'')" "key_ok (sandbox_key ''2'')"
  by (simp_all add: sandbox_key_def is_route_key_def SANDBOX_PREFIX_def key_ok_def MAX_ARG_BYTES_def)

lemma sample_facts:
  "pass_ok sample_codec 7 9 sample_store" "listing_ok (snd (pe_scan sample_pass 0))" "calm 7 sample_pass sample_store"
  "table_ok (ct_table sample_controller, [])" "sweep_due 3 sample_controller"
proof -
  have codec: "sample_codec = c \<Longrightarrow> snd c (fst c (lost 9 (sample_route t))) = Some (lost 9 (sample_route t)) \<and>
      length (fst c (lost 9 (sample_route t))) \<le> MAX_ARG_BYTES" for t c
    by (auto simp: sample_codec_def sample_route_def lost_def STATE_LOST_def MAX_ARG_BYTES_def)
  have "\<exists>t. route = sample_route t \<or> route = lost 9 (sample_route t)" if "route_at sample_codec 7 key sample_store = Some route" for key route
    using that by (auto simp: route_at_def sample_codec_def bind_eq_Some_conv split: if_splits)
  then show "pass_ok sample_codec 7 9 sample_store"
    using codec by (fastforce simp: pass_ok_def store_ok_def sample_store_def store_empty_def MAX_ARG_BYTES_def)
  show "listing_ok (snd (pe_scan sample_pass 0))" by (simp add: listing_ok_def sample_pass_def)
  show "calm 7 sample_pass sample_store"
    by (auto simp: calm_def sample_pass_def answered_def kv_at_def sample_store_def store_empty_def)
  show "table_ok (ct_table sample_controller, [])"
    by (simp add: table_ok_def reserved_on_def sample_controller_def upsert_def table_new_def sample_hb_def WIRE_VERSION_def)
  show "sweep_due 3 sample_controller" by (simp add: sweep_due_def sample_controller_def)
qed

theorem controller_tick_spares_witness:
  "\<exists>c' st' r. controller_tick sample_codec 7 9 (\<lambda>_. sample_pass) sample_pass 3 [''w1''] sample_controller sample_store = Some (c', st', r) \<and>
    (st_kv st' ''other'' = st_kv sample_store ''other'')"
proof -
  have "\<not> is_route_key ''other''" by (simp add: is_route_key_def SANDBOX_PREFIX_def)
  then show ?thesis
    using controller_tick_spares [of sample_codec 7 9 sample_store "\<lambda>_. sample_pass" sample_pass sample_controller "[]" 3 "[''w1'']"] sample_facts by blast
qed

theorem controller_tick_repairs_witness:
  "\<exists>c' st' n. controller_tick sample_codec 7 9 (\<lambda>_. sample_pass) sample_pass 3 [''w1''] sample_controller sample_store = Some (c', st', Inr n) \<and>
    \<not> (\<exists>key route. is_route_key key \<and> route_at sample_codec 7 key st' = Some route \<and> is_live_state (sr_state route) \<and>
       url_of (sr_wid route) (ct_table c') = None)"
  using controller_tick_repairs [of sample_codec 7 9 sample_store "\<lambda>_. sample_pass" sample_pass sample_controller "[]" 3 "[''w1'']"] sample_facts by blast

end
