(* ===== verification/Scheduler.thy ===== *)
theory Scheduler
  imports Controller "HOL-Library.AList"
begin

text \<open>
  Creating sandboxes through a scheduler, \<^verbatim>\<open>vmond/src/orch/sched.rs\<close>: deadlines, the route cache and its writer, finding the worker of a sandbox, the loop that places a create and
  retries it elsewhere, and the gate that makes creates with an idempotency key converge. What workers answer, the JSON text of views (\<^verbatim>\<open>serde_json\<close>), the clock, the random numbers and what
  other tasks do to the worker table meanwhile are arguments; messages of statuses are left out.
\<close>

section \<open>Statuses and deadlines\<close>

text \<open>The codes the source names, and any other.\<close>

datatype grpc_code = Aborted | Unavailable | DeadlineExceeded | Cancelled | InvalidArgument | NotFound | OtherCode nat

record status =
  ss_code :: grpc_code
  ss_vmon :: "string option"
  ss_retryable :: "string option"

definition coded :: "grpc_code \<Rightarrow> string \<Rightarrow> bool \<Rightarrow> status" where
  "coded code vmon retryable = \<lparr>ss_code = code, ss_vmon = Some vmon, ss_retryable = Some (if retryable then ''true'' else ''false'')\<rparr>"

definition batch_error :: "status \<Rightarrow> string" where
  "batch_error s = (case ss_vmon s of
     Some code \<Rightarrow> code
   | None \<Rightarrow> (case ss_code s of Aborted \<Rightarrow> ''busy'' | InvalidArgument \<Rightarrow> ''invalid'' | NotFound \<Rightarrow> ''not_found''
       | DeadlineExceeded \<Rightarrow> ''deadline'' | _ \<Rightarrow> ''engine_error''))"

definition create_retryable :: "grpc_code \<Rightarrow> bool" where
  "create_retryable code \<longleftrightarrow> code \<in> {Aborted, Unavailable, DeadlineExceeded, Cancelled}"

text \<open>Durations are in nanoseconds; eight digits of any unit do not overflow.\<close>

definition parse_grpc_timeout :: "string \<Rightarrow> nat option" where
  "parse_grpc_timeout value =
     (if value = [] then None
      else let amount = butlast value; unit = last value in
      if amount = [] \<or> 8 < length amount then None
      else case parse_uint u64_max amount of
        None \<Rightarrow> None
      | Some n \<Rightarrow>
          if unit = CHR ''H'' then Some (n * 3600 * 1000000000)
          else if unit = CHR ''M'' then Some (n * 60 * 1000000000)
          else if unit = CHR ''S'' then Some (n * 1000000000)
          else if unit = CHR ''m'' then Some (n * 1000000)
          else if unit = CHR ''u'' then Some (n * 1000)
          else if unit = CHR ''n'' then Some n
          else None)"

definition deadline_from_request :: "nat \<Rightarrow> string option \<Rightarrow> nat option" where
  "deadline_from_request now header = map_option (\<lambda>d. now + d) (Option.bind header parse_grpc_timeout)"

definition remaining :: "nat \<Rightarrow> nat option \<Rightarrow> nat option" where
  "remaining now deadline = map_option (\<lambda>d. d - now) deadline"

definition attempt_limit :: "nat \<Rightarrow> nat \<Rightarrow> nat option \<Rightarrow> nat" where
  "attempt_limit now configured deadline = (case remaining now deadline of None \<Rightarrow> configured | Some client \<Rightarrow> max configured client)"

section \<open>Views\<close>

type_synonym json_codec = "(json \<Rightarrow> string) \<times> (string \<Rightarrow> json option)"

definition annotate_view :: "json_codec \<Rightarrow> string \<Rightarrow> string \<Rightarrow> string \<Rightarrow> string" where
  "annotate_view jc text wid url = (case snd jc text of
     Some (JObject view) \<Rightarrow> fst jc (JObject (view(''node'' \<mapsto> JString wid, ''endpoint'' \<mapsto> JString url)))
   | _ \<Rightarrow> text)"

definition view_sid :: "json_codec \<Rightarrow> string \<Rightarrow> string option" where
  "view_sid jc text = Option.bind (snd jc text) (\<lambda>v. Option.bind (as_object v) (\<lambda>view.
     Option.bind (case view ''name'' of Some n \<Rightarrow> Some n | None \<Rightarrow> view ''id'') as_str))"

definition view_state :: "json_codec \<Rightarrow> string \<Rightarrow> string" where
  "view_state jc text = (case Option.bind (snd jc text) (\<lambda>v. Option.bind (as_object v) (\<lambda>view. Option.bind (view ''status'') as_str)) of
     Some s \<Rightarrow> s | None \<Rightarrow> ''running'')"

section \<open>Scheduler state\<close>

definition ROUTE_CACHE_MAX :: nat where "ROUTE_CACHE_MAX = 65536"
definition ROUTE_WRITE_QUEUE_MAX :: nat where "ROUTE_WRITE_QUEUE_MAX = 4096"
definition ROUTE_WRITE_BATCH_MAX :: nat where "ROUTE_WRITE_BATCH_MAX = 128"
definition IDEM_TTL_MS :: nat where "IDEM_TTL_MS = 60 * 60 * 1000"
definition PENALTY :: nat where "PENALTY = 2 * 1000000000"

record sched_options =
  so_create_timeout :: nat
  so_create_retries :: nat

record sched_core =
  sc_table :: worker_table
  sc_options :: sched_options
  sc_instance :: string
  sc_route_cache :: "(string \<times> string \<times> string) list"
  sc_route_writes :: "(string \<times> string) list"
  sc_created :: u64

definition sched_new :: "worker_table \<Rightarrow> sched_options \<Rightarrow> string \<Rightarrow> sched_core" where
  "sched_new t opts inst = \<lparr>sc_table = t, sc_options = opts, sc_instance = inst, sc_route_cache = [], sc_route_writes = [], sc_created = 0\<rparr>"

definition cache_route :: "string \<Rightarrow> string \<Rightarrow> string \<Rightarrow> sched_core \<Rightarrow> sched_core" where
  "cache_route sid wid url core = core\<lparr>sc_route_cache :=
     AList.update sid (wid, url) (if ROUTE_CACHE_MAX \<le> length (sc_route_cache core) then [] else sc_route_cache core)\<rparr>"

definition drop_route :: "string \<Rightarrow> sched_core \<Rightarrow> sched_core" where
  "drop_route sid core = core\<lparr>sc_route_cache := AList.delete sid (sc_route_cache core)\<rparr>"

definition write_route_detached :: "route_codec \<Rightarrow> nat \<Rightarrow> string \<Rightarrow> string \<Rightarrow> string \<Rightarrow> string \<Rightarrow> sched_core \<Rightarrow> sched_core" where
  "write_route_detached codec ms sid wid url state core =
     (let payload = fst codec \<lparr>sr_sid = sid, sr_wid = wid, sr_url = url, sr_state = state, sr_ts = ms, sr_result = None\<rparr>
      in if ROUTE_WRITE_QUEUE_MAX \<le> length (sc_route_writes core) then core
         else core\<lparr>sc_route_writes := sc_route_writes core @ [(sid, payload)]\<rparr>)"

text \<open>One turn of the writer: a batch of what is queued, written or given up.\<close>

definition route_writer :: "nat \<Rightarrow> pipe_fate \<times> pipe_fate \<Rightarrow> sched_core \<Rightarrow> store \<Rightarrow> sched_core \<times> store" where
  "route_writer now fates core st =
     (let batch = take ROUTE_WRITE_BATCH_MAX (sc_route_writes core)
      in (core\<lparr>sc_route_writes := drop ROUTE_WRITE_BATCH_MAX (sc_route_writes core)\<rparr>,
          if batch = [] then st
          else fst (redis_set_px_pipeline now fates (map (\<lambda>(sid, payload). (sandbox_key sid, payload)) batch) ROUTE_TTL_MS st)))"

section \<open>Finding a sandbox\<close>

text \<open>
  The requests a create makes of workers: creating on a worker, and reading a sandbox at a URL. The answers of the workers to a probe, which reads the sandbox at every live worker, arrive in the order
  of \<open>arrival\<close>.
\<close>

datatype worker_rpc = CreateRpc string | GetRpc string string

definition probe_workers :: "(heartbeat list \<Rightarrow> heartbeat list) \<Rightarrow> (heartbeat \<Rightarrow> bool) \<Rightarrow> heartbeat list \<Rightarrow> (string \<times> string) option" where
  "probe_workers arrival owns live = map_option (\<lambda>h. (hb_wid h, hb_url h)) (find owns (arrival live))"

record resolve_env =
  re_now :: nat
  re_fates :: "fate \<times> fate"
  re_order :: "string list"
  re_arrival :: "heartbeat list \<Rightarrow> heartbeat list"
  re_owns :: "string \<Rightarrow> heartbeat \<Rightarrow> bool"

definition resolve_sandbox :: "route_codec \<Rightarrow> resolve_env \<Rightarrow> string \<Rightarrow> sched_core \<Rightarrow> store \<Rightarrow>
    sched_core \<times> store \<times> (status + (string \<times> string)) \<times> worker_rpc list" where
  "resolve_sandbox codec env sid core st =
     (if sid = [] then (core, st, Inl (coded InvalidArgument ''invalid'' False), [])
      else case map_of (sc_route_cache core) sid of
        Some (wid, url) \<Rightarrow> (core, st, Inr (wid, case url_of wid (sc_table core) of Some u \<Rightarrow> u | None \<Rightarrow> url), [])
      | None \<Rightarrow>
          (case redis_get (re_now env) (re_fates env) (sandbox_key sid) st of (st, r) \<Rightarrow>
             let live = table_live (re_now env) (re_order env) (sc_table core);
                 probes = map (\<lambda>h. GetRpc (hb_url h) sid) live;
                 probed = (case probe_workers (re_arrival env) (re_owns env sid) live of
                   Some (wid, url) \<Rightarrow> (cache_route sid wid url core, st, Inr (wid, url), probes)
                 | None \<Rightarrow> (core, st, Inl (coded NotFound ''not_found'' False), probes))
             in (case r of
                   Inr (Some raw) \<Rightarrow>
                     (case snd codec raw of
                        Some route \<Rightarrow>
                          if sr_state route = STATE_LOST then (core, st, Inl (coded NotFound ''not_found'' False), [])
                          else let url = (case url_of (sr_wid route) (sc_table core) of Some u \<Rightarrow> u | None \<Rightarrow> sr_url route)
                               in (cache_route sid (sr_wid route) url core, st, Inr (sr_wid route, url), [])
                      | None \<Rightarrow> probed)
                 | _ \<Rightarrow> probed)))"

section \<open>Placing a create\<close>

text \<open>
  What happens in one attempt: the instants and random numbers of the choice, whether a channel to the URL can be built, what the worker answers, what other tasks do
  to the table while the request is out, and when a failed worker is penalised.
\<close>

datatype worker_outcome = WView string | WStatus status | WElapsed

record attempt =
  at_now :: nat
  at_order :: "string list"
  at_r1 :: nat
  at_r2 :: nat
  at_channel :: "string \<Rightarrow> status option"
  at_outcome :: "string \<Rightarrow> worker_outcome"
  at_others :: "table_op list"
  at_after :: nat
  at_ms :: nat

text \<open>
  The loop. The state is the scheduler and the placements held by other tasks; the result lists the workers that were sent the request. A placement
  is dropped at the end of its attempt, however it ends.
\<close>

fun place_loop :: "json_codec \<Rightarrow> route_codec \<Rightarrow> placement_needs \<Rightarrow> attempt list \<Rightarrow> string list \<Rightarrow> status option \<Rightarrow> sched_core \<Rightarrow> orch_placement list \<Rightarrow>
    sched_core \<times> orch_placement list \<times> (status + string) \<times> string list" where
  "place_loop jc codec needs [] tried last_status core held =
     (core, held, Inl (case last_status of Some s \<Rightarrow> s | None \<Rightarrow> coded Aborted ''busy'' True), [])"
| "place_loop jc codec needs (a # attempts) tried last_status core held =
     (case pick (at_now a) (at_order a) (at_r1 a) (at_r2 a) needs tried (sc_table core) of
        (t, None) \<Rightarrow> (core, held, Inl (case last_status of Some s \<Rightarrow> s | None \<Rightarrow> coded Aborted ''busy'' True), [])
      | (t, Some p) \<Rightarrow>
          (case at_channel a (pl_url p) of
             Some s \<Rightarrow> (core\<lparr>sc_table := drop_placement p t\<rparr>, held, Inl s, [])
           | None \<Rightarrow>
               (case fold table_step (at_others a) (t, held) of (t, held) \<Rightarrow>
                  let failed = core\<lparr>sc_table := drop_placement p (penalize (at_after a) (pl_wid p) PENALTY t)\<rparr>;
                      retry = (\<lambda>s. case place_loop jc codec needs attempts (tried @ [pl_wid p]) (Some s) failed held of
                        (core, held, r, sent) \<Rightarrow> (core, held, r, pl_wid p # sent))
                  in (case at_outcome a (pl_wid p) of
                        WView view \<Rightarrow>
                          let core = core\<lparr>sc_created := sc_created core + 1\<rparr>;
                              core = (case view_sid jc view of
                                  Some sid \<Rightarrow> write_route_detached codec (at_ms a) sid (pl_wid p) (pl_url p) (view_state jc view)
                                    (cache_route sid (pl_wid p) (pl_url p) core)
                                | None \<Rightarrow> core)
                          in (core\<lparr>sc_table := drop_placement p t\<rparr>, held, Inr (annotate_view jc view (pl_wid p) (pl_url p)), [pl_wid p])
                      | WStatus s \<Rightarrow> if create_retryable (ss_code s) then retry s
                          else (core\<lparr>sc_table := drop_placement p t\<rparr>, held, Inl s, [pl_wid p])
                      | WElapsed \<Rightarrow> retry (coded DeadlineExceeded ''deadline'' True)))))"

definition place_and_create :: "json_codec \<Rightarrow> route_codec \<Rightarrow> placement_needs \<Rightarrow> (nat \<Rightarrow> attempt) \<Rightarrow> sched_core \<Rightarrow> orch_placement list \<Rightarrow>
    sched_core \<times> orch_placement list \<times> (status + string) \<times> string list" where
  "place_and_create jc codec needs env core held = place_loop jc codec needs (map env [0..<so_create_retries (sc_options core) + 1]) [] None core held"

section \<open>The idempotency gate\<close>

definition idem_key :: "string \<Rightarrow> string" where "idem_key key = ''vmon:o:idem:'' @ key"

text \<open>
  Waiting for the winner: each poll has its instant, the fate of its read, and what others have done to the store since the poll before. The value \<^const>\<open>None\<close> is a wait
  that these polls do not end. The worker's answer to the final read of the view is an argument.
\<close>

record winner_poll =
  wp_now :: nat
  wp_fates :: "fate \<times> fate"
  wp_others :: "store \<Rightarrow> store"

fun await_idempotent_winner :: "json_codec \<Rightarrow> route_codec \<Rightarrow> resolve_env \<Rightarrow> (string \<Rightarrow> string \<Rightarrow> status + string) \<Rightarrow> string \<Rightarrow> nat \<Rightarrow> winner_poll list \<Rightarrow>
    sched_core \<Rightarrow> store \<Rightarrow> (sched_core \<times> store \<times> (status + string) \<times> worker_rpc list) option" where
  "await_idempotent_winner jc codec env get_view key deadline [] core st = None"
| "await_idempotent_winner jc codec env get_view key deadline (poll # polls) core st =
     (case redis_get (wp_now poll) (wp_fates poll) (idem_key key) (wp_others poll st) of (st, r) \<Rightarrow>
        let again = (if deadline \<le> wp_now poll then Some (core, st, Inl (coded Aborted ''busy'' True), [])
                     else await_idempotent_winner jc codec env get_view key deadline polls core st)
        in (case r of
              Inr (Some raw) \<Rightarrow>
                (case strip_prefix ''sid:'' (utf8_lossy raw) of
                   Some sid \<Rightarrow>
                     (case resolve_sandbox codec env sid core st of
                        (core, st, Inl s, sent) \<Rightarrow> Some (core, st, Inl s, sent)
                      | (core, st, Inr (wid, url), sent) \<Rightarrow>
                          Some (core, st, rbind (get_view url sid) (\<lambda>view. Inr (annotate_view jc view wid url)), sent @ [GetRpc url sid]))
                 | None \<Rightarrow> again)
            | Inr None \<Rightarrow> Some (core, st, Inl (coded Aborted ''busy'' True), [])
            | Inl _ \<Rightarrow> again))"

text \<open>
  One create, with the requests it makes of workers. The writes that record the winner or release the gate run in tasks of their own; here they run at the end of the create.
\<close>

record create_env =
  ce_now :: nat
  ce_gate :: "fate \<times> fate"
  ce_attempts :: "nat \<Rightarrow> attempt"
  ce_done :: nat
  ce_finish :: "fate \<times> fate"
  ce_polls :: "winner_poll list"
  ce_resolve :: resolve_env
  ce_view :: "string \<Rightarrow> string \<Rightarrow> status + string"

definition create_one :: "json_codec \<Rightarrow> route_codec \<Rightarrow> create_env \<Rightarrow> nat option \<Rightarrow> string \<Rightarrow> sched_core \<Rightarrow> orch_placement list \<Rightarrow> store \<Rightarrow>
    (sched_core \<times> orch_placement list \<times> store \<times> (status + string) \<times> worker_rpc list) option" where
  "create_one jc codec env deadline spec_json core held st =
     (case snd jc spec_json of
        None \<Rightarrow> Some (core, held, st, Inl (coded InvalidArgument ''invalid'' False), [])
      | Some spec \<Rightarrow>
          let params = (case as_object spec of Some m \<Rightarrow> m | None \<Rightarrow> (\<lambda>_. None));
              needs = from_create_json params;
              place = (\<lambda>st. case place_and_create jc codec needs (ce_attempts env) core held of (core, held, r, sent) \<Rightarrow> (core, held, st, r, map CreateRpc sent))
          in (case Option.bind (params ''idempotency_key'') as_str of
                Some key \<Rightarrow>
                  if key = [] then Some (place st)
                  else (case redis_set_nx_px (ce_now env) (ce_gate env) (idem_key key) (''pending:'' @ sc_instance core) IDEM_TTL_MS st of
                      (st, Inr True) \<Rightarrow>
                        (case place st of (core, held, st, r, sent) \<Rightarrow>
                           Some (core, held,
                             (case r of
                                Inr view \<Rightarrow> (case view_sid jc view of
                                    Some sid \<Rightarrow> fst (redis_set_px (ce_done env) (ce_finish env) (idem_key key) (''sid:'' @ sid) IDEM_TTL_MS st)
                                  | None \<Rightarrow> st)
                              | Inl _ \<Rightarrow> fst (redis_del (ce_done env) (ce_finish env) (idem_key key) st)), r, sent))
                    | (st, Inr False) \<Rightarrow>
                        map_option (\<lambda>(core, st, r, sent). (core, held, st, r, sent))
                          (await_idempotent_winner jc codec (ce_resolve env) (ce_view env) key
                             (ce_now env + attempt_limit (ce_now env) (so_create_timeout (sc_options core)) deadline) (ce_polls env) core st)
                    | (st, Inl _) \<Rightarrow> Some (place st))
              | None \<Rightarrow> Some (place st)))"

section \<open>Reservations of a create\<close>

text \<open>Other tasks act on the table without the placement of this one: their steps in its presence.\<close>

fun shift :: "table_op \<Rightarrow> table_op" where
  "shift (TDrop i) = TDrop (Suc i)"
| "shift x = x"

lemma table_step_frame: "table_step x (t, held) = (t', held') \<Longrightarrow> table_step (shift x) (t, p # held) = (t', p # held')"
  by (cases x) (auto split: prod.splits option.splits if_splits)

lemma table_steps_frame: "fold table_step xs (t, held) = (t', held') \<Longrightarrow> fold table_step (map shift xs) (t, p # held) = (t', p # held')"
proof (induction xs arbitrary: t held)
  case (Cons x xs)
  obtain t1 held1 where one: "table_step x (t, held) = (t1, held1)" by fastforce
  then show ?case using Cons table_step_frame [OF one] by simp
qed simp

lemma table_steps_ok: "table_ok s \<Longrightarrow> table_ok (fold table_step xs s)"
  by (induction xs arbitrary: s) (simp_all add: table_step_ok)

lemma table_ok_perm: "table_ok (t, held @ [p]) \<longleftrightarrow> table_ok (t, p # held)"
  by (simp add: table_ok_def reserved_on_def add.commute)

text \<open>The placement of an attempt, kept while others act, is given back.\<close>

lemma attempt_ok:
  assumes ok: "table_ok (t, held)" and pick: "pick now order r1 r2 needs tried t = (t1, Some p)"
    and others: "fold table_step xs (t1, held) = (t2, held2)"
  shows "table_ok (drop_placement p t2, held2)" "table_ok (drop_placement p (penalize later wid d t2), held2)"
    "table_ok (drop_placement p t1, held)"
proof -
  have "table_step (TPick now order r1 r2 needs tried) (t, held) = (t1, held @ [p])" using pick by simp
  then have one: "table_ok (t1, p # held)" using table_step_ok [OF ok] table_ok_perm by metis
  then have two: "table_ok (t2, p # held2)" using table_steps_ok table_steps_frame [OF others] by metis
  have give: "table_ok (drop_placement p u, hs)" if "table_ok (u, p # hs)" for u hs
    using table_step_ok [OF that, of "TDrop 0"] by simp
  show "table_ok (drop_placement p t2, held2)" "table_ok (drop_placement p t1, held)" using give one two by blast+
  have "table_ok (penalize later wid d t2, p # held2)" using table_step_ok [OF two, of "TPenalize later wid d"] by simp
  then show "table_ok (drop_placement p (penalize later wid d t2), held2)" by (rule give)
qed

lemma pick_wid:
  assumes "pick now order r1 r2 needs tried t = (t1, Some p)"
  shows "pl_wid p \<notin> set tried"
proof -
  obtain e where e: "choose_two r1 r2 (wt_counters t) (filter (eligible now needs tried t) (entries order t)) = Some e" "pl_wid p = hb_wid (we_heartbeat e)"
    using assms by (auto simp: pick_def split: option.splits)
  then show ?thesis using choose_mem [OF e(1)] by (auto simp: eligible_def)
qed

section \<open>The placement loop\<close>

definition gave_up :: "worker_outcome \<Rightarrow> bool" where
  "gave_up w = (case w of WView _ \<Rightarrow> False | WStatus s \<Rightarrow> create_retryable (ss_code s) | WElapsed \<Rightarrow> True)"

text \<open>What the loop promises about its result: reservations, the workers asked, and their answers.\<close>

definition loop_promise :: "json_codec \<Rightarrow> attempt list \<Rightarrow> string list \<Rightarrow> sched_core \<Rightarrow> sched_core \<times> orch_placement list \<times> (status + string) \<times> string list \<Rightarrow> bool" where
  "loop_promise jc attempts tried core res = (case res of (core', held', r, sent) \<Rightarrow>
     table_ok (sc_table core', held') \<and> distinct sent \<and> set sent \<inter> set tried = {} \<and> length sent \<le> length attempts \<and>
     (\<forall>i<length sent - 1. gave_up (at_outcome (attempts ! i) (sent ! i))) \<and>
     (case r of
        Inr view \<Rightarrow> sent \<noteq> [] \<and> sc_created core' = sc_created core + 1 \<and>
          (\<exists>raw url. at_outcome (attempts ! (length sent - 1)) (last sent) = WView raw \<and> view = annotate_view jc raw (last sent) url)
      | Inl _ \<Rightarrow> sc_created core' = sc_created core \<and> sc_route_cache core' = sc_route_cache core \<and> sc_route_writes core' = sc_route_writes core))"

lemma promise_again:
  assumes "loop_promise jc attempts (tried @ [wid]) core1 (core', held', r, sent)" "gave_up (at_outcome a wid)" "wid \<notin> set tried"
    and "core1 = core\<lparr>sc_table := t\<rparr>"
  shows "loop_promise jc (a # attempts) tried core (core', held', r, wid # sent)"
proof -
  have "gave_up (at_outcome ((a # attempts) ! i) ((wid # sent) ! i))" if "i < length sent" for i
    using that assms(1,2) by (cases i) (auto simp: loop_promise_def)
  moreover have "(a # attempts) ! length sent = attempts ! (length sent - 1)" if "sent \<noteq> []" using that by (cases sent) auto
  ultimately show ?thesis using assms by (auto simp: loop_promise_def split: sum.splits)
qed

lemma place_loop_promise:
  assumes "table_ok (sc_table core, held)"
  shows "loop_promise jc attempts tried core (place_loop jc codec needs attempts tried last_status core held)"
  using assms
proof (induction attempts arbitrary: tried last_status core held)
  case Nil
  then show ?case by (simp add: loop_promise_def)
next
  case (Cons a attempts)
  obtain t1 found where pick: "pick (at_now a) (at_order a) (at_r1 a) (at_r2 a) needs tried (sc_table core) = (t1, found)" by fastforce
  show ?case
  proof (cases found)
    case None
    then show ?thesis using Cons.prems pick by (simp add: loop_promise_def)
  next
    case (Some p)
    obtain t2 held2 where others: "fold table_step (at_others a) (t1, held) = (t2, held2)" by fastforce
    note ok = attempt_ok [OF Cons.prems pick [unfolded Some] others]
    have wid: "pl_wid p \<notin> set tried" using pick_wid pick Some by blast
    let ?failed = "core\<lparr>sc_table := drop_placement p (penalize (at_after a) (pl_wid p) PENALTY t2)\<rparr>"
    have again: "loop_promise jc (a # attempts) tried core
        (case place_loop jc codec needs attempts (tried @ [pl_wid p]) (Some s) ?failed held2 of (core, held, r, sent) \<Rightarrow> (core, held, r, pl_wid p # sent))"
      if "gave_up (at_outcome a (pl_wid p))" for s
    proof -
      obtain c h r sent where res: "place_loop jc codec needs attempts (tried @ [pl_wid p]) (Some s) ?failed held2 = (c, h, r, sent)"
        by (metis prod_cases4)
      have "table_ok (sc_table ?failed, held2)" using ok(2) by simp
      from promise_again [OF Cons.IH [OF this, of "tried @ [pl_wid p]" "Some s", unfolded res] that wid] res show ?thesis by simp
    qed
    show ?thesis
    proof (cases "at_channel a (pl_url p)")
      case (Some s)
      then show ?thesis using ok(3) pick \<open>found = Some p\<close> by (simp add: loop_promise_def)
    next
      case None
      note step = pick \<open>found = Some p\<close> None others
      show ?thesis
      proof (cases "at_outcome a (pl_wid p)")
        case (WView view)
        then show ?thesis
          using ok(1) wid step by (auto simp: loop_promise_def cache_route_def write_route_detached_def Let_def split: option.split)
      next
        case (WStatus s)
        show ?thesis
        proof (cases "create_retryable (ss_code s)")
          case True
          then show ?thesis using again [of s] WStatus step by (simp add: gave_up_def)
        next
          case False
          then show ?thesis using ok(1) wid WStatus step by (simp add: loop_promise_def)
        qed
      next
        case WElapsed
        then show ?thesis using again step by (simp add: gave_up_def)
      qed
    qed
  qed
qed

section \<open>The gate\<close>

definition keyed_spec :: "json_codec \<Rightarrow> string \<Rightarrow> string \<Rightarrow> bool" where
  "keyed_spec jc spec_json key \<longleftrightarrow> key \<noteq> [] \<and> key_ok (idem_key key) \<and>
     (\<exists>params. snd jc spec_json = Some (JObject params) \<and> params ''idempotency_key'' = Some (JString key))"

lemma IDEM_fits: "IDEM_TTL_MS \<le> u64_max" "0 < IDEM_TTL_MS"
  by (simp_all add: IDEM_TTL_MS_def)

text \<open>A live gate turns a create into a wait.\<close>

lemma gate_taken:
  assumes "key_ok key" "length v \<le> MAX_ARG_BYTES" "kv_at now key st = Some e" "answered fates"
  shows "redis_set_nx_px now fates key v IDEM_TTL_MS st = (st, Inr False)"
  using exchange_set_nx [OF assms(1,2) IDEM_fits(1), of "[]" now 0 st] assms(3,4)
  by (cases "fst fates"; cases "snd fates") (simp_all add: redis_set_nx_px_def redis_call_def answered_def)

lemma create_waits:
  assumes "keyed_spec jc spec_json key" "length (''pending:'' @ sc_instance core) \<le> MAX_ARG_BYTES"
    "redis_set_nx_px (ce_now env) (ce_gate env) (idem_key key) (''pending:'' @ sc_instance core) IDEM_TTL_MS st = (st', Inr False)"
  shows "create_one jc codec env deadline spec_json core held st = map_option (\<lambda>(core, st, r, sent). (core, held, st, r, sent))
    (await_idempotent_winner jc codec (ce_resolve env) (ce_view env) key
       (ce_now env + attempt_limit (ce_now env) (so_create_timeout (sc_options core)) deadline) (ce_polls env) core st')"
  using assms by (auto simp: keyed_spec_def create_one_def Let_def split: prod.split)

lemma await_pending:
  assumes "key_ok (idem_key key)" "store_ok st" "st_kv st (idem_key key) = Some \<lparr>kv_value = ''pending:'' @ who, kv_expires = Some until\<rparr>"
    "\<forall>p\<in>set polls. wp_others p = id \<and> wp_now p < until" "\<exists>p\<in>set polls. deadline \<le> wp_now p"
  shows "await_idempotent_winner jc codec env get_view key deadline polls core st = Some (core, st, Inl (coded Aborted ''busy'' True), [])"
  using assms(4,5)
proof (induction polls)
  case (Cons p polls)
  have "utf8_lossy (''pending:'' @ who) = ''pending:'' @ utf8_lossy who" by (simp add: utf8_lossy.simps(2) utf8_step_ascii)
  then have strip: "strip_prefix ''sid:'' (utf8_lossy (''pending:'' @ who)) = None" by (simp add: strip_prefix_def)
  have live: "kv_at (wp_now p) (idem_key key) st = Some \<lparr>kv_value = ''pending:'' @ who, kv_expires = Some until\<rparr>"
    using assms(3) Cons.prems(1) by (simp add: kv_at_def kv_live_def)
  obtain r where r: "redis_get (wp_now p) (wp_fates p) (idem_key key) st = (st, r)" "r = Inr (Some (''pending:'' @ who)) \<or> (\<exists>e. r = Inl e)"
    by (rule get_live [OF assms(1,2) live, of "wp_fates p"]) auto
  have "await_idempotent_winner jc codec env get_view key deadline (p # polls) core st =
      (if deadline \<le> wp_now p then Some (core, st, Inl (coded Aborted ''busy'' True), [])
       else await_idempotent_winner jc codec env get_view key deadline polls core st)"
    using r Cons.prems(1) strip by (auto simp: Let_def)
  then show ?case using Cons by auto
qed simp

text \<open>Finding a sandbox only reads it, and a wait makes no create request.\<close>

lemma resolve_reads: "resolve_sandbox codec env sid core st = (core', st', r, sent) \<Longrightarrow> x \<in> set sent \<Longrightarrow> \<exists>url. x = GetRpc url sid"
  by (auto simp: resolve_sandbox_def Let_def split: if_splits option.splits prod.splits sum.splits)

lemma await_creates_nothing:
  "await_idempotent_winner jc codec env get_view key deadline polls core st = Some (core', st', r, sent) \<Longrightarrow> CreateRpc wid \<notin> set sent"
proof (induction jc codec env get_view key deadline polls core st arbitrary: core' st' r sent rule: await_idempotent_winner.induct)
  case (2 jc codec env get_view key deadline poll polls core st)
  obtain st1 a where get: "redis_get (wp_now poll) (wp_fates poll) (idem_key key) (wp_others poll st) = (st1, a)" by fastforce
  have again: "(if deadline \<le> wp_now poll then Some (core, st1, Inl (coded Aborted ''busy'' True), [])
      else await_idempotent_winner jc codec env get_view key deadline polls core st1) = Some (core', st', r, sent) \<Longrightarrow> CreateRpc wid \<notin> set sent"
    using 2 get by (auto split: if_splits)
  show ?case
    using 2(2) get again resolve_reads by (fastforce simp: Let_def split: sum.splits option.splits prod.splits)
qed simp


section \<open>Properties\<close>

text \<open>
  A create asks few workers, each once, and leaves no reservation behind. Whatever the workers answer and other tasks do meanwhile, the loop asks at most one
  worker more than the configured retries and no worker twice, goes on only after an answer that may be retried or a timeout, succeeds only with the view of the last worker asked, and when it returns, the
  in-flight memory of every worker is again exactly that of the placements others hold.
\<close>

theorem create_placement_contract:
  assumes "table_ok (sc_table core, held)"
  shows "case place_and_create jc codec needs env core held of (core', held', r, sent) \<Rightarrow>
    table_ok (sc_table core', held') \<and> distinct sent \<and> length sent \<le> so_create_retries (sc_options core) + 1 \<and>
    (\<forall>i<length sent - 1. gave_up (at_outcome (env i) (sent ! i))) \<and>
    (case r of
       Inr view \<Rightarrow> sent \<noteq> [] \<and> sc_created core' = sc_created core + 1 \<and>
         (\<exists>raw url. at_outcome (env (length sent - 1)) (last sent) = WView raw \<and> view = annotate_view jc raw (last sent) url)
     | Inl _ \<Rightarrow> sc_created core' = sc_created core \<and> sc_route_cache core' = sc_route_cache core \<and> sc_route_writes core' = sc_route_writes core)"
proof -
  define ats where "ats = map env [0..<so_create_retries (sc_options core) + 1]"
  obtain core' held' r sent where res: "place_and_create jc codec needs env core held = (core', held', r, sent)" by (metis prod_cases4)
  have promise: "loop_promise jc ats [] core (core', held', r, sent)"
    using place_loop_promise [OF assms, of jc ats "[]" codec needs None] res unfolding place_and_create_def ats_def by metis
  have len: "length ats = so_create_retries (sc_options core) + 1" by (simp add: ats_def)
  then have nth: "ats ! i = env i" if "i < length sent" for i
    using that promise by (simp add: loop_promise_def ats_def del: upt_Suc)
  have early: "\<forall>i<length sent - 1. gave_up (at_outcome (env i) (sent ! i))" using promise nth by (auto simp: loop_promise_def)
  show ?thesis
  proof (cases r)
    case (Inl s)
    then show ?thesis using promise early by (simp add: res loop_promise_def len)
  next
    case (Inr view)
    then have "sent \<noteq> []" using promise by (simp add: loop_promise_def)
    then have "ats ! (length sent - 1) = env (length sent - 1)" using nth by (cases sent) auto
    then show ?thesis using promise early Inr by (simp add: res loop_promise_def len)
  qed
qed


text \<open>
  A lost reply closes the gate. The request that sets the marker is retried when its reply is lost, and the retry finds the marker of the first attempt: the scheduler takes it for
  another's, waits for a winner that does not exist until its deadline, and fails without asking any worker. The marker stays for an hour, and until then no create with the key whose gate request is answered asks a worker
  to create either.
\<close>

theorem idempotent_gate_lost_reply:
  assumes spec: "keyed_spec jc spec_json key" and inst: "length (''pending:'' @ sc_instance core) \<le> MAX_ARG_BYTES"
    and st: "store_ok st" "kv_at (ce_now env) (idem_key key) st = None" and gate: "ce_gate env = (LostReply, Served)"
    and polls: "\<forall>p\<in>set (ce_polls env). wp_others p = id \<and> wp_now p < ce_now env + IDEM_TTL_MS * 1000000"
      "\<exists>p\<in>set (ce_polls env). ce_now env + attempt_limit (ce_now env) (so_create_timeout (sc_options core)) deadline \<le> wp_now p"
  shows "\<exists>st'. create_one jc codec env deadline spec_json core held st = Some (core, held, st', Inl (coded Aborted ''busy'' True), []) \<and>
    (\<forall>env' deadline'. ce_now env' < ce_now env + IDEM_TTL_MS * 1000000 \<longrightarrow> answered (ce_gate env') \<longrightarrow>
       (case create_one jc codec env' deadline' spec_json core held st' of None \<Rightarrow> True | Some (_, _, _, _, sent) \<Rightarrow> \<forall>wid. CreateRpc wid \<notin> set sent))"
proof -
  have key: "key_ok (idem_key key)" using spec by (simp add: keyed_spec_def)
  let ?e = "\<lparr>kv_value = ''pending:'' @ sc_instance core, kv_expires = Some (ce_now env + IDEM_TTL_MS * 1000000)\<rparr>"
  let ?st = "kv_put (idem_key key) ?e st"
  have live: "kv_at now (idem_key key) ?st = Some ?e" if "now < ce_now env + IDEM_TTL_MS * 1000000" for now
    using that by (simp add: kv_at_def kv_live_def)
  have "redis_set_nx_px (ce_now env) (ce_gate env) (idem_key key) (''pending:'' @ sc_instance core) IDEM_TTL_MS st = (?st, Inr False)"
    using exchange_set_nx [OF key inst IDEM_fits(1), of "[]" "ce_now env" 0 st] exchange_set_nx [OF key inst IDEM_fits(1), of "[]" "ce_now env" 0 ?st]
      st(2) gate live [of "ce_now env"] IDEM_fits(2) by (simp add: redis_set_nx_px_def redis_call_def)
  note waits = create_waits [OF spec inst this]
  have ok: "store_ok ?st" using st(1) inst by (auto simp: store_ok_def)
  have "st_kv ?st (idem_key key) = Some ?e" by simp
  from await_pending [OF key ok this polls] waits
  have "create_one jc codec env deadline spec_json core held st = Some (core, held, ?st, Inl (coded Aborted ''busy'' True), [])" by simp
  moreover have "case create_one jc codec env' deadline' spec_json core held ?st of None \<Rightarrow> True | Some (_, _, _, _, sent) \<Rightarrow> \<forall>wid. CreateRpc wid \<notin> set sent"
    if "ce_now env' < ce_now env + IDEM_TTL_MS * 1000000" "answered (ce_gate env')" for env' deadline'
    using create_waits [OF spec inst gate_taken [OF key inst live [OF that(1)] that(2)]] by (auto dest: await_creates_nothing split: option.split)
  ultimately show ?thesis by blast
qed

section \<open>Witnesses\<close>

text \<open>One worker, a create with key \<open>k\<close>, and a view naming the sandbox \<open>s\<close>.\<close>

definition sample_json :: json_codec where
  "sample_json = (\<lambda>_. ''view'', \<lambda>text. Some (JObject (if text = ''spec'' then [''idempotency_key'' \<mapsto> JString ''k''] else [''name'' \<mapsto> JString ''s''])))"

definition one_worker :: worker_table where
  "one_worker = upsert 0 (sample_hb 1 100) (table_new (config_from_dead_after 5))"

definition sample_core :: sched_core where
  "sample_core = sched_new one_worker \<lparr>so_create_timeout = 10, so_create_retries = 3\<rparr> ''i''"

definition sample_attempt :: attempt where
  "sample_attempt = \<lparr>at_now = 1, at_order = [''w''], at_r1 = 0, at_r2 = 0, at_channel = (\<lambda>_. None), at_outcome = (\<lambda>_. WView ''raw''), at_others = [],
     at_after = 1, at_ms = 0\<rparr>"

definition sample_poll :: "nat \<Rightarrow> winner_poll" where
  "sample_poll now = \<lparr>wp_now = now, wp_fates = (Served, Served), wp_others = id\<rparr>"

definition sample_create :: "nat \<Rightarrow> fate \<times> fate \<Rightarrow> create_env" where
  "sample_create now gate = \<lparr>ce_now = now, ce_gate = gate, ce_attempts = (\<lambda>_. sample_attempt), ce_done = now, ce_finish = (Served, Served),
     ce_polls = [sample_poll (now + 10)],
     ce_resolve = \<lparr>re_now = now, re_fates = (Served, Served), re_order = [], re_arrival = id, re_owns = (\<lambda>_ _. False)\<rparr>, ce_view = (\<lambda>_ _. Inr ''raw'')\<rparr>"

lemma one_worker_ok: "table_ok (one_worker, [])"
  by (simp add: table_ok_def reserved_on_def one_worker_def upsert_def table_new_def sample_hb_def WIRE_VERSION_def)

theorem create_placement_contract_witness:
  "case place_and_create sample_json sample_codec (from_create_json (\<lambda>_. None)) (\<lambda>_. sample_attempt) sample_core [] of (core', held', r, sent) \<Rightarrow>
     table_ok (sc_table core', held') \<and> distinct sent \<and> length sent \<le> 4"
proof -
  have "table_ok (sc_table sample_core, [])" using one_worker_ok by (simp add: sample_core_def sched_new_def)
  from create_placement_contract [OF this, where jc = sample_json and codec = sample_codec and needs = "from_create_json (\<lambda>_. None)" and env = "\<lambda>_. sample_attempt"]
  show ?thesis by (auto simp: sample_core_def sched_new_def)
qed

lemma sample_spec: "keyed_spec sample_json ''spec'' ''k''"
  by (simp add: keyed_spec_def idem_key_def key_ok_def MAX_ARG_BYTES_def sample_json_def)





theorem idempotent_gate_lost_reply_witness:
  "\<exists>st'. create_one sample_json sample_codec (sample_create 0 (LostReply, Served)) None ''spec'' sample_core [] store_empty =
     Some (sample_core, [], st', Inl (coded Aborted ''busy'' True), [])"
proof -
  let ?env = "sample_create 0 (LostReply, Served)"
  have "length (''pending:'' @ sc_instance sample_core) \<le> MAX_ARG_BYTES" "store_ok store_empty" "kv_at (ce_now ?env) (idem_key ''k'') store_empty = None"
      "ce_gate ?env = (LostReply, Served)"
      "\<forall>p\<in>set (ce_polls ?env). wp_others p = id \<and> wp_now p < ce_now ?env + IDEM_TTL_MS * 1000000"
      "\<exists>p\<in>set (ce_polls ?env). ce_now ?env + attempt_limit (ce_now ?env) (so_create_timeout (sc_options sample_core)) None \<le> wp_now p"
    by (simp_all add: sample_core_def sched_new_def MAX_ARG_BYTES_def store_ok_def store_empty_def kv_at_def sample_create_def sample_poll_def
        attempt_limit_def remaining_def IDEM_TTL_MS_def)
  from idempotent_gate_lost_reply [OF sample_spec this, where codec = sample_codec and held = "[]"] show ?thesis by blast
qed

end
