(* ===== verification/Reconciler.thy ===== *)
theory Reconciler
  imports Json
begin

text \<open>
  Failover of sandboxes whose node died, \<^verbatim>\<open>vmond/src/mesh/reconciler.rs\<close>. The reconciler decides through traits (mesh state, engine, records, replicas, leases) that other modules implement; here
  every call is answered by an environment that may depend on all calls before it, and is recorded in a log, newest first. A function is a transformer of the log and of the claim guard that returns or
  fails. Record parameters are JSON values; a lease and a sandbox are named by strings; messages are left out.
\<close>

section \<open>Records\<close>

record reconcile_config =
  rcf_replicate_sec :: f64
  rcf_replicas :: nat
  rcf_replicate_concurrency :: nat
  rcf_restore_quorum :: "bool option"
  rcf_outbound_token :: string

definition restore_quorum_enabled :: "reconcile_config \<Rightarrow> nat \<Rightarrow> bool" where
  "restore_quorum_enabled cfg expected_members = (case rcf_restore_quorum cfg of Some b \<Rightarrow> b | None \<Rightarrow> 3 \<le> expected_members)"

record lineage_record =
  ln_sid :: string
  ln_params :: json
  ln_owner :: string
  ln_epoch :: nat
  ln_idempotency_key :: string
  ln_ha :: string
  ln_restart_policy :: string

record replica_record =
  rp_sid :: string
  rp_digest :: string
  rp_object_key :: string
  rp_source_node :: string
  rp_source_epoch :: nat
  rp_checkpoint_generation :: nat
  rp_snapshot_dir :: string
  rp_params :: json
  rp_needs_secrets :: bool

definition replica_lineage_matches :: "replica_record \<Rightarrow> lineage_record \<Rightarrow> bool" where
  "replica_lineage_matches rep lin \<longleftrightarrow> rp_source_node rep = ln_owner lin \<and> rp_source_epoch rep = ln_epoch lin"

definition replica_restore_pending :: "replica_record \<Rightarrow> lineage_record \<Rightarrow> json" where
  "replica_restore_pending rep lin = (case json_get (ln_params lin) ''_mesh_restore_pending'' of
     Some pending \<Rightarrow> pending
   | None \<Rightarrow> JObject [''kind'' \<mapsto> JString ''replica'', ''source_owner'' \<mapsto> JString (rp_source_node rep),
       ''source_epoch'' \<mapsto> JNumber (PosInt (rp_source_epoch rep)), ''digest'' \<mapsto> JString (rp_digest rep),
       ''checkpoint_generation'' \<mapsto> JNumber (PosInt (rp_checkpoint_generation rep))])"

definition rerun_restore_pending :: "lineage_record \<Rightarrow> json" where
  "rerun_restore_pending lin = (case json_get (ln_params lin) ''_mesh_restore_pending'' of
     Some pending \<Rightarrow> pending
   | None \<Rightarrow> JObject [''kind'' \<mapsto> JString ''rerun'', ''source_owner'' \<mapsto> JString (ln_owner lin), ''source_epoch'' \<mapsto> JNumber (PosInt (ln_epoch lin))])"

definition replica_matches_restore_pending :: "replica_record \<Rightarrow> json \<Rightarrow> bool" where
  "replica_matches_restore_pending rep pending \<longleftrightarrow>
     Option.bind (json_get pending ''kind'') as_str = Some ''replica'' \<and>
     Option.bind (json_get pending ''source_owner'') as_str = Some (rp_source_node rep) \<and>
     Option.bind (json_get pending ''source_epoch'') as_u64 = Some (rp_source_epoch rep) \<and>
     Option.bind (json_get pending ''digest'') as_str = Some (rp_digest rep) \<and>
     Option.bind (json_get pending ''checkpoint_generation'') as_u64 = Some (rp_checkpoint_generation rep)"

definition record_restore_pending :: "lineage_record \<Rightarrow> bool" where
  "record_restore_pending lin \<longleftrightarrow> json_get (ln_params lin) ''_mesh_restore_pending'' \<noteq> None"

fun contains_text :: "string \<Rightarrow> string \<Rightarrow> bool" where
  "contains_text pat [] \<longleftrightarrow> pat = []"
| "contains_text pat (c # cs) \<longleftrightarrow> take (length pat) (c # cs) = pat \<or> contains_text pat cs"

definition record_can_rerun :: "lineage_record \<Rightarrow> bool" where
  "record_can_rerun lin \<longleftrightarrow> ln_restart_policy lin = ''rerun'' \<or> contains_text ''rerun'' (ln_ha lin)"

section \<open>Calls\<close>

datatype rc_event =
    ERecord "lineage_record option result" | EMissing "bool result" | EOwner "string option result" | EHealthy string bool
  | ENonserving "bool result" | EReplica "replica_record option result" | ESecrets "bool result" | ERestoreOwner "string option"
  | EQuorum nat bool | EWorkerBegin string bool | EWorkerEnd string | EDropReplica "unit result"
  | EClaim json "nat result" | EBegin | ERunning bool | EGet "string result" | ERenew "bool result" | EAcquire "string list result"
  | ELaunch "string result" | ERerun "string result" | ESetMeta "unit result" | ERecordLeases "unit result" | ERecordIdem "unit result"
  | EActivate "unit result" | ECommit "unit result" | EApplied "bool result" | ECancel | EForget | ERemove "unit result"
  | EReleaseRecord "unit result" | EReleaseLeases "string list" | EAbortEpoch | EEnd | ENote string | ERequeue

type_synonym rc_log = "rc_event list"

text \<open>What the traits answer. A probe is the answer of a member to the question whether a node is reachable, if there is one.\<close>

record rc_env =
  en_record :: "rc_log \<Rightarrow> lineage_record option result"
  en_missing :: "rc_log \<Rightarrow> bool result"
  en_owner :: "rc_log \<Rightarrow> string option result"
  en_healthy :: "rc_log \<Rightarrow> string \<Rightarrow> bool"
  en_nonserving :: "rc_log \<Rightarrow> bool result"
  en_replica :: "rc_log \<Rightarrow> replica_record option result"
  en_secrets :: "rc_log \<Rightarrow> bool result"
  en_restore_owner :: "rc_log \<Rightarrow> string list \<Rightarrow> string option"
  en_members :: "rc_log \<Rightarrow> string list"
  en_probe :: "rc_log \<Rightarrow> string \<Rightarrow> bool option"
  en_quorum_met :: "rc_log \<Rightarrow> nat \<Rightarrow> bool"
  en_worker_begin :: "rc_log \<Rightarrow> bool"
  en_drop :: "rc_log \<Rightarrow> unit result"
  en_claim :: "rc_log \<Rightarrow> nat result"
  en_running :: "rc_log \<Rightarrow> bool"
  en_get :: "rc_log \<Rightarrow> string \<Rightarrow> string result"
  en_renew :: "rc_log \<Rightarrow> bool result"
  en_acquire :: "rc_log \<Rightarrow> string list result"
  en_ticks :: "rc_log \<Rightarrow> nat"
  en_launch :: "rc_log \<Rightarrow> string result"
  en_run :: "rc_log \<Rightarrow> string \<Rightarrow> json \<Rightarrow> json result"
  en_create :: "rc_log \<Rightarrow> json \<Rightarrow> string result"
  en_unit :: "rc_log \<Rightarrow> unit result"
  en_applied :: "rc_log \<Rightarrow> bool result"

text \<open>The claim guard, with the log.\<close>

record rc_state =
  rc_log :: rc_log
  cg_lease_records :: "string list"
  cg_restored :: "string option"
  cg_committed :: bool

type_synonym 'a rc = "rc_state \<Rightarrow> rc_state \<times> 'a result"

definition rc_return :: "'a \<Rightarrow> 'a rc" where "rc_return a s = (s, Inr a)"
definition rc_fail :: "error_code \<Rightarrow> 'a rc" where "rc_fail e s = (s, Inl e)"

definition rc_bind :: "'a rc \<Rightarrow> ('a \<Rightarrow> 'b rc) \<Rightarrow> 'b rc" where
  "rc_bind m f s = (case m s of (s, Inl e) \<Rightarrow> (s, Inl e) | (s, Inr a) \<Rightarrow> f a s)"

definition tell :: "rc_event \<Rightarrow> unit rc" where
  "tell ev s = (s\<lparr>rc_log := ev # rc_log s\<rparr>, Inr ())"

definition ask :: "(rc_log \<Rightarrow> 'a result) \<Rightarrow> ('a result \<Rightarrow> rc_event) \<Rightarrow> 'a rc" where
  "ask f ev s = (let r = f (rc_log s) in (s\<lparr>rc_log := ev r # rc_log s\<rparr>, r))"

definition learn :: "(rc_log \<Rightarrow> 'a) \<Rightarrow> ('a \<Rightarrow> rc_event) \<Rightarrow> 'a rc" where
  "learn f ev s = (let a = f (rc_log s) in (s\<lparr>rc_log := ev a # rc_log s\<rparr>, Inr a))"

text \<open>A result that is looked at and not propagated.\<close>

definition caught :: "'a rc \<Rightarrow> 'a result rc" where
  "caught m s = (case m s of (s, r) \<Rightarrow> (s, Inr r))"

section \<open>The claim guard\<close>

definition claim_guard_new :: "unit rc" where
  "claim_guard_new s = (s\<lparr>rc_log := EBegin # rc_log s, cg_lease_records := [], cg_restored := None, cg_committed := False\<rparr>, Inr ())"

definition set_lease_records :: "string list \<Rightarrow> unit rc" where
  "set_lease_records ls s = (s\<lparr>cg_lease_records := ls\<rparr>, Inr ())"

definition set_restored :: "string option \<Rightarrow> unit rc" where
  "set_restored r s = (s\<lparr>cg_restored := r\<rparr>, Inr ())"

definition set_committed :: "unit rc" where
  "set_committed s = (s\<lparr>cg_committed := True\<rparr>, Inr ())"

text \<open>Tear down, then release the claim; the claim is kept when the teardown cannot be confirmed.\<close>

definition tear_down :: "rc_env \<Rightarrow> string \<Rightarrow> bool rc" where
  "tear_down env name = rc_bind (caught (ask (en_unit env) ERemove)) (\<lambda>r. case r of
     Inl _ \<Rightarrow> rc_return False
   | Inr _ \<Rightarrow> rc_bind (caught (ask (en_unit env) EReleaseRecord)) (\<lambda>_. rc_return True))"

definition claim_abort :: "rc_env \<Rightarrow> string \<Rightarrow> unit rc" where
  "claim_abort env sid s =
     (if cg_committed s then (s, Inr ())
      else rc_bind (tell ECancel) (\<lambda>_. rc_bind (tell EForget) (\<lambda>_.
        rc_bind (case cg_restored s of
            Some name \<Rightarrow> rc_return (Some name)
          | None \<Rightarrow> rc_bind (caught (ask (\<lambda>log. en_get env log sid) EGet)) (\<lambda>r. rc_return (case r of Inr name \<Rightarrow> Some name | Inl _ \<Rightarrow> None))) (\<lambda>found.
        rc_bind (case found of Some name \<Rightarrow> tear_down env name | None \<Rightarrow> rc_return True) (\<lambda>torn_down.
        rc_bind (tell (EReleaseLeases (cg_lease_records s))) (\<lambda>_.
        rc_bind (if torn_down then tell EAbortEpoch else rc_return ()) (\<lambda>_.
        tell EEnd)))))) s)"

text \<open>An attempt under a claim: a failure aborts the claim, then is returned.\<close>

definition or_abort :: "rc_env \<Rightarrow> string \<Rightarrow> unit rc \<Rightarrow> unit rc" where
  "or_abort env sid m = rc_bind (caught m) (\<lambda>r. case r of
     Inr _ \<Rightarrow> rc_return ()
   | Inl e \<Rightarrow> rc_bind (claim_abort env sid) (\<lambda>_. rc_fail e))"

definition renew_or_busy :: "rc_env \<Rightarrow> unit rc" where
  "renew_or_busy env = rc_bind (ask (en_renew env) ERenew) (\<lambda>held. if held then rc_return () else rc_fail Busy)"

section \<open>Restoring from a replica\<close>

definition committed_now :: "unit rc" where
  "committed_now = rc_bind set_committed (\<lambda>_. tell EEnd)"

text \<open>The commit of a candidate that survived a crash: one try, then the question whether it was applied. A failing question ends the restore without an abort.\<close>

definition retained_commit :: "rc_env \<Rightarrow> unit rc" where
  "retained_commit env = rc_bind (caught (ask (en_unit env) ECommit)) (\<lambda>r. case r of
     Inr _ \<Rightarrow> committed_now
   | Inl e \<Rightarrow> rc_bind (ask (en_applied env) EApplied) (\<lambda>applied.
       if applied then committed_now else rc_bind committed_now (\<lambda>_. rc_fail e)))"

definition retained_steps :: "rc_env \<Rightarrow> unit rc" where
  "retained_steps env =
     rc_bind (renew_or_busy env) (\<lambda>_.
     rc_bind (ask (en_acquire env) EAcquire) (\<lambda>leases.
     rc_bind (set_lease_records leases) (\<lambda>_.
     rc_bind (ask (en_unit env) ERecordLeases) (\<lambda>_.
     rc_bind (renew_or_busy env) (\<lambda>_.
     rc_bind (ask (en_unit env) ESetMeta) (\<lambda>_.
     rc_bind (ask (en_unit env) EActivate) (\<lambda>_.
     renew_or_busy env)))))))"

definition finish_restore :: "rc_env \<Rightarrow> bool rc" where
  "finish_restore env = rc_bind (caught (ask (en_drop env) EDropReplica)) (\<lambda>_. rc_bind (tell (ENote ''restore'')) (\<lambda>_. rc_return False))"

definition restore_retained :: "rc_env \<Rightarrow> string \<Rightarrow> bool rc" where
  "restore_retained env sid = rc_bind (caught (ask (\<lambda>log. en_get env log sid) EGet)) (\<lambda>r.
     if r \<noteq> Inr sid then rc_bind (claim_abort env sid) (\<lambda>_. rc_fail Busy)
     else rc_bind (set_restored (Some sid)) (\<lambda>_.
          rc_bind (or_abort env sid (retained_steps env)) (\<lambda>_.
          rc_bind (retained_commit env) (\<lambda>_. finish_restore env))))"

text \<open>The launch, with the renewals that come due before it returns; a lost lease cancels it and renewing stops.\<close>

fun launch_loop :: "rc_env \<Rightarrow> nat \<Rightarrow> bool \<Rightarrow> string rc" where
  "launch_loop env 0 lease_lost = rc_bind (ask (en_launch env) ELaunch) (\<lambda>name. if lease_lost then rc_fail Busy else rc_return name)"
| "launch_loop env (Suc n) lease_lost =
     (if lease_lost then launch_loop env n True
      else rc_bind (ask (en_renew env) ERenew) (\<lambda>held.
        if held then launch_loop env n False else rc_bind (tell ECancel) (\<lambda>_. launch_loop env n True)))"

definition launch :: "rc_env \<Rightarrow> string rc" where
  "launch env s = launch_loop env (en_ticks env (rc_log s)) False s"

text \<open>The commit of a fresh candidate: two tries, then the question.\<close>

definition commit_twice :: "rc_env \<Rightarrow> unit rc" where
  "commit_twice env = rc_bind (caught (ask (en_unit env) ECommit)) (\<lambda>r. case r of
     Inr _ \<Rightarrow> committed_now
   | Inl first \<Rightarrow> rc_bind (caught (ask (en_unit env) ECommit)) (\<lambda>r. case r of
       Inr _ \<Rightarrow> committed_now
     | Inl _ \<Rightarrow> rc_bind (ask (en_applied env) EApplied) (\<lambda>applied.
         if applied then committed_now else rc_bind committed_now (\<lambda>_. rc_fail first))))"

definition launch_steps :: "rc_env \<Rightarrow> unit rc" where
  "launch_steps env =
     rc_bind (ask (en_acquire env) EAcquire) (\<lambda>leases.
     rc_bind (set_lease_records leases) (\<lambda>_.
     rc_bind (renew_or_busy env) (\<lambda>_.
     rc_bind (launch env) (\<lambda>name.
     rc_bind (set_restored (Some name)) (\<lambda>_.
     rc_bind (renew_or_busy env) (\<lambda>_.
     rc_bind (ask (en_unit env) ESetMeta) (\<lambda>_.
     rc_bind (ask (en_unit env) ERecordLeases) (\<lambda>_.
     rc_bind (ask (en_unit env) EActivate) (\<lambda>_.
     rc_bind (renew_or_busy env) (\<lambda>_.
     commit_twice env))))))))))"

definition restore_fresh :: "rc_env \<Rightarrow> string \<Rightarrow> bool rc" where
  "restore_fresh env sid = rc_bind (or_abort env sid (launch_steps env)) (\<lambda>_. finish_restore env)"

definition valid_lineage :: "replica_record \<Rightarrow> lineage_record \<Rightarrow> bool" where
  "valid_lineage rep lin = (if record_restore_pending lin then replica_matches_restore_pending rep (replica_restore_pending rep lin)
     else replica_lineage_matches rep lin)"

definition claim :: "rc_env \<Rightarrow> json \<Rightarrow> unit rc" where
  "claim env pending = rc_bind (ask (en_claim env) (EClaim pending)) (\<lambda>_. claim_guard_new)"

definition with_worker :: "rc_env \<Rightarrow> string \<Rightarrow> bool rc \<Rightarrow> bool rc" where
  "with_worker env key m = rc_bind (learn (en_worker_begin env) (EWorkerBegin key)) (\<lambda>started.
     if \<not> started then rc_return True
     else rc_bind (caught m) (\<lambda>r. rc_bind (tell (EWorkerEnd key)) (\<lambda>_. case r of Inr b \<Rightarrow> rc_return b | Inl e \<Rightarrow> rc_fail e)))"

definition replica_attempt :: "rc_env \<Rightarrow> string \<Rightarrow> lineage_record option \<Rightarrow> bool rc" where
  "replica_attempt env sid create_record =
     rc_bind (ask (en_replica env) EReplica) (\<lambda>found. case found of
        None \<Rightarrow> rc_fail NotFound
      | Some rep \<Rightarrow>
          (case create_record of
             None \<Rightarrow> rc_bind (ask (en_drop env) EDropReplica) (\<lambda>_. rc_fail Invalid)
           | Some lin \<Rightarrow>
               if \<not> valid_lineage rep lin then rc_bind (ask (en_drop env) EDropReplica) (\<lambda>_. rc_fail Invalid)
               else rc_bind (claim env (replica_restore_pending rep lin)) (\<lambda>_.
                    rc_bind (learn (en_running env) ERunning) (\<lambda>running.
                      if running then restore_retained env sid else restore_fresh env sid))))"

definition restore_from_replica :: "rc_env \<Rightarrow> string \<Rightarrow> lineage_record option \<Rightarrow> bool rc" where
  "restore_from_replica env sid create_record = with_worker env (''restore:'' @ sid) (replica_attempt env sid create_record)"

section \<open>Running a record again\<close>

text \<open>Kind and parameters of the new run.\<close>

definition rerun_kind :: "params \<Rightarrow> string" where
  "rerun_kind p = (case Option.bind (p ''_kind'') as_str of Some k \<Rightarrow> k | None \<Rightarrow> ''sandbox'')"

definition rerun_params :: "string \<Rightarrow> lineage_record \<Rightarrow> params \<Rightarrow> json" where
  "rerun_params sid lin p =
     (let q = (p(''_kind'' := None))(''name'' \<mapsto> JString sid, ''ha'' \<mapsto> JString (ln_ha lin), ''restart_policy'' \<mapsto> JString (ln_restart_policy lin))
      in JObject (if rerun_kind p = ''run'' \<or> rerun_kind p = ''restore'' then q(''detach'' \<mapsto> JBool True) else q))"

definition created_name_from_value :: "json \<Rightarrow> string \<Rightarrow> string" where
  "created_name_from_value v fallback = (case Option.bind (json_get v ''name'') as_str of
     Some name \<Rightarrow> if name \<noteq> [] then name else fallback | None \<Rightarrow> fallback)"

definition start_again :: "rc_env \<Rightarrow> string \<Rightarrow> lineage_record \<Rightarrow> params \<Rightarrow> string rc" where
  "start_again env sid lin p =
     ask (\<lambda>log. if rerun_kind p = ''run'' \<or> rerun_kind p = ''restore''
       then map_sum id (\<lambda>v. created_name_from_value v sid) (en_run env log (rerun_kind p) (rerun_params sid lin p))
       else en_create env log (rerun_params sid lin p)) ERerun"

definition rerun_steps :: "rc_env \<Rightarrow> string \<Rightarrow> lineage_record \<Rightarrow> unit rc" where
  "rerun_steps env sid lin =
     rc_bind (renew_or_busy env) (\<lambda>_.
       case as_object (ln_params lin) of
         None \<Rightarrow> rc_fail Invalid
       | Some p \<Rightarrow>
           rc_bind (start_again env sid lin p) (\<lambda>name.
           rc_bind (caught (ask (\<lambda>log. en_get env log name) EGet)) (\<lambda>r.
           rc_bind (set_restored (case r of Inr n \<Rightarrow> Some n | Inl _ \<Rightarrow> None)) (\<lambda>_.
           rc_bind (renew_or_busy env) (\<lambda>_.
           rc_bind (ask (en_unit env) ESetMeta) (\<lambda>_.
           rc_bind (ask (en_unit env) ERecordIdem) (\<lambda>_.
           rc_bind (ask (en_unit env) ECommit) (\<lambda>_. committed_now))))))))"

definition rerun_attempt :: "rc_env \<Rightarrow> string \<Rightarrow> lineage_record \<Rightarrow> bool rc" where
  "rerun_attempt env sid lin =
     (if Option.bind (json_get (rerun_restore_pending lin) ''kind'') as_str \<noteq> Some ''rerun'' then rc_fail Invalid
      else rc_bind (claim env (rerun_restore_pending lin)) (\<lambda>_.
           rc_bind (or_abort env sid (rerun_steps env sid lin)) (\<lambda>_.
           rc_bind (tell (ENote ''restore'')) (\<lambda>_. rc_return True))))"

definition rerun_from_record :: "rc_env \<Rightarrow> string \<Rightarrow> bool rc" where
  "rerun_from_record env sid = rc_bind (ask (en_record env) ERecord) (\<lambda>found. case found of
     None \<Rightarrow> rc_return False
   | Some lin \<Rightarrow>
       if \<not> record_can_rerun lin then rc_return False
       else with_worker env (''rerun:'' @ sid) (rerun_attempt env sid lin))"

section \<open>Orphans\<close>

definition quorum_confirmations :: "rc_env \<Rightarrow> string \<Rightarrow> rc_log \<Rightarrow> nat" where
  "quorum_confirmations env node lg = 1 + length (filter (\<lambda>m. m \<noteq> node \<and> en_probe env lg m = Some False) (en_members env lg))"

definition restore_quorum_confirmed :: "rc_env \<Rightarrow> string \<Rightarrow> bool rc" where
  "restore_quorum_confirmed env node s =
     (let n = quorum_confirmations env node (rc_log s) in learn (\<lambda>log. en_quorum_met env log n) (EQuorum n) s)"

text \<open>Whether another live node serves the sandbox.\<close>

definition served_elsewhere :: "rc_env \<Rightarrow> string \<Rightarrow> string \<Rightarrow> bool rc" where
  "served_elsewhere env node dead = rc_bind (ask (en_owner env) EOwner) (\<lambda>found. case found of
     None \<Rightarrow> rc_return False
   | Some owner \<Rightarrow>
       if owner = dead then rc_return False
       else if owner = node then rc_return True
       else learn (\<lambda>log. en_healthy env log owner) (EHealthy owner))"

text \<open>The result of the following is whether the orphan stays queued. First the takeover itself, once the checks have passed.\<close>

definition take_over :: "rc_env \<Rightarrow> string \<Rightarrow> lineage_record option \<Rightarrow> bool \<Rightarrow> bool rc" where
  "take_over env sid create_record ready =
     (if ready then restore_from_replica env sid create_record
      else if (case create_record of Some lin \<Rightarrow> record_can_rerun lin | None \<Rightarrow> False)
        then rc_bind (rerun_from_record env sid) (\<lambda>reran. rc_return (\<not> reran))
      else rc_return True)"

text \<open>Whether this node is the one to restore: with the secrets it is, otherwise placement decides unless it already holds the pending claim.\<close>

definition restores_here :: "rc_env \<Rightarrow> string \<Rightarrow> string \<Rightarrow> lineage_record option \<Rightarrow> bool \<Rightarrow> bool \<Rightarrow> bool rc" where
  "restores_here env node dead create_record missing needs =
     (if needs then rc_return True
      else if (case create_record of Some lin \<Rightarrow> record_restore_pending lin \<and> ln_owner lin = node | None \<Rightarrow> False) then rc_return True
      else rc_bind (learn (\<lambda>log. en_restore_owner env log (if missing then [] else [dead])) ERestoreOwner) (\<lambda>chosen. rc_return (chosen = Some node)))"

definition quorum_allows :: "reconcile_config \<Rightarrow> rc_env \<Rightarrow> string \<Rightarrow> nat \<Rightarrow> bool \<Rightarrow> bool rc" where
  "quorum_allows cfg env node expected_members missing =
     (if restore_quorum_enabled cfg expected_members \<and> \<not> missing then restore_quorum_confirmed env node else rc_return True)"

definition orphan_decide :: "reconcile_config \<Rightarrow> rc_env \<Rightarrow> string \<Rightarrow> nat \<Rightarrow> string \<Rightarrow> string \<Rightarrow> lineage_record option \<Rightarrow> bool \<Rightarrow> bool rc" where
  "orphan_decide cfg env node expected_members sid dead create_record missing =
     (let ha = (case create_record of Some lin \<Rightarrow> ln_ha lin | None \<Rightarrow> ''async'')
      in if ha = ''off'' then rc_return False else
     rc_bind (if ha = ''async'' \<or> ha = ''async+rerun'' then ask (en_replica env) EReplica else rc_return None) (\<lambda>replica.
     let needs = (case replica of Some rep \<Rightarrow> rp_needs_secrets rep | None \<Rightarrow> False) in
     rc_bind (if replica = None then rc_return False else if needs then ask (en_secrets env) ESecrets else rc_return True) (\<lambda>ready.
     if needs \<and> \<not> ready then rc_return True else
     rc_bind (restores_here env node dead create_record missing needs) (\<lambda>mine.
     if \<not> mine then rc_return True else
     rc_bind (quorum_allows cfg env node expected_members missing) (\<lambda>confirmed.
     if \<not> confirmed then rc_return True else take_over env sid create_record ready)))))"

definition orphan_steps :: "reconcile_config \<Rightarrow> rc_env \<Rightarrow> string \<Rightarrow> nat \<Rightarrow> string \<Rightarrow> string \<Rightarrow> bool rc" where
  "orphan_steps cfg env node expected_members sid dead =
     rc_bind (ask (en_record env) ERecord) (\<lambda>create_record.
     rc_bind (ask (en_missing env) EMissing) (\<lambda>missing.
     let pending = (case create_record of Some lin \<Rightarrow> record_restore_pending lin | None \<Rightarrow> False) in
     rc_bind (if \<not> pending \<and> \<not> missing then served_elsewhere env node dead else rc_return False) (\<lambda>served. if served then rc_return False else
     rc_bind (if \<not> pending \<and> \<not> missing then learn (\<lambda>log. en_healthy env log dead) (EHealthy dead) else rc_return False) (\<lambda>reachable. if reachable then rc_return True else
     rc_bind (if \<not> pending then ask (en_nonserving env) ENonserving else rc_return False) (\<lambda>nonserving. if nonserving then rc_return False else
     orphan_decide cfg env node expected_members sid dead create_record missing)))))"

definition reconcile_orphan :: "reconcile_config \<Rightarrow> rc_env \<Rightarrow> string \<Rightarrow> nat \<Rightarrow> string \<Rightarrow> string \<Rightarrow> rc_state \<Rightarrow> rc_state" where
  "reconcile_orphan cfg env node expected_members sid dead s =
     (case orphan_steps cfg env node expected_members sid dead s of
        (s, r) \<Rightarrow> if r = Inr False then s else s\<lparr>rc_log := ERequeue # rc_log s\<rparr>)"

section \<open>Fencing\<close>

definition fence_local :: "rc_env \<Rightarrow> string \<Rightarrow> rc_state \<Rightarrow> rc_state" where
  "fence_local env sid s = fst (rc_bind (ask (\<lambda>log. en_get env log sid) EGet) (\<lambda>_.
     rc_bind (ask (en_unit env) ERemove) (\<lambda>_.
     rc_bind (ask (en_unit env) EReleaseRecord) (\<lambda>_.
     rc_bind (tell EForget) (\<lambda>_. tell (ENote ''fence''))))) s)"

end
