(* ===== verification/ReconcilerProps.thy ===== *)
theory ReconcilerProps
  imports Reconciler "HOL-Library.Sublist"
begin

text \<open>
  What the failover code of theory Reconciler does in every environment, stated on the log of its calls. A log is lawful when each of its events is allowed by the events before it: a serving commit needs a
  claim, a renewed epoch and a candidate that was activated with its volume leases held or started again from its record; the claim is given back only after a confirmed teardown, with the leases released, and never after a commit that took effect. The proofs are
  by weakest preconditions over the monad of the model.
\<close>

section \<open>Lawful logs\<close>

definition is_right :: "'a result \<Rightarrow> bool" where
  "is_right r = (case r of Inr _ \<Rightarrow> True | Inl _ \<Rightarrow> False)"

lemma is_right_simps [simp]: "is_right (Inr a)" "\<not> is_right (Inl e)"
  by (simp_all add: is_right_def)

text \<open>The newest event that matters decides each of these.\<close>

fun claimed :: "rc_log \<Rightarrow> bool" where
  "claimed (EClaim _ r # _) = is_right r"
| "claimed (EAbortEpoch # _) = False"
| "claimed (EEnd # _) = False"
| "claimed (_ # lg) = claimed lg"
| "claimed [] = False"

fun epoch_held :: "rc_log \<Rightarrow> bool" where
  "epoch_held (ERenew r # _) = (r = Inr True)"
| "epoch_held (EClaim _ _ # _) = False"
| "epoch_held (_ # lg) = epoch_held lg"
| "epoch_held [] = False"

text \<open>The candidate of a replica restore was activated, and the leases of its writable volumes are held; or the sandbox was started again from its record.\<close>

fun activated :: "rc_log \<Rightarrow> bool" where
  "activated (EActivate r # _) = is_right r"
| "activated (EClaim _ _ # _) = False"
| "activated (_ # lg) = activated lg"
| "activated [] = False"

fun leases_held :: "rc_log \<Rightarrow> bool" where
  "leases_held (EAcquire r # _) = is_right r"
| "leases_held (EReleaseLeases _ # _) = False"
| "leases_held (EClaim _ _ # _) = False"
| "leases_held (_ # lg) = leases_held lg"
| "leases_held [] = False"

fun rerun_started :: "rc_log \<Rightarrow> bool" where
  "rerun_started (ERerun r # _) = is_right r"
| "rerun_started (EClaim _ _ # _) = False"
| "rerun_started (_ # lg) = rerun_started lg"
| "rerun_started [] = False"

fun torn_down :: "rc_log \<Rightarrow> bool" where
  "torn_down (ERemove r # _) = is_right r"
| "torn_down (EGet r # _) = (\<not> is_right r)"
| "torn_down (ELaunch _ # _) = False"
| "torn_down (ERerun _ # _) = False"
| "torn_down (EClaim _ _ # _) = False"
| "torn_down (_ # lg) = torn_down lg"
| "torn_down [] = False"

fun unserved :: "rc_log \<Rightarrow> bool" where
  "unserved (ECommit r # lg) = (\<not> is_right r \<and> unserved lg)"
| "unserved (EApplied r # lg) = (\<not> is_right r \<and> unserved lg)"
| "unserved (EClaim _ _ # _) = True"
| "unserved (_ # lg) = unserved lg"
| "unserved [] = True"

fun worker_held :: "rc_log \<Rightarrow> bool" where
  "worker_held (EWorkerBegin _ b # _) = b"
| "worker_held (EWorkerEnd _ # _) = False"
| "worker_held (_ # lg) = worker_held lg"
| "worker_held [] = False"

definition leases_released :: "rc_log \<Rightarrow> bool" where
  "leases_released lg = (case lg of EReleaseLeases _ # _ \<Rightarrow> True | _ \<Rightarrow> False)"

definition allowed :: "rc_event \<Rightarrow> rc_log \<Rightarrow> bool" where
  "allowed ev lg = (case ev of
     EClaim _ _ \<Rightarrow> worker_held lg
   | ECommit _ \<Rightarrow> worker_held lg \<and> claimed lg \<and> epoch_held lg \<and> (activated lg \<and> leases_held lg \<or> rerun_started lg) \<and> unserved lg
   | EAbortEpoch \<Rightarrow> worker_held lg \<and> claimed lg \<and> torn_down lg \<and> leases_released lg \<and> unserved lg
   | EActivate _ \<Rightarrow> worker_held lg \<and> claimed lg \<and> leases_held lg \<and> unserved lg
   | ELaunch _ \<Rightarrow> worker_held lg \<and> claimed lg \<and> leases_held lg \<and> unserved lg
   | ERerun _ \<Rightarrow> worker_held lg \<and> claimed lg \<and> epoch_held lg \<and> unserved lg
   | _ \<Rightarrow> True)"

fun lawful :: "rc_log \<Rightarrow> bool" where
  "lawful [] = True"
| "lawful (ev # lg) = (allowed ev lg \<and> lawful lg)"

section \<open>Weakest preconditions\<close>

definition wp :: "'a rc \<Rightarrow> ('a result \<Rightarrow> rc_state \<Rightarrow> bool) \<Rightarrow> rc_state \<Rightarrow> bool" where
  "wp m Q s = (case m s of (s', r) \<Rightarrow> Q r s')"

named_theorems wp_rules

lemma wp_bind [wp_rules]: "wp (rc_bind m f) Q s = wp m (\<lambda>r s. case r of Inl e \<Rightarrow> Q (Inl e) s | Inr a \<Rightarrow> wp (f a) Q s) s"
  by (auto simp: wp_def rc_bind_def split: prod.splits sum.splits)

lemma wp_return [wp_rules]: "wp (rc_return a) Q s = Q (Inr a) s"
  by (simp add: wp_def rc_return_def)

lemma wp_fail [wp_rules]: "wp (rc_fail e) Q s = Q (Inl e) s"
  by (simp add: wp_def rc_fail_def)

lemma wp_tell [wp_rules]: "wp (tell ev) Q s = Q (Inr ()) (s\<lparr>rc_log := ev # rc_log s\<rparr>)"
  by (simp add: wp_def tell_def)

lemma wp_ask [wp_rules]: "wp (ask f ev) Q s = (let r = f (rc_log s) in Q r (s\<lparr>rc_log := ev r # rc_log s\<rparr>))"
  by (simp add: wp_def ask_def Let_def)

lemma wp_learn [wp_rules]: "wp (learn f ev) Q s = (let a = f (rc_log s) in Q (Inr a) (s\<lparr>rc_log := ev a # rc_log s\<rparr>))"
  by (simp add: wp_def learn_def Let_def)

lemma wp_caught [wp_rules]: "wp (caught m) Q s = wp m (\<lambda>r. Q (Inr r)) s"
  by (simp add: wp_def caught_def split: prod.splits)

lemma wp_new [wp_rules]:
  "wp claim_guard_new Q s = Q (Inr ()) (s\<lparr>rc_log := EBegin # rc_log s, cg_lease_records := [], cg_restored := None, cg_committed := False\<rparr>)"
  by (simp add: wp_def claim_guard_new_def)

lemma wp_set [wp_rules]:
  "wp (set_lease_records ls) Q s = Q (Inr ()) (s\<lparr>cg_lease_records := ls\<rparr>)"
  "wp (set_restored x) Q s = Q (Inr ()) (s\<lparr>cg_restored := x\<rparr>)"
  "wp set_committed Q s = Q (Inr ()) (s\<lparr>cg_committed := True\<rparr>)"
  by (simp_all add: wp_def set_lease_records_def set_restored_def set_committed_def)

lemma wp_if [wp_rules]: "wp (if b then m else m') Q s = (if b then wp m Q s else wp m' Q s)"
  by simp

lemma wp_ifI: "(b \<Longrightarrow> wp m Q s) \<Longrightarrow> (\<not> b \<Longrightarrow> wp m' Q s) \<Longrightarrow> wp (if b then m else m') Q s"
  by simp

lemma wp_mono: "wp m Q s \<Longrightarrow> (\<And>r s. Q r s \<Longrightarrow> R r s) \<Longrightarrow> wp m R s"
  by (auto simp: wp_def split: prod.splits)

lemma wp_bindI:
  assumes "wp m R s" and "\<And>a s'. R (Inr a) s' \<Longrightarrow> wp (f a) Q s'" and "\<And>e s'. R (Inl e) s' \<Longrightarrow> Q (Inl e) s'"
  shows "wp (rc_bind m f) Q s"
  unfolding wp_bind by (rule wp_mono [OF assms(1)]) (auto intro: assms(2,3) split: sum.split)

lemma wp_conj: "wp m Q s \<Longrightarrow> wp m R s \<Longrightarrow> wp m (\<lambda>r s. Q r s \<and> R r s) s"
  by (auto simp: wp_def split: prod.splits)

text \<open>Under a claim that has not been served.\<close>

definition open_claim :: "rc_state \<Rightarrow> bool" where
  "open_claim s \<longleftrightarrow> lawful (rc_log s) \<and> claimed (rc_log s) \<and> unserved (rc_log s) \<and> worker_held (rc_log s) \<and> \<not> cg_committed s"

definition kept :: "rc_state \<Rightarrow> bool" where
  "kept s \<longleftrightarrow> lawful (rc_log s) \<and> worker_held (rc_log s)"

lemma open_claim_kept: "open_claim s \<Longrightarrow> kept s"
  by (simp add: open_claim_def kept_def)

lemmas event_simps = Let_def allowed_def leases_released_def renew_or_busy_def committed_now_def

lemma wp_abort:
  "wp (claim_abort env sid) Q s = (if cg_committed s then Q (Inr ()) s
     else wp (rc_bind (tell ECancel) (\<lambda>_. rc_bind (tell EForget) (\<lambda>_.
        rc_bind (case cg_restored s of
            Some name \<Rightarrow> rc_return (Some name)
          | None \<Rightarrow> rc_bind (caught (ask (\<lambda>log. en_get env log sid) EGet)) (\<lambda>r. rc_return (case r of Inr name \<Rightarrow> Some name | Inl _ \<Rightarrow> None))) (\<lambda>found.
        rc_bind (case found of Some name \<Rightarrow> tear_down env name | None \<Rightarrow> rc_return True) (\<lambda>torn_down.
        rc_bind (tell (EReleaseLeases (cg_lease_records s))) (\<lambda>_.
        rc_bind (if torn_down then tell EAbortEpoch else rc_return ()) (\<lambda>_.
        tell EEnd))))))) Q s)"
  by (simp add: wp_def claim_abort_def)

lemma claim_abort_kept: "open_claim s \<Longrightarrow> wp (claim_abort env sid) (\<lambda>r s'. r = Inr () \<and> kept s') s"
  unfolding wp_abort wp_rules tear_down_def
  by (auto simp: wp_rules open_claim_def kept_def event_simps split: option.split sum.split)

text \<open>An attempt that fails leaves the claim open, or served and kept.\<close>

definition sound_attempt :: "'a result \<Rightarrow> rc_state \<Rightarrow> bool" where
  "sound_attempt r s = (case r of Inr _ \<Rightarrow> kept s | Inl _ \<Rightarrow> if cg_committed s then kept s else open_claim s)"

lemma claim_abort_sound: "sound_attempt (Inl e) s \<Longrightarrow> wp (claim_abort env sid) (\<lambda>r s'. r = Inr () \<and> kept s') s"
  by (cases "cg_committed s") (simp_all add: sound_attempt_def wp_abort claim_abort_kept [unfolded wp_abort])

text \<open>The abort runs only on a failure; what a success establishes is kept.\<close>

lemma wp_or_abort:
  assumes "wp m (\<lambda>r s'. case r of Inr _ \<Rightarrow> Q s' | Inl e \<Rightarrow> if cg_committed s' then kept s' else open_claim s') s"
  shows "wp (or_abort env sid m) (\<lambda>r s'. case r of Inr _ \<Rightarrow> Q s' | Inl _ \<Rightarrow> kept s') s"
  unfolding or_abort_def wp_bind wp_caught
proof (rule wp_mono [OF assms])
  fix r :: "unit result" and s'
  assume sound: "case r of Inr _ \<Rightarrow> Q s' | Inl _ \<Rightarrow> if cg_committed s' then kept s' else open_claim s'"
  show "case Inr r of Inl e \<Rightarrow> (case Inl e of Inl _ \<Rightarrow> kept s' | Inr _ \<Rightarrow> Q s')
     | Inr a \<Rightarrow> wp (case a of Inl e \<Rightarrow> rc_bind (claim_abort env sid) (\<lambda>_. rc_fail e) | Inr _ \<Rightarrow> rc_return ()) (\<lambda>r s'. case r of Inl _ \<Rightarrow> kept s' | Inr _ \<Rightarrow> Q s') s'"
  proof (cases r)
    case (Inl e)
    then have "sound_attempt (Inl e) s'"
      using sound by (simp add: sound_attempt_def)
    then have "wp (claim_abort env sid) (\<lambda>r s'. r = Inr () \<and> kept s') s'"
      by (rule claim_abort_sound)
    then show ?thesis
      unfolding Inl by (auto simp: wp_rules elim: wp_mono)
  next
    case (Inr a)
    then show ?thesis using sound by (simp add: wp_rules)
  qed
qed

lemma or_abort_kept:
  assumes "wp m sound_attempt s"
  shows "wp (or_abort env sid m) (\<lambda>r s'. kept s') s"
proof -
  have "wp (or_abort env sid m) (\<lambda>r s'. case r of Inr _ \<Rightarrow> kept s' | Inl _ \<Rightarrow> kept s') s"
    by (rule wp_or_abort, rule wp_mono [OF assms]) (simp add: sound_attempt_def split: sum.splits)
  then show ?thesis by (rule wp_mono) (simp split: sum.splits)
qed

section \<open>The steps of a restore\<close>

text \<open>What holds when a restore is ready to be committed.\<close>

definition ready_claim :: "rc_state \<Rightarrow> bool" where
  "ready_claim s \<longleftrightarrow> open_claim s \<and> epoch_held (rc_log s) \<and> activated (rc_log s) \<and> leases_held (rc_log s)"

lemmas claim_simps = open_claim_def kept_def ready_claim_def sound_attempt_def event_simps

lemma retained_steps_ready:
  "open_claim s \<Longrightarrow> wp (retained_steps env) (\<lambda>r s'. case r of Inr _ \<Rightarrow> ready_claim s' | Inl _ \<Rightarrow> open_claim s') s"
  unfolding retained_steps_def
  by (auto simp: wp_rules claim_simps split: sum.split)

lemma retained_commit_kept: "ready_claim s \<Longrightarrow> wp (retained_commit env) (\<lambda>r s'. kept s') s"
  unfolding retained_commit_def
  by (auto simp: wp_rules claim_simps split: sum.split)

lemma launch_loop_open:
  "open_claim s \<Longrightarrow> leases_held (rc_log s) \<Longrightarrow> wp (launch_loop env n b) (\<lambda>r s'. open_claim s' \<and> leases_held (rc_log s')) s"
proof (induction env n b arbitrary: s rule: launch_loop.induct)
  case (1 env b)
  then show ?case by (auto simp: wp_rules claim_simps split: sum.split)
next
  case (2 env n b)
  then show ?case by (auto simp: wp_rules claim_simps split: sum.split)
qed

lemma launch_open:
  "open_claim s \<Longrightarrow> leases_held (rc_log s) \<Longrightarrow> wp (launch env) (\<lambda>r s'. open_claim s' \<and> leases_held (rc_log s')) s"
  using launch_loop_open [of s env "en_ticks env (rc_log s)" False] by (simp add: wp_def launch_def)

lemma commit_twice_sound: "ready_claim s \<Longrightarrow> wp (commit_twice env) sound_attempt s"
  unfolding commit_twice_def
  by (auto simp: wp_rules claim_simps split: sum.split)

lemma launch_steps_sound: "open_claim s \<Longrightarrow> wp (launch_steps env) sound_attempt s"
  unfolding launch_steps_def
  by (auto simp: wp_rules claim_simps intro!: wp_mono [OF launch_open] commit_twice_sound split: sum.split)

lemma wp_start_again: "(\<And>r. Q r (s\<lparr>rc_log := ERerun r # rc_log s\<rparr>)) \<Longrightarrow> wp (start_again env sid lin p) Q s"
  unfolding start_again_def wp_ask Let_def by blast

lemma rerun_steps_sound: "open_claim s \<Longrightarrow> wp (rerun_steps env sid lin) sound_attempt s"
  unfolding rerun_steps_def
  by (auto simp: wp_rules claim_simps intro!: wp_start_again split: sum.split option.split)

lemma finish_restore_kept: "kept s \<Longrightarrow> wp (finish_restore env) (\<lambda>r s'. kept s') s"
  unfolding finish_restore_def by (auto simp: wp_rules claim_simps split: sum.split)

lemma restore_fresh_kept: "open_claim s \<Longrightarrow> wp (restore_fresh env sid) (\<lambda>r s'. kept s') s"
  unfolding restore_fresh_def wp_bind
  by (rule wp_mono [OF or_abort_kept [OF launch_steps_sound]]) (auto intro: finish_restore_kept split: sum.split)

lemma restore_retained_kept:
  assumes "open_claim s"
  shows "wp (restore_retained env sid) (\<lambda>r s'. kept s') s"
proof -
  define s1 where "s1 = s\<lparr>rc_log := EGet (en_get env (rc_log s) sid) # rc_log s\<rparr>"
  have open1: "open_claim s1" "open_claim (s1\<lparr>cg_restored := Some sid\<rparr>)"
    using assms by (auto simp: s1_def claim_simps)
  have "wp (claim_abort env sid) (\<lambda>r s'. kept s') s1"
    by (rule wp_mono [OF claim_abort_kept [OF open1(1)]]) simp
  moreover have "wp (or_abort env sid (retained_steps env)) (\<lambda>r s'. case r of Inr _ \<Rightarrow> ready_claim s' | Inl _ \<Rightarrow> kept s') (s1\<lparr>cg_restored := Some sid\<rparr>)"
    by (rule wp_or_abort, rule wp_mono [OF retained_steps_ready [OF open1(2)]]) (auto simp: claim_simps split: sum.splits)
  then have "wp (or_abort env sid (retained_steps env)) (\<lambda>r s'. case r of
       Inl e \<Rightarrow> kept s'
     | Inr _ \<Rightarrow> wp (retained_commit env) (\<lambda>r s'. case r of Inl e \<Rightarrow> kept s' | Inr a \<Rightarrow> wp (finish_restore env) (\<lambda>r s'. kept s') s') s')
     (s1\<lparr>cg_restored := Some sid\<rparr>)"
    by (rule wp_mono) (auto intro!: wp_mono [OF retained_commit_kept] finish_restore_kept split: sum.splits)
  ultimately show ?thesis
    unfolding restore_retained_def wp_bind wp_caught wp_ask Let_def s1_def [symmetric]
    by (auto simp: wp_rules s1_def elim!: wp_mono split: sum.splits)
qed

section \<open>A whole orphan\<close>

definition lawful_state :: "rc_state \<Rightarrow> bool" where
  "lawful_state s = lawful (rc_log s)"

lemma kept_lawful: "kept s \<Longrightarrow> lawful_state s"
  by (simp add: kept_def lawful_state_def)

lemma wp_claim:
  assumes "kept s" and "\<And>s'. open_claim s' \<Longrightarrow> Q (Inr ()) s'" and "\<And>e s'. kept s' \<Longrightarrow> Q (Inl e) s'"
  shows "wp (claim env pending) Q s"
  unfolding claim_def wp_rules Let_def
  using assms(1) by (auto intro!: assms(2,3) simp: claim_simps split: sum.split)

lemma with_worker_lawful:
  assumes "lawful_state s" and "\<And>s'. kept s' \<Longrightarrow> wp m (\<lambda>r s'. kept s') s'"
  shows "wp (with_worker env key m) (\<lambda>r s'. lawful_state s') s"
  unfolding with_worker_def wp_rules Let_def
  using assms(1)
  by (auto intro!: wp_mono [OF assms(2)] simp: wp_rules kept_def lawful_state_def allowed_def split: sum.split)

lemma replica_attempt_kept: "kept s \<Longrightarrow> wp (replica_attempt env sid lin) (\<lambda>r s'. kept s') s"
  unfolding replica_attempt_def wp_bind [of "ask _ _"] wp_ask Let_def
  by (auto intro!: wp_claim restore_retained_kept restore_fresh_kept simp: wp_rules claim_simps split: sum.split option.split)

lemma restore_from_replica_lawful: "lawful_state s \<Longrightarrow> wp (restore_from_replica env sid lin) (\<lambda>r s'. lawful_state s') s"
  unfolding restore_from_replica_def by (erule with_worker_lawful) (rule replica_attempt_kept)

lemma rerun_attempt_kept:
  assumes "kept s"
  shows "wp (rerun_attempt env sid lin) (\<lambda>r s'. kept s') s"
proof -
  have "wp (rc_bind (or_abort env sid (rerun_steps env sid lin)) (\<lambda>_. rc_bind (tell (ENote ''restore'')) (\<lambda>_. rc_return True))) (\<lambda>r s'. kept s') s'"
    if "open_claim s'" for s'
    unfolding wp_bind [of "or_abort _ _ _"]
    by (rule wp_mono [OF or_abort_kept [OF rerun_steps_sound [OF that]]]) (auto simp: wp_rules claim_simps split: sum.split)
  then show ?thesis
    unfolding rerun_attempt_def using assms by (auto intro!: wp_claim simp: wp_fail wp_bind [of "claim _ _"])
qed

lemma rerun_from_record_lawful:
  assumes "lawful_state s"
  shows "wp (rerun_from_record env sid) (\<lambda>r s'. lawful_state s') s"
  unfolding rerun_from_record_def wp_bind [of "ask _ _"] wp_ask Let_def
  using assms by (auto intro!: with_worker_lawful rerun_attempt_kept simp: wp_rules lawful_state_def allowed_def split: sum.split option.split)

text \<open>
  The questions asked before a takeover, and what a client of \<open>orphan_steps\<close> has to know of the two ways to take over: \<open>P\<close> holds while only questions have been asked, \<open>G\<close> is what the answers have to
  establish, \<open>Q\<close> is the claim about the end.
\<close>

definition question :: "rc_event \<Rightarrow> bool" where
  "question ev = (case ev of ERecord _ \<Rightarrow> True | EMissing _ \<Rightarrow> True | EOwner _ \<Rightarrow> True | EHealthy _ _ \<Rightarrow> True | ENonserving _ \<Rightarrow> True
     | EReplica _ \<Rightarrow> True | ESecrets _ \<Rightarrow> True | ERestoreOwner _ \<Rightarrow> True | EQuorum _ _ \<Rightarrow> True | ERequeue \<Rightarrow> True | _ \<Rightarrow> False)"

definition owner_gone :: "string \<Rightarrow> rc_log \<Rightarrow> bool" where
  "owner_gone dead lg \<longleftrightarrow> EMissing (Inr True) \<in> set lg \<or> EHealthy dead False \<in> set lg \<or>
     (\<exists>lin. ERecord (Inr (Some lin)) \<in> set lg \<and> record_restore_pending lin)"

definition chosen_here :: "string \<Rightarrow> rc_log \<Rightarrow> bool" where
  "chosen_here node lg \<longleftrightarrow> ESecrets (Inr True) \<in> set lg \<or> ERestoreOwner (Some node) \<in> set lg \<or>
     (\<exists>lin. ERecord (Inr (Some lin)) \<in> set lg \<and> record_restore_pending lin \<and> ln_owner lin = node)"

definition quorum_agrees :: "reconcile_config \<Rightarrow> nat \<Rightarrow> rc_log \<Rightarrow> bool" where
  "quorum_agrees cfg n lg \<longleftrightarrow> EMissing (Inr True) \<in> set lg \<or> \<not> restore_quorum_enabled cfg n \<or> (\<exists>k. EQuorum k True \<in> set lg)"

definition may_take_over :: "reconcile_config \<Rightarrow> string \<Rightarrow> nat \<Rightarrow> string \<Rightarrow> rc_log \<Rightarrow> bool" where
  "may_take_over cfg node n dead lg \<longleftrightarrow> owner_gone dead lg \<and> chosen_here node lg \<and> quorum_agrees cfg n lg"

lemma wp_quorum [wp_rules]:
  "wp (restore_quorum_confirmed env node) Q s =
     (let n = quorum_confirmations env node (rc_log s); a = en_quorum_met env (rc_log s) n in Q (Inr a) (s\<lparr>rc_log := EQuorum n a # rc_log s\<rparr>))"
  by (simp add: wp_def restore_quorum_confirmed_def learn_def Let_def)

text \<open>Reasons to give an orphan up: another live node serves it, it is not meant to serve, or it asked for no failover.\<close>

definition settled :: "string \<Rightarrow> string \<Rightarrow> rc_log \<Rightarrow> bool" where
  "settled node dead lg \<longleftrightarrow> (\<exists>owner. EOwner (Inr (Some owner)) \<in> set lg \<and> owner \<noteq> dead \<and> (owner = node \<or> EHealthy owner True \<in> set lg)) \<or>
     ENonserving (Inr True) \<in> set lg \<or> (\<exists>lin. ERecord (Inr (Some lin)) \<in> set lg \<and> ln_ha lin = ''off'')"

lemma log_facts_mono:
  "owner_gone dead lg \<Longrightarrow> owner_gone dead (ev # lg)" "chosen_here node lg \<Longrightarrow> chosen_here node (ev # lg)"
  by (auto simp: owner_gone_def chosen_here_def)

text \<open>What is known of the answers once the owner is gone.\<close>

definition told :: "(rc_state \<Rightarrow> bool) \<Rightarrow> lineage_record option \<Rightarrow> bool \<Rightarrow> rc_state \<Rightarrow> bool" where
  "told P create_record missing s \<longleftrightarrow> P s \<and>
     (\<forall>lin. create_record = Some lin \<longrightarrow> ERecord (Inr (Some lin)) \<in> set (rc_log s)) \<and> (missing \<longrightarrow> EMissing (Inr True) \<in> set (rc_log s))"

definition known :: "(rc_state \<Rightarrow> bool) \<Rightarrow> string \<Rightarrow> lineage_record option \<Rightarrow> bool \<Rightarrow> rc_state \<Rightarrow> bool" where
  "known P dead create_record missing s \<longleftrightarrow> told P create_record missing s \<and> owner_gone dead (rc_log s)"

lemma pending_gone:
  "told P r b s \<Longrightarrow> (case r of Some lin \<Rightarrow> record_restore_pending lin | None \<Rightarrow> False) \<or> b \<Longrightarrow> owner_gone dead (rc_log s)"
  by (auto simp: told_def owner_gone_def split: option.splits)

locale orphan_client =
  fixes env :: rc_env and sid :: string and cfg :: reconcile_config and node :: string and n :: nat and dead :: string
    and P :: "rc_state \<Rightarrow> bool" and Q :: "bool result \<Rightarrow> rc_state \<Rightarrow> bool"
  assumes question: "P s \<Longrightarrow> question ev \<Longrightarrow> P (s\<lparr>rc_log := ev # rc_log s\<rparr>)"
    and idle: "P s \<Longrightarrow> r \<noteq> Inr False \<or> settled node dead (rc_log s) \<Longrightarrow> Q r s"
    and restore: "P s \<Longrightarrow> may_take_over cfg node n dead (rc_log s) \<Longrightarrow> wp (restore_from_replica env sid lin) Q s"
    and rerun: "P s \<Longrightarrow> may_take_over cfg node n dead (rc_log s) \<Longrightarrow>
      wp (rerun_from_record env sid) (\<lambda>r s. Q (case r of Inl e \<Rightarrow> Inl e | Inr b \<Rightarrow> Inr (\<not> b)) s) s"
begin

lemma take_over_client:
  assumes "P s" "may_take_over cfg node n dead (rc_log s)"
  shows "wp (take_over env sid lin ready) Q s"
  unfolding take_over_def
  using assms restore idle by (auto intro!: wp_bindI [OF rerun [OF assms]] simp: wp_return split: option.splits)

lemma told_question: "told P r b s \<Longrightarrow> question ev \<Longrightarrow> told P r b (s\<lparr>rc_log := ev # rc_log s\<rparr>)"
  by (auto simp: told_def intro: question)

lemma told_question2:
  assumes "told P r b s" "question e1" "question e2"
  shows "told P r b (s\<lparr>rc_log := e2 # e1 # rc_log s\<rparr>)"
  using told_question [OF told_question [OF assms(1,2)] assms(3)] by simp

lemma known_question: "known P dead r b s \<Longrightarrow> question ev \<Longrightarrow> known P dead r b (s\<lparr>rc_log := ev # rc_log s\<rparr>)"
  by (auto simp: known_def intro: told_question log_facts_mono)

lemma told_idle: "told P r b s \<Longrightarrow> res \<noteq> Inr False \<or> settled node dead (rc_log s) \<Longrightarrow> Q res s"
  by (simp add: told_def idle)

lemma known_idle: "known P dead r b s \<Longrightarrow> res \<noteq> Inr False \<or> settled node dead (rc_log s) \<Longrightarrow> Q res s"
  using told_idle [of r b s res] by (simp add: known_def)

lemma restores_here_client:
  assumes "known P dead r b s" "needs \<Longrightarrow> ESecrets (Inr True) \<in> set (rc_log s)"
  shows "wp (restores_here env node dead r b needs) (\<lambda>res s. known P dead r b s \<and> (res = Inr True \<longrightarrow> chosen_here node (rc_log s))) s"
  using assms known_question [OF assms(1)] unfolding restores_here_def
  by (auto simp: wp_rules Let_def question_def chosen_here_def known_def told_def split: option.split)

lemma quorum_client:
  assumes "known P dead r b s" "chosen_here node (rc_log s)"
  shows "wp (quorum_allows cfg env node n b)
    (\<lambda>res s. known P dead r b s \<and> chosen_here node (rc_log s) \<and> (res = Inr True \<longrightarrow> quorum_agrees cfg n (rc_log s))) s"
  using assms known_question [OF assms(1)] unfolding quorum_allows_def
  by (auto simp: wp_rules Let_def question_def quorum_agrees_def known_def told_def intro: log_facts_mono)

lemma orphan_decide_client:
  assumes "known P dead r b s"
  shows "wp (orphan_decide cfg env node n sid dead r b) Q s"
proof -
  have quorum: "wp (rc_bind (quorum_allows cfg env node n b) (\<lambda>confirmed.
     if \<not> confirmed then rc_return True else take_over env sid r ready)) Q s'"
    if "known P dead r b s'" "chosen_here node (rc_log s')" for s' ready
    by (rule wp_bindI [OF quorum_client [OF that]])
       (auto simp: wp_return idle may_take_over_def known_def told_def intro!: take_over_client)
  have mine: "wp (rc_bind (restores_here env node dead r b needs) (\<lambda>mine. if \<not> mine then rc_return True else
     rc_bind (quorum_allows cfg env node n b) (\<lambda>confirmed.
     if \<not> confirmed then rc_return True else take_over env sid r ready))) Q s'"
    if "known P dead r b s'" "needs \<Longrightarrow> ESecrets (Inr True) \<in> set (rc_log s')" for s' needs ready
    by (rule wp_bindI [OF restores_here_client [OF that]]) (auto simp: wp_return known_idle intro: quorum)
  have secrets: "wp (if replica = None then rc_return False else if needs then ask (en_secrets env) ESecrets else rc_return True)
     (\<lambda>res s. known P dead r b s \<and> (needs \<and> res = Inr True \<longrightarrow> ESecrets (Inr True) \<in> set (rc_log s))) s'"
    if "known P dead r b s'" "replica = None \<Longrightarrow> \<not> needs" for replica :: "replica_record option" and needs s'
    using that by (auto simp: wp_rules Let_def question_def intro: known_question)
  have replica: "wp (if c then ask (en_replica env) EReplica else rc_return None) (\<lambda>_. known P dead r b) s" for c
    using assms by (auto simp: wp_rules Let_def question_def intro: known_question)
  have off: "wp (rc_return False) Q s" if "(case r of Some lin \<Rightarrow> ln_ha lin | None \<Rightarrow> ''async'') = ''off''"
    using assms that by (auto simp: wp_return settled_def known_def told_def split: option.splits intro!: idle)
  show ?thesis
    unfolding orphan_decide_def Let_def
  proof (rule wp_ifI, erule off, rule wp_bindI [OF replica], rule wp_bindI [OF secrets], goal_cases)
    case (3 replica s1 ready s2)
    then show ?case by (intro wp_ifI) (auto simp: wp_return known_idle intro: mine)
  qed (auto simp: known_idle split: option.splits)
qed

lemma served_elsewhere_client:
  "told P r b s \<Longrightarrow> wp (served_elsewhere env node dead) (\<lambda>res s. told P r b s \<and> (res = Inr True \<longrightarrow> settled node dead (rc_log s))) s"
  unfolding served_elsewhere_def
  by (auto simp: wp_rules Let_def question_def settled_def intro!: told_question told_question2 split: sum.split option.split)

lemma orphan_steps_client:
  assumes "P s"
  shows "wp (orphan_steps cfg env node n sid dead) Q s"
proof -
  have reach: "wp (if \<not> p \<and> \<not> b then learn (\<lambda>log. en_healthy env log dead) (EHealthy dead) else rc_return False)
      (\<lambda>res s. told P r b s \<and> (res = Inr False \<longrightarrow> known P dead r b s)) s'"
    if "told P r b s'" "p \<Longrightarrow> (case r of Some lin \<Rightarrow> record_restore_pending lin | None \<Rightarrow> False)" for r b p s'
    using that told_question [OF that(1)] pending_gone [OF that(1)]
    by (auto simp: wp_rules Let_def question_def known_def owner_gone_def)
  have serve: "wp (if c then served_elsewhere env node dead else rc_return False) (\<lambda>res s. told P r b s \<and> (res = Inr True \<longrightarrow> settled node dead (rc_log s))) s'"
    if "told P r b s'" for r b c s'
    using that by (simp add: served_elsewhere_client wp_return)
  have nonserve: "wp (if c then ask (en_nonserving env) ENonserving else rc_return False) (\<lambda>res s. known P dead r b s \<and> (res = Inr True \<longrightarrow> settled node dead (rc_log s))) s'"
    if "known P dead r b s'" for r b c s'
    using that by (auto simp: wp_rules Let_def question_def settled_def intro: known_question)
  have recs: "wp (ask (en_record env) ERecord) (\<lambda>res s. P s \<and> (\<forall>r. res = Inr r \<longrightarrow> told P r False s)) s"
    using assms question [OF assms] by (auto simp: wp_rules Let_def question_def told_def)
  have miss: "wp (ask (en_missing env) EMissing) (\<lambda>res s. P s \<and> (\<forall>b. res = Inr b \<longrightarrow> told P r b s)) s'" if "told P r False s'" for r s'
    using that by (auto simp: wp_rules Let_def question_def told_def intro: question)
  have last: "wp (rc_bind (if c then ask (en_nonserving env) ENonserving else rc_return False) (\<lambda>nonserving.
      if nonserving then rc_return False else orphan_decide cfg env node n sid dead r b)) Q s'"
    if "known P dead r b s'" for r b c s'
    by (rule wp_bindI [OF nonserve [OF that]]) (auto simp: wp_return known_idle intro: orphan_decide_client)
  show ?thesis
    unfolding orphan_steps_def Let_def
  proof (rule wp_bindI [OF recs], rule wp_bindI [OF miss], blast, rule wp_bindI [OF serve], blast, rule wp_ifI, goal_cases)
    case (2 r s1 b s2 served s3)
    then have "told P r b s3" by blast
    then show ?case
      by (rule wp_bindI [OF reach], blast, intro wp_ifI last) (auto simp: wp_return told_idle)
  qed (auto simp: wp_return told_idle idle)
qed

end

section \<open>The log only grows\<close>

definition grows :: "'a rc \<Rightarrow> bool" where
  "grows m \<longleftrightarrow> (\<forall>s. suffix (rc_log s) (rc_log (fst (m s))))"

named_theorems grow_rules

lemma grows_bind [grow_rules]: "grows m \<Longrightarrow> (\<And>a. grows (f a)) \<Longrightarrow> grows (rc_bind m f)"
  unfolding grows_def rc_bind_def
  by (metis (no_types, lifting) case_prod_conv fst_conv prod.exhaust_sel suffix_order.trans sum.case_eq_if)

lemma grows_primitive [grow_rules]:
  "grows (rc_return a)" "grows (rc_fail e)" "grows (tell ev)" "grows (ask f ev')" "grows (learn g ev'')" "grows claim_guard_new"
  "grows (set_lease_records ls)" "grows (set_restored x)" "grows set_committed"
  by (auto simp: grows_def rc_return_def rc_fail_def tell_def ask_def learn_def Let_def claim_guard_new_def set_lease_records_def set_restored_def
      set_committed_def suffix_def)

lemma grows_caught [grow_rules]: "grows m \<Longrightarrow> grows (caught m)"
  by (simp add: grows_def caught_def split_beta)

lemma grows_cases [grow_rules]:
  "grows m \<Longrightarrow> grows m' \<Longrightarrow> grows (if b then m else m')"
  "(\<And>e. grows (f e)) \<Longrightarrow> (\<And>a. grows (g a)) \<Longrightarrow> grows (case r of Inl e \<Rightarrow> f e | Inr a \<Rightarrow> g a)"
  "grows m \<Longrightarrow> (\<And>a. grows (h a)) \<Longrightarrow> grows (case x of None \<Rightarrow> m | Some a \<Rightarrow> h a)"
  by (simp_all split: sum.split option.split)

lemma grows_pointwise: "(\<And>s. \<exists>m. grows m \<and> f s = m s) \<Longrightarrow> grows f"
  by (metis grows_def)

lemma grows_tear_down [grow_rules]: "grows (tear_down env name)"
  unfolding tear_down_def by (intro grow_rules)

lemma grows_abort [grow_rules]: "grows (claim_abort env sid)"
proof (rule grows_pointwise)
  fix s
  show "\<exists>m. grows m \<and> claim_abort env sid s = m s"
  proof (cases "cg_committed s")
    case True
    then show ?thesis
      by (intro exI [of _ "rc_return ()"]) (simp add: grow_rules claim_abort_def rc_return_def)
  next
    case False
    show ?thesis
      unfolding claim_abort_def if_not_P [OF False]
      by (rule exI, rule conjI [OF _ refl], intro grow_rules)
  qed
qed

lemma grows_steps [grow_rules]:
  "grows (or_abort env sid m)" if "grows m" for m
  unfolding or_abort_def using that by (intro grow_rules)

lemma grows_renew [grow_rules]: "grows (renew_or_busy env)"
  unfolding renew_or_busy_def by (intro grow_rules)

lemma grows_committed [grow_rules]: "grows committed_now"
  unfolding committed_now_def by (intro grow_rules)

lemma grows_commit [grow_rules]: "grows (retained_commit env)" "grows (commit_twice env)"
  unfolding retained_commit_def commit_twice_def by (intro grow_rules)+

lemma grows_finish [grow_rules]: "grows (finish_restore env)"
  unfolding finish_restore_def by (intro grow_rules)

lemma grows_retained [grow_rules]: "grows (retained_steps env)" "grows (restore_retained env sid)"
  unfolding restore_retained_def retained_steps_def by (intro grow_rules)+

lemma grows_launch_loop [grow_rules]: "grows (launch_loop env k b)"
proof (induction env k b rule: launch_loop.induct)
  case (1 env b)
  show ?case unfolding launch_loop.simps by (intro grow_rules)
next
  case (2 env k b)
  then show ?case by (auto intro!: grow_rules)
qed

lemma grows_launch [grow_rules]: "grows (launch env)"
  by (rule grows_pointwise) (auto simp: launch_def intro: grow_rules)

lemma grows_fresh [grow_rules]: "grows (launch_steps env)" "grows (restore_fresh env sid)"
  unfolding restore_fresh_def launch_steps_def by (intro grow_rules)+

lemma grows_worker [grow_rules]: "grows m \<Longrightarrow> grows (with_worker env key m)"
  unfolding with_worker_def by (intro grow_rules)



section \<open>What a failover guarantees\<close>

lemma lawful_split: "lawful (newer @ ev # older) \<Longrightarrow> allowed ev older"
  by (induction newer) auto





interpretation lawful_run: orphan_client env sid cfg node n dead lawful_state "\<lambda>_. lawful_state" for env sid cfg node n dead
proof unfold_locales
  show "lawful_state (s\<lparr>rc_log := ev # rc_log s\<rparr>)" if "lawful_state s" "question ev" for s ev
    using that by (auto simp: lawful_state_def question_def allowed_def split: rc_event.splits)
qed (simp_all add: restore_from_replica_lawful rerun_from_record_lawful)



subsection \<open>A restore that reports success has served\<close>

definition served :: "rc_log \<Rightarrow> bool" where
  "served lg \<longleftrightarrow> ECommit (Inr ()) \<in> set lg \<or> EApplied (Inr True) \<in> set lg"

lemma served_Cons: "served lg \<Longrightarrow> served (ev # lg)"
  by (auto simp: served_def)

definition serves :: "'a result \<Rightarrow> rc_state \<Rightarrow> bool" where
  "serves r s \<longleftrightarrow> (is_right r \<longrightarrow> served (rc_log s))"

lemma serves_simps [simp]: "serves (Inl e) s" "serves (Inr a) s = served (rc_log s)"
  by (simp_all add: serves_def)

lemma wp_True [simp]: "wp m (\<lambda>_ _. True) s"
  by (simp add: wp_def split: prod.split)

lemma serves_bind: "(\<And>a s. wp (f a) serves s) \<Longrightarrow> wp (rc_bind m f) serves s"
  by (rule wp_bindI [where R = "\<lambda>_ _. True"]) (simp_all add: serves_def wp_def)

lemma commit_serves: "wp (commit_twice env) serves s" "wp (retained_commit env) serves s"
  unfolding commit_twice_def retained_commit_def
  by (auto simp: wp_rules serves_def served_def event_simps split: sum.split)

lemma launch_steps_serves: "wp (launch_steps env) serves s"
  unfolding launch_steps_def by (intro serves_bind commit_serves)

lemma rerun_steps_serves: "wp (rerun_steps env sid lin) serves s"
  unfolding rerun_steps_def
  by (auto simp: wp_rules serves_def served_def event_simps intro!: wp_start_again split: sum.split option.split)

lemma or_abort_serves:
  assumes "wp m serves s"
  shows "wp (or_abort env sid m) serves s"
  unfolding or_abort_def wp_bind wp_caught
  by (rule wp_mono [OF assms]) (auto simp: wp_rules split: sum.split)

lemma finish_restore_serves: "served (rc_log s) \<Longrightarrow> wp (finish_restore env) serves s"
  unfolding finish_restore_def by (auto simp: wp_rules served_Cons event_simps split: sum.split)

lemma restore_fresh_serves: "wp (restore_fresh env sid) serves s"
  unfolding restore_fresh_def
  by (rule wp_bindI [OF or_abort_serves [OF launch_steps_serves]]) (simp_all add: finish_restore_serves)

lemma restore_retained_serves: "wp (restore_retained env sid) serves s"
proof -
  have commit: "wp (rc_bind (retained_commit env) (\<lambda>_. finish_restore env)) serves s'" for s'
    by (rule wp_bindI [OF commit_serves(2)]) (simp_all add: finish_restore_serves)
  have "wp (rc_bind (claim_abort env sid) (\<lambda>_. rc_fail Busy)) serves s'" for s' :: rc_state
    by (rule serves_bind) (simp add: wp_fail)
  then show ?thesis
    unfolding restore_retained_def
    by - (rule serves_bind, rule wp_ifI, assumption, rule serves_bind, rule serves_bind, rule commit)
qed

lemma replica_attempt_serves: "wp (replica_attempt env sid lin) serves s"
  unfolding replica_attempt_def claim_def
  by (auto intro!: serves_bind wp_ifI restore_retained_serves restore_fresh_serves simp: wp_fail split: option.split)

lemma rerun_attempt_serves: "wp (rerun_attempt env sid lin) serves s"
proof -
  have "wp (rc_bind (or_abort env sid (rerun_steps env sid lin)) (\<lambda>_. rc_bind (tell (ENote ''restore'')) (\<lambda>_. rc_return True))) serves s'" for s'
    by (rule wp_bindI [OF or_abort_serves [OF rerun_steps_serves]]) (auto simp: wp_rules served_Cons)
  then show ?thesis
    unfolding rerun_attempt_def by - (rule wp_ifI, simp add: wp_fail, rule serves_bind)
qed

text \<open>A worker that is busy elsewhere reports the same value as an attempt under way.\<close>

lemma with_worker_serves:
  assumes "\<And>s. wp m serves s"
  shows "wp (with_worker env key m) (\<lambda>r s. is_right r \<longrightarrow> served (rc_log s) \<or> r = Inr True \<and> EWorkerBegin key False \<in> set (rc_log s)) s"
  unfolding with_worker_def wp_rules Let_def
  by (auto simp: wp_rules intro!: wp_mono [OF assms] served_Cons split: sum.split)

definition resolved :: "string \<Rightarrow> string \<Rightarrow> string \<Rightarrow> rc_log \<Rightarrow> bool" where
  "resolved sid node dead lg \<longleftrightarrow> settled node dead lg \<or> served lg \<or> EWorkerBegin (''rerun:'' @ sid) False \<in> set lg"

lemma restore_resolved: "wp (restore_from_replica env sid lin) (\<lambda>r s. r = Inr False \<longrightarrow> resolved sid node dead (rc_log s)) s"
  unfolding restore_from_replica_def
  by (rule wp_mono [OF with_worker_serves [OF replica_attempt_serves]]) (auto simp: resolved_def)

lemma rerun_resolved: "wp (rerun_from_record env sid) (\<lambda>r s. r = Inr True \<longrightarrow> resolved sid node dead (rc_log s)) s"
  unfolding rerun_from_record_def wp_bind [of "ask _ _"] wp_ask Let_def
  by (auto simp: wp_rules resolved_def intro!: wp_mono [OF with_worker_serves [OF rerun_attempt_serves]] split: sum.split option.split)

interpretation resolved_run: orphan_client env sid cfg node n dead "\<lambda>_. True" "\<lambda>r s. r = Inr False \<longrightarrow> resolved sid node dead (rc_log s)"
  for env sid cfg node n dead
proof unfold_locales
  show "wp (rerun_from_record env sid) (\<lambda>r s. (case r of Inl e \<Rightarrow> Inl e | Inr b \<Rightarrow> Inr (\<not> b)) = Inr False \<longrightarrow> resolved sid node dead (rc_log s)) s" for s
    by (rule wp_mono [OF rerun_resolved]) (auto split: sum.splits)
qed (simp_all add: restore_resolved, simp add: resolved_def)

subsection \<open>The properties\<close>

lemma reconcile_orphan_log:
  assumes "wp (orphan_steps cfg env node n sid dead) (\<lambda>r s'. Q r (rc_log s')) s"
  obtains r lg where "rc_log (reconcile_orphan cfg env node n sid dead s) = (if r = Inr False then lg else ERequeue # lg)" "Q r lg"
proof (cases "orphan_steps cfg env node n sid dead s")
  case (Pair s' r)
  then show ?thesis
    using assms that [of r "rc_log s'"] by (simp add: wp_def reconcile_orphan_def)
qed

lemma reconcile_orphan_lawful:
  assumes "lawful (rc_log s)"
  shows "lawful (rc_log (reconcile_orphan cfg env node n sid dead s))"
proof -
  have "lawful_state s"
    using assms by (simp add: lawful_state_def)
  then have "wp (orphan_steps cfg env node n sid dead) (\<lambda>r s'. lawful_state s') s"
    by (rule lawful_run.orphan_steps_client)
  then have "wp (orphan_steps cfg env node n sid dead) (\<lambda>r s'. lawful (rc_log s')) s"
    by (rule wp_mono) (simp add: lawful_state_def)
  then show ?thesis
    by (rule reconcile_orphan_log) (auto simp: allowed_def)
qed

text \<open>
  C5: Serving commits of a failover. Whatever the mesh, the engine, the records, the replicas and the lease service answer, each time the reconciler asks for the commit that makes a failed-over sandbox serve
  it holds the worker, has claimed the ownership epoch, the last renewal of the epoch said it is still held, no earlier commit under this claim is known to have been applied, and, after the claim, either
  the writable-volume leases were acquired and not released and the restored candidate was activated, or the engine started the sandbox again from its record. (That second path asks for no leases.)
\<close>

theorem restore_commit_guarded:
  assumes "rc_log s = []"
    and "rc_log (reconcile_orphan cfg env node n sid dead s) = newer @ ECommit r # older"
  shows "worker_held older \<and> claimed older \<and> epoch_held older \<and> (activated older \<and> leases_held older \<or> rerun_started older) \<and> unserved older"
proof -
  have "lawful (newer @ ECommit r # older)"
    using reconcile_orphan_lawful [of s cfg env node n sid dead] assms by simp
  then show ?thesis
    by (auto simp: allowed_def dest: lawful_split)
qed

definition demo_lineage :: lineage_record where
  "demo_lineage = \<lparr>ln_sid = ''x'', ln_params = JObject Map.empty, ln_owner = ''a'', ln_epoch = 3, ln_idempotency_key = [], ln_ha = ''async'', ln_restart_policy = []\<rparr>"

definition demo_replica :: replica_record where
  "demo_replica = \<lparr>rp_sid = ''x'', rp_digest = ''d'', rp_object_key = [], rp_source_node = ''a'', rp_source_epoch = 3, rp_checkpoint_generation = 1, rp_snapshot_dir = [],
     rp_params = JObject Map.empty, rp_needs_secrets = False\<rparr>"

definition demo_env :: "(rc_log \<Rightarrow> unit result) \<Rightarrow> rc_env" where
  "demo_env unit = \<lparr>en_record = \<lambda>_. Inr (Some demo_lineage), en_missing = \<lambda>_. Inr False, en_owner = \<lambda>_. Inr (Some ''a''), en_healthy = \<lambda>_ _. False,
     en_nonserving = \<lambda>_. Inr False, en_replica = \<lambda>_. Inr (Some demo_replica), en_secrets = \<lambda>_. Inr False, en_restore_owner = \<lambda>_ _. Some ''b'',
     en_members = \<lambda>_. [''b'', ''c''], en_probe = \<lambda>_ _. Some False, en_quorum_met = \<lambda>_ k. 2 \<le> k, en_worker_begin = \<lambda>_. True, en_drop = \<lambda>_. Inr (),
     en_claim = \<lambda>_. Inr 4, en_running = \<lambda>_. False, en_get = \<lambda>_ name. Inr name, en_renew = \<lambda>_. Inr True, en_acquire = \<lambda>_. Inr [''v''], en_ticks = \<lambda>_. 1,
     en_launch = \<lambda>_. Inr ''x'', en_run = \<lambda>_ _ _. Inr JNull, en_create = \<lambda>_ _. Inr ''x'', en_unit = unit, en_applied = \<lambda>_. Inl Engine\<rparr>"

definition demo_config :: reconcile_config where
  "demo_config = \<lparr>rcf_replicate_sec = f64_of_nat 30, rcf_replicas = 1, rcf_replicate_concurrency = 1, rcf_restore_quorum = Some True, rcf_outbound_token = []\<rparr>"

definition demo_start :: rc_state where
  "demo_start = \<lparr>rc_log = [], cg_lease_records = [], cg_restored = None, cg_committed = False\<rparr>"

definition demo_questions :: rc_log where
  "demo_questions = [EQuorum 2 True, ERestoreOwner (Some ''b''), EReplica (Inr (Some demo_replica)), ENonserving (Inr False), EHealthy ''a'' False, EOwner (Inr (Some ''a'')),
     EMissing (Inr False), ERecord (Inr (Some demo_lineage))]"

definition demo_claim :: rc_event where
  "demo_claim = EClaim (replica_restore_pending demo_replica demo_lineage) (Inr 4)"

definition demo_restore :: rc_log where
  "demo_restore = [ERenew (Inr True), EActivate (Inr ()), ERecordLeases (Inr ()), ESetMeta (Inr ()), ERenew (Inr True), ELaunch (Inr ''x''), ERenew (Inr True), ERenew (Inr True),
     EAcquire (Inr [''v'']), ERunning False, EBegin, demo_claim, EReplica (Inr (Some demo_replica)), EWorkerBegin ''restore:x'' True] @ demo_questions"

lemmas demo_defs = demo_lineage_def demo_replica_def demo_env_def demo_config_def demo_start_def demo_questions_def demo_claim_def demo_restore_def

lemmas rc_monad_defs = rc_bind_def rc_return_def rc_fail_def tell_def ask_def learn_def caught_def claim_guard_new_def set_lease_records_def set_restored_def set_committed_def

lemmas rc_operation_defs = reconcile_orphan_def orphan_steps_def orphan_decide_def served_elsewhere_def restores_here_def quorum_allows_def restore_quorum_confirmed_def
  quorum_confirmations_def restore_quorum_enabled_def take_over_def restore_from_replica_def with_worker_def replica_attempt_def valid_lineage_def replica_lineage_matches_def
  record_restore_pending_def claim_def restore_fresh_def or_abort_def launch_steps_def renew_or_busy_def launch_def commit_twice_def committed_now_def finish_restore_def
  claim_abort_def tear_down_def json_get_def Let_def

lemma demo_log:
  "rc_log (reconcile_orphan demo_config (demo_env (\<lambda>_. Inr ())) ''b'' 3 ''x'' ''a'' demo_start) =
     [EWorkerEnd ''restore:x'', ENote ''restore'', EDropReplica (Inr ()), EEnd] @ ECommit (Inr ()) # demo_restore"
  by (simp add: demo_defs rc_monad_defs rc_operation_defs)

theorem restore_commit_guarded_witness:
  "worker_held demo_restore \<and> claimed demo_restore \<and> epoch_held demo_restore \<and> activated demo_restore \<and> leases_held demo_restore \<and> unserved demo_restore"
  using restore_commit_guarded [OF _ demo_log] by (simp add: demo_start_def) (simp add: demo_defs)


text \<open>Every durable write fails, except for the removal.\<close>

definition failing_commits :: "rc_log \<Rightarrow> unit result" where
  "failing_commits lg = (case lg of ERenew _ # EActivate _ # _ \<Rightarrow> Inl Engine | ECommit _ # _ \<Rightarrow> Inl Busy | _ \<Rightarrow> Inr ())"







text \<open>
  C7: Orphans are not forgotten. An orphan that was drained from the queue and is not put back has been settled: a live node serves it, it is not meant to serve, or it asked for no failover; or it is served
  again, its commit having succeeded or being known as applied; or another worker of this node is running it again. Every other outcome, errors included, puts it back.
\<close>

theorem orphan_not_forgotten:
  assumes "rc_log s = []" and "ERequeue \<notin> set (rc_log (reconcile_orphan cfg env node n sid dead s))"
  shows "resolved sid node dead (rc_log (reconcile_orphan cfg env node n sid dead s))"
proof -
  have "wp (orphan_steps cfg env node n sid dead) (\<lambda>r s'. r = Inr False \<longrightarrow> resolved sid node dead (rc_log s')) s"
    by (rule resolved_run.orphan_steps_client) simp
  then show ?thesis
    by (rule reconcile_orphan_log) (use assms(2) in \<open>auto split: if_splits\<close>)
qed

theorem orphan_not_forgotten_witness:
  "resolved ''x'' ''b'' ''a'' ([EWorkerEnd ''restore:x'', ENote ''restore'', EDropReplica (Inr ()), EEnd] @ ECommit (Inr ()) # demo_restore)"
  using orphan_not_forgotten [of demo_start demo_config "demo_env (\<lambda>_. Inr ())" "''b''" 3 "''x''" "''a''"]
  unfolding demo_log by (simp add: demo_defs)

text \<open>
  An ambiguous commit. When both tries of the serving commit fail and the question whether one of them was applied fails as well, the claim is aborted with that last error: the candidate,
  which may be serving by then, is asked to be removed, and exactly if the removal succeeds the epoch is released.
\<close>

theorem ambiguous_commit_torn_down:
  assumes "\<not> cg_committed s" "cg_restored s = Some name"
    and "en_unit env (rc_log s) = Inl e1" "en_unit env (ECommit (Inl e1) # rc_log s) = Inl e2"
    and "en_applied env (ECommit (Inl e2) # ECommit (Inl e1) # rc_log s) = Inl e3"
    and "en_unit env (EForget # ECancel # EApplied (Inl e3) # ECommit (Inl e2) # ECommit (Inl e1) # rc_log s) = removal"
  shows "snd (or_abort env sid (commit_twice env) s) = Inl e3 \<and>
    ERemove removal \<in> set (rc_log (fst (or_abort env sid (commit_twice env) s))) \<and>
    (EAbortEpoch \<in> set (rc_log (fst (or_abort env sid (commit_twice env) s))) \<longleftrightarrow> removal = Inr () \<or> EAbortEpoch \<in> set (rc_log s))"
  using assms by (cases removal) (simp_all add: rc_monad_defs rc_operation_defs)

theorem ambiguous_commit_torn_down_witness:
  "EAbortEpoch \<in> set (rc_log (fst (or_abort (demo_env failing_commits) ''x'' (commit_twice (demo_env failing_commits))
     \<lparr>rc_log = demo_restore, cg_lease_records = [''v''], cg_restored = Some ''x'', cg_committed = False\<rparr>)))"
  using ambiguous_commit_torn_down [of "\<lparr>rc_log = demo_restore, cg_lease_records = [''v''], cg_restored = Some ''x'', cg_committed = False\<rparr>" "''x''"
      "demo_env failing_commits" Engine Busy Engine "Inr ()" "''x''"]
  by (simp add: demo_env_def demo_restore_def failing_commits_def)

end
