(* ===== verification/Replication.thy ===== *)
theory Replication
  imports ReconcilerProps "HOL-Library.List_Lexorder" "HOL-Library.Char_ord"
begin

text \<open>
  The other loops of \<^verbatim>\<open>vmond/src/mesh/reconciler.rs\<close>: the checkpoint replication of one sandbox with its bookkeeping, and the fencing pass over the local sandboxes. A pass over one sandbox takes the
  answers of the records, the engine and the peers as an argument; it returns the bookkeeping, what was pushed and what was cleaned up.
\<close>

section \<open>Replication\<close>

record replicate_preparation =
  pr_digest :: string
  pr_checkpoint_generation :: nat
  pr_snapshot_dir :: string
  pr_params :: json

text \<open>The digests all targets hold, and the times of the last attempts.\<close>

record replication_state =
  rs_last :: "string \<Rightarrow> string option"
  rs_checkpoint_times :: "string \<Rightarrow> f64 option"

record replication_answers =
  ra_record :: "lineage_record option result"
  ra_now :: f64
  ra_prepare :: "replicate_preparation result"
  ra_publication_key :: "string result"
  ra_targets :: "string list"
  ra_push :: "string \<Rightarrow> bool"
  ra_pushed_at :: f64

definition forget_sid :: "string \<Rightarrow> replication_state \<Rightarrow> replication_state" where
  "forget_sid sid st = st\<lparr>rs_last := (rs_last st)(sid := None), rs_checkpoint_times := (rs_checkpoint_times st)(sid := None)\<rparr>"

text \<open>The peers answer in any order; each answer enters both flags.\<close>

record push_summary =
  ps_any :: bool
  ps_all :: bool

definition push_replica_to_targets :: "(string \<Rightarrow> bool) \<Rightarrow> string list \<Rightarrow> push_summary" where
  "push_replica_to_targets push targets =
     foldl (\<lambda>sm peer. \<lparr>ps_any = ps_any sm \<or> push peer, ps_all = ps_all sm \<and> push peer\<rparr>) \<lparr>ps_any = False, ps_all = True\<rparr> targets"

definition record_push :: "string \<Rightarrow> replicate_preparation \<Rightarrow> f64 \<Rightarrow> push_summary \<Rightarrow> replication_state \<Rightarrow> replication_state" where
  "record_push sid prep pushed_at summary st =
     (let st = (if ps_any summary then st\<lparr>rs_checkpoint_times := (rs_checkpoint_times st)(sid \<mapsto> pushed_at)\<rparr> else st)
      in if ps_all summary then st\<lparr>rs_last := (rs_last st)(sid \<mapsto> pr_digest prep)\<rparr> else st)"

text \<open>The result: the bookkeeping, the targets of the push and its key, the checkpoint that is cleaned up.\<close>

type_synonym pass = "replication_state \<times> (string list \<times> string) option \<times> (string \<times> string) option"

definition cleanup_of :: "replicate_preparation \<Rightarrow> (string \<times> string) option" where
  "cleanup_of prep = (if pr_digest prep \<noteq> [] \<and> pr_snapshot_dir prep \<noteq> [] then Some (pr_digest prep, pr_snapshot_dir prep) else None)"

definition replicate_prepared :: "reconcile_config \<Rightarrow> string \<Rightarrow> replication_answers \<Rightarrow> replication_state \<Rightarrow> pass" where
  "replicate_prepared cfg sid ans st = (case ra_prepare ans of
     Inl _ \<Rightarrow> (st, None, None)
   | Inr prep \<Rightarrow> (case ra_publication_key ans of
       Inl _ \<Rightarrow> (st, None, None)
     | Inr key \<Rightarrow>
         if ra_targets ans = [] then (st, None, cleanup_of prep)
         else (record_push sid prep (ra_pushed_at ans) (push_replica_to_targets (ra_push ans) (ra_targets ans)) st, Some (ra_targets ans, key), cleanup_of prep)))"

definition replicate_sid :: "reconcile_config \<Rightarrow> string \<Rightarrow> string \<Rightarrow> replication_answers \<Rightarrow> replication_state \<Rightarrow> pass" where
  "replicate_sid cfg node sid ans st = (case ra_record ans of
     Inl _ \<Rightarrow> (st, None, None)
   | Inr None \<Rightarrow> (st, None, None)
   | Inr (Some lin) \<Rightarrow>
       if record_restore_pending lin then (forget_sid sid st, None, None)
       else if ln_owner lin \<noteq> node then (st, None, None)
       else if ln_ha lin = ''off'' then (forget_sid sid st, None, None)
       else if (case rs_checkpoint_times st sid of Some last_attempt \<Rightarrow> f64_lt (f64_sub (ra_now ans) last_attempt) (f64_max (rcf_replicate_sec cfg) (f64_of_nat 1)) | None \<Rightarrow> False)
         then (st, None, None)
       else replicate_prepared cfg sid ans (st\<lparr>rs_checkpoint_times := (rs_checkpoint_times st)(sid \<mapsto> ra_now ans)\<rparr>))"

definition prune_replication_bookkeeping :: "string list \<Rightarrow> replication_state \<Rightarrow> replication_state" where
  "prune_replication_bookkeeping owned st =
     st\<lparr>rs_last := rs_last st |` set owned, rs_checkpoint_times := rs_checkpoint_times st |` set owned\<rparr>"

text \<open>A pass over all local sandboxes; the answers for each come from the environment at that time.\<close>

definition replicate_once :: "reconcile_config \<Rightarrow> bool \<Rightarrow> string \<Rightarrow> string list result \<Rightarrow> (string \<Rightarrow> replication_state \<Rightarrow> replication_answers) \<Rightarrow> replication_state \<Rightarrow> replication_state result" where
  "replicate_once cfg enabled node owned_ids answers st =
     (if \<not> enabled then Inr st
      else case owned_ids of
        Inl e \<Rightarrow> Inl e
      | Inr ids \<Rightarrow> Inr (foldl (\<lambda>st sid. fst (replicate_sid cfg node sid (answers sid st) st)) (prune_replication_bookkeeping ids st) ids))"

section \<open>Fencing\<close>

text \<open>What a pass asks the mesh and the engine, each answer depending on all calls so far; the calls for one sandbox go to the environment of that sandbox.\<close>

record pass_env =
  pe_enabled :: bool
  pe_orphans :: "rc_log \<Rightarrow> (string \<times> string) list"
  pe_owned_ids :: "rc_log \<Rightarrow> string list result"
  pe_local_owner_epochs :: "rc_log \<Rightarrow> string list \<Rightarrow> (string \<times> nat) list result"
  pe_fenced_local_ids :: "rc_log \<Rightarrow> string list \<Rightarrow> string list result"
  pe_renew_owner_leases :: "rc_log \<Rightarrow> (string \<times> nat) list \<Rightarrow> string list result"
  pe_migration_target_in_flight :: "rc_log \<Rightarrow> string \<Rightarrow> bool"

text \<open>Sorted, without repetitions, and without the sandboxes a migration is about to hand over.\<close>

definition fence_list :: "(string \<Rightarrow> bool) \<Rightarrow> string list \<Rightarrow> string list" where
  "fence_list in_flight fence = filter (\<lambda>sid. \<not> in_flight sid) (remdups_adj (sort fence))"

definition fence_all :: "pass_env \<Rightarrow> (string \<Rightarrow> rc_env) \<Rightarrow> string list \<Rightarrow> rc_state \<Rightarrow> rc_state" where
  "fence_all pe env fence s = foldl (\<lambda>s sid. fence_local (env sid) sid s) s (fence_list (pe_migration_target_in_flight pe (rc_log s)) fence)"

definition renew_owner_leases_once :: "pass_env \<Rightarrow> (string \<Rightarrow> rc_env) \<Rightarrow> rc_state \<Rightarrow> rc_state \<times> unit result" where
  "renew_owner_leases_once pe env s =
     (if \<not> pe_enabled pe then (s, Inr ())
      else case pe_owned_ids pe (rc_log s) of Inl e \<Rightarrow> (s, Inl e) | Inr owned \<Rightarrow>
        (case pe_local_owner_epochs pe (rc_log s) owned of Inl e \<Rightarrow> (s, Inl e) | Inr held \<Rightarrow>
          (case pe_fenced_local_ids pe (rc_log s) owned of Inl e \<Rightarrow> (s, Inl e) | Inr fence \<Rightarrow>
            (case pe_renew_owner_leases pe (rc_log s) held of Inl e \<Rightarrow> (s, Inl e) | Inr expired \<Rightarrow>
              (fence_all pe env (fence @ expired) s, Inr ())))))"

text \<open>The full pass first works through the drained orphans; there a failed renewal does not stop the fencing.\<close>

definition ha_reconcile_once :: "reconcile_config \<Rightarrow> pass_env \<Rightarrow> (string \<Rightarrow> rc_env) \<Rightarrow> string \<Rightarrow> nat \<Rightarrow> rc_state \<Rightarrow> rc_state \<times> unit result" where
  "ha_reconcile_once cfg pe env node expected_members s =
     (if \<not> pe_enabled pe then (s, Inr ())
      else let s = foldl (\<lambda>s (sid, dead). reconcile_orphan cfg (env sid) node expected_members sid dead s) s (pe_orphans pe (rc_log s)) in
        case pe_owned_ids pe (rc_log s) of Inl e \<Rightarrow> (s, Inl e) | Inr owned \<Rightarrow>
        (case pe_local_owner_epochs pe (rc_log s) owned of Inl e \<Rightarrow> (s, Inl e) | Inr held \<Rightarrow>
          (case pe_fenced_local_ids pe (rc_log s) owned of Inl e \<Rightarrow> (s, Inl e) | Inr fence \<Rightarrow>
            (fence_all pe env (fence @ (case pe_renew_owner_leases pe (rc_log s) held of Inr expired \<Rightarrow> expired | Inl _ \<Rightarrow> [])) s, Inr ()))))"

section \<open>Properties\<close>

lemma push_summary:
  "push_replica_to_targets push targets = \<lparr>ps_any = (\<exists>p\<in>set targets. push p), ps_all = (\<forall>p\<in>set targets. push p)\<rparr>"
proof -
  have "foldl (\<lambda>sm peer. \<lparr>ps_any = ps_any sm \<or> push peer, ps_all = ps_all sm \<and> push peer\<rparr>) sm targets =
      \<lparr>ps_any = (ps_any sm \<or> (\<exists>p\<in>set targets. push p)), ps_all = (ps_all sm \<and> (\<forall>p\<in>set targets. push p))\<rparr>" for sm
    by (induction targets arbitrary: sm) auto
  then show ?thesis by (simp add: push_replica_to_targets_def)
qed

text \<open>
  What the replication bookkeeping records. After a pass over a sandbox, the digest noted for it is the one noted before, or the digest of the checkpoint just prepared, and then this node owns the
  sandbox, no restore of it is pending, and every target of the push, of which there is at least one, has acknowledged exactly that checkpoint.
\<close>

theorem replicated_digest_acknowledged:
  assumes "rs_last (fst (replicate_sid cfg node sid ans st)) sid = Some d" "rs_last st sid \<noteq> Some d"
  shows "\<exists>lin prep key. ra_record ans = Inr (Some lin) \<and> ln_owner lin = node \<and> \<not> record_restore_pending lin \<and>
    ra_prepare ans = Inr prep \<and> pr_digest prep = d \<and> ra_publication_key ans = Inr key \<and>
    fst (snd (replicate_sid cfg node sid ans st)) = Some (ra_targets ans, key) \<and> ra_targets ans \<noteq> [] \<and> (\<forall>p\<in>set (ra_targets ans). ra_push ans p)"
  using assms unfolding replicate_sid_def replicate_prepared_def push_summary record_push_def forget_sid_def
  by (auto simp: Let_def ex_in_conv split: sum.splits option.splits if_splits)

theorem replicated_digest_acknowledged_witness:
  "ra_push \<lparr>ra_record = Inr (Some (demo_lineage\<lparr>ln_owner := ''b''\<rparr>)), ra_now = f64_of_nat 90, ra_prepare = Inr \<lparr>pr_digest = ''d'', pr_checkpoint_generation = 1, pr_snapshot_dir = ''s'', pr_params = JNull\<rparr>,
     ra_publication_key = Inr ''k'', ra_targets = [''c''], ra_push = \<lambda>p. p = ''c'', ra_pushed_at = f64_of_nat 91\<rparr> ''c''"
  using replicated_digest_acknowledged [of demo_config "''b''" "''x''" "\<lparr>ra_record = Inr (Some (demo_lineage\<lparr>ln_owner := ''b''\<rparr>)), ra_now = f64_of_nat 90,
      ra_prepare = Inr \<lparr>pr_digest = ''d'', pr_checkpoint_generation = 1, pr_snapshot_dir = ''s'', pr_params = JNull\<rparr>,
      ra_publication_key = Inr ''k'', ra_targets = [''c''], ra_push = \<lambda>p. p = ''c'', ra_pushed_at = f64_of_nat 91\<rparr>" "\<lparr>rs_last = Map.empty, rs_checkpoint_times = Map.empty\<rparr>" "''d''"]
  by (simp add: replicate_sid_def replicate_prepared_def push_summary record_push_def demo_lineage_def record_restore_pending_def json_get_def Let_def)

lemma remdups_adj_sorted: "sorted xs \<Longrightarrow> distinct (remdups_adj xs)"
  by (induction xs rule: remdups_adj.induct) auto

lemma fence_list_correct:
  "set (fence_list in_flight fence) = {sid \<in> set fence. \<not> in_flight sid}" "sorted (fence_list in_flight fence)" "distinct (fence_list in_flight fence)"
proof -
  have "sorted (remdups_adj (sort fence))" "distinct (remdups_adj (sort fence))"
    by (simp_all add: remdups_adj_sorted)
  then show "set (fence_list in_flight fence) = {sid \<in> set fence. \<not> in_flight sid}" "sorted (fence_list in_flight fence)" "distinct (fence_list in_flight fence)"
    by (auto simp: fence_list_def sorted_wrt_filter)
qed

lemma fence_local_lawful: "lawful (rc_log s) \<Longrightarrow> lawful (rc_log (fence_local env sid s))"
  by (simp add: fence_local_def rc_monad_defs allowed_def Let_def split: sum.split prod.split)

text \<open>
  A whole pass stays within the failover protocol. Whatever the orphans and whatever the environment answers, the log of a pass that starts lawful is lawful at its end, after every orphan it reconciles and
  every sandbox it fences: no commit without its guards, no release of a claim without a confirmed teardown, across all the sandboxes of the pass.
\<close>

lemma ha_pass_lawful:
  assumes "lawful (rc_log s)"
  shows "lawful (rc_log (fst (ha_reconcile_once cfg pe env node n s))) \<and> lawful (rc_log (fst (renew_owner_leases_once pe env s)))"
proof -
  have fences: "lawful (rc_log (foldl (\<lambda>s sid. fence_local (env sid) sid s) s' sids))" if "lawful (rc_log s')" for s' sids
    using that by (induction sids arbitrary: s') (simp_all add: fence_local_lawful)
  have orphans: "lawful (rc_log (foldl (\<lambda>s (sid, dead). reconcile_orphan cfg (env sid) node n sid dead s) s' os))" if "lawful (rc_log s')" for s' os
    using that by (induction os arbitrary: s') (auto simp: reconcile_orphan_lawful)
  show ?thesis
    using assms fences orphans [OF assms]
    by (auto simp: ha_reconcile_once_def renew_owner_leases_once_def fence_all_def Let_def split: sum.split)
qed

end
