(* ===== verification/Actors.thy ===== *)
theory Actors
  imports Prelude
begin

text \<open>
  Worker pins and serialization gates of actors, \<^verbatim>\<open>vmond/src/function/actor.rs\<close>. A gate is a semaphore with one permit behind a shared pointer: slots and waiting callers hold its identity, a fresh number
  for each new slot. Callers that wait for a gate and callers that hold its permit are part of the state of the system, because a caller keeps the gate it looked up while the registry changes.
\<close>

section \<open>The registry\<close>

datatype actor_recovery = Restore string | Lost

record 'w actor_slot =
  sl_worker :: "'w option"
  sl_checkpoint_id :: "string option"
  sl_gate :: nat
  sl_lost :: bool

record 'w actor_manager =
  am_actors :: "string \<Rightarrow> 'w actor_slot option"
  am_next_gate :: nat

definition actor_manager_new :: "'w actor_manager" where
  "actor_manager_new = \<lparr>am_actors = Map.empty, am_next_gate = 0\<rparr>"

definition actor_slot_new :: "nat \<Rightarrow> string option \<Rightarrow> 'w actor_slot" where
  "actor_slot_new gate checkpoint_id = \<lparr>sl_worker = None, sl_checkpoint_id = checkpoint_id, sl_gate = gate, sl_lost = False\<rparr>"

definition put_slot :: "string \<Rightarrow> 'w actor_slot \<Rightarrow> 'w actor_manager \<Rightarrow> 'w actor_manager" where
  "put_slot actor_id slot am = am\<lparr>am_actors := (am_actors am)(actor_id \<mapsto> slot)\<rparr>"

definition insert_new :: "string \<Rightarrow> string option \<Rightarrow> 'w actor_manager \<Rightarrow> 'w actor_manager" where
  "insert_new actor_id checkpoint_id am =
     (put_slot actor_id (actor_slot_new (am_next_gate am) checkpoint_id) am)\<lparr>am_next_gate := Suc (am_next_gate am)\<rparr>"

definition register :: "string \<Rightarrow> string option \<Rightarrow> 'w actor_manager \<Rightarrow> 'w actor_manager" where
  "register actor_id checkpoint_id am = (case am_actors am actor_id of Some _ \<Rightarrow> am | None \<Rightarrow> insert_new actor_id checkpoint_id am)"

definition pin :: "string \<Rightarrow> 'w \<Rightarrow> string option \<Rightarrow> 'w actor_manager \<Rightarrow> 'w actor_manager \<times> unit result" where
  "pin actor_id worker checkpoint_id am =
     (let am = register actor_id None am in
      case am_actors am actor_id of
        None \<Rightarrow> (am, Inl NotFound)
      | Some slot \<Rightarrow>
          if sl_lost slot \<and> checkpoint_id \<noteq> sl_checkpoint_id slot then (am, Inl NotRunning)
          else (put_slot actor_id (slot\<lparr>sl_worker := Some worker,
                  sl_checkpoint_id := (if checkpoint_id \<noteq> None then checkpoint_id else sl_checkpoint_id slot), sl_lost := False\<rparr>) am, Inr ()))"

text \<open>A change of a slot that has to be there.\<close>

definition with_slot :: "string \<Rightarrow> ('w actor_slot \<Rightarrow> 'w actor_slot \<times> 'a) \<Rightarrow> 'w actor_manager \<Rightarrow> 'w actor_manager \<times> 'a result" where
  "with_slot actor_id f am = (case am_actors am actor_id of
     None \<Rightarrow> (am, Inl NotFound)
   | Some slot \<Rightarrow> (case f slot of (slot', a) \<Rightarrow> (put_slot actor_id slot' am, Inr a)))"

definition checkpoint_committed :: "string \<Rightarrow> string \<Rightarrow> 'w actor_manager \<Rightarrow> 'w actor_manager \<times> unit result" where
  "checkpoint_committed actor_id checkpoint_id = with_slot actor_id (\<lambda>slot. (slot\<lparr>sl_checkpoint_id := Some checkpoint_id\<rparr>, ()))"

definition install_checkpoint_frontier :: "string \<Rightarrow> string \<Rightarrow> 'w actor_manager \<Rightarrow> 'w actor_manager \<times> unit result" where
  "install_checkpoint_frontier actor_id checkpoint_id =
     with_slot actor_id (\<lambda>slot. (slot\<lparr>sl_checkpoint_id := Some checkpoint_id, sl_lost := False\<rparr>, ()))"

definition worker_lost :: "string \<Rightarrow> 'w actor_manager \<Rightarrow> 'w actor_manager \<times> actor_recovery result" where
  "worker_lost actor_id = with_slot actor_id (\<lambda>slot. (slot\<lparr>sl_worker := None, sl_lost := True\<rparr>,
     case sl_checkpoint_id slot of Some checkpoint_id \<Rightarrow> Restore checkpoint_id | None \<Rightarrow> Lost))"

definition fork :: "string \<Rightarrow> string \<Rightarrow> 'w actor_manager \<Rightarrow> 'w actor_manager \<times> unit result" where
  "fork source_actor_id target_actor_id am = (case am_actors am source_actor_id of
     None \<Rightarrow> (am, Inl NotFound)
   | Some source \<Rightarrow> (case sl_checkpoint_id source of
       None \<Rightarrow> (am, Inl Invalid)
     | Some checkpoint_id \<Rightarrow>
         if am_actors am target_actor_id \<noteq> None then (am, Inl Busy)
         else (insert_new target_actor_id (Some checkpoint_id) am, Inr ())))"

definition remove :: "string \<Rightarrow> 'w actor_manager \<Rightarrow> 'w actor_manager" where
  "remove actor_id am = am\<lparr>am_actors := (am_actors am)(actor_id := None)\<rparr>"

text \<open>The order in which the map yields its keys is the argument.\<close>

definition drain_workers :: "string list \<Rightarrow> 'w actor_manager \<Rightarrow> 'w actor_manager \<times> 'w list" where
  "drain_workers keys am =
     (am\<lparr>am_actors := (\<lambda>actor_id. map_option (\<lambda>slot. slot\<lparr>sl_worker := None\<rparr>) (am_actors am actor_id))\<rparr>,
      List.map_filter (\<lambda>actor_id. Option.bind (am_actors am actor_id) sl_worker) keys)"

text \<open>The two parts of taking the gate: the lookup, and, once the permit is granted, the worker.\<close>

definition gate_of :: "string \<Rightarrow> 'w actor_manager \<Rightarrow> nat result" where
  "gate_of actor_id am = (case am_actors am actor_id of None \<Rightarrow> Inl NotFound | Some slot \<Rightarrow> Inr (sl_gate slot))"

definition gated_worker :: "string \<Rightarrow> 'w actor_manager \<Rightarrow> 'w option" where
  "gated_worker actor_id am = Option.bind (am_actors am actor_id) sl_worker"

definition admitted_worker :: "string \<Rightarrow> 'w actor_manager \<Rightarrow> 'w result" where
  "admitted_worker actor_id am = (case am_actors am actor_id of
     None \<Rightarrow> Inl NotFound
   | Some slot \<Rightarrow> if sl_lost slot then Inl NotRunning else (case sl_worker slot of None \<Rightarrow> Inl NotRunning | Some worker \<Rightarrow> Inr worker))"

section \<open>The system\<close>

datatype 'w actor_op =
    ORegister string "string option" | OPin string 'w "string option" | OCommitted string string | OFrontier string string
  | OLost string | OFork string string | ORemove string | ODrain "string list"

fun apply_op :: "'w actor_op \<Rightarrow> 'w actor_manager \<Rightarrow> 'w actor_manager" where
  "apply_op (ORegister i c) am = register i c am"
| "apply_op (OPin i w c) am = fst (pin i w c am)"
| "apply_op (OCommitted i c) am = fst (checkpoint_committed i c am)"
| "apply_op (OFrontier i c) am = fst (install_checkpoint_frontier i c am)"
| "apply_op (OLost i) am = fst (worker_lost i am)"
| "apply_op (OFork i j) am = fst (fork i j am)"
| "apply_op (ORemove i) am = remove i am"
| "apply_op (ODrain keys) am = fst (drain_workers keys am)"

text \<open>Waiting and admitted callers: the caller, the actor it asked for and the gate it found.\<close>

type_synonym ticket = "nat \<times> string \<times> nat"

record 'w actor_system =
  sy_manager :: "'w actor_manager"
  sy_waiting :: "ticket list"
  sy_held :: "ticket list"

inductive actor_step :: "('w actor_op \<Rightarrow> bool) \<Rightarrow> 'w actor_system \<Rightarrow> 'w actor_system \<Rightarrow> bool" for ok where
  operate: "ok op \<Longrightarrow> actor_step ok sy (sy\<lparr>sy_manager := apply_op op (sy_manager sy)\<rparr>)"
| wait: "gate_of i (sy_manager sy) = Inr g \<Longrightarrow> actor_step ok sy (sy\<lparr>sy_waiting := (c, i, g) # sy_waiting sy\<rparr>)"
| grant: "(c, i, g) \<in> set (sy_waiting sy) \<Longrightarrow> g \<notin> set (map (snd \<circ> snd) (sy_held sy)) \<Longrightarrow>
    actor_step ok sy (sy\<lparr>sy_waiting := remove1 (c, i, g) (sy_waiting sy), sy_held := (c, i, g) # sy_held sy\<rparr>)"
| cancel: "actor_step ok sy (sy\<lparr>sy_waiting := remove1 t (sy_waiting sy)\<rparr>)"
| release: "actor_step ok sy (sy\<lparr>sy_held := remove1 t (sy_held sy)\<rparr>)"

definition actor_system_new :: "'w actor_system" where
  "actor_system_new = \<lparr>sy_manager = actor_manager_new, sy_waiting = [], sy_held = []\<rparr>"

section \<open>Slots and gates\<close>

lemmas slot_defs = register_def pin_def checkpoint_committed_def install_checkpoint_frontier_def worker_lost_def fork_def remove_def drain_workers_def
  with_slot_def insert_new_def put_slot_def actor_slot_new_def

text \<open>What an operation does to the gate of an actor: it keeps it, or the actor is new and gets the next number, or it is removed.\<close>

lemma apply_op_gate:
  assumes "am_actors (apply_op op am) i = Some slot'"
  obtains slot where "am_actors am i = Some slot" "sl_gate slot' = sl_gate slot"
  | "am_actors am i = None" "sl_gate slot' = am_next_gate am" "am_next_gate (apply_op op am) = Suc (am_next_gate am)"
      "\<And>j. j \<noteq> i \<Longrightarrow> am_actors (apply_op op am) j = am_actors am j"
proof (cases "am_actors am i")
  case None
  then show ?thesis
    using assms that(2)
    by (cases op) (auto simp: slot_defs Let_def split: option.splits if_splits prod.splits)
next
  case (Some slot)
  then show ?thesis
    using assms that(1) [of slot]
    by (cases op) (auto simp: slot_defs Let_def split: option.splits if_splits prod.splits)
qed

lemma gate_kept:
  assumes "gate_of i am = Inr g" "op \<noteq> ORemove i"
  shows "gate_of i (apply_op op am) = Inr g"
  using assms by (cases op) (auto simp: gate_of_def slot_defs Let_def split: option.splits if_splits prod.splits)

definition gates_private :: "'w actor_manager \<Rightarrow> bool" where
  "gates_private am \<longleftrightarrow> (\<forall>i slot. am_actors am i = Some slot \<longrightarrow> sl_gate slot < am_next_gate am) \<and>
     (\<forall>i j si sj. am_actors am i = Some si \<longrightarrow> am_actors am j = Some sj \<longrightarrow> sl_gate si = sl_gate sj \<longrightarrow> i = j)"

lemma next_gate_mono: "am_next_gate am \<le> am_next_gate (apply_op op am)"
  by (cases op) (auto simp: slot_defs Let_def split: option.splits if_splits prod.splits)

lemma gates_private_step:
  assumes "gates_private am"
  shows "gates_private (apply_op op am)"
proof -
  have bound: "sl_gate slot' < am_next_gate (apply_op op am)" if "am_actors (apply_op op am) i = Some slot'" for i slot'
    using that by (rule apply_op_gate) (use assms next_gate_mono [of am op] in \<open>auto simp: gates_private_def intro: less_le_trans\<close>)
  have "i = j" if slots: "am_actors (apply_op op am) i = Some si" "am_actors (apply_op op am) j = Some sj" and same: "sl_gate si = sl_gate sj" for i j si sj
  proof (cases "am_actors am i = None \<or> am_actors am j = None")
    case True
    then obtain k l sk sl where new: "am_actors am k = None" "am_actors (apply_op op am) k = Some sk" "am_actors (apply_op op am) l = Some sl"
        "sl_gate sk = sl_gate sl" "{k, l} = {i, j}"
      using slots same by (metis doubleton_eq_iff)
    have "k = l"
    proof (rule ccontr)
      assume "k \<noteq> l"
      then have "am_actors am l = Some sl" "sl_gate sk = am_next_gate am"
        using apply_op_gate [OF new(2)] new(1,3) by (metis option.distinct(1))+
      then show False
        using assms new(4) unfolding gates_private_def by (metis less_irrefl)
    qed
    then show ?thesis using new(5) by auto
  next
    case False
    then obtain ti tj where old: "am_actors am i = Some ti" "am_actors am j = Some tj" by auto
    have "sl_gate si = sl_gate ti" "sl_gate sj = sl_gate tj"
      using slots(1,2) old by (auto elim: apply_op_gate)
    then show ?thesis using assms old same by (auto simp: gates_private_def)
  qed
  then show ?thesis using bound by (auto simp: gates_private_def)
qed

section \<open>Admission\<close>

definition held_gates :: "'w actor_system \<Rightarrow> nat list" where
  "held_gates sy = map (snd \<circ> snd) (sy_held sy)"

definition tickets_valid :: "string \<Rightarrow> 'w actor_system \<Rightarrow> bool" where
  "tickets_valid i sy \<longleftrightarrow> (\<forall>c g. (c, i, g) \<in> set (sy_waiting sy) \<union> set (sy_held sy) \<longrightarrow> gate_of i (sy_manager sy) = Inr g)"

definition actor_inv :: "string \<Rightarrow> 'w actor_system \<Rightarrow> bool" where
  "actor_inv i sy \<longleftrightarrow> gates_private (sy_manager sy) \<and> distinct (held_gates sy) \<and> tickets_valid i sy"

lemma map_remove1_distinct: "distinct (map f xs) \<Longrightarrow> distinct (map f (remove1 x xs))"
  by (induction xs) (auto dest: subsetD [OF set_remove1_subset])

lemma actor_inv_step:
  assumes "actor_step (\<lambda>op. op \<noteq> ORemove i) sy sy'" "actor_inv i sy"
  shows "actor_inv i sy'"
  using assms
proof (cases rule: actor_step.cases)
  case (operate op)
  then show ?thesis
    using assms(2) by (auto simp: actor_inv_def held_gates_def tickets_valid_def gates_private_step gate_kept)
qed (use assms(2) in \<open>auto simp: actor_inv_def held_gates_def tickets_valid_def map_remove1_distinct dest: subsetD [OF set_remove1_subset]\<close>)

lemma actor_inv_reachable: "(actor_step (\<lambda>op. op \<noteq> ORemove i))\<^sup>*\<^sup>* actor_system_new sy \<Longrightarrow> actor_inv i sy"
proof (induction rule: rtranclp_induct)
  case base
  show ?case
    by (simp add: actor_system_new_def actor_manager_new_def actor_inv_def gates_private_def held_gates_def tickets_valid_def)
qed (rule actor_inv_step)

text \<open>
  C26: Exclusive admission to an actor. In every state reached by registering, pinning, checkpointing, losing, forking and draining actors in any order, with any number of callers waiting for gates and
  holding permits, at most one permit of an actor that has not been removed is held at a time, and every caller that waits for the actor waits for the gate of the permit. No two actors share a gate,
  a fork and its source in particular.
\<close>

theorem actor_admission_exclusive:
  assumes "(actor_step (\<lambda>op. op \<noteq> ORemove i))\<^sup>*\<^sup>* actor_system_new sy"
  shows "length (filter (\<lambda>t. fst (snd t) = i) (sy_held sy)) \<le> 1 \<and>
    (\<forall>c g c' g'. (c, i, g) \<in> set (sy_held sy) \<and> (c', i, g') \<in> set (sy_waiting sy) \<longrightarrow> g = g') \<and>
    (\<forall>j k g. gate_of j (sy_manager sy) = Inr g \<and> gate_of k (sy_manager sy) = Inr g \<longrightarrow> j = k)"
proof (intro conjI)
  have inv: "actor_inv i sy"
    using assms by (rule actor_inv_reachable)
  then obtain g where gate: "\<And>t. t \<in> set (sy_held sy) \<Longrightarrow> fst (snd t) = i \<Longrightarrow> snd (snd t) = g"
    by (cases "gate_of i (sy_manager sy)") (force simp: actor_inv_def tickets_valid_def)+
  have "distinct (map (snd \<circ> snd) (filter (\<lambda>t. fst (snd t) = i) (sy_held sy)))"
    using inv by (simp add: actor_inv_def held_gates_def distinct_map_filter)
  moreover have "set (map (snd \<circ> snd) (filter (\<lambda>t. fst (snd t) = i) (sy_held sy))) \<subseteq> {g}"
    using gate by auto
  ultimately show "length (filter (\<lambda>t. fst (snd t) = i) (sy_held sy)) \<le> 1"
    by (metis card_mono distinct_card finite.emptyI finite_insert is_singletonI is_singleton_altdef length_map)
  show "\<forall>c g c' g'. (c, i, g) \<in> set (sy_held sy) \<and> (c', i, g') \<in> set (sy_waiting sy) \<longrightarrow> g = g'"
    using inv unfolding actor_inv_def tickets_valid_def by (metis UnCI sum.inject(2))
  show "\<forall>j k g. gate_of j (sy_manager sy) = Inr g \<and> gate_of k (sy_manager sy) = Inr g \<longrightarrow> j = k"
    using inv by (auto simp: actor_inv_def gates_private_def gate_of_def split: option.splits)
qed

text \<open>An actor with one admitted and one waiting caller.\<close>

definition demo_system :: "nat actor_system" where
  "demo_system = \<lparr>sy_manager = register ''a'' None actor_manager_new, sy_waiting = [(2, ''a'', 0)], sy_held = [(1, ''a'', 0)]\<rparr>"

lemma demo_reachable: "(actor_step (\<lambda>op. op \<noteq> ORemove ''a''))\<^sup>*\<^sup>* actor_system_new demo_system"
proof -
  let ?step = "actor_step (\<lambda>op. op \<noteq> ORemove ''a'')"
  let ?m = "register ''a'' None actor_manager_new :: nat actor_manager"
  have found: "gate_of ''a'' ?m = Inr 0"
    by (simp add: gate_of_def slot_defs actor_manager_new_def)
  have "?step actor_system_new \<lparr>sy_manager = ?m, sy_waiting = [], sy_held = []\<rparr>"
    using actor_step.operate [of "\<lambda>op. op \<noteq> ORemove ''a''" "ORegister ''a'' None" actor_system_new] by (simp add: actor_system_new_def)
  moreover have "?step \<lparr>sy_manager = ?m, sy_waiting = [], sy_held = []\<rparr> \<lparr>sy_manager = ?m, sy_waiting = [(1, ''a'', 0)], sy_held = []\<rparr>"
    using actor_step.wait [of "''a''" "\<lparr>sy_manager = ?m, sy_waiting = [], sy_held = []\<rparr>"] found by simp
  moreover have "?step \<lparr>sy_manager = ?m, sy_waiting = [(1, ''a'', 0)], sy_held = []\<rparr> \<lparr>sy_manager = ?m, sy_waiting = [], sy_held = [(1, ''a'', 0)]\<rparr>"
    using actor_step.grant [of 1 "''a''" 0 "\<lparr>sy_manager = ?m, sy_waiting = [(1, ''a'', 0)], sy_held = []\<rparr>"] by simp
  moreover have "?step \<lparr>sy_manager = ?m, sy_waiting = [], sy_held = [(1, ''a'', 0)]\<rparr> demo_system"
    using actor_step.wait [of "''a''" "\<lparr>sy_manager = ?m, sy_waiting = [], sy_held = [(1, ''a'', 0)]\<rparr>"] found by (simp add: demo_system_def)
  ultimately show ?thesis
    by (meson converse_rtranclp_into_rtranclp rtranclp.rtrancl_refl)
qed

theorem actor_admission_exclusive_witness: "length (filter (\<lambda>t. fst (snd t) = ''a'') (sy_held demo_system)) \<le> 1"
  using actor_admission_exclusive [OF demo_reachable] by (rule conjunct1)

text \<open>
  A lost actor stays lost. Once the worker of an actor is reported lost no call is admitted to it, and this lasts through every operation of the registry except its removal, a pin that names the actor's
  latest checkpoint (also when there is none), and a restore that the store authorized.
\<close>

theorem lost_actor_stays_lost:
  assumes "am_actors am i = Some slot" "sl_lost slot" "op \<noteq> ORemove i"
    and "\<forall>w. op \<noteq> OPin i w (sl_checkpoint_id slot)" "\<forall>c. op \<noteq> OFrontier i c"
  shows "admitted_worker i am = Inl NotRunning \<and>
    (\<exists>slot'. am_actors (apply_op op am) i = Some slot' \<and> sl_lost slot') \<and> admitted_worker i (apply_op op am) = Inl NotRunning"
  using assms
  by (cases op) (auto simp: admitted_worker_def slot_defs Let_def split: option.splits if_splits prod.splits)

theorem lost_actor_stays_lost_witness:
  "admitted_worker ''a'' (apply_op (OPin ''a'' (7 :: nat) None) \<lparr>am_actors = [''a'' \<mapsto> \<lparr>sl_worker = None, sl_checkpoint_id = Some ''c'', sl_gate = 0, sl_lost = True\<rparr>], am_next_gate = 1\<rparr>) = Inl NotRunning"
  using lost_actor_stays_lost [of "\<lparr>am_actors = [''a'' \<mapsto> \<lparr>sl_worker = None, sl_checkpoint_id = Some ''c'', sl_gate = 0, sl_lost = True\<rparr>], am_next_gate = 1\<rparr>" "''a''"
      "\<lparr>sl_worker = None, sl_checkpoint_id = Some ''c'', sl_gate = 0, sl_lost = True\<rparr>" "OPin ''a'' (7 :: nat) None"]
  by simp

end
