(* ===== verification/EgressPolicy.thy ===== *)
theory EgressPolicy
  imports Ipv4
begin

unbundle bit_operations_syntax

text \<open>
  The egress policy of guests, \<^verbatim>\<open>vmond/src/net/policy.rs\<close>: protected address ranges, trusted exceptions, the domain allowlist and the cache of resolved addresses. The daemon's resolver is an argument of each call;
  durations are nanoseconds up to the maximum of \<^verbatim>\<open>std::time::Duration\<close>. The masks are those of theory Ipv4, which \<^verbatim>\<open>policy.rs\<close> repeats.
\<close>

section \<open>Protected addresses\<close>

definition ipv4_new :: "nat \<Rightarrow> nat \<Rightarrow> nat \<Rightarrow> nat \<Rightarrow> u32" where
  "ipv4_new a b c d = word_of_nat (((a * 256 + b) * 256 + c) * 256 + d)"

text \<open>An address given by its first two segments.\<close>

definition ipv6_new :: "nat \<Rightarrow> nat \<Rightarrow> u128" where
  "ipv6_new a b = word_of_nat ((a * 65536 + b) * 2 ^ 96)"

definition PROTECTED_V4_BLOCKS :: "(u32 \<times> nat) list" where
  "PROTECTED_V4_BLOCKS =
     [(ipv4_new 0 0 0 0, 8), (ipv4_new 127 0 0 0, 8), (ipv4_new 10 0 0 0, 8), (ipv4_new 172 16 0 0, 12), (ipv4_new 192 168 0 0, 16), (ipv4_new 169 254 0 0, 16),
      (ipv4_new 224 0 0 0, 4), (ipv4_new 255 255 255 255, 32), (ipv4_new 100 64 0 0, 10), (ipv4_new 192 0 0 0, 24), (ipv4_new 192 0 2 0, 24), (ipv4_new 192 88 99 0, 24),
      (ipv4_new 198 18 0 0, 15), (ipv4_new 198 51 100 0, 24), (ipv4_new 203 0 113 0, 24), (ipv4_new 240 0 0 0, 4)]"

definition PROTECTED_V6_BLOCKS :: "(u128 \<times> nat) list" where
  "PROTECTED_V6_BLOCKS =
     [(0, 128), (1, 128), (ipv6_new 0xfc00 0, 7), (ipv6_new 0xfe80 0, 10), (ipv6_new 0xff00 0, 8), (ipv6_new 0x2001 0x0db8, 32), (ipv6_new 0x2001 0x10, 28)]"

definition in_v4 :: "u32 \<Rightarrow> u32 \<Rightarrow> nat \<Rightarrow> bool" where
  "in_v4 address network prefix \<longleftrightarrow> address AND ipv4_mask prefix = network"

definition in_v6 :: "u128 \<Rightarrow> u128 \<Rightarrow> nat \<Rightarrow> bool" where
  "in_v6 address network prefix \<longleftrightarrow> address AND ipv6_mask prefix = network"

text \<open>The classes of \<^verbatim>\<open>std::net\<close> the code asks for.\<close>

definition is_private_v4 :: "u32 \<Rightarrow> bool" where
  "is_private_v4 a \<longleftrightarrow> octet 3 a = 10 \<or> octet 3 a = 172 \<and> 16 \<le> octet 2 a \<and> octet 2 a \<le> 31 \<or> octet 3 a = 192 \<and> octet 2 a = 168"

fun is_protected :: "ip_addr \<Rightarrow> bool" where
  "is_protected (IpV4 address) \<longleftrightarrow>
     address = 0 \<or> octet 3 address = 127 \<or> is_private_v4 address \<or> (octet 3 address = 169 \<and> octet 2 address = 254) \<or>
     (224 \<le> octet 3 address \<and> octet 3 address \<le> 239) \<or> address = ipv4_new 255 255 255 255 \<or>
     in_v4 address (ipv4_new 100 64 0 0) 10 \<or> in_v4 address (ipv4_new 192 0 0 0) 24 \<or> in_v4 address (ipv4_new 192 0 2 0) 24 \<or>
     in_v4 address (ipv4_new 192 88 99 0) 24 \<or> in_v4 address (ipv4_new 198 18 0 0) 15 \<or> in_v4 address (ipv4_new 198 51 100 0) 24 \<or>
     in_v4 address (ipv4_new 203 0 113 0) 24 \<or> in_v4 address (ipv4_new 240 0 0 0) 4"
| "is_protected (IpV6 address) \<longleftrightarrow>
     address = 0 \<or> address = 1 \<or> unat address div 2 ^ 120 = 255 \<or>
     in_v6 address (ipv6_new 0xfc00 0) 7 \<or> in_v6 address (ipv6_new 0xfe80 0) 10 \<or> in_v6 address (ipv6_new 0x2001 0xdb8) 32 \<or>
     in_v6 address (ipv6_new 0x2001 0x10) 28"

section \<open>Trusted exceptions\<close>

fun trusted_contains :: "cidr_net \<Rightarrow> ip_addr \<Rightarrow> bool" where
  "trusted_contains (V4 network prefix) (IpV4 address) \<longleftrightarrow> network AND ipv4_mask prefix = address AND ipv4_mask prefix"
| "trusted_contains (V6 network prefix) (IpV6 address) \<longleftrightarrow> network AND ipv6_mask prefix = address AND ipv6_mask prefix"
| "trusted_contains _ _ \<longleftrightarrow> False"

fun within_protected :: "cidr_net \<Rightarrow> bool" where
  "within_protected (V4 net prefix) \<longleftrightarrow> list_ex (\<lambda>(block, p). p \<le> prefix \<and> net AND ipv4_mask p = block) PROTECTED_V4_BLOCKS"
| "within_protected (V6 net prefix) \<longleftrightarrow> list_ex (\<lambda>(block, p). p \<le> prefix \<and> net AND ipv6_mask p = block) PROTECTED_V6_BLOCKS"

definition trusted_from_str :: "(string \<Rightarrow> u128 option) \<Rightarrow> string \<Rightarrow> cidr_net result" where
  "trusted_from_str v6 s =
     (let (addr_s, prefix_s) = (case split_once (CHR ''/'') (trim s) of None \<Rightarrow> (trim s, None) | Some (a, p) \<Rightarrow> (a, Some p)) in
      rbind (parse_ip v6 addr_s) (\<lambda>addr.
      rbind (parse_prefix prefix_s (case addr of IpV4 _ \<Rightarrow> 32 | IpV6 _ \<Rightarrow> 128)) (\<lambda>prefix.
      let net = (case addr of IpV4 a \<Rightarrow> V4 (a AND ipv4_mask prefix) prefix | IpV6 a \<Rightarrow> V6 (a AND ipv6_mask prefix) prefix) in
      if within_protected net then Inr net else Inl Invalid)))"

section \<open>The policy\<close>

type_synonym duration = nat

definition duration_max :: duration where
  "duration_max = 2 ^ 64 * 10 ^ 9 - 1"

type_synonym answers = "(ip_addr \<times> duration) list"

record pinned_addresses =
  pa_addresses :: "ip_addr set"
  pa_expires_at :: duration

record egress_policy =
  ep_allowed_domains :: "string set"
  ep_trusted :: "cidr_net list"
  ep_pins :: "string \<Rightarrow> pinned_addresses option"

definition strip_wildcard :: "string \<Rightarrow> string option" where
  "strip_wildcard s = (if take 2 s = ''*.'' then Some (drop 2 s) else None)"

definition is_ascii_alphanumeric :: "char \<Rightarrow> bool" where
  "is_ascii_alphanumeric c \<longleftrightarrow> is_digit c \<or> char_between CHR ''a'' CHR ''z'' c \<or> char_between CHR ''A'' CHR ''Z'' c"

definition valid_label :: "string \<Rightarrow> bool" where
  "valid_label label \<longleftrightarrow> label \<noteq> [] \<and> length label \<le> 63 \<and> hd label \<noteq> CHR ''-'' \<and> last label \<noteq> CHR ''-'' \<and>
     list_all (\<lambda>c. is_ascii_alphanumeric c \<or> c = CHR ''-'') label"

definition host_of :: "string \<Rightarrow> string" where
  "host_of domain = (case strip_wildcard domain of Some host \<Rightarrow> host | None \<Rightarrow> domain)"

definition normalize_domain :: "string \<Rightarrow> string result" where
  "normalize_domain v =
     (let domain = map to_lower (rev (dropWhile (\<lambda>c. c = CHR ''.'') (rev (trim v)))); host = host_of domain in
      if host = [] \<or> 253 < length host \<or> list_ex (\<lambda>label. \<not> valid_label label) (split_on (CHR ''.'') host) then Inl Invalid else Inr domain)"

fun collect_parsed :: "('a \<Rightarrow> 'b result) \<Rightarrow> 'a list \<Rightarrow> 'b list result" where
  "collect_parsed f [] = Inr []"
| "collect_parsed f (x # xs) = rbind (f x) (\<lambda>y. rbind (collect_parsed f xs) (\<lambda>ys. Inr (y # ys)))"

definition egress_policy_new :: "(string \<Rightarrow> u128 option) \<Rightarrow> string list \<Rightarrow> string list \<Rightarrow> egress_policy result" where
  "egress_policy_new v6 allowed_domains trusted =
     rbind (collect_parsed normalize_domain allowed_domains) (\<lambda>domains.
     rbind (collect_parsed (trusted_from_str v6) trusted) (\<lambda>nets.
     Inr \<lparr>ep_allowed_domains = set domains, ep_trusted = nets, ep_pins = Map.empty\<rparr>))"

definition destination_allowed :: "egress_policy \<Rightarrow> ip_addr \<Rightarrow> bool" where
  "destination_allowed ep address \<longleftrightarrow> list_ex (\<lambda>net. trusted_contains net address) (ep_trusted ep) \<or> \<not> is_protected address"

definition domain_allowed :: "egress_policy \<Rightarrow> string \<Rightarrow> bool" where
  "domain_allowed ep domain \<longleftrightarrow> (\<exists>allowed\<in>ep_allowed_domains ep. allowed = domain \<or>
     (case strip_wildcard allowed of None \<Rightarrow> False | Some sfx \<Rightarrow>
        length sfx < length domain \<and> drop (length domain - length sfx) domain = sfx \<and> domain ! (length domain - length sfx - 1) = CHR ''.''))"

text \<open>The loop over the answers: the addresses and the smallest lifetime, or the first protected address.\<close>

fun collect_answers :: "egress_policy \<Rightarrow> answers \<Rightarrow> ip_addr set \<Rightarrow> duration option \<Rightarrow> (ip_addr set \<times> duration option) result" where
  "collect_answers ep [] addresses ttl = Inr (addresses, ttl)"
| "collect_answers ep ((address, t) # rest) addresses ttl =
     (if \<not> destination_allowed ep address then Inl Invalid
      else collect_answers ep rest (insert address addresses) (Some (case ttl of None \<Rightarrow> t | Some current \<Rightarrow> min current t)))"

definition expiry :: "duration \<Rightarrow> duration \<Rightarrow> duration" where
  "expiry now ttl = (if now + ttl \<le> duration_max then now + ttl else duration_max)"

definition resolve_allowed :: "(string \<Rightarrow> answers result) \<Rightarrow> string \<Rightarrow> duration \<Rightarrow> egress_policy \<Rightarrow> egress_policy \<times> ip_addr set result" where
  "resolve_allowed resolver v now ep = (case normalize_domain v of
     Inl e \<Rightarrow> (ep, Inl e)
   | Inr domain \<Rightarrow>
       if \<not> domain_allowed ep domain then (ep, Inl Invalid)
       else let host = host_of domain in
         if (case ep_pins ep host of Some p \<Rightarrow> now < pa_expires_at p | None \<Rightarrow> False)
         then (ep, Inr (pa_addresses (the (ep_pins ep host))))
         else (case resolver host of
             Inl e \<Rightarrow> (ep, Inl e)
           | Inr answers \<Rightarrow>
               if answers = [] then (ep, Inl Engine)
               else (case collect_answers ep answers {} None of
                   Inl e \<Rightarrow> (ep, Inl e)
                 | Inr (addresses, ttl) \<Rightarrow>
                     (ep\<lparr>ep_pins := (ep_pins ep)(host \<mapsto> \<lparr>pa_addresses = addresses, pa_expires_at = expiry now (the ttl)\<rparr>)\<rparr>, Inr addresses))))"

fun approve_servers :: "egress_policy \<Rightarrow> ip_addr list \<Rightarrow> ip_addr list \<Rightarrow> ip_addr list result" where
  "approve_servers ep [] approved = Inr approved"
| "approve_servers ep (server # rest) approved =
     (if \<not> destination_allowed ep server then Inl Invalid
      else approve_servers ep rest (if server \<in> set approved then approved else approved @ [server]))"

definition approved_dns :: "egress_policy \<Rightarrow> ip_addr list \<Rightarrow> ip_addr list result" where
  "approved_dns ep servers = (if servers = [] then Inl Invalid else approve_servers ep servers [])"

section \<open>Ranges\<close>

lemma masked_word: "a AND push_bit n (- 1) = push_bit n (drop_bit n (a :: 'a::len word))"
  by (rule bit_eqI) (auto simp: bit_simps)

lemma masked_eq_iff:
  fixes a :: "'a::len word"
  assumes "n \<le> LENGTH('a)" "k < 2 ^ (LENGTH('a) - n)"
  shows "a AND push_bit n (- 1) = word_of_nat (k * 2 ^ n) \<longleftrightarrow> unat a div 2 ^ n = k"
proof -
  have "k * 2 ^ n < 2 ^ (LENGTH('a) - n) * 2 ^ n"
    using assms(2) by simp
  also have "\<dots> = 2 ^ LENGTH('a)"
    using assms(1) by (simp flip: power_add)
  finally have k: "unat (word_of_nat (k * 2 ^ n) :: 'a word) = k * 2 ^ n"
    by (simp add: unat_of_nat del: of_nat_mult)
  have "unat a div 2 ^ n * 2 ^ n < 2 ^ LENGTH('a)"
    using div_times_less_eq_dividend [of "unat a" "2 ^ n"] unsigned_less [of a, where 'a = nat] by linarith
  then have "unat (a AND push_bit n (- 1)) = unat a div 2 ^ n * 2 ^ n"
    unfolding masked_word unsigned_push_bit_eq unat_drop_bit_eq by (simp add: push_bit_eq_mult drop_bit_eq_div take_bit_eq_mod)
  then show ?thesis
    using k by (metis div_mult_self_is_m mult.commute word_unat_eq_iff zero_less_numeral zero_less_power)
qed

lemma in_v4_range:
  assumes "0 < p" "p \<le> 32" "k < 2 ^ p" "m = k * 2 ^ (32 - p)"
  shows "a AND ipv4_mask p = word_of_nat m \<longleftrightarrow> unat a div 2 ^ (32 - p) = k"
  using masked_eq_iff [of "32 - p" k a] assms by (simp add: ipv4_mask_def del: of_nat_mult)

lemma in_v6_range:
  assumes "0 < p" "p \<le> 128" "k < 2 ^ p" "m = k * 2 ^ (128 - p)"
  shows "a AND ipv6_mask p = word_of_nat m \<longleftrightarrow> unat a div 2 ^ (128 - p) = k"
  using masked_eq_iff [of "128 - p" k a] assms by (simp add: ipv6_mask_def del: of_nat_mult)

text \<open>The blocks as prefixes of the number.\<close>

lemma v4_blocks:
  "a AND ipv4_mask 8 = ipv4_new 0 0 0 0 \<longleftrightarrow> unat a div 2 ^ 24 = 0"
  "a AND ipv4_mask 8 = ipv4_new 127 0 0 0 \<longleftrightarrow> unat a div 2 ^ 24 = 127"
  "a AND ipv4_mask 8 = ipv4_new 10 0 0 0 \<longleftrightarrow> unat a div 2 ^ 24 = 10"
  "a AND ipv4_mask 12 = ipv4_new 172 16 0 0 \<longleftrightarrow> unat a div 2 ^ 20 = 172 * 16 + 1"
  "a AND ipv4_mask 16 = ipv4_new 192 168 0 0 \<longleftrightarrow> unat a div 2 ^ 16 = 192 * 256 + 168"
  "a AND ipv4_mask 16 = ipv4_new 169 254 0 0 \<longleftrightarrow> unat a div 2 ^ 16 = 169 * 256 + 254"
  "a AND ipv4_mask 4 = ipv4_new 224 0 0 0 \<longleftrightarrow> unat a div 2 ^ 28 = 14"
  "a AND ipv4_mask 10 = ipv4_new 100 64 0 0 \<longleftrightarrow> unat a div 2 ^ 22 = 401"
  "a AND ipv4_mask 24 = ipv4_new 192 0 0 0 \<longleftrightarrow> unat a div 2 ^ 8 = 192 * 65536"
  "a AND ipv4_mask 24 = ipv4_new 192 0 2 0 \<longleftrightarrow> unat a div 2 ^ 8 = 192 * 65536 + 2"
  "a AND ipv4_mask 24 = ipv4_new 192 88 99 0 \<longleftrightarrow> unat a div 2 ^ 8 = 192 * 65536 + 88 * 256 + 99"
  "a AND ipv4_mask 15 = ipv4_new 198 18 0 0 \<longleftrightarrow> unat a div 2 ^ 17 = 198 * 128 + 9"
  "a AND ipv4_mask 24 = ipv4_new 198 51 100 0 \<longleftrightarrow> unat a div 2 ^ 8 = 198 * 65536 + 51 * 256 + 100"
  "a AND ipv4_mask 24 = ipv4_new 203 0 113 0 \<longleftrightarrow> unat a div 2 ^ 8 = 203 * 65536 + 113"
  "a AND ipv4_mask 4 = ipv4_new 240 0 0 0 \<longleftrightarrow> unat a div 2 ^ 28 = 15"
  unfolding ipv4_new_def by (subst in_v4_range; simp)+

lemma mask_32: "(a :: u32) AND ipv4_mask 32 = a"
  by (simp add: ipv4_mask_def)

lemma octet_blocks:
  "octet 3 a = unat a div 2 ^ 24" "octet 2 a = unat a div 2 ^ 16 mod 256"
proof -
  have "unat a div 2 ^ 24 < 2 ^ 8"
    using unsigned_less [of a, where 'a = nat] by (simp add: div_less_iff_less_mult)
  then show "octet 3 a = unat a div 2 ^ 24" "octet 2 a = unat a div 2 ^ 16 mod 256"
    by (simp_all add: octet_def)
qed

text \<open>The octets the standard library looks at, as the blocks they stand for.\<close>

lemma octet_ranges:
  "octet 3 a = 127 \<longleftrightarrow> unat a div 2 ^ 24 = 127"
  "is_private_v4 a \<longleftrightarrow> unat a div 2 ^ 24 = 10 \<or> unat a div 2 ^ 20 = 172 * 16 + 1 \<or> unat a div 2 ^ 16 = 192 * 256 + 168"
  "octet 3 a = 169 \<and> octet 2 a = 254 \<longleftrightarrow> unat a div 2 ^ 16 = 169 * 256 + 254"
  "224 \<le> octet 3 a \<and> octet 3 a \<le> 239 \<longleftrightarrow> unat a div 2 ^ 28 = 14"
proof -
  define b where "b = unat a div 2 ^ 16"
  have parts: "unat a div 2 ^ 24 = b div 256" "unat a div 2 ^ 20 = b div 16" "unat a div 2 ^ 28 = b div 4096"
    by (simp_all add: b_def div_mult2_eq [symmetric])
  have octets: "octet 3 a = b div 256" "octet 2 a = b mod 256"
    by (simp_all add: octet_blocks b_def div_mult2_eq [symmetric])
  show "octet 3 a = 127 \<longleftrightarrow> unat a div 2 ^ 24 = 127"
    by (simp add: octet_blocks)
  have pair: "b div 256 = q \<and> b mod 256 = r \<longleftrightarrow> b = 256 * q + r" if "r < 256" for q r
    using that by auto
  have "b div 16 = 16 * (b div 256) + b mod 256 div 16"
    using div_mult2_eq [of b 16 16] mod_mult2_eq [of b 16 16] by (simp add: div_mult_mod_eq)
  moreover have "b mod 256 div 16 < 16"
    by (simp add: div_less_iff_less_mult)
  moreover have "16 \<le> b mod 256 \<and> b mod 256 \<le> 31 \<longleftrightarrow> b mod 256 div 16 = 1"
    by auto
  moreover have "q = 172 \<and> t = 1 \<longleftrightarrow> 16 * q + t = 2753" if "t < 16" for q t :: nat
    using that by presburger
  ultimately have "b div 256 = 172 \<and> 16 \<le> b mod 256 \<and> b mod 256 \<le> 31 \<longleftrightarrow> b div 16 = 2753"
    by (metis (no_types))
  moreover have "b div 256 = 192 \<and> b mod 256 = 168 \<longleftrightarrow> b = 49320"
    using pair [of 168 192] by simp
  ultimately show "is_private_v4 a \<longleftrightarrow> unat a div 2 ^ 24 = 10 \<or> unat a div 2 ^ 20 = 172 * 16 + 1 \<or> unat a div 2 ^ 16 = 192 * 256 + 168"
    unfolding is_private_v4_def octets parts b_def [symmetric] by auto
  have "b div 256 = 169 \<and> b mod 256 = 254 \<longleftrightarrow> b = 43518"
    using pair [of 254 169] by simp
  then show "octet 3 a = 169 \<and> octet 2 a = 254 \<longleftrightarrow> unat a div 2 ^ 16 = 169 * 256 + 254"
    unfolding octets b_def [symmetric] by simp
  have "224 \<le> c \<and> c \<le> 239 \<longleftrightarrow> c div 16 = 14" for c :: nat
    by auto
  then have "224 \<le> b div 256 \<and> b div 256 \<le> 239 \<longleftrightarrow> b div 4096 = 14"
    using div_mult2_eq [of b 256 16] by simp
  then show "224 \<le> octet 3 a \<and> octet 3 a \<le> 239 \<longleftrightarrow> unat a div 2 ^ 28 = 14"
    unfolding octets parts .
qed

definition in_block_v4 :: "u32 \<Rightarrow> bool" where
  "in_block_v4 a \<longleftrightarrow> list_ex (\<lambda>(block, p). a AND ipv4_mask p = block) PROTECTED_V4_BLOCKS"

definition in_block_v6 :: "u128 \<Rightarrow> bool" where
  "in_block_v6 a \<longleftrightarrow> list_ex (\<lambda>(block, p). a AND ipv6_mask p = block) PROTECTED_V6_BLOCKS"

lemma word_eq_max: "(a :: u32) = ipv4_new 255 255 255 255 \<longleftrightarrow> unat a = 2 ^ 32 - 1"
  by (simp add: word_unat_eq_iff ipv4_new_def)

lemma v6_blocks:
  "(a :: u128) AND ipv6_mask 128 = 0 \<longleftrightarrow> a = 0" "a AND ipv6_mask 128 = 1 \<longleftrightarrow> a = 1"
  "a AND ipv6_mask 8 = ipv6_new 0xff00 0 \<longleftrightarrow> unat a div 2 ^ 120 = 255"
  subgoal by (simp add: ipv6_mask_def)
  subgoal by (simp add: ipv6_mask_def)
  subgoal unfolding ipv6_new_def by (subst in_v6_range; simp)
  done

text \<open>
  The two descriptions of protected addresses agree. An IPv6 address is protected exactly when it lies in a block of the table that trusted exceptions are checked against; so is an IPv4 address, except that of
  the block 0.0.0.0/8 only the address 0.0.0.0 is protected.
\<close>

theorem protected_tables_agree:
  "(is_protected (IpV6 b) \<longleftrightarrow> in_block_v6 b) \<and> (is_protected (IpV4 a) \<longleftrightarrow> in_block_v4 a \<and> (2 ^ 24 \<le> unat a \<or> a = 0))"
proof
  show "is_protected (IpV6 b) \<longleftrightarrow> in_block_v6 b"
    by (auto simp: in_block_v6_def PROTECTED_V6_BLOCKS_def in_v6_def v6_blocks)
  show "is_protected (IpV4 a) \<longleftrightarrow> in_block_v4 a \<and> (2 ^ 24 \<le> unat a \<or> a = 0)"
  proof -
    have either: "2 ^ 24 \<le> unat a \<or> a = 0 \<longleftrightarrow> (unat a < 2 ^ 24 \<longrightarrow> a = 0)"
      by auto
    have large: "2 ^ 24 \<le> unat a" if "unat a div d = c" "2 ^ 24 \<le> c * d" for c d
      using div_times_less_eq_dividend [of "unat a" d] that by auto
    have "unat a < 2 ^ 24 \<longleftrightarrow> unat a div 2 ^ 24 = 0"
      by (simp add: div_eq_0_iff)
    then show ?thesis
      unfolding either is_protected.simps in_block_v4_def PROTECTED_V4_BLOCKS_def in_v4_def octet_ranges list_ex_Cons_iff list_ex_Nil_iff case_prod_conv mask_32 v4_blocks word_eq_max
      using large [of "2 ^ 24" 127] large [of "2 ^ 24" 10] large [of "2 ^ 20" 2753] large [of "2 ^ 16" 49320] large [of "2 ^ 16" 43518] large [of "2 ^ 28" 14]
        large [of "2 ^ 22" 401] large [of "2 ^ 8" "192 * 65536"] large [of "2 ^ 8" "192 * 65536 + 2"] large [of "2 ^ 8" "192 * 65536 + 88 * 256 + 99"]
        large [of "2 ^ 17" "198 * 128 + 9"] large [of "2 ^ 8" "198 * 65536 + 51 * 256 + 100"] large [of "2 ^ 8" "203 * 65536 + 113"] large [of "2 ^ 28" 15]
      by auto
  qed
qed

section \<open>Exceptions are narrow\<close>

lemma mask_nested:
  "p \<le> q \<Longrightarrow> q \<le> 32 \<Longrightarrow> ipv4_mask q AND ipv4_mask p = ipv4_mask p"
  "p \<le> q \<Longrightarrow> q \<le> 128 \<Longrightarrow> ipv6_mask q AND ipv6_mask p = ipv6_mask p"
  by (rule bit_eqI; auto simp: ipv4_mask_def ipv6_mask_def bit_simps)+

text \<open>A block of the table that holds a network holds its addresses.\<close>

lemma masked_via:
  fixes a net q p :: "'a::len word"
  assumes "q AND p = p" "net AND q = a AND q"
  shows "a AND p = net AND p"
  using assms by (metis and.assoc and.commute)

text \<open>
  C28: Trusted exceptions stay within protected blocks. A trusted network that the policy accepts contains only addresses of a block of the table, so an exception never grants more than it takes back from the
  protection; broad networks such as 0.0.0.0/0 are refused.
\<close>

theorem trusted_exceptions_narrow:
  assumes "trusted_from_str v6 s = Inr net" "trusted_contains net a"
  shows "case a of IpV4 b \<Rightarrow> in_block_v4 b | IpV6 b \<Rightarrow> in_block_v6 b"
proof -
  have within: "within_protected net" and bound: "case net of V4 _ p \<Rightarrow> p \<le> 32 | V6 _ p \<Rightarrow> p \<le> 128"
    using assms(1) unfolding trusted_from_str_def
    by (auto simp: rbind_def Let_def parse_prefix_def split: sum.splits option.splits if_splits ip_addr.splits prod.splits)
  show ?thesis
  proof (cases net)
    case (V4 n q)
    then obtain b where b: "a = IpV4 b" "n AND ipv4_mask q = b AND ipv4_mask q"
      using assms(2) by (cases a) auto
    have "b AND ipv4_mask p = n AND ipv4_mask p" if "p \<le> q" for p
      using masked_via [OF mask_nested(1) b(2)] bound V4 that by simp
    then show ?thesis
      using within unfolding V4 b(1) by (auto simp: in_block_v4_def list_ex_iff)
  next
    case (V6 n q)
    then obtain b where b: "a = IpV6 b" "n AND ipv6_mask q = b AND ipv6_mask q"
      using assms(2) by (cases a) auto
    have "b AND ipv6_mask p = n AND ipv6_mask p" if "p \<le> q" for p
      using masked_via [OF mask_nested(2) b(2)] bound V6 that by simp
    then show ?thesis
      using within unfolding V6 b(1) by (auto simp: in_block_v6_def list_ex_iff)
  qed
qed

lemma demo_trusted: "trusted_from_str (\<lambda>_. None) ''169.254.169.254/32'' = Inr (V4 (ipv4_new 169 254 169 254) 32)"
proof -
  have "split_once (CHR ''/'') (trim ''169.254.169.254/32'') = Some (''169.254.169.254'', ''32'')"
    by (simp add: split_once_def trim_def is_whitespace_def)
  moreover have "parse_ip (\<lambda>_. None) ''169.254.169.254'' = Inr (IpV4 (ipv4_new 169 254 169 254))"
    by (simp add: parse_ip_def ipv4_parse_def parse_octet_def digits_val_def is_digit_def ipv4_new_def less_eq_char_def)
  moreover have "parse_prefix (Some ''32'') 32 = Inr 32"
    by (simp add: parse_prefix_def parse_uint_def digits_val_def is_digit_def less_eq_char_def)
  moreover have "within_protected (V4 (ipv4_new 169 254 169 254) 32)"
    by (simp add: PROTECTED_V4_BLOCKS_def v4_blocks) (simp add: ipv4_new_def)
  ultimately show ?thesis
    by (simp add: trusted_from_str_def rbind_def mask_32)
qed

theorem trusted_exceptions_narrow_witness:
  "case IpV4 (ipv4_new 169 254 169 254) of IpV4 b \<Rightarrow> in_block_v4 b | IpV6 b \<Rightarrow> in_block_v6 b"
  by (rule trusted_exceptions_narrow [OF demo_trusted]) simp

section \<open>Resolution\<close>

lemma collect_answers_spec:
  "collect_answers ep as A ttl = Inr (B, ttl') \<Longrightarrow>
     B = A \<union> fst ` set as \<and> (\<forall>x\<in>set as. destination_allowed ep (fst x)) \<and>
     (\<forall>m. ttl = Some m \<longrightarrow> (\<exists>m'. ttl' = Some m' \<and> m' \<le> m)) \<and>
     (as \<noteq> [] \<longrightarrow> (\<exists>m'. ttl' = Some m' \<and> (\<forall>x\<in>set as. m' \<le> snd x)))"
proof (induction ep as A ttl rule: collect_answers.induct)
  case (2 ep address t rest A ttl)
  then have "destination_allowed ep address"
    by (simp split: if_splits)
  then show ?case
    using 2 by (cases ttl) (force simp: min_def split: if_splits)+
qed simp

type_synonym lookup = "string \<times> duration \<times> (string \<Rightarrow> answers result)"

definition resolves :: "egress_policy \<Rightarrow> lookup list \<Rightarrow> egress_policy" where
  "resolves ep calls = foldl (\<lambda>ep (domain, now, resolver). fst (resolve_allowed resolver domain now ep)) ep calls"

text \<open>A set of addresses that one answer of a lookup gave, all allowed, with its lifetime.\<close>

definition answered_at :: "egress_policy \<Rightarrow> lookup set \<Rightarrow> string \<Rightarrow> ip_addr set \<Rightarrow> duration \<Rightarrow> bool" where
  "answered_at ep calls host addresses expires \<longleftrightarrow> (\<exists>domain t resolver answers. (domain, t, resolver) \<in> calls \<and> resolver host = Inr answers \<and>
     addresses = fst ` set answers \<and> (\<forall>a\<in>addresses. destination_allowed ep a) \<and> (\<forall>x\<in>set answers. expires \<le> t + snd x))"

lemma resolve_keeps: "ep_trusted (fst (resolve_allowed r d t ep)) = ep_trusted ep" "ep_allowed_domains (fst (resolve_allowed r d t ep)) = ep_allowed_domains ep"
  by (simp_all add: resolve_allowed_def Let_def split: sum.split prod.split)

lemma expiry_bound: "expiry now ttl \<le> now + ttl"
  by (simp add: expiry_def)

lemma resolve_pins:
  assumes "ep_pins (fst (resolve_allowed r d t ep)) host = Some p"
  shows "ep_pins ep host = Some p \<or> answered_at ep {(d, t, r)} host (pa_addresses p) (pa_expires_at p)"
proof (cases "ep_pins ep host = Some p")
  case False
  then obtain answers addresses ttl where found: "r host = Inr answers" "answers \<noteq> []" "collect_answers ep answers {} None = Inr (addresses, ttl)"
      "p = \<lparr>pa_addresses = addresses, pa_expires_at = expiry t (the ttl)\<rparr>"
    using assms by (auto simp: resolve_allowed_def Let_def split: sum.splits prod.splits option.splits if_splits)
  obtain m where m: "ttl = Some m" "\<forall>x\<in>set answers. m \<le> snd x" "addresses = fst ` set answers" "\<forall>x\<in>set answers. destination_allowed ep (fst x)"
    using collect_answers_spec [OF found(3)] found(2) by auto
  have "expiry t m \<le> t + snd x" if "x \<in> set answers" for x
    using expiry_bound [of t m] m(2) that by (meson add_left_mono le_trans)
  then show ?thesis
    using found m by (auto simp: answered_at_def)
qed simp

lemma answered_mono:
  assumes "answered_at ep C h A e" "C \<subseteq> C'" "ep_trusted ep' = ep_trusted ep"
  shows "answered_at ep' C' h A e"
proof -
  obtain d t r answers where a: "(d, t, r) \<in> C" "r h = Inr answers" "A = fst ` set answers" "\<forall>a\<in>A. destination_allowed ep a" "\<forall>x\<in>set answers. e \<le> t + snd x"
    using assms(1) unfolding answered_at_def by blast
  have "\<forall>a\<in>A. destination_allowed ep' a"
    using a(4) by (simp add: destination_allowed_def assms(3))
  then show ?thesis
    unfolding answered_at_def
    by (intro exI [of _ d] exI [of _ t] exI [of _ r] exI [of _ answers] conjI) (use a assms(2) in auto)
qed

lemma resolves_pins:
  assumes "ep_pins ep0 = Map.empty" "ep_pins (resolves ep0 calls) host = Some p"
  shows "answered_at ep0 (set calls) host (pa_addresses p) (pa_expires_at p)"
  using assms(2)
proof (induction calls arbitrary: p rule: rev_induct)
  case Nil
  then show ?case using assms(1) by (simp add: resolves_def)
next
  case (snoc call calls)
  have kept: "ep_trusted (resolves ep0 cs) = ep_trusted ep0" for cs
    by (induction cs rule: rev_induct) (auto simp: resolves_def resolve_keeps split: prod.split)
  obtain d t r where call: "call = (d, t, r)" by (cases call)
  have "ep_pins (fst (resolve_allowed r d t (resolves ep0 calls))) host = Some p"
    using snoc.prems by (simp add: resolves_def call)
  then consider "ep_pins (resolves ep0 calls) host = Some p" | "answered_at (resolves ep0 calls) {(d, t, r)} host (pa_addresses p) (pa_expires_at p)"
    using resolve_pins by blast
  then show ?case
  proof cases
    case 1
    show ?thesis by (rule answered_mono [OF snoc.IH [OF 1]]) auto
  next
    case 2
    show ?thesis by (rule answered_mono [OF 2]) (auto simp: kept call)
  qed
qed

lemma resolves_kept: "ep_trusted (resolves ep calls) = ep_trusted ep" "ep_allowed_domains (resolves ep calls) = ep_allowed_domains ep"
  by (induction calls rule: rev_induct) (auto simp: resolves_def resolve_keeps split: prod.split)

text \<open>
  C27: Addresses a guest may reach by name. Whatever names were looked up before, at whatever times and with whatever answers, a lookup that succeeds is for a name of the allowlist, and the addresses it returns
  are exactly those of one answer of the daemon's resolver for that host, given now or in an earlier lookup whose lifetime, for every address of the answer, has not passed; all of them are unprotected or in a trusted
  exception. A name that comes to resolve to a protected address therefore stops working when its answer expires.
\<close>

theorem egress_resolution_sound:
  assumes "egress_policy_new v6 domains trusted = Inr ep"
    and "resolve_allowed resolver v now (resolves ep calls) = (ep', Inr addresses)"
  shows "\<exists>domain. normalize_domain v = Inr domain \<and> domain_allowed ep domain \<and> (\<forall>a\<in>addresses. destination_allowed ep a) \<and>
    (\<exists>(d, t, r)\<in>insert (v, now, resolver) (set calls). \<exists>answers. r (host_of domain) = Inr answers \<and> addresses = fst ` set answers \<and>
       (\<forall>x\<in>set answers. t = now \<or> now < t + snd x))"
proof -
  let ?ep = "resolves ep calls"
  have empty: "ep_pins ep = Map.empty"
    using assms(1) by (auto simp: egress_policy_new_def rbind_def split: sum.splits)
  obtain domain where domain: "normalize_domain v = Inr domain" "domain_allowed ?ep domain"
    using assms(2) by (auto simp: resolve_allowed_def split: sum.splits if_splits)
  have allowed: "domain_allowed ep domain"
    using domain(2) by (simp add: domain_allowed_def resolves_kept)
  consider (pinned) p where "ep_pins ?ep (host_of domain) = Some p" "now < pa_expires_at p" "addresses = pa_addresses p"
    | (fresh) answers ttl where "resolver (host_of domain) = Inr answers" "collect_answers ?ep answers {} None = Inr (addresses, ttl)"
    using assms(2) domain
    by (auto simp: resolve_allowed_def Let_def split: sum.splits if_splits option.splits prod.splits)
  then show ?thesis
  proof cases
    case pinned
    obtain d t r answers where answer: "(d, t, r) \<in> set calls" "r (host_of domain) = Inr answers" "addresses = fst ` set answers"
        "\<forall>a\<in>addresses. destination_allowed ep a" "\<forall>x\<in>set answers. pa_expires_at p \<le> t + snd x"
      using resolves_pins [OF empty pinned(1)] pinned(3) by (auto simp: answered_at_def)
    moreover have "\<forall>x\<in>set answers. now < t + snd x"
      using answer(5) pinned(2) by auto
    ultimately show ?thesis
      by (intro exI [of _ domain] conjI bexI [of _ "(d, t, r)"]) (use domain(1) allowed in auto)
  next
    case fresh
    have "destination_allowed ep a" if "destination_allowed ?ep a" for a
      using that by (simp add: destination_allowed_def resolves_kept)
    then have "\<forall>a\<in>addresses. destination_allowed ep a" "addresses = fst ` set answers"
      using collect_answers_spec [OF fresh(2)] by auto
    then show ?thesis
      by (intro exI [of _ domain] conjI bexI [of _ "(v, now, resolver)"]) (use domain(1) allowed fresh(1) in auto)
  qed
qed

definition demo_policy :: egress_policy where
  "demo_policy = \<lparr>ep_allowed_domains = {''a.b''}, ep_trusted = [], ep_pins = Map.empty\<rparr>"

lemma demo_normalized: "normalize_domain ''a.b'' = Inr ''a.b''"
  by (simp add: normalize_domain_def host_of_def strip_wildcard_def trim_def is_whitespace_def to_lower_def valid_label_def is_ascii_alphanumeric_def char_between_def less_eq_char_def Let_def)

lemma demo_public: "\<not> is_protected (IpV4 (ipv4_new 1 1 1 1))"
  unfolding is_protected.simps in_v4_def octet_ranges v4_blocks word_eq_max by (simp add: ipv4_new_def)

theorem egress_resolution_sound_witness: "domain_allowed demo_policy ''a.b''"
proof -
  have policy: "egress_policy_new (\<lambda>_. None) [''a.b''] [] = Inr demo_policy"
    by (simp add: egress_policy_new_def demo_policy_def demo_normalized rbind_def)
  have "resolve_allowed (\<lambda>_. Inr [(IpV4 (ipv4_new 1 1 1 1), 30)]) ''a.b'' 7 (resolves demo_policy []) =
      (demo_policy\<lparr>ep_pins := [''a.b'' \<mapsto> \<lparr>pa_addresses = {IpV4 (ipv4_new 1 1 1 1)}, pa_expires_at = 37\<rparr>]\<rparr>, Inr {IpV4 (ipv4_new 1 1 1 1)})"
    using demo_public
    by (simp add: resolve_allowed_def resolves_def demo_normalized domain_allowed_def destination_allowed_def host_of_def strip_wildcard_def demo_policy_def expiry_def duration_max_def)
  from egress_resolution_sound [OF policy this] show ?thesis
    by (auto simp: demo_normalized)
qed

text \<open>
  Mapped addresses are not protected. The IPv6 form \<^verbatim>\<open>::ffff:a.b.c.d\<close> of every IPv4 address, the protected ones included, is an allowed destination under every policy.
\<close>

theorem mapped_addresses_allowed: "destination_allowed ep (IpV6 (0xffff00000000 + ucast (a :: u32)))"
proof -
  define b :: u128 where "b = 0xffff00000000 + ucast a"
  have "unat (ucast a :: u128) = unat a" "unat a < 2 ^ 32"
    using unsigned_less [of a, where 'a = nat] by (simp_all add: unsigned_ucast_eq take_bit_nat_eq_self)
  then have "unat b = 0xffff00000000 + unat a" and small: "unat b < 2 ^ 48" "0 < unat b" "unat b \<noteq> 1"
    by (simp_all add: b_def unat_word_ariths)
  have high: "unat b div 2 ^ k = 0" if "48 \<le> k" for k
    using less_le_trans [OF small(1) power_increasing [OF that, of "2 :: nat"]] by simp
  have "b AND ipv6_mask p = 0" if "0 < p" "p \<le> 80" for p
    using in_v6_range [of p 0 0 b] that high [of "128 - p"] by simp
  then have "\<not> in_v6 b (ipv6_new 0xfc00 0) 7" "\<not> in_v6 b (ipv6_new 0xfe80 0) 10" "\<not> in_v6 b (ipv6_new 0x2001 0xdb8) 32" "\<not> in_v6 b (ipv6_new 0x2001 0x10) 28"
    by (simp_all add: in_v6_def ipv6_new_def)
  moreover have "unat b div 2 ^ 120 \<noteq> 255"
    using high [of 120] by simp
  moreover have "b \<noteq> 0" "b \<noteq> 1"
    using small(2,3) by auto
  ultimately have "\<not> is_protected (IpV6 b)"
    by simp
  then show ?thesis by (simp add: destination_allowed_def b_def)
qed

end
