(* ===== verification/Vpc.thy ===== *)
theory Vpc
  imports Ipv4
begin

unbundle bit_operations_syntax

text \<open>
  Private networks of tenants, \<^verbatim>\<open>vmond/src/engine/vpc.rs\<close>: the registry in memory and its file, and the addresses of sandboxes. The file holds the value that was last written whole; whether a write succeeds is an
  argument of each operation. Random identifiers are drawn from a list; an exhausted list stands for a loop that is still running.
\<close>

section \<open>Networks\<close>

record ipv4_net =
  n_base :: u32
  n_prefix :: nat

definition vpc_network_parse :: "string \<Rightarrow> ipv4_net result" where
  "vpc_network_parse s = (case split_once (CHR ''/'') s of
     None \<Rightarrow> Inl Invalid
   | Some (addr_s, prefix_s) \<Rightarrow> (case ipv4_parse addr_s of
       None \<Rightarrow> Inl Invalid
     | Some raw \<Rightarrow> (case parse_uint 255 prefix_s of
         None \<Rightarrow> Inl Invalid
       | Some prefix \<Rightarrow>
           if prefix < 8 \<or> 30 < prefix then Inl Invalid
           else if raw AND ipv4_mask prefix \<noteq> raw then Inl Invalid
           else Inr \<lparr>n_base = raw, n_prefix = prefix\<rparr>)))"

definition net_last :: "ipv4_net \<Rightarrow> u32" where
  "net_last net = n_base net OR drop_bit (n_prefix net) (- 1)"

definition net_overlaps :: "ipv4_net \<Rightarrow> ipv4_net \<Rightarrow> bool" where
  "net_overlaps x y \<longleftrightarrow> n_base x \<le> net_last y \<and> n_base y \<le> net_last x"

definition sat_add_u32 :: "u32 \<Rightarrow> nat \<Rightarrow> nat" where
  "sat_add_u32 a k = min (unat a + k) (2 ^ 32 - 1)"

definition validate_guest :: "ipv4_net \<Rightarrow> u32 \<Rightarrow> unit result" where
  "validate_guest net raw = (if unat raw \<le> sat_add_u32 (n_base net) 1 \<or> net_last net \<le> raw then Inl Invalid else Inr ())"

definition net_hosts :: "ipv4_net \<Rightarrow> u32 list" where
  "net_hosts net = map word_of_nat [sat_add_u32 (n_base net) 2 ..< unat (net_last net)]"

definition net_to_string :: "ipv4_net \<Rightarrow> string" where
  "net_to_string net = ipv4_to_string (n_base net) @ CHR ''/'' # dec_digits (n_prefix net)"

section \<open>The registry\<close>

record vpc =
  v_id :: string
  v_name :: string
  v_cidr :: string
  v_created_at :: nat

record stored_vpc =
  sv_owner_tenant :: string
  sv_id :: string
  sv_name :: string
  sv_cidr :: string
  sv_created_at :: nat
  sv_allocations :: "(string \<times> string) list"

definition vpc_of :: "stored_vpc \<Rightarrow> vpc" where
  "vpc_of e = \<lparr>v_id = sv_id e, v_name = sv_name e, v_cidr = sv_cidr e, v_created_at = sv_created_at e\<rparr>"

record vpc_registry =
  vr_vpcs :: "stored_vpc list"
  vr_file :: "stored_vpc list"

definition vpc_open :: "stored_vpc list option \<Rightarrow> vpc_registry" where
  "vpc_open file = (case file of Some vpcs \<Rightarrow> \<lparr>vr_vpcs = vpcs, vr_file = vpcs\<rparr> | None \<Rightarrow> \<lparr>vr_vpcs = [], vr_file = []\<rparr>)"

text \<open>The data is changed in memory first; the file follows when the write succeeds.\<close>

definition vpc_persist :: "bool \<Rightarrow> stored_vpc list \<Rightarrow> vpc_registry \<Rightarrow> 'a \<Rightarrow> vpc_registry \<times> 'a result" where
  "vpc_persist io vpcs reg a = (if io then (\<lparr>vr_vpcs = vpcs, vr_file = vpcs\<rparr>, Inr a) else (reg\<lparr>vr_vpcs := vpcs\<rparr>, Inl Engine))"

definition DEFAULT_CIDR :: string where
  "DEFAULT_CIDR = ''10.77.0.0/16''"

fun fresh_id :: "stored_vpc list \<Rightarrow> u32 list \<Rightarrow> string option" where
  "fresh_id vpcs [] = None"
| "fresh_id vpcs (r # rs) =
     (let candidate = ''vpc-'' @ hex_fixed 8 (unat r) in
      if list_all (\<lambda>e. sv_id e \<noteq> candidate) vpcs then Some candidate else fresh_id vpcs rs)"

definition cidr_overlaps :: "ipv4_net \<Rightarrow> stored_vpc \<Rightarrow> bool" where
  "cidr_overlaps network e = (case vpc_network_parse (sv_cidr e) of Inr existing \<Rightarrow> net_overlaps existing network | Inl _ \<Rightarrow> False)"

definition vpc_create :: "bool \<Rightarrow> u32 list \<Rightarrow> nat \<Rightarrow> string \<Rightarrow> string option \<Rightarrow> string option \<Rightarrow> vpc_registry \<Rightarrow> (vpc_registry \<times> vpc result) option" where
  "vpc_create io draws now tenant name cidr reg =
     (case vpc_network_parse (case cidr of Some c \<Rightarrow> if c \<noteq> [] then c else DEFAULT_CIDR | None \<Rightarrow> DEFAULT_CIDR) of
        Inl e \<Rightarrow> Some (reg, Inl e)
      | Inr network \<Rightarrow>
          if list_ex (cidr_overlaps network) (vr_vpcs reg) then Some (reg, Inl Invalid)
          else (case fresh_id (vr_vpcs reg) draws of
              None \<Rightarrow> None
            | Some i \<Rightarrow>
                let stored = \<lparr>sv_owner_tenant = tenant, sv_id = i, sv_name = (case name of Some nm \<Rightarrow> nm | None \<Rightarrow> []), sv_cidr = net_to_string network,
                      sv_created_at = now, sv_allocations = []\<rparr>
                in Some (vpc_persist io (vr_vpcs reg @ [stored]) reg (vpc_of stored))))"

definition owned :: "string \<Rightarrow> string \<Rightarrow> stored_vpc \<Rightarrow> bool" where
  "owned tenant i e \<longleftrightarrow> sv_id e = i \<and> sv_owner_tenant e = tenant"

definition vpc_list :: "string \<Rightarrow> vpc_registry \<Rightarrow> vpc list" where
  "vpc_list tenant reg = map vpc_of (filter (\<lambda>e. sv_owner_tenant e = tenant) (vr_vpcs reg))"

definition vpc_get :: "string \<Rightarrow> string \<Rightarrow> vpc_registry \<Rightarrow> vpc result" where
  "vpc_get tenant i reg = (case find (owned tenant i) (vr_vpcs reg) of Some e \<Rightarrow> Inr (vpc_of e) | None \<Rightarrow> Inl NotFound)"

definition ensure_deletable :: "string \<Rightarrow> string \<Rightarrow> vpc_registry \<Rightarrow> vpc result" where
  "ensure_deletable tenant i reg = (case find (owned tenant i) (vr_vpcs reg) of
     None \<Rightarrow> Inl NotFound
   | Some e \<Rightarrow> if sv_allocations e \<noteq> [] then Inl Busy else Inr (vpc_of e))"

text \<open>The first entry that matches is taken out or replaced.\<close>

fun remove_first :: "('a \<Rightarrow> bool) \<Rightarrow> 'a list \<Rightarrow> 'a list" where
  "remove_first P [] = []"
| "remove_first P (x # xs) = (if P x then xs else x # remove_first P xs)"

fun update_first :: "('a \<Rightarrow> bool) \<Rightarrow> ('a \<Rightarrow> 'a) \<Rightarrow> 'a list \<Rightarrow> 'a list" where
  "update_first P f [] = []"
| "update_first P f (x # xs) = (if P x then f x # xs else x # update_first P f xs)"

definition vpc_delete :: "bool \<Rightarrow> string \<Rightarrow> string \<Rightarrow> vpc_registry \<Rightarrow> vpc_registry \<times> vpc result" where
  "vpc_delete io tenant i reg = (case find (owned tenant i) (vr_vpcs reg) of
     None \<Rightarrow> (reg, Inl NotFound)
   | Some e \<Rightarrow>
       if sv_allocations e \<noteq> [] then (reg, Inl Busy)
       else vpc_persist io (remove_first (owned tenant i) (vr_vpcs reg)) reg (vpc_of e))"

definition taken :: "stored_vpc \<Rightarrow> u32 \<Rightarrow> bool" where
  "taken e address = list_ex (\<lambda>(_, v). v = ipv4_to_string address) (sv_allocations e)"

definition choose_address :: "stored_vpc \<Rightarrow> ipv4_net \<Rightarrow> string option \<Rightarrow> u32 result" where
  "choose_address e network requested = (case requested of
     Some s \<Rightarrow> (case ipv4_parse s of
         None \<Rightarrow> Inl Invalid
       | Some address \<Rightarrow> rbind (validate_guest network address) (\<lambda>_. Inr address))
   | None \<Rightarrow> (case find (\<lambda>candidate. \<not> taken e candidate) (net_hosts network) of Some address \<Rightarrow> Inr address | None \<Rightarrow> Inl Busy))"

definition vpc_allocate :: "bool \<Rightarrow> string \<Rightarrow> string \<Rightarrow> string \<Rightarrow> string option \<Rightarrow> vpc_registry \<Rightarrow> vpc_registry \<times> string result" where
  "vpc_allocate io tenant i sandbox requested reg = (case find (owned tenant i) (vr_vpcs reg) of
     None \<Rightarrow> (reg, Inl NotFound)
   | Some e \<Rightarrow> (case map_of (sv_allocations e) sandbox of
       Some existing \<Rightarrow> (reg, Inr existing)
     | None \<Rightarrow> (case rbind (vpc_network_parse (sv_cidr e)) (\<lambda>network. choose_address e network requested) of
         Inl err \<Rightarrow> (reg, Inl err)
       | Inr address \<Rightarrow>
           if taken e address then (reg, Inl Invalid)
           else vpc_persist io
             (update_first (owned tenant i) (\<lambda>e. e\<lparr>sv_allocations := (sandbox, ipv4_to_string address) # sv_allocations e\<rparr>) (vr_vpcs reg)) reg
             (ipv4_to_string address))))"

definition drop_sandbox :: "string \<Rightarrow> stored_vpc \<Rightarrow> stored_vpc" where
  "drop_sandbox sandbox e = e\<lparr>sv_allocations := filter (\<lambda>(s, _). s \<noteq> sandbox) (sv_allocations e)\<rparr>"

definition release_sandbox :: "bool \<Rightarrow> string \<Rightarrow> vpc_registry \<Rightarrow> vpc_registry \<times> unit result" where
  "release_sandbox io sandbox reg =
     (if list_ex (\<lambda>e. map_of (sv_allocations e) sandbox \<noteq> None) (vr_vpcs reg)
      then vpc_persist io (map (drop_sandbox sandbox) (vr_vpcs reg)) reg ()
      else (reg, Inr ()))"

definition gateway_and_prefix :: "string \<Rightarrow> string \<Rightarrow> vpc_registry \<Rightarrow> (string \<times> nat) result" where
  "gateway_and_prefix tenant i reg =
     rbind (vpc_get tenant i reg) (\<lambda>v. rbind (vpc_network_parse (v_cidr v)) (\<lambda>network.
       Inr (ipv4_to_string (word_of_nat (sat_add_u32 (n_base network) 1)), n_prefix network)))"

section \<open>Runs\<close>

datatype vpc_op =
    VCreate bool "u32 list" nat string "string option" "string option"
  | VDelete bool string string
  | VAllocate bool string string string "string option"
  | VRelease bool string
  | VRestart

fun vpc_step :: "vpc_op \<Rightarrow> vpc_registry \<Rightarrow> vpc_registry" where
  "vpc_step (VCreate io draws now tenant name cidr) reg = (case vpc_create io draws now tenant name cidr reg of Some (reg', _) \<Rightarrow> reg' | None \<Rightarrow> reg)"
| "vpc_step (VDelete io tenant i) reg = fst (vpc_delete io tenant i reg)"
| "vpc_step (VAllocate io tenant i sandbox requested) reg = fst (vpc_allocate io tenant i sandbox requested reg)"
| "vpc_step (VRelease io sandbox) reg = fst (release_sandbox io sandbox reg)"
| "vpc_step VRestart reg = vpc_open (Some (vr_file reg))"

definition vpc_run :: "vpc_op list \<Rightarrow> vpc_registry" where
  "vpc_run ops = foldl (\<lambda>reg op. vpc_step op reg) (vpc_open None) ops"

section \<open>The invariant\<close>

definition usable :: "ipv4_net \<Rightarrow> u32 \<Rightarrow> bool" where
  "usable net a \<longleftrightarrow> unat (n_base net) + 1 < unat a \<and> a < net_last net"

definition good_entry :: "stored_vpc \<Rightarrow> bool" where
  "good_entry e \<longleftrightarrow> (\<exists>net. vpc_network_parse (sv_cidr e) = Inr net \<and> (\<forall>(s, v)\<in>set (sv_allocations e). \<exists>a. v = ipv4_to_string a \<and> usable net a)) \<and>
     distinct (map fst (sv_allocations e)) \<and> distinct (map snd (sv_allocations e))"

definition apart :: "stored_vpc \<Rightarrow> stored_vpc \<Rightarrow> bool" where
  "apart x y \<longleftrightarrow> sv_id x \<noteq> sv_id y \<and>
     (\<forall>m n. vpc_network_parse (sv_cidr x) = Inr m \<longrightarrow> vpc_network_parse (sv_cidr y) = Inr n \<longrightarrow> \<not> net_overlaps m n)"

definition vpcs_ok :: "stored_vpc list \<Rightarrow> bool" where
  "vpcs_ok vpcs \<longleftrightarrow> list_all good_entry vpcs \<and> sorted_wrt apart vpcs"

definition registry_ok :: "vpc_registry \<Rightarrow> bool" where
  "registry_ok reg \<longleftrightarrow> vpcs_ok (vr_vpcs reg) \<and> vpcs_ok (vr_file reg)"

lemma persist_ok: "registry_ok reg \<Longrightarrow> vpcs_ok vpcs \<Longrightarrow> registry_ok (fst (vpc_persist io vpcs reg a))"
  by (simp add: vpc_persist_def registry_ok_def)

lemma network_roundtrip:
  assumes "vpc_network_parse c = Inr network"
  shows "vpc_network_parse (net_to_string network) = Inr network"
proof -
  have "8 \<le> n_prefix network \<and> n_prefix network \<le> 30 \<and> n_base network AND ipv4_mask (n_prefix network) = n_base network"
    using assms by (auto simp: vpc_network_parse_def split: option.splits if_splits)
  then show ?thesis
    by (simp add: vpc_network_parse_def net_to_string_def split_once_append slash_absent ipv4_parse_to_string parse_uint_dec_digits)
qed

lemma fresh_id_new: "fresh_id vpcs draws = Some i \<Longrightarrow> e \<in> set vpcs \<Longrightarrow> sv_id e \<noteq> i"
  by (induction draws) (auto simp: Let_def list_all_iff split: if_splits)

lemma net_overlaps_sym: "net_overlaps x y = net_overlaps y x"
  by (auto simp: net_overlaps_def)

lemma create_ok:
  assumes "vpcs_ok vpcs" "vpc_network_parse c = Inr network" "\<not> list_ex (cidr_overlaps network) vpcs" "fresh_id vpcs draws = Some i"
    and "sv_id new = i" "sv_cidr new = net_to_string network" "sv_allocations new = []"
  shows "vpcs_ok (vpcs @ [new])"
proof -
  have "good_entry new"
    using network_roundtrip [OF assms(2)] assms(6,7) by (simp add: good_entry_def)
  moreover have "apart e new" if "e \<in> set vpcs" for e
    using fresh_id_new [OF assms(4) that] assms(3,5,6) that network_roundtrip [OF assms(2)]
    by (auto simp: apart_def list_ex_iff cidr_overlaps_def)
  ultimately show ?thesis
    using assms(1) by (simp add: vpcs_ok_def sorted_wrt_append)
qed

lemma remove_first_set: "set (remove_first P xs) \<subseteq> set xs"
  by (induction xs) auto

lemma remove_first_ok: "vpcs_ok vpcs \<Longrightarrow> vpcs_ok (remove_first P vpcs)"
  using remove_first_set by (induction vpcs) (auto simp: vpcs_ok_def dest: subsetD [OF remove_first_set])

lemma update_first_ok:
  assumes same: "\<And>x. sv_id (f x) = sv_id x" "\<And>x. sv_cidr (f x) = sv_cidr x"
  shows "vpcs_ok vpcs \<Longrightarrow> find P vpcs = Some e \<Longrightarrow> good_entry (f e) \<Longrightarrow> vpcs_ok (update_first P f vpcs)"
proof (induction vpcs)
  case (Cons x xs)
  have apart_f: "apart y (f z) = apart y z" "apart (f z) y = apart z y" for y z
    by (simp_all add: apart_def same)
  have "\<forall>y\<in>set (update_first P f xs). apart x y" if "\<forall>y\<in>set xs. apart x y"
    using that by (induction xs) (auto simp: apart_f)
  then show ?case
    using Cons by (auto simp: vpcs_ok_def apart_f split: if_splits)
qed (simp add: vpcs_ok_def)

lemma drop_sandbox_ok: "vpcs_ok vpcs \<Longrightarrow> vpcs_ok (map (drop_sandbox sandbox) vpcs)"
proof (induction vpcs)
  case (Cons x xs)
  have good: "good_entry (drop_sandbox sandbox e)" if "good_entry e" for e
    using that by (auto simp: good_entry_def drop_sandbox_def distinct_map_filter)
  have "apart (drop_sandbox sandbox y) (drop_sandbox sandbox z) = apart y z" for y z
    by (simp add: apart_def drop_sandbox_def)
  then show ?case
    using Cons good by (auto simp: vpcs_ok_def)
qed (simp add: vpcs_ok_def)

lemma net_last_bound: "unat (net_last net) \<le> 2 ^ 32 - 1"
  using unsigned_less [of "net_last net", where 'a = nat] by simp

lemma validate_guest_usable: "validate_guest net a = Inr () \<Longrightarrow> usable net a"
  using net_last_bound [of net]
  by (auto simp: validate_guest_def usable_def sat_add_u32_def not_le word_less_nat_alt split: if_splits)

lemma net_hosts_usable:
  assumes "a \<in> set (net_hosts net)"
  shows "usable net a"
proof -
  obtain n where n: "a = word_of_nat n" "sat_add_u32 (n_base net) 2 \<le> n" "n < unat (net_last net)"
    using assms by (auto simp: net_hosts_def)
  then have "unat a = n"
    using net_last_bound [of net] by (simp add: unat_of_nat)
  then show ?thesis
    using n net_last_bound [of net] by (auto simp: usable_def sat_add_u32_def word_less_nat_alt)
qed

lemma choose_address_usable: "choose_address e net requested = Inr a \<Longrightarrow> usable net a"
  by (auto simp: choose_address_def rbind_def find_Some_iff intro: validate_guest_usable net_hosts_usable split: option.splits sum.splits)

lemma allocate_good:
  assumes "good_entry e" "map_of (sv_allocations e) sandbox = None" "vpc_network_parse (sv_cidr e) = Inr net" "usable net a" "\<not> taken e a"
  shows "good_entry (e\<lparr>sv_allocations := (sandbox, ipv4_to_string a) # sv_allocations e\<rparr>)"
  using assms by (auto simp: good_entry_def taken_def list_ex_iff map_of_eq_None_iff)

lemma vpc_allocate_ok:
  assumes "registry_ok reg"
  shows "registry_ok (fst (vpc_allocate io tenant i sandbox requested reg))"
proof (cases "find (owned tenant i) (vr_vpcs reg)")
  case (Some e)
  let ?f = "\<lambda>a e. e\<lparr>sv_allocations := (sandbox, ipv4_to_string a) # sv_allocations e\<rparr>"
  have good: "good_entry e"
    using assms Some by (auto simp: registry_ok_def vpcs_ok_def list_all_iff find_Some_iff)
  have "vpcs_ok (update_first (owned tenant i) (?f a) (vr_vpcs reg))"
    if absent: "map_of (sv_allocations e) sandbox = None" and chosen: "rbind (vpc_network_parse (sv_cidr e)) (\<lambda>network. choose_address e network requested) = Inr a"
      and free: "\<not> taken e a" for a
  proof (rule update_first_ok [OF _ _ _ Some])
    obtain net where "vpc_network_parse (sv_cidr e) = Inr net" "usable net a"
      using chosen by (auto simp: rbind_def intro: choose_address_usable split: sum.splits)
    then show "good_entry (?f a e)"
      using allocate_good [OF good absent _ _ free] by blast
    show "vpcs_ok (vr_vpcs reg)"
      using assms by (simp add: registry_ok_def)
  qed simp_all
  then show ?thesis
    using assms Some by (auto simp: vpc_allocate_def intro: persist_ok split: option.split sum.split)
qed (use assms in \<open>simp add: vpc_allocate_def\<close>)

lemma vpc_create_ok:
  assumes ok: "registry_ok reg" and create: "vpc_create io draws now tenant name cidr reg = Some (reg', r)"
  shows "registry_ok reg'"
proof -
  define c where "c = (case cidr of Some c \<Rightarrow> if c \<noteq> [] then c else DEFAULT_CIDR | None \<Rightarrow> DEFAULT_CIDR)"
  have unfolded: "vpc_create io draws now tenant name cidr reg = (case vpc_network_parse c of Inl e \<Rightarrow> Some (reg, Inl e) | Inr network \<Rightarrow>
      if list_ex (cidr_overlaps network) (vr_vpcs reg) then Some (reg, Inl Invalid)
      else map_option (\<lambda>i. let stored = \<lparr>sv_owner_tenant = tenant, sv_id = i, sv_name = (case name of Some nm \<Rightarrow> nm | None \<Rightarrow> []), sv_cidr = net_to_string network,
          sv_created_at = now, sv_allocations = []\<rparr> in vpc_persist io (vr_vpcs reg @ [stored]) reg (vpc_of stored)) (fresh_id (vr_vpcs reg) draws))"
    unfolding vpc_create_def c_def [symmetric] Let_def by (simp split: sum.split option.split)
  show ?thesis
  proof (cases "vpc_network_parse c")
    case (Inl e)
    then show ?thesis using create ok unfolded by simp
  next
    case network: (Inr network)
    show ?thesis
    proof (cases "list_ex (cidr_overlaps network) (vr_vpcs reg)")
      case True
      then show ?thesis using create ok unfolded network by simp
    next
      case False
      then obtain i where fresh: "fresh_id (vr_vpcs reg) draws = Some i"
        using create unfolded network by (cases "fresh_id (vr_vpcs reg) draws") auto
      define stored where "stored = \<lparr>sv_owner_tenant = tenant, sv_id = i, sv_name = (case name of Some nm \<Rightarrow> nm | None \<Rightarrow> []), sv_cidr = net_to_string network,
          sv_created_at = now, sv_allocations = []\<rparr>"
      have i: "fresh_id (vr_vpcs reg) draws = Some i" "sv_id stored = i" "sv_cidr stored = net_to_string network" "sv_allocations stored = []"
          "vpc_persist io (vr_vpcs reg @ [stored]) reg (vpc_of stored) = (reg', r)"
        using create unfolded network False fresh by (simp_all add: Let_def stored_def)
      have "vpcs_ok (vr_vpcs reg @ [stored])"
        using ok create_ok [OF _ network False i(1-4)] by (simp add: registry_ok_def)
      then show ?thesis
        using persist_ok [OF ok, of "vr_vpcs reg @ [stored]" io "vpc_of stored"] i(5) by simp
    qed
  qed
qed

lemma vpc_step_ok:
  assumes "registry_ok reg"
  shows "registry_ok (vpc_step op reg)"
proof (cases op)
  case (VCreate io draws now tenant name cidr)
  then show ?thesis
    using assms by (auto intro: vpc_create_ok split: option.split)
next
  case (VDelete io tenant i)
  then show ?thesis
    using assms by (auto simp: vpc_delete_def registry_ok_def intro!: persist_ok [unfolded registry_ok_def] remove_first_ok split: option.splits)
next
  case (VAllocate io tenant i sandbox requested)
  then show ?thesis using assms by (simp add: vpc_allocate_ok)
next
  case (VRelease io sandbox)
  then show ?thesis
    using assms by (auto simp: release_sandbox_def registry_ok_def intro!: persist_ok [unfolded registry_ok_def] drop_sandbox_ok)
next
  case VRestart
  then show ?thesis using assms by (simp add: vpc_open_def registry_ok_def)
qed

lemma vpc_run_ok: "registry_ok (vpc_run ops)"
proof (induction ops rule: rev_induct)
  case Nil
  show ?case by (simp add: vpc_run_def vpc_open_def registry_ok_def vpcs_ok_def)
next
  case (snoc op ops)
  then show ?case using vpc_step_ok by (simp add: vpc_run_def)
qed

section \<open>Properties\<close>

lemma ipv4_to_string_inject: "ipv4_to_string a = ipv4_to_string b \<longleftrightarrow> a = b"
  by (metis ipv4_parse_to_string option.inject)

lemma apart_members: "sorted_wrt apart vpcs \<Longrightarrow> x \<in> set vpcs \<Longrightarrow> y \<in> set vpcs \<Longrightarrow> x = y \<or> apart x y \<or> apart y x"
  by (induction vpcs) auto

lemma usable_overlap: "usable m a \<Longrightarrow> usable n a \<Longrightarrow> net_overlaps m n"
  by (auto simp: usable_def net_overlaps_def word_le_nat_alt word_less_nat_alt)

lemma good_entryD:
  assumes "good_entry e" "(s, v) \<in> set (sv_allocations e)"
  obtains net a where "vpc_network_parse (sv_cidr e) = Inr net" "v = ipv4_to_string a" "usable net a"
  using assms unfolding good_entry_def by fastforce

text \<open>
  C29: Addresses in private networks. After any sequence of creations, deletions, allocations, releases and restarts, with any of the writes failing, every address handed out lies strictly between the gateway and
  the broadcast address of its network, no two networks overlap, and no address is held twice, neither by two sandboxes of one network nor across networks and tenants.
\<close>

theorem vpc_addresses_unique:
  assumes "x \<in> set (vr_vpcs (vpc_run ops))" "y \<in> set (vr_vpcs (vpc_run ops))" "(s, v) \<in> set (sv_allocations x)" "(t, v) \<in> set (sv_allocations y)"
  shows "x = y \<and> s = t \<and> (\<exists>net a. vpc_network_parse (sv_cidr x) = Inr net \<and> v = ipv4_to_string a \<and> usable net a)"
proof -
  have ok: "vpcs_ok (vr_vpcs (vpc_run ops))"
    using vpc_run_ok [of ops] by (simp add: registry_ok_def)
  have gx: "good_entry x" and gy: "good_entry y"
    using ok assms(1,2) by (auto simp: vpcs_ok_def list_all_iff)
  obtain m a where m: "vpc_network_parse (sv_cidr x) = Inr m" "v = ipv4_to_string a" "usable m a"
    using gx assms(3) by (rule good_entryD)
  obtain n b where n: "vpc_network_parse (sv_cidr y) = Inr n" "v = ipv4_to_string b" "usable n b"
    using gy assms(4) by (rule good_entryD)
  have "net_overlaps m n" "net_overlaps n m"
    using m n by (auto simp: ipv4_to_string_inject intro: usable_overlap)
  moreover have "x = y \<or> apart x y \<or> apart y x"
    using apart_members ok assms(1,2) unfolding vpcs_ok_def by blast
  ultimately have same: "x = y"
    using m(1) n(1) by (auto simp: apart_def)
  have inj: "inj_on snd (set (sv_allocations y))"
    using gy by (simp add: good_entry_def distinct_map)
  have "(s, v) = (t, v)"
    by (rule inj_onD [OF inj]) (use assms(3,4) same in simp_all)
  then show ?thesis
    using same m by blast
qed

definition demo_entry :: stored_vpc where
  "demo_entry = \<lparr>sv_owner_tenant = ''t'', sv_id = ''vpc-00000005'', sv_name = [], sv_cidr = net_to_string \<lparr>n_base = 173670400, n_prefix = 29\<rparr>, sv_created_at = 0, sv_allocations = []\<rparr>"

definition demo_ops :: "vpc_op list" where
  "demo_ops = [VCreate True [5] 0 ''t'' None (Some ''10.90.0.0/29''), VAllocate True ''t'' ''vpc-00000005'' ''one'' (Some ''10.90.0.5'')]"

lemma demo_network: "vpc_network_parse ''10.90.0.0/29'' = Inr \<lparr>n_base = 173670400, n_prefix = 29\<rparr>"
proof -
  have "split_once (CHR ''/'') ''10.90.0.0/29'' = Some (''10.90.0.0'', ''29'')"
    by (simp add: split_once_def)
  moreover have "ipv4_parse ''10.90.0.0'' = Some 173670400"
    by (simp add: ipv4_parse_def parse_octet_def digits_val_def is_digit_def less_eq_char_def)
  moreover have "parse_uint 255 ''29'' = Some 29"
    by (simp add: parse_uint_def digits_val_def is_digit_def less_eq_char_def)
  ultimately show ?thesis
    by (simp add: vpc_network_parse_def ipv4_mask_def mask_eq_exp_minus_1)
qed

lemma demo_guest: "ipv4_parse ''10.90.0.5'' = Some 173670405"
  by (simp add: ipv4_parse_def parse_octet_def digits_val_def is_digit_def less_eq_char_def)

lemma demo_valid: "validate_guest \<lparr>n_base = 173670400, n_prefix = 29\<rparr> 173670405 = Inr ()"
  by (simp add: validate_guest_def sat_add_u32_def net_last_def mask_eq_exp_minus_1)

lemma demo_run: "vr_vpcs (vpc_run demo_ops) = [demo_entry\<lparr>sv_allocations := [(''one'', ipv4_to_string 173670405)]\<rparr>]"
proof -
  have "hex_fixed 8 5 = ''00000005''"
    by code_simp
  then have "fresh_id [] [5] = Some ''vpc-00000005''"
    by simp
  then have "vpc_step (VCreate True [5] 0 ''t'' None (Some ''10.90.0.0/29'')) (vpc_open None) = \<lparr>vr_vpcs = [demo_entry], vr_file = [demo_entry]\<rparr>"
    by (simp add: vpc_create_def demo_network vpc_open_def vpc_persist_def demo_entry_def Let_def)
  then show ?thesis
    by (simp add: demo_ops_def vpc_run_def vpc_allocate_def owned_def demo_entry_def choose_address_def demo_guest demo_valid network_roundtrip [OF demo_network] rbind_def taken_def vpc_persist_def)
qed

theorem vpc_addresses_unique_witness:
  "\<exists>net a. vpc_network_parse (sv_cidr demo_entry) = Inr net \<and> ipv4_to_string 173670405 = ipv4_to_string a \<and> usable net a"
  using vpc_addresses_unique [of "demo_entry\<lparr>sv_allocations := [(''one'', ipv4_to_string 173670405)]\<rparr>" demo_ops "demo_entry\<lparr>sv_allocations := [(''one'', ipv4_to_string 173670405)]\<rparr>" "''one''" _ "''one''"]
  by (simp add: demo_run)

text \<open>
  C30: The registry and its file stay well formed. After any sequence of operations with any writes failing, each entry in memory and in the file has a \<^verbatim>\<open>cidr\<close> that parses, sandboxes with one address each, and
  no two entries of either share an identifier or have networks that overlap.
\<close>

theorem vpc_registry_well_formed:
  assumes "vpcs \<in> {vr_vpcs (vpc_run ops), vr_file (vpc_run ops)}" "j < length vpcs"
  shows "(\<exists>net. vpc_network_parse (sv_cidr (vpcs ! j)) = Inr net) \<and> distinct (map fst (sv_allocations (vpcs ! j))) \<and>
     (\<forall>i<j. sv_id (vpcs ! i) \<noteq> sv_id (vpcs ! j) \<and>
        (\<forall>m n. vpc_network_parse (sv_cidr (vpcs ! i)) = Inr m \<and> vpc_network_parse (sv_cidr (vpcs ! j)) = Inr n \<longrightarrow> net_last m < n_base n \<or> net_last n < n_base m))"
proof -
  have ok: "vpcs_ok vpcs"
    using vpc_run_ok [of ops] assms(1) by (auto simp: registry_ok_def)
  have "apart (vpcs ! i) (vpcs ! j)" if "i < j" for i
    using ok that assms(2) by (simp add: vpcs_ok_def sorted_wrt_iff_nth_less)
  moreover have "good_entry (vpcs ! j)"
    using ok assms(2) by (simp add: vpcs_ok_def list_all_length)
  ultimately show ?thesis
    by (auto simp: good_entry_def apart_def net_overlaps_def not_le)
qed

theorem vpc_registry_well_formed_witness:
  "\<exists>net. vpc_network_parse (sv_cidr (vr_vpcs (vpc_run demo_ops) ! 0)) = Inr net"
  using vpc_registry_well_formed [of "vr_vpcs (vpc_run demo_ops)" demo_ops 0] by (simp add: demo_run)

fun actor :: "vpc_op \<Rightarrow> string option" where
  "actor (VCreate io draws now tenant name cidr) = Some tenant"
| "actor (VDelete io tenant i) = Some tenant"
| "actor (VAllocate io tenant i sandbox requested) = Some tenant"
| "actor (VRelease io sandbox) = None"
| "actor VRestart = None"

lemma filter_remove_first: "(\<And>x. P x \<Longrightarrow> \<not> Q x) \<Longrightarrow> filter Q (remove_first P xs) = filter Q xs"
  by (induction xs) auto

lemma filter_update_first: "(\<And>x. P x \<Longrightarrow> \<not> Q x) \<Longrightarrow> (\<And>x. P x \<Longrightarrow> \<not> Q (f x)) \<Longrightarrow> filter Q (update_first P f xs) = filter Q xs"
  by (induction xs) auto

lemma persist_vpcs: "vr_vpcs (fst (vpc_persist io vpcs reg a)) = vpcs"
  by (simp add: vpc_persist_def)

lemma persist_case: "vpc_persist io vpcs reg a = (reg', r) \<Longrightarrow> vr_vpcs reg' = vpcs"
  using persist_vpcs [of io vpcs reg a] by simp

text \<open>
  C31: Tenants do not reach each other's networks. An operation made for one tenant leaves the networks and addresses of every other tenant as they are, whatever identifier it names.
\<close>

theorem vpc_tenant_isolation:
  assumes "actor op = Some t" "t' \<noteq> t"
  shows "filter (\<lambda>e. sv_owner_tenant e = t') (vr_vpcs (vpc_step op reg)) = filter (\<lambda>e. sv_owner_tenant e = t') (vr_vpcs reg)"
proof (cases op)
  case (VCreate io draws now tenant name cidr)
  then show ?thesis
    using assms by (auto simp: vpc_create_def Let_def dest!: persist_case split: sum.splits option.splits)
next
  case (VDelete io tenant i)
  then show ?thesis
    using assms by (auto simp: vpc_delete_def persist_vpcs owned_def intro!: filter_remove_first split: option.splits)
next
  case (VAllocate io tenant i sandbox requested)
  then show ?thesis
    using assms by (auto simp: vpc_allocate_def persist_vpcs owned_def intro!: filter_update_first split: option.splits sum.splits)
qed (use assms in simp_all)

theorem vpc_tenant_isolation_witness:
  "filter (\<lambda>e. sv_owner_tenant e = ''t'') (vr_vpcs (vpc_step (VDelete True ''u'' ''vpc-00000005'') (vpc_run demo_ops)))
     = filter (\<lambda>e. sv_owner_tenant e = ''t'') (vr_vpcs (vpc_run demo_ops))"
  by (rule vpc_tenant_isolation [where t = "''u''"]) simp_all

lemma find_update_first: "find P xs = Some x \<Longrightarrow> P (f x) \<Longrightarrow> find P (update_first P f xs) = Some (f x)"
  by (induction xs) (auto split: if_splits)

lemma choose_not_engine: "rbind (vpc_network_parse c) (\<lambda>network. choose_address e network requested) \<noteq> Inl Engine"
  by (auto simp: rbind_def vpc_network_parse_def choose_address_def validate_guest_def split: option.split sum.split)

text \<open>
  An address that was never written. When the write of an allocation fails, the caller gets an error and the file does not change, but the address stays in memory: every later allocation for that sandbox reports success with it
  and writes nothing, so that a restart forgets an address in use.
\<close>

theorem vpc_unwritten_allocation:
  assumes "vpc_allocate io tenant i sandbox requested reg = (reg', Inl Engine)"
  shows "\<exists>v. vpc_allocate io' tenant i sandbox requested' reg' = (reg', Inr v) \<and> vr_file reg' = vr_file reg"
proof -
  obtain e where e: "find (owned tenant i) (vr_vpcs reg) = Some e"
    using assms by (auto simp: vpc_allocate_def split: option.splits)
  have absent: "map_of (sv_allocations e) sandbox = None"
    using assms e by (auto simp: vpc_allocate_def split: option.splits)
  obtain a where a: "rbind (vpc_network_parse (sv_cidr e)) (\<lambda>network. choose_address e network requested) = Inr a" "\<not> taken e a"
    using assms e absent choose_not_engine [of "sv_cidr e" e requested] by (auto simp: vpc_allocate_def split: sum.splits if_splits)
  let ?f = "\<lambda>e. e\<lparr>sv_allocations := (sandbox, ipv4_to_string a) # sv_allocations e\<rparr>"
  have reg': "reg' = reg\<lparr>vr_vpcs := update_first (owned tenant i) ?f (vr_vpcs reg)\<rparr>"
    using assms e absent a by (auto simp: vpc_allocate_def vpc_persist_def split: if_splits)
  have "owned tenant i (?f e)"
    using e by (auto simp: find_Some_iff owned_def)
  then have "find (owned tenant i) (vr_vpcs reg') = Some (?f e)"
    using find_update_first [OF e] by (simp add: reg')
  then show ?thesis
    by (simp add: vpc_allocate_def reg')
qed

theorem vpc_unwritten_allocation_witness:
  "\<exists>v. vpc_allocate True ''t'' ''vpc-00000005'' ''two'' None (vpc_step (VAllocate False ''t'' ''vpc-00000005'' ''two'' (Some ''10.90.0.5'')) \<lparr>vr_vpcs = [demo_entry], vr_file = [demo_entry]\<rparr>)
     = (vpc_step (VAllocate False ''t'' ''vpc-00000005'' ''two'' (Some ''10.90.0.5'')) \<lparr>vr_vpcs = [demo_entry], vr_file = [demo_entry]\<rparr>, Inr v) \<and>
     vr_file (vpc_step (VAllocate False ''t'' ''vpc-00000005'' ''two'' (Some ''10.90.0.5'')) \<lparr>vr_vpcs = [demo_entry], vr_file = [demo_entry]\<rparr>) = vr_file \<lparr>vr_vpcs = [demo_entry], vr_file = [demo_entry]\<rparr>"
  by (rule vpc_unwritten_allocation [where io = False and requested = "Some ''10.90.0.5''"])
    (simp add: vpc_allocate_def owned_def demo_entry_def choose_address_def demo_guest demo_valid network_roundtrip [OF demo_network] rbind_def taken_def vpc_persist_def)

end
