(* ===== verification/RunnerProtocol.thy ===== *)
theory RunnerProtocol
  imports Json RustText
begin

text \<open>
  The daemon's session with the Python runner of a sandbox, \<^verbatim>\<open>vmond/src/function/protocol.rs\<close>: newline-delimited JSON frames in both directions, requests that wait for a terminal frame of their own, a bounded
  queue of events for each, and the threads that read the runner's output and watch for its exit. Parsing and printing of JSON text (\<^verbatim>\<open>serde_json\<close>) are arguments, as are the results of writes to the runner. The receiving ends of a request's
  two channels are held by its caller; both are kept here as a \<open>request_channel\<close>, named by its position in the list of all requests ever inserted. The closed check of a request and the rest of it are two steps, since no
  lock spans them; the rest, which inserts the pending entry, writes the frame and takes the entry back when that fails, is one step, although the source releases the lock of the pending table in between.
\<close>

section \<open>Frames\<close>

definition PROTOCOL_VERSION :: nat where
  "PROTOCOL_VERSION = 2"

definition ENVELOPE_VERSION :: nat where
  "ENVELOPE_VERSION = 1"

definition MAX_FRAME_BYTES :: nat where
  "MAX_FRAME_BYTES = 1024 * 1024"

definition NEWLINE :: u8 where
  "NEWLINE = 10"

record protocol_requirements =
  pr_formats :: "string list"
  pr_compressions :: "string list"

definition requirements_baseline :: protocol_requirements where
  "requirements_baseline = \<lparr>pr_formats = [''json''], pr_compressions = [''none'', ''gzip'']\<rparr>"

definition require_format :: "string \<Rightarrow> protocol_requirements \<Rightarrow> protocol_requirements" where
  "require_format f reqs = (if f \<in> set (pr_formats reqs) then reqs else reqs\<lparr>pr_formats := pr_formats reqs @ [f]\<rparr>)"

definition require_compression :: "string \<Rightarrow> protocol_requirements \<Rightarrow> protocol_requirements" where
  "require_compression c reqs = (if c \<in> set (pr_compressions reqs) then reqs else reqs\<lparr>pr_compressions := pr_compressions reqs @ [c]\<rparr>)"

definition frame_event :: "json \<Rightarrow> string option" where
  "frame_event v = Option.bind (case json_get v ''event'' of Some x \<Rightarrow> Some x | None \<Rightarrow> json_get v ''type'') as_str"

definition frame_request_id :: "json \<Rightarrow> string option" where
  "frame_request_id v = Option.bind (json_get v ''request_id'') as_str"

definition is_terminal :: "json \<Rightarrow> bool" where
  "is_terminal v = (case frame_event v of
     Some e \<Rightarrow> e \<in> {''result'', ''batch_result'', ''error'', ''cancelled'', ''status''}
   | None \<Rightarrow> False)"

definition frame_protocol :: "json \<Rightarrow> nat option" where
  "frame_protocol v = Option.bind (json_get v ''protocol'') as_u64"

datatype protocol_error =
    Timeout
  | Version "nat option"
  | EnvelopeVersion "nat option"
  | InvalidCapabilities string
  | MissingCapability string string
  | InvalidFrame string
  | Backpressure string
  | Disconnected string

definition option_debug :: "nat option \<Rightarrow> string" where
  "option_debug v = (case v of None \<Rightarrow> ''None'' | Some n \<Rightarrow> ''Some('' @ dec_digits n @ '')'')"

fun protocol_error_display :: "protocol_error \<Rightarrow> string" where
  "protocol_error_display Timeout = ''runner protocol deadline exceeded''"
| "protocol_error_display (Version received) = ''runner protocol version mismatch: expected 2, received '' @ option_debug received"
| "protocol_error_display (EnvelopeVersion received) = ''runner envelope version mismatch: expected 1, received '' @ option_debug received"
| "protocol_error_display (InvalidCapabilities field) = ''runner hello '' @ field @ '' must be an array of strings''"
| "protocol_error_display (MissingCapability field c) = ''runner does not support required '' @ field @ '' '' @ c"
| "protocol_error_display (InvalidFrame msg) = msg"
| "protocol_error_display (Backpressure msg) = msg"
| "protocol_error_display (Disconnected msg) = msg"

section \<open>The session\<close>

record request_channel =
  ch_id :: string
  ch_events :: "json list"
  ch_listening :: bool
  ch_returned :: bool
  ch_done :: "(protocol_error + json) option"

text \<open>What a caller that waits gets: the completion, or the deadline; an abandoned sender (\<open>dropped\<close>) ends the wait early.\<close>

definition request_complete :: "bool \<Rightarrow> request_channel \<Rightarrow> protocol_error + json" where
  "request_complete dropped ch = (case ch_done ch of
     Some r \<Rightarrow> r
   | None \<Rightarrow> if dropped then Inl (Disconnected ''runner completion channel closed'') else Inl Timeout)"

datatype control_call = WriteStdin bytes | CloseStdin | KillProcess int

record runner_session =
  pn_pending :: "(string \<times> nat) list"
  pn_channels :: "request_channel list"
  pn_hello_waiting :: bool
  pn_hello :: "(protocol_error + json) option"
  pn_closed :: bool
  pn_event_capacity :: nat
  pn_control :: "control_call list"

definition session_new :: "nat \<Rightarrow> runner_session" where
  "session_new capacity = \<lparr>pn_pending = [], pn_channels = [], pn_hello_waiting = True, pn_hello = None, pn_closed = False, pn_event_capacity = max capacity 1, pn_control = []\<rparr>"

definition take_hello :: "protocol_error + json \<Rightarrow> runner_session \<Rightarrow> runner_session" where
  "take_hello r s = (if pn_hello_waiting s then s\<lparr>pn_hello_waiting := False, pn_hello := Some r\<rparr> else s)"

definition send_terminal :: "protocol_error + json \<Rightarrow> nat \<Rightarrow> request_channel list \<Rightarrow> request_channel list" where
  "send_terminal r a chs = chs[a := (chs ! a)\<lparr>ch_done := Some r\<rparr>]"

definition remove_pending :: "string \<Rightarrow> runner_session \<Rightarrow> runner_session" where
  "remove_pending i s = s\<lparr>pn_pending := filter (\<lambda>(j, _). j \<noteq> i) (pn_pending s)\<rparr>"

definition fail_all :: "protocol_error \<Rightarrow> runner_session \<Rightarrow> runner_session" where
  "fail_all e s =
     (if pn_closed s then s
      else let s' = take_hello (Inl e) (s\<lparr>pn_closed := True\<rparr>)
           in s'\<lparr>pn_channels := fold (\<lambda>(_, a). send_terminal (Inl e) a) (pn_pending s') (pn_channels s'), pn_pending := []\<rparr>)"

definition runner_dispatch :: "(bytes \<Rightarrow> string + json) \<Rightarrow> bytes \<Rightarrow> runner_session \<Rightarrow> runner_session \<times> (protocol_error + unit)" where
  "runner_dispatch parse bs s =
     (if bs = [] then (s, Inr ())
      else case parse bs of
          Inl msg \<Rightarrow> (s, Inl (InvalidFrame msg))
        | Inr v \<Rightarrow>
            if frame_protocol v \<noteq> Some PROTOCOL_VERSION then (s, Inl (Version (frame_protocol v)))
            else if frame_event v = Some ''hello'' then (take_hello (Inr v) s, Inr ())
            else (case frame_request_id v of
                None \<Rightarrow> (s, Inr ())
              | Some i \<Rightarrow> (case map_of (pn_pending s) i of
                  None \<Rightarrow> (s, Inr ())
                | Some a \<Rightarrow>
                    if is_terminal v then ((remove_pending i s)\<lparr>pn_channels := send_terminal (Inr v) a (pn_channels s)\<rparr>, Inr ())
                    else let ch = pn_channels s ! a in
                      if \<not> ch_listening ch \<or> pn_event_capacity s \<le> length (ch_events ch)
                      then (s, Inl (Backpressure (''event buffer full for request '' @ i)))
                      else (s\<lparr>pn_channels := (pn_channels s)[a := ch\<lparr>ch_events := ch_events ch @ [v]\<rparr>]\<rparr>, Inr ()))))"

text \<open>The reader thread: the session, the bytes not yet consumed, and whether the thread still runs.\<close>

definition next_line :: "bytes \<Rightarrow> (bytes \<times> bytes) option" where
  "next_line buf = (if NEWLINE \<in> set buf then Some (takeWhile (\<lambda>b. b \<noteq> NEWLINE) buf, tl (dropWhile (\<lambda>b. b \<noteq> NEWLINE) buf)) else None)"

lemma next_line_shorter:
  assumes "next_line buf = Some (l, rest)"
  shows "length rest < length buf"
proof -
  have "0 < length buf" "length rest = length (dropWhile (\<lambda>b. b \<noteq> NEWLINE) buf) - 1"
    using assms by (auto simp: next_line_def split: if_splits)
  then show ?thesis
    using length_dropWhile_le [of "\<lambda>b. b \<noteq> NEWLINE" buf] by linarith
qed

function drain_lines :: "(bytes \<Rightarrow> string + json) \<Rightarrow> runner_session \<Rightarrow> bytes \<Rightarrow> runner_session \<times> bytes \<times> bool" where
  "drain_lines parse s buf = (case next_line buf of
     None \<Rightarrow> (s, buf, True)
   | Some (l, rest) \<Rightarrow> (case runner_dispatch parse l s of
       (s', Inl e) \<Rightarrow> (fail_all e s', rest, False)
     | (s', Inr _) \<Rightarrow> drain_lines parse s' rest))"
  by pat_completeness auto
termination
  by (relation "measure (\<lambda>(_, _, buf). length buf)") (auto dest: next_line_shorter)

declare drain_lines.simps [simp del]

definition read_chunk :: "(bytes \<Rightarrow> string + json) \<Rightarrow> bytes \<Rightarrow> runner_session \<times> bytes \<times> bool \<Rightarrow> runner_session \<times> bytes \<times> bool" where
  "read_chunk parse chunk = (\<lambda>(s, buf, running).
     if \<not> running then (s, buf, running)
     else let buf' = buf @ chunk in
       if MAX_FRAME_BYTES < length buf' \<and> NEWLINE \<notin> set buf' then (fail_all (InvalidFrame ''runner frame exceeds one MiB'') s, buf', False)
       else drain_lines parse s buf')"

section \<open>Requests\<close>

definition request_admit :: "json \<Rightarrow> runner_session \<Rightarrow> protocol_error + string" where
  "request_admit frame s =
     (if pn_closed s then Inl (Disconnected ''runner session is closed'')
      else case frame_request_id frame of None \<Rightarrow> Inl (InvalidFrame ''request_id is required'') | Some i \<Rightarrow> Inr i)"

definition set_protocol :: "json \<Rightarrow> json" where
  "set_protocol v = (case v of JObject m \<Rightarrow> JObject (m(''protocol'' \<mapsto> JNumber (PosInt PROTOCOL_VERSION))) | _ \<Rightarrow> v)"

definition write_stdin :: "string option \<Rightarrow> bytes \<Rightarrow> runner_session \<Rightarrow> runner_session \<times> (protocol_error + unit)" where
  "write_stdin io bs s = (s\<lparr>pn_control := pn_control s @ [WriteStdin bs]\<rparr>, case io of None \<Rightarrow> Inr () | Some msg \<Rightarrow> Inl (Disconnected msg))"

text \<open>A request that was inserted becomes its caller's when the call returns it; otherwise both receivers are dropped.\<close>

definition request_submit :: "(json \<Rightarrow> bytes) \<Rightarrow> string option \<Rightarrow> string \<Rightarrow> json \<Rightarrow> runner_session \<Rightarrow> runner_session \<times> (protocol_error + nat)" where
  "request_submit encode io i frame s =
     (if map_of (pn_pending s) i \<noteq> None then (s, Inl (InvalidFrame (''duplicate request_id '' @ i)))
      else let a = length (pn_channels s);
               insert_as = (\<lambda>returned. s\<lparr>pn_pending := (i, a) # pn_pending s,
                 pn_channels := pn_channels s @ [\<lparr>ch_id = i, ch_events = [], ch_listening = returned, ch_returned = returned, ch_done = None\<rparr>]\<rparr>);
               encoded = encode (set_protocol frame) in
        if MAX_FRAME_BYTES < length encoded then (remove_pending i (insert_as False), Inl (InvalidFrame ''request frame exceeds one MiB''))
        else case io of
            Some msg \<Rightarrow> (remove_pending i (fst (write_stdin io (encoded @ [NEWLINE]) (insert_as False))), Inl (Disconnected msg))
          | None \<Rightarrow> (fst (write_stdin io (encoded @ [NEWLINE]) (insert_as True)), Inr a))"

definition runner_request :: "(json \<Rightarrow> bytes) \<Rightarrow> string option \<Rightarrow> json \<Rightarrow> runner_session \<Rightarrow> runner_session \<times> (protocol_error + nat)" where
  "runner_request encode io frame s = (case request_admit frame s of Inl e \<Rightarrow> (s, Inl e) | Inr i \<Rightarrow> request_submit encode io i frame s)"

definition runner_cancel :: "(json \<Rightarrow> bytes) \<Rightarrow> string option \<Rightarrow> string \<Rightarrow> runner_session \<Rightarrow> runner_session \<times> (protocol_error + unit)" where
  "runner_cancel encode io i s =
     write_stdin io (encode (JObject [''protocol'' \<mapsto> JNumber (PosInt PROTOCOL_VERSION), ''type'' \<mapsto> JString ''cancel'', ''request_id'' \<mapsto> JString (''cancel:'' @ i), ''target_request_id'' \<mapsto> JString i]) @ [NEWLINE]) s"

definition quoted :: "string \<Rightarrow> string" where
  "quoted s = [CHR 0x22] @ s @ [CHR 0x22]"

definition SHUTDOWN_FRAME :: bytes where
  "SHUTDOWN_FRAME = map of_char (''{'' @ quoted ''protocol'' @ '':2,'' @ quoted ''type'' @ '':'' @ quoted ''shutdown'' @ '','' @ quoted ''request_id'' @ '':'' @ quoted ''shutdown'' @ ''}'') @ [NEWLINE]"

definition runner_shutdown :: "string option \<Rightarrow> string option \<Rightarrow> runner_session \<Rightarrow> runner_session \<times> (protocol_error + unit)" where
  "runner_shutdown io io' s = (case write_stdin io SHUTDOWN_FRAME (s\<lparr>pn_closed := True\<rparr>) of
     (s', Inl e) \<Rightarrow> (s', Inl e)
   | (s', Inr _) \<Rightarrow> (s'\<lparr>pn_control := pn_control s' @ [CloseStdin]\<rparr>, case io' of None \<Rightarrow> Inr () | Some msg \<Rightarrow> Inl (Disconnected msg)))"

definition runner_kill :: "string option \<Rightarrow> runner_session \<Rightarrow> runner_session \<times> (protocol_error + unit)" where
  "runner_kill io s = (s\<lparr>pn_closed := True, pn_control := pn_control s @ [KillProcess 9]\<rparr>, case io of None \<Rightarrow> Inr () | Some msg \<Rightarrow> Inl (Disconnected msg))"

section \<open>Connecting\<close>

fun missing_capability :: "string \<Rightarrow> json list \<Rightarrow> string list \<Rightarrow> protocol_error + unit" where
  "missing_capability field advertised [] = Inr ()"
| "missing_capability field advertised (c # cs) =
     (if list_ex (\<lambda>v. as_str v = Some c) advertised then missing_capability field advertised cs else Inl (MissingCapability field c))"

definition validate_capabilities :: "json \<Rightarrow> string \<Rightarrow> string list \<Rightarrow> protocol_error + unit" where
  "validate_capabilities hello field required = (case Option.bind (json_get hello field) as_array of
     None \<Rightarrow> Inl (InvalidCapabilities field)
   | Some advertised \<Rightarrow>
       if list_ex (\<lambda>v. as_str v = None) advertised then Inl (InvalidCapabilities field)
       else missing_capability field advertised required)"

datatype hello_wait = Arrived "protocol_error + json" | SenderDropped | Elapsed

definition connect_finish :: "protocol_requirements \<Rightarrow> hello_wait \<Rightarrow> runner_session \<Rightarrow> runner_session \<times> (protocol_error + unit)" where
  "connect_finish reqs w s = (case w of
     SenderDropped \<Rightarrow> (s, Inl (Disconnected ''runner closed before hello''))
   | Elapsed \<Rightarrow> (s, Inl Timeout)
   | Arrived (Inl e) \<Rightarrow> (s, Inl e)
   | Arrived (Inr hello) \<Rightarrow>
       let version = Option.bind (json_get hello ''version'') as_u64;
           envelope = Option.bind (json_get hello ''envelope_version'') as_u64 in
       if version \<noteq> Some PROTOCOL_VERSION then (s\<lparr>pn_closed := True\<rparr>, Inl (Version version))
       else if envelope \<noteq> Some ENVELOPE_VERSION then (s\<lparr>pn_closed := True\<rparr>, Inl (EnvelopeVersion envelope))
       else (s, case validate_capabilities hello ''formats'' (pr_formats reqs) of
           Inl e \<Rightarrow> Inl e
         | Inr _ \<Rightarrow> validate_capabilities hello ''compressions'' (pr_compressions reqs)))"

section \<open>Chunks and lines\<close>

text \<open>The lines a byte stream holds and what is left after the last newline; the frames of a list of lines, up to the first that is refused.\<close>

fun lines_of :: "bytes \<Rightarrow> bytes list \<times> bytes" where
  "lines_of [] = ([], [])"
| "lines_of (b # bs) = (let (ls, rest) = lines_of bs in
     if b = NEWLINE then ([] # ls, rest)
     else case ls of [] \<Rightarrow> ([], b # rest) | l # ls' \<Rightarrow> ((b # l) # ls', rest))"

fun dispatch_lines :: "(bytes \<Rightarrow> string + json) \<Rightarrow> bytes list \<Rightarrow> runner_session \<Rightarrow> runner_session \<times> bool" where
  "dispatch_lines parse [] s = (s, True)"
| "dispatch_lines parse (l # ls) s = (case runner_dispatch parse l s of
     (s', Inl e) \<Rightarrow> (fail_all e s', False)
   | (s', Inr _) \<Rightarrow> dispatch_lines parse ls s')"

lemma lines_of_no_newline: "NEWLINE \<notin> set bs \<Longrightarrow> lines_of bs = ([], bs)"
  by (induction bs) auto

lemma lines_of_rest: "lines_of bs = (ls, rest) \<Longrightarrow> NEWLINE \<notin> set rest"
  by (induction bs arbitrary: ls rest) (auto simp: Let_def split: prod.splits if_splits list.splits)

lemma lines_of_line: "NEWLINE \<notin> set l \<Longrightarrow> lines_of (l @ NEWLINE # bs) = (l # fst (lines_of bs), snd (lines_of bs))"
  by (induction l) (auto simp: Let_def split: prod.splits)

lemma next_line_append: "NEWLINE \<notin> set l \<Longrightarrow> next_line (l @ NEWLINE # bs) = Some (l, bs)"
  by (auto simp: next_line_def takeWhile_append dropWhile_append)

lemma line_cases:
  obtains "NEWLINE \<notin> set bs" | l rest where "bs = l @ NEWLINE # rest" "NEWLINE \<notin> set l"
  by (meson split_list_first)

lemma lines_of_append: "lines_of (x @ y) = (case lines_of x of (ls, rest) \<Rightarrow> (case lines_of (rest @ y) of (ls', rest') \<Rightarrow> (ls @ ls', rest')))"
proof (induction "length x" arbitrary: x rule: less_induct)
  case less
  show ?case
  proof (cases x rule: line_cases)
    case 1
    then show ?thesis by (simp add: lines_of_no_newline split: prod.split)
  next
    case (2 l rest)
    then show ?thesis
      using less [of rest] by (simp add: lines_of_line split: prod.splits)
  qed
qed

lemma dispatch_lines_append:
  "dispatch_lines parse (ls @ ls') s = (case dispatch_lines parse ls s of (s', True) \<Rightarrow> dispatch_lines parse ls' s' | (s', False) \<Rightarrow> (s', False))"
  by (induction ls arbitrary: s) (auto split: prod.split sum.split)

lemma drain_lines_dispatch:
  "(fst (drain_lines parse s buf), snd (snd (drain_lines parse s buf))) = dispatch_lines parse (fst (lines_of buf)) s \<and>
   (snd (snd (drain_lines parse s buf)) \<longrightarrow> fst (snd (drain_lines parse s buf)) = snd (lines_of buf))"
proof (induction "length buf" arbitrary: s buf rule: less_induct)
  case less
  show ?case
  proof (cases buf rule: line_cases)
    case 1
    then show ?thesis by (simp add: drain_lines.simps next_line_def lines_of_no_newline)
  next
    case (2 l rest)
    have "drain_lines parse s buf = (case runner_dispatch parse l s of (s', Inl e) \<Rightarrow> (fail_all e s', rest, False) | (s', Inr _) \<Rightarrow> drain_lines parse s' rest)"
      using 2 by (subst drain_lines.simps) (simp add: next_line_append)
    moreover have "length rest < length buf"
      using 2 by simp
    ultimately show ?thesis
      using less [of rest] 2(2) by (simp add: lines_of_line 2(1) split: prod.split sum.split)
  qed
qed

definition short_lines :: "bytes \<Rightarrow> bool" where
  "short_lines bs \<longleftrightarrow> list_all (\<lambda>l. length l \<le> MAX_FRAME_BYTES) (fst (lines_of bs)) \<and> length (snd (lines_of bs)) \<le> MAX_FRAME_BYTES"

lemma lines_of_prefix:
  "NEWLINE \<notin> set x \<Longrightarrow> lines_of (x @ y) = (case lines_of y of ([], r) \<Rightarrow> ([], x @ r) | (l # ls, r) \<Rightarrow> ((x @ l) # ls, r))"
  by (induction x) (auto simp: Let_def split: prod.split list.split)

lemma short_lines_append: "short_lines (x @ y) \<Longrightarrow> short_lines (snd (lines_of x) @ y) \<and> length (snd (lines_of x)) \<le> MAX_FRAME_BYTES"
  using lines_of_rest [of x] lines_of_prefix [of "snd (lines_of x)" y]
  by (auto simp: short_lines_def lines_of_append [of x y] split: prod.splits list.splits)

lemma reader_stopped: "fold (read_chunk parse) chunks (s, buf, False) = (s, buf, False)"
  by (induction chunks) (auto simp: read_chunk_def)

lemma read_chunk_drains:
  assumes "NEWLINE \<notin> set buf" "short_lines ((buf @ c) @ rest)"
  shows "read_chunk parse c (s, buf, True) = drain_lines parse s (buf @ c)"
proof -
  have "\<not> MAX_FRAME_BYTES < length (buf @ c)" if "NEWLINE \<notin> set (buf @ c)"
    using short_lines_append [OF assms(2)] lines_of_no_newline [OF that] by simp
  then show ?thesis
    unfolding read_chunk_def Let_def by auto
qed

lemma reader_dispatches:
  assumes "NEWLINE \<notin> set buf" "short_lines (buf @ concat chunks)" "fold (read_chunk parse) chunks (s, buf, True) = (s', buf', running)"
  shows "(s', running) = dispatch_lines parse (fst (lines_of (buf @ concat chunks))) s \<and> (running \<longrightarrow> buf' = snd (lines_of (buf @ concat chunks)))"
  using assms
proof (induction chunks arbitrary: s buf)
  case Nil
  then show ?case by (simp add: lines_of_no_newline)
next
  case (Cons c cs)
  have short: "short_lines ((buf @ c) @ concat cs)"
    using Cons.prems(2) by simp
  obtain s1 b1 run1 where d: "drain_lines parse s (buf @ c) = (s1, b1, run1)"
    by (cases "drain_lines parse s (buf @ c)") auto
  have d': "(s1, run1) = dispatch_lines parse (fst (lines_of (buf @ c))) s" "run1 \<Longrightarrow> b1 = snd (lines_of (buf @ c))"
    using drain_lines_dispatch [of parse s "buf @ c"] d by auto
  have fed: "fold (read_chunk parse) cs (s1, b1, run1) = (s', buf', running)"
    using Cons.prems(3) read_chunk_drains [OF Cons.prems(1) short] d by simp
  have lines: "lines_of (buf @ c @ concat cs) = (fst (lines_of (buf @ c)) @ fst (lines_of (snd (lines_of (buf @ c)) @ concat cs)), snd (lines_of (snd (lines_of (buf @ c)) @ concat cs)))"
    using lines_of_append [of "buf @ c" "concat cs"] by (simp split: prod.splits)
  show ?case
  proof (cases run1)
    case True
    then have "NEWLINE \<notin> set b1" "short_lines (b1 @ concat cs)"
      using d'(2) lines_of_rest [of "buf @ c"] short_lines_append [OF short] by (auto simp: prod_eq_iff)
    from Cons.IH [OF this, of s1] fed True d'(2) show ?thesis
      by (simp add: lines dispatch_lines_append d'(1) [symmetric])
  next
    case False
    then show ?thesis
      using fed by (simp add: reader_stopped lines dispatch_lines_append d'(1) [symmetric])
  qed
qed

text \<open>
  C34: Frames do not depend on how the stream is cut. When no line of the runner's output is longer than a frame may be, the reader thread handles exactly the lines of the concatenated output in order up to the
  first one that is refused, however the output is divided into chunks, and keeps the unfinished last line.
\<close>

theorem runner_chunking_invisible:
  assumes "short_lines (concat chunks)" "fold (read_chunk parse) chunks (s, [], True) = (s', buf', running)"
  shows "(s', running) = dispatch_lines parse (fst (lines_of (concat chunks))) s \<and> (running \<longrightarrow> buf' = snd (lines_of (concat chunks)))"
  using reader_dispatches [of "[]" chunks parse s s' buf' running] assms by simp

section \<open>Threads\<close>

text \<open>
  The session with its reader thread, its exit watcher and any number of callers: \<open>rt_admitted\<close> are the frames of callers that have seen the session open and not yet taken the lock of the pending table. Callers also take events out of
  their queue and drop it.
\<close>

record runner_system =
  rt_session :: runner_session
  rt_buffer :: bytes
  rt_reading :: bool
  rt_admitted :: "json list"

datatype runner_action =
    RAdmit json
  | RSubmit nat "string option"
  | RCancel string "string option"
  | RShutdown "string option" "string option"
  | RKill "string option"
  | RChunk bytes
  | REof
  | RExit "int option"
  | RReceive nat
  | RDropEvents nat

definition int_string :: "int \<Rightarrow> string" where
  "int_string i = (if i < 0 then CHR ''-'' # dec_digits (nat (- i)) else dec_digits (nat i))"

definition exit_error :: "int option \<Rightarrow> protocol_error" where
  "exit_error code = Disconnected (case code of None \<Rightarrow> ''runner exited'' | Some c \<Rightarrow> ''runner exited with status '' @ int_string c)"

definition edit_channel :: "nat \<Rightarrow> (request_channel \<Rightarrow> request_channel) \<Rightarrow> runner_session \<Rightarrow> runner_session" where
  "edit_channel a f s = (if a < length (pn_channels s) then s\<lparr>pn_channels := (pn_channels s)[a := f (pn_channels s ! a)]\<rparr> else s)"

definition take_nth :: "nat \<Rightarrow> 'a list \<Rightarrow> 'a list" where
  "take_nth n xs = take n xs @ drop (Suc n) xs"

fun runner_step :: "(bytes \<Rightarrow> string + json) \<Rightarrow> (json \<Rightarrow> bytes) \<Rightarrow> runner_action \<Rightarrow> runner_system \<Rightarrow> runner_system" where
  "runner_step parse encode (RAdmit frame) r = (case request_admit frame (rt_session r) of Inl _ \<Rightarrow> r | Inr _ \<Rightarrow> r\<lparr>rt_admitted := rt_admitted r @ [frame]\<rparr>)"
| "runner_step parse encode (RSubmit n io) r =
     (if n < length (rt_admitted r)
      then let frame = rt_admitted r ! n in
        (case frame_request_id frame of
           None \<Rightarrow> r
         | Some i \<Rightarrow> r\<lparr>rt_session := fst (request_submit encode io i frame (rt_session r)), rt_admitted := take_nth n (rt_admitted r)\<rparr>)
      else r)"
| "runner_step parse encode (RCancel i io) r = r\<lparr>rt_session := fst (runner_cancel encode io i (rt_session r))\<rparr>"
| "runner_step parse encode (RShutdown io io') r = r\<lparr>rt_session := fst (runner_shutdown io io' (rt_session r))\<rparr>"
| "runner_step parse encode (RKill io) r = r\<lparr>rt_session := fst (runner_kill io (rt_session r))\<rparr>"
| "runner_step parse encode (RChunk chunk) r = (case read_chunk parse chunk (rt_session r, rt_buffer r, rt_reading r) of
     (s, buf, running) \<Rightarrow> r\<lparr>rt_session := s, rt_buffer := buf, rt_reading := running\<rparr>)"
| "runner_step parse encode REof r = (if rt_reading r then r\<lparr>rt_session := fail_all (Disconnected ''runner stdout closed'') (rt_session r), rt_reading := False\<rparr> else r)"
| "runner_step parse encode (RExit code) r = r\<lparr>rt_session := fail_all (exit_error code) (rt_session r)\<rparr>"
| "runner_step parse encode (RReceive a) r = r\<lparr>rt_session := edit_channel a (\<lambda>ch. ch\<lparr>ch_events := tl (ch_events ch)\<rparr>) (rt_session r)\<rparr>"
| "runner_step parse encode (RDropEvents a) r = r\<lparr>rt_session := edit_channel a (\<lambda>ch. ch\<lparr>ch_listening := False\<rparr>) (rt_session r)\<rparr>"

definition runner_run :: "(bytes \<Rightarrow> string + json) \<Rightarrow> (json \<Rightarrow> bytes) \<Rightarrow> runner_action list \<Rightarrow> runner_system \<Rightarrow> runner_system" where
  "runner_run parse encode acts r = foldl (\<lambda>r act. runner_step parse encode act r) r acts"

definition runner_start :: "nat \<Rightarrow> runner_system" where
  "runner_start capacity = \<lparr>rt_session = session_new capacity, rt_buffer = [], rt_reading = True, rt_admitted = []\<rparr>"

text \<open>Uninterrupted, the two steps of a caller are the request operation.\<close>

lemma request_in_two_steps:
  "request_admit frame (rt_session r) = Inr i \<Longrightarrow>
     runner_step parse encode (RSubmit (length (rt_admitted r)) io) (runner_step parse encode (RAdmit frame) r) = r\<lparr>rt_session := fst (runner_request encode io frame (rt_session r))\<rparr>"
  by (auto simp: runner_request_def request_admit_def take_nth_def split: if_splits option.splits)

section \<open>Replies reach their request\<close>

definition channel_ok :: "nat \<Rightarrow> request_channel \<Rightarrow> bool" where
  "channel_ok capacity ch \<longleftrightarrow> length (ch_events ch) \<le> capacity \<and>
     list_all (\<lambda>v. frame_request_id v = Some (ch_id ch) \<and> \<not> is_terminal v) (ch_events ch) \<and>
     (case ch_done ch of Some (Inr v) \<Rightarrow> frame_request_id v = Some (ch_id ch) \<and> is_terminal v | _ \<Rightarrow> True)"

definition waiting_ok :: "runner_session \<Rightarrow> nat \<Rightarrow> bool" where
  "waiting_ok s a \<longleftrightarrow> (ch_returned (pn_channels s ! a) \<and> ch_done (pn_channels s ! a) = None \<longrightarrow> (ch_id (pn_channels s ! a), a) \<in> set (pn_pending s))"

definition pending_ok :: "runner_session \<Rightarrow> bool" where
  "pending_ok s \<longleftrightarrow> distinct (map fst (pn_pending s)) \<and> distinct (map snd (pn_pending s)) \<and>
     (\<forall>(i, a)\<in>set (pn_pending s). a < length (pn_channels s) \<and> ch_id (pn_channels s ! a) = i \<and> ch_done (pn_channels s ! a) = None)"

definition session_ok :: "runner_session \<Rightarrow> bool" where
  "session_ok s \<longleftrightarrow> pending_ok s \<and> list_all (channel_ok (pn_event_capacity s)) (pn_channels s) \<and> (\<forall>a<length (pn_channels s). waiting_ok s a)"

lemmas session_defs = session_ok_def pending_ok_def waiting_ok_def

text \<open>What the other operations may do to a session without touching its requests.\<close>

definition same_requests :: "runner_session \<Rightarrow> runner_session \<Rightarrow> bool" where
  "same_requests s t \<longleftrightarrow> pn_pending s = pn_pending t \<and> pn_channels s = pn_channels t \<and> pn_event_capacity s = pn_event_capacity t"

lemma session_ok_same: "same_requests s t \<Longrightarrow> session_ok s = session_ok t"
  by (simp add: session_defs same_requests_def)

lemma take_hello_same: "same_requests (take_hello r s) s"
  by (simp add: take_hello_def same_requests_def)

lemma write_same: "same_requests (fst (write_stdin io bs s)) s"
  by (simp add: write_stdin_def same_requests_def)

lemma cancel_same: "same_requests (fst (runner_cancel encode io i s)) s"
  by (simp add: runner_cancel_def write_same)

lemma shutdown_same: "same_requests (fst (runner_shutdown io io' s)) s"
  by (simp add: runner_shutdown_def write_stdin_def same_requests_def split: option.split)

lemma kill_same: "same_requests (fst (runner_kill io s)) s"
  by (simp add: runner_kill_def same_requests_def)

lemma send_terminal_length [simp]: "length (send_terminal r a chs) = length chs"
  by (simp add: send_terminal_def)

lemma send_terminal_nth [simp]: "b < length chs \<Longrightarrow> send_terminal r a chs ! b = (if b = a then (chs ! b)\<lparr>ch_done := Some r\<rparr> else chs ! b)"
  by (simp add: send_terminal_def)

lemma fold_send_length [simp]: "length (fold (\<lambda>(_, a). send_terminal r a) ps chs) = length chs"
  by (induction ps arbitrary: chs) auto

lemma fold_send_nth:
  "a < length chs \<Longrightarrow> fold (\<lambda>(_, a). send_terminal r a) ps chs ! a = (if a \<in> set (map snd ps) then (chs ! a)\<lparr>ch_done := Some r\<rparr> else chs ! a)"
proof (induction ps arbitrary: chs)
  case (Cons p ps)
  from Cons.IH [of "send_terminal r (snd p) chs"] Cons.prems show ?case
    by (cases p) simp
qed simp

lemmas fold_send_terminal = fold_send_length fold_send_nth

lemma fail_all_closed [simp]: "pn_closed s \<Longrightarrow> fail_all e s = s"
  by (simp add: fail_all_def)

lemma fail_all_open:
  assumes "\<not> pn_closed s"
  shows "pn_pending (fail_all e s) = []" "pn_closed (fail_all e s)" "pn_event_capacity (fail_all e s) = pn_event_capacity s"
    "pn_channels (fail_all e s) = fold (\<lambda>(_, a). send_terminal (Inl e) a) (pn_pending s) (pn_channels s)"
  using assms by (simp_all add: fail_all_def take_hello_def Let_def)

lemma channel_failed: "channel_ok c ch \<Longrightarrow> channel_ok c (ch\<lparr>ch_done := Some (Inl e)\<rparr>)"
  by (simp add: channel_ok_def)

lemma fail_all_ok:
  assumes "session_ok s"
  shows "session_ok (fail_all e s)"
proof (cases "pn_closed s")
  case False
  have "list_all (channel_ok (pn_event_capacity s)) (pn_channels (fail_all e s))"
    using assms False by (auto simp: list_all_length fail_all_open fold_send_terminal session_ok_def channel_failed)
  moreover have "waiting_ok (fail_all e s) a" if "a < length (pn_channels s)" for a
    using assms False that by (force simp: session_ok_def waiting_ok_def fail_all_open fold_send_terminal)
  ultimately show ?thesis
    using False by (simp add: session_ok_def pending_ok_def fail_all_open fold_send_terminal)
qed (use assms in simp)

lemma pending_unique:
  assumes "session_ok s" "(i, a) \<in> set (pn_pending s)" "(j, b) \<in> set (pn_pending s)"
  shows "i = j \<longleftrightarrow> a = b"
proof -
  have "inj_on fst (set (pn_pending s))" "inj_on snd (set (pn_pending s))"
    using assms(1) by (simp_all add: session_ok_def pending_ok_def distinct_map)
  then show ?thesis
    using assms(2,3) by (metis fst_conv inj_onD prod.inject snd_conv)
qed

lemma pending_channel:
  assumes "session_ok s" "(i, a) \<in> set (pn_pending s)"
  shows "a < length (pn_channels s)" "ch_id (pn_channels s ! a) = i" "ch_done (pn_channels s ! a) = None" "channel_ok (pn_event_capacity s) (pn_channels s ! a)"
  using assms by (auto simp: session_ok_def pending_ok_def list_all_length)

lemma complete_ok:
  assumes ok: "session_ok s" and entry: "(i, a) \<in> set (pn_pending s)" and frame: "frame_request_id v = Some i" "is_terminal v"
  shows "session_ok ((remove_pending i s)\<lparr>pn_channels := send_terminal (Inr v) a (pn_channels s)\<rparr>)" (is "session_ok ?t")
proof -
  note ch = pending_channel [OF ok entry]
  have pending: "pn_pending ?t = filter (\<lambda>(j, _). j \<noteq> i) (pn_pending s)"
    by (simp add: remove_pending_def)
  have nth: "pn_channels ?t ! b = (if b = a then (pn_channels s ! a)\<lparr>ch_done := Some (Inr v)\<rparr> else pn_channels s ! b)" if "b < length (pn_channels s)" for b
    using that by simp
  have len: "length (pn_channels ?t) = length (pn_channels s)" and cap: "pn_event_capacity ?t = pn_event_capacity s"
    by (simp_all add: remove_pending_def)
  have "b < length (pn_channels s) \<and> ch_id (pn_channels ?t ! b) = j \<and> ch_done (pn_channels ?t ! b) = None" if "(j, b) \<in> set (pn_pending s)" "j \<noteq> i" for j b
    using pending_channel [OF ok that(1)] pending_unique [OF ok entry that(1)] that(2) by (simp add: nth)
  then have "pending_ok ?t"
    using ok unfolding pending_ok_def pending len by (auto simp: session_ok_def pending_ok_def distinct_map_filter)
  moreover have "list_all (channel_ok (pn_event_capacity ?t)) (pn_channels ?t)"
    using ok ch frame unfolding cap by (auto simp: list_all_length len nth session_ok_def) (simp add: channel_ok_def)
  moreover have "waiting_ok ?t b" if "b < length (pn_channels s)" for b
    using ok that pending_unique [OF ok entry] unfolding waiting_ok_def pending nth [OF that] by (auto simp: session_ok_def waiting_ok_def)
  ultimately show ?thesis
    unfolding session_ok_def len by blast
qed

lemma edit_channel_ok:
  assumes ok: "session_ok s" and keeps: "\<And>ch. ch_id (f ch) = ch_id ch" "\<And>ch. ch_done (f ch) = ch_done ch" "\<And>ch. ch_returned (f ch) = ch_returned ch"
    and good: "a < length (pn_channels s) \<Longrightarrow> channel_ok (pn_event_capacity s) (f (pn_channels s ! a))"
  shows "session_ok (edit_channel a f s)"
  using assms by (auto simp: session_ok_def pending_ok_def waiting_ok_def edit_channel_def list_all_length nth_list_update split: if_splits)

lemma dispatch_ok:
  assumes ok: "session_ok s"
  shows "session_ok (fst (runner_dispatch parse bs s))"
proof -
  have event: "session_ok (s\<lparr>pn_channels := (pn_channels s)[a := (pn_channels s ! a)\<lparr>ch_events := ch_events (pn_channels s ! a) @ [v]\<rparr>]\<rparr>)"
    if entry: "map_of (pn_pending s) i = Some a" and "frame_request_id v = Some i" "\<not> is_terminal v" "length (ch_events (pn_channels s ! a)) < pn_event_capacity s" for i a v
  proof -
    note ch = pending_channel [OF ok map_of_SomeD [OF entry]]
    have "session_ok (edit_channel a (\<lambda>ch. ch\<lparr>ch_events := ch_events ch @ [v]\<rparr>) s)"
      by (rule edit_channel_ok [OF ok]) (use ch that in \<open>auto simp: channel_ok_def\<close>)
    then show ?thesis
      using ch(1) by (simp add: edit_channel_def)
  qed
  show ?thesis
    using ok event session_ok_same [OF take_hello_same] complete_ok [OF ok map_of_SomeD]
    by (auto simp: runner_dispatch_def Let_def split: sum.split option.split)
qed

lemma drain_preserves:
  assumes "\<And>bs s. Q s \<Longrightarrow> Q (fst (runner_dispatch parse bs s))" "\<And>e s. Q s \<Longrightarrow> Q (fail_all e s)" "Q s"
  shows "Q (fst (drain_lines parse s buf))"
proof -
  have "Q (fst (dispatch_lines parse ls s))" if "Q s" for ls s
    using that
  proof (induction ls arbitrary: s)
    case (Cons l ls)
    then show ?case
      using assms(1) [of s l] assms(2) by (cases "runner_dispatch parse l s") (auto split: sum.split)
  qed simp
  then show ?thesis
    using drain_lines_dispatch [of parse s buf] assms(3) by (metis fst_conv)
qed

lemma read_chunk_preserves:
  assumes "\<And>bs s. Q s \<Longrightarrow> Q (fst (runner_dispatch parse bs s))" "\<And>e s. Q s \<Longrightarrow> Q (fail_all e s)" "Q s"
  shows "Q (fst (read_chunk parse chunk (s, buf, running)))"
  using assms drain_preserves [of Q parse s] by (auto simp: read_chunk_def Let_def)

lemma insert_ok:
  assumes ok: "session_ok s" and new: "map_of (pn_pending s) i = None"
  shows "session_ok (s\<lparr>pn_pending := (i, length (pn_channels s)) # pn_pending s, pn_channels := pn_channels s @ [\<lparr>ch_id = i, ch_events = [], ch_listening = True, ch_returned = True, ch_done = None\<rparr>]\<rparr>)"
  using assms by (auto simp: session_ok_def pending_ok_def waiting_ok_def channel_ok_def nth_append map_of_eq_None_iff image_iff less_Suc_eq split: prod.splits)

lemma abandon_ok:
  assumes ok: "session_ok s" and new: "map_of (pn_pending s) i = None"
  shows "session_ok (s\<lparr>pn_channels := pn_channels s @ [\<lparr>ch_id = i, ch_events = [], ch_listening = False, ch_returned = False, ch_done = None\<rparr>]\<rparr>)"
  using assms by (auto simp: session_ok_def pending_ok_def waiting_ok_def channel_ok_def nth_append map_of_eq_None_iff less_Suc_eq split: prod.splits)

lemma submit_ok:
  assumes ok: "session_ok s"
  shows "session_ok (fst (request_submit encode io i frame s))"
proof (cases "map_of (pn_pending s) i")
  case None
  let ?new = "\<lambda>b. \<lparr>ch_id = i, ch_events = [], ch_listening = b, ch_returned = b, ch_done = None\<rparr>"
  have removed: "filter (\<lambda>(j, _). j \<noteq> i) (pn_pending s) = pn_pending s"
    using None by (auto simp: filter_id_conv map_of_eq_None_iff image_iff)
  have "same_requests (fst (request_submit encode io i frame s)) (s\<lparr>pn_channels := pn_channels s @ [?new False]\<rparr>) \<or>
      same_requests (fst (request_submit encode io i frame s)) (s\<lparr>pn_pending := (i, length (pn_channels s)) # pn_pending s, pn_channels := pn_channels s @ [?new True]\<rparr>)"
    using None removed by (auto simp: request_submit_def Let_def same_requests_def remove_pending_def write_stdin_def split: option.split)
  then show ?thesis
    using insert_ok [OF ok None] abandon_ok [OF ok None] session_ok_same by blast
qed (use ok in \<open>simp add: request_submit_def\<close>)

lemma channel_receive: "channel_ok c ch \<Longrightarrow> channel_ok c (ch\<lparr>ch_events := tl (ch_events ch)\<rparr>)"
  by (cases "ch_events ch") (auto simp: channel_ok_def split: option.splits sum.splits)

lemma channel_drop: "channel_ok c ch \<Longrightarrow> channel_ok c (ch\<lparr>ch_listening := False\<rparr>)"
  by (simp add: channel_ok_def split: option.splits sum.splits)

lemma channel_in: "session_ok s \<Longrightarrow> a < length (pn_channels s) \<Longrightarrow> channel_ok (pn_event_capacity s) (pn_channels s ! a)"
  by (simp add: session_ok_def list_all_length)

lemma runner_step_ok:
  assumes "session_ok (rt_session r)"
  shows "session_ok (rt_session (runner_step parse encode act r))"
proof (cases act)
  case (RChunk chunk)
  have "session_ok (fst (read_chunk parse chunk (rt_session r, rt_buffer r, rt_reading r)))"
    by (rule read_chunk_preserves [where Q = session_ok]) (simp_all add: assms dispatch_ok fail_all_ok)
  then show ?thesis using RChunk by (auto split: prod.split)
next
  case (RReceive a)
  have "session_ok (edit_channel a (\<lambda>ch. ch\<lparr>ch_events := tl (ch_events ch)\<rparr>) (rt_session r))"
    by (rule edit_channel_ok [OF assms]) (simp_all add: channel_receive channel_in [OF assms])
  then show ?thesis using RReceive by simp
next
  case (RDropEvents a)
  have "session_ok (edit_channel a (\<lambda>ch. ch\<lparr>ch_listening := False\<rparr>) (rt_session r))"
    by (rule edit_channel_ok [OF assms]) (simp_all add: channel_drop channel_in [OF assms])
  then show ?thesis using RDropEvents by simp
qed (use assms in \<open>auto simp: fail_all_ok submit_ok session_ok_same [OF cancel_same] session_ok_same [OF shutdown_same] session_ok_same [OF kill_same] Let_def split: sum.split option.split\<close>)

lemma runner_run_ok: "session_ok (rt_session r) \<Longrightarrow> session_ok (rt_session (runner_run parse encode acts r))"
  unfolding runner_run_def by (induction acts arbitrary: r) (auto intro: runner_step_ok)

lemma runner_start_ok: "session_ok (rt_session (runner_start capacity))"
  by (simp add: runner_start_def session_new_def session_ok_def pending_ok_def)


lemma submit_same: "pn_closed (fst (request_submit encode io i frame s)) = pn_closed s \<and> pn_event_capacity (fst (request_submit encode io i frame s)) = pn_event_capacity s"
  by (simp add: request_submit_def Let_def remove_pending_def write_stdin_def split: option.split)

lemma submit_channels: "\<exists>new. pn_channels (fst (request_submit encode io i frame s)) = pn_channels s @ new"
  by (simp add: request_submit_def Let_def remove_pending_def write_stdin_def split: option.split)

lemma submit_pending: "p \<in> set (pn_pending s) \<Longrightarrow> p \<in> set (pn_pending (fst (request_submit encode io i frame s)))"
proof (cases "map_of (pn_pending s) i")
  case None
  assume p: "p \<in> set (pn_pending s)"
  have "filter (\<lambda>(j, _). j \<noteq> i) (pn_pending s) = pn_pending s"
    using None by (auto simp: filter_id_conv map_of_eq_None_iff image_iff)
  then show ?thesis
    using None p by (simp add: request_submit_def Let_def remove_pending_def write_stdin_def split: option.split)
qed (simp add: request_submit_def)




definition completed :: "nat \<Rightarrow> protocol_error + json \<Rightarrow> runner_session \<Rightarrow> bool" where
  "completed a x s \<longleftrightarrow> a < length (pn_channels s) \<and> ch_done (pn_channels s ! a) = Some x"

lemma completed_not_pending: "session_ok s \<Longrightarrow> completed a x s \<Longrightarrow> (i, b) \<in> set (pn_pending s) \<Longrightarrow> b \<noteq> a"
  using pending_channel(3) [of s i b] by (auto simp: completed_def)

lemma completed_dispatch:
  assumes "session_ok s" "completed a x s"
  shows "completed a x (fst (runner_dispatch parse bs s))"
proof -
  have "b \<noteq> a" if "map_of (pn_pending s) i = Some b" for i b
    using completed_not_pending [OF assms map_of_SomeD [OF that]] .
  then show ?thesis
    using assms(2) by (auto simp: runner_dispatch_def completed_def take_hello_def remove_pending_def Let_def split: sum.split option.split)
qed

lemma completed_fail_all:
  assumes "session_ok s" "completed a x s"
  shows "completed a x (fail_all e s)"
proof (cases "pn_closed s")
  case False
  have "a \<notin> set (map snd (pn_pending s))"
    using completed_not_pending [OF assms] by (auto; blast)
  then show ?thesis
    using assms(2) False by (simp add: completed_def fail_all_open fold_send_terminal)
qed (use assms in simp)

lemma completed_step:
  assumes "session_ok (rt_session r)" "completed a x (rt_session r)"
  shows "completed a x (rt_session (runner_step parse encode act r))"
proof (cases act)
  case (RReceive b)
  then show ?thesis using assms by (simp add: completed_def edit_channel_def nth_list_update)
next
  case (RDropEvents b)
  then show ?thesis using assms by (simp add: completed_def edit_channel_def nth_list_update)
next
  case (RChunk chunk)
  have "session_ok t \<and> completed a x t" if "t = fst (read_chunk parse chunk (rt_session r, rt_buffer r, rt_reading r))" for t
    unfolding that by (rule read_chunk_preserves [where Q = "\<lambda>s. session_ok s \<and> completed a x s"]) (simp_all add: assms completed_dispatch completed_fail_all dispatch_ok fail_all_ok)
  then show ?thesis using RChunk by (auto split: prod.split)
next
  case (RSubmit n io)
  have "completed a x (fst (request_submit encode io i frame (rt_session r)))" for i frame
    using submit_channels [of encode io i frame "rt_session r"] assms(2) by (auto simp: completed_def nth_append)
  then show ?thesis
    using RSubmit assms by (simp add: Let_def split: option.split)
next
  case (RCancel i io)
  then show ?thesis using assms cancel_same [of encode io i "rt_session r"] by (simp add: completed_def same_requests_def)
next
  case (RShutdown io io')
  then show ?thesis using assms shutdown_same [of io io' "rt_session r"] by (simp add: completed_def same_requests_def)
next
  case (RKill io)
  then show ?thesis using assms kill_same [of io "rt_session r"] by (simp add: completed_def same_requests_def)
qed (use assms in \<open>auto simp: completed_fail_all split: sum.split\<close>)

lemma completed_run: "session_ok (rt_session r) \<Longrightarrow> completed a x (rt_session r) \<Longrightarrow> completed a x (rt_session (runner_run parse encode acts r))"
  unfolding runner_run_def by (induction acts arbitrary: r) (auto intro: runner_step_ok completed_step)

text \<open>
  C33: Exit fails every open call. When the runner exits while the session is open, every request handed to a caller has its completion, for good: it is not changed by anything that happens later, and the session refuses new requests.
\<close>

theorem runner_exit_completes:
  assumes "r = runner_run parse encode before (runner_start capacity)" "\<not> pn_closed (rt_session r)" "r' = runner_step parse encode (RExit code) r"
    and "a < length (pn_channels (rt_session r'))" "ch_returned (pn_channels (rt_session r') ! a)"
  shows "\<exists>x. ch_done (pn_channels (rt_session r') ! a) = Some x \<and> completed a x (rt_session (runner_run parse encode later r')) \<and> (\<exists>e. request_admit frame (rt_session r') = Inl e)"
proof -
  have ok: "session_ok (rt_session r')"
    unfolding assms(1,3) by (intro runner_step_ok runner_run_ok runner_start_ok)
  have "pn_pending (rt_session r') = []" and closed: "pn_closed (rt_session r')"
    using fail_all_open [OF assms(2)] assms(3) by simp_all
  then obtain x where x: "ch_done (pn_channels (rt_session r') ! a) = Some x"
    using ok assms(4,5) by (auto simp: session_ok_def waiting_ok_def)
  then have "completed a x (rt_session (runner_run parse encode later r'))"
    using completed_run [OF ok] assms(4) by (simp add: completed_def)
  then show ?thesis
    using x closed by (auto simp: request_admit_def)
qed

fun reads_output :: "runner_action \<Rightarrow> bool" where
  "reads_output (RChunk _) = True"
| "reads_output _ = False"

lemma left_pending_step:
  assumes "pn_closed (rt_session r)" "p \<in> set (pn_pending (rt_session r))" "\<not> reads_output act"
  shows "pn_closed (rt_session (runner_step parse encode act r)) \<and> p \<in> set (pn_pending (rt_session (runner_step parse encode act r)))"
proof (cases act)
  case (RSubmit n io)
  then show ?thesis
    using assms by (simp add: Let_def submit_same submit_pending split: option.split)
qed (use assms in \<open>auto simp: runner_cancel_def runner_shutdown_def runner_kill_def write_stdin_def edit_channel_def split: sum.split option.split\<close>)

text \<open>
  A kill leaves the open calls waiting. After \<^verbatim>\<open>kill\<close> the session counts as closed, so that neither the exit of the process nor the end of its output fails the requests that are pending: without a further frame from the runner
  each of them stays in the table with no completion, whatever else happens, and its caller runs into its own deadline.
\<close>

theorem runner_kill_strands:
  assumes "r = runner_run parse encode before (runner_start capacity)" "(i, a) \<in> set (pn_pending (rt_session r))" "list_all (\<lambda>act. \<not> reads_output act) later"
    and "s = rt_session (runner_run parse encode (RKill io # later) r)"
  shows "(i, a) \<in> set (pn_pending s) \<and> request_complete False (pn_channels s ! a) = Inl Timeout"
proof -
  have left: "pn_closed (rt_session q) \<Longrightarrow> (i, a) \<in> set (pn_pending (rt_session q)) \<Longrightarrow> list_all (\<lambda>act. \<not> reads_output act) acts \<Longrightarrow>
      (i, a) \<in> set (pn_pending (rt_session (runner_run parse encode acts q)))" for q acts
  proof (induction acts arbitrary: q)
    case (Cons act acts)
    then show ?case
      using left_pending_step [of q "(i, a)" act parse encode] by (simp add: runner_run_def)
  qed (simp add: runner_run_def)
  have "(i, a) \<in> set (pn_pending s)"
    using left [of "runner_step parse encode (RKill io) r" later] assms(2-4) by (simp add: runner_run_def runner_kill_def)
  moreover have "session_ok s"
    unfolding assms(1,4) by (intro runner_run_ok runner_start_ok)
  ultimately show ?thesis
    using pending_channel(3) by (simp add: request_complete_def)
qed

section \<open>A session\<close>

definition demo_frame :: "string \<Rightarrow> json" where
  "demo_frame kind = JObject [''protocol'' \<mapsto> JNumber (PosInt 2), ''type'' \<mapsto> JString kind, ''request_id'' \<mapsto> JString ''a'']"

definition demo_parse :: "bytes \<Rightarrow> string + json" where
  "demo_parse bs = Inr (demo_frame (if bs = [1] then ''log'' else ''result''))"

definition demo_encode :: "json \<Rightarrow> bytes" where
  "demo_encode v = [7]"

lemma demo_frame_fields:
  "frame_protocol (demo_frame k) = Some 2" "frame_event (demo_frame k) = Some k" "frame_request_id (demo_frame k) = Some ''a''"
  by (simp_all add: frame_protocol_def frame_event_def frame_request_id_def demo_frame_def json_get_def)

lemma demo_terminal: "\<not> is_terminal (demo_frame ''log'')" "is_terminal (demo_frame ''result'')" "\<not> is_terminal (demo_frame ''call'')"
  by (simp_all add: is_terminal_def demo_frame_fields)

definition demo_channel :: "json list \<Rightarrow> (protocol_error + json) option \<Rightarrow> request_channel" where
  "demo_channel evs d = \<lparr>ch_id = ''a'', ch_events = evs, ch_listening = True, ch_returned = True, ch_done = d\<rparr>"

definition demo_session :: "bool \<Rightarrow> request_channel \<Rightarrow> runner_session" where
  "demo_session waiting ch = \<lparr>pn_pending = (if waiting then [(''a'', 0)] else []), pn_channels = [ch], pn_hello_waiting = True, pn_hello = None, pn_closed = False, pn_event_capacity = 2, pn_control = [WriteStdin [7, 10]]\<rparr>"

lemma demo_submitted:
  "runner_run demo_parse demo_encode [RAdmit (demo_frame ''call''), RSubmit 0 None] (runner_start 2)
     = \<lparr>rt_session = demo_session True (demo_channel [] None), rt_buffer = [], rt_reading = True, rt_admitted = []\<rparr>"
  by (simp add: runner_run_def runner_start_def session_new_def request_admit_def demo_frame_fields request_submit_def Let_def demo_encode_def MAX_FRAME_BYTES_def
      write_stdin_def take_nth_def demo_session_def demo_channel_def NEWLINE_def)

lemma demo_log_event: "runner_dispatch demo_parse [1] (demo_session True (demo_channel [] None)) = (demo_session True (demo_channel [demo_frame ''log''] None), Inr ())"
  by (simp add: runner_dispatch_def demo_parse_def demo_frame_fields demo_terminal PROTOCOL_VERSION_def demo_session_def demo_channel_def)

lemma demo_result: "runner_dispatch demo_parse [2] (demo_session True (demo_channel [demo_frame ''log''] None))
    = (demo_session False (demo_channel [demo_frame ''log''] (Some (Inr (demo_frame ''result'')))), Inr ())"
  by (simp add: runner_dispatch_def demo_parse_def demo_frame_fields demo_terminal PROTOCOL_VERSION_def demo_session_def demo_channel_def send_terminal_def remove_pending_def)

lemma demo_chunks: "fold (read_chunk demo_parse) [[1], [10, 2, 10]] (demo_session True (demo_channel [] None), [], True)
    = (demo_session False (demo_channel [demo_frame ''log''] (Some (Inr (demo_frame ''result'')))), [], True)"
  by (simp add: read_chunk_def MAX_FRAME_BYTES_def drain_lines.simps next_line_def NEWLINE_def demo_log_event demo_result)

theorem runner_chunking_invisible_witness:
  "dispatch_lines demo_parse [[1], [2]] (demo_session True (demo_channel [] None)) = (demo_session False (demo_channel [demo_frame ''log''] (Some (Inr (demo_frame ''result'')))), True)"
  using runner_chunking_invisible [OF _ demo_chunks] by (simp add: short_lines_def NEWLINE_def MAX_FRAME_BYTES_def)


theorem runner_exit_completes_witness:
  "\<exists>x. ch_done (pn_channels (rt_session (runner_step demo_parse demo_encode (RExit (Some 1)) (runner_run demo_parse demo_encode [RAdmit (demo_frame ''call''), RSubmit 0 None] (runner_start 2)))) ! 0) = Some x \<and>
     completed 0 x (rt_session (runner_run demo_parse demo_encode [REof] (runner_step demo_parse demo_encode (RExit (Some 1)) (runner_run demo_parse demo_encode [RAdmit (demo_frame ''call''), RSubmit 0 None] (runner_start 2))))) \<and>
     (\<exists>e. request_admit (demo_frame ''call'') (rt_session (runner_step demo_parse demo_encode (RExit (Some 1)) (runner_run demo_parse demo_encode [RAdmit (demo_frame ''call''), RSubmit 0 None] (runner_start 2)))) = Inl e)"
  by (rule runner_exit_completes [OF refl _ refl])
    (simp_all add: demo_submitted demo_session_def demo_channel_def fail_all_def take_hello_def send_terminal_def)

theorem runner_kill_strands_witness:
  "(''a'', 0) \<in> set (pn_pending (rt_session (runner_run demo_parse demo_encode [RKill None, RExit None, REof] (runner_run demo_parse demo_encode [RAdmit (demo_frame ''call''), RSubmit 0 None] (runner_start 2))))) \<and>
   request_complete False (pn_channels (rt_session (runner_run demo_parse demo_encode [RKill None, RExit None, REof] (runner_run demo_parse demo_encode [RAdmit (demo_frame ''call''), RSubmit 0 None] (runner_start 2)))) ! 0) = Inl Timeout"
  by (rule runner_kill_strands [OF refl _ _ refl]) (simp_all add: demo_submitted demo_session_def)

section \<open>Negotiation\<close>

definition offers :: "json \<Rightarrow> string \<Rightarrow> string list \<Rightarrow> bool" where
  "offers hello field required \<longleftrightarrow> (\<exists>names. json_get hello field = Some (JArray (map JString names)) \<and> set required \<subseteq> set names)"

lemma missing_capability_none: "missing_capability field (map JString names) required = Inr () \<longleftrightarrow> set required \<subseteq> set names"
  by (induction required) (auto simp: list_ex_iff)

lemma all_strings: "\<not> list_ex (\<lambda>v. as_str v = None) vs \<Longrightarrow> \<exists>names. vs = map JString names"
proof (induction vs)
  case (Cons v vs)
  then obtain names where "vs = map JString names" by auto
  moreover obtain n where "v = JString n"
    using Cons.prems by (cases v) auto
  ultimately show ?case
    by (metis list.simps(9))
qed simp

lemma validate_capabilities_iff: "validate_capabilities hello field required = Inr () \<longleftrightarrow> offers hello field required"
proof (cases "Option.bind (json_get hello field) as_array")
  case None
  then show ?thesis
    by (auto simp: validate_capabilities_def offers_def)
next
  case (Some vs)
  then have get: "json_get hello field = Some (JArray vs)"
    by (cases "json_get hello field") (auto elim: as_array.elims)
  show ?thesis
  proof (cases "list_ex (\<lambda>v. as_str v = None) vs")
    case True
    then show ?thesis
      using Some get by (auto simp: validate_capabilities_def offers_def list_ex_iff)
  next
    case False
    then obtain names where "vs = map JString names"
      using all_strings by blast
    then show ?thesis
      using Some get False by (simp add: validate_capabilities_def offers_def missing_capability_none inj_map_eq_map [of JString] inj_on_def)
  qed
qed

text \<open>
  A connection is made exactly when a hello arrived with both versions and lists of strings that contain every serializer and compression the function requires.
\<close>

theorem runner_connect_negotiated:
  "snd (connect_finish reqs w s) = Inr () \<longleftrightarrow>
     (\<exists>hello. w = Arrived (Inr hello) \<and> Option.bind (json_get hello ''version'') as_u64 = Some 2 \<and> Option.bind (json_get hello ''envelope_version'') as_u64 = Some 1 \<and>
        offers hello ''formats'' (pr_formats reqs) \<and> offers hello ''compressions'' (pr_compressions reqs))"
proof (cases w)
  case (Arrived r)
  then show ?thesis
    by (cases r) (auto simp: connect_finish_def Let_def PROTOCOL_VERSION_def ENVELOPE_VERSION_def validate_capabilities_iff [symmetric] split: sum.split)
qed (simp_all add: connect_finish_def)

end
