(* ===== verification/SnapshotCheck.thy ===== *)
theory SnapshotCheck
  imports RustText
begin

unbundle bit_operations_syntax

text \<open>
  The state of a saved virtual machine and the checks it must pass before anything is restored from it, \<^verbatim>\<open>vmm/src/snapshot/mod.rs\<close>, with the guest memory layout of \<^verbatim>\<open>vmm/src/layout.rs\<close> and \<^verbatim>\<open>vmm/src/memory.rs\<close> for both architectures. Sizes and
  addresses are natural numbers below the bound of their type, with the checked operations written out; registers of virtual processors, the machine and the hypervisor's name are opaque values. An error is the fixed part of its message.
\<close>

section \<open>Layout\<close>

datatype target_arch = X86_64 | Aarch64

definition DELTA_PAGE_SIZE :: nat where
  "DELTA_PAGE_SIZE = 4096"

definition MMIO_DEVICE_SIZE :: nat where
  "MMIO_DEVICE_SIZE = 4096"

definition FIRST_ADDR_PAST_32BITS :: nat where
  "FIRST_ADDR_PAST_32BITS = 4294967296"

definition MEM_32BIT_GAP_SIZE :: nat where
  "MEM_32BIT_GAP_SIZE = 805306368"

definition DRAM_BASE :: nat where
  "DRAM_BASE = 2147483648"

fun MMIO_MEM_START :: "target_arch \<Rightarrow> nat" where
  "MMIO_MEM_START X86_64 = FIRST_ADDR_PAST_32BITS - MEM_32BIT_GAP_SIZE"
| "MMIO_MEM_START Aarch64 = 167772160"

fun MMIO_MEM_SIZE :: "target_arch \<Rightarrow> nat" where
  "MMIO_MEM_SIZE X86_64 = MEM_32BIT_GAP_SIZE"
| "MMIO_MEM_SIZE Aarch64 = DRAM_BASE - MMIO_MEM_START Aarch64"

definition PCI_VIRTIO_BAR_SIZE :: nat where
  "PCI_VIRTIO_BAR_SIZE = 65536"

fun IRQ_BASE :: "target_arch \<Rightarrow> nat" where
  "IRQ_BASE X86_64 = 5"
| "IRQ_BASE Aarch64 = 1"

fun IRQ_END :: "target_arch \<Rightarrow> nat" where
  "IRQ_END X86_64 = 24"
| "IRQ_END Aarch64 = 96"

lemmas layout_defs = DELTA_PAGE_SIZE_def MMIO_DEVICE_SIZE_def FIRST_ADDR_PAST_32BITS_def MEM_32BIT_GAP_SIZE_def DRAM_BASE_def PCI_VIRTIO_BAR_SIZE_def

fun arrange_memory :: "target_arch \<Rightarrow> nat \<Rightarrow> (nat \<times> nat) list" where
  "arrange_memory X86_64 sz =
     (if sz = 0 then []
      else if sz \<le> MMIO_MEM_START X86_64 then [(0, sz)]
      else [(0, MMIO_MEM_START X86_64), (FIRST_ADDR_PAST_32BITS, sz - MMIO_MEM_START X86_64)])"
| "arrange_memory Aarch64 sz = (if sz = 0 then [] else [(DRAM_BASE, sz)])"

section \<open>Saved state\<close>

record mem_region =
  mr_gpa :: nat
  mr_len :: nat
  mr_file_offset :: nat

record delta_memory =
  dm_base :: string
  dm_page_size :: nat
  dm_changed :: bytes

datatype device_kind = KBlock | KNet | KConsole | KFs | KRng | KRemoteFs

datatype device_transport_kind = TMmio | TPci

datatype backend_hint =
    HBlock string bool
  | HNet string bytes
  | HUserNet bytes
  | HConsole
  | HFs string string bool
  | HRng
  | HRemoteFs string string

record queue_state_ser =
  qs_max_size :: nat
  qs_next_avail :: nat
  qs_next_used :: nat
  qs_event_idx_enabled :: bool
  qs_size :: nat
  qs_ready :: bool
  qs_desc_table :: nat
  qs_avail_ring :: nat
  qs_used_ring :: nat

record msix_entry_ser =
  me_msg_addr :: nat
  me_msg_data :: nat
  me_vector_ctrl :: nat

record msix_state_ser =
  ms_shared_vector :: nat
  ms_control :: nat
  ms_pending :: nat
  ms_table :: "msix_entry_ser list"

record pci_transport_state_ser =
  pt_config_space :: bytes
  pt_bar_base :: nat
  pt_bar0_probe :: bool
  pt_command :: nat
  pt_msix :: msix_state_ser

record fs_state_ser =
  fs_inodes :: "(nat \<times> string) list"
  fs_next :: nat

record device_state =
  ds_kind :: device_kind
  ds_transport :: device_transport_kind
  ds_mmio_base :: nat
  ds_gsi :: nat
  ds_interrupt_status :: nat
  ds_device_features_select :: nat
  ds_driver_features_select :: nat
  ds_acked_features :: nat
  ds_status :: nat
  ds_activated :: bool
  ds_queues :: "queue_state_ser list"
  ds_backend :: backend_hint
  ds_user_net_state :: "bytes option"
  ds_transport_pci :: "pci_transport_state_ser option"
  ds_fs :: "fs_state_ser option"

record serial_state =
  ss_registers :: bytes
  ss_in_buffer :: bytes

record ('b, 'v, 'm) vm_snapshot =
  sn_version :: nat
  sn_arch :: string
  sn_backend :: 'b
  sn_mem_mib :: nat
  sn_cpus :: nat
  sn_cmdline :: string
  sn_boot_mode :: string
  sn_firmware :: "string option"
  sn_mem_regions :: "mem_region list"
  sn_vcpus :: "'v list"
  sn_machine :: 'm
  sn_serial :: serial_state
  sn_devices :: "device_state list"
  sn_delta :: "delta_memory option"

type_synonym 'a snap_result = "string + 'a"

definition ensure :: "bool \<Rightarrow> string \<Rightarrow> unit snap_result" where
  "ensure b msg = (if b then Inr () else Inl msg)"

fun all_ok :: "('a \<Rightarrow> unit snap_result) \<Rightarrow> 'a list \<Rightarrow> unit snap_result" where
  "all_ok f [] = Inr ()"
| "all_ok f (x # xs) = rbind (f x) (\<lambda>_. all_ok f xs)"

section \<open>Checks\<close>

definition SNAPSHOT_VERSION :: nat where
  "SNAPSHOT_VERSION = 3"

definition MAX_SNAPSHOT_NAME_BYTES :: nat where
  "MAX_SNAPSHOT_NAME_BYTES = 128"

definition MAX_CPUS :: nat where
  "MAX_CPUS = 64"

definition MAX_MEM_MIB :: nat where
  "MAX_MEM_MIB = 65536"

definition SERIAL_FIFO_SIZE :: nat where
  "SERIAL_FIFO_SIZE = 64"

fun build_arch :: "target_arch \<Rightarrow> string" where
  "build_arch X86_64 = ''x86_64''"
| "build_arch Aarch64 = ''aarch64''"

definition safe_name_char :: "char \<Rightarrow> bool" where
  "safe_name_char c \<longleftrightarrow> is_digit c \<or> char_between CHR ''a'' CHR ''z'' c \<or> char_between CHR ''A'' CHR ''Z'' c \<or> c \<in> {CHR ''-'', CHR ''_'', CHR ''.''}"

fun has_dot_dot :: "string \<Rightarrow> bool" where
  "has_dot_dot (x # y # xs) = (x = CHR ''.'' \<and> y = CHR ''.'' \<or> has_dot_dot (y # xs))"
| "has_dot_dot _ = False"

definition is_safe_snapshot_name :: "string \<Rightarrow> bool" where
  "is_safe_snapshot_name nm \<longleftrightarrow> nm \<noteq> [] \<and> length nm \<le> MAX_SNAPSHOT_NAME_BYTES \<and> hd nm \<noteq> CHR ''.'' \<and> \<not> has_dot_dot nm \<and> list_all safe_name_char nm"

definition validate_snapshot_header :: "target_arch \<Rightarrow> 'b \<Rightarrow> ('b, 'v, 'm) vm_snapshot \<Rightarrow> unit snap_result" where
  "validate_snapshot_header arch backend snap =
     rbind (ensure (sn_version snap = SNAPSHOT_VERSION) ''snapshot version'') (\<lambda>_.
     rbind (ensure (sn_arch snap = build_arch arch) ''snapshot arch'') (\<lambda>_.
     rbind (ensure (sn_backend snap = backend) ''snapshot backend'') (\<lambda>_.
     if sn_boot_mode snap = ''direct'' then ensure (sn_firmware snap = None) ''snapshot direct boot mode must not include firmware''
     else if sn_boot_mode snap = ''uefi'' then
       (case sn_firmware snap of Some p \<Rightarrow> ensure (p \<noteq> []) ''snapshot uefi boot mode requires firmware'' | None \<Rightarrow> Inl ''snapshot uefi boot mode requires firmware'')
     else Inl ''snapshot boot_mode is not supported'')))"

definition validate_snapshot_resource_caps :: "nat \<Rightarrow> nat \<Rightarrow> unit snap_result" where
  "validate_snapshot_resource_caps cpus mem_mib =
     rbind (ensure (cpus \<noteq> 0) ''snapshot must contain at least one vCPU'') (\<lambda>_.
     rbind (ensure (cpus \<le> MAX_CPUS) ''snapshot cpus exceeds launch cap'') (\<lambda>_.
     rbind (ensure (mem_mib \<noteq> 0) ''snapshot memory size is zero'') (\<lambda>_.
     ensure (mem_mib \<le> MAX_MEM_MIB) ''snapshot memory size exceeds launch cap'')))"

text \<open>
  The loop over the memory regions: each is compared with its place in the architecture's layout while the file offset and the total are summed; then the ranges are sorted and neighbours compared.
\<close>

fun region_loop :: "(nat \<times> nat) list \<Rightarrow> mem_region list \<Rightarrow> nat \<Rightarrow> nat \<Rightarrow> (nat \<times> nat) list \<Rightarrow> (nat \<times> (nat \<times> nat) list) snap_result" where
  "region_loop expected [] next_off total_ram ranges = Inr (total_ram, ranges)"
| "region_loop expected (r # rs) next_off total_ram ranges = (case expected of
     [] \<Rightarrow> Inl ''snapshot memory region count''
   | (addr, len) # expected' \<Rightarrow>
       rbind (ensure (mr_len r \<noteq> 0) ''snapshot memory region is empty'') (\<lambda>_.
       rbind (ensure (mr_len r mod DELTA_PAGE_SIZE = 0) ''snapshot memory region length is not page-aligned'') (\<lambda>_.
       rbind (ensure (mr_gpa r = addr \<and> mr_len r = len) ''snapshot memory region does not match architecture layout'') (\<lambda>_.
       rbind (ensure (mr_file_offset r = next_off) ''snapshot memory region file offset'') (\<lambda>_.
       case checked_add_u64 (mr_gpa r) (mr_len r) of
         None \<Rightarrow> Inl ''snapshot memory region guest address range overflows''
       | Some e \<Rightarrow> (case checked_add_u64 next_off (mr_len r) of
           None \<Rightarrow> Inl ''snapshot memory region file offset range overflows''
         | Some next' \<Rightarrow> (case checked_add_u64 total_ram (mr_len r) of
             None \<Rightarrow> Inl ''snapshot memory region total RAM size overflows''
           | Some total' \<Rightarrow> region_loop expected' rs next' total' (ranges @ [(mr_gpa r, e)]))))))))"

fun adjacent :: "('a \<Rightarrow> 'a \<Rightarrow> bool) \<Rightarrow> 'a list \<Rightarrow> bool" where
  "adjacent P (x # y # xs) = (P x y \<and> adjacent P (y # xs))"
| "adjacent P _ = True"

definition validate_region_layout :: "target_arch \<Rightarrow> ('b, 'v, 'm) vm_snapshot \<Rightarrow> nat snap_result" where
  "validate_region_layout arch snap =
     (let mem_bytes = sn_mem_mib snap * 2 ^ 20; expected = arrange_memory arch mem_bytes in
      rbind (ensure (mem_bytes \<le> usize_max) ''snapshot memory size overflows usize'') (\<lambda>_.
      rbind (ensure (mem_bytes \<noteq> 0) ''snapshot memory size is zero'') (\<lambda>_.
      rbind (ensure (length (sn_mem_regions snap) = length expected) ''snapshot memory region count'') (\<lambda>_.
      rbind (region_loop expected (sn_mem_regions snap) 0 0 []) (\<lambda>(total_ram, ranges).
      rbind (ensure (adjacent (\<lambda>x y. snd x \<le> fst y) (sort_key fst ranges)) ''snapshot memory regions overlap'') (\<lambda>_.
      rbind (ensure (total_ram = mem_bytes) ''snapshot memory regions total'') (\<lambda>_. Inr total_ram)))))))"

definition count_ones :: "u8 \<Rightarrow> nat" where
  "count_ones b = length (filter (bit b) [0..<8])"

definition validate_delta_memory :: "delta_memory \<Rightarrow> nat \<Rightarrow> nat \<Rightarrow> unit snap_result" where
  "validate_delta_memory d total_ram memory_len =
     rbind (ensure (dm_page_size d = DELTA_PAGE_SIZE) ''snapshot delta page size'') (\<lambda>_.
     rbind (ensure (total_ram mod dm_page_size d = 0) ''snapshot delta total RAM is not page-aligned'') (\<lambda>_.
     let total_pages = total_ram div dm_page_size d; spare_bits = total_pages mod 8 in
     rbind (ensure (length (dm_changed d) = div_ceil total_pages 8) ''snapshot delta bitmap length'') (\<lambda>_.
     rbind (ensure (spare_bits = 0 \<or> last (dm_changed d) AND NOT (push_bit spare_bits 1 - 1) = 0) ''snapshot delta bitmap has set bits past page count'') (\<lambda>_.
     rbind (ensure (memory_len = sum_list (map count_ones (dm_changed d)) * dm_page_size d) ''snapshot delta memory file length'') (\<lambda>_.
     ensure (is_safe_snapshot_name (dm_base d)) ''snapshot delta base is not a safe basename'')))))"

definition validate_memory_regions :: "target_arch \<Rightarrow> nat \<Rightarrow> ('b, 'v, 'm) vm_snapshot \<Rightarrow> unit snap_result" where
  "validate_memory_regions arch memory_len snap =
     rbind (validate_region_layout arch snap) (\<lambda>total_ram.
       case sn_delta snap of
         None \<Rightarrow> ensure (total_ram = memory_len) ''snapshot memory data length''
       | Some d \<Rightarrow> validate_delta_memory d total_ram memory_len)"

definition validate_pci_transport_state :: "device_state \<Rightarrow> unit snap_result" where
  "validate_pci_transport_state dev = (case ds_transport_pci dev of
     None \<Rightarrow> Inl ''snapshot PCI device is missing PCI transport state''
   | Some st \<Rightarrow>
       rbind (ensure (length (pt_config_space st) = 256) ''snapshot PCI device config space length'') (\<lambda>_.
       rbind (ensure (ms_table (pt_msix st) \<noteq> []) ''snapshot PCI device MSI-X table is empty'') (\<lambda>_.
       ensure (length (ms_table (pt_msix st)) \<le> 64) ''snapshot PCI device MSI-X table length exceeds pending-bit capacity'')))"

definition validate_queue_ram_range :: "nat \<Rightarrow> nat \<Rightarrow> mem_region list \<Rightarrow> unit snap_result" where
  "validate_queue_ram_range start len regions =
     rbind (ensure (len \<noteq> 0) ''range is empty'') (\<lambda>_.
     case checked_add_u64 start len of
       None \<Rightarrow> Inl ''range overflows guest address space''
     | Some e \<Rightarrow> ensure (list_ex (\<lambda>r. case checked_add_u64 (mr_gpa r) (mr_len r) of Some region_end \<Rightarrow> mr_gpa r \<le> start \<and> e \<le> region_end | None \<Rightarrow> False) regions)
         ''range is outside declared guest RAM'')"

text \<open>A queue size is at most 65535, so none of the checked products and sums of the ring lengths can overflow.\<close>

definition desc_len :: "queue_state_ser \<Rightarrow> nat" where
  "desc_len q = 16 * qs_size q"

definition avail_len :: "queue_state_ser \<Rightarrow> nat" where
  "avail_len q = 6 + 2 * qs_size q + (if qs_event_idx_enabled q then 2 else 0)"

definition used_len :: "queue_state_ser \<Rightarrow> nat" where
  "used_len q = 6 + 8 * qs_size q + (if qs_event_idx_enabled q then 2 else 0)"

definition validate_ready_queue_ram :: "queue_state_ser \<Rightarrow> mem_region list \<Rightarrow> unit snap_result" where
  "validate_ready_queue_ram q regions =
     rbind (validate_queue_ram_range (qs_desc_table q) (desc_len q) regions) (\<lambda>_.
     rbind (validate_queue_ram_range (qs_avail_ring q) (avail_len q) regions) (\<lambda>_.
     validate_queue_ram_range (qs_used_ring q) (used_len q) regions))"

definition validate_queue :: "mem_region list \<Rightarrow> queue_state_ser \<Rightarrow> unit snap_result" where
  "validate_queue regions q =
     rbind (ensure (qs_max_size q \<noteq> 0) ''queue has zero max size'') (\<lambda>_.
     rbind (ensure (qs_size q \<le> qs_max_size q) ''queue size exceeds max'') (\<lambda>_.
     rbind (ensure (\<not> (qs_ready q \<and> qs_size q = 0)) ''queue is ready with zero size'') (\<lambda>_.
     if qs_ready q then validate_ready_queue_ram q regions else Inr ())))"

fun expected_queues :: "device_kind \<Rightarrow> backend_hint \<Rightarrow> nat option" where
  "expected_queues KBlock (HBlock _ _) = Some 1"
| "expected_queues KNet (HNet _ _) = Some 2"
| "expected_queues KNet (HUserNet _) = Some 2"
| "expected_queues KConsole HConsole = Some 2"
| "expected_queues KFs (HFs _ _ _) = Some 2"
| "expected_queues KRemoteFs (HRemoteFs _ _) = Some 2"
| "expected_queues KRng HRng = Some 1"
| "expected_queues _ _ = None"

definition validate_user_net :: "device_state \<Rightarrow> unit snap_result" where
  "validate_user_net dev = (case ds_backend dev of
     HUserNet _ \<Rightarrow> (case ds_user_net_state dev of
         None \<Rightarrow> Inl ''snapshot user-net device is missing libslirp state''
       | Some st \<Rightarrow> ensure (st \<noteq> []) ''snapshot user-net device has empty libslirp state'')
   | _ \<Rightarrow> ensure (ds_user_net_state dev = None) ''snapshot non-user-net device carries libslirp state'')"

definition validate_device :: "mem_region list \<Rightarrow> device_state \<Rightarrow> unit snap_result" where
  "validate_device regions dev =
     rbind (case ds_transport dev of
              TMmio \<Rightarrow> ensure (ds_transport_pci dev = None) ''snapshot device has PCI state on MMIO transport''
            | TPci \<Rightarrow> validate_pci_transport_state dev) (\<lambda>_.
     rbind (if ds_kind dev \<in> {KFs, KRemoteFs} then ensure (ds_fs dev \<noteq> None) ''snapshot virtio-fs device is missing fs state''
            else ensure (ds_fs dev = None) ''snapshot non-fs device carries virtio-fs state'') (\<lambda>_.
     rbind (validate_user_net dev) (\<lambda>_.
     case expected_queues (ds_kind dev) (ds_backend dev) of
       None \<Rightarrow> Inl ''snapshot device backend does not match kind''
     | Some n \<Rightarrow>
         rbind (ensure (length (ds_queues dev) = n) ''snapshot device queue count'') (\<lambda>_.
         all_ok (validate_queue regions) (ds_queues dev)))))"

definition device_window :: "target_arch \<Rightarrow> device_state \<Rightarrow> nat snap_result" where
  "device_window arch dev = (case ds_transport dev of
     TMmio \<Rightarrow> Inr MMIO_DEVICE_SIZE
   | TPci \<Rightarrow> (case arch of X86_64 \<Rightarrow> Inr PCI_VIRTIO_BAR_SIZE | Aarch64 \<Rightarrow> Inl ''snapshot device uses PCI transport on unsupported architecture''))"

fun addressing_loop :: "target_arch \<Rightarrow> device_state list \<Rightarrow> (nat \<times> nat) list snap_result" where
  "addressing_loop arch [] = Inr []"
| "addressing_loop arch (dev # devs) =
     rbind (device_window arch dev) (\<lambda>window_size.
     rbind (ensure (ds_mmio_base dev mod window_size = 0) ''snapshot device MMIO base is not aligned'') (\<lambda>_.
     case checked_add_u64 (ds_mmio_base dev) window_size of
       None \<Rightarrow> Inl ''snapshot device MMIO window overflows guest address space''
     | Some mmio_end \<Rightarrow>
         rbind (ensure (MMIO_MEM_START arch \<le> ds_mmio_base dev \<and> mmio_end \<le> MMIO_MEM_START arch + MMIO_MEM_SIZE arch) ''snapshot device MMIO window is outside device aperture'') (\<lambda>_.
         rbind (ensure (IRQ_BASE arch \<le> ds_gsi dev \<and> ds_gsi dev < IRQ_END arch) ''snapshot device GSI is outside device GSI range'') (\<lambda>_.
         rbind (addressing_loop arch devs) (\<lambda>ranges. Inr ((ds_mmio_base dev, mmio_end) # ranges))))))"

definition validate_device_addressing :: "target_arch \<Rightarrow> device_state list \<Rightarrow> unit snap_result" where
  "validate_device_addressing arch devices =
     rbind (ensure (length devices \<le> MMIO_MEM_SIZE arch div MMIO_DEVICE_SIZE) ''snapshot device count exceeds MMIO aperture capacity'') (\<lambda>_.
     rbind (ensure (length devices \<le> IRQ_END arch - IRQ_BASE arch) ''snapshot device count exceeds GSI capacity'') (\<lambda>_.
     rbind (addressing_loop arch devices) (\<lambda>ranges.
     rbind (ensure (adjacent (\<lambda>x y. snd x \<le> fst y) (sort_key fst ranges)) ''snapshot device MMIO window overlaps'') (\<lambda>_.
     ensure (adjacent (\<noteq>) (sort (map ds_gsi devices))) ''snapshot device reuses GSI''))))"

definition validate_device_states :: "target_arch \<Rightarrow> device_state list \<Rightarrow> mem_region list \<Rightarrow> unit snap_result" where
  "validate_device_states arch devices regions =
     rbind (all_ok (validate_device regions) devices) (\<lambda>_. validate_device_addressing arch devices)"

definition validate_common :: "target_arch \<Rightarrow> 'b \<Rightarrow> ('b, 'v, 'm) vm_snapshot \<Rightarrow> unit snap_result" where
  "validate_common arch backend snap =
     rbind (validate_snapshot_header arch backend snap) (\<lambda>_.
     rbind (validate_snapshot_resource_caps (sn_cpus snap) (sn_mem_mib snap)) (\<lambda>_.
     rbind (ensure (length (sn_vcpus snap) = sn_cpus snap) ''snapshot vcpu state count'') (\<lambda>_.
     ensure (length (ss_in_buffer (sn_serial snap)) \<le> SERIAL_FIFO_SIZE) ''serial input FIFO length'')))"

definition validate_snapshot_metadata :: "target_arch \<Rightarrow> 'b \<Rightarrow> nat snap_result \<Rightarrow> ('b, 'v, 'm) vm_snapshot \<Rightarrow> unit snap_result" where
  "validate_snapshot_metadata arch backend memory_file_len snap =
     rbind (validate_common arch backend snap) (\<lambda>_.
     rbind memory_file_len (\<lambda>memory_len.
     rbind (validate_memory_regions arch memory_len snap) (\<lambda>_.
     validate_device_states arch (sn_devices snap) (sn_mem_regions snap))))"

definition validate_snapshot_metadata_only :: "target_arch \<Rightarrow> 'b \<Rightarrow> ('b, 'v, 'm) vm_snapshot \<Rightarrow> unit snap_result" where
  "validate_snapshot_metadata_only arch backend snap =
     rbind (validate_common arch backend snap) (\<lambda>_.
     rbind (validate_region_layout arch snap) (\<lambda>_.
     rbind (ensure (sn_delta snap = None) ''remote page-in does not support delta snapshots'') (\<lambda>_.
     validate_device_states arch (sn_devices snap) (sn_mem_regions snap))))"

section \<open>What an accepted snapshot guarantees\<close>

lemma ensure_iff [simp]: "ensure b msg = Inr u \<longleftrightarrow> b"
  by (simp add: ensure_def)

lemma rbind_ensure [simp]: "rbind (ensure b msg) f = Inr y \<longleftrightarrow> b \<and> f () = Inr y"
  by (simp add: ensure_def rbind_def)

lemma rbind_unit: "rbind r f = Inr y \<longleftrightarrow> r = Inr () \<and> f () = Inr y" for r :: "unit snap_result"
  by (cases r) (auto simp: rbind_def)

lemma all_ok_iff: "all_ok f xs = Inr () \<longleftrightarrow> (\<forall>x\<in>set xs. f x = Inr ())"
  by (induction xs) (auto simp: rbind_unit)

text \<open>Sorting does not change what holds of every two elements of a list.\<close>

lemma sorted_wrt_insort:
  assumes "\<And>x y. R x y \<Longrightarrow> R y x"
  shows "sorted_wrt R (insort_key f x xs) \<longleftrightarrow> sorted_wrt R (x # xs)"
  using assms by (induction xs) (auto simp: set_insort_key)

lemma sorted_wrt_sort_key:
  assumes "\<And>x y. R x y \<Longrightarrow> R y x"
  shows "sorted_wrt R (sort_key f xs) \<longleftrightarrow> sorted_wrt R xs"
proof (induction xs)
  case (Cons x xs)
  have "sorted_wrt R (insort_key f x (sort_key f xs)) \<longleftrightarrow> sorted_wrt R (x # sort_key f xs)"
    by (rule sorted_wrt_insort) (rule assms)
  then show ?case
    using Cons by simp
qed simp

definition disjoint_ranges :: "nat \<times> nat \<Rightarrow> nat \<times> nat \<Rightarrow> bool" where
  "disjoint_ranges x y \<longleftrightarrow> snd x \<le> fst y \<or> snd y \<le> fst x"

lemma adjacent_ranges:
  "adjacent (\<lambda>x y. snd x \<le> fst y) xs \<Longrightarrow> list_all (\<lambda>x. fst x \<le> snd x) xs \<Longrightarrow> sorted_wrt (\<lambda>x y. snd x \<le> fst y) (xs :: (nat \<times> nat) list)"
proof (induction xs rule: induct_list012)
  case (3 x y xs)
  then show ?case by fastforce
qed auto

lemma sorted_neighbours_disjoint:
  assumes "adjacent (\<lambda>x y. snd x \<le> fst y) (sort_key fst xs)" "list_all (\<lambda>x. fst x \<le> snd x) (xs :: (nat \<times> nat) list)"
  shows "sorted_wrt disjoint_ranges xs"
proof -
  have "sorted_wrt (\<lambda>x y. snd x \<le> fst y) (sort_key fst xs)"
    using adjacent_ranges [OF assms(1)] assms(2) by (simp add: list_all_iff)
  then have "sorted_wrt disjoint_ranges (sort_key fst xs)"
    by (rule sorted_wrt_mono_rel [rotated]) (simp add: disjoint_ranges_def)
  then show ?thesis
    using sorted_wrt_sort_key [of disjoint_ranges fst xs] by (auto simp: disjoint_ranges_def)
qed

lemma adjacent_distinct: "sorted xs \<Longrightarrow> adjacent (\<noteq>) xs \<Longrightarrow> distinct (xs :: nat list)"
proof (induction xs rule: induct_list012)
  case (3 x y xs)
  then show ?case by fastforce
qed auto

definition window_size :: "device_state \<Rightarrow> nat" where
  "window_size dev = (case ds_transport dev of TMmio \<Rightarrow> MMIO_DEVICE_SIZE | TPci \<Rightarrow> PCI_VIRTIO_BAR_SIZE)"

definition device_range :: "device_state \<Rightarrow> nat \<times> nat" where
  "device_range dev = (ds_mmio_base dev, ds_mmio_base dev + window_size dev)"

lemma device_window_iff: "device_window arch dev = Inr w \<Longrightarrow> w = window_size dev"
  by (auto simp: device_window_def window_size_def split: device_transport_kind.splits target_arch.splits)

lemma addressing_loop_ranges:
  "addressing_loop arch devs = Inr ranges \<Longrightarrow> ranges = map device_range devs \<and>
     (\<forall>dev\<in>set devs. MMIO_MEM_START arch \<le> ds_mmio_base dev \<and> snd (device_range dev) \<le> MMIO_MEM_START arch + MMIO_MEM_SIZE arch \<and> IRQ_BASE arch \<le> ds_gsi dev \<and> ds_gsi dev < IRQ_END arch)"
proof (induction devs arbitrary: ranges)
  case (Cons dev devs)
  obtain w where w: "device_window arch dev = Inr w"
    using Cons.prems by (cases "device_window arch dev") auto
  obtain rest where "addressing_loop arch devs = Inr rest" "checked_add_u64 (ds_mmio_base dev) w = Some (ds_mmio_base dev + w)"
      "ranges = (ds_mmio_base dev, ds_mmio_base dev + w) # rest" "MMIO_MEM_START arch \<le> ds_mmio_base dev" "ds_mmio_base dev + w \<le> MMIO_MEM_START arch + MMIO_MEM_SIZE arch"
      "IRQ_BASE arch \<le> ds_gsi dev" "ds_gsi dev < IRQ_END arch"
    using Cons.prems w by (auto simp: rbind_eq_Inr checked_add_u64_def split: option.splits if_splits)
  then show ?case
    using Cons.IH device_window_iff [OF w] by (auto simp: device_range_def)
qed simp

lemma region_loop_layout:
  "region_loop expected rs off total_ram ranges = Inr (t, ranges') \<Longrightarrow> length rs = length expected \<Longrightarrow>
     map (\<lambda>r. (mr_gpa r, mr_len r)) rs = expected \<and> t = total_ram + sum_list (map mr_len rs) \<and>
     (\<forall>i<length rs. mr_file_offset (rs ! i) = off + sum_list (map mr_len (take i rs))) \<and> ranges' = ranges @ map (\<lambda>r. (mr_gpa r, mr_gpa r + mr_len r)) rs \<and>
     list_all (\<lambda>r. mr_len r \<noteq> 0 \<and> mr_len r mod DELTA_PAGE_SIZE = 0) rs"
proof (induction rs arbitrary: expected off total_ram ranges)
  case (Cons r rs)
  then obtain addr len expected' where e: "expected = (addr, len) # expected'"
    by (cases expected) auto
  have step: "mr_len r \<noteq> 0" "mr_len r mod DELTA_PAGE_SIZE = 0" "mr_gpa r = addr" "mr_len r = len" "mr_file_offset r = off"
      "region_loop expected' rs (off + mr_len r) (total_ram + mr_len r) (ranges @ [(mr_gpa r, mr_gpa r + mr_len r)]) = Inr (t, ranges')"
    using Cons.prems(1) e by (auto simp: checked_add_u64_def split: option.splits if_splits)
  have rest: "map (\<lambda>r. (mr_gpa r, mr_len r)) rs = expected'" "t = total_ram + mr_len r + sum_list (map mr_len rs)"
      "\<forall>i<length rs. mr_file_offset (rs ! i) = off + mr_len r + sum_list (map mr_len (take i rs))"
      "ranges' = ranges @ [(mr_gpa r, mr_gpa r + mr_len r)] @ map (\<lambda>r. (mr_gpa r, mr_gpa r + mr_len r)) rs" "list_all (\<lambda>r. mr_len r \<noteq> 0 \<and> mr_len r mod DELTA_PAGE_SIZE = 0) rs"
    using Cons.IH [OF step(6)] Cons.prems(2) e by auto
  have "mr_file_offset ((r # rs) ! i) = off + sum_list (map mr_len (take i (r # rs)))" if "i < length (r # rs)" for i
    using that rest(3) step(5) by (cases i) auto
  then show ?case
    using step rest e by simp
qed simp

definition in_ram :: "mem_region list \<Rightarrow> nat \<Rightarrow> nat \<Rightarrow> bool" where
  "in_ram regions start len \<longleftrightarrow> (\<exists>r\<in>set regions. mr_gpa r \<le> start \<and> start + len \<le> mr_gpa r + mr_len r)"

lemma queue_range_in_ram: "validate_queue_ram_range start len regions = Inr () \<Longrightarrow> in_ram regions start len"
  by (auto simp: validate_queue_ram_range_def checked_add_u64_def list_ex_iff in_ram_def split: option.splits if_splits)

lemma validate_queue_rings:
  "validate_queue regions q = Inr () \<Longrightarrow> qs_ready q \<Longrightarrow> in_ram regions (qs_desc_table q) (desc_len q) \<and> in_ram regions (qs_avail_ring q) (avail_len q) \<and> in_ram regions (qs_used_ring q) (used_len q)"
  by (auto simp: validate_queue_def validate_ready_queue_ram_def rbind_unit intro: queue_range_in_ram)

lemma validate_device_queues: "validate_device regions dev = Inr () \<Longrightarrow> q \<in> set (ds_queues dev) \<Longrightarrow> validate_queue regions q = Inr ()"
  by (auto simp: validate_device_def rbind_unit all_ok_iff split: option.splits)

lemma accepted_layout:
  assumes "validate_region_layout arch snap = Inr t"
  shows "map (\<lambda>r. (mr_gpa r, mr_len r)) (sn_mem_regions snap) = arrange_memory arch (sn_mem_mib snap * 2 ^ 20)" "t = sum_list (map mr_len (sn_mem_regions snap))"
    "\<forall>i<length (sn_mem_regions snap). mr_file_offset (sn_mem_regions snap ! i) = sum_list (map mr_len (take i (sn_mem_regions snap)))"
    "list_all (\<lambda>r. mr_len r \<noteq> 0 \<and> mr_len r mod DELTA_PAGE_SIZE = 0) (sn_mem_regions snap)" "t = sn_mem_mib snap * 2 ^ 20"
proof -
  obtain ranges where loop: "region_loop (arrange_memory arch (sn_mem_mib snap * 2 ^ 20)) (sn_mem_regions snap) 0 0 [] = Inr (t, ranges)"
      and len: "length (sn_mem_regions snap) = length (arrange_memory arch (sn_mem_mib snap * 2 ^ 20))" and total: "t = sn_mem_mib snap * 2 ^ 20"
    using assms unfolding validate_region_layout_def Let_def rbind_ensure rbind_eq_Inr by auto
  show "map (\<lambda>r. (mr_gpa r, mr_len r)) (sn_mem_regions snap) = arrange_memory arch (sn_mem_mib snap * 2 ^ 20)" "t = sum_list (map mr_len (sn_mem_regions snap))"
    "\<forall>i<length (sn_mem_regions snap). mr_file_offset (sn_mem_regions snap ! i) = sum_list (map mr_len (take i (sn_mem_regions snap)))"
    "list_all (\<lambda>r. mr_len r \<noteq> 0 \<and> mr_len r mod DELTA_PAGE_SIZE = 0) (sn_mem_regions snap)" "t = sn_mem_mib snap * 2 ^ 20"
    using region_loop_layout [OF loop len] total by auto
qed

lemma layout_outside_aperture:
  assumes "(gpa, len) \<in> set (arrange_memory arch sz)"
  shows "gpa + len \<le> MMIO_MEM_START arch \<or> MMIO_MEM_START arch + MMIO_MEM_SIZE arch \<le> gpa"
  using assms by (cases arch) (auto simp: layout_defs split: if_splits)

lemma addressing_safe:
  assumes "validate_device_addressing arch devices = Inr ()"
  shows "sorted_wrt disjoint_ranges (map device_range devices)" "distinct (map ds_gsi devices)"
    "\<forall>dev\<in>set devices. MMIO_MEM_START arch \<le> ds_mmio_base dev \<and> snd (device_range dev) \<le> MMIO_MEM_START arch + MMIO_MEM_SIZE arch \<and> IRQ_BASE arch \<le> ds_gsi dev \<and> ds_gsi dev < IRQ_END arch"
proof -
  obtain ranges where loop: "addressing_loop arch devices = Inr ranges" and windows: "adjacent (\<lambda>x y. snd x \<le> fst y) (sort_key fst ranges)" and gsis: "adjacent (\<noteq>) (sort (map ds_gsi devices))"
    using assms unfolding validate_device_addressing_def rbind_ensure rbind_eq_Inr by auto
  note ranges = addressing_loop_ranges [OF loop]
  show "sorted_wrt disjoint_ranges (map device_range devices)"
    using sorted_neighbours_disjoint [OF windows] ranges by (simp add: list_all_iff device_range_def)
  show "distinct (map ds_gsi devices)"
    using adjacent_distinct [OF _ gsis] by (simp add: distinct_sort)
  show "\<forall>dev\<in>set devices. MMIO_MEM_START arch \<le> ds_mmio_base dev \<and> snd (device_range dev) \<le> MMIO_MEM_START arch + MMIO_MEM_SIZE arch \<and> IRQ_BASE arch \<le> ds_gsi dev \<and> ds_gsi dev < IRQ_END arch"
    using ranges by blast
qed

text \<open>A machine of one megabyte with a disk whose queue is in use.\<close>

definition demo_disk :: device_state where
  "demo_disk = \<lparr>ds_kind = KBlock, ds_transport = TMmio, ds_mmio_base = 3489660928, ds_gsi = 5, ds_interrupt_status = 0, ds_device_features_select = 0, ds_driver_features_select = 0, ds_acked_features = 0, ds_status = 15, ds_activated = True,
     ds_queues = [\<lparr>qs_max_size = 256, qs_next_avail = 3, qs_next_used = 3, qs_event_idx_enabled = True, qs_size = 256, qs_ready = True, qs_desc_table = 65536, qs_avail_ring = 69632, qs_used_ring = 73728\<rparr>],
     ds_backend = HBlock ''disk'' False, ds_user_net_state = None, ds_transport_pci = None, ds_fs = None\<rparr>"

definition demo_machine :: "mem_region list \<Rightarrow> delta_memory option \<Rightarrow> (unit, unit, unit) vm_snapshot" where
  "demo_machine regions delta = \<lparr>sn_version = 3, sn_arch = ''x86_64'', sn_backend = (), sn_mem_mib = 1, sn_cpus = 1, sn_cmdline = [], sn_boot_mode = ''direct'', sn_firmware = None, sn_mem_regions = regions, sn_vcpus = [()],
     sn_machine = (), sn_serial = \<lparr>ss_registers = [], ss_in_buffer = []\<rparr>, sn_devices = [demo_disk], sn_delta = delta\<rparr>"

definition demo_regions :: "mem_region list" where
  "demo_regions = [\<lparr>mr_gpa = 0, mr_len = 1048576, mr_file_offset = 0\<rparr>]"

lemma demo_devices: "validate_device_states X86_64 [demo_disk] demo_regions = Inr ()"
  by (simp add: validate_device_states_def demo_disk_def demo_regions_def validate_device_def validate_user_net_def validate_queue_def validate_ready_queue_ram_def validate_queue_ram_range_def desc_len_def avail_len_def used_len_def
      validate_device_addressing_def device_window_def layout_defs checked_add_u64_def ensure_def)

lemma demo_layout: "validate_region_layout X86_64 (demo_machine demo_regions delta) = Inr 1048576"
  by (simp add: validate_region_layout_def demo_machine_def demo_regions_def layout_defs checked_add_u64_def ensure_def)

lemma demo_accepted: "validate_snapshot_metadata X86_64 () (Inr 1048576) (demo_machine demo_regions None) = Inr ()"
  using demo_devices demo_layout [of None]
  by (simp add: validate_snapshot_metadata_def validate_common_def validate_snapshot_header_def validate_snapshot_resource_caps_def validate_memory_regions_def SNAPSHOT_VERSION_def MAX_CPUS_def MAX_MEM_MIB_def SERIAL_FIFO_SIZE_def ensure_def demo_machine_def)

text \<open>
  C39: What an accepted snapshot guarantees. If the checks pass, the memory regions are those of the architecture for the configured size; every ring of every ready queue lies inside one of them; no two devices share an interrupt
  line or overlap in their register windows; and no window overlaps guest memory.
\<close>

theorem snapshot_accepted_safe:
  assumes "validate_snapshot_metadata arch backend memory_len snap = Inr ()"
  shows "map (\<lambda>r. (mr_gpa r, mr_len r)) (sn_mem_regions snap) = arrange_memory arch (sn_mem_mib snap * 2 ^ 20) \<and>
     (\<forall>dev\<in>set (sn_devices snap). \<forall>q\<in>set (ds_queues dev). qs_ready q \<longrightarrow>
        in_ram (sn_mem_regions snap) (qs_desc_table q) (desc_len q) \<and> in_ram (sn_mem_regions snap) (qs_avail_ring q) (avail_len q) \<and> in_ram (sn_mem_regions snap) (qs_used_ring q) (used_len q)) \<and>
     distinct (map ds_gsi (sn_devices snap)) \<and> sorted_wrt disjoint_ranges (map device_range (sn_devices snap)) \<and>
     (\<forall>dev\<in>set (sn_devices snap). \<forall>r\<in>set (sn_mem_regions snap). disjoint_ranges (device_range dev) (mr_gpa r, mr_gpa r + mr_len r))"
proof -
  obtain t where layout: "validate_region_layout arch snap = Inr t" and devices: "validate_device_states arch (sn_devices snap) (sn_mem_regions snap) = Inr ()"
    using assms by (auto simp: validate_snapshot_metadata_def validate_memory_regions_def rbind_unit rbind_eq_Inr)
  have each: "validate_device (sn_mem_regions snap) dev = Inr ()" if "dev \<in> set (sn_devices snap)" for dev
    using devices that by (simp add: validate_device_states_def rbind_unit all_ok_iff)
  have addressing: "validate_device_addressing arch (sn_devices snap) = Inr ()"
    using devices by (simp add: validate_device_states_def rbind_unit)
  have "disjoint_ranges (device_range dev) (mr_gpa r, mr_gpa r + mr_len r)" if "dev \<in> set (sn_devices snap)" "r \<in> set (sn_mem_regions snap)" for dev r
  proof -
    have "(mr_gpa r, mr_len r) \<in> set (arrange_memory arch (sn_mem_mib snap * 2 ^ 20))"
      using that(2) unfolding accepted_layout(1) [OF layout, symmetric] by simp
    then show ?thesis
      using layout_outside_aperture addressing_safe(3) [OF addressing] that(1) by (fastforce simp: disjoint_ranges_def device_range_def)
  qed
  then show ?thesis
    using accepted_layout(1) [OF layout] addressing_safe [OF addressing] validate_queue_rings validate_device_queues [OF each] by blast
qed

text \<open>The descriptor table of the demonstration's disk lies in its memory.\<close>

theorem snapshot_accepted_safe_witness:
  "validate_snapshot_metadata X86_64 () (Inr 1048576) (demo_machine demo_regions None) = Inr () \<and> in_ram demo_regions 65536 4096 \<and> disjoint_ranges (device_range demo_disk) (0, 1048576)"
  using snapshot_accepted_safe [OF demo_accepted] demo_accepted by (simp add: demo_machine_def demo_disk_def demo_regions_def desc_len_def)

end
