(* ===== verification/SnapshotMem.thy ===== *)
theory SnapshotMem
  imports SnapshotCheck
begin

unbundle bit_operations_syntax

text \<open>
  Guest memory in snapshots, \<^verbatim>\<open>vmm/src/snapshot/mod.rs\<close>: the sparse full dump, the page delta against a base by comparing every page in parallel chunks or only the pages a dirty log names, and the reconstruction of memory from a chain of
  deltas, copied or mapped. Guest memory is a list of regions with their start address and bytes; a host pointer is the rest of its region from the address on. A memory file is a byte list, with holes read as zero.
\<close>

section \<open>Region tables\<close>

type_synonym guest_memory = "(nat \<times> bytes) list"

fun region_table_from :: "nat \<Rightarrow> guest_memory \<Rightarrow> mem_region list snap_result" where
  "region_table_from file_offset [] = Inr []"
| "region_table_from file_offset ((gpa, bs) # mem) =
     rbind (ensure (gpa mod DELTA_PAGE_SIZE = 0) ''guest memory region GPA is not page-aligned'') (\<lambda>_.
     rbind (ensure (bs \<noteq> []) ''guest memory region is empty'') (\<lambda>_.
     rbind (ensure (length bs mod DELTA_PAGE_SIZE = 0) ''guest memory region length is not page-aligned'') (\<lambda>_.
     case checked_add_u64 file_offset (length bs) of
       None \<Rightarrow> Inl ''guest memory region file offset overflows''
     | Some next \<Rightarrow> rbind (region_table_from next mem) (\<lambda>rs. Inr (\<lparr>mr_gpa = gpa, mr_len = length bs, mr_file_offset = file_offset\<rparr> # rs)))))"

definition memory_region_table :: "guest_memory \<Rightarrow> mem_region list snap_result" where
  "memory_region_table mem = rbind (region_table_from 0 mem) (\<lambda>rs. rbind (ensure (rs \<noteq> []) ''guest memory has no regions'') (\<lambda>_. Inr rs))"

fun total_from :: "nat \<Rightarrow> mem_region list \<Rightarrow> nat snap_result" where
  "total_from t [] = Inr t"
| "total_from t (r # rs) = (case checked_add_u64 t (mr_len r) of None \<Rightarrow> Inl ''snapshot memory region total length overflows'' | Some t' \<Rightarrow> total_from t' rs)"

definition regions_total_len :: "mem_region list \<Rightarrow> nat snap_result" where
  "regions_total_len rs = total_from 0 rs"

definition same_layout :: "mem_region list \<Rightarrow> mem_region list \<Rightarrow> bool" where
  "same_layout xs ys \<longleftrightarrow> length xs = length ys \<and> list_all2 (\<lambda>x y. mr_gpa x = mr_gpa y \<and> mr_len x = mr_len y \<and> mr_file_offset x = mr_file_offset y) xs ys"

definition ensure_guest_memory_layout :: "guest_memory \<Rightarrow> mem_region list \<Rightarrow> unit snap_result" where
  "ensure_guest_memory_layout mem expected = rbind (memory_region_table mem) (\<lambda>actual. ensure (same_layout actual expected) ''RAM layout differs from snapshot metadata'')"

text \<open>\<^verbatim>\<open>get_host_address\<close>: the bytes of the region that holds the address, from there on.\<close>

fun host_slice :: "guest_memory \<Rightarrow> nat \<Rightarrow> bytes snap_result" where
  "host_slice [] gpa = Inl ''host address''"
| "host_slice ((start, bs) # mem) gpa = (if start \<le> gpa \<and> gpa < start + length bs then Inr (drop (gpa - start) bs) else host_slice mem gpa)"

fun host_write :: "guest_memory \<Rightarrow> nat \<Rightarrow> bytes \<Rightarrow> guest_memory snap_result" where
  "host_write [] gpa dat = Inl ''host address''"
| "host_write ((start, bs) # mem) gpa dat =
     (if start \<le> gpa \<and> gpa < start + length bs
      then Inr ((start, take (gpa - start) bs @ dat @ drop (gpa - start + length dat) bs) # mem)
      else rbind (host_write mem gpa dat) (\<lambda>mem'. Inr ((start, bs) # mem')))"

section \<open>Bitmaps\<close>

definition DIFF_PAGES_PER_WORKER :: nat where
  "DIFF_PAGES_PER_WORKER = 16384"

definition bitmap_bit :: "bytes \<Rightarrow> nat \<Rightarrow> bool" where
  "bitmap_bit bm i = bit (bm ! (i div 8)) (i mod 8)"

definition byte_of :: "(nat \<Rightarrow> bool) \<Rightarrow> u8" where
  "byte_of f = fold (\<lambda>i v. if f i then v OR push_bit i 1 else v) [0..<8] 0"

text \<open>\<open>par_chunks_mut\<close> on a bitmap of \<open>n\<close> bytes: each chunk computes its own bytes, \<open>g ci bi\<close> the byte \<open>bi\<close> of chunk \<open>ci\<close>.\<close>

definition in_chunks :: "nat \<Rightarrow> nat \<Rightarrow> (nat \<Rightarrow> nat \<Rightarrow> u8 list) \<Rightarrow> bytes" where
  "in_chunks c n g = concat (map (\<lambda>ci. g ci (min c (n - ci * c))) [0..<div_ceil n c])"

lemma bit_fold_byte: "bit (fold (\<lambda>i v. if f i then v OR push_bit i 1 else v) xs v) n \<longleftrightarrow> bit v n \<or> n \<in> set xs \<and> f n \<and> n < 8" for v :: u8
proof (induction xs arbitrary: v)
  case (Cons i xs)
  have "bit (push_bit i 1 :: u8) n \<longleftrightarrow> n = i \<and> n < 8"
    by (auto simp: bit_simps)
  then show ?case
    using Cons by (auto simp: bit_or_iff)
qed simp

lemma bit_byte_of: "bit (byte_of f) n \<longleftrightarrow> n < 8 \<and> f n"
  unfolding byte_of_def by (subst bit_fold_byte) auto

lemma div_ceil_covers:
  assumes "0 < c"
  shows "n \<le> div_ceil n c * c"
proof -
  define q r where "q = n div c" and "r = n mod c"
  have "n = q * c + r" "r < c"
    using assms by (simp_all add: q_def r_def)
  then show ?thesis
    unfolding div_ceil_def q_def [symmetric] r_def [symmetric] by simp
qed

lemma in_chunks_map:
  assumes "0 < c" "\<And>ci m. g ci m = map (\<lambda>bi. h (ci * c + bi)) [0..<m]"
  shows "in_chunks c n g = map h [0..<n]"
proof -
  have "concat (map (\<lambda>ci. g ci (min c (n - ci * c))) [0..<k]) = map h [0..<min n (k * c)]" for k
  proof (induction k)
    case (Suc k)
    have shift: "map (\<lambda>bi. h (k * c + bi)) [0..<m] = map h [k * c..<k * c + m]" for m
      by (induction m) auto
    show ?case
    proof (cases "k * c \<le> n")
      case True
      have "[0..<min n (k * c)] @ [k * c..<k * c + min c (n - k * c)] = [0..<min n (Suc k * c)]"
      proof -
        have "k * c + min c (n - k * c) = min n (Suc k * c)" "min n (k * c) = k * c"
          using True by auto
        then show ?thesis
          using upt_add_eq_append [of 0 "k * c" "min c (n - k * c)"] by simp
      qed
      then have "map h [0..<min n (Suc k * c)] = map h [0..<min n (k * c)] @ map h [k * c..<k * c + min c (n - k * c)]"
        by (metis map_append)
      then show ?thesis
        using Suc by (simp add: assms(2) shift)
    next
      case False
      then show ?thesis
        using Suc by (simp add: assms(2) min_def)
    qed
  qed simp
  moreover have "n \<le> div_ceil n c * c"
    by (rule div_ceil_covers [OF assms(1)])
  ultimately show ?thesis
    unfolding in_chunks_def by (simp add: min_absorb1)
qed

section \<open>The full dump\<close>

definition is_zero :: "bytes \<Rightarrow> bool" where
  "is_zero bs = (case bs of [] \<Rightarrow> True | b # rest \<Rightarrow> b = 0 \<and> rest = butlast bs)"

definition page_at :: "bytes \<Rightarrow> nat \<Rightarrow> bytes" where
  "page_at bs k = take DELTA_PAGE_SIZE (drop (k * DELTA_PAGE_SIZE) bs)"

definition page_count :: "nat \<Rightarrow> nat" where
  "page_count len = len div DELTA_PAGE_SIZE + (if len mod DELTA_PAGE_SIZE = 0 then 0 else 1)"

definition scan_byte :: "bytes \<Rightarrow> nat \<Rightarrow> u8" where
  "scan_byte sl page0 = byte_of (\<lambda>b. (page0 + b) * DELTA_PAGE_SIZE < length sl \<and> \<not> is_zero (page_at sl (page0 + b)))"

definition scan_nonzero_pages :: "bytes \<Rightarrow> bytes" where
  "scan_nonzero_pages sl =
     in_chunks (DIFF_PAGES_PER_WORKER div 8) (div_ceil (page_count (length sl)) 8)
       (\<lambda>chunk_index n. map (\<lambda>byte_index. scan_byte sl (chunk_index * DIFF_PAGES_PER_WORKER + byte_index * 8)) [0..<n])"

text \<open>A positioned write past the end leaves a hole; setting the length cuts or extends with one.\<close>

definition write_all_at :: "bytes \<Rightarrow> nat \<Rightarrow> bytes \<Rightarrow> bytes" where
  "write_all_at dat off fl = take off (fl @ replicate (off - length fl) 0) @ dat @ drop (off + length dat) fl"

definition set_file_len :: "nat \<Rightarrow> bytes \<Rightarrow> bytes" where
  "set_file_len n fl = take n fl @ replicate (n - length fl) 0"

definition run_end :: "(nat \<Rightarrow> bool) \<Rightarrow> nat \<Rightarrow> nat \<Rightarrow> nat" where
  "run_end flagged pages page = page + length (takeWhile flagged [page..<pages])"

lemma run_end_later: "page < pages \<Longrightarrow> flagged page \<Longrightarrow> page < run_end flagged pages page"
  by (simp add: run_end_def upt_conv_Cons)

function dump_runs :: "(nat \<Rightarrow> bool) \<Rightarrow> bytes \<Rightarrow> nat \<Rightarrow> nat \<Rightarrow> nat \<Rightarrow> bytes \<Rightarrow> bytes" where
  "dump_runs flagged sl logical pages page fl =
     (if pages \<le> page then fl
      else if \<not> flagged page then dump_runs flagged sl logical pages (page + 1) fl
      else let stop = run_end flagged pages page;
               byte_start = page * DELTA_PAGE_SIZE;
               byte_end = min (length sl) (stop * DELTA_PAGE_SIZE)
           in dump_runs flagged sl logical pages stop (write_all_at (take (byte_end - byte_start) (drop byte_start sl)) (logical + byte_start) fl))"
  by pat_completeness auto
termination
  by (relation "measure (\<lambda>(_, _, _, pages, page, _). pages - page)") (auto intro!: diff_less_mono2 run_end_later simp: not_le)

declare dump_runs.simps [simp del]

fun dump_regions :: "guest_memory \<Rightarrow> nat \<Rightarrow> bytes \<Rightarrow> nat \<times> bytes" where
  "dump_regions [] logical fl = (logical, fl)"
| "dump_regions ((_, sl) # mem) logical fl =
     (let nonzero = scan_nonzero_pages sl in
      dump_regions mem (logical + length sl) (dump_runs (bitmap_bit nonzero) sl logical (page_count (length sl)) 0 fl))"

definition dump_memory_file :: "guest_memory \<Rightarrow> (mem_region list \<times> bytes) snap_result" where
  "dump_memory_file mem = rbind (memory_region_table mem) (\<lambda>regions.
     case dump_regions mem 0 [] of (logical, fl) \<Rightarrow> Inr (regions, set_file_len logical fl))"

subsection \<open>It writes the whole image\<close>

lemma page_size_pos [simp]: "0 < DELTA_PAGE_SIZE"
  by (simp add: DELTA_PAGE_SIZE_def)

lemma butlast_shift: "rest = butlast (b # rest) \<longleftrightarrow> (\<forall>x\<in>set rest. x = b)"
proof (induction rest arbitrary: b)
  case (Cons c rest)
  have "butlast (b # c # rest) = b # butlast (c # rest)"
    by simp
  then show ?case
    using Cons.IH [of c] by (auto simp del: butlast.simps)
qed simp

lemma is_zero_iff: "is_zero bs \<longleftrightarrow> (\<forall>b\<in>set bs. b = 0)"
  by (cases bs) (auto simp: is_zero_def butlast_shift simp del: butlast.simps(2))

lemma scan_bit:
  assumes "i < page_count (length sl)"
  shows "bitmap_bit (scan_nonzero_pages sl) i \<longleftrightarrow> i * DELTA_PAGE_SIZE < length sl \<and> \<not> is_zero (page_at sl i)"
proof -
  have "scan_nonzero_pages sl = map (\<lambda>j. scan_byte sl (8 * j)) [0..<div_ceil (page_count (length sl)) 8]"
    unfolding scan_nonzero_pages_def by (rule in_chunks_map) (simp_all add: DIFF_PAGES_PER_WORKER_def algebra_simps)
  moreover have "i div 8 < div_ceil (page_count (length sl)) 8"
    using assms by (auto simp: div_ceil_def less_mult_imp_div_less split: if_splits)
  ultimately show ?thesis
    by (simp add: bitmap_bit_def scan_byte_def bit_byte_of)
qed

definition file_at :: "bytes \<Rightarrow> nat \<Rightarrow> u8" where
  "file_at fl i = (if i < length fl then fl ! i else 0)"

lemma file_at_write: "file_at (write_all_at dat off fl) i = (if off \<le> i \<and> i < off + length dat then dat ! (i - off) else file_at fl i)"
  by (auto simp: file_at_def write_all_at_def nth_append min_def)

lemma length_write: "length (write_all_at dat off fl) = max (off + length dat) (length fl)"
  by (auto simp: write_all_at_def)

lemma set_file_len_eq:
  assumes "length img = n" "\<And>i. i < n \<Longrightarrow> file_at fl i = img ! i"
  shows "set_file_len n fl = img"
proof (rule nth_equalityI)
  show "length (set_file_len n fl) = length img"
    using assms(1) by (simp add: set_file_len_def)
  show "set_file_len n fl ! i = img ! i" if "i < length (set_file_len n fl)" for i
    using assms(1) assms(2) [of i] that by (auto simp: set_file_len_def file_at_def nth_append)
qed

lemma run_end_flagged:
  assumes "page \<le> i" "i < run_end flagged pages page"
  shows "flagged i"
proof -
  have k: "i - page < length (takeWhile flagged [page..<pages])"
    using assms by (simp add: run_end_def)
  then have "page + (i - page) < pages"
    using length_takeWhile_le [of flagged "[page..<pages]"] by (simp add: less_diff_conv)
  then have "takeWhile flagged [page..<pages] ! (i - page) = i"
    using takeWhile_nth [OF k] assms(1) by simp
  then show ?thesis
    using set_takeWhileD [of i flagged "[page..<pages]"] nth_mem [OF k] by simp
qed

lemma run_end_bound: "page \<le> pages \<Longrightarrow> run_end flagged pages page \<le> pages"
  using length_takeWhile_le [of flagged "[page..<pages]"] by (simp add: run_end_def)

lemma page_le: "page \<le> j div DELTA_PAGE_SIZE \<longleftrightarrow> page * DELTA_PAGE_SIZE \<le> j"
  by (simp add: less_eq_div_iff_mult_less_eq)

lemma page_less: "j div DELTA_PAGE_SIZE < page \<longleftrightarrow> j < page * DELTA_PAGE_SIZE"
  by (simp add: div_less_iff_less_mult)

definition dumped :: "(nat \<Rightarrow> bool) \<Rightarrow> bytes \<Rightarrow> nat \<Rightarrow> nat \<Rightarrow> nat \<Rightarrow> nat \<Rightarrow> bool" where
  "dumped flagged sl logical lo hi i \<longleftrightarrow> logical \<le> i \<and> i - logical < length sl \<and> lo \<le> (i - logical) div DELTA_PAGE_SIZE \<and> (i - logical) div DELTA_PAGE_SIZE < hi \<and> flagged ((i - logical) div DELTA_PAGE_SIZE)"

lemma file_at_run:
  assumes "page < pages" "flagged page"
  shows "file_at (write_all_at (take (min (length sl) (run_end flagged pages page * DELTA_PAGE_SIZE) - page * DELTA_PAGE_SIZE) (drop (page * DELTA_PAGE_SIZE) sl)) (logical + page * DELTA_PAGE_SIZE) fl) i
     = (if dumped flagged sl logical page (run_end flagged pages page) i then sl ! (i - logical) else file_at fl i)"
proof -
  have "logical + page * DELTA_PAGE_SIZE \<le> i \<and> i < logical + page * DELTA_PAGE_SIZE + (min (length sl) (run_end flagged pages page * DELTA_PAGE_SIZE) - page * DELTA_PAGE_SIZE)
      \<longleftrightarrow> dumped flagged sl logical page (run_end flagged pages page) i"
    using run_end_flagged [of page "(i - logical) div DELTA_PAGE_SIZE" flagged pages] by (auto simp: dumped_def page_le page_less)
  then show ?thesis
    by (auto simp: file_at_write dumped_def)
qed

lemma file_at_dump_runs:
  "\<forall>p<pages. p * DELTA_PAGE_SIZE \<le> length sl \<Longrightarrow> file_at (dump_runs flagged sl logical pages page fl) i = (if dumped flagged sl logical page pages i then sl ! (i - logical) else file_at fl i) \<and>
   length (dump_runs flagged sl logical pages page fl) \<le> max (length fl) (logical + length sl)"
proof (induction flagged sl logical pages page fl rule: dump_runs.induct)
  case (1 flagged sl logical pages page fl)
  let ?stop = "run_end flagged pages page"
  let ?fl = "write_all_at (take (min (length sl) (?stop * DELTA_PAGE_SIZE) - page * DELTA_PAGE_SIZE) (drop (page * DELTA_PAGE_SIZE) sl)) (logical + page * DELTA_PAGE_SIZE) fl"
  consider "pages \<le> page" | "page < pages" "\<not> flagged page" | "page < pages" "flagged page"
    by linarith
  then show ?case
  proof cases
    case 1
    then have "dump_runs flagged sl logical pages page fl = fl"
      by (subst dump_runs.simps) simp
    then show ?thesis
      using 1 by (auto simp: dumped_def)
  next
    case 2
    then have "dump_runs flagged sl logical pages page fl = dump_runs flagged sl logical pages (page + 1) fl"
      by (subst dump_runs.simps) simp
    moreover have "dumped flagged sl logical (page + 1) pages i \<longleftrightarrow> dumped flagged sl logical page pages i"
      using 2 by (auto simp: dumped_def le_eq_less_or_eq Suc_le_eq)
    ultimately show ?thesis
      using "1.IH"(1) "1.prems" 2 by (simp add: not_le)
  next
    case 3
    then have step: "dump_runs flagged sl logical pages page fl = dump_runs flagged sl logical pages ?stop ?fl"
      by (subst dump_runs.simps) (simp add: Let_def)
    have split: "dumped flagged sl logical page ?stop i \<or> dumped flagged sl logical ?stop pages i \<longleftrightarrow> dumped flagged sl logical page pages i"
      using 3 run_end_bound [of page pages flagged] run_end_later [of page pages flagged] by (auto simp: dumped_def)
    have "length ?fl \<le> max (length fl) (logical + length sl)"
      using "1.prems" 3(1) by (auto simp: length_write)
    moreover have rest: "file_at (dump_runs flagged sl logical pages ?stop ?fl) i = (if dumped flagged sl logical ?stop pages i then sl ! (i - logical) else file_at ?fl i)"
        "length (dump_runs flagged sl logical pages ?stop ?fl) \<le> max (length ?fl) (logical + length sl)"
      using "1.IH"(2) [OF _ _ refl refl refl "1.prems"] 3 by (simp_all add: not_le)
    ultimately have "length (dump_runs flagged sl logical pages ?stop ?fl) \<le> max (length fl) (logical + length sl)"
      by linarith
    moreover have "file_at ?fl i = (if dumped flagged sl logical page ?stop i then sl ! (i - logical) else file_at fl i)"
      using 3 by (intro file_at_run)
    ultimately show ?thesis
      unfolding step rest(1) split [symmetric] by simp
  qed
qed

lemma page_at_nth:
  assumes "j < length bs" "j div DELTA_PAGE_SIZE = k"
  shows "bs ! j \<in> set (page_at bs k)"
proof -
  have j: "k * DELTA_PAGE_SIZE + j mod DELTA_PAGE_SIZE = j"
    using assms(2) by auto
  then have "k * DELTA_PAGE_SIZE \<le> length bs" "j mod DELTA_PAGE_SIZE < length (page_at bs k)"
    using assms(1) mod_less_divisor [OF page_size_pos, of j] by (auto simp: page_at_def simp del: mod_less_divisor)
  then have "page_at bs k ! (j mod DELTA_PAGE_SIZE) = bs ! j"
    using j by (simp add: page_at_def)
  then show ?thesis
    using \<open>j mod DELTA_PAGE_SIZE < length (page_at bs k)\<close> nth_mem by metis
qed

lemma page_count_starts: "\<forall>p<page_count len. p * DELTA_PAGE_SIZE \<le> len"
  by (auto simp: page_count_def page_le [symmetric] split: if_splits)

lemma file_at_region:
  assumes "length fl \<le> logical"
  shows "file_at (dump_runs (bitmap_bit (scan_nonzero_pages sl)) sl logical (page_count (length sl)) 0 fl) i
     = (if logical \<le> i \<and> i < logical + length sl then sl ! (i - logical) else file_at fl i)"
proof -
  let ?j = "i - logical"
  have inside: "?j div DELTA_PAGE_SIZE < page_count (length sl)" if "?j < length sl"
  proof -
    have "length sl \<le> page_count (length sl) * DELTA_PAGE_SIZE"
      using div_ceil_covers [of DELTA_PAGE_SIZE "length sl"] by (simp add: page_count_def div_ceil_def split: if_splits)
    then show ?thesis
      using that by (simp add: page_less)
  qed
  have "sl ! ?j = 0" if "?j < length sl" "\<not> bitmap_bit (scan_nonzero_pages sl) (?j div DELTA_PAGE_SIZE)"
  proof -
    have "?j div DELTA_PAGE_SIZE * DELTA_PAGE_SIZE < length sl"
      using that(1) by (meson div_times_less_eq_dividend le_less_trans)
    then have "is_zero (page_at sl (?j div DELTA_PAGE_SIZE))"
      using scan_bit [OF inside [OF that(1)]] that(2) by simp
    then show ?thesis
      using page_at_nth [OF that(1) refl] by (simp add: is_zero_iff)
  qed
  moreover have "logical \<le> i \<Longrightarrow> file_at fl i = 0" "logical \<le> i \<Longrightarrow> ?j < length sl \<longleftrightarrow> i < logical + length sl"
    using assms by (auto simp: file_at_def)
  ultimately show ?thesis
    using conjunct1 [OF file_at_dump_runs [OF page_count_starts, of "bitmap_bit (scan_nonzero_pages sl)" sl logical 0 fl i]] inside
    unfolding dumped_def by auto
qed

lemma dump_regions_image:
  assumes "length fl \<le> logical"
  shows "fst (dump_regions mem logical fl) = logical + length (concat (map snd mem)) \<and>
     file_at (snd (dump_regions mem logical fl)) i = (if logical \<le> i \<and> i < logical + length (concat (map snd mem)) then concat (map snd mem) ! (i - logical) else file_at fl i)"
  using assms
proof (induction mem arbitrary: logical fl)
  case (Cons r mem)
  obtain gpa sl where r: "r = (gpa, sl)"
    by (cases r)
  let ?fl = "dump_runs (bitmap_bit (scan_nonzero_pages sl)) sl logical (page_count (length sl)) 0 fl"
  have "length ?fl \<le> logical + length sl"
    using file_at_dump_runs [OF page_count_starts, of "bitmap_bit (scan_nonzero_pages sl)" sl logical 0 fl] Cons.prems by (simp add: max_def split: if_splits)
  from Cons.IH [OF this] show ?case
    using file_at_region [OF Cons.prems, of sl i] by (auto simp: r Let_def nth_append diff_diff_eq)
qed auto

text \<open>The sparse dump of guest memory is its image, page holes included.\<close>

lemma dump_memory_file_eq: "dump_memory_file mem = rbind (memory_region_table mem) (\<lambda>regions. Inr (regions, concat (map snd mem)))"
proof -
  have "(case dump_regions mem 0 [] of (logical, fl) \<Rightarrow> set_file_len logical fl) = concat (map snd mem)"
    using dump_regions_image [of "[]" 0 mem] by (auto intro!: set_file_len_eq split: prod.splits)
  then show ?thesis
    unfolding dump_memory_file_def by (auto split: prod.splits)
qed

section \<open>Page deltas\<close>

datatype base_view = Mapped bytes | Scratch guest_memory

record region_diff =
  rd_base :: bytes
  rd_live :: bytes
  rd_pages :: nat
  rd_first_page :: nat

fun region_diff_specs :: "base_view \<Rightarrow> guest_memory \<Rightarrow> nat \<Rightarrow> mem_region list \<Rightarrow> region_diff list snap_result" where
  "region_diff_specs base live first_page [] = Inr []"
| "region_diff_specs base live first_page (r # rs) =
     rbind (host_slice live (mr_gpa r)) (\<lambda>live_ptr.
     rbind (case base of Mapped img \<Rightarrow> Inr (drop (mr_file_offset r) img) | Scratch mem \<Rightarrow> host_slice mem (mr_gpa r)) (\<lambda>base_ptr.
     rbind (region_diff_specs base live (first_page + mr_len r div DELTA_PAGE_SIZE) rs) (\<lambda>specs.
       Inr (\<lparr>rd_base = base_ptr, rd_live = live_ptr, rd_pages = mr_len r div DELTA_PAGE_SIZE, rd_first_page = first_page\<rparr> # specs))))"

definition spec_before :: "nat \<Rightarrow> region_diff \<Rightarrow> bool" where
  "spec_before page spec \<longleftrightarrow> rd_first_page spec + rd_pages spec \<le> page"

definition advance :: "region_diff list \<Rightarrow> nat \<Rightarrow> nat \<Rightarrow> nat" where
  "advance specs page spec_index = spec_index + length (takeWhile (spec_before page) (drop spec_index specs))"

fun diff_bits :: "region_diff list \<Rightarrow> nat \<Rightarrow> nat \<Rightarrow> nat list \<Rightarrow> nat \<Rightarrow> u8 \<Rightarrow> nat \<times> u8" where
  "diff_bits specs total_pages page0 [] spec_index v = (spec_index, v)"
| "diff_bits specs total_pages page0 (b # bs) spec_index v =
     (let page = page0 + b in
      if total_pages \<le> page then (spec_index, v)
      else let idx = advance specs page spec_index in
        if length specs \<le> idx then (idx, v)
        else let spec = specs ! idx; k = page - rd_first_page spec in
          diff_bits specs total_pages page0 bs idx (if page_at (rd_base spec) k \<noteq> page_at (rd_live spec) k then v OR push_bit b 1 else v))"

fun diff_bytes :: "region_diff list \<Rightarrow> nat \<Rightarrow> nat \<Rightarrow> nat list \<Rightarrow> nat \<Rightarrow> bytes" where
  "diff_bytes specs total_pages first_page [] spec_index = []"
| "diff_bytes specs total_pages first_page (byte_index # is) spec_index =
     (case diff_bits specs total_pages (first_page + byte_index * 8) [0..<8] spec_index 0 of
        (idx, v) \<Rightarrow> v # diff_bytes specs total_pages first_page is idx)"

text \<open>\<^verbatim>\<open>partition_point\<close> is the length of the prefix that lies before the chunk.\<close>

definition diff_bitmap_chunk :: "region_diff list \<Rightarrow> nat \<Rightarrow> nat \<Rightarrow> nat \<Rightarrow> bytes" where
  "diff_bitmap_chunk specs first_page total_pages n = diff_bytes specs total_pages first_page [0..<n] (length (takeWhile (spec_before first_page) specs))"

definition write_changed_pages :: "region_diff list \<Rightarrow> bytes \<Rightarrow> bytes" where
  "write_changed_pages specs bitmap =
     concat (map (\<lambda>spec. concat (map (\<lambda>page. if bitmap_bit bitmap (rd_first_page spec + page) then page_at (rd_live spec) page else []) [0..<rd_pages spec])) specs)"

definition diff_pages_parallel :: "region_diff list \<Rightarrow> bytes \<times> bytes" where
  "diff_pages_parallel specs =
     (let total_pages = sum_list (map rd_pages specs);
          bitmap = in_chunks (DIFF_PAGES_PER_WORKER div 8) (div_ceil total_pages 8) (\<lambda>chunk_index n. diff_bitmap_chunk specs (chunk_index * DIFF_PAGES_PER_WORKER) total_pages n)
      in (bitmap, write_changed_pages specs bitmap))"

text \<open>With a dirty log: the guest's log has a bit per host page, \<open>host_dirty\<close> is the region's own bitmap of host writes.\<close>

fun dirty_loop :: "region_diff \<Rightarrow> (nat \<Rightarrow> bool) \<Rightarrow> nat list \<Rightarrow> bytes \<times> bytes \<Rightarrow> bytes \<times> bytes" where
  "dirty_loop spec flagged [] acc = acc"
| "dirty_loop spec flagged (page # pages) (bitmap, out) =
     (if \<not> flagged page then dirty_loop spec flagged pages (bitmap, out)
      else if page_at (rd_base spec) page \<noteq> page_at (rd_live spec) page
      then let g = rd_first_page spec + page in
        dirty_loop spec flagged pages (bitmap[g div 8 := bitmap ! (g div 8) OR push_bit (g mod 8) 1], out @ page_at (rd_live spec) page)
      else dirty_loop spec flagged pages (bitmap, out))"

definition page_flagged :: "nat \<Rightarrow> u64 list \<Rightarrow> (nat \<Rightarrow> bool) \<Rightarrow> nat \<Rightarrow> bool" where
  "page_flagged host_page guest_log host_dirty page =
     (let byte_offset = page * DELTA_PAGE_SIZE; host_index = byte_offset div host_page
      in bit (guest_log ! (host_index div 64)) (host_index mod 64) \<or> host_dirty byte_offset)"

fun dirty_regions :: "nat \<Rightarrow> (region_diff \<times> u64 list \<times> (nat \<Rightarrow> bool)) list \<Rightarrow> bytes \<times> bytes \<Rightarrow> (bytes \<times> bytes) snap_result" where
  "dirty_regions host_page [] acc = Inr acc"
| "dirty_regions host_page ((spec, guest_log, host_dirty) # rest) acc =
     rbind (ensure (div_ceil (div_ceil (rd_pages spec * DELTA_PAGE_SIZE) host_page) 64 \<le> length guest_log) ''guest dirty log holds too few words'') (\<lambda>_.
     dirty_regions host_page rest (dirty_loop spec (page_flagged host_page guest_log host_dirty) [0..<rd_pages spec] acc))"

definition diff_dirty_pages :: "region_diff list \<Rightarrow> (nat \<Rightarrow> bool) list \<Rightarrow> nat \<Rightarrow> u64 list list \<Rightarrow> (bytes \<times> bytes) snap_result" where
  "diff_dirty_pages specs host_dirty host_page guest_log =
     rbind (ensure (length guest_log = length specs) ''guest dirty log covers slots for memory regions'') (\<lambda>_.
     rbind (ensure (DELTA_PAGE_SIZE \<le> host_page \<and> host_page mod DELTA_PAGE_SIZE = 0) ''host page size incompatible with delta pages'') (\<lambda>_.
     dirty_regions host_page (zip specs (zip guest_log host_dirty)) (replicate (div_ceil (sum_list (map rd_pages specs)) 8) 0, [])))"

subsection \<open>Both find the changed pages\<close>

lemma advance_owner: "idx \<le> length (takeWhile (spec_before p) specs) \<Longrightarrow> advance specs p idx = length (takeWhile (spec_before p) specs)"
proof (induction specs arbitrary: idx)
  case (Cons s specs)
  then show ?case
    by (cases idx) (auto simp: advance_def split: if_splits)
qed (simp add: advance_def)

lemma owner_mono: "p \<le> q \<Longrightarrow> length (takeWhile (spec_before p) specs) \<le> length (takeWhile (spec_before q) specs)"
  by (induction specs) (auto simp: spec_before_def)

definition spec_changed :: "region_diff list \<Rightarrow> nat \<Rightarrow> nat \<Rightarrow> bool" where
  "spec_changed specs total_pages p \<longleftrightarrow> (let idx = length (takeWhile (spec_before p) specs); spec = specs ! idx; k = p - rd_first_page spec in
     p < total_pages \<and> idx < length specs \<and> page_at (rd_base spec) k \<noteq> page_at (rd_live spec) k)"

lemma diff_bits_spec:
  assumes "idx \<le> length (takeWhile (spec_before (page0 + m)) specs)" "m \<le> 8" "diff_bits specs total_pages page0 [m..<8] idx v = (idx', v')"
  shows "(bit v' b \<longleftrightarrow> bit v b \<or> m \<le> b \<and> b < 8 \<and> spec_changed specs total_pages (page0 + b)) \<and> idx' \<le> length (takeWhile (spec_before (page0 + 8)) specs)"
  using assms
proof (induction "8 - m" arbitrary: m idx v)
  case 0
  then show ?case by auto
next
  case (Suc n)
  let ?owner = "\<lambda>p. length (takeWhile (spec_before p) specs)"
  have m: "m < 8" "[m..<8] = m # [Suc m..<8]"
    using Suc.hyps(2) by (auto simp: upt_conv_Cons)
  have later: "?owner (page0 + m) \<le> ?owner (page0 + q)" if "m \<le> q" for q
    using that by (intro owner_mono) simp
  note adv = advance_owner [OF Suc.prems(1)]
  consider "total_pages \<le> page0 + m" | "page0 + m < total_pages" "length specs \<le> ?owner (page0 + m)" | "page0 + m < total_pages" "?owner (page0 + m) < length specs"
    by linarith
  then show ?case
  proof cases
    case 1
    then have "\<not> spec_changed specs total_pages (page0 + b)" if "m \<le> b" for b
      using that by (simp add: spec_changed_def Let_def)
    then show ?thesis
      using 1 Suc.prems(1,3) later [of 8] m by (auto simp: Let_def)
  next
    case 2
    then have "\<not> spec_changed specs total_pages (page0 + b)" if "m \<le> b" for b
      using later [OF that] by (simp add: spec_changed_def Let_def)
    then show ?thesis
      using 2 Suc.prems(3) later [of 8] m adv by (auto simp: Let_def)
  next
    case 3
    let ?v = "if spec_changed specs total_pages (page0 + m) then v OR push_bit m 1 else v"
    have "diff_bits specs total_pages page0 [Suc m..<8] (?owner (page0 + m)) ?v = (idx', v')"
      using Suc.prems(3) 3 m adv by (simp add: Let_def spec_changed_def)
    from Suc.hyps(1) [OF _ _ _ this] have "(bit v' b \<longleftrightarrow> bit ?v b \<or> Suc m \<le> b \<and> b < 8 \<and> spec_changed specs total_pages (page0 + b)) \<and> idx' \<le> ?owner (page0 + 8)"
      using Suc.hyps(2) m later [of "Suc m"] by simp
    moreover have "bit ?v b \<longleftrightarrow> bit v b \<or> b = m \<and> spec_changed specs total_pages (page0 + m)"
      using m(1) by (auto simp: bit_or_iff bit_simps)
    ultimately show ?thesis
      using m(1) by (auto simp: Suc_le_eq le_less)
  qed
qed

lemma diff_bytes_spec:
  "idx \<le> length (takeWhile (spec_before (first_page + m * 8)) specs) \<Longrightarrow>
     diff_bytes specs total_pages first_page [m..<n] idx = map (\<lambda>bi. byte_of (\<lambda>b. spec_changed specs total_pages (first_page + bi * 8 + b))) [m..<n]"
proof (induction "n - m" arbitrary: m idx)
  case (Suc k)
  have m: "[m..<n] = m # [Suc m..<n]"
    using Suc.hyps(2) by (simp add: upt_conv_Cons)
  obtain idx' v where d: "diff_bits specs total_pages (first_page + m * 8) [0..<8] idx 0 = (idx', v)"
    by (cases "diff_bits specs total_pages (first_page + m * 8) [0..<8] idx 0")
  have "v = byte_of (\<lambda>b. spec_changed specs total_pages (first_page + m * 8 + b))"
    by (rule bit_eqI) (use diff_bits_spec [OF _ _ d] Suc.prems in \<open>auto simp: bit_byte_of\<close>)
  moreover have "idx' \<le> length (takeWhile (spec_before (first_page + Suc m * 8)) specs)"
    using diff_bits_spec [OF _ _ d] Suc.prems by (simp add: ac_simps)
  ultimately show ?case
    using Suc.hyps(1) [of "Suc m" idx'] Suc.hyps(2) d by (simp add: m)
qed simp

lemma diff_bitmap_eq:
  "fst (diff_pages_parallel specs) = map (\<lambda>j. byte_of (\<lambda>b. spec_changed specs (sum_list (map rd_pages specs)) (8 * j + b))) [0..<div_ceil (sum_list (map rd_pages specs)) 8]"
proof -
  have "diff_bitmap_chunk specs (ci * DIFF_PAGES_PER_WORKER) t n = map (\<lambda>bi. byte_of (\<lambda>b. spec_changed specs t (8 * (ci * (DIFF_PAGES_PER_WORKER div 8) + bi) + b))) [0..<n]" for ci t n
    unfolding diff_bitmap_chunk_def by (subst diff_bytes_spec) (simp_all add: DIFF_PAGES_PER_WORKER_def algebra_simps)
  then show ?thesis
    unfolding diff_pages_parallel_def Let_def fst_conv by (intro in_chunks_map) (simp_all add: DIFF_PAGES_PER_WORKER_def)
qed

text \<open>The regions one after the other give the pages of the base image and of the live image.\<close>

fun specs_cover :: "bytes \<Rightarrow> bytes \<Rightarrow> nat \<Rightarrow> region_diff list \<Rightarrow> bool" where
  "specs_cover base live lo [] \<longleftrightarrow> True"
| "specs_cover base live lo (s # specs) \<longleftrightarrow> rd_first_page s = lo \<and>
     (\<forall>k<rd_pages s. page_at (rd_base s) k = page_at base (lo + k) \<and> page_at (rd_live s) k = page_at live (lo + k)) \<and> specs_cover base live (lo + rd_pages s) specs"

abbreviation spec_pages :: "region_diff list \<Rightarrow> nat" where
  "spec_pages specs \<equiv> sum_list (map rd_pages specs)"

lemma owner_cover:
  "specs_cover base live lo specs \<Longrightarrow> lo \<le> p \<Longrightarrow> p < lo + spec_pages specs \<Longrightarrow>
     (let idx = length (takeWhile (spec_before p) specs); spec = specs ! idx; k = p - rd_first_page spec in
      idx < length specs \<and> page_at (rd_base spec) k = page_at base p \<and> page_at (rd_live spec) k = page_at live p)"
proof (induction specs arbitrary: lo)
  case (Cons s specs)
  show ?case
  proof (cases "lo + rd_pages s \<le> p")
    case True
    then show ?thesis
      using Cons.IH [of "lo + rd_pages s"] Cons.prems by (simp add: spec_before_def Let_def)
  next
    case False
    then have "p - lo < rd_pages s" "lo + (p - lo) = p"
      using Cons.prems(2) by auto
    then show ?thesis
      using Cons.prems(1) False by (auto simp: spec_before_def Let_def)
  qed
qed simp

lemma spec_changed_cover: "specs_cover base live 0 specs \<Longrightarrow> p < spec_pages specs \<Longrightarrow> spec_changed specs (spec_pages specs) p \<longleftrightarrow> page_at base p \<noteq> page_at live p"
  using owner_cover [of base live 0 specs p] by (simp add: spec_changed_def Let_def)

definition changed_bitmap :: "(nat \<Rightarrow> bool) \<Rightarrow> nat \<Rightarrow> nat \<Rightarrow> bytes" where
  "changed_bitmap changed n total_pages = map (\<lambda>j. byte_of (\<lambda>b. 8 * j + b < n \<and> changed (8 * j + b))) [0..<div_ceil total_pages 8]"

lemma bitmap_index: "p < total_pages \<Longrightarrow> p div 8 < div_ceil total_pages 8"
  using div_ceil_covers [of 8 total_pages] by (simp add: div_less_iff_less_mult)

lemma changed_bitmap_bit: "p < total_pages \<Longrightarrow> bitmap_bit (changed_bitmap changed n total_pages) p \<longleftrightarrow> p < n \<and> changed p"
  using bitmap_index [of p total_pages] by (simp add: bitmap_bit_def changed_bitmap_def bit_byte_of)

lemma changed_bitmap_step:
  assumes "p < total_pages"
  shows "changed_bitmap changed (Suc p) total_pages
     = (if changed p then (changed_bitmap changed p total_pages)[p div 8 := changed_bitmap changed p total_pages ! (p div 8) OR push_bit (p mod 8) 1] else changed_bitmap changed p total_pages)"
proof (rule nth_equalityI)
  show "length (changed_bitmap changed (Suc p) total_pages) = length (if changed p then (changed_bitmap changed p total_pages)[p div 8 := changed_bitmap changed p total_pages ! (p div 8) OR push_bit (p mod 8) 1] else changed_bitmap changed p total_pages)"
    by (simp add: changed_bitmap_def)
next
  fix j assume "j < length (changed_bitmap changed (Suc p) total_pages)"
  then have j: "j < div_ceil total_pages 8"
    by (simp add: changed_bitmap_def)
  show "changed_bitmap changed (Suc p) total_pages ! j = (if changed p then (changed_bitmap changed p total_pages)[p div 8 := changed_bitmap changed p total_pages ! (p div 8) OR push_bit (p mod 8) 1] else changed_bitmap changed p total_pages) ! j"
  proof (rule bit_eqI)
    fix b
    have "8 * j + b < Suc p \<longleftrightarrow> 8 * j + b < p \<or> 8 * j + b = p"
      by auto
    moreover have "8 * j + b = p \<longleftrightarrow> j = p div 8 \<and> b = p mod 8" if "b < 8"
      using that by auto
    ultimately show "bit (changed_bitmap changed (Suc p) total_pages ! j) b
        = bit ((if changed p then (changed_bitmap changed p total_pages)[p div 8 := changed_bitmap changed p total_pages ! (p div 8) OR push_bit (p mod 8) 1] else changed_bitmap changed p total_pages) ! j) b"
      using j bitmap_index [OF assms] by (auto simp: changed_bitmap_def bit_byte_of nth_list_update bit_or_iff bit_simps)
  qed
qed

definition changed_pages :: "(nat \<Rightarrow> bool) \<Rightarrow> bytes \<Rightarrow> nat \<Rightarrow> bytes" where
  "changed_pages changed live n = concat (map (page_at live) (filter changed [0..<n]))"

lemma changed_pages_step: "changed_pages changed live (Suc n) = changed_pages changed live n @ (if changed n then page_at live n else [])"
  by (simp add: changed_pages_def)

lemma write_changed_eq:
  "specs_cover base live lo specs \<Longrightarrow> (\<And>p. lo \<le> p \<Longrightarrow> p < lo + spec_pages specs \<Longrightarrow> bitmap_bit bitmap p = changed p) \<Longrightarrow>
     changed_pages changed live lo @ write_changed_pages specs bitmap = changed_pages changed live (lo + spec_pages specs)"
proof (induction specs arbitrary: lo)
  case (Cons s specs)
  have "changed_pages changed live lo @ concat (map (\<lambda>page. if bitmap_bit bitmap (lo + page) then page_at (rd_live s) page else []) [0..<k]) = changed_pages changed live (lo + k)" if "k \<le> rd_pages s" for k
    using that
  proof (induction k)
    case (Suc k)
    then show ?case
      using Cons.prems by (simp add: changed_pages_step)
  qed simp
  from this [of "rd_pages s"] Cons.IH [of "lo + rd_pages s"] show ?case
    using Cons.prems by (simp add: write_changed_pages_def add.assoc flip: append_assoc)
qed (simp add: write_changed_pages_def)

lemma diff_pages_parallel_eq:
  assumes "specs_cover base live 0 specs"
  shows "diff_pages_parallel specs = (changed_bitmap (\<lambda>p. page_at base p \<noteq> page_at live p) (spec_pages specs) (spec_pages specs), changed_pages (\<lambda>p. page_at base p \<noteq> page_at live p) live (spec_pages specs))"
proof -
  let ?c = "\<lambda>p. page_at base p \<noteq> page_at live p"
  have bitmap: "fst (diff_pages_parallel specs) = changed_bitmap ?c (spec_pages specs) (spec_pages specs)"
    unfolding diff_bitmap_eq changed_bitmap_def
    by (intro map_cong refl bit_eqI) (use spec_changed_cover [OF assms] in \<open>auto simp: bit_byte_of\<close>, auto simp: spec_changed_def Let_def)
  have "snd (diff_pages_parallel specs) = write_changed_pages specs (fst (diff_pages_parallel specs))"
    by (simp add: diff_pages_parallel_def Let_def)
  also have "\<dots> = changed_pages ?c live (spec_pages specs)"
    using write_changed_eq [OF assms, of "fst (diff_pages_parallel specs)" ?c] unfolding bitmap by (simp add: changed_bitmap_bit changed_pages_def)
  finally show ?thesis
    using bitmap by (simp add: prod_eq_iff)
qed

text \<open>A log is complete when it names every page of a region that differs from the base.\<close>

definition log_complete :: "nat \<Rightarrow> region_diff \<Rightarrow> u64 list \<Rightarrow> (nat \<Rightarrow> bool) \<Rightarrow> bool" where
  "log_complete host_page spec guest_log host_dirty \<longleftrightarrow>
     (\<forall>k<rd_pages spec. page_at (rd_base spec) k \<noteq> page_at (rd_live spec) k \<longrightarrow> page_flagged host_page guest_log host_dirty k)"

lemma dirty_loop_eq:
  assumes cover: "rd_first_page spec = lo" "\<forall>k<rd_pages spec. page_at (rd_base spec) k = page_at base (lo + k) \<and> page_at (rd_live spec) k = page_at live (lo + k)"
    and flags: "\<forall>k<rd_pages spec. page_at (rd_base spec) k \<noteq> page_at (rd_live spec) k \<longrightarrow> flagged k" and room: "lo + rd_pages spec \<le> total_pages" and c: "c = (\<lambda>p. page_at base p \<noteq> page_at live p)"
  shows "k \<le> rd_pages spec \<Longrightarrow> dirty_loop spec flagged [k..<rd_pages spec] (changed_bitmap c (lo + k) total_pages, changed_pages c live (lo + k))
     = (changed_bitmap c (lo + rd_pages spec) total_pages, changed_pages c live (lo + rd_pages spec))"
proof (induction "rd_pages spec - k" arbitrary: k)
  case (Suc n)
  have k: "k < rd_pages spec" "[k..<rd_pages spec] = k # [Suc k..<rd_pages spec]"
    using Suc.hyps(2) by (auto simp: upt_conv_Cons)
  have IH: "dirty_loop spec flagged [Suc k..<rd_pages spec] (changed_bitmap c (Suc (lo + k)) total_pages, changed_pages c live (Suc (lo + k)))
      = (changed_bitmap c (lo + rd_pages spec) total_pages, changed_pages c live (lo + rd_pages spec))"
    using Suc.hyps(1) [of "Suc k"] Suc.hyps(2) k(1) by simp
  have step: "changed_bitmap c (Suc (lo + k)) total_pages = (if c (lo + k) then (changed_bitmap c (lo + k) total_pages)[(lo + k) div 8 := changed_bitmap c (lo + k) total_pages ! ((lo + k) div 8) OR push_bit ((lo + k) mod 8) 1] else changed_bitmap c (lo + k) total_pages)"
    using room k(1) by (intro changed_bitmap_step) simp
  have page: "page_at (rd_base spec) k \<noteq> page_at (rd_live spec) k \<longleftrightarrow> c (lo + k)" "page_at (rd_live spec) k = page_at live (lo + k)" "c (lo + k) \<Longrightarrow> flagged k"
    using cover(2) flags k(1) c by auto
  show ?case
  proof (cases "c (lo + k)")
    case True
    then show ?thesis
      using IH step page cover(1) by (simp add: k(2) Let_def changed_pages_step)
  next
    case False
    then show ?thesis
      using IH step page by (simp add: k(2) changed_pages_step)
  qed
qed simp

lemma dirty_regions_eq:
  assumes "specs_cover base live lo specs" "lo + spec_pages specs \<le> total_pages" "c = (\<lambda>p. page_at base p \<noteq> page_at live p)"
    and "length guest_log = length specs" "length host_dirty = length specs" "\<forall>i<length specs. log_complete host_page (specs ! i) (guest_log ! i) (host_dirty ! i)"
    and "dirty_regions host_page (zip specs (zip guest_log host_dirty)) (changed_bitmap c lo total_pages, changed_pages c live lo) = Inr acc"
  shows "acc = (changed_bitmap c (lo + spec_pages specs) total_pages, changed_pages c live (lo + spec_pages specs))"
  using assms
proof (induction specs arbitrary: lo guest_log host_dirty)
  case (Cons s specs)
  obtain g gs h hs where lists: "guest_log = g # gs" "host_dirty = h # hs"
    using Cons.prems(4,5) by (metis length_Suc_conv)
  have log: "log_complete host_page s g h" and logs: "\<forall>i<length specs. log_complete host_page (specs ! i) (gs ! i) (hs ! i)"
    using Cons.prems(6) lists by (auto dest: spec [of _ 0] spec [of _ "Suc _"])
  have one: "dirty_loop s (page_flagged host_page g h) [0..<rd_pages s] (changed_bitmap c lo total_pages, changed_pages c live lo)
      = (changed_bitmap c (lo + rd_pages s) total_pages, changed_pages c live (lo + rd_pages s))"
    using dirty_loop_eq [of s lo base live "page_flagged host_page g h" total_pages c 0] Cons.prems(1-3) log by (simp add: log_complete_def)
  have "dirty_regions host_page (zip specs (zip gs hs)) (changed_bitmap c (lo + rd_pages s) total_pages, changed_pages c live (lo + rd_pages s)) = Inr acc"
    using Cons.prems(7) lists one by simp
  then show ?case
    using Cons.IH [of "lo + rd_pages s" gs hs] Cons.prems(1-5) logs lists by (simp add: add.assoc)
qed simp

lemma changed_bitmap_0: "changed_bitmap c 0 n = replicate (div_ceil n 8) 0"
  by (rule nth_equalityI) (auto simp: changed_bitmap_def bit_byte_of intro!: bit_eqI)

text \<open>With a complete log the short way writes the same delta as the comparison of every page.\<close>

lemma diff_dirty_pages_eq:
  assumes "specs_cover base live 0 specs" "length host_dirty = length specs" "\<forall>i<length specs. log_complete host_page (specs ! i) (guest_log ! i) (host_dirty ! i)"
    and "diff_dirty_pages specs host_dirty host_page guest_log = Inr r"
  shows "r = diff_pages_parallel specs"
proof -
  let ?c = "\<lambda>p. page_at base p \<noteq> page_at live p"
  have "dirty_regions host_page (zip specs (zip guest_log host_dirty)) (changed_bitmap ?c 0 (spec_pages specs), changed_pages ?c live 0) = Inr r" "length guest_log = length specs"
    using assms(4) by (auto simp: diff_dirty_pages_def changed_bitmap_0 changed_pages_def)
  then show ?thesis
    using dirty_regions_eq [OF assms(1) _ refl _ assms(2,3)] diff_pages_parallel_eq [OF assms(1)] by simp
qed

section \<open>Applying a delta\<close>

fun page_index_to_gpa :: "nat \<Rightarrow> mem_region list \<Rightarrow> nat snap_result" where
  "page_index_to_gpa page [] = Inl ''delta page index is outside region table''"
| "page_index_to_gpa page (r # rs) = (case checked_add_u64 (mr_file_offset r) (mr_len r) of
     None \<Rightarrow> Inl ''snapshot memory region file offset overflows''
   | Some e \<Rightarrow>
       if mr_file_offset r \<le> page * DELTA_PAGE_SIZE \<and> page * DELTA_PAGE_SIZE < e
       then (case checked_add_u64 (mr_gpa r) (page * DELTA_PAGE_SIZE - mr_file_offset r) of None \<Rightarrow> Inl ''delta page index guest address overflows'' | Some gpa \<Rightarrow> Inr gpa)
       else page_index_to_gpa page rs)"

text \<open>\<^verbatim>\<open>page * 4096\<close> is a checked product as well; a page index is below the page count of a memory, whose size is a 64-bit number.\<close>

definition read_file_at :: "bytes \<Rightarrow> nat \<Rightarrow> nat \<Rightarrow> bytes snap_result" where
  "read_file_at fl off n = (if off + n \<le> length fl then Inr (take n (drop off fl)) else Inl ''failed to fill whole buffer'')"

fun apply_loop :: "bytes \<Rightarrow> bytes \<Rightarrow> mem_region list \<Rightarrow> nat list \<Rightarrow> nat \<Rightarrow> guest_memory \<Rightarrow> guest_memory snap_result" where
  "apply_loop fl changed regions [] file_offset mem = Inr mem"
| "apply_loop fl changed regions (page # pages) file_offset mem =
     (if \<not> bitmap_bit changed page then apply_loop fl changed regions pages file_offset mem
      else rbind (page_index_to_gpa page regions) (\<lambda>gpa.
        rbind (host_slice mem gpa) (\<lambda>_.
        rbind (read_file_at fl file_offset DELTA_PAGE_SIZE) (\<lambda>dat.
        rbind (host_write mem gpa dat) (\<lambda>mem'.
        case checked_add_u64 file_offset DELTA_PAGE_SIZE of
          None \<Rightarrow> Inl ''delta memory file offset overflows''
        | Some next \<Rightarrow> apply_loop fl changed regions pages next mem')))))"

definition apply_delta_pages :: "bytes \<Rightarrow> guest_memory \<Rightarrow> delta_memory \<Rightarrow> mem_region list \<Rightarrow> guest_memory snap_result" where
  "apply_delta_pages fl mem d regions =
     rbind (ensure_guest_memory_layout mem regions) (\<lambda>_.
     rbind (regions_total_len regions) (\<lambda>total_ram.
     rbind (validate_delta_memory d total_ram (length fl)) (\<lambda>_.
     apply_loop fl (dm_changed d) regions [0..<total_ram div DELTA_PAGE_SIZE] 0 mem)))"

end
