(* ===== verification/SnapshotChain.thy ===== *)
theory SnapshotChain
  imports SnapshotMem
begin

text \<open>
  Snapshots in directories and the reconstruction of guest memory from a chain of deltas, \<^verbatim>\<open>vmm/src/snapshot/mod.rs\<close>. A store maps the name of a snapshot directory to the state and the memory file of its published generation; a base is
  another name in the same parent directory. The state is kept as a value: its encoding by the \<^verbatim>\<open>postcard\<close> crate and the limit on the encoded size (\<^verbatim>\<open>MAX_STATE_BYTES\<close>) are not modelled.
\<close>

section \<open>Images and pages\<close>

definition image_of :: "guest_memory \<Rightarrow> bytes" where
  "image_of mem = concat (map snd mem)"

definition shape :: "guest_memory \<Rightarrow> (nat \<times> nat) list" where
  "shape mem = map (\<lambda>(s, bs). (s, length bs)) mem"

text \<open>What \<^verbatim>\<open>GuestMemoryMmap\<close> guarantees of its regions: they are sorted, do not overlap and end within the address space.\<close>

definition shape_ok :: "(nat \<times> nat) list \<Rightarrow> bool" where
  "shape_ok sh \<longleftrightarrow> sorted_wrt (\<lambda>x y. fst x + snd x \<le> fst y) sh \<and> list_all (\<lambda>x. fst x + snd x \<le> u64_max) sh"

lemma image_of_simps [simp]: "image_of [] = []" "image_of ((s, bs) # mem) = bs @ image_of mem"
  by (simp_all add: image_of_def)

lemma shape_simps [simp]: "shape [] = []" "shape ((s, bs) # mem) = (s, length bs) # shape mem"
  by (simp_all add: shape_def)

lemma length_shape [simp]: "length (shape mem) = length mem"
  by (simp add: shape_def)

lemma length_image: "length (image_of m) = sum_list (map snd (shape m))"
  by (induction m) (auto simp: image_of_def shape_def)

lemma shape_length_image: "shape m = shape m' \<Longrightarrow> length (image_of m) = length (image_of m')"
  by (simp add: length_image)

lemma shape_image_eq: "shape m = shape m' \<Longrightarrow> image_of m = image_of m' \<Longrightarrow> m = m'"
proof (induction m arbitrary: m')
  case Nil
  then show ?case by (simp add: shape_def)
next
  case (Cons r m)
  obtain s bs where r: "r = (s, bs)"
    by (cases r)
  obtain bs' m'' where "m' = (s, bs') # m''" "length bs' = length bs" "shape m = shape m''"
    using Cons.prems(1) r by (cases m') auto
  then show ?case
    using Cons.IH [of m''] Cons.prems(2) r by simp
qed

lemma shape_table: "shape m = shape m' \<Longrightarrow> region_table_from off m = region_table_from off m'"
proof (induction m arbitrary: m' off)
  case (Cons r m)
  obtain s bs where r: "r = (s, bs)"
    by (cases r)
  obtain bs' m'' where m': "m' = (s, bs') # m''" "length bs' = length bs" "shape m = shape m''"
    using Cons.prems r by (cases m') auto
  moreover have "bs = [] \<longleftrightarrow> bs' = []"
    using m'(2) by auto
  ultimately show ?case
    using Cons.IH [of m''] by (simp add: r split: option.split)
qed (simp add: shape_def)

lemma table_step:
  "region_table_from off ((s, bs) # mem) = Inr rs \<longleftrightarrow> s mod DELTA_PAGE_SIZE = 0 \<and> bs \<noteq> [] \<and> length bs mod DELTA_PAGE_SIZE = 0 \<and> off + length bs \<le> u64_max \<and>
     (\<exists>rs'. region_table_from (off + length bs) mem = Inr rs' \<and> rs = \<lparr>mr_gpa = s, mr_len = length bs, mr_file_offset = off\<rparr> # rs')"
  by (auto simp: checked_add_u64_def rbind_eq_Inr)

lemma table_shape: "region_table_from off m = Inr rs \<Longrightarrow> shape m = map (\<lambda>r. (mr_gpa r, mr_len r)) rs"
proof (induction m arbitrary: off rs)
  case (Cons r m)
  then show ?case by (cases r) (auto simp: table_step simp del: region_table_from.simps)
qed simp

lemma table_bound: "region_table_from off m = Inr rs \<Longrightarrow> off \<le> u64_max \<Longrightarrow> off + length (image_of m) \<le> u64_max \<and> length (image_of m) mod DELTA_PAGE_SIZE = 0 \<and> sum_list (map mr_len rs) = length (image_of m)"
proof (induction m arbitrary: off rs)
  case (Cons r m)
  obtain s bs where r: "r = (s, bs)"
    by (cases r)
  obtain rs' where rs': "region_table_from (off + length bs) m = Inr rs'" "length bs mod DELTA_PAGE_SIZE = 0" "off + length bs \<le> u64_max" "rs = \<lparr>mr_gpa = s, mr_len = length bs, mr_file_offset = off\<rparr> # rs'"
    using Cons.prems(1) unfolding r table_step by auto
  from Cons.IH [OF rs'(1,3)] show ?case
    using rs' by (auto simp: r mod_add_eq [symmetric, of "length bs"])
qed simp

lemma table_region:
  assumes "region_table_from off m = Inr rs" "off mod DELTA_PAGE_SIZE = 0" "r \<in> set rs"
  shows "\<exists>pre bs post. (mr_gpa r, bs) \<in> set m \<and> mr_len r = length bs \<and> bs \<noteq> [] \<and> image_of m = pre @ bs @ post \<and> mr_file_offset r = off + length pre \<and> length pre mod DELTA_PAGE_SIZE = 0 \<and> length bs mod DELTA_PAGE_SIZE = 0"
  using assms
proof (induction m arbitrary: off rs)
  case (Cons x m)
  obtain s b where x: "x = (s, b)"
    by (cases x)
  obtain rs' where rs': "region_table_from (off + length b) m = Inr rs'" "length b mod DELTA_PAGE_SIZE = 0" "b \<noteq> []" "rs = \<lparr>mr_gpa = s, mr_len = length b, mr_file_offset = off\<rparr> # rs'"
    using Cons.prems(1) unfolding x table_step by auto
  show ?case
  proof (cases "r \<in> set rs'")
    case True
    have "(off + length b) mod DELTA_PAGE_SIZE = 0"
      using Cons.prems(2) rs'(2) by (auto simp: mod_eq_0_iff_dvd)
    from Cons.IH [OF rs'(1) this True] obtain pre bs post where
        p: "(mr_gpa r, bs) \<in> set m" "mr_len r = length bs" "bs \<noteq> []" "image_of m = pre @ bs @ post" "mr_file_offset r = off + length b + length pre" "length pre mod DELTA_PAGE_SIZE = 0" "length bs mod DELTA_PAGE_SIZE = 0"
      by auto
    have "length (b @ pre) mod DELTA_PAGE_SIZE = 0"
      using p(6) rs'(2) by (auto simp: mod_eq_0_iff_dvd)
    then show ?thesis
      using p x by (intro exI [of _ "b @ pre"] exI [of _ bs] exI [of _ post]) simp
  next
    case False
    then have r: "r = \<lparr>mr_gpa = s, mr_len = length b, mr_file_offset = off\<rparr>"
      using Cons.prems(3) rs'(4) by simp
    then show ?thesis
      using rs' x by (intro exI [of _ "[]"] exI [of _ b] exI [of _ "image_of m"]) simp
  qed
qed simp

lemma shape_ok_Cons: "shape_ok ((s, l) # sh) \<longleftrightarrow> s + l \<le> u64_max \<and> (\<forall>x\<in>set sh. s + l \<le> fst x) \<and> shape_ok sh"
  by (auto simp: shape_ok_def)

lemma host_slice_start: "shape_ok (shape m) \<Longrightarrow> (s, bs) \<in> set m \<Longrightarrow> bs \<noteq> [] \<Longrightarrow> host_slice m s = Inr bs"
proof (induction m)
  case (Cons x m)
  obtain s' bs' where x: "x = (s', bs')"
    by (cases x)
  show ?case
  proof (cases "(s, bs) = x")
    case True
    then show ?thesis using Cons.prems(3) x by auto
  next
    case False
    then have "(s, bs) \<in> set m"
      using Cons.prems(2) by auto
    moreover from this have "s' + length bs' \<le> s"
      using Cons.prems(1) x by (force simp: shape_ok_Cons shape_def)
    ultimately show ?thesis
      using Cons x by (simp add: shape_ok_Cons)
  qed
qed simp

lemma page_at_middle:
  assumes "length pre mod DELTA_PAGE_SIZE = 0" "k < length bs div DELTA_PAGE_SIZE"
  shows "page_at (pre @ bs @ post) (length pre div DELTA_PAGE_SIZE + k) = page_at bs k"
proof -
  have "(length pre div DELTA_PAGE_SIZE + k) * DELTA_PAGE_SIZE = length pre + k * DELTA_PAGE_SIZE"
    using assms(1) by (auto simp: add_mult_distrib)
  moreover have "Suc k * DELTA_PAGE_SIZE \<le> length bs"
    using assms(2) by (metis Suc_leI page_le)
  ultimately show ?thesis
    by (simp add: page_at_def)
qed

text \<open>The pages behind a host pointer to the start of a region are the pages of the image from the region's file offset on.\<close>

lemma host_slice_pages:
  assumes "memory_region_table m = Inr rs" "shape_ok (shape m)" "r \<in> set rs" "host_slice m (mr_gpa r) = Inr ptr" "k < mr_len r div DELTA_PAGE_SIZE"
  shows "page_at ptr k = page_at (image_of m) (mr_file_offset r div DELTA_PAGE_SIZE + k)"
proof -
  have "region_table_from 0 m = Inr rs"
    using assms(1) by (auto simp: memory_region_table_def rbind_eq_Inr)
  from table_region [OF this _ assms(3)] obtain pre bs post where
      p: "(mr_gpa r, bs) \<in> set m" "mr_len r = length bs" "bs \<noteq> []" "image_of m = pre @ bs @ post" "mr_file_offset r = length pre" "length pre mod DELTA_PAGE_SIZE = 0"
    by auto
  then show ?thesis
    using host_slice_start [OF assms(2) p(1,3)] assms(4,5) page_at_middle [OF p(6), of k bs post] by simp
qed

definition base_pages :: "base_view \<Rightarrow> mem_region list \<Rightarrow> bytes \<Rightarrow> bool" where
  "base_pages base rs img \<longleftrightarrow> (case base of
     Mapped f \<Rightarrow> f = img
   | Scratch m \<Rightarrow> memory_region_table m = Inr rs \<and> shape_ok (shape m) \<and> image_of m = img)"

lemma table_offsets: "region_table_from off m = Inr rs \<Longrightarrow> off mod DELTA_PAGE_SIZE = 0 \<Longrightarrow> r \<in> set rs \<Longrightarrow> mr_file_offset r mod DELTA_PAGE_SIZE = 0"
  by (drule (2) table_region) (auto simp: mod_eq_0_iff_dvd)

lemma specs_from_regions:
  assumes "\<And>r ptr k. r \<in> set rs \<Longrightarrow> host_slice live (mr_gpa r) = Inr ptr \<Longrightarrow> k < mr_len r div DELTA_PAGE_SIZE \<Longrightarrow> page_at ptr k = page_at limg (mr_file_offset r div DELTA_PAGE_SIZE + k)"
    and "\<And>r ptr k. r \<in> set rs \<Longrightarrow> (case base of Mapped img \<Rightarrow> Inr (drop (mr_file_offset r) img) | Scratch mem \<Rightarrow> host_slice mem (mr_gpa r)) = Inr ptr \<Longrightarrow> k < mr_len r div DELTA_PAGE_SIZE \<Longrightarrow>
      page_at ptr k = page_at bimg (mr_file_offset r div DELTA_PAGE_SIZE + k)"
    and "region_table_from off m = Inr rs" "off mod DELTA_PAGE_SIZE = 0" "region_diff_specs base live (off div DELTA_PAGE_SIZE) rs = Inr specs"
  shows "specs_cover bimg limg (off div DELTA_PAGE_SIZE) specs \<and> spec_pages specs = length (image_of m) div DELTA_PAGE_SIZE \<and> length specs = length rs"
  using assms
proof (induction rs arbitrary: off m specs)
  case Nil
  then show ?case
    by (cases m) (auto simp: table_step simp del: region_table_from.simps)
next
  case (Cons r rs)
  obtain s bs m' where m: "m = (s, bs) # m'"
    using Cons.prems(3) by (cases m) auto
  have t: "length bs mod DELTA_PAGE_SIZE = 0" "region_table_from (off + length bs) m' = Inr rs" "r = \<lparr>mr_gpa = s, mr_len = length bs, mr_file_offset = off\<rparr>"
    using Cons.prems(3) unfolding m table_step by auto
  have off': "(off + length bs) mod DELTA_PAGE_SIZE = 0" "(off + length bs) div DELTA_PAGE_SIZE = off div DELTA_PAGE_SIZE + length bs div DELTA_PAGE_SIZE"
    using Cons.prems(4) t(1) by (auto simp: mod_eq_0_iff_dvd)
  obtain live_ptr base_ptr specs' where d: "host_slice live (mr_gpa r) = Inr live_ptr"
      "(case base of Mapped img \<Rightarrow> Inr (drop (mr_file_offset r) img) | Scratch mem \<Rightarrow> host_slice mem (mr_gpa r)) = Inr base_ptr"
      "region_diff_specs base live ((off + length bs) div DELTA_PAGE_SIZE) rs = Inr specs'"
      "specs = \<lparr>rd_base = base_ptr, rd_live = live_ptr, rd_pages = length bs div DELTA_PAGE_SIZE, rd_first_page = off div DELTA_PAGE_SIZE\<rparr> # specs'"
    using Cons.prems(5) t(3) off'(2) by (auto simp: rbind_eq_Inr)
  have "specs_cover bimg limg ((off + length bs) div DELTA_PAGE_SIZE) specs' \<and> spec_pages specs' = length (image_of m') div DELTA_PAGE_SIZE \<and> length specs' = length rs"
    using Cons.IH [OF _ _ t(2) off'(1) d(3)] Cons.prems(1,2) by simp
  moreover have "page_at live_ptr k = page_at limg (off div DELTA_PAGE_SIZE + k)" "page_at base_ptr k = page_at bimg (off div DELTA_PAGE_SIZE + k)" if "k < length bs div DELTA_PAGE_SIZE" for k
    using Cons.prems(1) [OF _ d(1)] Cons.prems(2) [OF _ d(2)] that t(3) by simp_all
  moreover have "length (image_of m) div DELTA_PAGE_SIZE = length bs div DELTA_PAGE_SIZE + length (image_of m') div DELTA_PAGE_SIZE"
    using t(1) m by (auto simp: mod_eq_0_iff_dvd)
  ultimately show ?case
    using d(4) off'(2) by simp
qed

lemma page_at_drop: "off mod DELTA_PAGE_SIZE = 0 \<Longrightarrow> page_at (drop off img) k = page_at img (off div DELTA_PAGE_SIZE + k)"
  by (auto simp: page_at_def add_mult_distrib add.commute)

lemma region_specs_cover:
  assumes table: "memory_region_table live = Inr rs" and ok: "shape_ok (shape live)" and base: "base_pages base rs bimg" and specs: "region_diff_specs base live 0 rs = Inr specs"
  shows "specs_cover bimg (image_of live) 0 specs" "spec_pages specs = length (image_of live) div DELTA_PAGE_SIZE" "length specs = length rs"
proof -
  have from0: "region_table_from 0 live = Inr rs"
    using table by (auto simp: memory_region_table_def rbind_eq_Inr)
  have "page_at ptr k = page_at bimg (mr_file_offset r div DELTA_PAGE_SIZE + k)"
    if "r \<in> set rs" "(case base of Mapped img \<Rightarrow> Inr (drop (mr_file_offset r) img) | Scratch mem \<Rightarrow> host_slice mem (mr_gpa r)) = Inr ptr" "k < mr_len r div DELTA_PAGE_SIZE" for r ptr k
  proof (cases base)
    case (Mapped f)
    then show ?thesis
      using that base table_offsets [OF from0 _ that(1)] page_at_drop [of "mr_file_offset r" f k] by (simp add: base_pages_def)
  next
    case (Scratch m)
    then show ?thesis
      using that base host_slice_pages [of m rs r ptr k] by (simp add: base_pages_def)
  qed
  then have "specs_cover bimg (image_of live) (0 div DELTA_PAGE_SIZE) specs \<and> spec_pages specs = length (image_of live) div DELTA_PAGE_SIZE \<and> length specs = length rs"
    using specs by (intro specs_from_regions [OF _ _ from0, of live "image_of live" base bimg specs] host_slice_pages [OF table ok]) simp_all
  then show "specs_cover bimg (image_of live) 0 specs" "spec_pages specs = length (image_of live) div DELTA_PAGE_SIZE" "length specs = length rs"
    by simp_all
qed

section \<open>Writing pages back\<close>

lemma page_location:
  "region_table_from off m = Inr rs \<Longrightarrow> shape_ok (shape m) \<Longrightarrow> off \<le> p * DELTA_PAGE_SIZE \<Longrightarrow> p * DELTA_PAGE_SIZE < off + length (image_of m) \<Longrightarrow> off mod DELTA_PAGE_SIZE = 0 \<Longrightarrow>
     \<exists>pre s bs post k. m = pre @ (s, bs) # post \<and> page_index_to_gpa p rs = Inr (s + k) \<and> p * DELTA_PAGE_SIZE = off + length (image_of pre) + k \<and> k + DELTA_PAGE_SIZE \<le> length bs"
proof (induction m arbitrary: off rs)
  case (Cons x m)
  obtain s bs where x: "x = (s, bs)"
    by (cases x)
  obtain rs' where t: "region_table_from (off + length bs) m = Inr rs'" "length bs mod DELTA_PAGE_SIZE = 0" "off + length bs \<le> u64_max" "rs = \<lparr>mr_gpa = s, mr_len = length bs, mr_file_offset = off\<rparr> # rs'"
    using Cons.prems(1) unfolding x table_step by auto
  show ?case
  proof (cases "p * DELTA_PAGE_SIZE < off + length bs")
    case True
    let ?k = "p * DELTA_PAGE_SIZE - off"
    have "?k < length bs" "?k mod DELTA_PAGE_SIZE = 0"
      using True Cons.prems(3,5) by (auto simp: mod_eq_0_iff_dvd)
    then have "?k + DELTA_PAGE_SIZE \<le> length bs"
      using t(2) by (auto simp: mod_eq_0_iff_dvd elim!: dvdE) (metis Suc_leI add.commute mult.commute mult_Suc mult_le_mono1 mult_less_cancel2)
    moreover have "s + ?k \<le> u64_max"
      using Cons.prems(2) \<open>?k < length bs\<close> x by (simp add: shape_ok_Cons)
    ultimately show ?thesis
      using True Cons.prems(3) t x by (intro exI [of _ "[]"] exI [of _ s] exI [of _ bs] exI [of _ m] exI [of _ ?k]) (simp add: checked_add_u64_def)
  next
    case False
    have "\<exists>pre s bs' post k. m = pre @ (s, bs') # post \<and> page_index_to_gpa p rs' = Inr (s + k) \<and> p * DELTA_PAGE_SIZE = off + length bs + length (image_of pre) + k \<and> k + DELTA_PAGE_SIZE \<le> length bs'"
      using Cons.IH [OF t(1)] Cons.prems(2-5) False t(2) x by (auto simp: shape_ok_Cons mod_eq_0_iff_dvd)
    then obtain pre s' bs' post k where l: "m = pre @ (s', bs') # post" "page_index_to_gpa p rs' = Inr (s' + k)" "p * DELTA_PAGE_SIZE = off + length bs + length (image_of pre) + k" "k + DELTA_PAGE_SIZE \<le> length bs'"
      by blast
    then show ?thesis
      using False t x by (intro exI [of _ "x # pre"] exI [of _ s'] exI [of _ bs'] exI [of _ post] exI [of _ k]) (simp add: checked_add_u64_def)
  qed
qed simp

lemma shape_before: "shape_ok (shape (x # pre @ (s, bs) # post)) \<Longrightarrow> fst x + length (snd x) \<le> s"
  by (cases x) (simp add: shape_ok_Cons shape_def)

lemma host_slice_at: "shape_ok (shape (pre @ (s, bs) # post)) \<Longrightarrow> k < length bs \<Longrightarrow> host_slice (pre @ (s, bs) # post) (s + k) = Inr (drop k bs)"
proof (induction pre)
  case (Cons x pre)
  then show ?case
    using shape_before [of x pre s bs post] by (cases x) (simp add: shape_ok_Cons)
qed simp

lemma host_write_at:
  "shape_ok (shape (pre @ (s, bs) # post)) \<Longrightarrow> k < length bs \<Longrightarrow> host_write (pre @ (s, bs) # post) (s + k) dat = Inr (pre @ (s, take k bs @ dat @ drop (k + length dat) bs) # post)"
proof (induction pre)
  case (Cons x pre)
  then show ?case
    using shape_before [of x pre s bs post] by (cases x) (simp add: shape_ok_Cons)
qed simp

text \<open>One page of a delta: the page of the image is replaced and the shape stays.\<close>

definition set_page :: "bytes \<Rightarrow> nat \<Rightarrow> bytes \<Rightarrow> bytes" where
  "set_page img p dat = take (p * DELTA_PAGE_SIZE) img @ dat @ drop (p * DELTA_PAGE_SIZE + length dat) img"

lemma image_of_append [simp]: "image_of (m @ m') = image_of m @ image_of m'"
  by (simp add: image_of_def)

lemma shape_append [simp]: "shape (m @ m') = shape m @ shape m'"
  by (simp add: shape_def)

lemma write_page:
  assumes "region_table_from 0 m = Inr rs" "shape_ok (shape m)" "p < length (image_of m) div DELTA_PAGE_SIZE" "length dat = DELTA_PAGE_SIZE"
  shows "\<exists>gpa ptr m'. page_index_to_gpa p rs = Inr gpa \<and> host_slice m gpa = Inr ptr \<and> host_write m gpa dat = Inr m' \<and> shape m' = shape m \<and> image_of m' = set_page (image_of m) p dat"
proof -
  have "p * DELTA_PAGE_SIZE < length (image_of m)"
    using assms(3) by (metis Suc_leI page_le less_le_trans mult_Suc less_add_same_cancel2 page_size_pos)
  then have "\<exists>pre s bs post k. m = pre @ (s, bs) # post \<and> page_index_to_gpa p rs = Inr (s + k) \<and> p * DELTA_PAGE_SIZE = length (image_of pre) + k \<and> k + DELTA_PAGE_SIZE \<le> length bs"
    using page_location [OF assms(1,2), of p] by simp
  then obtain pre s bs post k where
      l: "m = pre @ (s, bs) # post" "page_index_to_gpa p rs = Inr (s + k)" "p * DELTA_PAGE_SIZE = length (image_of pre) + k" "k + DELTA_PAGE_SIZE \<le> length bs"
    by blast
  have "k < length bs"
    using l(4) page_size_pos by linarith
  then show ?thesis
    using l assms(2,4) host_slice_at [of pre s bs post k] host_write_at [of pre s bs post k dat] by (simp add: set_page_def min_def)
qed

lemma take_drop_prefix:
  assumes "b + n \<le> c" "c \<le> length xs"
  shows "take n (drop b (take c xs @ ys)) = take n (drop b xs)"
proof -
  have "n \<le> c - b" "b \<le> c"
    using assms(1) by auto
  then show ?thesis
    using assms(2) by (simp add: drop_take min_absorb1)
qed

lemma page_at_set_page:
  assumes "p < length img div DELTA_PAGE_SIZE" "length dat = DELTA_PAGE_SIZE"
  shows "page_at (set_page img p dat) q = (if q = p then dat else page_at img q)"
proof -
  have p: "Suc p * DELTA_PAGE_SIZE \<le> length img"
    using assms(1) by (metis Suc_leI page_le)
  consider "q = p" | "Suc q \<le> p" | "Suc p \<le> q"
    by linarith
  then show ?thesis
  proof cases
    case 1
    then show ?thesis
      using p assms(2) by (simp add: page_at_def set_page_def)
  next
    case 2
    then have "Suc q * DELTA_PAGE_SIZE \<le> p * DELTA_PAGE_SIZE"
      by (rule mult_le_mono1)
    then show ?thesis
      using 2 p assms(2) take_drop_prefix [of "q * DELTA_PAGE_SIZE" DELTA_PAGE_SIZE "p * DELTA_PAGE_SIZE" img] by (simp add: page_at_def set_page_def)
  next
    case 3
    then have "Suc p * DELTA_PAGE_SIZE \<le> q * DELTA_PAGE_SIZE"
      by (rule mult_le_mono1)
    then have "drop (q * DELTA_PAGE_SIZE) (set_page img p dat) = drop (q * DELTA_PAGE_SIZE) img"
      using 3 p assms(2) by (simp add: set_page_def)
    then show ?thesis
      using 3 by (simp add: page_at_def)
  qed
qed

lemma length_set_page: "p < length img div DELTA_PAGE_SIZE \<Longrightarrow> length dat = DELTA_PAGE_SIZE \<Longrightarrow> length (set_page img p dat) = length img"
  using page_le [of "Suc p" "length img"] by (simp add: set_page_def Suc_le_eq)

lemma pages_eq:
  assumes "length xs = length ys" "length xs mod DELTA_PAGE_SIZE = 0" "\<And>p. p < length xs div DELTA_PAGE_SIZE \<Longrightarrow> page_at xs p = page_at ys p"
  shows "xs = ys"
proof (rule nth_equalityI)
  fix i assume i: "i < length xs"
  let ?p = "i div DELTA_PAGE_SIZE"
  have split: "?p * DELTA_PAGE_SIZE + i mod DELTA_PAGE_SIZE = i"
    by simp
  have "page_at zs ?p ! (i mod DELTA_PAGE_SIZE) = zs ! i" if "length zs = length xs" for zs
  proof -
    have "?p * DELTA_PAGE_SIZE \<le> length zs"
      using i that div_times_less_eq_dividend [of i DELTA_PAGE_SIZE] by linarith
    then show ?thesis
      using split by (simp add: page_at_def)
  qed
  then have "xs ! i = page_at xs ?p ! (i mod DELTA_PAGE_SIZE)" "ys ! i = page_at ys ?p ! (i mod DELTA_PAGE_SIZE)"
    using assms(1) by simp_all
  moreover have "?p < length xs div DELTA_PAGE_SIZE"
    using i assms(2) by (auto simp: page_less mod_eq_0_iff_dvd)
  ultimately show "xs ! i = ys ! i"
    using assms(3) by simp
qed (rule assms(1))

lemma changed_pages_split:
  assumes "n < total_pages"
  shows "\<exists>rest. changed_pages c live total_pages = changed_pages c live n @ (if c n then page_at live n else []) @ rest"
proof -
  have "[0..<total_pages] = [0..<n] @ n # [Suc n..<total_pages]"
    using assms by (metis add.left_neutral le_add_diff_inverse less_imp_le_nat upt_add_eq_append upt_conv_Cons zero_le)
  then show ?thesis
    by (auto simp: changed_pages_def)
qed

lemma page_full: "p < length img div DELTA_PAGE_SIZE \<Longrightarrow> length (page_at img p) = DELTA_PAGE_SIZE"
  using page_le [of "Suc p" "length img"] by (simp add: page_at_def Suc_le_eq)

lemma apply_loop_pages:
  assumes "region_table_from 0 m = Inr rs" "shape_ok (shape m)" "length live = length (image_of m)" "total_pages = length live div DELTA_PAGE_SIZE" "n \<le> total_pages"
    and bits: "\<And>p. p < total_pages \<Longrightarrow> bitmap_bit changed p \<longleftrightarrow> c p" and bound: "length (changed_pages c live total_pages) \<le> u64_max"
  shows "\<exists>m'. apply_loop (changed_pages c live total_pages) changed rs [n..<total_pages] (length (changed_pages c live n)) m = Inr m' \<and> shape m' = shape m \<and>
     (\<forall>p<total_pages. page_at (image_of m') p = (if n \<le> p \<and> c p then page_at live p else page_at (image_of m) p))"
  using assms(1-5)
proof (induction "total_pages - n" arbitrary: n m)
  case 0
  then show ?case by auto
next
  case (Suc k)
  let ?fl = "changed_pages c live total_pages"
  have n: "n < total_pages" "[n..<total_pages] = n # [Suc n..<total_pages]"
    using Suc.hyps(2) by (auto simp: upt_conv_Cons)
  have k: "k = total_pages - Suc n" "Suc n \<le> total_pages"
    using Suc.hyps(2) by auto
  show ?case
  proof (cases "c n")
    case False
    then have same: "changed_pages c live (Suc n) = changed_pages c live n"
      by (simp add: changed_pages_step)
    obtain m' where m': "apply_loop ?fl changed rs [Suc n..<total_pages] (length (changed_pages c live (Suc n))) m = Inr m'" "shape m' = shape m"
        "\<forall>p<total_pages. page_at (image_of m') p = (if Suc n \<le> p \<and> c p then page_at live p else page_at (image_of m) p)"
      using Suc.hyps(1) [OF k(1) Suc.prems(1-4) k(2)] by blast
    have "(n \<le> p \<and> c p) = (Suc n \<le> p \<and> c p)" for p
      using False by (auto simp: Suc_le_eq le_less)
    then show ?thesis
      using m' False bits [OF n(1)] same by (simp add: n(2))
  next
    case True
    obtain rest where fl: "?fl = changed_pages c live n @ page_at live n @ rest"
      using changed_pages_split [OF n(1), of c live] True by auto
    have full: "length (page_at live n) = DELTA_PAGE_SIZE"
      using n(1) Suc.prems(4) by (intro page_full) simp
    have read: "read_file_at ?fl (length (changed_pages c live n)) DELTA_PAGE_SIZE = Inr (page_at live n)"
      unfolding fl using full by (simp add: read_file_at_def)
    have add: "checked_add_u64 (length (changed_pages c live n)) DELTA_PAGE_SIZE = Some (length (changed_pages c live (Suc n)))"
      using bound full True unfolding fl by (simp add: checked_add_u64_def changed_pages_step)
    have "n < length (image_of m) div DELTA_PAGE_SIZE"
      using n(1) Suc.prems(3,4) by simp
    from write_page [OF Suc.prems(1,2) this full] obtain gpa ptr m1 where
        w: "page_index_to_gpa n rs = Inr gpa" "host_slice m gpa = Inr ptr" "host_write m gpa (page_at live n) = Inr m1" "shape m1 = shape m" "image_of m1 = set_page (image_of m) n (page_at live n)"
      by blast
    have m1: "region_table_from 0 m1 = Inr rs" "shape_ok (shape m1)" "length live = length (image_of m1)"
      using Suc.prems(1-3) w(4) shape_table [OF w(4)] shape_length_image [OF w(4)] by simp_all
    obtain m' where m': "apply_loop ?fl changed rs [Suc n..<total_pages] (length (changed_pages c live (Suc n))) m1 = Inr m'" "shape m' = shape m1"
        "\<forall>p<total_pages. page_at (image_of m') p = (if Suc n \<le> p \<and> c p then page_at live p else page_at (image_of m1) p)"
      using Suc.hyps(1) [OF k(1) m1 Suc.prems(4) k(2)] by blast
    have "page_at (image_of m') p = (if n \<le> p \<and> c p then page_at live p else page_at (image_of m) p)" if "p < total_pages" for p
      using m'(3) that w(5) page_at_set_page [OF \<open>n < length (image_of m) div DELTA_PAGE_SIZE\<close> full, of p] True by (auto simp: Suc_le_eq le_less)
    then show ?thesis
      using m' w read add bits [OF n(1)] True by (simp add: n(2))
  qed
qed

lemma length_changed_pages: "length (changed_pages c live n) \<le> n * DELTA_PAGE_SIZE"
  by (induction n) (auto simp: changed_pages_step page_at_def changed_pages_def [of c live 0])

lemma same_layout_refl [simp]: "same_layout rs rs"
  by (simp add: same_layout_def list_all2_refl)

lemma layout_same_shape:
  assumes "memory_region_table live = Inr rs" "shape m = shape live"
  shows "memory_region_table m = Inr rs" "ensure_guest_memory_layout m rs = Inr ()"
  using assms shape_table [OF assms(2), of 0] by (simp_all add: memory_region_table_def ensure_guest_memory_layout_def)

lemma total_from_eq: "t + sum_list (map mr_len rs) \<le> u64_max \<Longrightarrow> total_from t rs = Inr (t + sum_list (map mr_len rs))"
  by (induction rs arbitrary: t) (auto simp: checked_add_u64_def)

lemma table_total:
  assumes "memory_region_table live = Inr rs"
  shows "region_table_from 0 live = Inr rs" "regions_total_len rs = Inr (length (image_of live))" "length (image_of live) \<le> u64_max" "length (image_of live) mod DELTA_PAGE_SIZE = 0"
proof -
  show table: "region_table_from 0 live = Inr rs"
    using assms by (auto simp: memory_region_table_def rbind_eq_Inr)
  show "regions_total_len rs = Inr (length (image_of live))" "length (image_of live) \<le> u64_max" "length (image_of live) mod DELTA_PAGE_SIZE = 0"
    using table_bound [OF table] total_from_eq [of 0 rs] by (simp_all add: regions_total_len_def)
qed

text \<open>Applying the delta of a live image to memory that holds the base gives the live memory.\<close>

lemma apply_delta_restores:
  assumes table: "memory_region_table live = Inr rs" and ok: "shape_ok (shape live)" and m: "shape m = shape live" "image_of m = bimg"
    and d: "dm_changed d = changed_bitmap c total_pages total_pages" "total_pages = length (image_of live) div DELTA_PAGE_SIZE" "c = (\<lambda>p. page_at bimg p \<noteq> page_at (image_of live) p)"
    and valid: "validate_delta_memory d (length (image_of live)) (length (changed_pages c (image_of live) total_pages)) = Inr ()"
  shows "apply_delta_pages (changed_pages c (image_of live) total_pages) m d rs = Inr live"
proof -
  note t = table_total [OF table]
  have bound: "length (changed_pages c (image_of live) total_pages) \<le> u64_max"
    using length_changed_pages [of c "image_of live" total_pages] t(3) div_times_less_eq_dividend [of "length (image_of live)" DELTA_PAGE_SIZE] unfolding d(2) by linarith
  have bits: "bitmap_bit (dm_changed d) p \<longleftrightarrow> c p" if "p < total_pages" for p
    using that by (simp add: d(1) changed_bitmap_bit)
  have start: "region_table_from 0 m = Inr rs" "shape_ok (shape m)" "length (image_of live) = length (image_of m)" "length (changed_pages c (image_of live) 0) = 0"
    using t(1) ok m shape_table [OF m(1)] shape_length_image [OF m(1)] by (simp_all add: changed_pages_def)
  obtain m' where m': "apply_loop (changed_pages c (image_of live) total_pages) (dm_changed d) rs [0..<total_pages] 0 m = Inr m'" "shape m' = shape m"
      "\<forall>p<total_pages. page_at (image_of m') p = (if 0 \<le> p \<and> c p then page_at (image_of live) p else page_at (image_of m) p)"
    using apply_loop_pages [OF start(1-3) d(2) le0 bits bound] unfolding start(4) by blast
  have len: "length (image_of m') = length (image_of live)"
    using shape_length_image [of m' live] m'(2) m(1) by simp
  have pages: "page_at (image_of m') p = page_at (image_of live) p" if "p < length (image_of m') div DELTA_PAGE_SIZE" for p
  proof -
    have "p < total_pages"
      using that d(2) unfolding len by (rule ssubst [rotated])
    then show ?thesis
      using m'(3) d(3) m(2) by auto
  qed
  have "length (image_of m') mod DELTA_PAGE_SIZE = 0"
    using t(4) unfolding len .
  from pages_eq [OF len this pages] have "image_of m' = image_of live" .
  then have "m' = live"
    using m'(2) m(1) by (intro shape_image_eq) simp_all
  then show ?thesis
    using m'(1) valid t(2) d(2) layout_same_shape [OF table m(1)] by (simp add: apply_delta_pages_def)
qed

section \<open>Snapshot directories\<close>

definition MAX_DELTA_CHAIN_DEPTH :: nat where
  "MAX_DELTA_CHAIN_DEPTH = 64"

record ('b, 'v, 'm) snapshot_image =
  si_snapshot :: "('b, 'v, 'm) vm_snapshot"
  si_memory_file :: bytes

type_synonym ('b, 'v, 'm) snapshot_store = "string \<Rightarrow> ('b, 'v, 'm) snapshot_image option"

definition read_snapshot :: "target_arch \<Rightarrow> 'b \<Rightarrow> ('b, 'v, 'm) snapshot_store \<Rightarrow> string \<Rightarrow> ('b, 'v, 'm) snapshot_image snap_result" where
  "read_snapshot arch backend store dir = (case store dir of
     None \<Rightarrow> Inl ''no current-generation manifest''
   | Some img \<Rightarrow>
       rbind (validate_snapshot_header arch backend (si_snapshot img)) (\<lambda>_.
       rbind (validate_snapshot_metadata arch backend (Inr (length (si_memory_file img))) (si_snapshot img)) (\<lambda>_. Inr img)))"

definition base_dir_of :: "string \<Rightarrow> string snap_result" where
  "base_dir_of base = rbind (ensure (is_safe_snapshot_name base) ''delta base is not a safe basename'') (\<lambda>_. Inr base)"

fun load_regions :: "bytes \<Rightarrow> mem_region list \<Rightarrow> guest_memory \<Rightarrow> guest_memory snap_result" where
  "load_regions fl [] mem = Inr mem"
| "load_regions fl (r # rs) mem =
     rbind (host_slice mem (mr_gpa r)) (\<lambda>_.
     rbind (read_file_at fl (mr_file_offset r) (mr_len r)) (\<lambda>dat.
     rbind (host_write mem (mr_gpa r) dat) (\<lambda>mem'. load_regions fl rs mem')))"

definition load_memory_file :: "bytes \<Rightarrow> guest_memory \<Rightarrow> mem_region list \<Rightarrow> guest_memory snap_result" where
  "load_memory_file fl mem regions =
     rbind (ensure_guest_memory_layout mem regions) (\<lambda>_.
     rbind (regions_total_len regions) (\<lambda>expected_len.
     rbind (ensure (length fl = expected_len) ''snapshot memory data length'') (\<lambda>_.
     load_regions fl regions mem)))"

function load_layer :: "target_arch \<Rightarrow> 'b \<Rightarrow> ('b, 'v, 'm) snapshot_store \<Rightarrow> ('b, 'v, 'm) snapshot_image \<Rightarrow> guest_memory \<Rightarrow> mem_region list \<Rightarrow> nat \<Rightarrow> guest_memory snap_result" where
  "load_layer arch backend store img mem expected depth =
     (if MAX_DELTA_CHAIN_DEPTH < depth then Inl ''snapshot delta chain exceeds max depth''
      else if \<not> same_layout (sn_mem_regions (si_snapshot img)) expected then Inl ''delta chain layer RAM layout differs from top snapshot''
      else case sn_delta (si_snapshot img) of
          None \<Rightarrow> load_memory_file (si_memory_file img) mem (sn_mem_regions (si_snapshot img))
        | Some d \<Rightarrow>
            rbind (base_dir_of (dm_base d)) (\<lambda>base_dir.
            rbind (read_snapshot arch backend store base_dir) (\<lambda>base_image.
            rbind (load_layer arch backend store base_image mem expected (depth + 1)) (\<lambda>mem'.
            apply_delta_pages (si_memory_file img) mem' d expected))))"
  by pat_completeness auto
termination
  by (relation "measure (\<lambda>(_, _, _, _, _, _, depth). Suc MAX_DELTA_CHAIN_DEPTH - depth)") auto

declare load_layer.simps [simp del]

definition load_memory_chain :: "target_arch \<Rightarrow> 'b \<Rightarrow> ('b, 'v, 'm) snapshot_store \<Rightarrow> ('b, 'v, 'm) snapshot_image \<Rightarrow> guest_memory \<Rightarrow> guest_memory snap_result" where
  "load_memory_chain arch backend store img mem =
     (let expected = sn_mem_regions (si_snapshot img) in
      rbind (ensure_guest_memory_layout mem expected) (\<lambda>_. load_layer arch backend store img mem expected 0))"

text \<open>The scratch memory of a base that is itself a delta, zero at first.\<close>

definition create_guest_memory :: "target_arch \<Rightarrow> nat \<Rightarrow> guest_memory snap_result" where
  "create_guest_memory arch n =
     rbind (ensure (n \<noteq> 0) ''guest memory size is zero'') (\<lambda>_.
     rbind (ensure (n mod DELTA_PAGE_SIZE = 0) ''guest memory size is not page-aligned'') (\<lambda>_.
     Inr (map (\<lambda>(addr, len). (addr, replicate len 0)) (arrange_memory arch n))))"

definition map_base :: "bytes \<Rightarrow> nat \<Rightarrow> bytes snap_result" where
  "map_base fl expected_len =
     rbind (ensure (length fl = expected_len) ''base memory file length'') (\<lambda>_.
     rbind (ensure (fl \<noteq> []) ''base memory file is empty'') (\<lambda>_. Inr fl))"

definition base_view_of :: "target_arch \<Rightarrow> 'b \<Rightarrow> ('b, 'v, 'm) snapshot_store \<Rightarrow> ('b, 'v, 'm) snapshot_image \<Rightarrow> mem_region list \<Rightarrow> nat \<Rightarrow> base_view snap_result" where
  "base_view_of arch backend store base_image live_regions total_ram =
     (if sn_delta (si_snapshot base_image) = None
      then rbind (ensure (same_layout (sn_mem_regions (si_snapshot base_image)) live_regions) ''delta base RAM layout differs from live memory'') (\<lambda>_.
        rbind (map_base (si_memory_file base_image) total_ram) (\<lambda>fl. Inr (Mapped fl)))
      else rbind (create_guest_memory arch total_ram) (\<lambda>scratch.
        rbind (load_layer arch backend store base_image scratch live_regions 1) (\<lambda>mem. Inr (Scratch mem))))"

text \<open>\<open>dirty\<close> is the guest's log with the host page size and the host-write bitmaps of the regions, when tracking was armed.\<close>

definition dump_delta_memory_file ::
  "target_arch \<Rightarrow> 'b \<Rightarrow> ('b, 'v, 'm) snapshot_store \<Rightarrow> string \<Rightarrow> guest_memory \<Rightarrow> (u64 list list \<times> nat \<times> (nat \<Rightarrow> bool) list) option \<Rightarrow> (mem_region list \<times> delta_memory \<times> bytes) snap_result" where
  "dump_delta_memory_file arch backend store base live dirty =
     rbind (memory_region_table live) (\<lambda>live_regions.
     rbind (base_dir_of base) (\<lambda>base_dir.
     rbind (read_snapshot arch backend store base_dir) (\<lambda>base_image.
     rbind (regions_total_len live_regions) (\<lambda>total_ram.
     rbind (base_view_of arch backend store base_image live_regions total_ram) (\<lambda>base_view.
     rbind (region_diff_specs base_view live 0 live_regions) (\<lambda>specs.
     rbind (case dirty of Some (guest_log, host_page, host_dirty) \<Rightarrow> diff_dirty_pages specs host_dirty host_page guest_log | None \<Rightarrow> Inr (diff_pages_parallel specs)) (\<lambda>(changed, fl).
     Inr (live_regions, \<lparr>dm_base = base, dm_page_size = DELTA_PAGE_SIZE, dm_changed = changed\<rparr>, fl))))))))"

text \<open>\<open>build\<close> makes the state from the region table and the delta; the new generation replaces the old one of the directory.\<close>

definition write_snapshot ::
  "target_arch \<Rightarrow> 'b \<Rightarrow> string \<Rightarrow> string option \<Rightarrow> guest_memory \<Rightarrow> (u64 list list \<times> nat \<times> (nat \<Rightarrow> bool) list) option \<Rightarrow>
     (mem_region list \<Rightarrow> delta_memory option \<Rightarrow> ('b, 'v, 'm) vm_snapshot) \<Rightarrow> ('b, 'v, 'm) snapshot_store \<Rightarrow> ('b, 'v, 'm) snapshot_store snap_result" where
  "write_snapshot arch backend dir base live dirty build store =
     rbind (case base of
              None \<Rightarrow> rbind (dump_memory_file live) (\<lambda>(rs, fl). Inr (rs, None, fl))
            | Some b \<Rightarrow> rbind (dump_delta_memory_file arch backend store b live dirty) (\<lambda>(rs, d, fl). Inr (rs, Some d, fl))) (\<lambda>(rs, delta, fl).
     let snap = build rs delta in
     rbind (validate_snapshot_metadata arch backend (Inr (length fl)) snap) (\<lambda>_.
     Inr (store(dir \<mapsto> \<lparr>si_snapshot = snap, si_memory_file = fl\<rparr>))))"

section \<open>Reconstruction\<close>

lemma same_layout_eq: "same_layout xs ys \<longleftrightarrow> xs = ys"
proof
  assume "same_layout xs ys"
  then show "xs = ys"
    unfolding same_layout_def by (intro nth_equalityI) (auto simp: list_all2_conv_all_nth intro: mem_region.equality)
qed simp

lemma load_layer_entry:
  assumes "load_layer arch backend store img m expected depth = Inr r"
  shows "\<not> MAX_DELTA_CHAIN_DEPTH < depth" "sn_mem_regions (si_snapshot img) = expected"
  using assms by (auto simp: load_layer.simps [of arch backend store img] same_layout_eq split: if_splits)

lemma load_layer_full:
  "sn_delta (si_snapshot img) = None \<Longrightarrow> \<not> MAX_DELTA_CHAIN_DEPTH < depth \<Longrightarrow> sn_mem_regions (si_snapshot img) = expected \<Longrightarrow>
     load_layer arch backend store img m expected depth = load_memory_file (si_memory_file img) m expected"
  by (auto simp: load_layer.simps [of arch backend store img])

lemma load_layer_delta:
  "sn_delta (si_snapshot img) = Some d \<Longrightarrow> \<not> MAX_DELTA_CHAIN_DEPTH < depth \<Longrightarrow> sn_mem_regions (si_snapshot img) = expected \<Longrightarrow>
     load_layer arch backend store img m expected depth =
       rbind (base_dir_of (dm_base d)) (\<lambda>base_dir. rbind (read_snapshot arch backend store base_dir) (\<lambda>base_img.
       rbind (load_layer arch backend store base_img m expected (depth + 1)) (\<lambda>mem'. apply_delta_pages (si_memory_file img) mem' d expected)))"
  by (auto simp: load_layer.simps [of arch backend store img])

lemma load_regions_reads:
  "region_table_from off m = Inr rs \<Longrightarrow> shape_ok (shape (pre @ m)) \<Longrightarrow> off + length (image_of m) \<le> length fl \<Longrightarrow>
     \<exists>m'. load_regions fl rs (pre @ m) = Inr (pre @ m') \<and> shape m' = shape m \<and> image_of m' = take (length (image_of m)) (drop off fl)"
proof (induction m arbitrary: off rs pre)
  case Nil
  then show ?case by (auto intro: exI [of _ "[]"])
next
  case (Cons x m)
  obtain s bs where x: "x = (s, bs)"
    by (cases x)
  obtain rs' where t: "region_table_from (off + length bs) m = Inr rs'" "bs \<noteq> []" "rs = \<lparr>mr_gpa = s, mr_len = length bs, mr_file_offset = off\<rparr> # rs'"
    using Cons.prems(1) unfolding x table_step by auto
  let ?dat = "take (length bs) (drop off fl)"
  have len: "length ?dat = length bs"
    using Cons.prems(3) x by simp
  have access: "host_slice (pre @ (s, bs) # m) s = Inr bs" "host_write (pre @ (s, bs) # m) s ?dat = Inr ((pre @ [(s, ?dat)]) @ m)"
    using host_slice_at [of pre s bs m 0] host_write_at [of pre s bs m 0 ?dat] Cons.prems(2) t(2) len x by simp_all
  have "shape ((pre @ [(s, ?dat)]) @ m) = shape (pre @ x # m)"
    using len x by simp
  then obtain m' where m': "load_regions fl rs' ((pre @ [(s, ?dat)]) @ m) = Inr ((pre @ [(s, ?dat)]) @ m')" "shape m' = shape m" "image_of m' = take (length (image_of m)) (drop (off + length bs) fl)"
    using Cons.IH [OF t(1), of "pre @ [(s, ?dat)]"] Cons.prems(2,3) x by auto
  have "image_of ((s, ?dat) # m') = take (length (image_of (x # m))) (drop off fl)"
    using m'(3) x by (simp add: take_add add.commute)
  then show ?case
    using m' access Cons.prems(3) t(3) len x by (intro exI [of _ "(s, ?dat) # m'"]) (simp add: read_file_at_def)
qed

lemma load_memory_file_reads:
  assumes "memory_region_table m = Inr rs" "shape_ok (shape m)" "length fl = length (image_of m)"
  shows "\<exists>m'. load_memory_file fl m rs = Inr m' \<and> shape m' = shape m \<and> image_of m' = fl"
proof -
  note t = table_total [OF assms(1)]
  have "ensure_guest_memory_layout m rs = Inr ()"
    using assms(1) by (simp add: ensure_guest_memory_layout_def)
  then show ?thesis
    using load_regions_reads [OF t(1), of "[]" fl] assms(2,3) t(2) by (simp add: load_memory_file_def)
qed

lemma load_memory_file_inv:
  assumes "load_memory_file fl m rs = Inr m'"
  shows "memory_region_table m = Inr rs" "length fl = length (image_of m)"
proof -
  show table: "memory_region_table m = Inr rs"
    using assms by (auto simp: load_memory_file_def rbind_unit ensure_guest_memory_layout_def rbind_eq_Inr same_layout_eq)
  show "length fl = length (image_of m)"
    using assms table_total(2) [OF table] by (auto simp: load_memory_file_def rbind_unit)
qed

lemma apply_loop_shape:
  assumes "list_all (\<lambda>p. p < length (image_of m) div DELTA_PAGE_SIZE) ps" "region_table_from 0 m = Inr rs" "shape_ok (shape m)" "apply_loop fl changed rs ps off m = Inr m'"
  shows "shape m' = shape m"
  using assms
proof (induction ps arbitrary: off m)
  case (Cons p ps)
  show ?case
  proof (cases "bitmap_bit changed p")
    case True
    let ?dat = "take DELTA_PAGE_SIZE (drop off fl)"
    obtain gpa m1 off' where s: "page_index_to_gpa p rs = Inr gpa" "off + DELTA_PAGE_SIZE \<le> length fl" "host_write m gpa ?dat = Inr m1" "apply_loop fl changed rs ps off' m1 = Inr m'"
      using Cons.prems(4) True by (auto simp: rbind_eq_Inr read_file_at_def split: option.splits if_splits)
    have full: "length ?dat = DELTA_PAGE_SIZE" and p: "p < length (image_of m) div DELTA_PAGE_SIZE"
      using s(2) Cons.prems(1) by simp_all
    have m1: "shape m1 = shape m"
      using write_page [OF Cons.prems(2,3) p full] s(1,3) by auto
    then show ?thesis
      using Cons.IH [OF _ _ _ s(4)] Cons.prems(1-3) shape_table [OF m1] shape_length_image [OF m1] by simp
  next
    case False
    then show ?thesis
      using Cons by simp
  qed
qed simp

lemma apply_delta_shape:
  assumes "apply_delta_pages fl m d rs = Inr m'" "shape_ok (shape m)"
  shows "shape m' = shape m"
proof -
  have table: "memory_region_table m = Inr rs"
    using assms(1) by (auto simp: apply_delta_pages_def rbind_unit ensure_guest_memory_layout_def rbind_eq_Inr same_layout_eq)
  note t = table_total [OF table]
  have "apply_loop fl (dm_changed d) rs [0..<length (image_of m) div DELTA_PAGE_SIZE] 0 m = Inr m'"
    using assms(1) t(2) by (auto simp: apply_delta_pages_def rbind_unit)
  then show ?thesis
    using assms(2) t(1) by (intro apply_loop_shape) (auto simp: list_all_iff)
qed

text \<open>What a chain denotes does not depend on the memory it is loaded into, only on its shape.\<close>

lemma load_layer_independent:
  assumes "load_layer arch backend store img m expected depth = Inr r" "shape_ok (shape m)"
  shows "memory_region_table m = Inr expected \<and> shape r = shape m \<and> (shape m2 = shape m \<longrightarrow> load_layer arch backend store img m2 expected depth = Inr r)"
  using assms
proof (induction arch backend store img m expected depth arbitrary: r rule: load_layer.induct)
  case (1 arch backend store img m expected depth)
  note depth = load_layer_entry(1) [OF "1.prems"(1)] and layout = load_layer_entry(2) [OF "1.prems"(1)]
  show ?case
  proof (cases "sn_delta (si_snapshot img)")
    case None
    note unfold = load_layer_full [OF None depth layout, of arch backend store]
    have load: "load_memory_file (si_memory_file img) m expected = Inr r"
      using "1.prems"(1) unfold by simp
    note inv = load_memory_file_inv [OF load]
    obtain m' where m': "load_memory_file (si_memory_file img) m expected = Inr m'" "shape m' = shape m" "image_of m' = si_memory_file img"
      using load_memory_file_reads [OF inv(1) "1.prems"(2) inv(2)] by blast
    have "load_memory_file (si_memory_file img) m2 expected = Inr r" if same: "shape m2 = shape m"
    proof -
      obtain r2 where r2: "load_memory_file (si_memory_file img) m2 expected = Inr r2" "shape r2 = shape m2" "image_of r2 = si_memory_file img"
        using load_memory_file_reads [of m2 expected "si_memory_file img"] layout_same_shape(1) [OF inv(1) same] "1.prems"(2) same inv(2) shape_length_image [OF same] by auto
      then have "r2 = r"
        using m' load same by (intro shape_image_eq) auto
      then show ?thesis using r2 by simp
    qed
    then show ?thesis
      using inv(1) m' load unfold by simp
  next
    case (Some d)
    note unfold = load_layer_delta [OF Some depth layout, of arch backend store]
    obtain base_dir base_img mem' where b: "base_dir_of (dm_base d) = Inr base_dir" "read_snapshot arch backend store base_dir = Inr base_img"
        "load_layer arch backend store base_img m expected (depth + 1) = Inr mem'" "apply_delta_pages (si_memory_file img) mem' d expected = Inr r"
      using "1.prems"(1) unfold by (auto simp: rbind_eq_Inr)
    have IH: "memory_region_table m = Inr expected \<and> shape mem' = shape m \<and> (shape m2 = shape m \<longrightarrow> load_layer arch backend store base_img m2 expected (depth + 1) = Inr mem')"
      using "1.IH" [OF depth _ Some b(3) "1.prems"(2)] layout by (simp add: same_layout_eq)
    then show ?thesis
      using b unfold apply_delta_shape [OF b(4)] "1.prems"(2) by simp
  qed
qed


lemma load_layer_table: "load_layer arch backend store img m expected depth = Inr r \<Longrightarrow> memory_region_table m = Inr expected"
proof (induction arch backend store img m expected depth arbitrary: r rule: load_layer.induct)
  case (1 arch backend store img m expected depth)
  note depth = load_layer_entry(1) [OF "1.prems"] and layout = load_layer_entry(2) [OF "1.prems"]
  show ?case
  proof (cases "sn_delta (si_snapshot img)")
    case None
    then show ?thesis
      using "1.prems" load_layer_full [OF None depth layout] load_memory_file_inv(1) by simp
  next
    case (Some d)
    obtain base_dir base_img mem' where "load_layer arch backend store base_img m expected (depth + 1) = Inr mem'"
      using "1.prems" load_layer_delta [OF Some depth layout] by (auto simp: rbind_eq_Inr)
    then show ?thesis
      using "1.IH" [OF depth _ Some] layout by (simp add: same_layout_eq)
  qed
qed

text \<open>The directories a chain reads, the top one first.\<close>

fun chain_dirs :: "('b, 'v, 'm) snapshot_store \<Rightarrow> string \<Rightarrow> nat \<Rightarrow> string list" where
  "chain_dirs store dir 0 = [dir]"
| "chain_dirs store dir (Suc n) = dir # (case store dir of
     None \<Rightarrow> []
   | Some img \<Rightarrow> (case sn_delta (si_snapshot img) of None \<Rightarrow> [] | Some d \<Rightarrow> chain_dirs store (dm_base d) n))"

lemma chain_dirs_head: "dir \<in> set (chain_dirs store dir n)"
  by (cases n) simp_all

lemma read_snapshot_stored: "read_snapshot arch backend store dir = Inr img \<Longrightarrow> store dir = Some img"
  by (auto simp: read_snapshot_def rbind_unit split: option.splits)

lemma read_snapshot_other: "store' b = store b \<Longrightarrow> read_snapshot arch backend store' b = read_snapshot arch backend store b"
  by (simp add: read_snapshot_def)

lemma load_layer_other:
  assumes "\<And>b. b \<noteq> dir \<Longrightarrow> store' b = store b"
  shows "(\<And>d. sn_delta (si_snapshot img) = Some d \<Longrightarrow> dir \<notin> set (chain_dirs store (dm_base d) n)) \<Longrightarrow> MAX_DELTA_CHAIN_DEPTH \<le> depth + n \<Longrightarrow>
     load_layer arch backend store img m expected depth = Inr r \<Longrightarrow> load_layer arch backend store' img m expected depth = Inr r"
proof (induction n arbitrary: img depth r)
  case (0 img depth r)
  note now = load_layer_entry [OF 0(3)]
  show ?case
  proof (cases "sn_delta (si_snapshot img)")
    case None
    then show ?thesis
      using 0(3) now by (simp add: load_layer_full)
  next
    case (Some d)
    obtain base_img mem' where "load_layer arch backend store base_img m expected (depth + 1) = Inr mem'"
      using 0(3) load_layer_delta [OF Some now] by (auto simp: rbind_eq_Inr)
    from load_layer_entry(1) [OF this] show ?thesis
      using 0(2) by simp
  qed
next
  case (Suc n img depth r)
  note now = load_layer_entry [OF Suc.prems(3)]
  show ?case
  proof (cases "sn_delta (si_snapshot img)")
    case None
    then show ?thesis
      using Suc.prems(3) now by (simp add: load_layer_full)
  next
    case (Some d)
    obtain base_img mem' where b: "base_dir_of (dm_base d) = Inr (dm_base d)" "read_snapshot arch backend store (dm_base d) = Inr base_img"
        "load_layer arch backend store base_img m expected (depth + 1) = Inr mem'" "apply_delta_pages (si_memory_file img) mem' d expected = Inr r"
      using Suc.prems(3) load_layer_delta [OF Some now] by (auto simp: base_dir_of_def rbind_eq_Inr)
    have away: "dir \<noteq> dm_base d" "\<And>d'. sn_delta (si_snapshot base_img) = Some d' \<Longrightarrow> dir \<notin> set (chain_dirs store (dm_base d') n)"
      using Suc.prems(1) [OF Some] read_snapshot_stored [OF b(2)] by auto
    have "load_layer arch backend store' base_img m expected (depth + 1) = Inr mem'"
      by (rule Suc.IH [OF away(2) _ b(3)]) (use Suc.prems(2) in simp_all)
    then show ?thesis
      using b load_layer_delta [OF Some now, of arch backend store'] read_snapshot_other [where store = store and store' = store' and b = "dm_base d"] assms away(1) by simp
  qed
qed

section \<open>Writing and reading back\<close>

text \<open>The base the delta is taken against is what the chain of the base denotes.\<close>

lemma base_view_pages:
  assumes table: "memory_region_table live = Inr rs" and ok: "shape_ok (shape live)" and view: "base_view_of arch backend store base_image rs (length (image_of live)) = Inr bv" and m: "shape m = shape live"
  obtains bm where "load_layer arch backend store base_image m rs 1 = Inr bm" "shape bm = shape live" "base_pages bv rs (image_of bm)"
proof (cases "sn_delta (si_snapshot base_image)")
  case None
  let ?fl = "si_memory_file base_image"
  have v: "sn_mem_regions (si_snapshot base_image) = rs" "length ?fl = length (image_of live)" "bv = Mapped ?fl"
    using view None by (auto simp: base_view_of_def map_base_def same_layout_eq rbind_eq_Inr)
  obtain bm where "load_memory_file ?fl m rs = Inr bm" "shape bm = shape m" "image_of bm = ?fl"
    using load_memory_file_reads [of m rs ?fl] layout_same_shape(1) [OF table m] ok m v(2) shape_length_image [OF m] by auto
  then show ?thesis
    using that [of bm] load_layer_full [OF None _ v(1), of 1] v(3) m by (simp add: MAX_DELTA_CHAIN_DEPTH_def base_pages_def)
next
  case (Some d)
  obtain scratch bm where v: "load_layer arch backend store base_image scratch rs 1 = Inr bm" "bv = Scratch bm"
    using view Some by (auto simp: base_view_of_def rbind_eq_Inr)
  have tables: "region_table_from 0 scratch = Inr rs" "region_table_from 0 live = Inr rs"
    using load_layer_table [OF v(1)] table by (auto simp: memory_region_table_def rbind_eq_Inr)
  have same: "shape m = shape scratch"
    using table_shape [OF tables(1)] table_shape [OF tables(2)] m by simp
  then have scratch: "shape_ok (shape scratch)"
    using ok m by simp
  have bm: "shape bm = shape live" "load_layer arch backend store base_image m rs 1 = Inr bm"
    using load_layer_independent [OF v(1) scratch] same m by auto
  then show ?thesis
    using that [of bm] v(2) layout_same_shape(1) [OF table bm(1)] ok by (simp add: base_pages_def)
qed

text \<open>A dirty log is good when it names every page in which memory differs from what the base denotes.\<close>

definition region_first :: "guest_memory \<Rightarrow> nat \<Rightarrow> nat" where
  "region_first live i = sum_list (map (\<lambda>x. length (snd x) div DELTA_PAGE_SIZE) (take i live))"

definition log_names :: "guest_memory \<Rightarrow> guest_memory \<Rightarrow> (u64 list list \<times> nat \<times> (nat \<Rightarrow> bool) list) option \<Rightarrow> bool" where
  "log_names bm live dirty = (case dirty of
     None \<Rightarrow> True
   | Some (guest_log, host_page, host_dirty) \<Rightarrow> length host_dirty = length live \<and>
       (\<forall>i<length live. \<forall>k<length (snd (live ! i)) div DELTA_PAGE_SIZE.
          page_at (image_of bm) (region_first live i + k) = page_at (image_of live) (region_first live i + k) \<or> page_flagged host_page (guest_log ! i) (host_dirty ! i) k))"

definition log_good :: "target_arch \<Rightarrow> 'b \<Rightarrow> ('b, 'v, 'm) snapshot_store \<Rightarrow> string \<Rightarrow> guest_memory \<Rightarrow> (u64 list list \<times> nat \<times> (nat \<Rightarrow> bool) list) option \<Rightarrow> bool" where
  "log_good arch backend store b live dirty = (case read_snapshot arch backend store b of
     Inl _ \<Rightarrow> True
   | Inr img \<Rightarrow> (case load_layer arch backend store img live (sn_mem_regions (si_snapshot img)) 1 of Inl _ \<Rightarrow> True | Inr bm \<Rightarrow> log_names bm live dirty))"

lemma specs_cover_nth:
  "specs_cover base live lo specs \<Longrightarrow> i < length specs \<Longrightarrow> k < rd_pages (specs ! i) \<Longrightarrow>
     page_at (rd_base (specs ! i)) k = page_at base (lo + spec_pages (take i specs) + k) \<and> page_at (rd_live (specs ! i)) k = page_at live (lo + spec_pages (take i specs) + k)"
proof (induction specs arbitrary: lo i)
  case (Cons s specs)
  then show ?case
    by (cases i) (auto simp: add.assoc)
qed simp

lemma region_diff_pages: "region_diff_specs base live fp rs = Inr specs \<Longrightarrow> map rd_pages specs = map (\<lambda>r. mr_len r div DELTA_PAGE_SIZE) rs"
  by (induction rs arbitrary: fp specs) (auto simp: rbind_eq_Inr)

lemma table_pages: "region_table_from off m = Inr rs \<Longrightarrow> map (\<lambda>r. mr_len r div DELTA_PAGE_SIZE) rs = map (\<lambda>x. length (snd x) div DELTA_PAGE_SIZE) m"
proof -
  assume "region_table_from off m = Inr rs"
  from table_shape [OF this] have "map (\<lambda>x. snd x div DELTA_PAGE_SIZE) (shape m) = map (\<lambda>x. snd x div DELTA_PAGE_SIZE) (map (\<lambda>r. (mr_gpa r, mr_len r)) rs)"
    by simp
  then show ?thesis
    by (simp add: shape_def comp_def case_prod_unfold)
qed

lemma log_names_complete:
  assumes cover: "specs_cover (image_of bm) (image_of live) 0 specs" and pages: "map rd_pages specs = map (\<lambda>x. length (snd x) div DELTA_PAGE_SIZE) live"
    and names: "log_names bm live (Some (guest_log, host_page, host_dirty))"
  shows "length host_dirty = length specs" "\<forall>i<length specs. log_complete host_page (specs ! i) (guest_log ! i) (host_dirty ! i)"
proof -
  have len: "length specs = length live"
    using arg_cong [OF pages, of length] by simp
  then show "length host_dirty = length specs"
    using names by (simp add: log_names_def)
  have first: "spec_pages (take i specs) = region_first live i" for i
    using arg_cong [OF pages, of "\<lambda>xs. sum_list (take i xs)"] by (simp add: region_first_def take_map)
  have "rd_pages (specs ! i) = length (snd (live ! i)) div DELTA_PAGE_SIZE" if "i < length specs" for i
    using arg_cong [OF pages, of "\<lambda>xs. xs ! i"] that len by simp
  then show "\<forall>i<length specs. log_complete host_page (specs ! i) (guest_log ! i) (host_dirty ! i)"
    using specs_cover_nth [OF cover] names len by (auto simp: log_complete_def log_names_def first)
qed

lemma written_delta:
  assumes dump: "dump_delta_memory_file arch backend store b live dirty = Inr (rs, d, fl)" and ok: "shape_ok (shape live)" and good: "log_good arch backend store b live dirty" and m: "shape m = shape live"
  obtains base_image bm c where "memory_region_table live = Inr rs" "base_dir_of b = Inr b" "read_snapshot arch backend store b = Inr base_image" "load_layer arch backend store base_image m rs 1 = Inr bm" "shape bm = shape live"
    "dm_base d = b" "c = (\<lambda>p. page_at (image_of bm) p \<noteq> page_at (image_of live) p)"
    "dm_changed d = changed_bitmap c (length (image_of live) div DELTA_PAGE_SIZE) (length (image_of live) div DELTA_PAGE_SIZE)" "fl = changed_pages c (image_of live) (length (image_of live) div DELTA_PAGE_SIZE)"
proof -
  obtain base_image bv specs changed where s: "memory_region_table live = Inr rs" "base_dir_of b = Inr b" "read_snapshot arch backend store b = Inr base_image"
      "base_view_of arch backend store base_image rs (length (image_of live)) = Inr bv" "region_diff_specs bv live 0 rs = Inr specs"
      "(case dirty of Some (guest_log, host_page, host_dirty) \<Rightarrow> diff_dirty_pages specs host_dirty host_page guest_log | None \<Rightarrow> Inr (diff_pages_parallel specs)) = Inr (changed, fl)"
      "d = \<lparr>dm_base = b, dm_page_size = DELTA_PAGE_SIZE, dm_changed = changed\<rparr>"
    using dump table_total(2) by (auto simp: dump_delta_memory_file_def base_dir_of_def rbind_eq_Inr)
  obtain bm where bm: "load_layer arch backend store base_image m rs 1 = Inr bm" "shape bm = shape live" "base_pages bv rs (image_of bm)"
    by (rule base_view_pages [OF s(1) ok s(4) m])
  note cover = region_specs_cover [OF s(1) ok bm(3) s(5)]
  have "sn_mem_regions (si_snapshot base_image) = rs" "load_layer arch backend store base_image live rs 1 = Inr bm"
    using load_layer_entry(2) [OF bm(1)] load_layer_independent [OF bm(1)] ok m by auto
  then have names: "log_names bm live dirty"
    using good s(3) by (simp add: log_good_def)
  have pages: "map rd_pages specs = map (\<lambda>x. length (snd x) div DELTA_PAGE_SIZE) live"
    using region_diff_pages [OF s(5)] table_pages [OF table_total(1) [OF s(1)]] by simp
  have "(changed, fl) = diff_pages_parallel specs"
  proof (cases dirty)
    case (Some x)
    obtain guest_log host_page host_dirty where x: "x = (guest_log, host_page, host_dirty)"
      by (cases x)
    show ?thesis
      using diff_dirty_pages_eq [OF cover(1) log_names_complete [OF cover(1) pages]] names s(6) Some x by simp
  qed (use s(6) in simp)
  then show ?thesis
    using that [OF s(1-3) bm(1,2) _ refl] diff_pages_parallel_eq [OF cover(1)] cover(2) s(7) by simp
qed

lemma read_written:
  assumes "validate_snapshot_metadata arch backend (Inr (length fl)) snap = Inr ()" "store dir = Some \<lparr>si_snapshot = snap, si_memory_file = fl\<rparr>"
  shows "read_snapshot arch backend store dir = Inr \<lparr>si_snapshot = snap, si_memory_file = fl\<rparr>"
  using assms by (simp add: read_snapshot_def validate_snapshot_metadata_def validate_common_def rbind_unit)

lemma written_total:
  assumes "validate_snapshot_metadata arch backend (Inr n) snap = Inr ()" "sn_delta snap = Some d" "memory_region_table live = Inr (sn_mem_regions snap)"
  shows "validate_delta_memory d (length (image_of live)) n = Inr ()"
proof -
  obtain t where t: "validate_region_layout arch snap = Inr t" "validate_delta_memory d t n = Inr ()"
    using assms(1,2) by (auto simp: validate_snapshot_metadata_def validate_memory_regions_def rbind_unit rbind_eq_Inr)
  then show ?thesis
    using accepted_layout(2) [OF t(1)] table_bound [OF table_total(1) [OF assms(3)]] by simp
qed

lemma write_loads:
  assumes written: "write_snapshot arch backend dir base live dirty build store = Inr store'" and ok: "shape_ok (shape live)"
    and build: "\<And>rs d. sn_mem_regions (build rs d) = rs \<and> sn_delta (build rs d) = d"
    and good: "\<And>b. base = Some b \<Longrightarrow> log_good arch backend store b live dirty"
    and kept: "\<And>b img rs bm. base = Some b \<Longrightarrow> read_snapshot arch backend store b = Inr img \<Longrightarrow> load_layer arch backend store img mem rs 1 = Inr bm \<Longrightarrow>
      read_snapshot arch backend store' b = Inr img \<and> load_layer arch backend store' img mem rs 1 = Inr bm"
    and mem: "shape mem = shape live"
  shows "\<exists>img. read_snapshot arch backend store' dir = Inr img \<and> load_memory_chain arch backend store' img mem = Inr live"
proof -
  obtain rs delta fl where w: "(case base of None \<Rightarrow> rbind (dump_memory_file live) (\<lambda>(rs, fl). Inr (rs, None, fl))
        | Some b \<Rightarrow> rbind (dump_delta_memory_file arch backend store b live dirty) (\<lambda>(rs, d, fl). Inr (rs, Some d, fl))) = Inr (rs, delta, fl)"
      "validate_snapshot_metadata arch backend (Inr (length fl)) (build rs delta) = Inr ()" "store' = store(dir \<mapsto> \<lparr>si_snapshot = build rs delta, si_memory_file = fl\<rparr>)"
    using written by (auto simp: write_snapshot_def Let_def rbind_eq_Inr)
  let ?img = "\<lparr>si_snapshot = build rs delta, si_memory_file = fl\<rparr>"
  have read: "read_snapshot arch backend store' dir = Inr ?img"
    using w(2,3) by (intro read_written) simp_all
  have table: "memory_region_table live = Inr rs"
    using w(1) by (auto simp: dump_memory_file_eq dump_delta_memory_file_def rbind_eq_Inr split: option.splits)
  note same = layout_same_shape [OF table mem]
  have top: "\<not> MAX_DELTA_CHAIN_DEPTH < 0"
    by simp
  have "load_layer arch backend store' ?img mem rs 0 = Inr live"
  proof (cases base)
    case None
    then have full: "delta = None" "fl = image_of live"
      using w(1) by (auto simp: dump_memory_file_eq rbind_eq_Inr image_of_def)
    obtain m' where m': "load_memory_file fl mem rs = Inr m'" "shape m' = shape mem" "image_of m' = fl"
      using load_memory_file_reads [OF same(1), of fl] ok mem full(2) shape_length_image [OF mem] by auto
    then have "m' = live"
      using full(2) mem by (intro shape_image_eq) simp_all
    then show ?thesis
      using m'(1) full(1) build load_layer_full [OF _ top, of ?img rs arch backend store' mem] by simp
  next
    case (Some b)
    then obtain d where d: "dump_delta_memory_file arch backend store b live dirty = Inr (rs, d, fl)" "delta = Some d"
      using w(1) by (auto simp: rbind_eq_Inr)
    obtain base_image bm c where x: "memory_region_table live = Inr rs" "base_dir_of b = Inr b" "read_snapshot arch backend store b = Inr base_image" "load_layer arch backend store base_image mem rs 1 = Inr bm" "shape bm = shape live"
        "dm_base d = b" "c = (\<lambda>p. page_at (image_of bm) p \<noteq> page_at (image_of live) p)"
        "dm_changed d = changed_bitmap c (length (image_of live) div DELTA_PAGE_SIZE) (length (image_of live) div DELTA_PAGE_SIZE)" "fl = changed_pages c (image_of live) (length (image_of live) div DELTA_PAGE_SIZE)"
      by (rule written_delta [OF d(1) ok good [OF Some] mem])
    have "validate_delta_memory d (length (image_of live)) (length fl) = Inr ()"
      using w(2) build d(2) table by (intro written_total [of arch backend _ "build rs delta"]) auto
    then have applied: "apply_delta_pages fl bm d rs = Inr live"
      using apply_delta_restores [OF table ok x(5) refl x(8) refl x(7)] x(9) by simp
    then show ?thesis
      using kept [OF Some x(3,4)] build [of rs delta] d(2) x(2,6) load_layer_delta [OF _ top, of ?img d rs arch backend store' mem] by simp
  qed
  then show ?thesis
    using read build same(2) by (intro exI [of _ ?img]) (simp add: load_memory_chain_def)
qed

text \<open>
  C36: A snapshot gives back the memory that was saved. Let a snapshot be written, full or as a delta against a base, whose own chain does not use the directory being written, by comparing every page or with a dirty log that names every
  page in which memory differs from what the base's chain denotes. Then the directory can be read back, and loading its chain into any memory with the same regions, whatever it holds, gives exactly the memory that was saved.
\<close>

theorem snapshot_roundtrip:
  assumes written: "write_snapshot arch backend dir base live dirty build store = Inr store'" and ok: "shape_ok (shape live)"
    and build: "\<And>rs d. sn_mem_regions (build rs d) = rs \<and> sn_delta (build rs d) = d"
    and fresh: "\<And>b. base = Some b \<Longrightarrow> dir \<notin> set (chain_dirs store b MAX_DELTA_CHAIN_DEPTH) \<and> log_good arch backend store b live dirty"
    and mem: "shape mem = shape live"
  shows "\<exists>img. read_snapshot arch backend store' dir = Inr img \<and> load_memory_chain arch backend store' img mem = Inr live"
proof (rule write_loads [OF written ok build _ _ mem])
  fix b img rs bm
  assume b: "base = Some b" and read: "read_snapshot arch backend store b = Inr img" and load: "load_layer arch backend store img mem rs 1 = Inr bm"
  have deep: "MAX_DELTA_CHAIN_DEPTH = Suc 63"
    by (simp add: MAX_DELTA_CHAIN_DEPTH_def)
  have away: "dir \<noteq> b" "\<And>d. sn_delta (si_snapshot img) = Some d \<Longrightarrow> dir \<notin> set (chain_dirs store (dm_base d) 63)"
    using fresh [OF b] read_snapshot_stored [OF read] unfolding deep chain_dirs.simps(2) by auto
  have others: "store' b' = store b'" if "b' \<noteq> dir" for b'
    using that written by (auto simp: write_snapshot_def Let_def rbind_eq_Inr)
  have "load_layer arch backend store' img mem rs 1 = Inr bm"
    by (rule load_layer_other [OF others away(2) _ load]) (simp_all add: deep)
  then show "read_snapshot arch backend store' b = Inr img \<and> load_layer arch backend store' img mem rs 1 = Inr bm"
    using read read_snapshot_other [where store = store and store' = store' and b = b] others [of b] away(1) by simp
qed (use fresh in blast)+

text \<open>A full base of one zero megabyte, and live memory that differs from it in its first page.\<close>

definition demo_base_image :: "(unit, unit, unit) snapshot_image" where
  "demo_base_image = \<lparr>si_snapshot = demo_machine demo_regions None, si_memory_file = replicate 1048576 0\<rparr>"

definition demo_snapshots :: "(unit, unit, unit) snapshot_store" where
  "demo_snapshots = [''base'' \<mapsto> demo_base_image]"

definition demo_live :: guest_memory where
  "demo_live = [(0, replicate 4096 1 @ replicate 1044480 0)]"

lemma demo_read: "read_snapshot X86_64 () demo_snapshots ''base'' = Inr demo_base_image"
  by (rule read_written [of _ _ "replicate 1048576 0" "demo_machine demo_regions None", folded demo_base_image_def]) (simp_all add: demo_accepted demo_snapshots_def)

lemma demo_table: "memory_region_table demo_live = Inr demo_regions" "regions_total_len demo_regions = Inr 1048576"
  by (simp_all add: memory_region_table_def demo_live_def demo_regions_def regions_total_len_def checked_add_u64_def ensure_def DELTA_PAGE_SIZE_def)

lemma demo_page: "p < 256 \<Longrightarrow> page_at (replicate 1048576 0) p \<noteq> page_at (image_of demo_live) p \<longleftrightarrow> p = 0"
proof (cases p)
  case (Suc q)
  have "page_at (image_of demo_live) p = take 4096 (drop (q * 4096) (replicate 1044480 0))" "page_at (replicate 1048576 0) p = take 4096 (drop (p * 4096) (replicate 1048576 0))"
    using Suc by (simp_all add: page_at_def DELTA_PAGE_SIZE_def demo_live_def)
  moreover assume "p < 256"
  ultimately show ?thesis
    using Suc by (simp add: min_def)
qed (simp add: page_at_def DELTA_PAGE_SIZE_def demo_live_def replicate_eq_replicate)

definition demo_delta :: delta_memory where
  "demo_delta = \<lparr>dm_base = ''base'', dm_page_size = 4096, dm_changed = 1 # replicate 31 0\<rparr>"

lemma changed_cong:
  assumes "\<And>p. p < n \<Longrightarrow> c p = c' p"
  shows "changed_bitmap c n t = changed_bitmap c' n t" "changed_pages c live n = changed_pages c' live n"
proof -
  have "(8 * j + b < n \<and> c (8 * j + b)) = (8 * j + b < n \<and> c' (8 * j + b))" for j b
    using assms by blast
  then show "changed_bitmap c n t = changed_bitmap c' n t"
    by (simp add: changed_bitmap_def)
  have "filter c [0..<n] = filter c' [0..<n]"
    using assms by (intro filter_cong) auto
  then show "changed_pages c live n = changed_pages c' live n"
    by (simp add: changed_pages_def)
qed

lemma demo_changed: "changed_bitmap (\<lambda>p. p = 0) 256 256 = 1 # replicate 31 0"
proof -
  have "replicate 31 0 = map (\<lambda>_. 0 :: u8) [0..<31]"
    by (simp add: map_replicate_const)
  then show ?thesis
    by (simp add: changed_bitmap_def byte_of_def div_ceil_def upt_rec)
qed

lemma demo_written: "changed_pages (\<lambda>p. p = 0) (image_of demo_live) 256 = replicate 4096 1"
proof -
  have "[0..<256] = 0 # [1..<256]"
    by (simp add: upt_conv_Cons)
  moreover have "concat (map (\<lambda>p. if p = 0 then x else []) [1..<256]) = []" for x :: bytes
    by simp
  ultimately show ?thesis
    by (simp add: changed_pages_def page_at_def DELTA_PAGE_SIZE_def demo_live_def)
qed

lemma demo_dump: "dump_delta_memory_file X86_64 () demo_snapshots ''base'' demo_live None = Inr (demo_regions, demo_delta, replicate 4096 1)"
proof -
  have view: "base_view_of X86_64 () demo_snapshots demo_base_image demo_regions 1048576 = Inr (Mapped (replicate 1048576 0))"
    by (simp add: base_view_of_def demo_base_image_def demo_machine_def map_base_def ensure_def)
  have name: "base_dir_of ''base'' = Inr ''base''"
    by (simp add: base_dir_of_def is_safe_snapshot_name_def MAX_SNAPSHOT_NAME_BYTES_def safe_name_char_def char_between_def ensure_def)
  obtain specs where specs: "region_diff_specs (Mapped (replicate 1048576 0)) demo_live 0 demo_regions = Inr specs"
    by (simp add: demo_live_def demo_regions_def)
  have ok: "shape_ok (shape demo_live)"
    by (simp add: shape_ok_def demo_live_def)
  note cover = region_specs_cover [OF demo_table(1) ok _ specs, of "replicate 1048576 0"]
  have "spec_pages specs = 256"
    using cover(2) by (simp add: base_pages_def demo_live_def DELTA_PAGE_SIZE_def)
  then have "diff_pages_parallel specs = (1 # replicate 31 0, replicate 4096 1)"
    using diff_pages_parallel_eq [OF cover(1)] changed_cong [of 256 _ "\<lambda>p. p = 0", OF demo_page] demo_changed demo_written by (simp add: base_pages_def)
  then show ?thesis
    using demo_table demo_read view name specs by (simp add: dump_delta_memory_file_def demo_delta_def DELTA_PAGE_SIZE_def)
qed

lemma demo_delta_valid: "validate_delta_memory demo_delta 1048576 4096 = Inr ()"
  by (simp add: validate_delta_memory_def demo_delta_def DELTA_PAGE_SIZE_def div_ceil_def sum_list_replicate count_ones_def is_safe_snapshot_name_def MAX_SNAPSHOT_NAME_BYTES_def safe_name_char_def char_between_def ensure_def bit_1_iff upt_rec)

lemma demo_write:
  "write_snapshot X86_64 () ''next'' (Some ''base'') demo_live None demo_machine demo_snapshots =
     Inr (demo_snapshots(''next'' \<mapsto> \<lparr>si_snapshot = demo_machine demo_regions (Some demo_delta), si_memory_file = replicate 4096 1\<rparr>))"
proof -
  have "validate_snapshot_metadata X86_64 () (Inr 4096) (demo_machine demo_regions (Some demo_delta)) = Inr ()"
    using demo_accepted demo_layout [of "Some demo_delta"] demo_layout [of None] demo_delta_valid
    by (simp add: validate_snapshot_metadata_def validate_memory_regions_def validate_common_def validate_snapshot_header_def rbind_unit demo_machine_def)
  then show ?thesis
    using demo_dump by (simp add: write_snapshot_def)
qed

text \<open>The demonstration's delta, loaded into memory filled with other bytes, gives the live memory.\<close>

theorem snapshot_roundtrip_witness:
  "\<exists>store' img. write_snapshot X86_64 () ''next'' (Some ''base'') demo_live None demo_machine demo_snapshots = Inr store' \<and>
     read_snapshot X86_64 () store' ''next'' = Inr img \<and> load_memory_chain X86_64 () store' img [(0, replicate 1048576 7)] = Inr demo_live"
proof -
  have build: "sn_mem_regions (demo_machine rs d) = rs \<and> sn_delta (demo_machine rs d) = d" for rs d
    by (simp add: demo_machine_def)
  have ok: "shape_ok (shape demo_live)" and same: "shape [(0, replicate 1048576 7)] = shape demo_live"
    by (simp_all add: shape_ok_def demo_live_def)
  have deep: "MAX_DELTA_CHAIN_DEPTH = Suc 63"
    by (simp add: MAX_DELTA_CHAIN_DEPTH_def)
  have "''next'' \<notin> set (chain_dirs demo_snapshots b MAX_DELTA_CHAIN_DEPTH) \<and> log_good X86_64 () demo_snapshots b demo_live None" if "Some ''base'' = Some b" for b
    using that unfolding deep chain_dirs.simps(2) by (auto simp: demo_snapshots_def demo_base_image_def demo_machine_def log_good_def log_names_def split: sum.splits)
  from snapshot_roundtrip [OF demo_write ok build this same] demo_write show ?thesis
    by blast
qed

end
