(* ===== verification/SnapshotSession.thy ===== *)
theory SnapshotSession
  imports SnapshotChain
begin

text \<open>
  The snapshot command of a running machine, \<^verbatim>\<open>Vmm::snapshot\<close> and its control handler in \<^verbatim>\<open>vmm/src/vmm.rs\<close>, with the window of dirty-page tracking of \<^verbatim>\<open>vmm/src/hv/kvm/vm.rs\<close> and \<^verbatim>\<open>vmm/src/hv/hvf/vm.rs\<close>: a snapshot may arm tracking against
  itself, and the next delta against exactly that snapshot uses the log once. What happens outside is a parameter of each command: \<open>se_collected\<close> is everything before the log is taken, which are the repeated checks that the machine is not stopping,
  the refusal of machines with assigned devices and the collection of processors, machine and devices; \<open>se_take\<close> and \<open>se_arm\<close> are the outcomes of the system calls; \<open>se_rearmed\<close> is the log that re-registering the memory leaves, also when it
  fails halfway; \<open>se_commit\<close> is the check at the end, after the snapshot is published and the window armed.
\<close>

section \<open>The command\<close>

datatype run_state = Running | Paused | Stopping

datatype hv_backend = Kvm | Hvf

record ('b, 'v, 'm) vm_session =
  vs_memory :: guest_memory
  vs_gate :: run_state
  vs_dirty_base :: "string option"
  vs_guest_log :: "u64 list list"
  vs_host_dirty :: "(nat \<Rightarrow> bool) list"
  vs_store :: "('b, 'v, 'm) snapshot_store"

record ('b, 'v, 'm) snapshot_env =
  se_collected :: "('b, 'v, 'm) vm_snapshot snap_result"
  se_take :: "unit snap_result"
  se_arm :: "unit snap_result"
  se_rearmed :: "u64 list list"
  se_commit :: "unit snap_result"

fun arm_dirty_tracking :: "hv_backend \<Rightarrow> unit snap_result \<Rightarrow> bool snap_result" where
  "arm_dirty_tracking Kvm io = rbind io (\<lambda>_. Inr True)"
| "arm_dirty_tracking Hvf io = Inr False"

fun take_dirty_log :: "hv_backend \<Rightarrow> unit snap_result \<Rightarrow> u64 list list \<Rightarrow> u64 list list option snap_result" where
  "take_dirty_log Kvm io log = rbind io (\<lambda>_. Inr (Some log))"
| "take_dirty_log Hvf io log = Inr None"

definition reset_dirty :: "guest_memory \<Rightarrow> (nat \<Rightarrow> bool) list" where
  "reset_dirty mem = replicate (length mem) (\<lambda>_. False)"

definition cleared :: "u64 list list \<Rightarrow> u64 list list" where
  "cleared log = map (map (\<lambda>_. 0)) log"

definition take_window :: "hv_backend \<Rightarrow> unit snap_result \<Rightarrow> string option \<Rightarrow> ('b, 'v, 'm) vm_session \<Rightarrow> u64 list list option snap_result \<times> ('b, 'v, 'm) vm_session" where
  "take_window hv io base vs =
     (if base \<noteq> None \<and> vs_dirty_base vs = base
      then (take_dirty_log hv io (vs_guest_log vs), vs\<lparr>vs_dirty_base := None, vs_guest_log := cleared (vs_guest_log vs)\<rparr>)
      else (Inr None, vs))"

definition arm_window :: "hv_backend \<Rightarrow> ('b, 'v, 'm) snapshot_env \<Rightarrow> string \<Rightarrow> ('b, 'v, 'm) vm_session \<Rightarrow> unit snap_result \<times> ('b, 'v, 'm) vm_session" where
  "arm_window hv env name vs = (case arm_dirty_tracking hv (se_arm env) of
     Inl e \<Rightarrow> (Inl e, vs\<lparr>vs_guest_log := se_rearmed env\<rparr>)
   | Inr armed \<Rightarrow> (Inr (), if armed then vs\<lparr>vs_guest_log := se_rearmed env, vs_host_dirty := reset_dirty (vs_memory vs), vs_dirty_base := Some name\<rparr> else vs))"

definition vmm_snapshot ::
  "target_arch \<Rightarrow> 'b \<Rightarrow> hv_backend \<Rightarrow> nat \<Rightarrow> ('b, 'v, 'm) snapshot_env \<Rightarrow> string \<Rightarrow> string option \<Rightarrow> bool \<Rightarrow> ('b, 'v, 'm) vm_session \<Rightarrow> unit snap_result \<times> ('b, 'v, 'm) vm_session" where
  "vmm_snapshot arch backend hv host_page env name base track vs = (case vs_gate vs of
     Stopping \<Rightarrow> (Inl ''snapshot failed: VM is stopping'', vs)
   | Running \<Rightarrow> (Inl ''not paused'', vs)
   | Paused \<Rightarrow> (case se_collected env of
       Inl e \<Rightarrow> (Inl e, vs)
     | Inr snap \<Rightarrow> (case take_window hv (se_take env) base vs of (taken, vs1) \<Rightarrow> (case taken of
         Inl e \<Rightarrow> (Inl e, vs1)
       | Inr guest_dirty \<Rightarrow>
          (case write_snapshot arch backend name base (vs_memory vs1) (map_option (\<lambda>log. (log, host_page, vs_host_dirty vs1)) guest_dirty)
                  (\<lambda>rs d. snap\<lparr>sn_mem_regions := rs, sn_delta := d\<rparr>) (vs_store vs1) of
             Inl e \<Rightarrow> (Inl e, vs1)
           | Inr store' \<Rightarrow>
              (case (if track then arm_window hv env name (vs1\<lparr>vs_store := store'\<rparr>) else (Inr (), vs1\<lparr>vs_store := store'\<rparr>)) of
                 (Inl e, vs2) \<Rightarrow> (Inl e, vs2)
               | (Inr _, vs2) \<Rightarrow> (se_commit env, vs2)))))))"

definition control_snapshot ::
  "target_arch \<Rightarrow> 'b \<Rightarrow> hv_backend \<Rightarrow> nat \<Rightarrow> bool \<Rightarrow> ('b, 'v, 'm) snapshot_env \<Rightarrow> string \<Rightarrow> string option \<Rightarrow> bool \<Rightarrow> ('b, 'v, 'm) vm_session \<Rightarrow> unit snap_result \<times> ('b, 'v, 'm) vm_session" where
  "control_snapshot arch backend hv host_page root env name base track vs =
     (case rbind (case base of
             None \<Rightarrow> Inr ()
           | Some b \<Rightarrow> rbind (ensure (is_safe_snapshot_name b) ''path_denied: snapshot base is not a safe basename'') (\<lambda>_.
               ensure (b \<noteq> name) ''bad_request: snapshot base cannot be the same as its own name'')) (\<lambda>_.
           rbind (ensure (is_safe_snapshot_name name) ''path_denied: snapshot name is not a safe basename'') (\<lambda>_.
           rbind (ensure root ''snapshots_disabled: snapshot_root is not configured'') (\<lambda>_.
           ensure (vs_gate vs = Paused) ''not_paused: snapshot requires a paused VM''))) of
        Inl e \<Rightarrow> (Inl e, vs)
      | Inr _ \<Rightarrow> vmm_snapshot arch backend hv host_page env name base track vs)"

section \<open>Sessions\<close>

text \<open>
  Between commands the guest and the devices write memory: page \<open>k\<close> of region \<open>i\<close> gets new bytes, and the log and the host bitmaps change with it. A write is tracked when the page is flagged afterwards and no flag is lost, which is
  what the kernel's log and the memory crate's bitmap promise.
\<close>

datatype ('b, 'v, 'm) session_event =
    Wrote nat nat bytes "u64 list list" "(nat \<Rightarrow> bool) list"
  | SetGate run_state
  | Snapshot "('b, 'v, 'm) snapshot_env" string "string option" bool

definition write_guest_page :: "guest_memory \<Rightarrow> nat \<Rightarrow> nat \<Rightarrow> bytes \<Rightarrow> guest_memory" where
  "write_guest_page mem i k dat = mem[i := (fst (mem ! i), set_page (snd (mem ! i)) k dat)]"

definition tracked :: "nat \<Rightarrow> ('b, 'v, 'm) vm_session \<Rightarrow> nat \<Rightarrow> nat \<Rightarrow> u64 list list \<Rightarrow> (nat \<Rightarrow> bool) list \<Rightarrow> bool" where
  "tracked host_page vs i k log hdirty \<longleftrightarrow> length hdirty = length (vs_host_dirty vs) \<and>
     (\<forall>i'<length (vs_memory vs). \<forall>k'<length (snd (vs_memory vs ! i')) div DELTA_PAGE_SIZE. page_flagged host_page (log ! i') (hdirty ! i') k' \<or> \<not> page_flagged host_page (vs_guest_log vs ! i') (vs_host_dirty vs ! i') k' \<and> (i', k') \<noteq> (i, k))"

text \<open>Re-registering the memory that fails halfway may leave any log; it keeps the flags when no page loses its flag.\<close>

definition keeps_flags :: "nat \<Rightarrow> ('b, 'v, 'm) vm_session \<Rightarrow> u64 list list \<Rightarrow> bool" where
  "keeps_flags host_page vs log \<longleftrightarrow> (\<forall>i<length (vs_memory vs). \<forall>k<length (snd (vs_memory vs ! i)) div DELTA_PAGE_SIZE.
     page_flagged host_page (vs_guest_log vs ! i) (vs_host_dirty vs ! i) k \<longrightarrow> page_flagged host_page (log ! i) (vs_host_dirty vs ! i) k)"

fun valid_event :: "nat \<Rightarrow> ('b, 'v, 'm) vm_session \<Rightarrow> ('b, 'v, 'm) session_event \<Rightarrow> bool" where
  "valid_event host_page vs (Wrote i k dat log hdirty) \<longleftrightarrow>
     i < length (vs_memory vs) \<and> k < length (snd (vs_memory vs ! i)) div DELTA_PAGE_SIZE \<and> length dat = DELTA_PAGE_SIZE \<and> tracked host_page vs i k log hdirty"
| "valid_event host_page vs (SetGate g) \<longleftrightarrow> True"
| "valid_event host_page vs (Snapshot env name base track) \<longleftrightarrow> vs_store vs name = None \<and>
     ((\<exists>e. se_arm env = Inl e) \<and> vs_dirty_base vs \<noteq> None \<longrightarrow> keeps_flags host_page vs (se_rearmed env))"

text \<open>\<open>saved\<close> remembers, for every snapshot command that reported success, the memory at that moment.\<close>

fun session_step ::
  "target_arch \<Rightarrow> 'b \<Rightarrow> hv_backend \<Rightarrow> nat \<Rightarrow> ('b, 'v, 'm) session_event \<Rightarrow> ('b, 'v, 'm) vm_session \<times> (string \<times> guest_memory) list \<Rightarrow> ('b, 'v, 'm) vm_session \<times> (string \<times> guest_memory) list" where
  "session_step arch backend hv host_page (Wrote i k dat log hdirty) (vs, saved) =
     (vs\<lparr>vs_memory := write_guest_page (vs_memory vs) i k dat, vs_guest_log := log, vs_host_dirty := hdirty\<rparr>, saved)"
| "session_step arch backend hv host_page (SetGate g) (vs, saved) = (vs\<lparr>vs_gate := g\<rparr>, saved)"
| "session_step arch backend hv host_page (Snapshot env name base track) (vs, saved) =
     (case control_snapshot arch backend hv host_page True env name base track vs of
        (Inl _, vs') \<Rightarrow> (vs', saved)
      | (Inr _, vs') \<Rightarrow> (vs', (name, vs_memory vs) # saved))"

fun session_run ::
  "target_arch \<Rightarrow> 'b \<Rightarrow> hv_backend \<Rightarrow> nat \<Rightarrow> ('b, 'v, 'm) session_event list \<Rightarrow> ('b, 'v, 'm) vm_session \<times> (string \<times> guest_memory) list \<Rightarrow> ('b, 'v, 'm) vm_session \<times> (string \<times> guest_memory) list" where
  "session_run arch backend hv host_page [] s = s"
| "session_run arch backend hv host_page (ev # evs) s = session_run arch backend hv host_page evs (session_step arch backend hv host_page ev s)"

fun valid_run :: "target_arch \<Rightarrow> 'b \<Rightarrow> hv_backend \<Rightarrow> nat \<Rightarrow> ('b, 'v, 'm) session_event list \<Rightarrow> ('b, 'v, 'm) vm_session \<times> (string \<times> guest_memory) list \<Rightarrow> bool" where
  "valid_run arch backend hv host_page [] s \<longleftrightarrow> True"
| "valid_run arch backend hv host_page (ev # evs) s \<longleftrightarrow> valid_event host_page (fst s) ev \<and> valid_run arch backend hv host_page evs (session_step arch backend hv host_page ev s)"

section \<open>What a directory denotes\<close>

definition denotes :: "target_arch \<Rightarrow> 'b \<Rightarrow> ('b, 'v, 'm) snapshot_store \<Rightarrow> string \<Rightarrow> guest_memory \<Rightarrow> bool" where
  "denotes arch backend store name m \<longleftrightarrow>
     (\<exists>img. read_snapshot arch backend store name = Inr img \<and> (\<forall>mem. shape mem = shape m \<longrightarrow> load_memory_chain arch backend store img mem = Inr m))"

lemma read_snapshot_extends:
  assumes "\<And>b img. store b = Some img \<Longrightarrow> store' b = Some img" "read_snapshot arch backend store b = Inr img"
  shows "read_snapshot arch backend store' b = Inr img"
  using assms(2) assms(1) [of b] by (auto simp: read_snapshot_def split: option.splits)

lemma load_layer_extends:
  assumes more: "\<And>b img. store b = Some img \<Longrightarrow> store' b = Some img"
  shows "load_layer arch backend store img m expected depth = Inr r \<Longrightarrow> load_layer arch backend store' img m expected depth = Inr r"
proof (induction "Suc MAX_DELTA_CHAIN_DEPTH - depth" arbitrary: img depth r)
  case 0
  then show ?case
    using load_layer_entry(1) [OF 0(2)] by simp
next
  case (Suc n)
  note now = load_layer_entry [OF Suc.prems]
  show ?case
  proof (cases "sn_delta (si_snapshot img)")
    case None
    then show ?thesis
      using Suc.prems load_layer_full [OF None now] by simp
  next
    case (Some d)
    obtain base_img mem' where b: "base_dir_of (dm_base d) = Inr (dm_base d)" "read_snapshot arch backend store (dm_base d) = Inr base_img"
        "load_layer arch backend store base_img m expected (depth + 1) = Inr mem'" "apply_delta_pages (si_memory_file img) mem' d expected = Inr r"
      using Suc.prems load_layer_delta [OF Some now] by (auto simp: base_dir_of_def rbind_eq_Inr)
    have "n = Suc MAX_DELTA_CHAIN_DEPTH - (depth + 1)"
      using Suc.hyps(2) by arith
    then have "load_layer arch backend store' base_img m expected (depth + 1) = Inr mem'"
      using Suc.hyps(1) b(3) by blast
    then show ?thesis
      using b load_layer_delta [OF Some now, of arch backend store'] read_snapshot_extends [of store store', OF more b(2)] by simp
  qed
qed

lemma load_layer_shallower: "load_layer arch backend store img m expected (Suc depth) = Inr r \<Longrightarrow> load_layer arch backend store img m expected depth = Inr r"
proof (induction "Suc MAX_DELTA_CHAIN_DEPTH - depth" arbitrary: img depth r)
  case 0
  then show ?case
    using load_layer_entry(1) [OF 0(2)] by simp
next
  case (Suc n)
  note deep = load_layer_entry [OF Suc.prems]
  have now: "\<not> MAX_DELTA_CHAIN_DEPTH < depth"
    using deep(1) by simp
  show ?case
  proof (cases "sn_delta (si_snapshot img)")
    case None
    then show ?thesis
      using Suc.prems load_layer_full [OF None now deep(2)] load_layer_full [OF None deep] by simp
  next
    case (Some d)
    obtain base_img mem' where b: "base_dir_of (dm_base d) = Inr (dm_base d)" "read_snapshot arch backend store (dm_base d) = Inr base_img"
        "load_layer arch backend store base_img m expected (Suc (depth + 1)) = Inr mem'" "apply_delta_pages (si_memory_file img) mem' d expected = Inr r"
      using Suc.prems load_layer_delta [OF Some deep] by (auto simp: base_dir_of_def rbind_eq_Inr)
    have "n = Suc MAX_DELTA_CHAIN_DEPTH - (depth + 1)"
      using Suc.hyps(2) by arith
    then have "load_layer arch backend store base_img m expected (depth + 1) = Inr mem'"
      using Suc.hyps(1) b(3) by blast
    then show ?thesis
      using b load_layer_delta [OF Some now deep(2)] by simp
  qed
qed

lemma denotes_extends:
  assumes more: "\<And>b img. store b = Some img \<Longrightarrow> store' b = Some img" and "denotes arch backend store name m"
  shows "denotes arch backend store' name m"
proof -
  obtain img where img: "read_snapshot arch backend store name = Inr img" "\<forall>mem. shape mem = shape m \<longrightarrow> load_memory_chain arch backend store img mem = Inr m"
    using assms(2) by (auto simp: denotes_def)
  have "load_memory_chain arch backend store' img mem = Inr m" if "shape mem = shape m" for mem
    using img(2) that load_layer_extends [of store store', OF more] by (auto simp: load_memory_chain_def Let_def rbind_eq_Inr)
  then show ?thesis
    using read_snapshot_extends [of store store', OF more img(1)] by (auto simp: denotes_def)
qed

lemma denotes_unique:
  assumes "denotes arch backend store b bm" "read_snapshot arch backend store b = Inr img" "load_layer arch backend store img live (sn_mem_regions (si_snapshot img)) 1 = Inr r" "shape bm = shape live"
  shows "r = bm"
proof -
  have "load_memory_chain arch backend store img live = Inr bm"
    using assms(1,2,4) by (auto simp: denotes_def)
  moreover have "load_layer arch backend store img live (sn_mem_regions (si_snapshot img)) 0 = Inr r"
    using load_layer_shallower [of _ _ _ _ _ _ 0] assms(3) by simp
  ultimately show ?thesis
    by (auto simp: load_memory_chain_def Let_def rbind_eq_Inr)
qed

section \<open>The tracking window\<close>

lemma page_in_region:
  assumes "list_all (\<lambda>x. length (snd x) mod DELTA_PAGE_SIZE = 0) m" "i < length m" "k < length (snd (m ! i)) div DELTA_PAGE_SIZE"
  shows "page_at (image_of m) (region_first m i + k) = page_at (snd (m ! i)) k"
  using assms
proof (induction m arbitrary: i)
  case (Cons x m)
  obtain s bs where x: "x = (s, bs)"
    by (cases x)
  show ?case
  proof (cases i)
    case 0
    then show ?thesis
      using Cons.prems page_at_middle [of "[]" k bs "image_of m"] x by (simp add: region_first_def)
  next
    case (Suc j)
    have "page_at (bs @ image_of m) (length bs div DELTA_PAGE_SIZE + p) = page_at (image_of m) p" for p
      using page_at_drop [of "length bs" "bs @ image_of m" p] Cons.prems(1) x by simp
    then show ?thesis
      using Cons.IH [of j] Cons.prems x Suc by (simp add: region_first_def add.assoc)
  qed
qed simp

lemma table_aligned: "memory_region_table m = Inr rs \<Longrightarrow> list_all (\<lambda>x. length (snd x) mod DELTA_PAGE_SIZE = 0) m"
proof -
  have "region_table_from off m = Inr rs \<Longrightarrow> list_all (\<lambda>x. length (snd x) mod DELTA_PAGE_SIZE = 0) m" for off rs m
    by (induction m arbitrary: off rs) (auto simp: table_step simp del: region_table_from.simps)
  then show "memory_region_table m = Inr rs \<Longrightarrow> list_all (\<lambda>x. length (snd x) mod DELTA_PAGE_SIZE = 0) m"
    using table_total(1) by blast
qed

lemma write_guest_page_shape:
  assumes "i < length mem" "k < length (snd (mem ! i)) div DELTA_PAGE_SIZE" "length dat = DELTA_PAGE_SIZE"
  shows "shape (write_guest_page mem i k dat) = shape mem" "region_first (write_guest_page mem i k dat) j = region_first mem j"
proof -
  have len: "map (length \<circ> snd) (write_guest_page mem i k dat) = map (length \<circ> snd) mem"
    using assms length_set_page [OF assms(2,3)] by (intro nth_equalityI) (auto simp: write_guest_page_def nth_list_update)
  moreover have "map fst (write_guest_page mem i k dat) = map fst mem"
    using assms(1) by (intro nth_equalityI) (auto simp: write_guest_page_def nth_list_update)
  moreover have "shape m = zip (map fst m) (map (length \<circ> snd) m)" for m
    by (induction m) (auto simp: shape_def)
  ultimately show "shape (write_guest_page mem i k dat) = shape mem"
    by simp
  have "region_first m j = sum_list (map (\<lambda>n. n div DELTA_PAGE_SIZE) (take j (map (length \<circ> snd) m)))" for m
    by (simp add: region_first_def take_map comp_def)
  then show "region_first (write_guest_page mem i k dat) j = region_first mem j"
    using len by simp
qed

lemma log_names_same: "length hdirty = length live \<Longrightarrow> log_names live live (Some (log, host_page, hdirty))"
  by (simp add: log_names_def)

lemma log_names_write:
  assumes names: "log_names bm (vs_memory vs) (Some (vs_guest_log vs, host_page, vs_host_dirty vs))" and table: "memory_region_table (vs_memory vs) = Inr rs"
    and valid: "valid_event host_page vs (Wrote i k dat log hdirty)"
  shows "log_names bm (write_guest_page (vs_memory vs) i k dat) (Some (log, host_page, hdirty))"
proof -
  let ?m = "vs_memory vs" and ?m' = "write_guest_page (vs_memory vs) i k dat"
  have v: "i < length ?m" "k < length (snd (?m ! i)) div DELTA_PAGE_SIZE" "length dat = DELTA_PAGE_SIZE" "tracked host_page vs i k log hdirty"
    using valid by auto
  note same = write_guest_page_shape [OF v(1-3)]
  have aligned: "list_all (\<lambda>x. length (snd x) mod DELTA_PAGE_SIZE = 0) ?m" "list_all (\<lambda>x. length (snd x) mod DELTA_PAGE_SIZE = 0) ?m'"
    using table_aligned table layout_same_shape(1) [OF table same(1)] by blast+
  have len: "length ?m' = length ?m"
    by (simp add: write_guest_page_def)
  have sizes: "length (snd (?m' ! j)) = length (snd (?m ! j))" if "j < length ?m" for j
    using that v length_set_page [OF v(2,3)] by (auto simp: write_guest_page_def nth_list_update)
  have pages: "page_at (image_of ?m') (region_first ?m j + q) = page_at (image_of ?m) (region_first ?m j + q)"
    if "j < length ?m" "q < length (snd (?m ! j)) div DELTA_PAGE_SIZE" "(j, q) \<noteq> (i, k)" for j q
  proof -
    have "page_at (snd (?m' ! j)) q = page_at (snd (?m ! j)) q"
      using that v(1) page_at_set_page [OF v(2,3), of q] by (auto simp: write_guest_page_def nth_list_update)
    then show ?thesis
      using page_in_region [OF aligned(1) that(1,2)] page_in_region [OF aligned(2), of j q] that sizes [OF that(1)] len same(2) by simp
  qed
  show ?thesis
    unfolding log_names_def option.case prod.case
  proof (intro conjI allI impI)
    show "length hdirty = length ?m'"
      using names v(4) len by (simp add: log_names_def tracked_def)
    fix j q assume j: "j < length ?m'" and q: "q < length (snd (?m' ! j)) div DELTA_PAGE_SIZE"
    have old: "page_at (image_of bm) (region_first ?m j + q) = page_at (image_of ?m) (region_first ?m j + q) \<or> page_flagged host_page (vs_guest_log vs ! j) (vs_host_dirty vs ! j) q"
      using names j q len sizes by (simp add: log_names_def)
    have flagged: "page_flagged host_page (log ! j) (hdirty ! j) q \<or> \<not> page_flagged host_page (vs_guest_log vs ! j) (vs_host_dirty vs ! j) q \<and> (j, q) \<noteq> (i, k)"
      using v(4) j q len sizes by (simp add: tracked_def)
    then show "page_at (image_of bm) (region_first ?m' j + q) = page_at (image_of ?m') (region_first ?m' j + q) \<or> page_flagged host_page (log ! j) (hdirty ! j) q"
      using old pages [of j q] j q len sizes same(2) by auto
  qed
qed

definition window_ok :: "target_arch \<Rightarrow> 'b \<Rightarrow> nat \<Rightarrow> ('b, 'v, 'm) vm_session \<Rightarrow> bool" where
  "window_ok arch backend host_page vs \<longleftrightarrow> (\<forall>b. vs_dirty_base vs = Some b \<longrightarrow>
     (\<exists>bm. denotes arch backend (vs_store vs) b bm \<and> shape bm = shape (vs_memory vs) \<and> log_names bm (vs_memory vs) (Some (vs_guest_log vs, host_page, vs_host_dirty vs))))"

definition memory_ok :: "guest_memory \<Rightarrow> bool" where
  "memory_ok m \<longleftrightarrow> shape_ok (shape m) \<and> (\<exists>rs. memory_region_table m = Inr rs)"

definition saved_ok :: "target_arch \<Rightarrow> 'b \<Rightarrow> ('b, 'v, 'm) snapshot_store \<Rightarrow> (string \<times> guest_memory) list \<Rightarrow> bool" where
  "saved_ok arch backend store saved \<longleftrightarrow> list_all (\<lambda>(name, m). denotes arch backend store name m) saved"

definition session_inv :: "target_arch \<Rightarrow> 'b \<Rightarrow> nat \<Rightarrow> ('b, 'v, 'm) vm_session \<times> (string \<times> guest_memory) list \<Rightarrow> bool" where
  "session_inv arch backend host_page s \<longleftrightarrow>
     memory_ok (vs_memory (fst s)) \<and> window_ok arch backend host_page (fst s) \<and> saved_ok arch backend (vs_store (fst s)) (snd s)"

lemma window_log_good:
  assumes inv: "window_ok arch backend host_page vs" and taken: "take_window hv io base vs = (Inr guest_dirty, vs1)" and base: "base = Some b"
  shows "log_good arch backend (vs_store vs) b (vs_memory vs) (map_option (\<lambda>log. (log, host_page, vs_host_dirty vs)) guest_dirty)"
proof (cases "guest_dirty = None")
  case True
  then show ?thesis
    by (simp add: log_good_def log_names_def split: sum.split)
next
  case False
  then have armed: "vs_dirty_base vs = Some b" "guest_dirty = Some (vs_guest_log vs)"
    using taken base by (cases hv; auto simp: take_window_def rbind_eq_Inr split: if_splits)+
  then obtain bm where bm: "denotes arch backend (vs_store vs) b bm" "shape bm = shape (vs_memory vs)" "log_names bm (vs_memory vs) (Some (vs_guest_log vs, host_page, vs_host_dirty vs))"
    using inv by (auto simp: window_ok_def)
  then show ?thesis
    using denotes_unique [OF bm(1) _ _ bm(2)] armed(2) by (auto simp: log_good_def split: sum.split)
qed

lemma write_denotes:
  assumes written: "write_snapshot arch backend name base live dirty (\<lambda>rs d. snap\<lparr>sn_mem_regions := rs, sn_delta := d\<rparr>) store = Inr store'" and fresh: "store name = None" and ok: "shape_ok (shape live)"
    and good: "\<And>b. base = Some b \<Longrightarrow> log_good arch backend store b live dirty"
  shows "denotes arch backend store' name live" "store b = Some img \<Longrightarrow> store' b = Some img"
proof -
  have more: "store' b = Some img" if "store b = Some img" for b img
    using written fresh that by (auto simp: write_snapshot_def Let_def rbind_eq_Inr)
  then show "store b = Some img \<Longrightarrow> store' b = Some img" .
  have "\<exists>img. read_snapshot arch backend store' name = Inr img \<and> load_memory_chain arch backend store' img mem = Inr live" if "shape mem = shape live" for mem
    by (rule write_loads [OF written ok _ good _ that]) (auto intro: read_snapshot_extends [of store store', OF more] load_layer_extends [of store store', OF more])
  then show "denotes arch backend store' name live"
    unfolding denotes_def by (metis sum.inject(2))
qed

lemma take_window_frame: "take_window hv io base vs = (taken, vs1) \<Longrightarrow> vs_memory vs1 = vs_memory vs \<and> vs_store vs1 = vs_store vs \<and> vs_host_dirty vs1 = vs_host_dirty vs"
  by (auto simp: take_window_def split: if_splits)

lemma take_window_ok: "window_ok arch backend host_page vs \<Longrightarrow> take_window hv io base vs = (taken, vs1) \<Longrightarrow> window_ok arch backend host_page vs1"
  by (auto simp: take_window_def window_ok_def split: if_splits)

lemma window_extends:
  assumes "window_ok arch backend host_page vs" "\<And>b img. vs_store vs b = Some img \<Longrightarrow> store' b = Some img"
  shows "window_ok arch backend host_page (vs\<lparr>vs_store := store'\<rparr>)"
  using assms(1) denotes_extends [of "vs_store vs" store', OF assms(2)] unfolding window_ok_def by fastforce

lemma saved_extends:
  assumes "saved_ok arch backend store saved" "\<And>b img. store b = Some img \<Longrightarrow> store' b = Some img"
  shows "saved_ok arch backend store' saved"
  using assms(1) denotes_extends [of store store', OF assms(2)] by (auto simp: saved_ok_def list_all_iff)

lemma log_names_keeps:
  "log_names bm (vs_memory vs) (Some (vs_guest_log vs, host_page, vs_host_dirty vs)) \<Longrightarrow> keeps_flags host_page vs log \<Longrightarrow>
   log_names bm (vs_memory vs) (Some (log, host_page, vs_host_dirty vs))"
  unfolding log_names_def keeps_flags_def by fastforce

lemma take_window_kept: "take_window hv io base vs = (taken, vs1) \<Longrightarrow> vs_dirty_base vs1 \<noteq> None \<Longrightarrow> vs1 = vs"
  by (auto simp: take_window_def split: if_splits)

definition arm_safe :: "nat \<Rightarrow> ('b, 'v, 'm) snapshot_env \<Rightarrow> ('b, 'v, 'm) vm_session \<Rightarrow> bool" where
  "arm_safe host_page env vs \<longleftrightarrow> ((\<exists>e. se_arm env = Inl e) \<and> vs_dirty_base vs \<noteq> None \<longrightarrow> keeps_flags host_page vs (se_rearmed env))"

lemma arm_fails: "arm_dirty_tracking hv io = Inl e \<Longrightarrow> io = Inl e"
  by (cases hv) (auto simp: rbind_def split: sum.splits)

lemma arm_window_ok:
  assumes "window_ok arch backend host_page vs" "denotes arch backend (vs_store vs) name (vs_memory vs)" "arm_window hv env name vs = (res, vs')"
    and "arm_safe host_page env vs"
  shows "window_ok arch backend host_page vs' \<and> vs_memory vs' = vs_memory vs \<and> vs_store vs' = vs_store vs"
proof (cases "arm_dirty_tracking hv (se_arm env)")
  case (Inl e)
  then have keep: "vs_dirty_base vs \<noteq> None \<longrightarrow> keeps_flags host_page vs (se_rearmed env)"
    using assms(4) arm_fails by (auto simp: arm_safe_def)
  then have "window_ok arch backend host_page (vs\<lparr>vs_guest_log := se_rearmed env\<rparr>)"
    using assms(1) log_names_keeps [of _ vs host_page "se_rearmed env"] by (auto simp: window_ok_def)
  then show ?thesis
    using assms(3) Inl by (auto simp: arm_window_def)
next
  case (Inr armed)
  then show ?thesis
    using assms log_names_same [of "reset_dirty (vs_memory vs)" "vs_memory vs" "se_rearmed env" host_page]
    by (auto simp: arm_window_def window_ok_def reset_dirty_def split: if_splits)
qed

lemma vmm_snapshot_inv:
  assumes inv: "session_inv arch backend host_page (vs, saved)" and fresh: "vs_store vs name = None" "arm_safe host_page env vs" and run: "vmm_snapshot arch backend hv host_page env name base track vs = (res, vs')"
  shows "session_inv arch backend host_page (vs', case res of Inl _ \<Rightarrow> saved | Inr _ \<Rightarrow> (name, vs_memory vs) # saved)"
proof (cases "vs' = vs \<and> (\<exists>e. res = Inl e)")
  case True
  then show ?thesis
    using inv by auto
next
  case False
  obtain snap taken vs1 where t: "se_collected env = Inr snap" "take_window hv (se_take env) base vs = (taken, vs1)"
    using run False by (auto simp: vmm_snapshot_def split: run_state.splits sum.splits prod.splits)
  note frame = take_window_frame [OF t(2)]
  have parts: "memory_ok (vs_memory vs)" "window_ok arch backend host_page vs" "window_ok arch backend host_page vs1" "saved_ok arch backend (vs_store vs) saved"
    using inv take_window_ok [OF _ t(2)] by (auto simp: session_inv_def)
  have step: "(case taken of Inl e \<Rightarrow> (Inl e, vs1) | Inr guest_dirty \<Rightarrow>
      (case write_snapshot arch backend name base (vs_memory vs) (map_option (\<lambda>log. (log, host_page, vs_host_dirty vs)) guest_dirty) (\<lambda>rs d. snap\<lparr>sn_mem_regions := rs, sn_delta := d\<rparr>) (vs_store vs) of
         Inl e \<Rightarrow> (Inl e, vs1)
       | Inr store' \<Rightarrow> (case (if track then arm_window hv env name (vs1\<lparr>vs_store := store'\<rparr>) else (Inr (), vs1\<lparr>vs_store := store'\<rparr>)) of
           (Inl e, vs2) \<Rightarrow> (Inl e, vs2) | (Inr _, vs2) \<Rightarrow> (se_commit env, vs2)))) = (res, vs')"
    using run False t frame by (cases "vs_gate vs"; cases taken) (auto simp: vmm_snapshot_def)
  have failed: ?thesis if "res = Inl e" "vs' = vs1" for e
    using that parts frame by (simp add: session_inv_def)
  show ?thesis
  proof (cases taken)
    case (Inr guest_dirty)
    let ?outcome = "write_snapshot arch backend name base (vs_memory vs) (map_option (\<lambda>log. (log, host_page, vs_host_dirty vs)) guest_dirty) (\<lambda>rs d. snap\<lparr>sn_mem_regions := rs, sn_delta := d\<rparr>) (vs_store vs)"
    show ?thesis
    proof (cases ?outcome)
      case (Inr store')
      note written = write_denotes [OF Inr fresh(1) _ window_log_good [OF parts(2) t(2) [unfolded \<open>taken = Inr guest_dirty\<close>]]]
      have new: "denotes arch backend store' name (vs_memory vs)" and more: "\<And>b img. vs_store vs b = Some img \<Longrightarrow> store' b = Some img"
        using written parts(1) by (auto simp: memory_ok_def)
      let ?vs2 = "vs1\<lparr>vs_store := store'\<rparr>"
      have ok2: "window_ok arch backend host_page ?vs2" "saved_ok arch backend store' saved"
        using window_extends [OF parts(3)] saved_extends [OF parts(4) more] more frame by auto
      have "window_ok arch backend host_page vs' \<and> vs_memory vs' = vs_memory vs \<and> vs_store vs' = store'"
      proof (cases track)
        case True
        obtain res2 vs2 where arm: "arm_window hv env name ?vs2 = (res2, vs2)"
          by fastforce
        have "vs2 = vs'"
          using step Inr \<open>taken = Inr guest_dirty\<close> True arm by (auto split: sum.splits)
        moreover have "arm_safe host_page env ?vs2"
          using fresh(2) take_window_kept [OF t(2)] by (auto simp: arm_safe_def keeps_flags_def)
        ultimately show ?thesis
          using arm_window_ok [OF ok2(1) _ arm] new frame by simp
      qed (use step Inr \<open>taken = Inr guest_dirty\<close> ok2(1) frame in auto)
      then show ?thesis
        using parts(1) ok2(2) new by (auto simp: session_inv_def saved_ok_def split: sum.split)
    qed (use step \<open>taken = Inr guest_dirty\<close> failed in auto)
  qed (use step failed in auto)
qed

lemma session_step_inv: "session_inv arch backend host_page s \<Longrightarrow> valid_event host_page (fst s) ev \<Longrightarrow> session_inv arch backend host_page (session_step arch backend hv host_page ev s)"
proof (cases ev)
  case (Wrote i k dat log hdirty)
  assume inv: "session_inv arch backend host_page s" and valid: "valid_event host_page (fst s) ev"
  obtain vs saved where s: "s = (vs, saved)"
    by (cases s)
  obtain rs where table: "memory_region_table (vs_memory vs) = Inr rs"
    using inv s by (auto simp: session_inv_def memory_ok_def)
  have same: "shape (write_guest_page (vs_memory vs) i k dat) = shape (vs_memory vs)"
    using valid s Wrote by (intro write_guest_page_shape) auto
  have "memory_ok (write_guest_page (vs_memory vs) i k dat)"
    using inv s layout_same_shape(1) [OF table same] by (simp add: session_inv_def memory_ok_def same)
  moreover have "log_names bm (write_guest_page (vs_memory vs) i k dat) (Some (log, host_page, hdirty))" if "log_names bm (vs_memory vs) (Some (vs_guest_log vs, host_page, vs_host_dirty vs))" for bm
    using log_names_write [OF that table, of i k dat log hdirty] valid s Wrote by simp
  moreover have "window_ok arch backend host_page vs" "saved_ok arch backend (vs_store vs) saved"
    using inv s by (simp_all add: session_inv_def)
  ultimately show ?thesis
    using s Wrote same unfolding session_inv_def window_ok_def by simp blast
next
  case (SetGate g)
  assume "session_inv arch backend host_page s"
  then show ?thesis
    using SetGate by (cases s) (auto simp: session_inv_def window_ok_def)
next
  case (Snapshot env name base track)
  assume inv: "session_inv arch backend host_page s" and valid: "valid_event host_page (fst s) ev"
  obtain vs saved res vs' where s: "s = (vs, saved)" and run: "control_snapshot arch backend hv host_page True env name base track vs = (res, vs')"
    by (cases s) (metis surj_pair)
  have "session_inv arch backend host_page (vs', case res of Inl _ \<Rightarrow> saved | Inr _ \<Rightarrow> (name, vs_memory vs) # saved)"
    using run inv s valid Snapshot vmm_snapshot_inv [of arch backend host_page vs saved name env hv base track res vs'] by (auto simp: control_snapshot_def arm_safe_def split: sum.splits)
  then show ?thesis
    using s run Snapshot by (cases res) auto
qed

lemma session_run_inv: "session_inv arch backend host_page s \<Longrightarrow> valid_run arch backend hv host_page evs s \<Longrightarrow> session_inv arch backend host_page (session_run arch backend hv host_page evs s)"
proof (induction evs arbitrary: s)
  case (Cons ev evs)
  then show ?case
    using session_step_inv [OF Cons.prems(1), of ev hv] by simp
qed simp

text \<open>
  C35: Every snapshot of a session stays restorable. Run a machine from the start, with any writes by its guest and its devices, as long as each is recorded in the kernel's log or in the host's bitmap, and any snapshot commands, full or against any base,
  arming or using the dirty-page window or not, failing at any point, as long as each names a directory that does not exist yet and an arming that fails while an earlier window is open does not clear flags of that window. Then every snapshot whose
  command reported success can be read at the end, and loading it gives exactly the memory of the moment it was taken.
\<close>

theorem session_snapshots_restore:
  assumes start: "shape_ok (shape (vs_memory vs))" "memory_region_table (vs_memory vs) = Inr rs" "vs_dirty_base vs = None"
    and run: "valid_run arch backend hv host_page evs (vs, [])" "session_run arch backend hv host_page evs (vs, []) = (vs', saved)"
    and taken: "(name, m) \<in> set saved" "shape mem = shape m"
  shows "\<exists>img. read_snapshot arch backend (vs_store vs') name = Inr img \<and> load_memory_chain arch backend (vs_store vs') img mem = Inr m"
proof -
  have "session_inv arch backend host_page (vs, [])"
    using start by (simp add: session_inv_def memory_ok_def window_ok_def saved_ok_def)
  from session_run_inv [OF this run(1)] have "denotes arch backend (vs_store vs') name m"
    using taken(1) unfolding run(2) by (auto simp: session_inv_def saved_ok_def list_all_iff)
  then show ?thesis
    using taken(2) by (auto simp: denotes_def)
qed

text \<open>One megabyte whose first page is filled with a byte.\<close>

definition demo_mem :: "u8 \<Rightarrow> guest_memory" where
  "demo_mem b = [(0, replicate 4096 b @ replicate 1044480 0)]"

definition demo_env :: "(unit, unit, unit) snapshot_env" where
  "demo_env = \<lparr>se_collected = Inr (demo_machine [] None), se_take = Inr (), se_arm = Inr (), se_rearmed = [[0, 0, 0, 0]], se_commit = Inr ()\<rparr>"

definition demo_full :: "u8 \<Rightarrow> (unit, unit, unit) snapshot_image" where
  "demo_full b = \<lparr>si_snapshot = demo_machine demo_regions None, si_memory_file = image_of (demo_mem b)\<rparr>"

definition demo_delta_on :: "string \<Rightarrow> u8 \<Rightarrow> (unit, unit, unit) snapshot_image" where
  "demo_delta_on base b = \<lparr>si_snapshot = demo_machine demo_regions (Some \<lparr>dm_base = base, dm_page_size = 4096, dm_changed = 1 # replicate 31 0\<rparr>), si_memory_file = replicate 4096 b\<rparr>"

lemma demo_mem_table: "memory_region_table (demo_mem b) = Inr demo_regions" "shape (demo_mem b) = [(0, 1048576)]" "shape_ok (shape (demo_mem b))" "length (image_of (demo_mem b)) = 1048576"
  by (simp_all add: memory_region_table_def demo_mem_def demo_regions_def checked_add_u64_def ensure_def DELTA_PAGE_SIZE_def shape_ok_def)

lemma demo_mem_page: "p < 256 \<Longrightarrow> x \<noteq> y \<Longrightarrow> page_at (image_of (demo_mem x)) p \<noteq> page_at (image_of (demo_mem y)) p \<longleftrightarrow> p = 0"
  by (cases p) (simp_all add: page_at_def DELTA_PAGE_SIZE_def demo_mem_def replicate_eq_replicate)

lemma demo_full_read: "store name = Some (demo_full b) \<Longrightarrow> read_snapshot X86_64 () store name = Inr (demo_full b)"
  unfolding demo_full_def by (rule read_written) (simp_all add: demo_accepted demo_mem_table)

lemma demo_delta_checked: "is_safe_snapshot_name b \<Longrightarrow> validate_delta_memory \<lparr>dm_base = b, dm_page_size = 4096, dm_changed = 1 # replicate 31 0\<rparr> 1048576 4096 = Inr ()"
  using demo_delta_valid by (simp add: validate_delta_memory_def demo_delta_def DELTA_PAGE_SIZE_def)

lemma demo_delta_accepted: "validate_delta_memory d 1048576 n = Inr () \<Longrightarrow> validate_snapshot_metadata X86_64 () (Inr n) (demo_machine demo_regions (Some d)) = Inr ()"
  using demo_accepted demo_layout [of "Some d"] demo_layout [of None]
  by (simp add: validate_snapshot_metadata_def validate_memory_regions_def validate_common_def validate_snapshot_header_def rbind_unit demo_machine_def)

lemma demo_machine_update: "demo_machine [] None\<lparr>sn_mem_regions := rs, sn_delta := d\<rparr> = demo_machine rs d"
  by (simp add: demo_machine_def)

lemma demo_full_write:
  "write_snapshot X86_64 () name None (demo_mem b) dirty (\<lambda>rs d. demo_machine [] None\<lparr>sn_mem_regions := rs, sn_delta := d\<rparr>) store = Inr (store(name \<mapsto> demo_full b))"
  using demo_accepted demo_mem_table [of b] by (simp add: write_snapshot_def dump_memory_file_eq demo_full_def image_of_def demo_machine_update)

lemma demo_pages: "changed_pages (\<lambda>p. p = 0) (image_of (demo_mem b)) 256 = replicate 4096 b"
proof -
  have "filter (\<lambda>p. p = 0) [0..<256] = [0]"
    by (simp add: upt_conv_Cons [of 0 256])
  then show ?thesis
    by (simp add: changed_pages_def page_at_def DELTA_PAGE_SIZE_def demo_mem_def)
qed

lemma demo_delta_write:
  assumes base: "store b = Some (demo_full x)" "is_safe_snapshot_name b" and "x \<noteq> y"
  shows "write_snapshot X86_64 () name (Some b) (demo_mem y) (Some ([[1, 0, 0, 0]], 4096, [\<lambda>_. False])) (\<lambda>rs d. demo_machine [] None\<lparr>sn_mem_regions := rs, sn_delta := d\<rparr>) store
     = Inr (store(name \<mapsto> demo_delta_on b y))"
proof -
  let ?spec = "\<lparr>rd_base = image_of (demo_mem x), rd_live = image_of (demo_mem y), rd_pages = 256, rd_first_page = 0\<rparr>" and ?log = "[[1, 0, 0, 0]] :: u64 list list"
  have view: "base_view_of X86_64 () store (demo_full x) demo_regions 1048576 = Inr (Mapped (image_of (demo_mem x)))"
    by (simp add: base_view_of_def demo_full_def demo_machine_def map_base_def ensure_def demo_mem_table demo_mem_def)
  have specs: "region_diff_specs (Mapped (image_of (demo_mem x))) (demo_mem y) 0 demo_regions = Inr [?spec]"
    by (simp add: demo_mem_def demo_regions_def DELTA_PAGE_SIZE_def)
  have total: "regions_total_len demo_regions = Inr 1048576"
    by (rule demo_table)
  have "specs_cover (image_of (demo_mem x)) (image_of (demo_mem y)) 0 [?spec]"
    by simp
  note cover = this
  have "page_flagged 4096 [1, 0, 0, 0] (\<lambda>_. False) 0"
    by (simp add: page_flagged_def)
  then have complete: "\<forall>i<length [?spec]. log_complete 4096 ([?spec] ! i) (?log ! i) ([\<lambda>_. False] ! i)"
    using demo_mem_page [OF _ \<open>x \<noteq> y\<close>] by (auto simp: log_complete_def)
  obtain r where r: "diff_dirty_pages [?spec] [\<lambda>_. False] 4096 ?log = Inr r"
    by (simp add: diff_dirty_pages_def ensure_def DELTA_PAGE_SIZE_def div_ceil_def)
  have "r = (1 # replicate 31 0, replicate 4096 y)"
    using diff_dirty_pages_eq [OF cover _ complete r] diff_pages_parallel_eq [OF cover] changed_cong [of 256 _ "\<lambda>p. p = 0", OF demo_mem_page [OF _ \<open>x \<noteq> y\<close>]] demo_changed demo_pages [of y]
    by simp
  then have dump: "dump_delta_memory_file X86_64 () store b (demo_mem y) (Some (?log, 4096, [\<lambda>_. False])) = Inr (demo_regions, \<lparr>dm_base = b, dm_page_size = 4096, dm_changed = 1 # replicate 31 0\<rparr>, replicate 4096 y)"
    using demo_mem_table demo_full_read [where store = store and name = b and b = x] view specs total base r by (simp add: dump_delta_memory_file_def base_dir_of_def ensure_def DELTA_PAGE_SIZE_def)
  show ?thesis
    using dump demo_delta_accepted [OF demo_delta_checked [OF base(2)]] by (simp add: write_snapshot_def demo_delta_on_def demo_machine_update)
qed

definition demo_session :: "(unit, unit, unit) vm_session" where
  "demo_session = \<lparr>vs_memory = demo_mem 0, vs_gate = Paused, vs_dirty_base = None, vs_guest_log = [[0, 0, 0, 0]], vs_host_dirty = [\<lambda>_. False], vs_store = Map.empty\<rparr>"

definition demo_events :: "(unit, unit, unit) session_event list" where
  "demo_events = [Snapshot demo_env ''a'' None True, Wrote 0 0 (replicate 4096 1) [[1, 0, 0, 0]] [\<lambda>_. False], Snapshot demo_env ''b'' (Some ''a'') False]"

lemma demo_names: "is_safe_snapshot_name ''a''" "is_safe_snapshot_name ''b''"
  by (simp_all add: is_safe_snapshot_name_def MAX_SNAPSHOT_NAME_BYTES_def safe_name_char_def char_between_def)

lemma demo_first:
  "session_step X86_64 () Kvm 4096 (Snapshot demo_env ''a'' None True) (demo_session, []) = (demo_session\<lparr>vs_dirty_base := Some ''a'', vs_store := [''a'' \<mapsto> demo_full 0]\<rparr>, [(''a'', demo_mem 0)])"
  using demo_full_write [of "''a''" 0 None Map.empty] demo_names
  by (simp add: control_snapshot_def vmm_snapshot_def take_window_def arm_window_def demo_session_def demo_env_def ensure_def reset_dirty_def demo_mem_def)

lemma demo_second:
  "session_step X86_64 () Kvm 4096 (Wrote 0 0 (replicate 4096 1) [[1, 0, 0, 0]] [\<lambda>_. False]) (demo_session\<lparr>vs_dirty_base := Some ''a'', vs_store := [''a'' \<mapsto> demo_full 0]\<rparr>, saved)
     = (demo_session\<lparr>vs_memory := demo_mem 1, vs_dirty_base := Some ''a'', vs_guest_log := [[1, 0, 0, 0]], vs_store := [''a'' \<mapsto> demo_full 0]\<rparr>, saved)"
  by (simp add: demo_session_def write_guest_page_def set_page_def demo_mem_def DELTA_PAGE_SIZE_def)

lemma demo_third:
  "session_step X86_64 () Kvm 4096 (Snapshot demo_env ''b'' (Some ''a'') False) (demo_session\<lparr>vs_memory := demo_mem 1, vs_dirty_base := Some ''a'', vs_guest_log := [[1, 0, 0, 0]], vs_store := [''a'' \<mapsto> demo_full 0]\<rparr>, saved)
     = (demo_session\<lparr>vs_memory := demo_mem 1, vs_store := [''a'' \<mapsto> demo_full 0, ''b'' \<mapsto> demo_delta_on ''a'' 1]\<rparr>, (''b'', demo_mem 1) # saved)"
  using demo_delta_write [of "[''a'' \<mapsto> demo_full 0]" "''a''" 0 1 "''b''"] demo_names
  by (simp add: control_snapshot_def vmm_snapshot_def take_window_def demo_session_def demo_env_def ensure_def cleared_def)

lemma demo_session_run:
  "session_run X86_64 () Kvm 4096 demo_events (demo_session, []) = (demo_session\<lparr>vs_memory := demo_mem 1, vs_store := [''a'' \<mapsto> demo_full 0, ''b'' \<mapsto> demo_delta_on ''a'' 1]\<rparr>, [(''b'', demo_mem 1), (''a'', demo_mem 0)])"
  unfolding demo_events_def session_run.simps demo_first demo_second demo_third ..

lemma demo_session_valid: "valid_run X86_64 () Kvm 4096 demo_events (demo_session, [])"
proof -
  have "\<not> page_flagged 4096 [0, 0, 0, 0] (\<lambda>_. False) k" if "k < 256" for k
  proof -
    have "[0, 0, 0, 0] = replicate 4 (0 :: u64)"
      by (simp add: numeral_eq_Suc)
    then have "[0, 0, 0, 0] ! (k div 64) = (0 :: u64)"
      using that by (simp only: nth_replicate)
    then show ?thesis
      by (simp add: page_flagged_def DELTA_PAGE_SIZE_def)
  qed
  moreover have "page_flagged 4096 [1, 0, 0, 0] (\<lambda>_. False) 0"
    by (simp add: page_flagged_def)
  ultimately have "page_flagged 4096 [1, 0, 0, 0] (\<lambda>_. False) k \<or> \<not> page_flagged 4096 [0, 0, 0, 0] (\<lambda>_. False) k \<and> k \<noteq> 0" if "k < 256" for k
    using that by (cases "k = 0") auto
  moreover have "se_arm demo_env = Inr ()"
    by (simp add: demo_env_def)
  ultimately show ?thesis
    unfolding demo_events_def valid_run.simps demo_first demo_second by (simp add: demo_session_def tracked_def demo_mem_def DELTA_PAGE_SIZE_def)
qed

text \<open>A machine that saves itself, writes its first page and saves the difference: the difference gives the later memory.\<close>

theorem session_snapshots_restore_witness:
  "\<exists>img. read_snapshot X86_64 () [''a'' \<mapsto> demo_full 0, ''b'' \<mapsto> demo_delta_on ''a'' 1] ''b'' = Inr img \<and>
     load_memory_chain X86_64 () [''a'' \<mapsto> demo_full 0, ''b'' \<mapsto> demo_delta_on ''a'' 1] img (demo_mem 7) = Inr (demo_mem 1)"
proof -
  have start: "shape_ok (shape (vs_memory demo_session))" "memory_region_table (vs_memory demo_session) = Inr demo_regions" "vs_dirty_base demo_session = None"
    using demo_mem_table by (simp_all add: demo_session_def)
  show ?thesis
    using session_snapshots_restore [OF start demo_session_valid demo_session_run, of "''b''" "demo_mem 1" "demo_mem 7"] demo_mem_table by simp
qed

section \<open>Chains that bite their tail\<close>









end
