(* ===== verification/SnapshotFiles.thy ===== *)
theory SnapshotFiles
  imports SnapshotChain
begin

text \<open>
  The files of a snapshot directory, \<^verbatim>\<open>vmm/src/snapshot/mod.rs\<close>: a generation is written to temporary files, renamed, and then selected by renaming a manifest with its number; readers look at the selected generation only. Each operation
  on the directory can succeed, fail, or be the moment of a crash, and an interrupted one may or may not have taken effect; a write that is interrupted leaves any contents in its file, and operations become durable in their order: a file's contents with the operation that writes it, which includes its \<^verbatim>\<open>sync_all\<close>, and a directory entry with its rename, so that \<open>SyncDir\<close> changes nothing. The encoding of the state is that of another crate, so a
  state file holds the state itself.
\<close>

section \<open>Directories\<close>

datatype ('b, 'v, 'm) snap_file = MemoryFile bytes | StateFile "('b, 'v, 'm) vm_snapshot" | TextFile string

type_synonym ('b, 'v, 'm) snap_dir = "string \<Rightarrow> ('b, 'v, 'm) snap_file option"

definition CURRENT_GENERATION_FILE :: string where
  "CURRENT_GENERATION_FILE = ''current-generation''"

definition MANIFEST_TMP_FILE :: string where
  "MANIFEST_TMP_FILE = ''current-generation.tmp''"

definition MAX_MANIFEST_BYTES :: nat where
  "MAX_MANIFEST_BYTES = 32"

definition generation_state_file :: "nat \<Rightarrow> string" where
  "generation_state_file g = ''vmstate.'' @ dec_digits g @ ''.bin''"

definition generation_memory_file :: "nat \<Rightarrow> string" where
  "generation_memory_file g = ''memory.'' @ dec_digits g @ ''.bin''"

definition generation_state_tmp_file :: "nat \<Rightarrow> string" where
  "generation_state_tmp_file g = ''vmstate.'' @ dec_digits g @ ''.bin.tmp''"

definition generation_memory_tmp_file :: "nat \<Rightarrow> string" where
  "generation_memory_tmp_file g = ''memory.'' @ dec_digits g @ ''.bin.tmp''"

definition parse_generation :: "string \<Rightarrow> nat snap_result" where
  "parse_generation contents =
     (let generation = trim contents in
      rbind (ensure (generation \<noteq> [] \<and> list_all is_digit generation) ''invalid current-generation contents'') (\<lambda>_.
      case parse_uint u64_max generation of
        None \<Rightarrow> Inl ''invalid current-generation''
      | Some g \<Rightarrow> rbind (ensure (g \<noteq> 0) ''current-generation must be nonzero'') (\<lambda>_. Inr g)))"

definition current_generation :: "('b, 'v, 'm) snap_dir \<Rightarrow> nat option snap_result" where
  "current_generation d = (case d CURRENT_GENERATION_FILE of
     None \<Rightarrow> Inr None
   | Some (TextFile contents) \<Rightarrow>
       rbind (ensure (length contents \<le> MAX_MANIFEST_BYTES) ''current-generation exceeds its limit'') (\<lambda>_.
       rbind (parse_generation contents) (\<lambda>g. Inr (Some g)))
   | Some _ \<Rightarrow> Inl ''reading current-generation'')"

definition next_generation :: "('b, 'v, 'm) snap_dir \<Rightarrow> nat snap_result" where
  "next_generation d = rbind (current_generation d) (\<lambda>cur. case cur of
     Some g \<Rightarrow> (case checked_add_u64 g 1 of None \<Rightarrow> Inl ''snapshot generation overflow'' | Some g' \<Rightarrow> Inr g')
   | None \<Rightarrow> Inr 1)"

definition selected_image :: "('b, 'v, 'm) snap_dir \<Rightarrow> ('b, 'v, 'm) snapshot_image option" where
  "selected_image d = (case current_generation d of
     Inr (Some g) \<Rightarrow> (case (d (generation_state_file g), d (generation_memory_file g)) of
         (Some (StateFile s), Some (MemoryFile m)) \<Rightarrow> Some \<lparr>si_snapshot = s, si_memory_file = m\<rparr>
       | _ \<Rightarrow> None)
   | _ \<Rightarrow> None)"

section \<open>Operations\<close>

datatype ('b, 'v, 'm) fs_op =
    CreateNew string
  | Contents string "('b, 'v, 'm) snap_file"
  | RenameFile string string
  | SyncDir

fun fs_apply :: "('b, 'v, 'm) fs_op \<Rightarrow> ('b, 'v, 'm) snap_dir \<Rightarrow> ('b, 'v, 'm) snap_dir option" where
  "fs_apply (CreateNew p) d = (if d p = None then Some (d(p \<mapsto> TextFile [])) else None)"
| "fs_apply (Contents p c) d = Some (d(p \<mapsto> c))"
| "fs_apply (RenameFile p q) d = (case d p of None \<Rightarrow> None | Some c \<Rightarrow> Some (d(p := None, q \<mapsto> c)))"
| "fs_apply SyncDir d = Some d"

text \<open>What the system answers to one operation: it is done, it fails, or the machine crashes; interrupted, it took effect or not, and a write left the given contents.\<close>

datatype ('b, 'v, 'm) io_outcome = Done | Fails bool "('b, 'v, 'm) snap_file" | Crashes bool "('b, 'v, 'm) snap_file"

datatype run_result = Finished | Failed | Crashed

fun interrupted :: "('b, 'v, 'm) fs_op \<Rightarrow> bool \<Rightarrow> ('b, 'v, 'm) snap_file \<Rightarrow> ('b, 'v, 'm) snap_dir \<Rightarrow> ('b, 'v, 'm) snap_dir" where
  "interrupted (Contents p c) took part d = d(p \<mapsto> part)"
| "interrupted op took part d = (if took then (case fs_apply op d of Some d' \<Rightarrow> d' | None \<Rightarrow> d) else d)"

fun run_ops :: "(nat \<Rightarrow> ('b, 'v, 'm) io_outcome) \<Rightarrow> nat \<Rightarrow> ('b, 'v, 'm) fs_op list \<Rightarrow> ('b, 'v, 'm) snap_dir \<Rightarrow> run_result \<times> ('b, 'v, 'm) snap_dir" where
  "run_ops io n [] d = (Finished, d)"
| "run_ops io n (op # ops) d = (case io n of
     Done \<Rightarrow> (case fs_apply op d of None \<Rightarrow> (Failed, d) | Some d' \<Rightarrow> run_ops io (Suc n) ops d')
   | Fails took part \<Rightarrow> (Failed, interrupted op took part d)
   | Crashes took part \<Rightarrow> (Crashed, interrupted op took part d))"

definition prepare_ops :: "nat \<Rightarrow> bytes \<Rightarrow> ('b, 'v, 'm) vm_snapshot \<Rightarrow> ('b, 'v, 'm) fs_op list" where
  "prepare_ops g fl snap =
     [CreateNew (generation_memory_tmp_file g), Contents (generation_memory_tmp_file g) (MemoryFile fl),
      CreateNew (generation_state_tmp_file g), Contents (generation_state_tmp_file g) (StateFile snap),
      RenameFile (generation_memory_tmp_file g) (generation_memory_file g), RenameFile (generation_state_tmp_file g) (generation_state_file g), SyncDir]"

definition publish_ops :: "nat \<Rightarrow> ('b, 'v, 'm) fs_op list" where
  "publish_ops g =
     [CreateNew MANIFEST_TMP_FILE, Contents MANIFEST_TMP_FILE (TextFile (dec_digits g @ [char_of (10 :: nat)])), RenameFile MANIFEST_TMP_FILE CURRENT_GENERATION_FILE, SyncDir]"

text \<open>Removing files is best effort: each of them goes or stays.\<close>

definition remove_files :: "(string \<Rightarrow> bool) \<Rightarrow> string list \<Rightarrow> ('b, 'v, 'm) snap_dir \<Rightarrow> ('b, 'v, 'm) snap_dir" where
  "remove_files removed ps d = (\<lambda>p. if p \<in> set ps \<and> removed p then None else d p)"

definition generation_files :: "nat \<Rightarrow> string list" where
  "generation_files g = [generation_memory_tmp_file g, generation_state_tmp_file g, generation_memory_file g, generation_state_file g]"

definition cleanup_unpublished_generation :: "(string \<Rightarrow> bool) \<Rightarrow> nat \<Rightarrow> ('b, 'v, 'm) snap_dir \<Rightarrow> ('b, 'v, 'm) snap_dir" where
  "cleanup_unpublished_generation removed g d = remove_files removed (generation_files g) d"

definition publish_generation :: "(nat \<Rightarrow> ('b, 'v, 'm) io_outcome) \<Rightarrow> (string \<Rightarrow> bool) \<Rightarrow> nat \<Rightarrow> ('b, 'v, 'm) snap_dir \<Rightarrow> run_result \<times> ('b, 'v, 'm) snap_dir" where
  "publish_generation io removed g d = (case run_ops io 7 (publish_ops g) d of
     (Failed, d') \<Rightarrow> (Failed, remove_files removed [MANIFEST_TMP_FILE] d')
   | r \<Rightarrow> r)"

definition write_generation :: "(nat \<Rightarrow> ('b, 'v, 'm) io_outcome) \<Rightarrow> (string \<Rightarrow> bool) \<Rightarrow> bytes \<Rightarrow> ('b, 'v, 'm) vm_snapshot \<Rightarrow> ('b, 'v, 'm) snap_dir \<Rightarrow> run_result \<times> ('b, 'v, 'm) snap_dir" where
  "write_generation io removed fl snap d = (case next_generation d of
     Inl _ \<Rightarrow> (Failed, d)
   | Inr g \<Rightarrow> (case run_ops io 0 (prepare_ops g fl snap) d of
       (Finished, d') \<Rightarrow> publish_generation io removed g d'
     | (Failed, d') \<Rightarrow> (Failed, cleanup_unpublished_generation removed g d')
     | (Crashed, d') \<Rightarrow> (Crashed, d')))"

section \<open>Atomicity\<close>

lemma dec_digits_bound: "n < 10 ^ k \<Longrightarrow> 0 < k \<Longrightarrow> length (dec_digits n) \<le> k"
proof (induction n arbitrary: k rule: dec_digits.induct)
  case (1 n)
  show ?case
  proof (cases "n < 10")
    case False
    then obtain j where k: "k = Suc j" "0 < j"
      using 1(2,3) by (cases k; cases "k - 1") auto
    then show ?thesis
      using 1(1) [OF False, of j] 1(2) False by (subst dec_digits.simps) (simp add: less_mult_imp_div_less)
  qed (use 1(3) in \<open>subst dec_digits.simps, simp\<close>)
qed

lemma digit_not_space: "is_digit c \<Longrightarrow> \<not> is_whitespace c"
proof -
  assume "is_digit c"
  then have digit: "48 \<le> (of_char c :: nat)"
    by (simp add: is_digit_def less_eq_char_def)
  have "n \<notin> {9, 10, 11, 12, 13, 32}" if "48 \<le> n" for n :: nat
    using that by auto
  from this [OF digit] show ?thesis
    unfolding is_whitespace_def .
qed

lemma trim_digits:
  assumes "list_all is_digit ds" "ds \<noteq> []" "is_whitespace c"
  shows "trim (ds @ [c]) = ds"
proof -
  have front: "dropWhile is_whitespace (ds @ [c]) = ds @ [c]"
    using assms digit_not_space by (cases ds) auto
  have "dropWhile is_whitespace (rev ds) = rev ds"
    using assms digit_not_space by (cases ds rule: rev_cases) auto
  then show ?thesis
    using front assms(3) by (simp add: trim_def)
qed

lemma parse_manifest:
  assumes "g \<noteq> 0" "g \<le> u64_max"
  shows "parse_generation (dec_digits g @ [char_of (10 :: nat)]) = Inr g" "length (dec_digits g @ [char_of (10 :: nat)]) \<le> MAX_MANIFEST_BYTES"
proof -
  have "trim (dec_digits g @ [char_of (10 :: nat)]) = dec_digits g"
    by (rule trim_digits) (auto simp: dec_digits_digits is_whitespace_def of_char_of)
  then show "parse_generation (dec_digits g @ [char_of (10 :: nat)]) = Inr g"
    using assms dec_digits_digits [of g] by (simp add: parse_generation_def parse_uint_dec_digits ensure_def)
  have "length (dec_digits g) \<le> 20"
    using assms(2) by (intro dec_digits_bound) simp_all
  then show "length (dec_digits g @ [char_of (10 :: nat)]) \<le> MAX_MANIFEST_BYTES"
    by (simp add: MAX_MANIFEST_BYTES_def)
qed

lemma next_generation_range: "next_generation d = Inr g \<Longrightarrow> g \<noteq> 0 \<and> g \<le> u64_max \<and> current_generation d \<noteq> Inr (Some g)"
proof -
  assume "next_generation d = Inr g"
  then obtain cur where cur: "current_generation d = Inr cur" "(case cur of Some h \<Rightarrow> (case checked_add_u64 h 1 of None \<Rightarrow> Inl ''snapshot generation overflow'' | Some g' \<Rightarrow> Inr g') | None \<Rightarrow> Inr 1) = Inr g"
    unfolding next_generation_def rbind_eq_Inr by blast
  show ?thesis
  proof (cases cur)
    case (Some h)
    then have "h + 1 \<le> u64_max" "g = h + 1"
      using cur(2) by (simp_all add: checked_add_u64_def split: if_splits)
    then show ?thesis
      using cur(1) Some by simp
  qed (use cur in simp)
qed

lemma name_distinct:
  "generation_state_file g = generation_state_file h \<longleftrightarrow> g = h" "generation_memory_file g = generation_memory_file h \<longleftrightarrow> g = h"
  "generation_state_file g \<noteq> generation_memory_file h" "generation_memory_file g \<noteq> generation_state_file h"
  "generation_state_tmp_file g \<noteq> generation_memory_tmp_file h" "generation_memory_tmp_file g \<noteq> generation_state_tmp_file h"
  by (auto simp: generation_state_file_def generation_memory_file_def generation_state_tmp_file_def generation_memory_tmp_file_def dec_digits_inj)

lemma tmp_distinct:
  "generation_state_tmp_file g \<noteq> generation_state_file h" "generation_state_tmp_file g \<noteq> generation_memory_file h" "generation_memory_tmp_file g \<noteq> generation_state_file h" "generation_memory_tmp_file g \<noteq> generation_memory_file h"
proof -
  have ends: "last (generation_state_file h) = CHR ''n''" "last (generation_memory_file h) = CHR ''n''" "last (generation_state_tmp_file g) = CHR ''p''" "last (generation_memory_tmp_file g) = CHR ''p''"
    by (simp_all add: generation_state_file_def generation_memory_file_def generation_state_tmp_file_def generation_memory_tmp_file_def)
  show "generation_state_tmp_file g \<noteq> generation_state_file h" "generation_state_tmp_file g \<noteq> generation_memory_file h" "generation_memory_tmp_file g \<noteq> generation_state_file h" "generation_memory_tmp_file g \<noteq> generation_memory_file h"
    using ends by (auto dest: arg_cong [of _ _ last])
qed

lemma manifest_distinct:
  "p \<in> set (generation_files g) \<Longrightarrow> p \<noteq> CURRENT_GENERATION_FILE" "p \<in> set (generation_files g) \<Longrightarrow> p \<noteq> MANIFEST_TMP_FILE" "MANIFEST_TMP_FILE \<noteq> CURRENT_GENERATION_FILE"
  by (auto simp: generation_files_def generation_state_file_def generation_memory_file_def generation_state_tmp_file_def generation_memory_tmp_file_def CURRENT_GENERATION_FILE_def MANIFEST_TMP_FILE_def)


fun op_paths :: "('b, 'v, 'm) fs_op \<Rightarrow> string set" where
  "op_paths (CreateNew p) = {p}"
| "op_paths (Contents p c) = {p}"
| "op_paths (RenameFile p q) = {p, q}"
| "op_paths SyncDir = {}"

lemma fs_apply_frame: "fs_apply op d = Some d' \<Longrightarrow> p \<notin> op_paths op \<Longrightarrow> d' p = d p"
  by (cases op) (auto split: if_splits option.splits)

lemma interrupted_frame: "p \<notin> op_paths op \<Longrightarrow> interrupted op took part d p = d p"
  by (cases op) (auto split: option.splits if_splits)

lemma run_ops_frame: "run_ops io n ops d = (r, d') \<Longrightarrow> \<forall>op\<in>set ops. p \<notin> op_paths op \<Longrightarrow> d' p = d p"
proof (induction ops arbitrary: n d)
  case (Cons op ops)
  then show ?case
    by (auto split: io_outcome.splits option.splits simp: interrupted_frame fs_apply_frame)
qed simp

text \<open>Files of a generation that is not selected do not matter.\<close>

lemma selected_frame:
  assumes "current_generation d \<noteq> Inr (Some g)" "\<And>p. p \<notin> set (MANIFEST_TMP_FILE # generation_files g) \<Longrightarrow> d' p = d p"
  shows "selected_image d' = selected_image d"
proof -
  have "CURRENT_GENERATION_FILE \<notin> set (MANIFEST_TMP_FILE # generation_files g)"
    using manifest_distinct(1) [of _ g] manifest_distinct(3) by auto
  then have cur: "current_generation d' = current_generation d"
    using assms(2) by (simp add: current_generation_def)
  have files: "d' (generation_state_file h) = d (generation_state_file h)" "d' (generation_memory_file h) = d (generation_memory_file h)" if "h \<noteq> g" for h
  proof -
    have "generation_state_file h \<in> set (generation_files h)" "generation_memory_file h \<in> set (generation_files h)"
      by (simp_all add: generation_files_def)
    then have "generation_state_file h \<notin> set (MANIFEST_TMP_FILE # generation_files g)" "generation_memory_file h \<notin> set (MANIFEST_TMP_FILE # generation_files g)"
      using that name_distinct tmp_distinct [of g h] manifest_distinct(2) [of _ h] by (auto simp: generation_files_def)
    then show "d' (generation_state_file h) = d (generation_state_file h)" "d' (generation_memory_file h) = d (generation_memory_file h)"
      using assms(2) by blast+
  qed
  show ?thesis
    using cur files assms(1) by (auto simp: selected_image_def split: sum.split option.split snap_file.split)
qed

lemma prepare_frame: "run_ops io n (prepare_ops g fl snap) d = (r, d') \<Longrightarrow> p \<notin> set (generation_files g) \<Longrightarrow> d' p = d p"
  by (erule run_ops_frame) (auto simp: prepare_ops_def generation_files_def)

lemma run_ops_finished: "run_ops io n (op # ops) d = (Finished, d') \<longleftrightarrow> io n = Done \<and> (\<exists>d1. fs_apply op d = Some d1 \<and> run_ops io (Suc n) ops d1 = (Finished, d'))"
  by (auto split: io_outcome.splits option.splits)

lemma prepared_files:
  assumes "run_ops io n (prepare_ops g fl snap) d = (Finished, d')"
  shows "d' (generation_memory_file g) = Some (MemoryFile fl)" "d' (generation_state_file g) = Some (StateFile snap)"
  using assms name_distinct tmp_distinct tmp_distinct [symmetric] unfolding prepare_ops_def run_ops_finished
  by (auto simp del: run_ops.simps(2) split: if_splits)

text \<open>The manifest is renamed into place or it is not.\<close>

lemma publish_cases:
  assumes "run_ops io n (publish_ops g) d = (r, d')"
  shows "(r \<noteq> Finished \<and> (\<forall>p. p \<noteq> MANIFEST_TMP_FILE \<longrightarrow> d' p = d p)) \<or>
     d' CURRENT_GENERATION_FILE = Some (TextFile (dec_digits g @ [char_of (10 :: nat)])) \<and> (\<forall>p. p \<noteq> MANIFEST_TMP_FILE \<and> p \<noteq> CURRENT_GENERATION_FILE \<longrightarrow> d' p = d p)"
  using assms manifest_distinct(3) by (auto simp: publish_ops_def split: io_outcome.splits if_splits)

lemma published:
  assumes "d' CURRENT_GENERATION_FILE = Some (TextFile (dec_digits g @ [char_of (10 :: nat)]))" "g \<noteq> 0" "g \<le> u64_max"
    "d' (generation_memory_file g) = Some (MemoryFile fl)" "d' (generation_state_file g) = Some (StateFile snap)"
  shows "selected_image d' = Some \<lparr>si_snapshot = snap, si_memory_file = fl\<rparr>"
  using assms(1,4,5) parse_manifest [OF assms(2,3)] by (simp add: selected_image_def current_generation_def ensure_def)

lemma publish_selects:
  assumes pub: "run_ops io n (publish_ops g) d1 = (q, d2)" and range: "g \<noteq> 0" "g \<le> u64_max" and files: "d1 (generation_memory_file g) = Some (MemoryFile fl)" "d1 (generation_state_file g) = Some (StateFile snap)"
    and ps: "set ps \<subseteq> {MANIFEST_TMP_FILE}"
  shows "q \<noteq> Finished \<and> (\<forall>p. p \<noteq> MANIFEST_TMP_FILE \<longrightarrow> d2 p = d1 p) \<or> selected_image (remove_files removed ps d2) = Some \<lparr>si_snapshot = snap, si_memory_file = fl\<rparr>"
  using publish_cases [OF pub]
proof
  assume new: "d2 CURRENT_GENERATION_FILE = Some (TextFile (dec_digits g @ [char_of (10 :: nat)])) \<and> (\<forall>p. p \<noteq> MANIFEST_TMP_FILE \<and> p \<noteq> CURRENT_GENERATION_FILE \<longrightarrow> d2 p = d1 p)"
  have "generation_memory_file g \<in> set (generation_files g)" "generation_state_file g \<in> set (generation_files g)"
    by (simp_all add: generation_files_def)
  then have "generation_memory_file g \<notin> {MANIFEST_TMP_FILE, CURRENT_GENERATION_FILE}" "generation_state_file g \<notin> {MANIFEST_TMP_FILE, CURRENT_GENERATION_FILE}"
    using manifest_distinct(1,2) [of _ g] by blast+
  then show ?thesis
    using new ps range files manifest_distinct(3) by (intro disjI2 published [where g = g]) (auto simp: remove_files_def)
qed blast

text \<open>
  C37: A snapshot directory changes at once or not at all. Whatever the system answers to the operations of a write, failing or crashing at any of them, with partly written files, with leftovers of earlier crashes in the directory, and with a clean-up
  that removes all, some or none of its files: afterwards the directory selects the image it selected before or the complete new one, and the new one if the write reported success.
\<close>

theorem snapshot_write_atomic:
  "case write_generation io removed fl snap d of (res, d') \<Rightarrow>
     selected_image d' \<in> (if res = Finished then {Some \<lparr>si_snapshot = snap, si_memory_file = fl\<rparr>} else {selected_image d, Some \<lparr>si_snapshot = snap, si_memory_file = fl\<rparr>})"
proof (cases "next_generation d")
  case (Inl e)
  then show ?thesis
    by (simp add: write_generation_def)
next
  case (Inr g)
  note range = next_generation_range [OF Inr]
  obtain r d1 where prep: "run_ops io 0 (prepare_ops g fl snap) d = (r, d1)"
    by (cases "run_ops io 0 (prepare_ops g fl snap) d")
  have same: "selected_image (remove_files removed ps d2) = selected_image d"
    if "set ps \<subseteq> set (MANIFEST_TMP_FILE # generation_files g)" "\<And>p. p \<noteq> MANIFEST_TMP_FILE \<Longrightarrow> d2 p = d1 p" for ps d2
    using that prepare_frame [OF prep] range by (intro selected_frame [of d g]) (auto simp: remove_files_def)
  show ?thesis
  proof (cases r)
    case Finished
    obtain q d2 where pub: "run_ops io 7 (publish_ops g) d1 = (q, d2)"
      by (cases "run_ops io 7 (publish_ops g) d1")
    have result: "write_generation io removed fl snap d = (q, if q = Failed then remove_files removed [MANIFEST_TMP_FILE] d2 else d2)"
      using Inr prep Finished pub by (cases q) (simp_all add: write_generation_def publish_generation_def)
    note files = prepared_files [OF prep [unfolded Finished]]
    have "selected_image (remove_files removed ps d2) = selected_image d \<and> q \<noteq> Finished \<or> selected_image (remove_files removed ps d2) = Some \<lparr>si_snapshot = snap, si_memory_file = fl\<rparr>" if "set ps \<subseteq> {MANIFEST_TMP_FILE}" for ps
      using publish_selects [OF pub _ _ files that, of removed] range same [of ps d2] that by auto
    from this [of "if q = Failed then [MANIFEST_TMP_FILE] else []"] show ?thesis
      unfolding result by (auto simp: remove_files_def split: if_splits)
  next
    case Failed
    then show ?thesis
      using Inr prep same [of "generation_files g" d1] by (simp add: write_generation_def cleanup_unpublished_generation_def subset_insertI)
  next
    case Crashed
    then show ?thesis
      using Inr prep same [of "[]" d1] by (simp add: write_generation_def remove_files_def)
  qed
qed

end
