(* ===== verification/SnapshotMap.thy ===== *)
theory SnapshotMap
  imports SnapshotChain
begin

text \<open>
  Restoring by mapping, \<^verbatim>\<open>map_memory_chain_private\<close> of \<^verbatim>\<open>vmm/src/snapshot/mod.rs\<close> and \<^verbatim>\<open>create_guest_memory_private\<close> of \<^verbatim>\<open>vmm/src/memory.rs\<close>: the memory file of the deepest full layer is mapped privately and the deltas above it are applied
  to the mapping, the oldest first. A private mapping of a file that nobody changes is a copy of its bytes; assembling the regions is the memory crate's check that they are sorted, disjoint and within the address space. The private mapping is that of Unix; the one of Windows does not check for bytes after the last region.
\<close>

section \<open>Mapping\<close>

fun private_from :: "nat \<Rightarrow> bytes \<Rightarrow> mem_region list \<Rightarrow> (guest_memory \<times> nat) snap_result" where
  "private_from next_off fl [] = Inr ([], next_off)"
| "private_from next_off fl (r # rs) =
     rbind (ensure (mr_gpa r mod DELTA_PAGE_SIZE = 0) ''snapshot memory region GPA is not page-aligned'') (\<lambda>_.
     rbind (ensure (mr_len r \<noteq> 0) ''snapshot memory region is empty'') (\<lambda>_.
     rbind (ensure (mr_len r mod DELTA_PAGE_SIZE = 0) ''snapshot memory region length is not page-aligned'') (\<lambda>_.
     rbind (ensure (mr_file_offset r mod DELTA_PAGE_SIZE = 0) ''snapshot memory region file offset is not page-aligned'') (\<lambda>_.
     rbind (ensure (mr_file_offset r = next_off) ''snapshot memory region file offset'') (\<lambda>_.
     case checked_add_u64 (mr_file_offset r) (mr_len r) of
       None \<Rightarrow> Inl ''snapshot memory region file offset overflows''
     | Some e \<Rightarrow>
         rbind (ensure (e \<le> length fl) ''snapshot memory region exceeds snapshot memory file length'') (\<lambda>_.
         rbind (private_from e fl rs) (\<lambda>(mem, stop). Inr ((mr_gpa r, take (mr_len r) (drop (mr_file_offset r) fl)) # mem, stop))))))))"

definition create_guest_memory_private :: "bytes \<Rightarrow> mem_region list \<Rightarrow> guest_memory snap_result" where
  "create_guest_memory_private fl regions =
     rbind (ensure (regions \<noteq> []) ''snapshot has no memory regions'') (\<lambda>_.
     rbind (private_from 0 fl regions) (\<lambda>(mem, stop).
     rbind (ensure (stop = length fl) ''snapshot memory regions do not cover the memory file'') (\<lambda>_.
     rbind (ensure (shape_ok (shape mem)) ''assembling private guest memory'') (\<lambda>_. Inr mem))))"

function walk_chain ::
  "target_arch \<Rightarrow> 'b \<Rightarrow> ('b, 'v, 'm) snapshot_store \<Rightarrow> mem_region list \<Rightarrow> ('b, 'v, 'm) snapshot_image \<Rightarrow> ('b, 'v, 'm) snapshot_image list \<Rightarrow> (('b, 'v, 'm) snapshot_image list \<times> ('b, 'v, 'm) snapshot_image) snap_result" where
  "walk_chain arch backend store expected layer deltas = (case sn_delta (si_snapshot layer) of
     None \<Rightarrow> Inr (deltas, layer)
   | Some d \<Rightarrow>
       if MAX_DELTA_CHAIN_DEPTH \<le> length deltas then Inl ''snapshot delta chain exceeds max depth''
       else if \<not> same_layout (sn_mem_regions (si_snapshot layer)) expected then Inl ''delta chain layer RAM layout differs from top snapshot''
       else rbind (base_dir_of (dm_base d)) (\<lambda>layer_dir.
         rbind (read_snapshot arch backend store layer_dir) (\<lambda>next_layer.
         walk_chain arch backend store expected next_layer (deltas @ [layer]))))"
  by pat_completeness auto
termination
  by (relation "measure (\<lambda>(_, _, _, _, _, deltas). MAX_DELTA_CHAIN_DEPTH - length deltas)") auto

declare walk_chain.simps [simp del]

fun apply_layers :: "mem_region list \<Rightarrow> ('b, 'v, 'm) snapshot_image list \<Rightarrow> guest_memory \<Rightarrow> guest_memory snap_result" where
  "apply_layers expected [] mem = Inr mem"
| "apply_layers expected (l # ls) mem = (case sn_delta (si_snapshot l) of
     None \<Rightarrow> Inl ''chain layers above the base are deltas''
   | Some d \<Rightarrow> rbind (apply_delta_pages (si_memory_file l) mem d expected) (\<lambda>mem'. apply_layers expected ls mem'))"

definition map_memory_chain_private :: "target_arch \<Rightarrow> 'b \<Rightarrow> ('b, 'v, 'm) snapshot_store \<Rightarrow> string \<Rightarrow> ('b, 'v, 'm) snapshot_image \<Rightarrow> guest_memory snap_result" where
  "map_memory_chain_private arch backend store dir img =
     (let expected = sn_mem_regions (si_snapshot img) in
      rbind (read_snapshot arch backend store dir) (\<lambda>top.
      rbind (walk_chain arch backend store expected top []) (\<lambda>(deltas, layer).
      rbind (ensure (same_layout (sn_mem_regions (si_snapshot layer)) expected) ''delta chain base RAM layout differs from top snapshot'') (\<lambda>_.
      rbind (create_guest_memory_private (si_memory_file layer) expected) (\<lambda>mem.
      apply_layers expected (rev deltas) mem)))))"

section \<open>It is the copy\<close>

lemma private_from_reads:
  "region_table_from off m = Inr rs \<Longrightarrow> off mod DELTA_PAGE_SIZE = 0 \<Longrightarrow> off + length (image_of m) \<le> length fl \<Longrightarrow>
     \<exists>mem. private_from off fl rs = Inr (mem, off + length (image_of m)) \<and> shape mem = shape m \<and> image_of mem = take (length (image_of m)) (drop off fl)"
proof (induction m arbitrary: off rs)
  case Nil
  then show ?case
    by (auto intro: exI [of _ "[]"])
next
  case (Cons x m)
  obtain s bs where x: "x = (s, bs)"
    by (cases x)
  obtain rs' where t: "s mod DELTA_PAGE_SIZE = 0" "bs \<noteq> []" "length bs mod DELTA_PAGE_SIZE = 0" "off + length bs \<le> u64_max" "region_table_from (off + length bs) m = Inr rs'"
      "rs = \<lparr>mr_gpa = s, mr_len = length bs, mr_file_offset = off\<rparr> # rs'"
    using Cons.prems(1) unfolding x table_step by auto
  have aligned: "(off + length bs) mod DELTA_PAGE_SIZE = 0"
    using Cons.prems(2) t(3) by (auto simp: mod_eq_0_iff_dvd)
  let ?dat = "take (length bs) (drop off fl)"
  obtain mem where mem: "private_from (off + length bs) fl rs' = Inr (mem, off + length bs + length (image_of m))" "shape mem = shape m" "image_of mem = take (length (image_of m)) (drop (off + length bs) fl)"
    using Cons.IH [OF t(5) aligned] Cons.prems(3) x by auto
  have "image_of ((s, ?dat) # mem) = take (length (image_of (x # m))) (drop off fl)"
    using mem(3) x by (simp add: take_add add.commute)
  then show ?case
    using mem t Cons.prems(2,3) x by (intro exI [of _ "(s, ?dat) # mem"]) (simp add: checked_add_u64_def ensure_def)
qed

lemma private_from_stop: "private_from off fl rs = Inr (mem, stop) \<Longrightarrow> stop = off + sum_list (map mr_len rs)"
proof (induction rs arbitrary: off mem)
  case (Cons r rs)
  obtain mem' where "private_from (mr_file_offset r + mr_len r) fl rs = Inr (mem', stop)" "mr_file_offset r = off"
    using Cons.prems by (auto simp: rbind_eq_Inr checked_add_u64_def split: option.splits if_splits)
  then show ?case
    using Cons.IH [of "off + mr_len r" mem'] by simp
qed simp

lemma private_is_copy:
  assumes table: "memory_region_table m = Inr rs" and ok: "shape_ok (shape m)"
  shows "create_guest_memory_private fl rs = Inr x \<longleftrightarrow> load_memory_file fl m rs = Inr x"
proof (cases "length fl = length (image_of m)")
  case True
  note t = table_total [OF table]
  have "rs \<noteq> []"
    using table by (auto simp: memory_region_table_def rbind_eq_Inr)
  obtain mem where mem: "private_from 0 fl rs = Inr (mem, length (image_of m))" "shape mem = shape m" "image_of mem = fl"
    using private_from_reads [OF t(1), of fl] True by auto
  obtain m' where m': "load_memory_file fl m rs = Inr m'" "shape m' = shape m" "image_of m' = fl"
    using load_memory_file_reads [OF table ok True] by blast
  have "mem = m'"
    using mem m' by (intro shape_image_eq) simp_all
  moreover have "create_guest_memory_private fl rs = Inr mem"
    using mem(1,2) ok True \<open>rs \<noteq> []\<close> by (simp add: create_guest_memory_private_def ensure_def)
  ultimately show ?thesis
    using m'(1) by simp
next
  case False
  have "sum_list (map mr_len rs) = length (image_of m)"
    using table_bound [OF table_total(1) [OF table]] by simp
  then have "create_guest_memory_private fl rs \<noteq> Inr x"
    using False private_from_stop [of 0 fl rs] by (auto simp: create_guest_memory_private_def rbind_eq_Inr)
  then show ?thesis
    using False load_memory_file_inv(2) by blast
qed

lemma apply_layers_append: "apply_layers expected (xs @ ys) mem = Inr m \<longleftrightarrow> (\<exists>m'. apply_layers expected xs mem = Inr m' \<and> apply_layers expected ys m' = Inr m)"
proof (induction xs arbitrary: mem)
  case (Cons x xs)
  then show ?case
    by (cases "sn_delta (si_snapshot x)") (auto simp: rbind_eq_Inr)
qed simp

lemma walk_full: "sn_delta (si_snapshot layer) = None \<Longrightarrow> walk_chain arch backend store expected layer deltas = Inr (deltas, layer)"
  by (simp add: walk_chain.simps)

lemma walk_delta:
  "sn_delta (si_snapshot layer) = Some d \<Longrightarrow> walk_chain arch backend store expected layer deltas = Inr y \<longleftrightarrow>
     length deltas < MAX_DELTA_CHAIN_DEPTH \<and> sn_mem_regions (si_snapshot layer) = expected \<and> base_dir_of (dm_base d) = Inr (dm_base d) \<and>
     (\<exists>next_layer. read_snapshot arch backend store (dm_base d) = Inr next_layer \<and> walk_chain arch backend store expected next_layer (deltas @ [layer]) = Inr y)"
  by (auto simp: walk_chain.simps [of arch backend store expected layer] same_layout_eq base_dir_of_def rbind_eq_Inr not_le)

lemma walk_extends: "walk_chain arch backend store expected layer deltas = Inr (x, base) \<Longrightarrow> \<exists>ds. x = deltas @ ds"
proof (induction "MAX_DELTA_CHAIN_DEPTH - length deltas" arbitrary: layer deltas rule: less_induct)
  case less
  show ?case
  proof (cases "sn_delta (si_snapshot layer)")
    case None
    then show ?thesis
      using less.prems by (simp add: walk_full)
  next
    case (Some d)
    obtain next_layer where n: "length deltas < MAX_DELTA_CHAIN_DEPTH" "walk_chain arch backend store expected next_layer (deltas @ [layer]) = Inr (x, base)"
      using less.prems unfolding walk_delta [OF Some] by blast
    from n(1) have "MAX_DELTA_CHAIN_DEPTH - length (deltas @ [layer]) < MAX_DELTA_CHAIN_DEPTH - length deltas"
      by simp
    then obtain ds where "x = (deltas @ [layer]) @ ds"
      using less.hyps n(2) by blast
    then show ?thesis
      by simp
  qed
qed

text \<open>The memory a chain denotes, read off the walk.\<close>

definition walked :: "target_arch \<Rightarrow> 'b \<Rightarrow> ('b, 'v, 'm) snapshot_store \<Rightarrow> guest_memory \<Rightarrow> mem_region list \<Rightarrow> ('b, 'v, 'm) snapshot_image \<Rightarrow> ('b, 'v, 'm) snapshot_image list \<Rightarrow> guest_memory \<Rightarrow> bool" where
  "walked arch backend store mem expected layer deltas m \<longleftrightarrow>
     (\<exists>ds base m0. walk_chain arch backend store expected layer deltas = Inr (deltas @ ds, base) \<and> sn_mem_regions (si_snapshot base) = expected \<and>
        load_memory_file (si_memory_file base) mem expected = Inr m0 \<and> apply_layers expected (rev ds) m0 = Inr m)"

lemma walked_delta:
  assumes "sn_delta (si_snapshot layer) = Some d"
  shows "walked arch backend store mem expected layer deltas m \<longleftrightarrow>
     length deltas < MAX_DELTA_CHAIN_DEPTH \<and> sn_mem_regions (si_snapshot layer) = expected \<and> base_dir_of (dm_base d) = Inr (dm_base d) \<and>
     (\<exists>next_layer m'. read_snapshot arch backend store (dm_base d) = Inr next_layer \<and> walked arch backend store mem expected next_layer (deltas @ [layer]) m' \<and> apply_delta_pages (si_memory_file layer) m' d expected = Inr m)"
    (is "?l \<longleftrightarrow> ?r")
proof
  assume ?l
  then obtain ds base m0 where w: "walk_chain arch backend store expected layer deltas = Inr (deltas @ ds, base)" "sn_mem_regions (si_snapshot base) = expected"
      "load_memory_file (si_memory_file base) mem expected = Inr m0" "apply_layers expected (rev ds) m0 = Inr m"
    by (auto simp: walked_def)
  obtain next_layer where n: "length deltas < MAX_DELTA_CHAIN_DEPTH" "sn_mem_regions (si_snapshot layer) = expected" "base_dir_of (dm_base d) = Inr (dm_base d)"
      "read_snapshot arch backend store (dm_base d) = Inr next_layer" "walk_chain arch backend store expected next_layer (deltas @ [layer]) = Inr (deltas @ ds, base)"
    using w(1) unfolding walk_delta [OF assms] by blast
  obtain ds' where ds: "ds = layer # ds'"
    using walk_extends [OF n(5)] by auto
  obtain m' where "apply_layers expected (rev ds') m0 = Inr m'" "apply_delta_pages (si_memory_file layer) m' d expected = Inr m"
    using w(4) assms unfolding ds by (auto simp: apply_layers_append rbind_eq_Inr)
  moreover from this have "walked arch backend store mem expected next_layer (deltas @ [layer]) m'"
    using n(5) w(2,3) unfolding walked_def ds by auto
  ultimately show ?r
    using n by blast
next
  assume ?r
  then obtain next_layer m' ds base m0 where n: "length deltas < MAX_DELTA_CHAIN_DEPTH" "sn_mem_regions (si_snapshot layer) = expected" "base_dir_of (dm_base d) = Inr (dm_base d)" "read_snapshot arch backend store (dm_base d) = Inr next_layer"
      "apply_delta_pages (si_memory_file layer) m' d expected = Inr m" "walk_chain arch backend store expected next_layer (deltas @ [layer]) = Inr ((deltas @ [layer]) @ ds, base)"
      "sn_mem_regions (si_snapshot base) = expected" "load_memory_file (si_memory_file base) mem expected = Inr m0" "apply_layers expected (rev ds) m0 = Inr m'"
    unfolding walked_def by blast
  have "walk_chain arch backend store expected layer deltas = Inr (deltas @ layer # ds, base)"
    unfolding walk_delta [OF assms] using n(1-4,6) by auto
  moreover have "apply_layers expected (rev (layer # ds)) m0 = Inr m"
    using n(5,9) assms by (auto simp: apply_layers_append)
  ultimately show ?l
    using n(7,8) unfolding walked_def by blast
qed

lemma walk_is_load:
  "length deltas \<le> MAX_DELTA_CHAIN_DEPTH \<Longrightarrow> load_layer arch backend store layer mem expected (length deltas) = Inr m \<longleftrightarrow> walked arch backend store mem expected layer deltas m"
proof (induction "MAX_DELTA_CHAIN_DEPTH - length deltas" arbitrary: layer deltas m rule: less_induct)
  case less
  have now: "\<not> MAX_DELTA_CHAIN_DEPTH < length deltas"
    using less.prems by simp
  show ?case
  proof (cases "sn_delta (si_snapshot layer)")
    case None
    then show ?thesis
      using load_layer_full [OF None now, of expected arch backend store mem] load_layer_entry(2) [of arch backend store layer mem expected "length deltas" m]
      by (cases "sn_mem_regions (si_snapshot layer) = expected") (auto simp: walked_def walk_full)
  next
    case (Some d)
    let ?next = "\<lambda>next_layer m'. load_layer arch backend store next_layer mem expected (Suc (length deltas)) = Inr m'"
    have step: "load_layer arch backend store layer mem expected (length deltas) = Inr m \<longleftrightarrow> sn_mem_regions (si_snapshot layer) = expected \<and> base_dir_of (dm_base d) = Inr (dm_base d) \<and>
        (\<exists>next_layer m'. read_snapshot arch backend store (dm_base d) = Inr next_layer \<and> ?next next_layer m' \<and> apply_delta_pages (si_memory_file layer) m' d expected = Inr m)"
      using load_layer_delta [OF Some now] load_layer_entry(2) [of arch backend store layer mem expected "length deltas" m] by (auto simp: base_dir_of_def rbind_eq_Inr)
    have rest: "?next next_layer m' \<longleftrightarrow> length deltas < MAX_DELTA_CHAIN_DEPTH \<and> walked arch backend store mem expected next_layer (deltas @ [layer]) m'" for next_layer m'
    proof (cases "length deltas < MAX_DELTA_CHAIN_DEPTH")
      case True
      then show ?thesis
        using less.hyps [of "deltas @ [layer]" next_layer m'] by simp
    next
      case False
      then show ?thesis
        using load_layer_entry(1) [of arch backend store next_layer mem expected "Suc (length deltas)" m'] by auto
    qed
    show ?thesis
      unfolding step walked_delta [OF Some] rest by blast
  qed
qed

text \<open>
  C38: Mapping a snapshot gives the same memory as copying it. For a snapshot that was read from its directory, and any memory with the snapshot's regions, the lazy restore succeeds with a memory exactly when the copying restore does with the same
  memory: the private mapping of the deepest full layer with the deltas applied upwards is what the recursion from the top downwards computes, up to the same depth.
\<close>

theorem map_chain_equals_load:
  assumes read: "read_snapshot arch backend store dir = Inr img" and table: "memory_region_table mem = Inr (sn_mem_regions (si_snapshot img))" and ok: "shape_ok (shape mem)"
  shows "map_memory_chain_private arch backend store dir img = Inr m \<longleftrightarrow> load_memory_chain arch backend store img mem = Inr m"
proof -
  let ?e = "sn_mem_regions (si_snapshot img)"
  have "load_memory_chain arch backend store img mem = Inr m \<longleftrightarrow> walked arch backend store mem ?e img [] m"
    using walk_is_load [of "[]" arch backend store img mem ?e m] layout_same_shape(2) [OF table refl] by (simp add: load_memory_chain_def)
  also have "\<dots> \<longleftrightarrow> map_memory_chain_private arch backend store dir img = Inr m"
    using read private_is_copy [OF table ok] by (auto simp: walked_def map_memory_chain_private_def Let_def rbind_eq_Inr same_layout_eq)
  finally show ?thesis ..
qed

text \<open>The delta of the earlier demonstration, mapped.\<close>

theorem map_chain_equals_load_witness:
  "\<exists>store' img. write_snapshot X86_64 () ''next'' (Some ''base'') demo_live None demo_machine demo_snapshots = Inr store' \<and>
     read_snapshot X86_64 () store' ''next'' = Inr img \<and> map_memory_chain_private X86_64 () store' ''next'' img = Inr demo_live"
proof -
  let ?img = "\<lparr>si_snapshot = demo_machine demo_regions (Some demo_delta), si_memory_file = replicate 4096 1\<rparr>"
  let ?store = "demo_snapshots(''next'' \<mapsto> ?img)"
  have build: "sn_mem_regions (demo_machine rs d) = rs \<and> sn_delta (demo_machine rs d) = d" for rs d
    by (simp add: demo_machine_def)
  have ok: "shape_ok (shape demo_live)"
    by (simp add: shape_ok_def demo_live_def)
  have "\<exists>img. read_snapshot X86_64 () ?store ''next'' = Inr img \<and> load_memory_chain X86_64 () ?store img demo_live = Inr demo_live"
  proof (rule write_loads [OF demo_write ok build _ _ refl])
    fix b img rs bm
    assume "Some ''base'' = Some b" and read: "read_snapshot X86_64 () demo_snapshots b = Inr img" and load: "load_layer X86_64 () demo_snapshots img demo_live rs 1 = Inr bm"
    then have b: "b = ''base''" and img: "img = demo_base_image"
      using demo_read by auto
    have "sn_delta (si_snapshot img) = None"
      by (simp add: img demo_base_image_def demo_machine_def)
    then show "read_snapshot X86_64 () ?store b = Inr img \<and> load_layer X86_64 () ?store img demo_live rs 1 = Inr bm"
      using read load load_layer_full [OF _ load_layer_entry [OF load]] b by (simp add: read_snapshot_def)
  qed (simp add: log_good_def log_names_def split: sum.split)
  then obtain img where img: "read_snapshot X86_64 () ?store ''next'' = Inr img" "load_memory_chain X86_64 () ?store img demo_live = Inr demo_live"
    by blast
  have "memory_region_table demo_live = Inr (sn_mem_regions (si_snapshot img))"
    using read_snapshot_stored [OF img(1)] demo_table(1) by (auto simp: demo_machine_def)
  from map_chain_equals_load [OF img(1) this ok] img demo_write show ?thesis
    by blast
qed

end
