(* ===== verification/Spec2Isabelle.thy ===== *)
theory Spec2Isabelle
  imports LeaseMesh RecordProps AgentProto DiskDeltaProps WorkerPool Membership Placement IoApic PciRoot VirtioMmio GuestNet
    StreamFollow LeaderLease Autoscaler Scheduler Replication Actors EgressPolicy Vpc RunnerProtocol SnapshotSession SnapshotFiles SnapshotMap
begin

text \<open>
  A verification development for vibemon, a manager of micro virtual machines written in Rust. The
  program has three layers: a virtual machine monitor (\<^verbatim>\<open>vmm/\<close>) that runs one guest on KVM, HVF or
  WHP with virtio devices; a guest agent (\<^verbatim>\<open>agent/\<close>) that executes commands in the guest and talks to the host over a
  console byte stream; and a daemon (\<^verbatim>\<open>vmond/\<close>) that creates and snapshots sandboxes, schedules function calls onto
  workers, gives guests their network, and joins other daemons in a mesh that shares volume leases,
  create records and placement. The theories model the parts that decide something: protocols, allocators,
  schedulers, device register files and on-disk formats. Each definition follows one function or type of the source; what the source takes
  from outside the repository or from the operating system is an argument.

  \<^bold>\<open>Foundations.\<close> \<^verbatim>\<open>Prelude\<close> has the error codes of \<^verbatim>\<open>vmond/src/error.rs\<close>, results as sums, and the list, map and word lemmas the
  components share. \<^verbatim>\<open>F64\<close> defines IEEE binary64 arithmetic on rationals (rounding to nearest even, NaN, infinities, casts), since clocks, lease times
  and scores are of that type. \<^verbatim>\<open>Json\<close> has \<^verbatim>\<open>serde_json\<close> values and accessors, \<^verbatim>\<open>RustText\<close> the parsing and formatting of numbers, \<^verbatim>\<open>BusAccess\<close> the
  little-endian bus accesses of devices. \<^verbatim>\<open>Quorum\<close> and \<^verbatim>\<open>Allocator\<close> are contracts: two majorities meet, and an exclusive allocator.

  \<^bold>\<open>Volume leases\<close> (\<^verbatim>\<open>vmond/src/mesh/lease.rs\<close>, the vote route of \<^verbatim>\<open>mesh/routes.rs\<close>). \<^verbatim>\<open>Lease\<close> models one node: its directory of votes, the
  three votes, and the majority request that votes locally, asks the peers and releases on failure. \<^verbatim>\<open>LeaseMesh\<close> runs majority requests of
  any nodes one after the other, with messages and file operations that fail and a clock per node, and shows that while a granted majority lease runs no other holder is
  granted the volume, for fixed members and whatever the JSON text of a lease file makes of its two numbers, that a granted lease is on the disks of a majority, and that a stored vote is stable until it expires.

  \<^bold>\<open>Create records\<close> (\<^verbatim>\<open>vmond/src/mesh/record.rs\<close>). \<^verbatim>\<open>RecordStore\<close> models the record map, its files and in-memory secrets with every
  operation; \<^verbatim>\<open>RecordInv\<close> its invariant, \<^verbatim>\<open>RecordRuns\<close> arbitrary runs of operations, and \<^verbatim>\<open>RecordProps\<close> shows that a migration is either
  confirmed or aborted and never both, that epochs fence old owners, that one node wins a restore, that secrets never reach the disk and that a restart
  recovers the records, up to what the JSON text makes of floating-point numbers.

  \<^bold>\<open>Failover\<close> (\<^verbatim>\<open>vmond/src/mesh/reconciler.rs\<close>). \<^verbatim>\<open>Reconciler\<close> models what a node does with the sandboxes of a dead one: the checks before a takeover, the claim guard, the restore from a replica (fresh or retained), the rerun and
  fencing. The traits it decides through are an environment that may answer anything and whose answers may depend on all earlier calls; the model keeps the log of calls. \<^verbatim>\<open>ReconcilerProps\<close> states the protocol as a predicate on logs and proves by
  weakest preconditions, and through a locale for the clients of the decision, that every log obeys it: serving commits are guarded (after volume leases on the restore path; the rerun path asks for none), claims are given back only after a confirmed teardown, takeovers are justified and orphans not forgotten. \<^verbatim>\<open>Replication\<close> adds the
  passes over all sandboxes: checkpoint replication and fencing.

  \<^bold>\<open>Membership and placement\<close> (\<^verbatim>\<open>mesh/state.rs\<close>, \<^verbatim>\<open>mesh/runtime.rs\<close>, \<^verbatim>\<open>mesh/place.rs\<close>). \<^verbatim>\<open>MeshState\<close> has node states and membership with their wire and disk forms,
  \<^verbatim>\<open>Membership\<close> the runtime's changes to it and the quorum's invariant, \<^verbatim>\<open>Blake2b\<close> the hash and rendezvous hashing, and \<^verbatim>\<open>Placement\<close> the gates, scores
  and choice of a node with the contract of function-worker placement.

  \<^bold>\<open>Function scheduling\<close> (\<^verbatim>\<open>vmond/src/function/scheduler.rs\<close>). \<^verbatim>\<open>FairQueue\<close> is the queue per revision with its weighted turns (first-in first-out per revision, no
  starvation), \<^verbatim>\<open>WorkerPool\<close> admission, scaling, retirement, batching and retry delays. \<^verbatim>\<open>Actors\<close> is the registry of pinned actors (\<^verbatim>\<open>function/actor.rs\<close>) with its
  serialization gates, run as a step relation with waiting and admitted callers.
  \<^verbatim>\<open>RunnerProtocol\<close> is the session with the runner in a sandbox (\<^verbatim>\<open>protocol.rs\<close>), its reader and exit threads interleaved with callers: replies reach their own request, output may be cut anywhere, an exit completes every open call,
  and a kill does not.

  \<^bold>\<open>Guest networks\<close> (\<^verbatim>\<open>vmond/src/net.rs\<close>, \<^verbatim>\<open>net/slots.rs\<close>). \<^verbatim>\<open>Ipv4\<close> has the CIDR arithmetic and its text, \<^verbatim>\<open>LeaseAlloc\<close> the /30 allocator and
  its journal written by a background thread, \<^verbatim>\<open>NetSlots\<close> the pool of preallocated slots and its egress policies, \<^verbatim>\<open>GuestNet\<close> the sandbox-facing
  operations over both, with the theorem that no two sandboxes share a network. \<^verbatim>\<open>EgressPolicy\<close> is the outbound policy (\<^verbatim>\<open>net/policy.rs\<close>): protected ranges, trusted exceptions, allowed names and the
  cache of resolved answers; a lookup that succeeds is of an allowed name and returns allowed addresses only, and a trusted exception never reaches outside the protected blocks. \<^verbatim>\<open>Vpc\<close> is the registry of the tenants' private networks
  (\<^verbatim>\<open>engine/vpc.rs\<close>): networks never overlap, an address has one holder and a tenant cannot touch another's networks, whichever writes of the registry file fail.

  \<^bold>\<open>Orchestration\<close> (\<^verbatim>\<open>vmond/src/orch/\<close>). Stateless schedulers share a Redis with the workers. \<^verbatim>\<open>Utf8\<close> and \<^verbatim>\<open>Resp\<close> are the wire format from both ends (\<^verbatim>\<open>redis.rs\<close>,
  \<^verbatim>\<open>miniredis.rs\<close>), \<^verbatim>\<open>MiniRedis\<close> the embedded server, \<^verbatim>\<open>RedisClient\<close>, \<^verbatim>\<open>RedisOps\<close> and \<^verbatim>\<open>StreamFollow\<close> the client: retried calls over a transport that loses requests and replies, the cursor walk, the
  pipeline and the stream follower. \<^verbatim>\<open>OrchTable\<close> is a scheduler's table of workers (\<^verbatim>\<open>table.rs\<close>; \<^verbatim>\<open>F64Ratio\<close> has the rounding lemmas its capacity test needs), \<^verbatim>\<open>LeaderLease\<close> and \<^verbatim>\<open>Controller\<close> the elected janitor (\<^verbatim>\<open>controller.rs\<close>),
  \<^verbatim>\<open>Autoscaler\<close> the scaling plan (\<^verbatim>\<open>autoscaler.rs\<close>; \<^verbatim>\<open>SortBy\<close> is the stable sort), and \<^verbatim>\<open>Scheduler\<close> creates: the placement loop with its reservations and the idempotency gate (\<^verbatim>\<open>sched.rs\<close>). The
  theorems run the client against the server through the bytes on the wire: leadership is exclusive under interleaved calls as long as renewals reach the server in time, a scan collects every page, the janitor takes only routes of workers that are gone and repairs all of them, a create leaks no reservation, a repeated create starts nothing while Redis answers; and
  where a lost reply or a late renewal breaks such a promise, that is a theorem too.

  \<^bold>\<open>Streams and images.\<close> \<^verbatim>\<open>AgentProto\<close> is the agent's frame protocol with resynchronisation (\<^verbatim>\<open>agent/src/proto.rs\<close>); \<^verbatim>\<open>DiskDelta\<close> and \<^verbatim>\<open>DiskDeltaProps\<close>
  are the block delta between disk images (\<^verbatim>\<open>vmond/src/engine/diskdelta.rs\<close>), shown to round-trip whatever the chunking of the parallel comparison.

  \<^bold>\<open>Devices\<close> (\<^verbatim>\<open>vmm/\<close>). \<^verbatim>\<open>IoApic\<close> is the userspace IOAPIC (\<^verbatim>\<open>hv/whp/ioapic.rs\<close>), refined to a table of pins; \<^verbatim>\<open>PciRoot\<close> the PCI
  host bridge (\<^verbatim>\<open>devices/pci.rs\<close>); \<^verbatim>\<open>VirtioMmio\<close> the virtio-mmio transport (\<^verbatim>\<open>virtio/mmio.rs\<close>).

  \<^bold>\<open>Virtual machine snapshots\<close> (\<^verbatim>\<open>vmm/src/snapshot/mod.rs\<close>, with the layout of \<^verbatim>\<open>memory.rs\<close> and \<^verbatim>\<open>layout.rs\<close> and the snapshot command of \<^verbatim>\<open>vmm.rs\<close>). \<^verbatim>\<open>SnapshotCheck\<close> is the saved state with every check that a snapshot passes before it is
  restored: accepted queues lie in guest memory and accepted devices overlap nothing. \<^verbatim>\<open>SnapshotMem\<close> writes memory files: the sparse full dump, the page delta found by comparing all pages in parallel chunks and the one found through a dirty log, both equal to one
  reference. \<^verbatim>\<open>SnapshotChain\<close> reads chains of deltas back and proves the round trip, and \<^verbatim>\<open>SnapshotMap\<close> shows that the lazy restore by a private mapping gives the same memory. \<^verbatim>\<open>SnapshotSession\<close> runs a machine with writes, snapshot commands and the window of dirty-page tracking: every snapshot of a session into a new directory restores the memory of its moment, and a
  delta written over a directory of its base's own chain, which the command accepts, loses both. \<^verbatim>\<open>SnapshotFiles\<close> is the directory below: whatever fails or crashes, it selects the old generation or the complete new one.

  \<^bold>\<open>Termination and bounds.\<close> No definition uses fuel. Loops over lists are structural; the others have a measure (the remaining stream of the frame reader, the depth left of a snapshot chain, the
  remaining length of a delta, the bytes a connection still delivers), and the cursor walk of the Redis client, which a server could keep going for ever, is a partial function proved to return against every server whose cursors end, the embedded one among them. A wait that its polls do not end is the value \<^const>\<open>None\<close>. Lengths and counters that the source keeps in machine words are words, or naturals with
  their maximum, where a value can reach it.

  \<^bold>\<open>Coarser than the source.\<close> Requests of the lease mesh do not overlap; a request to the runner is admitted in one step and submitted in a second one, although the source takes the lock of the pending table more than once in the
  latter; the pool of network slots is filled before its users start, where the source fills it in the background; the state of a snapshot is stored as a value, its \<^verbatim>\<open>postcard\<close> encoding and the size limit of that encoding left out; file
  operations of a snapshot directory become durable in their order, so that the calls that sync do nothing; the private mapping is that of Unix.

  \<^bold>\<open>Not modelled.\<close> The hypervisor backends, vCPU loops, VFIO and other virtio devices act on hardware and guest memory; the engine facade, the gRPC and HTTP
  routes, the command line and the web interface are I/O around the decisions modelled here; the function store and the cluster store are SQL; image conversion and object
  storage call external tools. Of the components modelled in part, the manifest names what is missing.
\<close>

end
